(* ===== verification/FDFS_Prelude.thy ===== *)
theory FDFS_Prelude
  imports Main "HOL-Library.Word" "HOL-Library.List_Lexorder" "HOL-Library.Multiset"
begin

text \<open>
  Shared vocabulary of the development: the C error numbers the sources return, the
  machine types (\<open>byte\<close>, the wrap-around of a signed \<open>int\<close>), a model of \<open>memcmp\<close>, and
  the list facts that several components use (key-sorted lists, splitting them at a key).
\<close>

section \<open>Collections of facts\<close>

named_theorems fdfs_defs \<open>definitions that a component proof unfolds\<close>

section \<open>Error numbers of errno.h\<close>

abbreviation (input) EPERM :: int where "EPERM \<equiv> 1"
abbreviation (input) ENOENT :: int where "ENOENT \<equiv> 2"
abbreviation (input) EIO :: int where "EIO \<equiv> 5"
abbreviation (input) ENOMEM :: int where "ENOMEM \<equiv> 12"
abbreviation (input) EEXIST :: int where "EEXIST \<equiv> 17"
abbreviation (input) ENOTDIR :: int where "ENOTDIR \<equiv> 20"
abbreviation (input) EINVAL :: int where "EINVAL \<equiv> 22"
abbreviation (input) ENOSPC :: int where "ENOSPC \<equiv> 28"

section \<open>Machine integers\<close>

type_synonym byte = "8 word"

text \<open>The value of a C \<open>int\<close> expression whose mathematical value is \<open>x\<close>: 32 bits, two's complement.\<close>

definition c_int :: "int \<Rightarrow> int" where
  "c_int x = signed_take_bit 31 x"

definition int_range :: "int \<Rightarrow> bool" where
  "int_range x \<longleftrightarrow> - (2 ^ 31) \<le> x \<and> x < 2 ^ 31"

lemma c_int_id [simp]: "int_range x \<Longrightarrow> c_int x = x"
  by (simp add: c_int_def int_range_def signed_take_bit_int_eq_self)

lemma int_range_c_int [simp]: "int_range (c_int x)"
  using signed_take_bit_int_less_exp [of 31 x] signed_take_bit_int_greater_eq_minus_exp [of 31 x]
  by (simp add: c_int_def int_range_def)

lemma int_range_diff_nonneg: "\<lbrakk>0 \<le> a; a < 2 ^ 31; 0 \<le> b; b < 2 ^ 31\<rbrakk> \<Longrightarrow> int_range (a - b)"
  by (simp add: int_range_def)

lemma unat_inj [simp]: "(unat a = unat b) = (a = b)" for a b :: byte
  by (simp add: word_unat_eq_iff)

lemma unat_byte_less [simp]: "unat (c :: byte) < 256"
  using unsigned_less [of c] by simp

section \<open>memcmp\<close>

text \<open>
  The sign of \<open>memcmp\<close> is that of the first byte that differs; the value is the difference of
  the two bytes. All callers compare blocks of equal length.
\<close>

fun memcmp :: "byte list \<Rightarrow> byte list \<Rightarrow> int" where
  "memcmp (x # xs) (y # ys) = (if x = y then memcmp xs ys else uint x - uint y)"
| "memcmp _ _ = 0"

lemma uint_diff_neg [simp]: "(uint (x :: byte) - uint y < 0) = (x < y)"
  by (simp add: word_less_def)

lemma memcmp_less: "length xs = length ys \<Longrightarrow> (memcmp xs ys < 0) = (xs < ys)"
proof (induction xs ys rule: memcmp.induct)
  case (1 x xs y ys)
  then show ?case by (auto simp: word_less_def)
qed auto

lemma memcmp_eq: "length xs = length ys \<Longrightarrow> (memcmp xs ys = 0) = (xs = ys)"
proof (induction xs ys rule: memcmp.induct)
  case (1 x xs y ys)
  then show ?case by (auto simp: word_uint_eq_iff)
qed auto

lemma memcmp_greater: "length xs = length ys \<Longrightarrow> (0 < memcmp xs ys) = (ys < xs)"
  using memcmp_less [of xs ys] memcmp_eq [of xs ys]
  by (metis not_less_iff_gr_or_eq)

section \<open>Lists sorted by a key\<close>

definition sorted_key :: "('a \<Rightarrow> 'k::linorder) \<Rightarrow> 'a list \<Rightarrow> bool" where
  "sorted_key key xs = sorted_wrt (\<lambda>a b. key a < key b) xs"

lemma sorted_key_Nil [simp]: "sorted_key key []"
  by (simp add: sorted_key_def)

lemma sorted_key_Cons [simp]:
  "sorted_key key (x # xs) \<longleftrightarrow> (\<forall>y \<in> set xs. key x < key y) \<and> sorted_key key xs"
  by (simp add: sorted_key_def)

lemma sorted_key_append [simp]:
  "sorted_key key (xs @ ys) \<longleftrightarrow>
     sorted_key key xs \<and> sorted_key key ys \<and> (\<forall>x \<in> set xs. \<forall>y \<in> set ys. key x < key y)"
  by (simp add: sorted_key_def sorted_wrt_append)

lemma sorted_key_inj: "\<lbrakk>sorted_key key xs; x \<in> set xs; y \<in> set xs; key x = key y\<rbrakk> \<Longrightarrow> x = y"
proof (induction xs)
  case (Cons a xs)
  then show ?case by (metis less_irrefl set_ConsD sorted_key_Cons)
qed simp

lemma sorted_key_distinct: "sorted_key key xs \<Longrightarrow> distinct (map key xs)"
  by (induction xs) auto

lemma sorted_key_map: "map key xs = map key ys \<Longrightarrow> sorted_key key xs = sorted_key key ys"
  by (metis sorted_key_def sorted_wrt_map)

lemma sorted_key_filter [simp]: "sorted_key key xs \<Longrightarrow> sorted_key key (filter P xs)"
  by (induction xs) auto

text \<open>What inserting, replacing and deleting at a key mean on the sorted list.\<close>

definition keys_below :: "('a \<Rightarrow> 'k::linorder) \<Rightarrow> 'k \<Rightarrow> 'a list \<Rightarrow> 'a list" where
  "keys_below key k xs = filter (\<lambda>y. key y < k) xs"

definition keys_above :: "('a \<Rightarrow> 'k::linorder) \<Rightarrow> 'k \<Rightarrow> 'a list \<Rightarrow> 'a list" where
  "keys_above key k xs = filter (\<lambda>y. k < key y) xs"

definition put_key :: "('a \<Rightarrow> 'k::linorder) \<Rightarrow> 'a \<Rightarrow> 'a list \<Rightarrow> 'a list" where
  "put_key key x xs = keys_below key (key x) xs @ x # keys_above key (key x) xs"

definition del_key :: "('a \<Rightarrow> 'k::linorder) \<Rightarrow> 'k \<Rightarrow> 'a list \<Rightarrow> 'a list" where
  "del_key key k xs = filter (\<lambda>y. key y \<noteq> k) xs"

lemma keys_below_append [simp]: "keys_below key k (xs @ ys) = keys_below key k xs @ keys_below key k ys"
  and keys_above_append [simp]: "keys_above key k (xs @ ys) = keys_above key k xs @ keys_above key k ys"
  by (simp_all add: keys_below_def keys_above_def)

lemma keys_below_Cons [simp]:
    "keys_below key k (x # xs) = (if key x < k then x # keys_below key k xs else keys_below key k xs)"
  and keys_above_Cons [simp]:
    "keys_above key k (x # xs) = (if k < key x then x # keys_above key k xs else keys_above key k xs)"
  and keys_below_Nil [simp]: "keys_below key k [] = []"
  and keys_above_Nil [simp]: "keys_above key k [] = []"
  by (simp_all add: keys_below_def keys_above_def)

lemma keys_below_all: "\<forall>y \<in> set xs. key y < k \<Longrightarrow> keys_below key k xs = xs"
  and keys_above_all: "\<forall>y \<in> set xs. k < key y \<Longrightarrow> keys_above key k xs = xs"
  by (simp_all add: keys_below_def keys_above_def filter_id_conv)

lemma keys_below_none: "\<forall>y \<in> set xs. k \<le> key y \<Longrightarrow> keys_below key k xs = []"
  and keys_above_none: "\<forall>y \<in> set xs. key y \<le> k \<Longrightarrow> keys_above key k xs = []"
  by (simp_all add: keys_below_def keys_above_def filter_empty_conv not_less)

lemma del_key_append [simp]: "del_key key k (xs @ ys) = del_key key k xs @ del_key key k ys"
  and del_key_Cons [simp]:
    "del_key key k (x # xs) = (if key x = k then del_key key k xs else x # del_key key k xs)"
  and del_key_Nil [simp]: "del_key key k [] = []"
  by (simp_all add: del_key_def)

lemma del_key_absent: "\<forall>y \<in> set xs. key y \<noteq> k \<Longrightarrow> del_key key k xs = xs"
  by (simp add: del_key_def filter_id_conv)

lemma set_put_key: "set (put_key key x xs) = insert x {y \<in> set xs. key y \<noteq> key x}"
  by (auto simp: put_key_def keys_below_def keys_above_def)

lemma set_del_key [simp]: "set (del_key key k xs) = {y \<in> set xs. key y \<noteq> k}"
  by (simp add: del_key_def)

lemma sorted_put_key: "sorted_key key xs \<Longrightarrow> sorted_key key (put_key key x xs)"
  by (auto simp: put_key_def keys_below_def keys_above_def intro: less_trans)

lemma sorted_del_key: "sorted_key key xs \<Longrightarrow> sorted_key key (del_key key k xs)"
  by (simp add: del_key_def)

lemma mset_put_key:
  assumes "\<forall>y \<in> set xs. key y \<noteq> key x"
  shows "mset (put_key key x xs) = add_mset x (mset xs)"
proof -
  have "filter (\<lambda>y. key x < key y) xs = filter (\<lambda>y. \<not> key y < key x) xs"
    using assms by (intro filter_cong refl) (metis not_less_iff_gr_or_eq)
  moreover have "mset (filter (\<lambda>y. key y < key x) xs) + mset (filter (\<lambda>y. \<not> key y < key x) xs) = mset xs"
    by (metis mset_filter multiset_partition)
  ultimately show ?thesis by (simp add: put_key_def keys_below_def keys_above_def)
qed

section \<open>Searching lists\<close>

lemma find_append:
  "List.find P (xs @ ys) = (case List.find P xs of Some z \<Rightarrow> Some z | None \<Rightarrow> List.find P ys)"
  by (induction xs) auto

lemma find_Some_mem: "List.find P xs = Some x \<Longrightarrow> x \<in> set xs \<and> P x"
  by (auto simp: find_Some_iff)

lemma find_sorted_least:
  "\<lbrakk>sorted_key key xs; List.find (\<lambda>y. k \<le> key y) xs = Some x; y \<in> set xs; k \<le> key y\<rbrakk>
     \<Longrightarrow> key x \<le> key y"
  by (induction xs) (auto split: if_splits)

end
