(* ===== verification/AVL_Tree.thy ===== *)
theory AVL_Tree
  imports FDFS_Prelude "HOL-Library.Monad_Syntax" "HOL-Library.Multiset"
begin

text \<open>
  The AVL tree of \<open>common/avl_tree.c\<close>. A subtree pointer is a value of \<open>AVLTreeNode\<close>, with
  \<open>NULL\<close> for the null pointer; a function that rewrites \<open>*pTreeNode\<close> returns the new subtree.
  Following a null pointer is the outcome \<open>None\<close>, so that the absence of such a dereference is
  something to prove. The flags \<open>taller\<close> and \<open>shorter\<close> are passed in and out as in the code.
  \<open>malloc\<close> may fail: whether the one \<open>malloc\<close> of an insertion succeeds is the argument \<open>mem\<close>.
  The data handed to \<open>free_data_func\<close> is returned as a list, in call order.
\<close>

section \<open>Data\<close>

datatype 'a AVLTreeNode =
  NULL
| AVLNode (left: "'a AVLTreeNode") (data: 'a) (balance: int) (right: "'a AVLTreeNode")

type_synonym 'a compare = "'a \<Rightarrow> 'a \<Rightarrow> int"

record 'a AVLTreeInfo =
  root :: "'a AVLTreeNode"
  free_data_func :: bool \<comment> \<open>whether the function pointer is non-null\<close>
  compare_func :: "'a compare"

definition avl_tree_init :: "bool \<Rightarrow> 'a compare \<Rightarrow> 'a AVLTreeInfo \<times> int" where
  "avl_tree_init free_func cmp = (\<lparr>root = NULL, free_data_func = free_func, compare_func = cmp\<rparr>, 0)"

fun avl_tree_destroy_loop :: "bool \<Rightarrow> 'a AVLTreeNode \<Rightarrow> 'a list" where
  "avl_tree_destroy_loop free_func NULL = []"
| "avl_tree_destroy_loop free_func (AVLNode l d b r) =
     avl_tree_destroy_loop free_func l @ avl_tree_destroy_loop free_func r @
     (if free_func then [d] else [])"

definition avl_tree_destroy :: "'a AVLTreeInfo \<Rightarrow> 'a AVLTreeInfo \<times> 'a list" where
  "avl_tree_destroy tree =
     (if root tree \<noteq> NULL
      then (tree\<lparr>root := NULL\<rparr>, avl_tree_destroy_loop (free_data_func tree) (root tree))
      else (tree, []))"

definition createTreeNode :: "bool \<Rightarrow> 'a \<Rightarrow> 'a AVLTreeNode" where
  "createTreeNode mem target_data = (if \<not> mem then NULL else AVLNode NULL target_data 0 NULL)"

section \<open>Rotations and rebalancing\<close>

fun avlRotateLeft :: "'a AVLTreeNode \<Rightarrow> 'a AVLTreeNode option" where
  "avlRotateLeft (AVLNode l d b (AVLNode rl rd rb rr)) = Some (AVLNode (AVLNode l d b rl) rd rb rr)"
| "avlRotateLeft _ = None"

fun avlRotateRight :: "'a AVLTreeNode \<Rightarrow> 'a AVLTreeNode option" where
  "avlRotateRight (AVLNode (AVLNode ll ld lb lr) d b r) = Some (AVLNode ll ld lb (AVLNode lr d b r))"
| "avlRotateRight _ = None"

text \<open>
  The inner \<open>switch (rightsub->balance)\<close> of the left cases, on the balances of the node and of its
  left child, and its mirror image on the right; a value outside \<open>-1, 0, 1\<close> changes nothing.
\<close>

definition leftSwitch :: "int \<Rightarrow> int \<times> int \<Rightarrow> int \<times> int" where
  "leftSwitch rb old =
     (if rb = -1 then (1, 0) else if rb = 0 then (0, 0) else if rb = 1 then (0, -1) else old)"

definition rightSwitch :: "int \<Rightarrow> int \<times> int \<Rightarrow> int \<times> int" where
  "rightSwitch lb old =
     (if lb = 1 then (-1, 0) else if lb = 0 then (0, 0) else if lb = -1 then (0, 1) else old)"

text \<open>The double rotation of the left (right) case: balances first, then the two rotations.\<close>

fun leftDouble :: "'a AVLTreeNode \<Rightarrow> 'a AVLTreeNode option" where
  "leftDouble (AVLNode (AVLNode ll ld lb (AVLNode ml md mb mr)) d b r) =
     (let (b', lb') = leftSwitch mb (b, lb) in do {
        l' \<leftarrow> avlRotateLeft (AVLNode ll ld lb' (AVLNode ml md 0 mr));
        avlRotateRight (AVLNode l' d b' r)
      })"
| "leftDouble _ = None"

fun rightDouble :: "'a AVLTreeNode \<Rightarrow> 'a AVLTreeNode option" where
  "rightDouble (AVLNode l d b (AVLNode (AVLNode ml md mb mr) rd rb rr)) =
     (let (b', rb') = rightSwitch mb (b, rb) in do {
        r' \<leftarrow> avlRotateRight (AVLNode (AVLNode ml md 0 mr) rd rb' rr);
        avlRotateLeft (AVLNode l d b' r')
      })"
| "rightDouble _ = None"

fun avlLeftBalanceWhenInsert :: "'a AVLTreeNode \<Rightarrow> int \<Rightarrow> ('a AVLTreeNode \<times> int) option" where
  "avlLeftBalanceWhenInsert (AVLNode (AVLNode ll ld lb lr) d b r) taller =
     (if lb = -1 then do {
        t \<leftarrow> avlRotateRight (AVLNode (AVLNode ll ld 0 lr) d 0 r);
        Some (t, 0) }
      else if lb = 0 then Some (AVLNode (AVLNode ll ld lb lr) d b r, taller)
      else if lb = 1 then do {
        t \<leftarrow> leftDouble (AVLNode (AVLNode ll ld lb lr) d b r);
        Some (t, 0) }
      else Some (AVLNode (AVLNode ll ld lb lr) d b r, taller))"
| "avlLeftBalanceWhenInsert _ _ = None"

fun avlRightBalanceWhenInsert :: "'a AVLTreeNode \<Rightarrow> int \<Rightarrow> ('a AVLTreeNode \<times> int) option" where
  "avlRightBalanceWhenInsert (AVLNode l d b (AVLNode rl rd rb rr)) taller =
     (if rb = 1 then do {
        t \<leftarrow> avlRotateLeft (AVLNode l d 0 (AVLNode rl rd 0 rr));
        Some (t, 0) }
      else if rb = 0 then Some (AVLNode l d b (AVLNode rl rd rb rr), taller)
      else if rb = -1 then do {
        t \<leftarrow> rightDouble (AVLNode l d b (AVLNode rl rd rb rr));
        Some (t, 0) }
      else Some (AVLNode l d b (AVLNode rl rd rb rr), taller))"
| "avlRightBalanceWhenInsert _ _ = None"

text \<open>The \<open>if (*taller != 0) switch (balance)\<close> after the recursion into the left, right child.\<close>

definition afterInsertLeft :: "'a AVLTreeNode \<Rightarrow> 'a \<Rightarrow> int \<Rightarrow> 'a AVLTreeNode \<Rightarrow> int \<Rightarrow> ('a AVLTreeNode \<times> int) option" where
  "afterInsertLeft l d b r taller =
     (if taller \<noteq> 0 then
        (if b = -1 then avlLeftBalanceWhenInsert (AVLNode l d b r) taller
         else if b = 0 then Some (AVLNode l d (-1) r, taller)
         else if b = 1 then Some (AVLNode l d 0 r, 0)
         else Some (AVLNode l d b r, taller))
      else Some (AVLNode l d b r, taller))"

definition afterInsertRight :: "'a AVLTreeNode \<Rightarrow> 'a \<Rightarrow> int \<Rightarrow> 'a AVLTreeNode \<Rightarrow> int \<Rightarrow> ('a AVLTreeNode \<times> int) option" where
  "afterInsertRight l d b r taller =
     (if taller \<noteq> 0 then
        (if b = -1 then Some (AVLNode l d 0 r, 0)
         else if b = 0 then Some (AVLNode l d 1 r, taller)
         else if b = 1 then avlRightBalanceWhenInsert (AVLNode l d b r) taller
         else Some (AVLNode l d b r, taller))
      else Some (AVLNode l d b r, taller))"

section \<open>Insert, replace\<close>

fun avl_tree_insert_loop ::
  "'a compare \<Rightarrow> bool \<Rightarrow> 'a AVLTreeNode \<Rightarrow> 'a \<Rightarrow> int \<Rightarrow> ('a AVLTreeNode \<times> int \<times> int) option" where
  "avl_tree_insert_loop cmp mem NULL x taller =
     (let n = createTreeNode mem x in
      if n \<noteq> NULL then Some (n, 1, 1) else Some (n, taller, - ENOMEM))"
| "avl_tree_insert_loop cmp mem (AVLNode l d b r) x taller =
     (if cmp d x > 0 then do {
        (l', taller, success) \<leftarrow> avl_tree_insert_loop cmp mem l x taller;
        (t, taller) \<leftarrow> afterInsertLeft l' d b r taller;
        Some (t, taller, success) }
      else if cmp d x < 0 then do {
        (r', taller, success) \<leftarrow> avl_tree_insert_loop cmp mem r x taller;
        (t, taller) \<leftarrow> afterInsertRight l d b r' taller;
        Some (t, taller, success) }
      else Some (AVLNode l d b r, taller, 0))"

definition avl_tree_insert :: "bool \<Rightarrow> 'a AVLTreeInfo \<Rightarrow> 'a \<Rightarrow> ('a AVLTreeInfo \<times> int) option" where
  "avl_tree_insert mem tree x = do {
     (t, taller, success) \<leftarrow> avl_tree_insert_loop (compare_func tree) mem (root tree) x 0;
     Some (tree\<lparr>root := t\<rparr>, success) }"

fun avl_tree_replace_loop ::
  "'a compare \<Rightarrow> bool \<Rightarrow> bool \<Rightarrow> 'a AVLTreeNode \<Rightarrow> 'a \<Rightarrow> int
     \<Rightarrow> ('a AVLTreeNode \<times> int \<times> int \<times> 'a list) option" where
  "avl_tree_replace_loop cmp free_func mem NULL x taller =
     (let n = createTreeNode mem x in
      if n \<noteq> NULL then Some (n, 1, 1, []) else Some (n, taller, - ENOMEM, []))"
| "avl_tree_replace_loop cmp free_func mem (AVLNode l d b r) x taller =
     (if cmp d x > 0 then do {
        (l', taller, success, freed) \<leftarrow> avl_tree_replace_loop cmp free_func mem l x taller;
        (t, taller) \<leftarrow> afterInsertLeft l' d b r taller;
        Some (t, taller, success, freed) }
      else if cmp d x < 0 then do {
        (r', taller, success, freed) \<leftarrow> avl_tree_replace_loop cmp free_func mem r x taller;
        (t, taller) \<leftarrow> afterInsertRight l d b r' taller;
        Some (t, taller, success, freed) }
      else Some (AVLNode l x b r, taller, 0, if free_func then [d] else []))"

definition avl_tree_replace :: "bool \<Rightarrow> 'a AVLTreeInfo \<Rightarrow> 'a \<Rightarrow> ('a AVLTreeInfo \<times> int \<times> 'a list) option" where
  "avl_tree_replace mem tree x = do {
     (t, taller, success, freed) \<leftarrow>
        avl_tree_replace_loop (compare_func tree) (free_data_func tree) mem (root tree) x 0;
     Some (tree\<lparr>root := t\<rparr>, success, freed) }"

section \<open>Find\<close>

text \<open>The loops are called on non-null nodes and test each child before they descend into it.\<close>

fun avl_tree_find_loop :: "'a compare \<Rightarrow> 'a AVLTreeNode \<Rightarrow> 'a \<Rightarrow> 'a AVLTreeNode" where
  "avl_tree_find_loop cmp NULL x = NULL"
| "avl_tree_find_loop cmp (AVLNode l d b r) x =
     (if cmp d x > 0 then (if l = NULL then NULL else avl_tree_find_loop cmp l x)
      else if cmp d x < 0 then (if r = NULL then NULL else avl_tree_find_loop cmp r x)
      else AVLNode l d b r)"

fun avl_tree_find_ge_loop :: "'a compare \<Rightarrow> 'a AVLTreeNode \<Rightarrow> 'a \<Rightarrow> 'a option" where
  "avl_tree_find_ge_loop cmp NULL x = None"
| "avl_tree_find_ge_loop cmp (AVLNode l d b r) x =
     (if cmp d x > 0 then
        (if l = NULL then Some d
         else (case avl_tree_find_ge_loop cmp l x of Some found \<Rightarrow> Some found | None \<Rightarrow> Some d))
      else if cmp d x < 0 then (if r = NULL then None else avl_tree_find_ge_loop cmp r x)
      else Some d)"

definition avl_tree_find :: "'a AVLTreeInfo \<Rightarrow> 'a \<Rightarrow> 'a option" where
  "avl_tree_find tree x =
     (if root tree = NULL then None
      else (case avl_tree_find_loop (compare_func tree) (root tree) x of
              NULL \<Rightarrow> None | AVLNode l d b r \<Rightarrow> Some d))"

definition avl_tree_find_ge :: "'a AVLTreeInfo \<Rightarrow> 'a \<Rightarrow> 'a option" where
  "avl_tree_find_ge tree x =
     (if root tree = NULL then None else avl_tree_find_ge_loop (compare_func tree) (root tree) x)"

text \<open>
  A caller of \<open>avl_tree_find\<close> holds a pointer to the stored data and may write through it. Since
  the model stores the data by value, such a write is an update of the node the search finds.
\<close>

fun avl_node_write :: "'a compare \<Rightarrow> 'a AVLTreeNode \<Rightarrow> 'a \<Rightarrow> ('a \<Rightarrow> 'a) \<Rightarrow> 'a AVLTreeNode" where
  "avl_node_write cmp NULL x f = NULL"
| "avl_node_write cmp (AVLNode l d b r) x f =
     (if cmp d x > 0 then AVLNode (avl_node_write cmp l x f) d b r
      else if cmp d x < 0 then AVLNode l d b (avl_node_write cmp r x f)
      else AVLNode l (f d) b r)"

definition avl_tree_write :: "'a AVLTreeInfo \<Rightarrow> 'a \<Rightarrow> ('a \<Rightarrow> 'a) \<Rightarrow> 'a AVLTreeInfo" where
  "avl_tree_write tree x f = tree\<lparr>root := avl_node_write (compare_func tree) (root tree) x f\<rparr>"

section \<open>Delete\<close>

fun avlLeftBalanceWhenDelete :: "'a AVLTreeNode \<Rightarrow> int \<Rightarrow> ('a AVLTreeNode \<times> int) option" where
  "avlLeftBalanceWhenDelete (AVLNode (AVLNode ll ld lb lr) d b r) shorter =
     (if lb = -1 then do {
        t \<leftarrow> avlRotateRight (AVLNode (AVLNode ll ld 0 lr) d 0 r);
        Some (t, shorter) }
      else if lb = 0 then do {
        t \<leftarrow> avlRotateRight (AVLNode (AVLNode ll ld 1 lr) d b r);
        Some (t, 0) }
      else if lb = 1 then do {
        t \<leftarrow> leftDouble (AVLNode (AVLNode ll ld lb lr) d b r);
        Some (t, shorter) }
      else Some (AVLNode (AVLNode ll ld lb lr) d b r, shorter))"
| "avlLeftBalanceWhenDelete _ _ = None"

fun avlRightBalanceWhenDelete :: "'a AVLTreeNode \<Rightarrow> int \<Rightarrow> ('a AVLTreeNode \<times> int) option" where
  "avlRightBalanceWhenDelete (AVLNode l d b (AVLNode rl rd rb rr)) shorter =
     (if rb = 1 then do {
        t \<leftarrow> avlRotateLeft (AVLNode l d 0 (AVLNode rl rd 0 rr));
        Some (t, shorter) }
      else if rb = 0 then do {
        t \<leftarrow> avlRotateLeft (AVLNode l d b (AVLNode rl rd (-1) rr));
        Some (t, 0) }
      else if rb = -1 then do {
        t \<leftarrow> rightDouble (AVLNode l d b (AVLNode rl rd rb rr));
        Some (t, shorter) }
      else Some (AVLNode l d b (AVLNode rl rd rb rr), shorter))"
| "avlRightBalanceWhenDelete _ _ = None"

text \<open>The \<open>if (*shorter != 0) switch (balance)\<close> after a deletion in the left, right child.\<close>

definition afterDeleteLeft :: "'a AVLTreeNode \<Rightarrow> 'a \<Rightarrow> int \<Rightarrow> 'a AVLTreeNode \<Rightarrow> int \<Rightarrow> ('a AVLTreeNode \<times> int) option" where
  "afterDeleteLeft l d b r shorter =
     (if shorter \<noteq> 0 then
        (if b = -1 then Some (AVLNode l d 0 r, shorter)
         else if b = 0 then Some (AVLNode l d 1 r, 0)
         else if b = 1 then avlRightBalanceWhenDelete (AVLNode l d b r) shorter
         else Some (AVLNode l d b r, shorter))
      else Some (AVLNode l d b r, shorter))"

definition afterDeleteRight :: "'a AVLTreeNode \<Rightarrow> 'a \<Rightarrow> int \<Rightarrow> 'a AVLTreeNode \<Rightarrow> int \<Rightarrow> ('a AVLTreeNode \<times> int) option" where
  "afterDeleteRight l d b r shorter =
     (if shorter \<noteq> 0 then
        (if b = -1 then avlLeftBalanceWhenDelete (AVLNode l d b r) shorter
         else if b = 0 then Some (AVLNode l d (-1) r, 0)
         else if b = 1 then Some (AVLNode l d 0 r, shorter)
         else Some (AVLNode l d b r, shorter))
      else Some (AVLNode l d b r, shorter))"

text \<open>
  \<open>avl_tree_delete_loop\<close> with a non-null \<open>pDeletedDataNode\<close> unlinks the rightmost node and hands its
  data to that node: \<open>avl_delete_max\<close>, whose third result is the data written there. With a null
  \<open>pDeletedDataNode\<close> it searches, and for a node with two children calls the former on the left
  child and stores the data it hands back.
\<close>

fun avl_delete_max :: "'a AVLTreeNode \<Rightarrow> int \<Rightarrow> ('a AVLTreeNode \<times> int \<times> 'a) option" where
  "avl_delete_max NULL shorter = None"
| "avl_delete_max (AVLNode l d b r) shorter =
     (if r = NULL then Some (l, 1, d)
      else do {
        (r', shorter, moved) \<leftarrow> avl_delete_max r shorter;
        (t, shorter) \<leftarrow> afterDeleteRight l d b r' shorter;
        Some (t, shorter, moved) })"

fun avl_tree_delete_loop ::
  "'a compare \<Rightarrow> bool \<Rightarrow> 'a AVLTreeNode \<Rightarrow> 'a \<Rightarrow> int
     \<Rightarrow> ('a AVLTreeNode \<times> int \<times> int \<times> 'a list) option" where
  "avl_tree_delete_loop cmp free_func NULL x shorter = None"
| "avl_tree_delete_loop cmp free_func (AVLNode l d b r) x shorter =
     (if cmp d x > 0 then
        (if l = NULL then Some (AVLNode l d b r, shorter, 0, [])
         else do {
           (l', shorter, result, freed) \<leftarrow> avl_tree_delete_loop cmp free_func l x shorter;
           (t, shorter) \<leftarrow> afterDeleteLeft l' d b r shorter;
           Some (t, shorter, result, freed) })
      else if cmp d x < 0 then
        (if r = NULL then Some (AVLNode l d b r, shorter, 0, [])
         else do {
           (r', shorter, result, freed) \<leftarrow> avl_tree_delete_loop cmp free_func r x shorter;
           (t, shorter) \<leftarrow> afterDeleteRight l d b r' shorter;
           Some (t, shorter, result, freed) })
      else
        (let freed = (if free_func then [d] else []) in
         if l = NULL then Some (r, 1, 1, freed)
         else if r = NULL then Some (l, 1, 1, freed)
         else do {
           (l', shorter, moved) \<leftarrow> avl_delete_max l shorter;
           (t, shorter) \<leftarrow> afterDeleteLeft l' moved b r shorter;
           Some (t, shorter, 1, freed) }))"

definition avl_tree_delete :: "'a AVLTreeInfo \<Rightarrow> 'a \<Rightarrow> ('a AVLTreeInfo \<times> int \<times> 'a list) option" where
  "avl_tree_delete tree x =
     (if root tree = NULL then Some (tree, 0, [])
      else do {
        (t, shorter, result, freed) \<leftarrow>
           avl_tree_delete_loop (compare_func tree) (free_data_func tree) (root tree) x 0;
        Some (tree\<lparr>root := t\<rparr>, result, freed) })"

section \<open>Walk, count, depth\<close>

text \<open>
  The callback gets a datum and the state behind \<open>args\<close>; a non-zero result stops the walk.
\<close>

fun avl_tree_walk_loop :: "('a \<Rightarrow> 's \<Rightarrow> 's \<times> int) \<Rightarrow> 'a AVLTreeNode \<Rightarrow> 's \<Rightarrow> 's \<times> int" where
  "avl_tree_walk_loop f NULL s = (s, 0)"
| "avl_tree_walk_loop f (AVLNode l d b r) s =
     (let (s1, result) = (if l \<noteq> NULL then avl_tree_walk_loop f l s else (s, 0)) in
      if result \<noteq> 0 then (s1, result)
      else (let (s2, result) = f d s1 in
            if result \<noteq> 0 then (s2, result)
            else if r \<noteq> NULL then avl_tree_walk_loop f r s2 else (s2, result)))"

definition avl_tree_walk :: "'a AVLTreeInfo \<Rightarrow> ('a \<Rightarrow> 's \<Rightarrow> 's \<times> int) \<Rightarrow> 's \<Rightarrow> 's \<times> int" where
  "avl_tree_walk tree f s = (if root tree = NULL then (s, 0) else avl_tree_walk_loop f (root tree) s)"

fun avl_tree_count_loop :: "'a AVLTreeNode \<Rightarrow> int \<Rightarrow> int" where
  "avl_tree_count_loop NULL cnt = cnt"
| "avl_tree_count_loop (AVLNode l d b r) cnt =
     (let cnt = (if l \<noteq> NULL then avl_tree_count_loop l cnt else cnt);
          cnt = cnt + 1
      in if r \<noteq> NULL then avl_tree_count_loop r cnt else cnt)"

definition avl_tree_count :: "'a AVLTreeInfo \<Rightarrow> int" where
  "avl_tree_count tree = (if root tree = NULL then 0 else avl_tree_count_loop (root tree) 0)"

fun avl_tree_depth_loop :: "'a AVLTreeNode \<Rightarrow> int \<Rightarrow> int" where
  "avl_tree_depth_loop NULL depth = depth"
| "avl_tree_depth_loop (AVLNode l d b r) depth =
     (if b = -1 then avl_tree_depth_loop l (depth + 1) else avl_tree_depth_loop r (depth + 1))"

definition avl_tree_depth :: "'a AVLTreeInfo \<Rightarrow> int" where
  "avl_tree_depth tree = (if root tree = NULL then 0 else avl_tree_depth_loop (root tree) 0)"

section \<open>The balance invariant and the in-order sequence\<close>

fun height :: "'a AVLTreeNode \<Rightarrow> nat" where
  "height NULL = 0"
| "height (AVLNode l d b r) = Suc (max (height l) (height r))"

fun inorder :: "'a AVLTreeNode \<Rightarrow> 'a list" where
  "inorder NULL = []"
| "inorder (AVLNode l d b r) = inorder l @ d # inorder r"

fun avl_ok :: "'a AVLTreeNode \<Rightarrow> bool" where
  "avl_ok NULL = True"
| "avl_ok (AVLNode l d b r) \<longleftrightarrow>
     b = int (height r) - int (height l) \<and> b \<in> {-1, 0, 1} \<and> avl_ok l \<and> avl_ok r"

text \<open>
  What the flags promise: a raised \<open>taller\<close> means one level more, and then the new root leans to
  a side unless the subtree was empty; a raised \<open>shorter\<close> means one level less.
\<close>

definition grew :: "'a AVLTreeNode \<Rightarrow> 'a AVLTreeNode \<Rightarrow> int \<Rightarrow> bool" where
  "grew t t' taller \<longleftrightarrow> avl_ok t' \<and>
     (taller = 0 \<and> height t' = height t \<or>
      taller = 1 \<and> height t' = Suc (height t) \<and> (t = NULL \<or> balance t' \<noteq> 0))"

definition shrank :: "'a AVLTreeNode \<Rightarrow> 'a AVLTreeNode \<Rightarrow> int \<Rightarrow> bool" where
  "shrank t t' shorter \<longleftrightarrow> avl_ok t' \<and>
     (shorter = 0 \<and> height t' = height t \<or> shorter = 1 \<and> Suc (height t') = height t)"

lemma height_0 [simp]: "height t = 0 \<longleftrightarrow> t = NULL"
  by (cases t) auto

lemma height_pos: "0 < height t \<Longrightarrow> \<exists>l d b r. t = AVLNode l d b r"
  by (cases t) auto

lemma afterInsertLeft_ok:
  assumes "avl_ok (AVLNode l d b r)" and "grew l l' k"
  shows "\<exists>t k'. afterInsertLeft l' d b r k = Some (t, k') \<and> grew (AVLNode l d b r) t k' \<and>
           inorder t = inorder l' @ d # inorder r"
proof (cases "k = 1 \<and> b = -1")
  case True
  with assms have l': "height l' = height r + 2" "avl_ok l'" "avl_ok r" "l \<noteq> NULL" "balance l' \<noteq> 0"
    by (auto simp: grew_def)
  then obtain ll ld lb lr where [simp]: "l' = AVLNode ll ld lb lr" by (cases l') auto
  show ?thesis
  proof (cases "lb = -1")
    case True
    with l' \<open>k = 1 \<and> b = -1\<close> assms show ?thesis
      by (auto simp: afterInsertLeft_def grew_def)
  next
    case False
    with l' have lb: "lb = 1" by auto
    with l' have "0 < height lr" by auto
    then obtain ml md mb mr where [simp]: "lr = AVLNode ml md mb mr" by (metis height_pos)
    from lb l' \<open>k = 1 \<and> b = -1\<close> assms show ?thesis
      by (auto simp: afterInsertLeft_def grew_def leftSwitch_def)
  qed
next
  case False
  with assms show ?thesis by (auto simp: afterInsertLeft_def grew_def)
qed

lemma afterInsertRight_ok:
  assumes "avl_ok (AVLNode l d b r)" and "grew r r' k"
  shows "\<exists>t k'. afterInsertRight l d b r' k = Some (t, k') \<and> grew (AVLNode l d b r) t k' \<and>
           inorder t = inorder l @ d # inorder r'"
proof (cases "k = 1 \<and> b = 1")
  case True
  with assms have r': "height r' = height l + 2" "avl_ok r'" "avl_ok l" "r \<noteq> NULL" "balance r' \<noteq> 0"
    by (auto simp: grew_def)
  then obtain rl rd rb rr where [simp]: "r' = AVLNode rl rd rb rr" by (cases r') auto
  show ?thesis
  proof (cases "rb = 1")
    case True
    with r' \<open>k = 1 \<and> b = 1\<close> assms show ?thesis
      by (auto simp: afterInsertRight_def grew_def)
  next
    case False
    with r' have rb: "rb = -1" by auto
    with r' have "0 < height rl" by auto
    then obtain ml md mb mr where [simp]: "rl = AVLNode ml md mb mr" by (metis height_pos)
    from rb r' \<open>k = 1 \<and> b = 1\<close> assms show ?thesis
      by (auto simp: afterInsertRight_def grew_def rightSwitch_def)
  qed
next
  case False
  with assms show ?thesis by (auto simp: afterInsertRight_def grew_def)
qed

lemma afterDeleteLeft_ok:
  assumes "avl_ok (AVLNode l d b r)" and "shrank l l' k"
  shows "\<exists>t k'. afterDeleteLeft l' d' b r k = Some (t, k') \<and> shrank (AVLNode l d b r) t k' \<and>
           inorder t = inorder l' @ d' # inorder r"
proof (cases "k = 1 \<and> b = 1")
  case True
  with assms have r: "height r = height l' + 2" "avl_ok r" "avl_ok l'"
    by (auto simp: shrank_def)
  then obtain rl rd rb rr where [simp]: "r = AVLNode rl rd rb rr" by (cases r) auto
  show ?thesis
  proof (cases "rb = -1")
    case False
    with r \<open>k = 1 \<and> b = 1\<close> assms show ?thesis
      by (auto simp: afterDeleteLeft_def shrank_def)
  next
    case True
    with r have "0 < height rl" by auto
    then obtain ml md mb mr where [simp]: "rl = AVLNode ml md mb mr" by (metis height_pos)
    from True r \<open>k = 1 \<and> b = 1\<close> assms show ?thesis
      by (auto simp: afterDeleteLeft_def shrank_def rightSwitch_def)
  qed
next
  case False
  with assms show ?thesis by (auto simp: afterDeleteLeft_def shrank_def)
qed

lemma afterDeleteRight_ok:
  assumes "avl_ok (AVLNode l d b r)" and "shrank r r' k"
  shows "\<exists>t k'. afterDeleteRight l d b r' k = Some (t, k') \<and> shrank (AVLNode l d b r) t k' \<and>
           inorder t = inorder l @ d # inorder r'"
proof (cases "k = 1 \<and> b = -1")
  case True
  with assms have l: "height l = height r' + 2" "avl_ok l" "avl_ok r'"
    by (auto simp: shrank_def)
  then obtain ll ld lb lr where [simp]: "l = AVLNode ll ld lb lr" by (cases l) auto
  show ?thesis
  proof (cases "lb = 1")
    case False
    with l \<open>k = 1 \<and> b = -1\<close> assms show ?thesis
      by (auto simp: afterDeleteRight_def shrank_def)
  next
    case True
    with l have "0 < height lr" by auto
    then obtain ml md mb mr where [simp]: "lr = AVLNode ml md mb mr" by (metis height_pos)
    from True l \<open>k = 1 \<and> b = -1\<close> assms show ?thesis
      by (auto simp: afterDeleteRight_def shrank_def leftSwitch_def)
  qed
next
  case False
  with assms show ?thesis by (auto simp: afterDeleteRight_def shrank_def)
qed

section \<open>Every operation is memory safe and keeps the balance\<close>

lemma grew_refl: "avl_ok t \<Longrightarrow> grew t t 0"
  by (simp add: grew_def)

lemma insert_loop_safe:
  "avl_ok t \<Longrightarrow> \<exists>t' k s. avl_tree_insert_loop cmp mem t x 0 = Some (t', k, s) \<and> grew t t' k"
proof (induction t)
  case NULL
  show ?case by (auto simp: createTreeNode_def grew_def)
next
  case (AVLNode l d b r)
  from AVLNode.prems have "avl_ok l" "avl_ok r" by auto
  with AVLNode.IH obtain l' kl sl r' kr sr where
    l: "avl_tree_insert_loop cmp mem l x 0 = Some (l', kl, sl)" "grew l l' kl" and
    r: "avl_tree_insert_loop cmp mem r x 0 = Some (r', kr, sr)" "grew r r' kr"
    by blast
  from afterInsertLeft_ok [OF AVLNode.prems l(2)] afterInsertRight_ok [OF AVLNode.prems r(2)]
    grew_refl [OF AVLNode.prems] l(1) r(1)
  show ?case by (cases "cmp d x > 0"; cases "cmp d x < 0") auto
qed

lemma replace_loop_safe:
  "avl_ok t \<Longrightarrow> \<exists>t' k s fr. avl_tree_replace_loop cmp ff mem t x 0 = Some (t', k, s, fr) \<and> grew t t' k"
proof (induction t)
  case NULL
  show ?case by (auto simp: createTreeNode_def grew_def)
next
  case (AVLNode l d b r)
  from AVLNode.prems have "avl_ok l" "avl_ok r" by auto
  with AVLNode.IH obtain l' kl sl fl r' kr sr fr where
    l: "avl_tree_replace_loop cmp ff mem l x 0 = Some (l', kl, sl, fl)" "grew l l' kl" and
    r: "avl_tree_replace_loop cmp ff mem r x 0 = Some (r', kr, sr, fr)" "grew r r' kr"
    by blast
  have "grew (AVLNode l d b r) (AVLNode l x b r) 0"
    using AVLNode.prems by (auto simp: grew_def)
  with afterInsertLeft_ok [OF AVLNode.prems l(2)] afterInsertRight_ok [OF AVLNode.prems r(2)] l(1) r(1)
  show ?case by (cases "cmp d x > 0"; cases "cmp d x < 0") auto
qed

lemma delete_max_ok:
  "\<lbrakk>avl_ok t; t \<noteq> NULL\<rbrakk> \<Longrightarrow>
     \<exists>t' k m. avl_delete_max t 0 = Some (t', k, m) \<and> shrank t t' k \<and> inorder t = inorder t' @ [m]"
proof (induction t)
  case NULL
  then show ?case by simp
next
  case (AVLNode l d b r)
  show ?case
  proof (cases "r = NULL")
    case True
    with AVLNode.prems show ?thesis by (auto simp: shrank_def)
  next
    case False
    with AVLNode obtain r' k m where
      r: "avl_delete_max r 0 = Some (r', k, m)" "shrank r r' k" "inorder r = inorder r' @ [m]"
      by auto
    from afterDeleteRight_ok [OF AVLNode.prems(1) r(2)] r False show ?thesis by auto
  qed
qed

lemma delete_loop_safe:
  "\<lbrakk>avl_ok t; t \<noteq> NULL\<rbrakk> \<Longrightarrow>
     \<exists>t' k s fr. avl_tree_delete_loop cmp ff t x 0 = Some (t', k, s, fr) \<and> shrank t t' k"
proof (induction t)
  case NULL
  then show ?case by simp
next
  case (AVLNode l d b r)
  have self: "shrank (AVLNode l d b r) (AVLNode l d b r) 0"
    using AVLNode.prems by (auto simp: shrank_def)
  have ok: "avl_ok l" "avl_ok r" using AVLNode.prems by auto
  consider (L) "cmp d x > 0" | (R) "cmp d x < 0" | (E) "cmp d x = 0" by linarith
  then show ?case
  proof cases
    case L
    show ?thesis
    proof (cases "l = NULL")
      case True
      with L self show ?thesis by auto
    next
      case False
      with AVLNode.IH(1) ok obtain l' k s fr where
        l: "avl_tree_delete_loop cmp ff l x 0 = Some (l', k, s, fr)" "shrank l l' k" by blast
      from afterDeleteLeft_ok [OF AVLNode.prems(1) l(2), of d] l(1) L False show ?thesis by auto
    qed
  next
    case R
    show ?thesis
    proof (cases "r = NULL")
      case True
      with R self show ?thesis by auto
    next
      case False
      with AVLNode.IH(2) ok obtain r' k s fr where
        r: "avl_tree_delete_loop cmp ff r x 0 = Some (r', k, s, fr)" "shrank r r' k" by blast
      from afterDeleteRight_ok [OF AVLNode.prems(1) r(2)] r(1) R False show ?thesis by auto
    qed
  next
    case E
    show ?thesis
    proof (cases "l = NULL \<or> r = NULL")
      case True
      with E AVLNode.prems show ?thesis by (auto simp: shrank_def)
    next
      case False
      with ok delete_max_ok [of l] obtain l' k m where
        l: "avl_delete_max l 0 = Some (l', k, m)" "shrank l l' k" by blast
      from afterDeleteLeft_ok [OF AVLNode.prems(1) l(2), of m] l(1) E False show ?thesis by auto
    qed
  qed
qed

section \<open>The interface to the comparison function, and functional correctness under it\<close>

text \<open>
  The contract a \<open>compare_func\<close> owes the tree: on the data that is \<open>ok\<close>, its sign is the order of
  a key. Every client of the tree discharges it for its own comparison function.
\<close>

definition avl_inv :: "('a \<Rightarrow> 'k::linorder) \<Rightarrow> ('a \<Rightarrow> bool) \<Rightarrow> 'a AVLTreeNode \<Rightarrow> bool" where
  "avl_inv key ok t \<longleftrightarrow> avl_ok t \<and> sorted_key key (inorder t) \<and> (\<forall>d \<in> set (inorder t). ok d)"

text \<open>The specification of the three updates on the sorted sequence.\<close>

definition insert_result :: "('a \<Rightarrow> 'k::linorder) \<Rightarrow> bool \<Rightarrow> 'a \<Rightarrow> 'a list \<Rightarrow> 'a list \<times> int" where
  "insert_result key mem x xs =
     (if \<exists>y \<in> set xs. key y = key x then (xs, 0)
      else if mem then (put_key key x xs, 1) else (xs, - ENOMEM))"

definition replace_result ::
  "('a \<Rightarrow> 'k::linorder) \<Rightarrow> bool \<Rightarrow> bool \<Rightarrow> 'a \<Rightarrow> 'a list \<Rightarrow> 'a list \<times> int \<times> 'a list" where
  "replace_result key ff mem x xs =
     (if \<exists>y \<in> set xs. key y = key x
      then (put_key key x xs, 0, if ff then filter (\<lambda>y. key y = key x) xs else [])
      else if mem then (put_key key x xs, 1, []) else (xs, - ENOMEM, []))"

definition delete_result ::
  "('a \<Rightarrow> 'k::linorder) \<Rightarrow> bool \<Rightarrow> 'a \<Rightarrow> 'a list \<Rightarrow> 'a list \<times> int \<times> 'a list" where
  "delete_result key ff x xs =
     (if \<exists>y \<in> set xs. key y = key x
      then (del_key key (key x) xs, 1, if ff then filter (\<lambda>y. key y = key x) xs else [])
      else (xs, 0, []))"

lemma avl_inv_NULL [simp]: "avl_inv key ok NULL"
  by (simp add: avl_inv_def)

lemma avl_inv_Node:
  "avl_inv key ok (AVLNode l d b r) \<longleftrightarrow>
     avl_ok (AVLNode l d b r) \<and> avl_inv key ok l \<and> avl_inv key ok r \<and> ok d \<and>
     (\<forall>y \<in> set (inorder l). key y < key d) \<and> (\<forall>y \<in> set (inorder r). key d < key y)"
  by (auto simp: avl_inv_def intro: less_trans)

lemmas key_splits = keys_below_all keys_above_all keys_below_none keys_above_none

text \<open>How the specifications split at a node: one lemma per side of the search.\<close>

lemma insert_result_left:
  assumes "key x < key d" and "\<forall>y \<in> set rs. key d < key y"
  shows "insert_result key mem x (ls @ d # rs) =
           (fst (insert_result key mem x ls) @ d # rs, snd (insert_result key mem x ls))"
proof -
  have rs: "\<forall>y \<in> set rs. key x < key y" using assms by auto
  then have "keys_below key (key x) rs = []" "keys_above key (key x) rs = rs"
    by (auto intro!: key_splits simp: less_imp_le)
  with rs assms show ?thesis by (auto simp: insert_result_def put_key_def)
qed

lemma insert_result_right:
  assumes "key d < key x" and "\<forall>y \<in> set ls. key y < key d"
  shows "insert_result key mem x (ls @ d # rs) =
           (ls @ d # fst (insert_result key mem x rs), snd (insert_result key mem x rs))"
proof -
  have ls: "\<forall>y \<in> set ls. key y < key x" using assms by auto
  then have "keys_below key (key x) ls = ls" "keys_above key (key x) ls = []"
    by (auto intro!: key_splits simp: less_imp_le)
  with ls assms show ?thesis by (auto simp: insert_result_def put_key_def)
qed

lemma replace_result_left:
  assumes "key x < key d" and "\<forall>y \<in> set rs. key d < key y"
  shows "replace_result key ff mem x (ls @ d # rs) =
           (fst (replace_result key ff mem x ls) @ d # rs, snd (replace_result key ff mem x ls))"
proof -
  have rs: "\<forall>y \<in> set rs. key x < key y" using assms by auto
  then have "keys_below key (key x) rs = []" "keys_above key (key x) rs = rs"
    by (auto intro!: key_splits simp: less_imp_le)
  moreover have "filter (\<lambda>y. key y = key x) rs = []"
    using rs by (auto simp: filter_empty_conv)
  ultimately show ?thesis using rs assms by (auto simp: replace_result_def put_key_def)
qed

lemma replace_result_right:
  assumes "key d < key x" and "\<forall>y \<in> set ls. key y < key d"
  shows "replace_result key ff mem x (ls @ d # rs) =
           (ls @ d # fst (replace_result key ff mem x rs), snd (replace_result key ff mem x rs))"
proof -
  have ls: "\<forall>y \<in> set ls. key y < key x" using assms by auto
  then have "keys_below key (key x) ls = ls" "keys_above key (key x) ls = []"
    by (auto intro!: key_splits simp: less_imp_le)
  moreover have "filter (\<lambda>y. key y = key x) ls = []"
    using ls by (auto simp: filter_empty_conv)
  ultimately show ?thesis using ls assms by (auto simp: replace_result_def put_key_def)
qed

lemma delete_result_left:
  assumes "key x < key d" and "\<forall>y \<in> set rs. key d < key y"
  shows "delete_result key ff x (ls @ d # rs) =
           (fst (delete_result key ff x ls) @ d # rs, snd (delete_result key ff x ls))"
proof -
  have rs: "\<forall>y \<in> set rs. key x < key y" using assms by auto
  then have "del_key key (key x) rs = rs" and "filter (\<lambda>y. key y = key x) rs = []"
    by (auto simp: filter_empty_conv intro!: del_key_absent)
  with rs assms show ?thesis by (auto simp: delete_result_def)
qed

lemma delete_result_right:
  assumes "key d < key x" and "\<forall>y \<in> set ls. key y < key d"
  shows "delete_result key ff x (ls @ d # rs) =
           (ls @ d # fst (delete_result key ff x rs), snd (delete_result key ff x rs))"
proof -
  have ls: "\<forall>y \<in> set ls. key y < key x" using assms by auto
  then have "del_key key (key x) ls = ls" and "filter (\<lambda>y. key y = key x) ls = []"
    by (auto simp: filter_empty_conv intro!: del_key_absent)
  with ls assms show ?thesis by (auto simp: delete_result_def)
qed

lemma delete_result_here:
  assumes "key d = key x" and "\<forall>y \<in> set ls. key y < key d" and "\<forall>y \<in> set rs. key d < key y"
  shows "delete_result key ff x (ls @ d # rs) = (ls @ rs, 1, if ff then [d] else [])"
proof -
  have "del_key key (key x) ls = ls" "del_key key (key x) rs = rs"
    "filter (\<lambda>y. key y = key x) ls = []" "filter (\<lambda>y. key y = key x) rs = []"
    using assms by (auto simp: filter_empty_conv intro!: del_key_absent)
  with assms show ?thesis by (auto simp: delete_result_def)
qed

locale avl_order =
  fixes cmp :: "'a compare" and key :: "'a \<Rightarrow> 'k::linorder" and ok :: "'a \<Rightarrow> bool"
  assumes cmp_pos: "\<lbrakk>ok a; ok b\<rbrakk> \<Longrightarrow> (cmp a b > 0) = (key b < key a)"
    and cmp_neg: "\<lbrakk>ok a; ok b\<rbrakk> \<Longrightarrow> (cmp a b < 0) = (key a < key b)"
begin

lemma insert_loop_spec:
  "\<lbrakk>avl_inv key ok t; ok x\<rbrakk> \<Longrightarrow>
     \<exists>t' k s. avl_tree_insert_loop cmp mem t x 0 = Some (t', k, s) \<and> grew t t' k \<and>
       (inorder t', s) = insert_result key mem x (inorder t)"
proof (induction t)
  case NULL
  show ?case by (auto simp: createTreeNode_def grew_def insert_result_def put_key_def)
next
  case (AVLNode l d b r)
  from AVLNode.prems have inv: "avl_ok (AVLNode l d b r)" "avl_inv key ok l" "avl_inv key ok r" "ok d"
    and lt: "\<forall>y \<in> set (inorder l). key y < key d" and gt: "\<forall>y \<in> set (inorder r). key d < key y"
    by (auto simp: avl_inv_Node)
  from AVLNode.IH inv \<open>ok x\<close> obtain l' kl sl r' kr sr where
    l: "avl_tree_insert_loop cmp mem l x 0 = Some (l', kl, sl)" "grew l l' kl"
       "(inorder l', sl) = insert_result key mem x (inorder l)" and
    r: "avl_tree_insert_loop cmp mem r x 0 = Some (r', kr, sr)" "grew r r' kr"
       "(inorder r', sr) = insert_result key mem x (inorder r)"
    by blast
  consider (L) "key x < key d" | (R) "key d < key x" | (E) "key x = key d" by fastforce
  then show ?case
  proof cases
    case L
    with inv \<open>ok x\<close> have "cmp d x > 0" by (simp add: cmp_pos)
    with afterInsertLeft_ok [OF inv(1) l(2)] l(1,3) insert_result_left [OF L gt, of mem "inorder l"]
    show ?thesis by (cases "insert_result key mem x (inorder l)") auto
  next
    case R
    with inv \<open>ok x\<close> have "\<not> cmp d x > 0" "cmp d x < 0" by (simp_all add: cmp_neg cmp_pos)
    with afterInsertRight_ok [OF inv(1) r(2)] r(1,3) insert_result_right [OF R lt, of mem "inorder r"]
    show ?thesis by (cases "insert_result key mem x (inorder r)") auto
  next
    case E
    with inv \<open>ok x\<close> have "\<not> cmp d x > 0" "\<not> cmp d x < 0" by (simp_all add: cmp_neg cmp_pos)
    with E inv(1) show ?thesis by (auto simp: grew_def insert_result_def)
  qed
qed

lemma replace_loop_spec:
  "\<lbrakk>avl_inv key ok t; ok x\<rbrakk> \<Longrightarrow>
     \<exists>t' k s fr. avl_tree_replace_loop cmp ff mem t x 0 = Some (t', k, s, fr) \<and> grew t t' k \<and>
       (inorder t', s, fr) = replace_result key ff mem x (inorder t)"
proof (induction t)
  case NULL
  show ?case by (auto simp: createTreeNode_def grew_def replace_result_def put_key_def)
next
  case (AVLNode l d b r)
  from AVLNode.prems have inv: "avl_ok (AVLNode l d b r)" "avl_inv key ok l" "avl_inv key ok r" "ok d"
    and lt: "\<forall>y \<in> set (inorder l). key y < key d" and gt: "\<forall>y \<in> set (inorder r). key d < key y"
    by (auto simp: avl_inv_Node)
  from AVLNode.IH inv \<open>ok x\<close> obtain l' kl sl fl r' kr sr fr where
    l: "avl_tree_replace_loop cmp ff mem l x 0 = Some (l', kl, sl, fl)" "grew l l' kl"
       "(inorder l', sl, fl) = replace_result key ff mem x (inorder l)" and
    r: "avl_tree_replace_loop cmp ff mem r x 0 = Some (r', kr, sr, fr)" "grew r r' kr"
       "(inorder r', sr, fr) = replace_result key ff mem x (inorder r)"
    by blast
  consider (L) "key x < key d" | (R) "key d < key x" | (E) "key d = key x" by fastforce
  then show ?case
  proof cases
    case L
    with inv \<open>ok x\<close> have "cmp d x > 0" by (simp add: cmp_pos)
    with afterInsertLeft_ok [OF inv(1) l(2)] l(1,3) replace_result_left [OF L gt, of ff mem "inorder l"]
    show ?thesis by (cases "replace_result key ff mem x (inorder l)") auto
  next
    case R
    with inv \<open>ok x\<close> have "\<not> cmp d x > 0" "cmp d x < 0" by (simp_all add: cmp_neg cmp_pos)
    with afterInsertRight_ok [OF inv(1) r(2)] r(1,3) replace_result_right [OF R lt, of ff mem "inorder r"]
    show ?thesis by (cases "replace_result key ff mem x (inorder r)") auto
  next
    case E
    with inv \<open>ok x\<close> have cmp: "\<not> cmp d x > 0" "\<not> cmp d x < 0" by (simp_all add: cmp_neg cmp_pos)
    have "keys_below key (key x) (inorder l) = inorder l" "keys_above key (key x) (inorder l) = []"
      "keys_below key (key x) (inorder r) = []" "keys_above key (key x) (inorder r) = inorder r"
      "filter (\<lambda>y. key y = key x) (inorder l) = []" "filter (\<lambda>y. key y = key x) (inorder r) = []"
      using E lt gt by (auto intro!: key_splits simp: less_imp_le filter_empty_conv)
    with cmp E inv(1) show ?thesis by (auto simp: grew_def replace_result_def put_key_def)
  qed
qed

lemma delete_loop_spec:
  "\<lbrakk>avl_inv key ok t; ok x; t \<noteq> NULL\<rbrakk> \<Longrightarrow>
     \<exists>t' k s fr. avl_tree_delete_loop cmp ff t x 0 = Some (t', k, s, fr) \<and> shrank t t' k \<and>
       (inorder t', s, fr) = delete_result key ff x (inorder t)"
proof (induction t)
  case NULL
  then show ?case by simp
next
  case (AVLNode l d b r)
  from AVLNode.prems have inv: "avl_ok (AVLNode l d b r)" "avl_inv key ok l" "avl_inv key ok r" "ok d"
    and lt: "\<forall>y \<in> set (inorder l). key y < key d" and gt: "\<forall>y \<in> set (inorder r). key d < key y"
    by (auto simp: avl_inv_Node)
  have self: "shrank (AVLNode l d b r) (AVLNode l d b r) 0" using inv(1) by (auto simp: shrank_def)
  consider (L) "key x < key d" | (R) "key d < key x" | (E) "key d = key x" by fastforce
  then show ?case
  proof cases
    case L
    with inv \<open>ok x\<close> have c: "cmp d x > 0" by (simp add: cmp_pos)
    note res = delete_result_left [OF L gt, of ff "inorder l"]
    show ?thesis
    proof (cases "l = NULL")
      case True
      with c self res show ?thesis by (auto simp: delete_result_def)
    next
      case False
      with AVLNode.IH(1) inv \<open>ok x\<close> obtain l' k s fr where
        l: "avl_tree_delete_loop cmp ff l x 0 = Some (l', k, s, fr)" "shrank l l' k"
           "(inorder l', s, fr) = delete_result key ff x (inorder l)" by blast
      from afterDeleteLeft_ok [OF inv(1) l(2), of d] l(1,3) c False res
      show ?thesis by (cases "delete_result key ff x (inorder l)") auto
    qed
  next
    case R
    with inv \<open>ok x\<close> have c: "\<not> cmp d x > 0" "cmp d x < 0" by (simp_all add: cmp_neg cmp_pos)
    note res = delete_result_right [OF R lt, of ff "inorder r"]
    show ?thesis
    proof (cases "r = NULL")
      case True
      with c self res show ?thesis by (auto simp: delete_result_def)
    next
      case False
      with AVLNode.IH(2) inv \<open>ok x\<close> obtain r' k s fr where
        r: "avl_tree_delete_loop cmp ff r x 0 = Some (r', k, s, fr)" "shrank r r' k"
           "(inorder r', s, fr) = delete_result key ff x (inorder r)" by blast
      from afterDeleteRight_ok [OF inv(1) r(2)] r(1,3) c False res
      show ?thesis by (cases "delete_result key ff x (inorder r)") auto
    qed
  next
    case E
    with inv \<open>ok x\<close> have c: "\<not> cmp d x > 0" "\<not> cmp d x < 0" by (simp_all add: cmp_neg cmp_pos)
    note res = delete_result_here [OF E lt gt, of ff]
    show ?thesis
    proof (cases "l = NULL \<or> r = NULL")
      case True
      with c res inv(1) show ?thesis by (auto simp: shrank_def)
    next
      case False
      with inv delete_max_ok [of l] obtain l' k m where
        l: "avl_delete_max l 0 = Some (l', k, m)" "shrank l l' k" "inorder l = inorder l' @ [m]"
        by (auto simp: avl_inv_def)
      from afterDeleteLeft_ok [OF inv(1) l(2), of m] l(1,3) c False res show ?thesis by auto
    qed
  qed
qed

lemma find_loop_spec:
  "\<lbrakk>avl_inv key ok t; ok x\<rbrakk> \<Longrightarrow>
     (case avl_tree_find_loop cmp t x of NULL \<Rightarrow> None | AVLNode l d b r \<Rightarrow> Some d) =
       List.find (\<lambda>y. key y = key x) (inorder t)"
proof (induction t)
  case NULL
  show ?case by simp
next
  case (AVLNode l d b r)
  from AVLNode.prems have inv: "avl_inv key ok l" "avl_inv key ok r" "ok d"
    and lt: "\<forall>y \<in> set (inorder l). key y < key d" and gt: "\<forall>y \<in> set (inorder r). key d < key y"
    by (auto simp: avl_inv_Node)
  have nl: "key d \<le> key x \<Longrightarrow> List.find (\<lambda>y. key y = key x) (inorder l) = None"
    using lt by (auto simp: find_None_iff)
  have nr: "key x \<le> key d \<Longrightarrow> List.find (\<lambda>y. key y = key x) (inorder r) = None"
    using gt by (auto simp: find_None_iff)
  consider (L) "key x < key d" | (R) "key d < key x" | (E) "key d = key x" by fastforce
  then show ?case
  proof cases
    case L
    then show ?thesis using AVLNode.IH(1) inv \<open>ok x\<close> nr by (auto simp: find_append cmp_pos split: option.splits)
  next
    case R
    then show ?thesis using AVLNode.IH(2) inv \<open>ok x\<close> nl by (auto simp: find_append cmp_pos cmp_neg split: option.splits)
  next
    case E
    then show ?thesis using inv \<open>ok x\<close> nl by (auto simp: find_append cmp_pos cmp_neg split: option.splits)
  qed
qed

lemma find_ge_loop_spec:
  "\<lbrakk>avl_inv key ok t; ok x\<rbrakk> \<Longrightarrow>
     avl_tree_find_ge_loop cmp t x = List.find (\<lambda>y. key x \<le> key y) (inorder t)"
proof (induction t)
  case NULL
  show ?case by simp
next
  case (AVLNode l d b r)
  from AVLNode.prems have inv: "avl_inv key ok l" "avl_inv key ok r" "ok d"
    and lt: "\<forall>y \<in> set (inorder l). key y < key d" and gt: "\<forall>y \<in> set (inorder r). key d < key y"
    by (auto simp: avl_inv_Node)
  have nl: "key d \<le> key x \<Longrightarrow> List.find (\<lambda>y. key x \<le> key y) (inorder l) = None"
    using lt by (auto simp: find_None_iff)
  consider (L) "key x < key d" | (R) "key d < key x" | (E) "key d = key x" by fastforce
  then show ?case
  proof cases
    case L
    then show ?thesis using AVLNode.IH(1) inv \<open>ok x\<close> by (auto simp: find_append cmp_pos split: option.splits)
  next
    case R
    then show ?thesis using AVLNode.IH(2) inv \<open>ok x\<close> nl by (auto simp: find_append cmp_pos cmp_neg split: option.splits)
  next
    case E
    then show ?thesis using inv \<open>ok x\<close> nl by (auto simp: find_append cmp_pos cmp_neg split: option.splits)
  qed
qed

lemma node_write_spec:
  "\<lbrakk>avl_inv key ok t; ok x\<rbrakk> \<Longrightarrow>
     inorder (avl_node_write cmp t x f) = map (\<lambda>y. if key y = key x then f y else y) (inorder t) \<and>
     height (avl_node_write cmp t x f) = height t \<and> avl_ok (avl_node_write cmp t x f)"
proof (induction t)
  case NULL
  show ?case by simp
next
  case (AVLNode l d b r)
  from AVLNode.prems have inv: "avl_ok (AVLNode l d b r)" "avl_inv key ok l" "avl_inv key ok r" "ok d"
    and lt: "\<forall>y \<in> set (inorder l). key y < key d" and gt: "\<forall>y \<in> set (inorder r). key d < key y"
    by (auto simp: avl_inv_Node)
  have nl: "key d \<le> key x \<Longrightarrow> map (\<lambda>y. if key y = key x then f y else y) (inorder l) = inorder l"
    using lt by (intro map_idI) (metis leD)
  have nr: "key x \<le> key d \<Longrightarrow> map (\<lambda>y. if key y = key x then f y else y) (inorder r) = inorder r"
    using gt by (intro map_idI) (metis leD)
  consider (L) "key x < key d" | (R) "key d < key x" | (E) "key d = key x" by fastforce
  then show ?case
  proof cases
    case L
    with AVLNode.IH(1) inv \<open>ok x\<close> nr show ?thesis by (auto simp: cmp_pos)
  next
    case R
    with AVLNode.IH(2) inv \<open>ok x\<close> nl show ?thesis by (auto simp: cmp_pos cmp_neg)
  next
    case E
    with inv \<open>ok x\<close> nl nr show ?thesis by (auto simp: cmp_pos cmp_neg)
  qed
qed

lemma tree_insert_spec:
  assumes "compare_func tree = cmp" and "avl_inv key ok (root tree)" and "ok x"
  shows "\<exists>t'. avl_tree_insert mem tree x =
             Some (tree\<lparr>root := t'\<rparr>, snd (insert_result key mem x (inorder (root tree)))) \<and>
           avl_inv key ok t' \<and> inorder t' = fst (insert_result key mem x (inorder (root tree)))"
proof -
  let ?R = "insert_result key mem x (inorder (root tree))"
  from insert_loop_spec [OF assms(2,3), of mem] obtain t' k s where
    t: "avl_tree_insert_loop cmp mem (root tree) x 0 = Some (t', k, s)" "grew (root tree) t' k"
      "(inorder t', s) = ?R" by blast
  from t(3) have "inorder t' = fst ?R" "s = snd ?R" by (metis fst_conv, metis snd_conv)
  moreover from assms(2,3) have "sorted_key key (fst ?R)" "\<forall>d \<in> set (fst ?R). ok d"
    by (auto simp: avl_inv_def insert_result_def sorted_put_key set_put_key)
  ultimately show ?thesis
    using t(1,2) assms(1) by (auto simp: avl_tree_insert_def avl_inv_def grew_def)
qed

lemma tree_replace_spec:
  assumes "compare_func tree = cmp" and "avl_inv key ok (root tree)" and "ok x"
  shows "\<exists>t'. avl_tree_replace mem tree x =
             Some (tree\<lparr>root := t'\<rparr>, snd (replace_result key (free_data_func tree) mem x (inorder (root tree)))) \<and>
           avl_inv key ok t' \<and>
           inorder t' = fst (replace_result key (free_data_func tree) mem x (inorder (root tree)))"
proof -
  let ?R = "replace_result key (free_data_func tree) mem x (inorder (root tree))"
  from replace_loop_spec [OF assms(2,3), of "free_data_func tree" mem] obtain t' k s fr where
    t: "avl_tree_replace_loop cmp (free_data_func tree) mem (root tree) x 0 = Some (t', k, s, fr)"
      "grew (root tree) t' k" "(inorder t', s, fr) = ?R" by blast
  from t(3) have "inorder t' = fst ?R" "(s, fr) = snd ?R" by (metis fst_conv, metis snd_conv)
  moreover from assms(2,3) have "sorted_key key (fst ?R)" "\<forall>d \<in> set (fst ?R). ok d"
    by (auto simp: avl_inv_def replace_result_def sorted_put_key set_put_key)
  ultimately show ?thesis
    using t(1,2) assms(1) by (auto simp: avl_tree_replace_def avl_inv_def grew_def)
qed

lemma tree_delete_spec:
  assumes "compare_func tree = cmp" and "avl_inv key ok (root tree)" and "ok x"
  shows "\<exists>t'. avl_tree_delete tree x =
             Some (tree\<lparr>root := t'\<rparr>, snd (delete_result key (free_data_func tree) x (inorder (root tree)))) \<and>
           avl_inv key ok t' \<and>
           inorder t' = fst (delete_result key (free_data_func tree) x (inorder (root tree)))"
proof (cases "root tree = NULL")
  case True
  then show ?thesis by (auto simp: avl_tree_delete_def delete_result_def intro!: exI [of _ NULL])
next
  case False
  let ?R = "delete_result key (free_data_func tree) x (inorder (root tree))"
  from delete_loop_spec [OF assms(2,3) False, of "free_data_func tree"] obtain t' k s fr where
    t: "avl_tree_delete_loop cmp (free_data_func tree) (root tree) x 0 = Some (t', k, s, fr)"
      "shrank (root tree) t' k" "(inorder t', s, fr) = ?R" by blast
  from t(3) have "inorder t' = fst ?R" "(s, fr) = snd ?R" by (metis fst_conv, metis snd_conv)
  moreover from assms(2,3) have "sorted_key key (fst ?R)" "\<forall>d \<in> set (fst ?R). ok d"
    by (auto simp: avl_inv_def delete_result_def sorted_del_key)
  ultimately show ?thesis
    using t(1,2) assms(1) False by (auto simp: avl_tree_delete_def avl_inv_def shrank_def)
qed

lemma tree_find_spec:
  assumes "compare_func tree = cmp" and "avl_inv key ok (root tree)" and "ok x"
  shows "avl_tree_find tree x = List.find (\<lambda>y. key y = key x) (inorder (root tree))"
  using find_loop_spec [OF assms(2,3)] assms(1) by (simp add: avl_tree_find_def)

lemma tree_find_ge_spec:
  assumes "compare_func tree = cmp" and "avl_inv key ok (root tree)" and "ok x"
  shows "avl_tree_find_ge tree x = List.find (\<lambda>y. key x \<le> key y) (inorder (root tree))"
  using find_ge_loop_spec [OF assms(2,3)] assms(1) by (simp add: avl_tree_find_ge_def)

text \<open>Writing through the pointer a search returned keeps the tree, when the key does not change.\<close>

lemma tree_write_spec:
  assumes "compare_func tree = cmp" and "avl_inv key ok (root tree)" and "ok x"
    and "\<And>y. \<lbrakk>y \<in> set (inorder (root tree)); key y = key x\<rbrakk> \<Longrightarrow> key (f y) = key y \<and> ok (f y)"
  shows "\<exists>t'. avl_tree_write tree x f = tree\<lparr>root := t'\<rparr> \<and> avl_inv key ok t' \<and>
           inorder t' = map (\<lambda>y. if key y = key x then f y else y) (inorder (root tree))"
proof -
  let ?g = "\<lambda>y. if key y = key x then f y else y"
  note w = node_write_spec [OF assms(2,3), of f]
  have "map key (map ?g (inorder (root tree))) = map key (inorder (root tree))"
    using assms(4) by auto
  then have "sorted_key key (map ?g (inorder (root tree)))"
    using assms(2) by (metis (no_types, lifting) avl_inv_def sorted_key_map)
  with w assms show ?thesis
    by (auto simp: avl_tree_write_def avl_inv_def intro!: exI [of _ "avl_node_write cmp (root tree) x f"])
qed

end

section \<open>Walking, counting, depth, destruction\<close>

fun walk_list :: "('a \<Rightarrow> 's \<Rightarrow> 's \<times> int) \<Rightarrow> 'a list \<Rightarrow> 's \<Rightarrow> 's \<times> int" where
  "walk_list f [] s = (s, 0)"
| "walk_list f (x # xs) s = (let (s', result) = f x s in if result \<noteq> 0 then (s', result) else walk_list f xs s')"

lemma walk_list_append:
  "walk_list f (xs @ ys) s =
     (let (s', result) = walk_list f xs s in if result \<noteq> 0 then (s', result) else walk_list f ys s')"
  by (induction xs arbitrary: s) (auto split: prod.splits)

lemma walk_loop_inorder: "avl_tree_walk_loop f t s = walk_list f (inorder t) s"
  by (induction t arbitrary: s) (auto simp: walk_list_append Let_def split: prod.splits)

lemma count_loop_inorder: "avl_tree_count_loop t n = n + int (length (inorder t))"
  by (induction t arbitrary: n) (auto simp: Let_def)

lemma depth_loop_height: "avl_ok t \<Longrightarrow> avl_tree_depth_loop t n = n + int (height t)"
  by (induction t arbitrary: n) auto

lemma destroy_loop_mset: "mset (avl_tree_destroy_loop True t) = mset (inorder t)"
  by (induction t) auto

lemma destroy_loop_no_func: "avl_tree_destroy_loop False t = []"
  by (induction t) auto

lemma avl_size_bound: "avl_ok t \<Longrightarrow> 2 ^ (height t div 2) \<le> length (inorder t) + 1"
proof (induction t rule: measure_induct_rule [where f = height])
  case (less t)
  show ?case
  proof (cases t)
    case NULL
    then show ?thesis by simp
  next
    case (AVLNode l d b r)
    with less.prems have ok: "avl_ok l" "avl_ok r"
      and near: "height t - 2 \<le> height l" "height t - 2 \<le> height r" by auto
    have le: "2 ^ ((height t - 2) div 2) \<le> length (inorder s) + 1"
      if "avl_ok s" "height t - 2 \<le> height s" "height s < height t" for s :: "'a AVLTreeNode"
    proof -
      have "(2::nat) ^ ((height t - 2) div 2) \<le> 2 ^ (height s div 2)"
        using that(2) by (intro power_increasing div_le_mono) auto
      with less.IH [OF that(3,1)] show ?thesis by linarith
    qed
    have "height l < height t" "height r < height t" using AVLNode by auto
    with le ok near have both: "2 ^ ((height t - 2) div 2) \<le> length (inorder l) + 1"
      "2 ^ ((height t - 2) div 2) \<le> length (inorder r) + 1" by auto
    show ?thesis
    proof (cases "height t \<ge> 2")
      case True
      then have "height t div 2 = Suc ((height t - 2) div 2)" by presburger
      with both AVLNode show ?thesis by simp
    next
      case False
      then show ?thesis by simp
    qed
  qed
qed

text \<open>The number of nodes of the smallest AVL tree of a height: a root, and the smallest trees of the two heights below.\<close>

fun min_avl :: "nat \<Rightarrow> nat" where
  "min_avl 0 = 0"
| "min_avl (Suc 0) = 1"
| "min_avl (Suc (Suc h)) = min_avl (Suc h) + min_avl h + 1"

lemma min_avl_Suc: "min_avl h \<le> min_avl (Suc h)"
  by (induction h rule: min_avl.induct) auto

lemma avl_min_size: "avl_ok t \<Longrightarrow> min_avl (height t) \<le> length (inorder t)"
proof (induction t)
  case NULL
  show ?case by simp
next
  case (AVLNode l d b r)
  then have sizes: "min_avl (height l) \<le> length (inorder l)" "min_avl (height r) \<le> length (inorder r)" by auto
  from AVLNode.prems consider "height l = height r" | "height l = Suc (height r)" | "height r = Suc (height l)" by fastforce
  then show ?case
  proof cases
    case 1
    have "min_avl (Suc h) \<le> min_avl h + min_avl h + 1" for h
      by (cases h) (use min_avl_Suc in auto)
    from this [of "height r"] sizes 1 show ?thesis by simp
  next
    case 2
    with sizes show ?thesis by simp
  next
    case 3
    with sizes show ?thesis by simp
  qed
qed

section \<open>Properties\<close>

text \<open>C34. Whatever the comparison function answers and whether or not \<open>malloc\<close> succeeds, inserting,
  replacing and deleting in a balanced tree never follow a null pointer and leave a balanced tree. When the
  comparison function orders its data by a key and the tree is ordered by it, the tree the operation leaves is ordered too.
\<close>

theorem avl_updates_safe:
  assumes "avl_ok (root tree)"
  shows "(\<exists>tree' res. avl_tree_insert mem tree x = Some (tree', res) \<and> avl_ok (root tree') \<and>
            (avl_order (compare_func tree) key ok \<and> avl_inv key ok (root tree) \<and> ok x \<longrightarrow> avl_inv key ok (root tree'))) \<and>
         (\<exists>tree' res freed. avl_tree_replace mem tree x = Some (tree', res, freed) \<and> avl_ok (root tree') \<and>
            (avl_order (compare_func tree) key ok \<and> avl_inv key ok (root tree) \<and> ok x \<longrightarrow> avl_inv key ok (root tree'))) \<and>
         (\<exists>tree' res freed. avl_tree_delete tree x = Some (tree', res, freed) \<and> avl_ok (root tree') \<and>
            (avl_order (compare_func tree) key ok \<and> avl_inv key ok (root tree) \<and> ok x \<longrightarrow> avl_inv key ok (root tree')))"
proof -
  obtain ti ri where i: "avl_tree_insert mem tree x = Some (ti, ri)" "avl_ok (root ti)"
    using insert_loop_safe [OF assms, of "compare_func tree" mem x]
    by (auto simp: avl_tree_insert_def grew_def)
  obtain tr rr fr where r: "avl_tree_replace mem tree x = Some (tr, rr, fr)" "avl_ok (root tr)"
    using replace_loop_safe [OF assms, of "compare_func tree" "free_data_func tree" mem x]
    by (auto simp: avl_tree_replace_def grew_def)
  obtain td rd fd where d: "avl_tree_delete tree x = Some (td, rd, fd)" "avl_ok (root td)"
    using delete_loop_safe [OF assms, of "compare_func tree" "free_data_func tree" x] assms
    by (cases "root tree = NULL") (auto simp: avl_tree_delete_def shrank_def)
  have "avl_inv key ok (root ti)" "avl_inv key ok (root tr)" "avl_inv key ok (root td)"
    if "avl_order (compare_func tree) key ok \<and> avl_inv key ok (root tree) \<and> ok x"
    using that i(1) r(1) d(1) avl_order.tree_insert_spec [OF _ refl, of tree key ok x mem]
      avl_order.tree_replace_spec [OF _ refl, of tree key ok x mem] avl_order.tree_delete_spec [OF _ refl, of tree key ok x]
    by auto
  with i r d show ?thesis by blast
qed

definition sample_tree :: "int AVLTreeInfo" where
  "sample_tree = \<lparr>root = AVLNode (AVLNode NULL 1 0 NULL) 4 1 (AVLNode (AVLNode NULL 6 0 NULL) 8 0 (AVLNode NULL 9 0 NULL)),
     free_data_func = True, compare_func = (\<lambda>a b. a - b)\<rparr>"

lemma sample_order: "avl_order (\<lambda>a b. a - b :: int) id (\<lambda>_. True)"
  by unfold_locales auto

lemma sample_inv: "avl_inv id (\<lambda>_. True) (root sample_tree)" "compare_func sample_tree = (\<lambda>a b. a - b)"
  by (simp_all add: avl_inv_def sample_tree_def)

theorem avl_updates_safe_witness:
  "avl_ok (root sample_tree) \<and>
   (\<exists>tree' res. avl_tree_insert True sample_tree 7 = Some (tree', res) \<and> avl_inv id (\<lambda>_. True) (root tree')) \<and>
   (\<exists>tree' res. avl_tree_insert False sample_tree 7 = Some (tree', res) \<and> avl_ok (root tree')) \<and>
   (\<exists>tree' res freed. avl_tree_delete sample_tree 4 = Some (tree', res, freed) \<and> avl_inv id (\<lambda>_. True) (root tree'))"
proof -
  have h: "avl_ok (root sample_tree)" by (simp add: sample_tree_def)
  have o: "avl_order (compare_func sample_tree) id (\<lambda>_. True)" using sample_order sample_inv(2) by simp
  show ?thesis
    using h o sample_inv(1) avl_updates_safe [OF h, of True 7 id "\<lambda>_. True"] avl_updates_safe [OF h, of False 7 id "\<lambda>_. True"]
      avl_updates_safe [OF h, of False 4 id "\<lambda>_. True"] by blast
qed

text \<open>Under a comparison function that orders its data by a key, the in-order sequence of the tree
  after \<open>avl_tree_insert\<close> is the old one when the key was there (result 0), the old one with the new
  datum put at its place (result 1), or the old one when memory ran out (result \<open>-ENOMEM\<close>); the
  tree stays a balanced search tree.
\<close>

theorem avl_tree_insert_correct:
  assumes "avl_order (compare_func tree) key ok" and "avl_inv key ok (root tree)" and "ok x"
  shows "\<exists>t'. avl_tree_insert mem tree x =
             Some (tree\<lparr>root := t'\<rparr>,
                   if \<exists>y \<in> set (inorder (root tree)). key y = key x then 0 else if mem then 1 else - ENOMEM) \<and>
           avl_inv key ok t' \<and>
           inorder t' =
             (if (\<exists>y \<in> set (inorder (root tree)). key y = key x) \<or> \<not> mem then inorder (root tree)
              else put_key key x (inorder (root tree)))"
  using avl_order.tree_insert_spec [OF assms(1) refl assms(2,3), of mem]
  by (auto simp: insert_result_def split: if_splits)

theorem avl_tree_insert_correct_witness:
  "\<exists>t'. avl_tree_insert True sample_tree 7 = Some (sample_tree\<lparr>root := t'\<rparr>, 1) \<and>
     avl_inv id (\<lambda>_. True) t' \<and> inorder t' = [1, 4, 6, 7, 8, 9]"
  using avl_tree_insert_correct [of sample_tree id "\<lambda>_. True" 7 True] sample_order sample_inv
  by (simp add: sample_tree_def put_key_def)

text \<open>Under the same contract, \<open>avl_tree_delete\<close> removes exactly the datum with the key of its
  argument (result 1, and that datum is what \<open>free_data_func\<close> gets), or changes nothing (result 0).
\<close>

theorem avl_tree_delete_correct:
  assumes "avl_order (compare_func tree) key ok" and "avl_inv key ok (root tree)" and "ok x"
  shows "\<exists>t'. avl_tree_delete tree x =
             Some (tree\<lparr>root := t'\<rparr>,
                   if \<exists>y \<in> set (inorder (root tree)). key y = key x then 1 else 0,
                   if free_data_func tree then filter (\<lambda>y. key y = key x) (inorder (root tree)) else []) \<and>
           avl_inv key ok t' \<and> inorder t' = del_key key (key x) (inorder (root tree))"
proof -
  have "\<not> (\<exists>y \<in> set (inorder (root tree)). key y = key x) \<Longrightarrow>
      del_key key (key x) (inorder (root tree)) = inorder (root tree) \<and>
      filter (\<lambda>y. key y = key x) (inorder (root tree)) = []"
    by (auto simp: filter_empty_conv intro!: del_key_absent)
  with avl_order.tree_delete_spec [OF assms(1) refl assms(2,3)] show ?thesis
    by (auto simp: delete_result_def split: if_splits)
qed

theorem avl_tree_delete_correct_witness:
  "\<exists>t'. avl_tree_delete sample_tree 4 = Some (sample_tree\<lparr>root := t'\<rparr>, 1, [4]) \<and>
     avl_inv id (\<lambda>_. True) t' \<and> inorder t' = [1, 6, 8, 9]"
  using avl_tree_delete_correct [of sample_tree id "\<lambda>_. True" 4] sample_order sample_inv
  by (simp add: sample_tree_def)

text \<open>Under the same contract, \<open>avl_tree_find\<close> returns the datum with the key of its argument and
  \<open>NULL\<close> if there is none, and \<open>avl_tree_find_ge\<close> returns the datum with the least key that is not
  smaller, and \<open>NULL\<close> exactly when all keys are smaller.
\<close>

theorem avl_tree_find_correct:
  assumes "avl_order (compare_func tree) key ok" and "avl_inv key ok (root tree)" and "ok x"
  shows "(avl_tree_find tree x = Some d) = (d \<in> set (inorder (root tree)) \<and> key d = key x) \<and>
         (avl_tree_find_ge tree x = Some d) =
           (d \<in> set (inorder (root tree)) \<and> key x \<le> key d \<and>
            (\<forall>y \<in> set (inorder (root tree)). key x \<le> key y \<longrightarrow> key d \<le> key y)) \<and>
         (avl_tree_find_ge tree x = None) = (\<forall>y \<in> set (inorder (root tree)). key y < key x)"
proof (intro conjI)
  let ?xs = "inorder (root tree)"
  have srt: "sorted_key key (inorder (root tree))" using assms(2) by (simp add: avl_inv_def)
  note f = avl_order.tree_find_spec [OF assms(1) refl assms(2,3)]
  note g = avl_order.tree_find_ge_spec [OF assms(1) refl assms(2,3)]
  show "(avl_tree_find tree x = Some d) = (d \<in> set ?xs \<and> key d = key x)"
  proof
    assume "d \<in> set ?xs \<and> key d = key x"
    moreover then obtain e where "avl_tree_find tree x = Some e" using f
      by (metis (mono_tags, lifting) find_None_iff not_None_eq)
    ultimately show "avl_tree_find tree x = Some d"
      using f find_Some_mem sorted_key_inj [OF srt] by (metis (mono_tags, lifting))
  qed (use f find_Some_mem in fastforce)
  show "(avl_tree_find_ge tree x = None) = (\<forall>y \<in> set ?xs. key y < key x)"
    using g by (auto simp: find_None_iff not_le)
  show "(avl_tree_find_ge tree x = Some d) =
      (d \<in> set ?xs \<and> key x \<le> key d \<and> (\<forall>y \<in> set ?xs. key x \<le> key y \<longrightarrow> key d \<le> key y))"
  proof
    assume "avl_tree_find_ge tree x = Some d"
    with g have s: "List.find (\<lambda>y. key x \<le> key y) ?xs = Some d" by simp
    then show "d \<in> set ?xs \<and> key x \<le> key d \<and> (\<forall>y \<in> set ?xs. key x \<le> key y \<longrightarrow> key d \<le> key y)"
      using find_Some_mem [OF s] find_sorted_least [OF srt s] by blast
  next
    assume r: "d \<in> set ?xs \<and> key x \<le> key d \<and> (\<forall>y \<in> set ?xs. key x \<le> key y \<longrightarrow> key d \<le> key y)"
    then obtain e where s: "List.find (\<lambda>y. key x \<le> key y) ?xs = Some e"
      by (metis (mono_tags, lifting) find_None_iff not_None_eq)
    from find_Some_mem [OF s] find_sorted_least [OF srt s] r have "key e = key d" "e \<in> set ?xs"
      by (auto intro: antisym)
    with r sorted_key_inj [OF srt] s g show "avl_tree_find_ge tree x = Some d" by metis
  qed
qed

theorem avl_tree_find_correct_witness:
  "avl_tree_find sample_tree 8 = Some 8 \<and> avl_tree_find_ge sample_tree 5 = Some 6 \<and>
   avl_tree_find_ge sample_tree 10 = None"
  using avl_tree_find_correct [OF sample_order [folded sample_inv(2)] sample_inv(1)]
  by (simp add: sample_tree_def)

text \<open>C35. \<open>avl_tree_depth\<close> returns the height, \<open>avl_tree_count\<close> the number of data, the tree holds at least as many data
  as the smallest AVL tree of that height, and the height is at most twice the binary logarithm of the count plus one, so
  every recursion of the tree operations is that shallow.
\<close>

theorem avl_depth_logarithmic:
  assumes "avl_ok (root tree)"
  shows "avl_tree_depth tree = int (height (root tree)) \<and>
         avl_tree_count tree = int (length (inorder (root tree))) \<and>
         int (min_avl (nat (avl_tree_depth tree))) \<le> avl_tree_count tree \<and>
         2 ^ (nat (avl_tree_depth tree) div 2) \<le> avl_tree_count tree + 1"
proof -
  have "avl_tree_depth tree = int (height (root tree))"
    by (simp add: avl_tree_depth_def depth_loop_height [OF assms])
  moreover have "avl_tree_count tree = int (length (inorder (root tree)))"
    by (simp add: avl_tree_count_def count_loop_inorder)
  moreover have "int (2 ^ (height (root tree) div 2)) \<le> int (length (inorder (root tree)) + 1)"
    using avl_size_bound [OF assms] by (simp only: of_nat_le_iff)
  ultimately show ?thesis using avl_min_size [OF assms] by simp
qed

theorem avl_depth_logarithmic_witness:
  "avl_tree_depth sample_tree = 3 \<and> avl_tree_count sample_tree = 5 \<and> min_avl 3 = 4 \<and> int (min_avl (nat 3)) \<le> 5 \<and>
   2 ^ (nat 3 div 2) \<le> (5::int) + 1"
  using avl_depth_logarithmic [of sample_tree] by (simp add: sample_tree_def numeral_3_eq_3)

text \<open>\<open>avl_tree_walk\<close> runs the callback over the data in ascending order and stops at the first
  non-zero result, which it returns; \<open>avl_tree_destroy\<close> hands every datum to \<open>free_data_func\<close>
  exactly once, if there is such a function, and leaves the empty tree.
\<close>

theorem avl_walk_destroy_correct:
  "avl_tree_walk tree f s = walk_list f (inorder (root tree)) s \<and>
   root (fst (avl_tree_destroy tree)) = NULL \<and>
   mset (snd (avl_tree_destroy tree)) =
     (if free_data_func tree then mset (inorder (root tree)) else {#})"
  by (simp add: avl_tree_walk_def walk_loop_inorder avl_tree_destroy_def destroy_loop_mset destroy_loop_no_func)

end
