(* ===== verification/Shared_Func.thy ===== *)
theory Shared_Func
  imports FDFS_Prelude "HOL-Library.Sublist"
begin

text \<open>
  The string and buffer helpers of \<open>common/shared_func.c\<close>. A buffer or string is the list of its
  bytes (a C string without its terminating zero byte); a function that writes to a buffer and
  reports a length returns the list of the bytes it wrote. A C \<open>int\<close> and an \<open>int64_t\<close> are integers
  with the wrap-around to their width written out.
\<close>

unbundle bit_operations_syntax

section \<open>Big-endian integers in buffers\<close>

definition c_long :: "int \<Rightarrow> int" where
  "c_long x = signed_take_bit 63 x"

definition long_range :: "int \<Rightarrow> bool" where
  "long_range x \<longleftrightarrow> - (2 ^ 63) \<le> x \<and> x < 2 ^ 63"

definition int2buff :: "int \<Rightarrow> byte list" where
  "int2buff n = [word_of_int (drop_bit 24 n), word_of_int (drop_bit 16 n),
     word_of_int (drop_bit 8 n), word_of_int n]"

definition buff2int :: "byte list \<Rightarrow> int" where
  "buff2int buff = c_int (push_bit 24 (uint (buff ! 0)) OR push_bit 16 (uint (buff ! 1)) OR
     push_bit 8 (uint (buff ! 2)) OR uint (buff ! 3))"

definition long2buff :: "int \<Rightarrow> byte list" where
  "long2buff n = [word_of_int (drop_bit 56 n), word_of_int (drop_bit 48 n),
     word_of_int (drop_bit 40 n), word_of_int (drop_bit 32 n), word_of_int (drop_bit 24 n),
     word_of_int (drop_bit 16 n), word_of_int (drop_bit 8 n), word_of_int n]"

definition buff2long :: "byte list \<Rightarrow> int" where
  "buff2long buff = c_long (push_bit 56 (uint (buff ! 0)) OR push_bit 48 (uint (buff ! 1)) OR
     push_bit 40 (uint (buff ! 2)) OR push_bit 32 (uint (buff ! 3)) OR push_bit 24 (uint (buff ! 4)) OR
     push_bit 16 (uint (buff ! 5)) OR push_bit 8 (uint (buff ! 6)) OR uint (buff ! 7))"

section \<open>Characters and the C library functions the helpers call\<close>

definition is_space :: "byte \<Rightarrow> bool" where
  "is_space c \<longleftrightarrow> c = 32 \<or> (9 \<le> c \<and> c \<le> 13)"

text \<open>The value of a digit character, at least 36 for any other character.\<close>

definition digit_val :: "byte \<Rightarrow> int" where
  "digit_val c =
     (if 48 \<le> c \<and> c \<le> 57 then uint c - 48
      else if 97 \<le> c \<and> c \<le> 122 then uint c - 87
      else if 65 \<le> c \<and> c \<le> 90 then uint c - 55
      else 36)"

definition digits_val :: "int \<Rightarrow> byte list \<Rightarrow> int" where
  "digits_val base ds = foldl (\<lambda>acc c. acc * base + digit_val c) 0 ds"

text \<open>
  \<open>strtol(s, &end, base)\<close>: leading white space, an optional sign, for base 16 an optional
  \<open>0x\<close>, then the digits; the value saturates at the range of \<open>long\<close>. The second result is
  the rest of the string that \<open>end\<close> points to (the whole string when there is no digit).
\<close>

definition strtol :: "byte list \<Rightarrow> int \<Rightarrow> int \<times> byte list" where
  "strtol s base =
     (let s1 = dropWhile is_space s;
          neg = (s1 \<noteq> [] \<and> hd s1 = 45);
          s2 = (if s1 \<noteq> [] \<and> (hd s1 = 45 \<or> hd s1 = 43) then tl s1 else s1);
          hex = (base = 16 \<and> 2 < length s2 \<and> s2 ! 0 = 48 \<and> (s2 ! 1 = 120 \<or> s2 ! 1 = 88) \<and>
                 digit_val (s2 ! 2) < 16);
          s3 = (if hex then drop 2 s2 else s2);
          ds = takeWhile (\<lambda>c. digit_val c < base) s3;
          v = digits_val base ds
      in if ds = [] then (0, s)
         else (if neg then max (- (2 ^ 63)) (- v) else min (2 ^ 63 - 1) v, drop (length ds) s3))"

fun strchr :: "byte list \<Rightarrow> byte \<Rightarrow> nat option" where
  "strchr [] c = None"
| "strchr (x # xs) c = (if x = c then Some 0 else map_option Suc (strchr xs c))"

fun strstr :: "byte list \<Rightarrow> byte list \<Rightarrow> nat option" where
  "strstr [] pat = (if pat = [] then Some 0 else None)"
| "strstr (x # xs) pat =
     (if take (length pat) (x # xs) = pat then Some 0 else map_option Suc (strstr xs pat))"

section \<open>Characters of a string\<close>

text \<open>The number of characters of a string in a two-byte encoding, and line ends made spaces.\<close>

fun getCharLen :: "byte list \<Rightarrow> int" where
  "getCharLen [] = 0"
| "getCharLen (c # s) =
     (if 127 < c then (case s of [] \<Rightarrow> 1 | _ # s' \<Rightarrow> getCharLen s' + 1) else getCharLen s + 1)"

definition replaceCRLF2Space :: "byte list \<Rightarrow> byte list" where
  "replaceCRLF2Space s = map (\<lambda>c. if c = 13 \<or> c = 10 then 32 else c) s"

section \<open>Case, hexadecimal and URL encodings\<close>

definition toLowercase :: "byte list \<Rightarrow> byte list" where
  "toLowercase src = map (\<lambda>c. if 65 \<le> c \<and> c \<le> 90 then c + 32 else c) src"

definition toUppercase :: "byte list \<Rightarrow> byte list" where
  "toUppercase src = map (\<lambda>c. if 97 \<le> c \<and> c \<le> 122 then c - 32 else c) src"

text \<open>The character of a hexadecimal digit: \<open>sprintf\<close>'s \<open>%x\<close>, and the table of \<open>urlencode\<close>.\<close>

definition lower_hex :: "int \<Rightarrow> byte" where
  "lower_hex v = (if v < 10 then word_of_int (48 + v) else word_of_int (87 + v))"

definition hex_chars :: "int \<Rightarrow> byte" where
  "hex_chars v = (if v < 10 then word_of_int (48 + v) else word_of_int (55 + v))"

fun bin2hex :: "byte list \<Rightarrow> byte list" where
  "bin2hex [] = []"
| "bin2hex (p # s) = lower_hex (uint p div 16) # lower_hex (uint p mod 16) # bin2hex s"

fun hex2bin :: "byte list \<Rightarrow> byte list" where
  "hex2bin (h # l # s) = word_of_int (fst (strtol [h, l] 16)) # hex2bin s"
| "hex2bin _ = []"

definition url_plain :: "byte \<Rightarrow> bool" where
  "url_plain c \<longleftrightarrow> 48 \<le> c \<and> c \<le> 57 \<or> 97 \<le> c \<and> c \<le> 122 \<or> 65 \<le> c \<and> c \<le> 90 \<or>
     c = 95 \<or> c = 45 \<or> c = 46"

fun urlencode :: "byte list \<Rightarrow> byte list" where
  "urlencode [] = []"
| "urlencode (c # src) =
     (if url_plain c then c # urlencode src
      else if c = 32 then 43 # urlencode src
      else 37 # hex_chars (uint (drop_bit 4 c)) # hex_chars (uint (c AND 15)) # urlencode src)"

definition IS_HEX_CHAR :: "byte \<Rightarrow> bool" where
  "IS_HEX_CHAR ch \<longleftrightarrow> 48 \<le> ch \<and> ch \<le> 57 \<or> 97 \<le> ch \<and> ch \<le> 102 \<or> 65 \<le> ch \<and> ch \<le> 70"

definition HEX_VALUE :: "byte \<Rightarrow> int" where
  "HEX_VALUE ch =
     (if 48 \<le> ch \<and> ch \<le> 57 then uint ch - 48
      else if 97 \<le> ch \<and> ch \<le> 102 then uint ch - 97 + 10
      else uint ch - 65 + 10)"

fun urldecode :: "byte list \<Rightarrow> byte list" where
  "urldecode [] = []"
| "urldecode (c # src) =
     (if c = 37 \<and> 2 \<le> length src then
        (let cHigh = src ! 0; cLow = src ! 1 in
         if IS_HEX_CHAR cHigh \<and> IS_HEX_CHAR cLow
         then word_of_int (push_bit 4 (HEX_VALUE cHigh) OR HEX_VALUE cLow) # urldecode (drop 2 src)
         else c # urldecode src)
      else if c = 43 then 32 # urldecode src
      else c # urldecode src)"

section \<open>Trimming, splitting, replacing\<close>

definition is_blank :: "byte \<Rightarrow> bool" where
  "is_blank c \<longleftrightarrow> c = 32 \<or> c = 10 \<or> c = 13 \<or> c = 9"

definition trim_left :: "byte list \<Rightarrow> byte list" where
  "trim_left s = dropWhile is_blank s"

definition trim_right :: "byte list \<Rightarrow> byte list" where
  "trim_right s = rev (dropWhile is_blank (rev s))"

definition trim :: "byte list \<Rightarrow> byte list" where
  "trim s = trim_left (trim_right s)"

lemma strchr_Some: "strchr s c = Some i \<Longrightarrow> i < length s \<and> s ! i = c \<and> c \<notin> set (take i s)"
  by (induction s arbitrary: i) (auto split: if_splits)

lemma strchr_None: "strchr s c = None \<longleftrightarrow> c \<notin> set s"
  by (induction s) auto

function getOccurCount_loop :: "byte list \<Rightarrow> byte \<Rightarrow> int \<Rightarrow> int" where
  "getOccurCount_loop p c cnt =
     (case strchr p c of None \<Rightarrow> cnt | Some i \<Rightarrow> getOccurCount_loop (drop (Suc i) p) c (cnt + 1))"
  by pat_completeness auto
termination
  by (relation "measure (\<lambda>(p, c, cnt). length p)") (auto dest: strchr_Some)

declare getOccurCount_loop.simps [simp del]

definition getOccurCount :: "byte list \<Rightarrow> byte \<Rightarrow> int" where
  "getOccurCount src seperator = getOccurCount_loop src seperator 0"

fun splitEx_loop :: "nat \<Rightarrow> byte \<Rightarrow> byte list \<Rightarrow> byte list list" where
  "splitEx_loop 0 seperator p = []"
| "splitEx_loop (Suc k) seperator p =
     (if k = 0 then [p]
      else (case strchr p seperator of
              None \<Rightarrow> [p]
            | Some i \<Rightarrow> take i p # splitEx_loop k seperator (drop (Suc i) p)))"

definition splitEx :: "byte list \<Rightarrow> byte \<Rightarrow> int \<Rightarrow> byte list list" where
  "splitEx src seperator nMaxCols =
     (if nMaxCols \<le> 0 then [] else splitEx_loop (nat nMaxCols) seperator src)"

text \<open>
  \<open>split\<close> counts the separators first and allocates the column array (\<open>mem\<close>: whether \<open>malloc\<close>
  succeeds; \<open>NULL\<close> is the empty result). Its loop writes through the result of \<open>strchr\<close> without a test; \<open>None\<close> stands for
  that \<open>NULL\<close> dereference.
\<close>

fun split_loop :: "nat \<Rightarrow> byte \<Rightarrow> byte list \<Rightarrow> byte list list option" where
  "split_loop 0 seperator p = Some []"
| "split_loop (Suc k) seperator p =
     (if k = 0 then Some [p]
      else (case strchr p seperator of
              None \<Rightarrow> None
            | Some i \<Rightarrow> map_option ((#) (take i p)) (split_loop k seperator (drop (Suc i) p))))"

definition split :: "bool \<Rightarrow> byte list \<Rightarrow> byte \<Rightarrow> int \<Rightarrow> byte list list option" where
  "split mem src seperator nMaxCols =
     (let n = getOccurCount src seperator + 1;
          nColCount = (if 0 < nMaxCols \<and> nMaxCols < n then nMaxCols else n)
      in if \<not> mem then Some [] else split_loop (nat nColCount) seperator src)"

text \<open>
  \<open>my_strtok\<close>: the words between runs of delimiters. The loop keeps the word it is in, whether a
  delimiter ended it, and the number of columns still free after it; the word that takes the last
  column keeps the rest of the string.
\<close>

fun my_strtok_loop :: "byte list \<Rightarrow> byte list \<Rightarrow> byte list \<Rightarrow> bool \<Rightarrow> nat \<Rightarrow> byte list list" where
  "my_strtok_loop delim [] word bWordEnd free = [word]"
| "my_strtok_loop delim (c # p) word bWordEnd free =
     (if c \<in> set delim then my_strtok_loop delim p word True free
      else if bWordEnd then
        (if free \<le> 1 then [word, c # p] else word # my_strtok_loop delim p [c] False (free - 1))
      else my_strtok_loop delim p (word @ [c]) False free)"

definition my_strtok :: "byte list \<Rightarrow> byte list \<Rightarrow> int \<Rightarrow> byte list list" where
  "my_strtok src delim nMaxCols =
     (if nMaxCols \<le> 0 then []
      else (let p = dropWhile (\<lambda>c. c \<in> set delim) src in
            if p = [] then []
            else if nMaxCols \<le> 1 then [p]
            else my_strtok_loop delim (tl p) [hd p] False (nat (nMaxCols - 1))))"

lemma strstr_Some:
  "strstr s pat = Some i \<Longrightarrow> i + length pat \<le> length s \<and> take (length pat) (drop i s) = pat"
proof (induction s arbitrary: i)
  case (Cons x xs)
  show ?case
  proof (cases "take (length pat) (x # xs) = pat")
    case True
    then have "length pat \<le> length (x # xs)" by (metis length_take min.cobounded1)
    with True Cons.prems show ?thesis by auto
  next
    case False
    with Cons show ?thesis by auto
  qed
qed (auto split: if_splits)

text \<open>
  \<open>str_replace\<close>: the bytes written to \<open>dest\<close>. The loop is entered with a non-empty \<open>replaced\<close>
  only, and each round passes at least one byte of the source.
\<close>

function str_replace_loop :: "byte list \<Rightarrow> byte list \<Rightarrow> byte list \<Rightarrow> int \<Rightarrow> byte list \<Rightarrow> byte list" where
  "str_replace_loop pStart replaced new_str remain_len out =
     (case strstr pStart replaced of
        None \<Rightarrow> out @ take (nat (if int (length pStart) > remain_len then remain_len else int (length pStart))) pStart
      | Some i \<Rightarrow>
          if replaced = [] then out
          else if i > 0 \<and> \<not> int i < remain_len then out @ take (nat remain_len) pStart
          else (let out1 = out @ take i pStart; remain1 = remain_len - int i in
                if int (length new_str) < remain1
                then str_replace_loop (drop (i + length replaced) pStart) replaced new_str
                       (remain1 - int (length new_str)) (out1 @ new_str)
                else out1 @ take (nat remain1) new_str))"
  by pat_completeness auto
termination
  by (relation "measure (\<lambda>(p, r, n, m, out). length p)") (auto dest!: strstr_Some simp: length_greater_0_conv [symmetric] simp del: length_greater_0_conv)

declare str_replace_loop.simps [simp del]

definition str_replace :: "byte list \<Rightarrow> byte list \<Rightarrow> byte list \<Rightarrow> int \<Rightarrow> byte list" where
  "str_replace s replaced new_str dest_size =
     (if dest_size \<le> 0 then []
      else (let max_dest_len = dest_size - 1 in
            if replaced = [] then take (nat (min (int (length s)) max_dest_len)) s
            else str_replace_loop s replaced new_str max_dest_len []))"

section \<open>File names, sizes\<close>

definition chopPath :: "byte list \<Rightarrow> byte list" where
  "chopPath filePath = (if filePath = [] then filePath
     else if last filePath = 47 then butlast filePath else filePath)"

definition is_filename_secure :: "byte list \<Rightarrow> bool" where
  "is_filename_secure filename =
     (if length filename < 3 then True
      else if take 3 filename = [46, 46, 47] then False
      else strstr filename [47, 46, 46, 47] = None)"

text \<open>\<open>parse_bytes\<close>: the error number and the parsed size, with the products in \<open>int64_t\<close>.\<close>

definition parse_bytes :: "byte list \<Rightarrow> int \<Rightarrow> int \<times> int" where
  "parse_bytes pStr default_unit_bytes =
     (let (bytes, rest) = strtol pStr 10 in
      if bytes < 0 then (EINVAL, bytes)
      else if rest = [] then (0, c_long (bytes * default_unit_bytes))
      else if hd rest = 71 \<or> hd rest = 103 then (0, c_long (bytes * (1024 * 1024 * 1024)))
      else if hd rest = 77 \<or> hd rest = 109 then (0, c_long (bytes * (1024 * 1024)))
      else if hd rest = 75 \<or> hd rest = 107 then (0, c_long (bytes * 1024))
      else (0, bytes))"

section \<open>Growing buffers\<close>

text \<open>
  \<open>BufferInfo\<close>: the allocated block (\<open>None\<close> for \<open>NULL\<close>), the length of the data in it and its size.
  The second argument says whether \<open>malloc\<close> succeeds; the first result is the error number. A
  fresh block holds arbitrary bytes, all overwritten or beyond the data; they are written as zero.
\<close>

record BufferInfo =
  buff_block :: "byte list option"
  data_length :: int
  alloc_size :: int

definition buffer_grow :: "BufferInfo \<Rightarrow> bool \<Rightarrow> int \<Rightarrow> int \<times> BufferInfo" where
  "buffer_grow pBuff mem bytes =
     (if mem then (0, pBuff\<lparr>alloc_size := bytes, buff_block := Some (replicate (nat bytes) 0)\<rparr>)
      else (ENOMEM, pBuff\<lparr>alloc_size := 0, buff_block := None\<rparr>))"

definition memcpy_into :: "BufferInfo \<Rightarrow> byte list \<Rightarrow> BufferInfo" where
  "memcpy_into pBuff src =
     pBuff\<lparr>buff_block := map_option (\<lambda>b. src @ drop (length src) b) (buff_block pBuff)\<rparr>"

definition buffer_strcpy :: "BufferInfo \<Rightarrow> bool \<Rightarrow> byte list \<Rightarrow> int \<times> BufferInfo" where
  "buffer_strcpy pBuff mem str =
     (let b = pBuff\<lparr>data_length := int (length str)\<rparr>;
          (result, b1) = (if alloc_size b \<le> data_length b then buffer_grow b mem (data_length b + 1) else (0, b))
      in if result \<noteq> 0 then (result, b1) else (0, memcpy_into b1 (str @ [0])))"

definition buffer_memcpy :: "BufferInfo \<Rightarrow> bool \<Rightarrow> byte list \<Rightarrow> int \<times> BufferInfo" where
  "buffer_memcpy pBuff mem src =
     (let b = pBuff\<lparr>data_length := int (length src)\<rparr>;
          (result, b1) = (if alloc_size b \<le> data_length b then buffer_grow b mem (data_length b) else (0, b))
      in if result \<noteq> 0 then (result, b1) else (0, memcpy_into b1 src))"

definition buffer_ok :: "BufferInfo \<Rightarrow> bool" where
  "buffer_ok b = (case buff_block b of None \<Rightarrow> alloc_size b = 0 | Some xs \<Rightarrow> alloc_size b = int (length xs))"

section \<open>Round trips of the buffer encodings\<close>

lemma byte_bit_high: "8 \<le> n \<Longrightarrow> \<not> bit (w :: byte) n"
  by (simp add: bit_word.rep_eq)

lemma combine4:
  "push_bit 24 (take_bit 8 (drop_bit 24 n)) OR push_bit 16 (take_bit 8 (drop_bit 16 n)) OR
     push_bit 8 (take_bit 8 (drop_bit 8 n)) OR take_bit 8 n = take_bit 32 (n :: int)" (is "?l = ?r")
proof (rule bit_eqI)
  fix m
  show "bit ?l m = bit ?r m"
    by (cases "m < 8"; cases "m < 16"; cases "m < 24") (auto simp: bit_simps)
qed

lemma combine8:
  "push_bit 56 (take_bit 8 (drop_bit 56 n)) OR push_bit 48 (take_bit 8 (drop_bit 48 n)) OR
   push_bit 40 (take_bit 8 (drop_bit 40 n)) OR push_bit 32 (take_bit 8 (drop_bit 32 n)) OR
   push_bit 24 (take_bit 8 (drop_bit 24 n)) OR push_bit 16 (take_bit 8 (drop_bit 16 n)) OR
     push_bit 8 (take_bit 8 (drop_bit 8 n)) OR take_bit 8 n = take_bit 64 (n :: int)" (is "?l = ?r")
proof (rule bit_eqI)
  fix m :: nat
  consider "m < 8" | "8 \<le> m" "m < 16" | "16 \<le> m" "m < 24" | "24 \<le> m" "m < 32" | "32 \<le> m" "m < 40"
    | "40 \<le> m" "m < 48" | "48 \<le> m" "m < 56" | "56 \<le> m" by linarith
  then show "bit ?l m = bit ?r m"
    by cases (auto simp: bit_simps)
qed

lemma buff2int_int2buff: "int_range n \<Longrightarrow> buff2int (int2buff n) = n"
proof -
  assume "int_range n"
  then have "signed_take_bit 31 n = n" using c_int_id by (simp add: c_int_def)
  then show ?thesis
    by (simp add: buff2int_def int2buff_def unsigned_of_int combine4 c_int_def signed_take_bit_take_bit)
qed

lemma int2buff_buff2int: "int2buff (buff2int [a, b, c, d]) = [a, b, c, d]"
  unfolding buff2int_def int2buff_def c_int_def
  by (simp, intro conjI; rule bit_word_eqI; auto simp: bit_simps byte_bit_high)

lemma length_int2buff [simp]: "length (int2buff n) = 4"
  by (simp add: int2buff_def)

lemma length_long2buff [simp]: "length (long2buff n) = 8"
  by (simp add: long2buff_def)

lemma c_long_id [simp]: "long_range n \<Longrightarrow> c_long n = n"
  by (simp add: c_long_def long_range_def signed_take_bit_int_eq_self)

lemma buff2long_long2buff: "long_range n \<Longrightarrow> buff2long (long2buff n) = n"
proof -
  assume "long_range n"
  then have "signed_take_bit 63 n = n" using c_long_id by (simp add: c_long_def)
  then show ?thesis
    by (simp add: buff2long_def long2buff_def unsigned_of_int combine8 c_long_def signed_take_bit_take_bit)
qed

section \<open>Round trips of the text encodings\<close>

lemma nibble_cases:
  assumes "0 \<le> v" and "v < (16 :: int)"
  shows "v \<in> {0, 1, 2, 3, 4, 5, 6, 7, 8, 9, 10, 11, 12, 13, 14, 15}"
  using assms by simp arith

lemma lower_hex_digit:
  assumes "0 \<le> v" and "v < 16"
  shows "digit_val (lower_hex v) = v \<and> \<not> is_space (lower_hex v) \<and> lower_hex v \<noteq> 45 \<and> lower_hex v \<noteq> 43"
  using nibble_cases [OF assms]
  by (elim insertE emptyE) (simp_all add: lower_hex_def digit_val_def is_space_def)

lemma strtol_hex_byte: "strtol [lower_hex (uint p div 16), lower_hex (uint p mod 16)] 16 = (uint p, [])" for p :: byte
proof -
  have "uint p < 256" "0 \<le> uint p" using uint_lt2p [of p] by auto
  then have "0 \<le> uint p div 16" "uint p div 16 < 16" "0 \<le> uint p mod 16" "uint p mod 16 < 16"
    by (auto simp: pos_imp_zdiv_nonneg_iff)
  with lower_hex_digit have
    "digit_val (lower_hex (uint p div 16)) = uint p div 16" "digit_val (lower_hex (uint p mod 16)) = uint p mod 16"
    "\<not> is_space (lower_hex (uint p div 16))" "lower_hex (uint p div 16) \<noteq> 45" "lower_hex (uint p div 16) \<noteq> 43"
    by auto
  moreover have "uint p div 16 * 16 + uint p mod 16 = uint p" by simp
  ultimately show ?thesis using \<open>uint p div 16 < 16\<close> \<open>uint p mod 16 < 16\<close> \<open>uint p < 256\<close>
    by (simp add: strtol_def digits_val_def)
qed

lemma hex2bin_bin2hex: "hex2bin (bin2hex s) = s"
  by (induction s) (simp_all add: strtol_hex_byte)

lemma hex_chars_value:
  assumes "0 \<le> v" and "v < 16"
  shows "IS_HEX_CHAR (hex_chars v) \<and> HEX_VALUE (hex_chars v) = v"
  using nibble_cases [OF assms]
  by (elim insertE emptyE) (simp_all add: hex_chars_def IS_HEX_CHAR_def HEX_VALUE_def)

lemma nibbles_bound: "uint (drop_bit 4 c) < 16" "uint (c AND 15) < 16" for c :: byte
proof -
  have "uint (drop_bit 4 c) = uint c div 16"
    using uint_div [of c 16] by (simp add: drop_bit_eq_div)
  then show "uint (drop_bit 4 c) < 16" using uint_lt2p [of c] by auto
  have "c AND 15 = take_bit 4 c" by (simp add: take_bit_eq_mask mask_eq_exp_minus_1)
  then show "uint (c AND 15) < 16"
    using take_bit_int_less_exp [of 4 "uint c"] by (simp add: unsigned_take_bit_eq)
qed

lemma nibbles_join: "word_of_int (push_bit 4 (uint (drop_bit 4 c)) OR uint (c AND 15)) = c" for c :: byte
proof -
  have "c AND 15 = take_bit 4 c" by (simp add: take_bit_eq_mask mask_eq_exp_minus_1)
  then show ?thesis by (intro bit_word_eqI) (auto simp: bit_simps)
qed

lemma url_plain_not_special: "url_plain c \<Longrightarrow> c \<noteq> 37 \<and> c \<noteq> 43"
  by (auto simp: url_plain_def)

lemma urldecode_urlencode: "urldecode (urlencode s) = s"
proof (induction s)
  case (Cons c s)
  show ?case
  proof (cases "url_plain c")
    case True
    with Cons url_plain_not_special [OF True] show ?thesis by simp
  next
    case False
    have "IS_HEX_CHAR (hex_chars (uint (drop_bit 4 c)))" "IS_HEX_CHAR (hex_chars (uint (c AND 15)))"
      "HEX_VALUE (hex_chars (uint (drop_bit 4 c))) = uint (drop_bit 4 c)"
      "HEX_VALUE (hex_chars (uint (c AND 15))) = uint (c AND 15)"
      using hex_chars_value nibbles_bound by auto
    with False Cons show ?thesis by (simp add: nibbles_join)
  qed
qed simp

section \<open>Splitting, counting, trimming, replacing\<close>

fun join_cols :: "byte \<Rightarrow> byte list list \<Rightarrow> byte list" where
  "join_cols sep [] = []"
| "join_cols sep [x] = x"
| "join_cols sep (x # xs) = x @ sep # join_cols sep xs"

lemma splitEx_loop_nonempty: "0 < k \<Longrightarrow> splitEx_loop k sep p \<noteq> []"
  by (cases k) (auto split: option.splits)

lemma join_Cons: "xs \<noteq> [] \<Longrightarrow> join_cols sep (x # xs) = x @ sep # join_cols sep xs"
  by (cases xs) auto

lemma splitEx_loop_spec:
  "0 < k \<Longrightarrow> join_cols sep (splitEx_loop k sep p) = p \<and> length (splitEx_loop k sep p) \<le> k \<and>
     (\<forall>col \<in> set (butlast (splitEx_loop k sep p)). sep \<notin> set col) \<and>
     (length (splitEx_loop k sep p) < k \<longrightarrow> sep \<notin> set (last (splitEx_loop k sep p)))"
proof (induction k sep p rule: splitEx_loop.induct)
  case (2 k sep p)
  show ?case
  proof (cases "k = 0 \<or> strchr p sep = None")
    case True
    moreover have "strchr p sep = None \<Longrightarrow> sep \<notin> set p" by (simp add: strchr_None)
    ultimately show ?thesis by auto
  next
    case False
    then obtain i where i: "strchr p sep = Some i" "0 < k" by auto
    from strchr_Some [OF i(1)] have p: "take i p @ sep # drop (Suc i) p = p" and no: "sep \<notin> set (take i p)"
      by (auto simp: id_take_nth_drop [symmetric])
    from "2.IH" i have ih: "join_cols sep (splitEx_loop k sep (drop (Suc i) p)) = drop (Suc i) p"
      "length (splitEx_loop k sep (drop (Suc i) p)) \<le> k"
      "\<forall>col \<in> set (butlast (splitEx_loop k sep (drop (Suc i) p))). sep \<notin> set col"
      "length (splitEx_loop k sep (drop (Suc i) p)) < k \<longrightarrow> sep \<notin> set (last (splitEx_loop k sep (drop (Suc i) p)))"
      by auto
    with p no i splitEx_loop_nonempty [OF i(2), of sep "drop (Suc i) p"] show ?thesis
      by (simp add: join_Cons)
  qed
qed simp

lemma count_list_split:
  assumes "strchr p c = Some i"
  shows "count_list p c = Suc (count_list (drop (Suc i) p) c)"
proof -
  from strchr_Some [OF assms] have p: "p = take i p @ c # drop (Suc i) p" "c \<notin> set (take i p)"
    by (auto simp: id_take_nth_drop [symmetric])
  have "count_list (take i p @ c # drop (Suc i) p) c = Suc (count_list (drop (Suc i) p) c)"
    using p(2) by (simp add: count_list_0_iff del: append_take_drop_id)
  then show ?thesis by (simp only: p(1) [symmetric])
qed

lemma occur_loop: "getOccurCount_loop p c n = n + int (count_list p c)"
proof (induction p c n rule: getOccurCount_loop.induct)
  case (1 p c n)
  show ?case
  proof (cases "strchr p c")
    case None
    moreover from None have "c \<notin> set p" by (simp add: strchr_None)
    ultimately show ?thesis by (subst getOccurCount_loop.simps) (simp add: count_list_0_iff)
  next
    case (Some i)
    from count_list_split [OF Some] "1.IH" [OF Some] Some show ?thesis
      by (subst getOccurCount_loop.simps) simp
  qed
qed

lemma str_replace_loop_length:
  "0 \<le> remain_len \<Longrightarrow>
     int (length (str_replace_loop p r n remain_len out)) \<le> int (length out) + remain_len"
proof (induction p r n remain_len out rule: str_replace_loop.induct)
  case (1 p r n m out)
  show ?case
  proof (cases "strstr p r")
    case None
    with 1 show ?thesis by (subst str_replace_loop.simps) auto
  next
    case (Some i)
    note ih = "1.IH" [OF Some]
    have "int (length (take i p)) \<le> int i" by simp
    show ?thesis
    proof (cases "r \<noteq> [] \<and> \<not> (i > 0 \<and> \<not> int i < m) \<and> int (length n) < m - int i")
      case True
      with ih [OF _ _ refl refl] "1.prems" have
        "int (length (str_replace_loop (drop (i + length r) p) r n (m - int i - int (length n)) ((out @ take i p) @ n)))
           \<le> int (length ((out @ take i p) @ n)) + (m - int i - int (length n))" by auto
      with Some True show ?thesis by (subst str_replace_loop.simps) (auto simp: Let_def)
    next
      case False
      with Some "1.prems" show ?thesis by (subst str_replace_loop.simps) (auto simp: Let_def)
    qed
  qed
qed

lemma strstr_None_iff: "strstr s pat = None \<longleftrightarrow> \<not> sublist pat s"
proof (induction s)
  case (Cons x xs)
  have "take (length pat) (x # xs) = pat \<longleftrightarrow> prefix pat (x # xs)"
    by (metis append_eq_conv_conj prefix_def take_is_prefix)
  with Cons show ?case by (auto simp: sublist_Cons_right)
qed auto

lemma str_replace_loop_absent:
  assumes "\<not> sublist replaced p" and "0 \<le> m"
  shows "str_replace_loop p replaced new_str m out = out @ take (nat m) p"
proof -
  have "strstr p replaced = None" using assms(1) by (simp add: strstr_None_iff)
  then show ?thesis using assms(2) by (subst str_replace_loop.simps) simp
qed

lemma prefix_take3: "length s \<ge> 3 \<Longrightarrow> take 3 s = p \<longleftrightarrow> length p = 3 \<and> prefix p s"
  by (metis append_eq_conv_conj length_take min.absorb2 prefix_def take_is_prefix)

lemma secure_iff:
  "is_filename_secure s \<longleftrightarrow> \<not> prefix [46, 46, 47] s \<and> \<not> sublist [47, 46, 46, 47] s"
proof (cases "length s < 3")
  case True
  then have "\<not> prefix [46, 46, 47] s" "\<not> sublist [47, 46, 46, 47] s"
    using prefix_length_le sublist_length_le by fastforce+
  with True show ?thesis by (simp add: is_filename_secure_def)
next
  case False
  then show ?thesis
    by (simp add: is_filename_secure_def strstr_None_iff prefix_take3)
qed

lemma dropWhile_hd: "dropWhile P s = [] \<or> \<not> P (hd (dropWhile P s))"
  by (induction s) auto

lemma trim_last: "trim_right s = [] \<or> \<not> is_blank (last (trim_right s))"
  using dropWhile_hd [of is_blank "rev s"] by (auto simp: trim_right_def last_rev)

lemma trim_left_suffix: "\<exists>xs. s = xs @ trim_left s \<and> (\<forall>c \<in> set xs. is_blank c)"
  by (metis set_takeWhileD takeWhile_dropWhile_id trim_left_def)

lemma trim_right_prefix: "\<exists>ys. s = trim_right s @ ys \<and> (\<forall>c \<in> set ys. is_blank c)"
proof -
  obtain xs where "rev s = xs @ trim_left (rev s)" "\<forall>c \<in> set xs. is_blank c"
    using trim_left_suffix by blast
  then have "s = trim_right s @ rev xs" by (metis rev_append rev_rev_ident trim_left_def trim_right_def)
  with \<open>\<forall>c \<in> set xs. is_blank c\<close> show ?thesis by (metis set_rev)
qed

lemma length_bin2hex: "length (bin2hex s) = 2 * length s"
  by (induction s) auto

lemma hex_chars_plain:
  assumes "0 \<le> v" and "v < 16"
  shows "url_plain (hex_chars v)"
  using nibble_cases [OF assms]
  by (elim insertE emptyE) (simp_all add: hex_chars_def url_plain_def)

lemma urlencode_plain: "set (urlencode s) \<subseteq> {c. url_plain c \<or> c = 37 \<or> c = 43}"
  using hex_chars_plain nibbles_bound by (induction s) auto

lemma splitEx_loop_length:
  "length (splitEx_loop k sep p) = min k (Suc (count_list p sep))"
proof (induction k sep p rule: splitEx_loop.induct)
  case (2 k sep p)
  then show ?case
    by (auto split: option.split simp: strchr_None count_list_0_iff count_list_split)
qed simp

lemma split_loop_ok:
  "n \<le> Suc (count_list p sep) \<Longrightarrow> split_loop n sep p = Some (splitEx_loop n sep p)"
proof (induction n sep p rule: splitEx_loop.induct)
  case (2 k sep p)
  then show ?case
    by (cases "strchr p sep") (auto simp: strchr_None count_list_0_iff count_list_split)
qed simp

lemma splitEx_loop_enough:
  "0 < k \<Longrightarrow> splitEx_loop k sep p = splitEx_loop (min k (Suc (count_list p sep))) sep p"
proof (induction k sep p rule: splitEx_loop.induct)
  case (2 k sep p)
  show ?case
  proof (cases "k = 0 \<or> strchr p sep = None")
    case True
    moreover have "count_list p sep = 0" if "strchr p sep = None"
      using that by (simp add: strchr_None count_list_0_iff)
    ultimately show ?thesis by (auto simp: min_def)
  next
    case False
    then obtain i where i: "strchr p sep = Some i" "0 < k" by auto
    with 2 show ?thesis by (cases k) (simp_all add: count_list_split)
  qed
qed simp

lemma filter_dropWhile: "filter (\<lambda>c. \<not> P c) (dropWhile P s) = filter (\<lambda>c. \<not> P c) s"
  by (induction s) auto

lemma strtok_loop_spec:
  assumes "word \<noteq> []" and "set word \<inter> set delim = {}" and "0 < free"
  shows "let cols = my_strtok_loop delim p word e free in
    length cols \<le> Suc free \<and> (\<forall>w \<in> set cols. w \<noteq> []) \<and>
    (\<forall>w \<in> set (butlast cols). set w \<inter> set delim = {}) \<and> cols \<noteq> [] \<and>
    (length cols \<le> free \<longrightarrow> set (last cols) \<inter> set delim = {}) \<and>
    filter (\<lambda>c. c \<notin> set delim) (concat cols) = word @ filter (\<lambda>c. c \<notin> set delim) p"
  using assms
proof (induction delim p word e free rule: my_strtok_loop.induct)
  case (1 delim word e free)
  then show ?case by (auto simp: filter_id_conv)
next
  case (2 delim c p word e free)
  have w: "filter (\<lambda>c. c \<notin> set delim) word = word"
    using "2.prems" by (auto simp: filter_id_conv)
  consider "c \<in> set delim" | "c \<notin> set delim" "e" "free \<le> 1" | "c \<notin> set delim" "e" "1 < free"
    | "c \<notin> set delim" "\<not> e" by linarith
  then show ?case
  proof cases
    case 3
    with "2.IH"(2) have "let cols = my_strtok_loop delim p [c] False (free - 1) in
      length cols \<le> Suc (free - 1) \<and> (\<forall>w \<in> set cols. w \<noteq> []) \<and>
      (\<forall>w \<in> set (butlast cols). set w \<inter> set delim = {}) \<and> cols \<noteq> [] \<and>
      (length cols \<le> free - 1 \<longrightarrow> set (last cols) \<inter> set delim = {}) \<and>
      filter (\<lambda>c. c \<notin> set delim) (concat cols) = [c] @ filter (\<lambda>c. c \<notin> set delim) p" by auto
    with 3 w "2.prems" show ?thesis by (auto simp: Let_def)
  qed (use 2 w in \<open>auto simp: Let_def\<close>)
qed

section \<open>Properties\<close>

text \<open>The big-endian codecs of the wire protocol and the on-disk headers are inverse to each
  other: decoding the four (eight) bytes written for an in-range \<open>int\<close> (\<open>int64_t\<close>) gives it back,
  sign included, and re-encoding any four bytes that were decoded gives the same bytes.\<close>

theorem int_codec_roundtrip:
  assumes "int_range n" and "long_range m"
  shows "buff2int (int2buff n) = n \<and> buff2long (long2buff m) = m \<and>
    int2buff (buff2int [a, b, c, d]) = [a, b, c, d] \<and>
    length (int2buff n) = 4 \<and> length (long2buff m) = 8"
  using buff2int_int2buff [OF assms(1)] buff2long_long2buff [OF assms(2)] int2buff_buff2int by simp

theorem int_codec_roundtrip_witness:
  "int_range (-2) \<and> long_range (-3) \<and> buff2int (int2buff (-2)) = -2 \<and> buff2long (long2buff (-3)) = -3"
  using int_codec_roundtrip [of "-2" "-3" 1 2 3 4] by (simp add: int_range_def long_range_def)

text \<open>The text encodings lose nothing: \<open>hex2bin\<close> inverts \<open>bin2hex\<close> and \<open>urldecode\<close> inverts
  \<open>urlencode\<close> on every byte string, and the encoded URL holds only plain characters, \<open>%\<close> and \<open>+\<close>.\<close>

theorem text_codec_roundtrip:
  "hex2bin (bin2hex s) = s \<and> urldecode (urlencode s) = s \<and> length (bin2hex s) = 2 * length s \<and>
   set (urlencode s) \<subseteq> {c. url_plain c \<or> c = 37 \<or> c = 43}"
  using hex2bin_bin2hex urldecode_urlencode length_bin2hex urlencode_plain by blast

text \<open>\<open>splitEx\<close> cuts a string at separators without losing anything: joining the columns with the
  separator gives the source back, there are between one and \<open>nMaxCols\<close> columns, no column but the last holds
  a separator, and the last one does only when the column limit was reached. With enough columns the
  number of columns is one more than \<open>getOccurCount\<close>.\<close>

theorem splitEx_correct:
  assumes "0 < nMaxCols"
  shows "join_cols sep (splitEx s sep nMaxCols) = s \<and> splitEx s sep nMaxCols \<noteq> [] \<and>
    int (length (splitEx s sep nMaxCols)) = min nMaxCols (getOccurCount s sep + 1) \<and>
    (\<forall>col \<in> set (butlast (splitEx s sep nMaxCols)). sep \<notin> set col) \<and>
    (int (length (splitEx s sep nMaxCols)) < nMaxCols \<longrightarrow> sep \<notin> set (last (splitEx s sep nMaxCols)))"
  using assms splitEx_loop_spec [of "nat nMaxCols" sep s] splitEx_loop_nonempty [of "nat nMaxCols" sep s]
    splitEx_loop_length [of "nat nMaxCols" sep s]
  by (auto simp: splitEx_def getOccurCount_def occur_loop)

theorem splitEx_correct_witness:
  "join_cols 47 (splitEx [65, 47, 66, 47, 67] 47 2) = [65, 47, 66, 47, 67] \<and>
   splitEx [65, 47, 66, 47, 67] 47 2 = [[65], [66, 47, 67]]"
proof -
  have "splitEx [65, 47, 66, 47, 67] 47 2 = [[65], [66, 47, 67]]" by code_simp
  with splitEx_correct [of 2 47 "[65, 47, 66, 47, 67]"] show ?thesis by simp
qed

text \<open>The check that keeps a client inside its store path accepts a file name exactly when it
  neither starts with \<open>../\<close> nor holds \<open>/../\<close> anywhere.\<close>

theorem is_filename_secure_correct:
  "is_filename_secure s \<longleftrightarrow> \<not> prefix [46, 46, 47] s \<and> \<not> sublist [47, 46, 46, 47] s"
  by (rule secure_iff)

text \<open>\<open>str_replace\<close> never writes past the destination: it terminates on every input and the
  bytes written, with the terminating zero, fit into \<open>dest_size\<close>; with nothing to replace it copies a
  prefix of the source.\<close>

theorem str_replace_bounded:
  assumes "0 < dest_size"
  shows "int (length (str_replace s replaced new_str dest_size)) + 1 \<le> dest_size \<and>
    (\<not> sublist replaced s \<or> replaced = [] \<longrightarrow>
       str_replace s replaced new_str dest_size = take (nat (dest_size - 1)) s)"
proof
  show "int (length (str_replace s replaced new_str dest_size)) + 1 \<le> dest_size"
    using assms str_replace_loop_length [of "dest_size - 1" s replaced new_str "[]"]
    by (auto simp: str_replace_def Let_def)
  show "\<not> sublist replaced s \<or> replaced = [] \<longrightarrow>
       str_replace s replaced new_str dest_size = take (nat (dest_size - 1)) s"
    using assms str_replace_loop_absent [of replaced s "dest_size - 1" new_str "[]"]
    by (auto simp: str_replace_def Let_def min_def)
qed

theorem str_replace_bounded_witness:
  "int (length (str_replace [65, 66, 65] [65] [67, 67] 4)) + 1 \<le> 4 \<and> str_replace [65, 66, 65] [65] [67, 67] 4 = [67, 67, 66]"
  using str_replace_bounded [of 4 "[65, 66, 65]" "[65]" "[67, 67]"]
  by (simp add: str_replace_def str_replace_loop.simps)

text \<open>\<open>split\<close> never dereferences the \<open>NULL\<close> its inner \<open>strchr\<close> could return, and it cuts the
  string exactly as \<open>splitEx\<close> does with the same number of columns.\<close>

theorem split_equals_splitEx:
  "split mem src sep nMaxCols =
     Some (if mem then splitEx src sep (if 0 < nMaxCols then nMaxCols else getOccurCount src sep + 1) else [])"
proof -
  let ?n = "Suc (count_list src sep)"
  let ?k = "nat (if 0 < nMaxCols \<and> nMaxCols < int ?n then nMaxCols else int ?n)"
  have occ: "getOccurCount src sep + 1 = int ?n" by (simp add: getOccurCount_def occur_loop)
  have k: "?k = (if 0 < nMaxCols then min (nat nMaxCols) ?n else ?n)" by (auto simp: min_def)
  have ex: "splitEx src sep m = splitEx_loop (min (nat m) ?n) sep src" if "0 < m" for m
    using that splitEx_loop_enough [of "nat m" sep src] by (simp add: splitEx_def)
  have "split_loop ?k sep src = Some (splitEx_loop ?k sep src)"
    by (rule split_loop_ok) auto
  moreover have "splitEx_loop ?k sep src = splitEx src sep (if 0 < nMaxCols then nMaxCols else int ?n)"
    by (simp add: k ex del: of_nat_Suc)
  ultimately have "split_loop ?k sep src = Some (splitEx src sep (if 0 < nMaxCols then nMaxCols else int ?n))"
    by simp
  then show ?thesis unfolding split_def Let_def occ
    by (cases mem) (simp_all only: if_True if_False simp_thms not_True_eq_False not_False_eq_True)
qed

text \<open>\<open>my_strtok\<close> finds the words of a string: no column is empty, at most \<open>nMaxCols\<close> are
  filled, no column holds a delimiter unless it is the last one and took the last free place, and
  the columns hold all non-delimiter bytes of the source in order.\<close>

theorem my_strtok_correct:
  assumes "1 < nMaxCols"
  shows "let cols = my_strtok src delim nMaxCols in
    int (length cols) \<le> nMaxCols \<and> (\<forall>w \<in> set cols. w \<noteq> []) \<and>
    (\<forall>w \<in> set (butlast cols). set w \<inter> set delim = {}) \<and>
    (int (length cols) < nMaxCols \<longrightarrow> (\<forall>w \<in> set cols. set w \<inter> set delim = {})) \<and>
    filter (\<lambda>c. c \<notin> set delim) (concat cols) = filter (\<lambda>c. c \<notin> set delim) src"
proof (cases "dropWhile (\<lambda>c. c \<in> set delim) src")
  case Nil
  then have "filter (\<lambda>c. c \<notin> set delim) src = []" by (simp add: dropWhile_eq_Nil_conv filter_empty_conv)
  with Nil assms show ?thesis by (simp add: my_strtok_def Let_def)
next
  case (Cons c p)
  let ?cols = "my_strtok_loop delim p [c] False (nat (nMaxCols - 1))"
  have "filter (\<lambda>c. c \<notin> set delim) src = filter (\<lambda>c. c \<notin> set delim) (c # p)"
    using filter_dropWhile [of "\<lambda>c. c \<in> set delim" src] Cons by simp
  moreover have c: "c \<notin> set delim" using dropWhile_hd [of "\<lambda>c. c \<in> set delim" src] Cons by simp
  moreover have "my_strtok src delim nMaxCols = ?cols"
    using Cons assms by (simp add: my_strtok_def Let_def)
  moreover have "set ?cols = set (butlast ?cols) \<union> {last ?cols}" if "?cols \<noteq> []"
    using that append_butlast_last_id [of ?cols] by (metis Un_insert_right empty_set list.simps(15) set_append sup_bot_right)
  ultimately show ?thesis
    using strtok_loop_spec [of "[c]" delim "nat (nMaxCols - 1)" p False] assms
    by (auto simp: Let_def)
qed

theorem my_strtok_correct_witness:
  "my_strtok [32, 65, 32, 32, 66, 9, 67] [32, 9] 3 = [[65], [66], [67]] \<and>
   int (length (my_strtok [32, 65, 32, 32, 66, 9, 67] [32, 9] 3)) \<le> 3"
proof -
  have "my_strtok [32, 65, 32, 32, 66, 9, 67] [32, 9] 3 = [[65], [66], [67]]" by code_simp
  with my_strtok_correct [of 3 "[32, 65, 32, 32, 66, 9, 67]" "[32, 9]"] show ?thesis by (simp add: Let_def)
qed

text \<open>Copying into a growing buffer keeps it well formed whether or not \<open>malloc\<close> succeeds; on
  success the buffer starts with the data, the string variant with its terminating zero.\<close>

theorem buffer_copy_correct:
  assumes "buffer_ok b"
  shows "buffer_ok (snd (buffer_strcpy b mem str)) \<and> buffer_ok (snd (buffer_memcpy b mem str)) \<and>
    (fst (buffer_strcpy b mem str) = 0 \<longrightarrow>
       (\<exists>xs. buff_block (snd (buffer_strcpy b mem str)) = Some (str @ 0 # xs))) \<and>
    (fst (buffer_memcpy b mem str) = 0 \<longrightarrow>
       buff_block (snd (buffer_memcpy b mem str)) = None \<and> str = [] \<or>
       (\<exists>xs. buff_block (snd (buffer_memcpy b mem str)) = Some (str @ xs)))"
  using assms
  by (auto simp: buffer_ok_def buffer_strcpy_def buffer_memcpy_def buffer_grow_def memcpy_into_def Let_def
      split: option.splits if_splits)

theorem buffer_copy_correct_witness:
  "buffer_ok \<lparr>buff_block = Some [1, 2], data_length = 2, alloc_size = 2\<rparr> \<and>
   fst (buffer_strcpy \<lparr>buff_block = Some [1, 2], data_length = 2, alloc_size = 2\<rparr> True [65, 66, 67]) = 0 \<and>
   buffer_ok (snd (buffer_strcpy \<lparr>buff_block = Some [1, 2], data_length = 2, alloc_size = 2\<rparr> True [65, 66, 67]))"
  using buffer_copy_correct [of "\<lparr>buff_block = Some [1, 2], data_length = 2, alloc_size = 2\<rparr>" True "[65, 66, 67]"]
  by (simp add: buffer_ok_def buffer_strcpy_def buffer_grow_def)

end
