(* ===== verification/Base64.thy ===== *)
theory Base64
  imports FDFS_Prelude
begin

text \<open>
  The base64 codec of \<open>common/base64.c\<close>, which turns the binary part of a FastDFS file name into
  text. The context is a record with the two translation tables; an output buffer is the list of the
  bytes written, with the \<open>dest_len\<close> the function reports beside it where the two can differ.
\<close>

unbundle bit_operations_syntax

section \<open>The context\<close>

abbreviation (input) BASE64_IGNORE :: int where "BASE64_IGNORE \<equiv> - 1"
abbreviation (input) BASE64_PAD :: int where "BASE64_PAD \<equiv> - 2"

record base64_context =
  line_separator :: "byte list"
  line_sep_len :: int
  line_length :: int
  valueToChar :: "byte list"
  charToValue :: "int list"
  pad_ch :: byte

definition base64_set_line_length :: "base64_context \<Rightarrow> int \<Rightarrow> base64_context" where
  "base64_set_line_length ctx len =
     ctx\<lparr>line_length := (if 0 \<le> len then len div 4 * 4 else - (- len div 4 * 4))\<rparr>"

text \<open>\<open>snprintf\<close> keeps 15 bytes of the separator and returns the length of all of it.\<close>

definition base64_set_line_separator :: "base64_context \<Rightarrow> byte list \<Rightarrow> base64_context" where
  "base64_set_line_separator ctx pLineSeparator =
     ctx\<lparr>line_sep_len := int (length pLineSeparator), line_separator := take 15 pLineSeparator\<rparr>"

definition base64_table :: "byte \<Rightarrow> byte \<Rightarrow> byte list" where
  "base64_table chPlus chSplash =
     map (\<lambda>i. of_nat (65 + i)) [0..<26] @ map (\<lambda>i. of_nat (97 + i)) [0..<26] @
     map (\<lambda>i. of_nat (48 + i)) [0..<10] @ [chPlus, chSplash]"

definition base64_inverse :: "byte list \<Rightarrow> nat list \<Rightarrow> int list \<Rightarrow> int list" where
  "base64_inverse table is t = foldl (\<lambda>t i. t[unat (table ! i) := int i]) t is"

definition base64_init_ex :: "int \<Rightarrow> byte \<Rightarrow> byte \<Rightarrow> byte \<Rightarrow> base64_context" where
  "base64_init_ex nLineLength chPlus chSplash chPad =
     (let table = base64_table chPlus chSplash in
      \<lparr>line_separator = [10], line_sep_len = 1, line_length = nLineLength, valueToChar = table,
       charToValue = (base64_inverse table [0..<64] (replicate 256 BASE64_IGNORE))[unat chPad := BASE64_PAD],
       pad_ch = chPad\<rparr>)"

definition base64_get_encode_length :: "base64_context \<Rightarrow> int \<Rightarrow> int" where
  "base64_get_encode_length ctx nSrcLen =
     (let outputLength = (nSrcLen + 2) div 3 * 4 in
      if line_length ctx \<noteq> 0 then
        (let lines = (outputLength + line_length ctx - 1) div line_length ctx - 1 in
         if lines > 0 then outputLength + lines * line_sep_len ctx else outputLength)
      else outputLength)"

section \<open>Encoding\<close>

definition base64_combine :: "byte \<Rightarrow> byte \<Rightarrow> byte \<Rightarrow> int" where
  "base64_combine a b c = push_bit 16 (uint a) OR push_bit 8 (uint b) OR uint c"

definition base64_sextets :: "int \<Rightarrow> int list" where
  "base64_sextets combined =
     [drop_bit 18 combined AND 63, drop_bit 12 combined AND 63, drop_bit 6 combined AND 63, combined AND 63]"

text \<open>The inner loop over three bytes at a time: the line position it ends with and the bytes it writes.\<close>

fun base64_encode_loop :: "base64_context \<Rightarrow> byte list \<Rightarrow> int \<Rightarrow> int \<times> byte list" where
  "base64_encode_loop ctx (a # b # c # pRaw) linePos =
     (let new_line = linePos + 4 > line_length ctx;
          sep = (if new_line \<and> line_length ctx \<noteq> 0
                 then take (nat (line_sep_len ctx)) (line_separator ctx) else []);
          linePos1 = (if new_line then 4 else linePos + 4);
          group = map (\<lambda>v. valueToChar ctx ! nat v) (base64_sextets (base64_combine a b c));
          (linePos2, rest) = base64_encode_loop ctx pRaw linePos1
      in (linePos2, sep @ group @ rest))"
| "base64_encode_loop ctx _ linePos = (linePos, [])"

definition base64_encode_ex :: "base64_context \<Rightarrow> byte list \<Rightarrow> bool \<Rightarrow> byte list" where
  "base64_encode_ex ctx src bPad =
     (if src = [] then []
      else
        (let len0 = length src div 3 * 3;
             leftover = length src - len0;
             (linePos, out0) = base64_encode_loop ctx (take len0 src) 0
         in if leftover = 0 then out0
            else
              (let szPad = drop len0 src @ replicate (3 - leftover) 0;
                   (linePos1, out1) = base64_encode_loop ctx szPad linePos;
                   pDest = out0 @ out1;
                   n = length pDest - (3 - leftover)
               in take n pDest @ (if bPad then replicate (3 - leftover) (pad_ch ctx) else []))))"

section \<open>Decoding\<close>

text \<open>
  The loop of \<open>base64_decode\<close>: the position in the cycle of four characters, the bits combined so
  far, the pad characters seen and the bytes written.
\<close>

fun base64_decode_loop ::
  "base64_context \<Rightarrow> byte list \<Rightarrow> nat \<Rightarrow> int \<Rightarrow> int \<Rightarrow> byte list \<Rightarrow> nat \<times> int \<times> byte list" where
  "base64_decode_loop ctx [] cycle combined dummies pDest = (cycle, dummies, pDest)"
| "base64_decode_loop ctx (ch # pSrc) cycle combined dummies pDest =
     (let value = charToValue ctx ! unat ch in
      if value = BASE64_IGNORE then base64_decode_loop ctx pSrc cycle combined dummies pDest
      else
        (let v = (if value = BASE64_PAD then 0 else value);
             dummies1 = (if value = BASE64_PAD then dummies + 1 else dummies)
         in if cycle = 0 then base64_decode_loop ctx pSrc 1 v dummies1 pDest
            else
              (let combined1 = push_bit 6 combined OR v in
               if cycle < 3 then base64_decode_loop ctx pSrc (cycle + 1) combined1 dummies1 pDest
               else base64_decode_loop ctx pSrc 0 combined1 dummies1
                      (pDest @ [word_of_int (drop_bit 16 combined1),
                                word_of_int (drop_bit 8 (combined1 AND 65280)),
                                word_of_int (combined1 AND 255)]))))"

text \<open>The bytes written and the reported length; the terminating zero goes to \<open>dest[dest_len]\<close>.\<close>

definition base64_decode :: "base64_context \<Rightarrow> byte list \<Rightarrow> byte list \<times> int" where
  "base64_decode ctx src =
     (let (cycle, dummies, pDest) = base64_decode_loop ctx src 0 0 0 [] in
      if cycle \<noteq> 0 then (pDest, 0) else (pDest, int (length pDest) - dummies))"

definition base64_decode_auto :: "base64_context \<Rightarrow> bool \<Rightarrow> byte list \<Rightarrow> byte list \<times> int" where
  "base64_decode_auto ctx mem src =
     (let nRemain = length src mod 4 in
      if nRemain = 0 then base64_decode ctx src
      else
        (let nPadLen = 4 - nRemain; nNewLen = length src + nPadLen in
         if nNewLen > 256 \<and> \<not> mem then ([], 0)
         else base64_decode ctx (src @ replicate nPadLen (pad_ch ctx))))"

section \<open>Tables\<close>

definition ctx_ok :: "base64_context \<Rightarrow> bool" where
  "ctx_ok ctx \<longleftrightarrow>
     length (valueToChar ctx) = 64 \<and>
     (\<forall>i < 64. charToValue ctx ! unat (valueToChar ctx ! i) = int i) \<and>
     charToValue ctx ! unat (pad_ch ctx) = BASE64_PAD"

definition sep_ok :: "base64_context \<Rightarrow> bool" where
  "sep_ok ctx \<longleftrightarrow>
     line_sep_len ctx = int (length (line_separator ctx)) \<and>
     (\<forall>c \<in> set (line_separator ctx). charToValue ctx ! unat c = BASE64_IGNORE)"

lemma length_base64_inverse [simp]: "length (base64_inverse table is t) = length t"
  by (induction "is" arbitrary: t) (auto simp: base64_inverse_def)

lemma base64_inverse_Cons: "base64_inverse table (i # is) t = base64_inverse table is (t[unat (table ! i) := int i])"
  by (simp add: base64_inverse_def)

lemma base64_inverse_other:
  "\<forall>i \<in> set is. table ! i \<noteq> c \<Longrightarrow> base64_inverse table is t ! unat c = t ! unat c"
  by (induction "is" arbitrary: t) (auto simp: base64_inverse_Cons base64_inverse_def)

lemma base64_inverse_nth:
  assumes "length t = 256" and "distinct (map ((!) table) is)" and "i \<in> set is"
  shows "base64_inverse table is t ! unat (table ! i) = int i"
  using assms
proof (induction "is" arbitrary: t)
  case (Cons j js)
  show ?case
  proof (cases "i = j")
    case True
    with Cons.prems have "\<forall>k \<in> set js. table ! k \<noteq> table ! i"
      by (metis distinct.simps(2) image_eqI list.set_map list.simps(9))
    from base64_inverse_other [OF this] True Cons.prems(1) show ?thesis
      by (simp add: base64_inverse_Cons)
  qed (use Cons in \<open>auto simp: base64_inverse_Cons\<close>)
qed simp

lemma base64_init_ctx_ok:
  assumes "distinct (base64_table chPlus chSplash)" and "chPad \<notin> set (base64_table chPlus chSplash)"
  shows "ctx_ok (base64_init_ex n chPlus chSplash chPad)"
proof -
  let ?t = "base64_table chPlus chSplash"
  have len: "length ?t = 64" by (simp add: base64_table_def)
  have d: "distinct (map ((!) ?t) [0..<64])" using assms(1) len by (metis map_nth)
  have "?t ! i \<noteq> chPad" if "i < 64" for i using assms(2) len that by (metis nth_mem)
  then show ?thesis
    using base64_inverse_nth [OF _ d] len
    by (auto simp: ctx_ok_def base64_init_ex_def Let_def nth_list_update)
qed

section \<open>One group of four characters\<close>

definition join_sextets :: "int \<Rightarrow> int \<Rightarrow> int \<Rightarrow> int \<Rightarrow> int" where
  "join_sextets p q r s = push_bit 6 (push_bit 6 (push_bit 6 p OR q) OR r) OR s"

definition bytes_of :: "int \<Rightarrow> byte list" where
  "bytes_of x = [word_of_int (drop_bit 16 x), word_of_int (drop_bit 8 (x AND 65280)), word_of_int (x AND 255)]"

lemma masks: "(63 :: int) = mask 6" "(255 :: int) = mask 8" "(65280 :: int) = push_bit 8 (mask 8)"
  by (simp_all add: mask_eq_exp_minus_1 push_bit_eq_mult)

lemma byte_bit_ge: "8 \<le> n \<Longrightarrow> \<not> bit (w :: byte) n"
  by (simp add: bit_word.rep_eq)

lemma join_base64_sextets:
  "join_sextets (drop_bit 18 x AND 63) (drop_bit 12 x AND 63) (drop_bit 6 x AND 63) (x AND 63) = take_bit 24 x"
  (is "?l = ?r")
proof (rule bit_eqI)
  fix n :: nat
  consider "n < 6" | "6 \<le> n" "n < 12" | "12 \<le> n" "n < 18" | "18 \<le> n" by linarith
  then show "bit ?l n = bit ?r n"
    unfolding join_sextets_def masks by cases (auto simp: bit_simps)
qed

lemma take_bit_combine: "take_bit 24 (base64_combine a b c) = base64_combine a b c"
  by (rule bit_eqI) (auto simp: base64_combine_def bit_simps byte_bit_ge)

lemma bytes_of_combine: "bytes_of (base64_combine a b c) = [a, b, c]"
  unfolding bytes_of_def base64_combine_def masks
  by (simp, intro conjI; rule bit_word_eqI; auto simp: bit_simps byte_bit_ge)

definition char_value :: "base64_context \<Rightarrow> byte \<Rightarrow> int" where
  "char_value ctx ch = (if charToValue ctx ! unat ch = BASE64_PAD then 0 else charToValue ctx ! unat ch)"

definition pad_count :: "base64_context \<Rightarrow> byte list \<Rightarrow> int" where
  "pad_count ctx s = int (length (filter (\<lambda>ch. charToValue ctx ! unat ch = BASE64_PAD) s))"

lemma decode_four:
  assumes "\<forall>ch \<in> {p, q, r, s}. charToValue ctx ! unat ch \<noteq> BASE64_IGNORE"
  shows "base64_decode_loop ctx (p # q # r # s # rest) 0 combined d out =
    base64_decode_loop ctx rest 0
      (join_sextets (char_value ctx p) (char_value ctx q) (char_value ctx r) (char_value ctx s))
      (d + pad_count ctx [p, q, r, s])
      (out @ bytes_of (join_sextets (char_value ctx p) (char_value ctx q) (char_value ctx r) (char_value ctx s)))"
  using assms by (simp add: Let_def char_value_def pad_count_def join_sextets_def bytes_of_def add.commute)

lemma decode_ignored:
  "\<forall>c \<in> set s. charToValue ctx ! unat c = BASE64_IGNORE \<Longrightarrow>
     base64_decode_loop ctx (s @ rest) cyc combined d out = base64_decode_loop ctx rest cyc combined d out"
  by (induction s) auto

definition encode_group :: "base64_context \<Rightarrow> byte \<Rightarrow> byte \<Rightarrow> byte \<Rightarrow> byte list" where
  "encode_group ctx a b c =
     map (\<lambda>v. valueToChar ctx ! nat v) (base64_sextets (base64_combine a b c))"

lemma and63: "0 \<le> x AND 63 \<and> x AND 63 < 64" for x :: int
  using take_bit_int_less_exp [of 6 x] by (simp add: masks flip: take_bit_eq_mask)

lemma char_value_table:
  assumes "ctx_ok ctx"
  shows "char_value ctx (valueToChar ctx ! nat (x AND 63)) = x AND 63 \<and>
    charToValue ctx ! unat (valueToChar ctx ! nat (x AND 63)) = x AND 63"
proof -
  define i where "i = nat (x AND 63)"
  then have "i < 64" and "x AND 63 = int i" using and63 [of x] by linarith+
  moreover from \<open>i < 64\<close> have "charToValue ctx ! unat (valueToChar ctx ! i) = int i"
    using assms by (simp add: ctx_ok_def)
  ultimately show ?thesis by (simp add: char_value_def)
qed

lemma decode_group:
  assumes "ctx_ok ctx"
  shows "\<exists>v. base64_decode_loop ctx (encode_group ctx a b c @ rest) 0 combined d out =
    base64_decode_loop ctx rest 0 v d (out @ [a, b, c])"
proof -
  let ?x = "base64_combine a b c"
  note cv = char_value_table [OF assms]
  have nn: "x AND 63 \<noteq> -1" "x AND 63 \<noteq> -2" for x :: int using and63 [of x] by linarith+
  have "pad_count ctx (encode_group ctx a b c) = 0"
    using cv nn by (simp add: pad_count_def encode_group_def base64_sextets_def)
  then show ?thesis
    using decode_four [of "valueToChar ctx ! nat (drop_bit 18 ?x AND 63)"
        "valueToChar ctx ! nat (drop_bit 12 ?x AND 63)" "valueToChar ctx ! nat (drop_bit 6 ?x AND 63)"
        "valueToChar ctx ! nat (?x AND 63)" ctx rest combined d out]
    by (auto simp: encode_group_def base64_sextets_def cv nn join_base64_sextets take_bit_combine bytes_of_combine)
qed

lemma decode_group_padded:
  assumes "ctx_ok ctx"
  shows "\<exists>v. base64_decode_loop ctx (take 3 (encode_group ctx a b 0) @ pad_ch ctx # rest) 0 combined d out =
      base64_decode_loop ctx rest 0 v (d + 1) (out @ [a, b, 0])"
    and "\<exists>v. base64_decode_loop ctx (take 2 (encode_group ctx a 0 0) @ pad_ch ctx # pad_ch ctx # rest) 0 combined d out =
      base64_decode_loop ctx rest 0 v (d + 2) (out @ [a, 0, 0])"
proof -
  note cv = char_value_table [OF assms]
  have nn: "x AND 63 \<noteq> -1" "x AND 63 \<noteq> -2" for x :: int using and63 [of x] by linarith+
  have pad: "charToValue ctx ! unat (pad_ch ctx) = BASE64_PAD" using assms by (simp add: ctx_ok_def)
  then have pv: "char_value ctx (pad_ch ctx) = 0" by (simp add: char_value_def)
  have z: "base64_combine a b 0 AND 63 = 0"
    by (rule bit_eqI) (auto simp: base64_combine_def bit_simps masks)
  have z2: "base64_combine a 0 0 AND 63 = 0" "drop_bit 6 (base64_combine a 0 0) AND 63 = 0"
    by (rule bit_eqI, auto simp: base64_combine_def bit_simps masks)+
  let ?c = "\<lambda>x. valueToChar ctx ! nat (x AND 63)"
  let ?x = "base64_combine a b 0" and ?y = "base64_combine a 0 0"
  have j1: "join_sextets (drop_bit 18 ?x AND 63) (drop_bit 12 ?x AND 63) (drop_bit 6 ?x AND 63) 0 = ?x"
    using join_base64_sextets [of ?x] by (simp add: z take_bit_combine)
  have j2: "join_sextets (drop_bit 18 ?y AND 63) (drop_bit 12 ?y AND 63) 0 0 = ?y"
    using join_base64_sextets [of ?y] by (simp add: z2 take_bit_combine)
  show "\<exists>v. base64_decode_loop ctx (take 3 (encode_group ctx a b 0) @ pad_ch ctx # rest) 0 combined d out =
      base64_decode_loop ctx rest 0 v (d + 1) (out @ [a, b, 0])"
    using decode_four [of "?c (drop_bit 18 ?x)" "?c (drop_bit 12 ?x)" "?c (drop_bit 6 ?x)" "pad_ch ctx" ctx rest combined d out]
    by (auto simp: encode_group_def base64_sextets_def cv nn pad pv j1 bytes_of_combine pad_count_def)
  show "\<exists>v. base64_decode_loop ctx (take 2 (encode_group ctx a 0 0) @ pad_ch ctx # pad_ch ctx # rest) 0 combined d out =
      base64_decode_loop ctx rest 0 v (d + 2) (out @ [a, 0, 0])"
    using decode_four [of "?c (drop_bit 18 ?y)" "?c (drop_bit 12 ?y)" "pad_ch ctx" "pad_ch ctx" ctx rest combined d out]
    by (auto simp: encode_group_def base64_sextets_def cv nn pad pv j2 bytes_of_combine pad_count_def numeral_2_eq_2)
qed

section \<open>Whole strings\<close>

definition line_break :: "base64_context \<Rightarrow> int \<Rightarrow> byte list" where
  "line_break ctx linePos =
     (if linePos + 4 > line_length ctx \<and> line_length ctx \<noteq> 0
      then take (nat (line_sep_len ctx)) (line_separator ctx) else [])"

definition next_pos :: "base64_context \<Rightarrow> int \<Rightarrow> int" where
  "next_pos ctx linePos = (if linePos + 4 > line_length ctx then 4 else linePos + 4)"

lemma encode_loop_step:
  "base64_encode_loop ctx (a # b # c # s) p =
     (let (q, rest) = base64_encode_loop ctx s (next_pos ctx p)
      in (q, line_break ctx p @ encode_group ctx a b c @ rest))"
  by (simp add: line_break_def next_pos_def encode_group_def Let_def)

lemma line_break_ignored:
  assumes "sep_ok ctx \<or> line_length ctx = 0"
  shows "base64_decode_loop ctx (line_break ctx p @ rest) cyc combined d out =
    base64_decode_loop ctx rest cyc combined d out"
  using assms by (auto simp: line_break_def sep_ok_def intro!: decode_ignored dest: in_set_takeD)

lemma decode_encode_loop:
  assumes "ctx_ok ctx" and "sep_ok ctx \<or> line_length ctx = 0" and "length s mod 3 = 0"
  shows "\<exists>v. base64_decode_loop ctx (snd (base64_encode_loop ctx s p) @ rest) 0 combined d out =
    base64_decode_loop ctx rest 0 v d (out @ s)"
  using assms
proof (induction ctx s p arbitrary: combined out rule: base64_encode_loop.induct)
  case (1 ctx a b c s p)
  obtain q t where t: "base64_encode_loop ctx s (next_pos ctx p) = (q, t)" by fastforce
  obtain v where v: "base64_decode_loop ctx (encode_group ctx a b c @ t @ rest) 0 combined d out =
      base64_decode_loop ctx (t @ rest) 0 v d (out @ [a, b, c])"
    using decode_group [OF "1.prems"(1)] by blast
  have len: "length s mod 3 = 0" using "1.prems"(3) by simp
  have "\<exists>w. base64_decode_loop ctx (snd (base64_encode_loop ctx s (next_pos ctx p)) @ rest) 0 v d (out @ [a, b, c]) =
      base64_decode_loop ctx rest 0 w d ((out @ [a, b, c]) @ s)"
    using "1.IH" [OF refl refl refl refl "1.prems"(1,2) len] unfolding next_pos_def by blast
  then show ?case
    using v t by (simp add: encode_loop_step line_break_ignored [OF "1.prems"(2)] del: base64_encode_loop.simps)
qed auto

lemma encode_loop_tail: "length s = 3 \<Longrightarrow> snd (base64_encode_loop ctx s p) = line_break ctx p @ encode_group ctx (s ! 0) (s ! 1) (s ! 2)"
  by (cases s; cases "tl s"; cases "tl (tl s)")
    (auto simp: encode_loop_step numeral_2_eq_2 simp del: base64_encode_loop.simps(1))

lemma length_encode_group [simp]: "length (encode_group ctx a b c) = 4"
  by (simp add: encode_group_def base64_sextets_def)

text \<open>The padded encoding: the whole groups, and the last group with its trailing characters replaced by pads.\<close>

lemma encode_ex_split:
  fixes ctx :: base64_context
  assumes "src \<noteq> []"
  defines "n \<equiv> length src div 3 * 3"
  defines "enc \<equiv> base64_encode_loop ctx (take n src) 0"
  shows "base64_encode_ex ctx src bPad = snd enc @
    (case drop n src of
       [] \<Rightarrow> []
     | [a] \<Rightarrow> line_break ctx (fst enc) @ take 2 (encode_group ctx a 0 0) @ (if bPad then [pad_ch ctx, pad_ch ctx] else [])
     | a # b # _ \<Rightarrow> line_break ctx (fst enc) @ take 3 (encode_group ctx a b 0) @ (if bPad then [pad_ch ctx] else []))"
    and "length (drop n src) < 3" and "length (take n src) mod 3 = 0"
proof -
  have n: "n \<le> length src" "length src - n = length src mod 3"
    by (simp_all add: n_def minus_div_mult_eq_mod)
  then show l3: "length (drop n src) < 3" by simp
  show "length (take n src) mod 3 = 0" using n(1) by (simp add: n_def)
  obtain p out0 where enc: "enc = (p, out0)" by fastforce
  have ex: "base64_encode_ex ctx src bPad =
      (if length src - n = 0 then out0
       else let (q, out1) = base64_encode_loop ctx (drop n src @ replicate (3 - (length src - n)) 0) p;
                m = length (out0 @ out1) - (3 - (length src - n))
            in take m (out0 @ out1) @ (if bPad then replicate (3 - (length src - n)) (pad_ch ctx) else []))"
    unfolding base64_encode_ex_def Let_def n_def [symmetric] enc_def [symmetric] enc
    using assms(1) by simp
  consider "drop n src = []" | a where "drop n src = [a]" | a b where "drop n src = [a, b]"
    using l3 by (cases "drop n src"; cases "tl (drop n src)"; cases "tl (tl (drop n src))") auto
  then show "base64_encode_ex ctx src bPad = snd enc @
    (case drop n src of
       [] \<Rightarrow> []
     | [a] \<Rightarrow> line_break ctx (fst enc) @ take 2 (encode_group ctx a 0 0) @ (if bPad then [pad_ch ctx, pad_ch ctx] else [])
     | a # b # _ \<Rightarrow> line_break ctx (fst enc) @ take 3 (encode_group ctx a b 0) @ (if bPad then [pad_ch ctx] else []))"
  proof cases
    case 1
    then show ?thesis using ex enc by simp
  next
    case (2 a)
    then have l: "length src - n = 1" by (metis length_Cons length_drop list.size(3) One_nat_def)
    obtain q out1 where e1: "base64_encode_loop ctx [a, 0, 0] p = (q, out1)" by fastforce
    with encode_loop_tail [of "[a, 0, 0]" ctx p] have "out1 = line_break ctx p @ encode_group ctx a 0 0" by simp
    with ex enc l e1 2 show ?thesis by (simp add: numeral_2_eq_2 del: base64_encode_loop.simps)
  next
    case (3 a b)
    then have l: "length src - n = 2" by (metis length_Cons length_drop list.size(3) One_nat_def numeral_2_eq_2)
    obtain q out1 where e1: "base64_encode_loop ctx [a, b, 0] p = (q, out1)" by fastforce
    with encode_loop_tail [of "[a, b, 0]" ctx p] have "out1 = line_break ctx p @ encode_group ctx a b 0" by simp
    with ex enc l e1 3 show ?thesis by (simp del: base64_encode_loop.simps)
  qed
qed

lemma decode_encode:
  assumes "ctx_ok ctx" and "sep_ok ctx \<or> line_length ctx = 0"
  shows "\<exists>xs d. base64_decode ctx (base64_encode_ex ctx src True) = (src @ xs, int (length src))"
proof (cases "src = []")
  case True
  then show ?thesis by (simp add: base64_decode_def base64_encode_ex_def)
next
  case False
  define n where "n = length src div 3 * 3"
  define enc where "enc = base64_encode_loop ctx (take n src) 0"
  note sp = encode_ex_split(1) [OF False, of ctx True, folded n_def, folded enc_def]
    encode_ex_split(2,3) [OF False, folded n_def]
  note dec = decode_encode_loop [OF assms sp(3), where p = 0 and combined = 0 and d = 0 and out = "[]", folded enc_def]
  note lb = line_break_ignored [OF assms(2)]
  consider "drop n src = []" | a where "drop n src = [a]" | a b where "drop n src = [a, b]"
    using sp(2) by (cases "drop n src"; cases "tl (drop n src)"; cases "tl (tl (drop n src))") auto
  then show ?thesis
  proof cases
    case 1
    with dec [of "[]"] sp(1) show ?thesis by (auto simp: base64_decode_def)
  next
    case (2 a)
    obtain v where "base64_decode_loop ctx (base64_encode_ex ctx src True) 0 0 0 [] =
        base64_decode_loop ctx (take 2 (encode_group ctx a 0 0) @ [pad_ch ctx, pad_ch ctx]) 0 v 0 (take n src)"
      using dec [of "line_break ctx (fst enc) @ take 2 (encode_group ctx a 0 0) @ [pad_ch ctx, pad_ch ctx]"]
        sp(1) 2 by (auto simp: lb)
    then have "base64_decode_loop ctx (base64_encode_ex ctx src True) 0 0 0 [] = (0, 2, take n src @ [a, 0, 0])"
      using decode_group_padded(2) [OF assms(1), of a "[]" v 0 "take n src"] by auto
    moreover have "take n src @ [a] = src" using 2 by (metis append_take_drop_id)
    ultimately show ?thesis
      by (intro exI [of _ "[0, 0]"]) (auto simp: base64_decode_def dest: arg_cong [where f = length])
  next
    case (3 a b)
    obtain v where "base64_decode_loop ctx (base64_encode_ex ctx src True) 0 0 0 [] =
        base64_decode_loop ctx (take 3 (encode_group ctx a b 0) @ [pad_ch ctx]) 0 v 0 (take n src)"
      using dec [of "line_break ctx (fst enc) @ take 3 (encode_group ctx a b 0) @ [pad_ch ctx]"]
        sp(1) 3 by (auto simp: lb)
    then have "base64_decode_loop ctx (base64_encode_ex ctx src True) 0 0 0 [] = (0, 1, take n src @ [a, b, 0])"
      using decode_group_padded(1) [OF assms(1), of a b "[]" v 0 "take n src"] by auto
    moreover have "take n src @ [a, b] = src" using 3 by (metis append_take_drop_id)
    ultimately show ?thesis
      by (intro exI [of _ "[0]"]) (auto simp: base64_decode_def dest: arg_cong [where f = length])
  qed
qed

section \<open>Lengths\<close>

definition breaks :: "int \<Rightarrow> int \<Rightarrow> nat \<Rightarrow> int" where
  "breaks ll p n = (if n = 0 then 0 else (p + 4 * int n - 1) div ll)"

lemma breaks_step:
  assumes "4 dvd ll" and "0 < ll" and "4 dvd p" and "0 \<le> p" and "p \<le> ll"
  shows "breaks ll p (Suc n) = (if p + 4 > ll then 1 + breaks ll 4 n else breaks ll (p + 4) n)"
proof (cases "p + 4 > ll")
  case True
  with assms have "p = ll" by (elim dvdE) auto
  moreover have add: "(ll + k) div ll = 1 + k div ll" for k using assms(2) by (simp add: div_add_self1)
  moreover have "3 div ll = 0" using assms(1,2) by (elim dvdE) (auto intro: div_pos_pos_trivial)
  ultimately show ?thesis
    using True add [of 3] add [of "4 * int n + 3"] by (auto simp: breaks_def algebra_simps)
next
  case False
  then have "(p + 3) div ll = 0" using assms by (intro div_pos_pos_trivial) auto
  with False show ?thesis by (auto simp: breaks_def algebra_simps)
qed

lemma encode_loop_length:
  assumes "4 dvd line_length ctx" and "0 \<le> line_length ctx" and "sep_ok ctx"
    and "4 dvd p" and "0 \<le> p" and "p \<le> line_length ctx \<or> line_length ctx = 0" and "length s = 3 * n"
  shows "int (length (snd (base64_encode_loop ctx s p))) =
    4 * int n + (if line_length ctx = 0 then 0 else breaks (line_length ctx) p n * line_sep_len ctx)"
  using assms
proof (induction n arbitrary: s p)
  case 0
  then show ?case by (simp add: breaks_def)
next
  case (Suc n)
  then obtain a b c t where s: "s = a # b # c # t" and t: "length t = 3 * n"
    by (cases s; cases "tl s"; cases "tl (tl s)") auto
  let ?q = "next_pos ctx p"
  have q: "4 dvd ?q" "0 \<le> ?q" "?q \<le> line_length ctx \<or> line_length ctx = 0"
    using Suc.prems by (auto simp: next_pos_def dvd_imp_le_int elim!: dvdE)
  have "int (length (snd (base64_encode_loop ctx t ?q))) =
      4 * int n + (if line_length ctx = 0 then 0 else breaks (line_length ctx) ?q n * line_sep_len ctx)"
    by (rule Suc.IH) (use Suc.prems q t in auto)
  moreover have "int (length (snd (base64_encode_loop ctx s p))) =
      int (length (line_break ctx p)) + 4 + int (length (snd (base64_encode_loop ctx t ?q)))"
    unfolding s encode_loop_step by (simp add: split_beta)
  moreover have "int (length (line_break ctx p)) =
      (if p + 4 > line_length ctx \<and> line_length ctx \<noteq> 0 then line_sep_len ctx else 0)"
    using Suc.prems(3) by (auto simp: line_break_def sep_ok_def)
  moreover have "line_length ctx \<noteq> 0 \<Longrightarrow> breaks (line_length ctx) p (Suc n) =
      (if p + 4 > line_length ctx then 1 else 0) + breaks (line_length ctx) ?q n"
    using breaks_step [of "line_length ctx" p n] Suc.prems by (auto simp: next_pos_def)
  ultimately show ?case by (auto simp: algebra_simps)
qed

lemma encode_loop_append:
  "length xs mod 3 = 0 \<Longrightarrow>
     snd (base64_encode_loop ctx (xs @ ys) p) =
       snd (base64_encode_loop ctx xs p) @ snd (base64_encode_loop ctx ys (fst (base64_encode_loop ctx xs p)))"
  by (induction ctx xs p rule: base64_encode_loop.induct) (auto simp: Let_def split_beta)

lemma encode_ex_length_groups:
  assumes "src \<noteq> []"
  shows "\<exists>s. length s = 3 * ((length src + 2) div 3) \<and>
    length (base64_encode_ex ctx src True) = length (snd (base64_encode_loop ctx s 0))"
proof -
  define n where "n = length src div 3 * 3"
  define enc where "enc = base64_encode_loop ctx (take n src) 0"
  note sp = encode_ex_split(1) [OF assms, of ctx True, folded n_def, folded enc_def]
    encode_ex_split(2,3) [OF assms, folded n_def]
  have app: "snd (base64_encode_loop ctx (take n src @ ys) 0) = snd enc @ snd (base64_encode_loop ctx ys (fst enc))" for ys
    unfolding enc_def by (rule encode_loop_append [OF sp(3)])
  have "n \<le> length src" by (simp add: n_def)
  then have len: "length src = n + length (drop n src)" "length (take n src) = n" by auto
  have "n = 3 * (length src div 3)" by (simp add: n_def)
  then obtain k where "n = 3 * k" by blast
  then have n3: "3 * ((n + 2) div 3) = n" "3 * ((n + 1 + 2) div 3) = n + 3" "3 * ((n + 2 + 2) div 3) = n + 3"
    by simp_all
  consider "drop n src = []" | a where "drop n src = [a]" | a b where "drop n src = [a, b]"
    using sp(2) by (cases "drop n src"; cases "tl (drop n src)"; cases "tl (tl (drop n src))") auto
  then show ?thesis
  proof cases
    case 1
    have "length src = n" using len(1) unfolding 1 by simp
    then have "length (take n src) = 3 * ((length src + 2) div 3)" using len(2) n3(1) by simp
    moreover have "length (base64_encode_ex ctx src True) = length (snd (base64_encode_loop ctx (take n src) 0))"
      using sp(1) 1 by (simp add: enc_def)
    ultimately show ?thesis by blast
  next
    case (2 a)
    have t: "snd (base64_encode_loop ctx [a, 0, 0] (fst enc)) = line_break ctx (fst enc) @ encode_group ctx a 0 0"
      using encode_loop_tail [of "[a, 0, 0]"] by simp
    have "length src = n + 1" using len(1) unfolding 2 by simp
    then have "length (take n src @ [a, 0, 0]) = 3 * ((length src + 2) div 3)"
      using len(2) n3(2) by simp
    moreover have "length (base64_encode_ex ctx src True) = length (snd (base64_encode_loop ctx (take n src @ [a, 0, 0]) 0))"
      unfolding app t sp(1) 2 by simp
    ultimately show ?thesis by blast
  next
    case (3 a b)
    have t: "snd (base64_encode_loop ctx [a, b, 0] (fst enc)) = line_break ctx (fst enc) @ encode_group ctx a b 0"
      using encode_loop_tail [of "[a, b, 0]"] by simp
    have "length src = n + 2" using len(1) unfolding 3 by simp
    then have "length (take n src @ [a, b, 0]) = 3 * ((length src + 2) div 3)"
      using len(2) n3(3) by simp
    moreover have "length (base64_encode_ex ctx src True) = length (snd (base64_encode_loop ctx (take n src @ [a, b, 0]) 0))"
      unfolding app t sp(1) 3 by simp
    ultimately show ?thesis by blast
  qed
qed

lemma encode_ex_length:
  assumes "4 dvd line_length ctx" and "0 \<le> line_length ctx" and "sep_ok ctx"
  shows "int (length (base64_encode_ex ctx src True)) = base64_get_encode_length ctx (int (length src))"
proof (cases "src = []")
  case True
  then show ?thesis
    using assms by (auto simp: base64_encode_ex_def base64_get_encode_length_def Let_def div_pos_pos_trivial)
next
  case False
  let ?m = "(length src + 2) div 3" and ?ll = "line_length ctx"
  have m: "(int (length src) + 2) div 3 = int ?m" by (simp add: zdiv_int)
  have pos: "0 < ?m" using False by (simp add: div_greater_zero_iff Suc_le_eq)
  obtain s where s: "length s = 3 * ?m"
      "length (base64_encode_ex ctx src True) = length (snd (base64_encode_loop ctx s 0))"
    using encode_ex_length_groups [OF False] by blast
  have l: "int (length (snd (base64_encode_loop ctx s 0))) =
      4 * int ?m + (if ?ll = 0 then 0 else breaks ?ll 0 ?m * line_sep_len ctx)"
    by (rule encode_loop_length) (use assms s in auto)
  have "?ll \<noteq> 0 \<Longrightarrow> (4 * int ?m + ?ll - 1) div ?ll - 1 = breaks ?ll 0 ?m"
    using pos div_add_self1 [of ?ll "4 * int ?m - 1"] by (simp add: breaks_def algebra_simps)
  moreover have "?ll \<noteq> 0 \<Longrightarrow> 0 \<le> breaks ?ll 0 ?m"
    using pos assms(2) by (simp add: breaks_def pos_imp_zdiv_nonneg_iff)
  ultimately show ?thesis
    using l s(2) by (auto simp: base64_get_encode_length_def Let_def m mult.commute)
qed

lemma decode_loop_length:
  "cyc \<le> 3 \<Longrightarrow> base64_decode_loop ctx s cyc v d out = (cyc', d', out') \<Longrightarrow>
     \<exists>k \<le> length s. 4 * length out' + 3 * cyc' = 4 * length out + 3 * (cyc + k)"
proof (induction ctx s cyc v d out rule: base64_decode_loop.induct)
  case (2 ctx ch s cyc v d out)
  consider "charToValue ctx ! unat ch = BASE64_IGNORE" | "charToValue ctx ! unat ch \<noteq> BASE64_IGNORE" "cyc = 0"
    | "charToValue ctx ! unat ch \<noteq> BASE64_IGNORE" "0 < cyc" "cyc < 3"
    | "charToValue ctx ! unat ch \<noteq> BASE64_IGNORE" "cyc = 3" using "2.prems"(1) by linarith
  then show ?case
  proof cases
    case 1
    with "2.IH"(1) [OF refl] "2.prems" show ?thesis by (auto simp: Let_def le_Suc_eq)
  next
    case 2
    with "2.IH"(2) [OF refl _ refl refl] "2.prems" show ?thesis by (fastforce simp: Let_def)
  next
    case 3
    with "2.IH"(3) [OF refl _ refl refl _ refl] "2.prems" show ?thesis by (fastforce simp: Let_def)
  next
    case 4
    with "2.IH"(4) [OF refl _ refl refl _ refl] "2.prems" show ?thesis by (fastforce simp: Let_def)
  qed
qed auto

lemma encode_loop_length0:
  "line_length ctx = 0 \<Longrightarrow> length (snd (base64_encode_loop ctx s p)) mod 4 = 0"
  by (induction ctx s p rule: base64_encode_loop.induct) (auto simp: Let_def split_beta base64_sextets_def)

lemma encode_unpadded:
  assumes "line_length ctx = 0" and "src \<noteq> []"
  shows "base64_encode_ex ctx src True =
    base64_encode_ex ctx src False @
      (if length (base64_encode_ex ctx src False) mod 4 = 0 then []
       else replicate (4 - length (base64_encode_ex ctx src False) mod 4) (pad_ch ctx))"
proof -
  define n where "n = length src div 3 * 3"
  define enc where "enc = base64_encode_loop ctx (take n src) 0"
  note sp = encode_ex_split(1) [OF assms(2), of ctx, folded n_def, folded enc_def]
  note l3 = encode_ex_split(2) [OF assms(2), folded n_def]
  have lb: "line_break ctx p = []" for p using assms(1) by (simp add: line_break_def)
  have "length (snd enc) mod 4 = 0" unfolding enc_def by (rule encode_loop_length0 [OF assms(1)])
  then have md: "(length (snd enc) + 2) mod 4 = 2" "(length (snd enc) + 3) mod 4 = 3" by presburger+
  consider "drop n src = []" | a where "drop n src = [a]" | a b where "drop n src = [a, b]"
    using l3 by (cases "drop n src"; cases "tl (drop n src)"; cases "tl (tl (drop n src))") auto
  then show ?thesis
  proof cases
    case 1
    show ?thesis unfolding sp 1 using \<open>length (snd enc) mod 4 = 0\<close> by simp
  next
    case (2 a)
    show ?thesis unfolding sp 2 using md by (simp add: lb numeral_2_eq_2)
  next
    case (3 a b)
    show ?thesis unfolding sp 3 using md by (simp add: lb)
  qed
qed

lemma decode_auto_encode:
  assumes "ctx_ok ctx" and "line_length ctx = 0" and "src \<noteq> []"
    and "length src \<le> 192 \<or> mem"
  shows "base64_decode_auto ctx mem (base64_encode_ex ctx src False) = base64_decode ctx (base64_encode_ex ctx src True)"
proof -
  let ?e = "base64_encode_ex ctx src False" and ?f = "base64_encode_ex ctx src True"
  have f: "?f = ?e @ (if length ?e mod 4 = 0 then [] else replicate (4 - length ?e mod 4) (pad_ch ctx))"
    by (rule encode_unpadded [OF assms(2,3)])
  let ?ctx0 = "ctx\<lparr>line_separator := [], line_sep_len := 0\<rparr>"
  have "int (length ?f) = (int (length src) + 2) div 3 * 4"
  proof -
    have same: "base64_encode_loop ?ctx0 s p = base64_encode_loop ctx s p" for s p
      using assms(2) by (induction ctx s p rule: base64_encode_loop.induct) (simp_all add: Let_def)
    have "base64_encode_ex ?ctx0 src True = ?f"
      by (simp add: base64_encode_ex_def same Let_def split_beta)
    then show ?thesis using encode_ex_length [of ?ctx0 src] assms(2)
      by (simp add: sep_ok_def base64_get_encode_length_def Let_def)
  qed
  moreover have "length src \<le> 192 \<Longrightarrow> (int (length src) + 2) div 3 \<le> 64"
    using zdiv_mono1 [of "int (length src) + 2" 194 3] by simp
  ultimately have "length src \<le> 192 \<Longrightarrow> length ?f \<le> 256" by linarith
  moreover have "length ?e mod 4 \<noteq> 0 \<Longrightarrow> length ?f = length ?e + (4 - length ?e mod 4)"
    by (subst f) simp
  ultimately show ?thesis using f assms(4) by (auto simp: base64_decode_auto_def Let_def)
qed

lemma decode_loop_dummies:
  "base64_decode_loop ctx s cyc v d out = (cyc', d', out') \<Longrightarrow> d \<le> d'"
proof (induction ctx s cyc v d out rule: base64_decode_loop.induct)
  case (2 ctx ch s cyc v d out)
  then show ?case by (fastforce simp: Let_def split: if_splits)
qed simp

section \<open>Properties\<close>

lemma table_codes:
  "map unat (base64_table p q) = [65..<91] @ [97..<123] @ [48..<58] @ [unat p, unat q]"
  by (simp add: base64_table_def upt_rec)

lemma table_distinct: "distinct (base64_table 43 47)" "distinct (base64_table 45 95)"
proof -
  have "distinct (map unat (base64_table 43 47))" "distinct (map unat (base64_table 45 95))"
    unfolding table_codes by simp_all
  then show "distinct (base64_table 43 47)" "distinct (base64_table 45 95)" by (simp_all add: distinct_map)
qed

lemma table_mem: "(c \<in> set (base64_table p q)) = (unat c \<in> {65..<91} \<union> {97..<123} \<union> {48..<58} \<union> {unat p, unat q})"
proof -
  have "(c \<in> set (base64_table p q)) = (unat c \<in> set (map unat (base64_table p q)))"
    unfolding set_map by (rule inj_image_mem_iff [symmetric]) (simp add: inj_on_def)
  then show ?thesis unfolding table_codes set_append set_upt list.set by (simp only: Un_assoc)
qed

lemma std_fdfs_ok: "ctx_ok (base64_init_ex n 43 47 61)" "ctx_ok (base64_init_ex n 45 95 46)"
  by (rule base64_init_ctx_ok; simp add: table_distinct table_mem)+

lemma newline_ignored:
  assumes "10 \<notin> set (base64_table chPlus chSplash)" and "chPad \<noteq> 10"
  shows "sep_ok (base64_init_ex n chPlus chSplash chPad)"
proof -
  let ?t = "base64_table chPlus chSplash"
  have "length ?t = 64" by (simp add: base64_table_def)
  with assms(1) have "\<forall>i \<in> set [0..<64]. ?t ! i \<noteq> 10"
    by (metis atLeastLessThan_iff nth_mem set_upt)
  from base64_inverse_other [OF this, of "replicate 256 BASE64_IGNORE"]
  have "base64_inverse ?t [0..<64] (replicate 256 BASE64_IGNORE) ! unat (10 :: byte) = BASE64_IGNORE"
    by (simp add: nth_replicate)
  moreover have "unat chPad \<noteq> unat (10 :: byte)" using assms(2) by (simp only: unat_inj simp_thms)
  ultimately show ?thesis by (simp add: sep_ok_def base64_init_ex_def Let_def)
qed

lemma init_sep_ok: "sep_ok (base64_init_ex n 43 47 61)" "sep_ok (base64_init_ex n 45 95 46)"
  by (rule newline_ignored; simp add: table_mem)+

text \<open>C37. Decoding the padded base64 text of any byte string gives the byte string back, with any line
  length as long as the line separator consists of characters outside the alphabet; without padding
  and line breaks, as file names are encoded, \<open>base64_decode_auto\<close> does the same. Both the standard
  alphabet and the one of file names satisfy the hypotheses.\<close>

theorem base64_roundtrip:
  assumes "ctx_ok ctx" and "sep_ok ctx \<or> line_length ctx = 0" and "length src \<le> 192 \<or> mem"
  shows "\<exists>rest. base64_decode ctx (base64_encode_ex ctx src True) = (src @ rest, int (length src)) \<and>
    (line_length ctx = 0 \<longrightarrow>
       base64_decode_auto ctx mem (base64_encode_ex ctx src False) = (src @ rest, int (length src)))"
proof (cases "src = []")
  case True
  then show ?thesis by (simp add: base64_encode_ex_def base64_decode_def base64_decode_auto_def)
next
  case False
  with decode_encode [OF assms(1,2), of src] decode_auto_encode [OF assms(1) _ False assms(3)]
  show ?thesis by fastforce
qed

theorem base64_roundtrip_witness:
  "\<exists>rest. base64_decode (base64_init_ex 8 43 47 61) (base64_encode_ex (base64_init_ex 8 43 47 61) [72, 105, 33, 255] True) =
     ([72, 105, 33, 255] @ rest, 4)"
  using base64_roundtrip [OF std_fdfs_ok(1), of 8 "[72, 105, 33, 255]" True] init_sep_ok(1) [of 8] by auto

text \<open>The padded text has exactly the length \<open>base64_get_encode_length\<close> announces, line
  separators included, so a buffer of that size plus the terminating zero holds it; this needs the line
  length to be a multiple of four, which \<open>base64_set_line_length\<close> ensures and \<open>base64_init_ex\<close>
  does not.\<close>

theorem base64_length_exact:
  assumes "4 dvd line_length ctx" and "0 \<le> line_length ctx" and "sep_ok ctx"
  shows "int (length (base64_encode_ex ctx src True)) = base64_get_encode_length ctx (int (length src))"
  by (rule encode_ex_length [OF assms])

theorem base64_length_exact_witness:
  "int (length (base64_encode_ex (base64_init_ex 8 43 47 61) [1, 2, 3, 4, 5, 6, 7] True)) = 13"
  using base64_length_exact [OF _ _ init_sep_ok(1), of 8 "[1, 2, 3, 4, 5, 6, 7]"]
  by (simp add: base64_init_ex_def base64_get_encode_length_def Let_def)

text \<open>\<open>base64_decode\<close> writes at most three bytes for every four characters, whatever the input. The
  length it reports is not bounded from below: a name of four pad characters makes it \<open>-1\<close>, and the
  terminating zero is then written before the buffer.\<close>

theorem base64_decode_bounds:
  "4 * length (fst (base64_decode ctx src)) \<le> 3 * length src \<and>
   snd (base64_decode ctx src) \<le> int (length (fst (base64_decode ctx src))) \<and>
   snd (base64_decode (base64_init_ex n 45 95 46) [46, 46, 46, 46]) = -1"
proof (intro conjI)
  obtain c d out where l: "base64_decode_loop ctx src 0 0 0 [] = (c, d, out)" by (metis prod_cases3)
  from decode_loop_length [OF _ l] have "4 * length out \<le> 3 * length src" by auto
  with l show "4 * length (fst (base64_decode ctx src)) \<le> 3 * length src"
    by (simp add: base64_decode_def)
  show "snd (base64_decode ctx src) \<le> int (length (fst (base64_decode ctx src)))"
    using decode_loop_dummies [OF l] l by (simp add: base64_decode_def)
  have "charToValue (base64_init_ex n 45 95 46) ! 46 = -2"
    using std_fdfs_ok(2) [of n] by (simp add: ctx_ok_def base64_init_ex_def Let_def)
  then show "snd (base64_decode (base64_init_ex n 45 95 46) [46, 46, 46, 46]) = -1"
    by (simp add: base64_decode_def)
qed

end
