(* ===== verification/Trunk_Shared.thy ===== *)
theory Trunk_Shared
  imports Shared_Func Base64
begin

text \<open>
  The data of the trunk subsystem and its encodings, from \<open>storage/trunk_mgr/trunk_shared.c\<close> and its
  header: trunk identifiers and headers, the header block stored before each file in a trunk file,
  the base64 part of a trunk file name, the split of a logical file name into store path and true name,
  the path of a trunk file, and the \<open>stat\<close> that checks a name against the header on disk.

  The files of the system are a parameter: \<open>open_file\<close> gives the content of a file or an error
  number, \<open>stat_file\<close> the result of \<open>stat\<close> or \<open>lstat\<close>. A file descriptor is the content it reads and
  its position.
\<close>

unbundle bit_operations_syntax

section \<open>Constants and types\<close>

abbreviation (input) FDFS_TRUNK_STATUS_FREE :: int where "FDFS_TRUNK_STATUS_FREE \<equiv> 0"
abbreviation (input) FDFS_TRUNK_STATUS_HOLD :: int where "FDFS_TRUNK_STATUS_HOLD \<equiv> 1"
abbreviation (input) FDFS_TRUNK_FILE_TYPE_NONE :: byte where "FDFS_TRUNK_FILE_TYPE_NONE \<equiv> 0"
abbreviation (input) FDFS_TRUNK_FILE_TYPE_REGULAR :: byte where "FDFS_TRUNK_FILE_TYPE_REGULAR \<equiv> 70"
abbreviation (input) FDFS_TRUNK_FILE_TYPE_LINK :: byte where "FDFS_TRUNK_FILE_TYPE_LINK \<equiv> 76"
abbreviation (input) FDFS_STAT_FUNC_STAT :: int where "FDFS_STAT_FUNC_STAT \<equiv> 0"
abbreviation (input) FDFS_TRUNK_FILE_HEADER_SIZE :: int where "FDFS_TRUNK_FILE_HEADER_SIZE \<equiv> 24"
abbreviation (input) FDFS_LOGIC_FILE_PATH_LEN :: nat where "FDFS_LOGIC_FILE_PATH_LEN \<equiv> 10"
abbreviation (input) FDFS_TRUE_FILE_PATH_LEN :: nat where "FDFS_TRUE_FILE_PATH_LEN \<equiv> 6"
abbreviation (input) FDFS_FILENAME_BASE64_LENGTH :: nat where "FDFS_FILENAME_BASE64_LENGTH \<equiv> 27"
abbreviation (input) FDFS_TRUNK_FILE_INFO_LEN :: nat where "FDFS_TRUNK_FILE_INFO_LEN \<equiv> 16"
abbreviation (input) FDFS_TRUNK_FILENAME_LENGTH :: nat where "FDFS_TRUNK_FILENAME_LENGTH \<equiv> 56"
abbreviation (input) FDFS_TRUNK_LOGIC_FILENAME_LENGTH :: nat where "FDFS_TRUNK_LOGIC_FILENAME_LENGTH \<equiv> 60"

record FDFSTrunkHeader =
  file_type :: byte
  formatted_ext_name :: "byte list"
  th_alloc_size :: int
  th_file_size :: int
  th_crc32 :: int
  th_mtime :: int

record FDFSTrunkPathInfo =
  store_path_index :: byte
  sub_path_high :: byte
  sub_path_low :: byte

record FDFSTrunkFileInfo =
  trunk_id :: int
  trunk_offset :: int
  trunk_size :: int

record FDFSTrunkFullInfo =
  status :: int
  path :: FDFSTrunkPathInfo
  tfile :: FDFSTrunkFileInfo

definition IS_TRUNK_FILE :: "int \<Rightarrow> bool" where
  "IS_TRUNK_FILE file_size = (file_size AND 2 ^ 59 \<noteq> 0)"

definition FDFS_TRUNK_FILE_TRUE_SIZE :: "int \<Rightarrow> int" where
  "FDFS_TRUNK_FILE_TRUE_SIZE file_size = file_size AND 4294967295"

definition g_fdfs_base64_context :: base64_context where
  "g_fdfs_base64_context = base64_init_ex 0 45 95 46"

section \<open>Logical file names\<close>

text \<open>
  \<open>SPLIT_FILENAME_BODY\<close>: an error number, or the store path index and the true file name. The length
  argument of the callers is the length of the name; \<open>count\<close> is \<open>g_fdfs_store_paths.count\<close>.
\<close>

definition SPLIT_FILENAME_BODY :: "byte list \<Rightarrow> int \<Rightarrow> bool \<Rightarrow> int + int \<times> byte list" where
  "SPLIT_FILENAME_BODY logic_filename path_count check_path_index =
     (if length logic_filename \<le> FDFS_LOGIC_FILE_PATH_LEN then Inl EINVAL
      else if logic_filename ! 0 \<noteq> 77 then Inr (0, logic_filename)
      else if logic_filename ! 3 \<noteq> 47 then Inl EINVAL
      else
        (let (index, pEnd) = strtol [logic_filename ! 1, logic_filename ! 2] 16 in
         if pEnd \<noteq> [] then Inl EINVAL
         else if check_path_index \<and> (index < 0 \<or> index \<ge> path_count) then Inl EINVAL
         else Inr (index, drop 4 logic_filename)))"

definition storage_split_filename :: "byte list list \<Rightarrow> byte list \<Rightarrow> int + byte list \<times> byte list" where
  "storage_split_filename paths logic_filename =
     map_sum id (\<lambda>(index, name). (paths ! nat index, name))
       (SPLIT_FILENAME_BODY logic_filename (int (length paths)) True)"

definition storage_split_filename_ex :: "byte list list \<Rightarrow> byte list \<Rightarrow> int + int \<times> byte list" where
  "storage_split_filename_ex paths logic_filename =
     SPLIT_FILENAME_BODY logic_filename (int (length paths)) True"

definition storage_split_filename_no_check :: "byte list list \<Rightarrow> byte list \<Rightarrow> int + int \<times> byte list" where
  "storage_split_filename_no_check paths logic_filename =
     SPLIT_FILENAME_BODY logic_filename (int (length paths)) False"

section \<open>The path of a trunk file\<close>

text \<open>\<open>sprintf\<close> of \<open>%02X\<close> for a byte and of \<open>%06d\<close>.\<close>

definition print_02X :: "byte \<Rightarrow> byte list" where
  "print_02X v = [hex_chars (uint v div 16), hex_chars (uint v mod 16)]"

fun print_dec :: "nat \<Rightarrow> byte list" where
  "print_dec n = (if n < 10 then [of_nat (48 + n)] else print_dec (n div 10) @ [of_nat (48 + n mod 10)])"

declare print_dec.simps [simp del]

definition zero_pad :: "nat \<Rightarrow> byte list \<Rightarrow> byte list" where
  "zero_pad w s = replicate (w - length s) 48 @ s"

definition TRUNK_GET_FILENAME :: "int \<Rightarrow> byte list" where
  "TRUNK_GET_FILENAME file_id =
     (if 0 \<le> file_id then zero_pad 6 (print_dec (nat file_id))
      else 45 # zero_pad 5 (print_dec (nat (- file_id))))"

definition trunk_get_full_filename_ex :: "byte list list \<Rightarrow> FDFSTrunkFullInfo \<Rightarrow> nat \<Rightarrow> byte list" where
  "trunk_get_full_filename_ex paths pTrunkInfo buff_size =
     take (buff_size - 1)
       (paths ! unat (store_path_index (path pTrunkInfo)) @ [47, 100, 97, 116, 97, 47] @
        print_02X (sub_path_high (path pTrunkInfo)) @ [47] @
        print_02X (sub_path_low (path pTrunkInfo)) @ [47] @
        TRUNK_GET_FILENAME (trunk_id (tfile pTrunkInfo)))"

section \<open>Trunk headers and the trunk part of a file name\<close>

definition trunk_pack_header :: "FDFSTrunkHeader \<Rightarrow> byte list" where
  "trunk_pack_header h =
     [file_type h] @ int2buff (th_alloc_size h) @ int2buff (th_file_size h) @ int2buff (th_crc32 h) @
     int2buff (th_mtime h) @ take 7 (formatted_ext_name h)"

definition trunk_unpack_header :: "byte list \<Rightarrow> FDFSTrunkHeader" where
  "trunk_unpack_header buff =
     \<lparr>file_type = buff ! 0, formatted_ext_name = take 7 (drop 17 buff) @ [0],
      th_alloc_size = buff2int (drop 1 buff), th_file_size = buff2int (drop 5 buff),
      th_crc32 = buff2int (drop 9 buff), th_mtime = buff2int (drop 13 buff)\<rparr>"

definition trunk_file_info_encode :: "FDFSTrunkFileInfo \<Rightarrow> byte list" where
  "trunk_file_info_encode pTrunkFile =
     base64_encode_ex g_fdfs_base64_context
       (int2buff (trunk_id pTrunkFile) @ int2buff (trunk_offset pTrunkFile) @ int2buff (trunk_size pTrunkFile)) False"

text \<open>
  Decoding base64 into a buffer that holds \<open>buff0\<close>: the decoded bytes, then the terminating zero at
  the reported length. (A negative length puts the zero before the buffer.)
\<close>

definition decode_into :: "byte list \<Rightarrow> byte list \<Rightarrow> byte list" where
  "decode_into buff0 src =
     (let (w, len) = base64_decode_auto g_fdfs_base64_context True src; b = w @ drop (length w) buff0
      in if 0 \<le> len then b[nat len := 0] else b)"

text \<open>The argument \<open>stk\<close> is what the local buffer of 16 bytes holds before.\<close>

definition trunk_file_info_decode :: "byte list \<Rightarrow> byte list \<Rightarrow> FDFSTrunkFileInfo" where
  "trunk_file_info_decode stk str =
     (let buff = decode_into stk (take FDFS_TRUNK_FILE_INFO_LEN str) in
      \<lparr>trunk_id = buff2int buff, trunk_offset = buff2int (drop 4 buff), trunk_size = buff2int (drop 8 buff)\<rparr>)"

definition fdfs_is_trunk_file :: "byte list \<Rightarrow> bool" where
  "fdfs_is_trunk_file remote_filename =
     (if length remote_filename \<noteq> FDFS_TRUNK_LOGIC_FILENAME_LENGTH then False
      else
        (let buff = decode_into (replicate 64 0)
                      (take FDFS_FILENAME_BASE64_LENGTH (drop FDFS_LOGIC_FILE_PATH_LEN remote_filename))
         in IS_TRUNK_FILE (buff2long (drop 8 buff))))"

definition sub_path_index :: "byte list \<Rightarrow> byte" where
  "sub_path_index s = word_of_int (fst (strtol s 16))"

definition fdfs_decode_trunk_info :: "byte list \<Rightarrow> int \<Rightarrow> byte list \<Rightarrow> FDFSTrunkFullInfo \<Rightarrow> int \<times> FDFSTrunkFullInfo" where
  "fdfs_decode_trunk_info stk index true_filename pTrunkInfo =
     (if length true_filename \<noteq> FDFS_TRUNK_FILENAME_LENGTH then (EINVAL, pTrunkInfo)
      else (0, pTrunkInfo
        \<lparr>path := \<lparr>store_path_index = word_of_int index, sub_path_high = sub_path_index true_filename,
                  sub_path_low = sub_path_index (drop 3 true_filename)\<rparr>,
         tfile := trunk_file_info_decode stk
                   (drop (FDFS_TRUE_FILE_PATH_LEN + FDFS_FILENAME_BASE64_LENGTH) true_filename)\<rparr>))"

section \<open>Files\<close>

record stat =
  st_mode :: int
  st_size :: int
  st_mtime :: int

abbreviation (input) S_IFREG :: int where "S_IFREG \<equiv> 32768"
abbreviation (input) S_IFLNK :: int where "S_IFLNK \<equiv> 40960"

record file_system =
  open_file :: "byte list \<Rightarrow> int + byte list"
  stat_file :: "int \<Rightarrow> byte list \<Rightarrow> int + stat"

type_synonym fd = "byte list \<times> int"

definition err_or :: "int \<Rightarrow> int \<Rightarrow> int" where
  "err_or errno def = (if errno \<noteq> 0 then errno else def)"

text \<open>\<open>open\<close> followed by \<open>lseek\<close> to a position; \<open>lseek\<close> refuses a negative one with \<open>EINVAL\<close>.\<close>

definition open_at :: "file_system \<Rightarrow> byte list \<Rightarrow> int \<Rightarrow> int + fd" where
  "open_at fs filename pos =
     (case open_file fs filename of
        Inl errno \<Rightarrow> Inl (err_or errno EIO)
      | Inr content \<Rightarrow> if pos < 0 then Inl EINVAL else Inr (content, pos))"

definition read_fd :: "fd \<Rightarrow> int \<Rightarrow> byte list" where
  "read_fd d n = (case d of (content, pos) \<Rightarrow> take (nat n) (drop (nat pos) content))"

text \<open>
  \<open>trunk_file_get_content_ex\<close>: the error number and the bytes read; \<open>errno\<close> is the value a short \<open>read\<close>
  leaves. The descriptor it opens itself is closed before it returns.
\<close>

definition trunk_file_get_content_ex ::
  "file_system \<Rightarrow> int \<Rightarrow> byte list list \<Rightarrow> FDFSTrunkFullInfo \<Rightarrow> int \<Rightarrow> fd option \<Rightarrow> int \<Rightarrow> int \<times> byte list" where
  "trunk_file_get_content_ex fs errno paths pTrunkInfo file_size pfd buff_size =
     (if file_size > buff_size then (ENOSPC, [])
      else
        (case (case pfd of
                 Some d \<Rightarrow> Inr d
               | None \<Rightarrow> open_at fs (trunk_get_full_filename_ex paths pTrunkInfo 256)
                          (trunk_offset (tfile pTrunkInfo) + FDFS_TRUNK_FILE_HEADER_SIZE)) of
           Inl e \<Rightarrow> (e, [])
         | Inr d \<Rightarrow>
             (let buff = read_fd d file_size in
              if int (length buff) = file_size then (0, buff) else (err_or errno EINVAL, buff))))"

text \<open>
  The outputs of the two \<open>stat\<close> functions: the error number, the trunk information and header they
  filled in, the \<open>stat\<close> buffer and the descriptor left open for the caller.
\<close>

record lstat_out =
  lstat_result :: int
  out_info :: FDFSTrunkFullInfo
  out_header :: FDFSTrunkHeader
  out_stat :: stat
  out_fd :: "fd option"

definition normal_stat :: "file_system \<Rightarrow> byte list list \<Rightarrow> int \<Rightarrow> byte list \<Rightarrow> int \<Rightarrow> lstat_out \<Rightarrow> lstat_out" where
  "normal_stat fs paths index true_filename stat_func out =
     (case stat_file fs stat_func
             (take 255 (paths ! nat index @ [47, 100, 97, 116, 97, 47] @ true_filename)) of
        Inl errno \<Rightarrow> out\<lparr>lstat_result := err_or errno ENOENT\<rparr>
      | Inr st \<Rightarrow> out\<lparr>lstat_result := 0, out_stat := st\<rparr>)"

definition trunk_header_of_name :: "byte list \<Rightarrow> byte list \<Rightarrow> FDFSTrunkFileInfo \<Rightarrow> FDFSTrunkHeader \<Rightarrow> FDFSTrunkHeader" where
  "trunk_header_of_name true_filename buff info h =
     h\<lparr>th_file_size := c_int (FDFS_TRUNK_FILE_TRUE_SIZE (buff2long (drop 8 buff))),
       th_mtime := buff2int (drop 4 buff), th_crc32 := buff2int (drop 16 buff),
       formatted_ext_name := drop 49 true_filename @ [0], th_alloc_size := trunk_size info\<rparr>"

text \<open>
  The part of \<open>trunk_file_do_lstat_func_ex\<close> after the header block was read: the type of the file, and
  the comparison of the block with the header the name implies.
\<close>

definition check_trunk_header :: "fd \<Rightarrow> byte list \<Rightarrow> bool \<Rightarrow> lstat_out \<Rightarrow> lstat_out" where
  "check_trunk_header d buff keep_fd out =
     (let h = (out_header out)\<lparr>file_type := buff ! 0\<rparr>;
          out1 = out\<lparr>out_header := h, out_stat := \<lparr>st_mode = 0, st_size = 0, st_mtime = 0\<rparr>\<rparr>
      in if file_type h \<noteq> FDFS_TRUNK_FILE_TYPE_REGULAR \<and> file_type h \<noteq> FDFS_TRUNK_FILE_TYPE_LINK
         then out1\<lparr>lstat_result := ENOENT\<rparr>
         else
           (let mode = (if file_type h = FDFS_TRUNK_FILE_TYPE_REGULAR then S_IFREG else S_IFLNK);
                out2 = out1\<lparr>out_stat := \<lparr>st_mode = mode, st_size = 0, st_mtime = 0\<rparr>\<rparr>
            in if memcmp (trunk_pack_header h) buff \<noteq> 0 then out2\<lparr>lstat_result := ENOENT\<rparr>
               else out2\<lparr>lstat_result := 0,
                      out_stat := \<lparr>st_mode = mode, st_size = th_file_size h, st_mtime = th_mtime h\<rparr>,
                      out_fd := (if keep_fd then Some (fst d, snd d + FDFS_TRUNK_FILE_HEADER_SIZE) else None)\<rparr>))"

text \<open>What the name alone determines: the trunk information and the header, written to the output structures.\<close>

definition fill_from_name :: "byte list \<Rightarrow> int \<Rightarrow> byte list \<Rightarrow> byte list \<Rightarrow> lstat_out \<Rightarrow> lstat_out" where
  "fill_from_name stk index true_filename buff out =
     (let info = trunk_file_info_decode stk
            (drop (FDFS_TRUE_FILE_PATH_LEN + FDFS_FILENAME_BASE64_LENGTH) true_filename)
      in out\<lparr>out_info := (out_info out)
               \<lparr>tfile := info,
                path := \<lparr>store_path_index = word_of_int index,
                         sub_path_high = sub_path_index true_filename,
                         sub_path_low = sub_path_index (drop 3 true_filename)\<rparr>\<rparr>,
             out_header := trunk_header_of_name true_filename buff info (out_header out)\<rparr>)"

definition trunk_file_do_lstat_func_ex ::
  "file_system \<Rightarrow> int \<Rightarrow> byte list \<Rightarrow> byte list list \<Rightarrow> int \<Rightarrow> byte list \<Rightarrow> int \<Rightarrow> bool \<Rightarrow> lstat_out \<Rightarrow> lstat_out" where
  "trunk_file_do_lstat_func_ex fs errno stk paths index true_filename stat_func keep_fd out0 =
     (let out = out0\<lparr>out_info := (out_info out0)\<lparr>tfile := (tfile (out_info out0))\<lparr>trunk_id := 0\<rparr>\<rparr>, out_fd := None\<rparr>
      in if length true_filename \<noteq> FDFS_TRUNK_FILENAME_LENGTH
         then normal_stat fs paths index true_filename stat_func out
         else
           (let buff = decode_into (replicate 128 0)
                         (take FDFS_FILENAME_BASE64_LENGTH (drop FDFS_TRUE_FILE_PATH_LEN true_filename))
            in if \<not> IS_TRUNK_FILE (buff2long (drop 8 buff))
               then normal_stat fs paths index true_filename stat_func out
               else
                 (let out1 = fill_from_name stk index true_filename buff out in
                  case open_at fs (trunk_get_full_filename_ex paths (out_info out1) 256)
                         (trunk_offset (tfile (out_info out1))) of
                    Inl e \<Rightarrow> out1\<lparr>lstat_result := e\<rparr>
                  | Inr d \<Rightarrow>
                      (let hbuff = read_fd d FDFS_TRUNK_FILE_HEADER_SIZE in
                       if length hbuff \<noteq> 24 then out1\<lparr>lstat_result := err_or errno EINVAL\<rparr>
                       else check_trunk_header d hbuff keep_fd out1))))"

definition S_ISLNK :: "int \<Rightarrow> bool" where
  "S_ISLNK mode = (mode AND 61440 = S_IFLNK)"

definition trunk_file_stat_func_ex ::
  "file_system \<Rightarrow> int \<Rightarrow> byte list \<Rightarrow> byte list list \<Rightarrow> int \<Rightarrow> byte list \<Rightarrow> int \<Rightarrow> bool \<Rightarrow> lstat_out \<Rightarrow> lstat_out" where
  "trunk_file_stat_func_ex fs errno stk paths index true_filename stat_func keep_fd out0 =
     (let out = trunk_file_do_lstat_func_ex fs errno stk paths index true_filename stat_func keep_fd out0 in
      if lstat_result out \<noteq> 0 then out
      else if \<not> (stat_func = FDFS_STAT_FUNC_STAT \<and> 0 < trunk_id (tfile (out_info out)) \<and> S_ISLNK (st_mode (out_stat out)))
      then out
      else
        (let (e, src) = trunk_file_get_content_ex fs errno paths (out_info out) (st_size (out_stat out)) (out_fd out) 127
         in if e \<noteq> 0 then out\<lparr>lstat_result := e, out_fd := None\<rparr>
            else
              (case storage_split_filename_no_check paths src of
                 Inl e1 \<Rightarrow> out\<lparr>lstat_result := e1, out_fd := None\<rparr>
               | Inr (src_index, src_true_filename) \<Rightarrow>
                   if src_index < 0 \<or> src_index \<ge> int (length paths) then out\<lparr>lstat_result := EINVAL, out_fd := None\<rparr>
                   else trunk_file_do_lstat_func_ex fs errno stk paths src_index src_true_filename stat_func keep_fd out)))"

section \<open>Round trips\<close>

lemma buff2int_append [simp]: "int_range n \<Longrightarrow> buff2int (int2buff n @ rest) = n"
  using buff2int_int2buff [of n] by (simp add: buff2int_def int2buff_def)

lemma length_pack_header: "7 \<le> length (formatted_ext_name h) \<Longrightarrow> length (trunk_pack_header h) = 24"
  by (simp add: trunk_pack_header_def)

definition header_ok :: "FDFSTrunkHeader \<Rightarrow> bool" where
  "header_ok h \<longleftrightarrow> length (formatted_ext_name h) = 8 \<and> formatted_ext_name h ! 7 = 0 \<and>
     int_range (th_alloc_size h) \<and> int_range (th_file_size h) \<and> int_range (th_crc32 h) \<and> int_range (th_mtime h)"

lemma drop_int2buff [simp]: "drop (Suc (Suc (Suc (Suc n)))) (int2buff x @ rest) = drop n rest"
  by (simp add: int2buff_def)

lemma unpack_pack_header: "header_ok h \<Longrightarrow> trunk_unpack_header (trunk_pack_header h) = h"
proof -
  assume h: "header_ok h"
  then have "take 7 (formatted_ext_name h) @ [0] = formatted_ext_name h"
    using take_Suc_conv_app_nth [of 7 "formatted_ext_name h"] by (simp add: header_ok_def)
  moreover have "take (length x) (drop 17 (a # int2buff b @ int2buff c @ int2buff d @ int2buff e @ x)) = x"
    for a b c d e x by (simp add: int2buff_def)
  ultimately show ?thesis
    using h by (simp add: trunk_unpack_header_def trunk_pack_header_def header_ok_def eval_nat_numeral)
qed

lemma encode_three: "length src mod 3 = 0 \<Longrightarrow> base64_encode_ex ctx src False = base64_encode_ex ctx src True"
  by (auto simp: base64_encode_ex_def Let_def split_beta)

lemma fdfs_context: "ctx_ok g_fdfs_base64_context" "sep_ok g_fdfs_base64_context" "line_length g_fdfs_base64_context = 0"
  using std_fdfs_ok(2) init_sep_ok(2) by (simp_all add: g_fdfs_base64_context_def) (simp add: base64_init_ex_def Let_def)

lemma decode_into_encode:
  assumes "length src mod 3 = 0" and "length src \<le> 192"
  shows "\<exists>rest. decode_into stk (base64_encode_ex g_fdfs_base64_context src False) = src @ rest"
    and "length (base64_encode_ex g_fdfs_base64_context src False) = length src div 3 * 4"
proof -
  let ?c = g_fdfs_base64_context
  show len: "length (base64_encode_ex ?c src False) = length src div 3 * 4"
  proof -
    have "(int (length src) + 2) div 3 = int (length src div 3)" using assms(1) by presburger
    then have "int (length (base64_encode_ex ?c src True)) = int (length src div 3 * 4)"
      using encode_ex_length [of ?c src] fdfs_context
      by (simp add: base64_get_encode_length_def Let_def)
    then show ?thesis using encode_three [OF assms(1)] by (simp only: of_nat_eq_iff)
  qed
  obtain r where r: "base64_decode ?c (base64_encode_ex ?c src False) = (src @ r, int (length src))"
    using decode_encode [OF fdfs_context(1), of src] fdfs_context(3) encode_three [OF assms(1)] by auto
  have "base64_decode_auto ?c True (base64_encode_ex ?c src False) = (src @ r, int (length src))"
    using r len by (simp add: base64_decode_auto_def)
  then have "decode_into stk (base64_encode_ex ?c src False) = (src @ r @ drop (length src + length r) stk)[length src := 0]"
    by (simp add: decode_into_def)
  then show "\<exists>rest. decode_into stk (base64_encode_ex ?c src False) = src @ rest"
    by (simp add: list_update_append)
qed

definition file_info_ok :: "FDFSTrunkFileInfo \<Rightarrow> bool" where
  "file_info_ok f \<longleftrightarrow> int_range (trunk_id f) \<and> int_range (trunk_offset f) \<and> int_range (trunk_size f)"

lemma info_decode_encode:
  assumes "file_info_ok f"
  shows "trunk_file_info_decode stk (trunk_file_info_encode f @ rest) = f"
    and "length (trunk_file_info_encode f) = 16"
proof -
  let ?src = "int2buff (trunk_id f) @ int2buff (trunk_offset f) @ int2buff (trunk_size f)"
  note d = decode_into_encode(1) [of ?src stk, folded trunk_file_info_encode_def]
    decode_into_encode(2) [of ?src, folded trunk_file_info_encode_def]
  show len: "length (trunk_file_info_encode f) = 16" using d(2) by simp
  obtain r where "decode_into stk (trunk_file_info_encode f) = ?src @ r" using d(1) by auto
  with len assms show "trunk_file_info_decode stk (trunk_file_info_encode f @ rest) = f"
    by (simp add: trunk_file_info_decode_def file_info_ok_def eval_nat_numeral)
qed

section \<open>Names\<close>

lemma hex_chars_digit:
  assumes "0 \<le> v" and "v < 16"
  shows "digit_val (hex_chars v) = v \<and> \<not> is_space (hex_chars v) \<and> hex_chars v \<noteq> 45 \<and> hex_chars v \<noteq> 43"
  using nibble_cases [OF assms]
  by (elim insertE emptyE) (simp_all add: hex_chars_def digit_val_def is_space_def)

lemma nibbles: "0 \<le> uint p div 16" "uint p div 16 < 16" "0 \<le> uint p mod 16" "uint p mod 16 < 16" for p :: byte
  using uint_lt2p [of p] by (auto simp: pos_imp_zdiv_nonneg_iff)

lemma strtol_print_02X: "strtol (print_02X p) 16 = (uint p, [])"
proof -
  note h = hex_chars_digit [OF nibbles(1,2)] hex_chars_digit [OF nibbles(3,4)]
  have "uint p < 256" using uint_lt2p [of p] by simp
  then show ?thesis
    using h [of p] nibbles [of p] by (simp add: print_02X_def strtol_def digits_val_def)
qed

lemma print_02X_inject: "print_02X a = print_02X b \<longleftrightarrow> a = b"
  using strtol_print_02X [of a] strtol_print_02X [of b] by (metis prod.inject word_uint_eq_iff)

lemma digits_val_append: "digits_val 10 (s @ [c]) = digits_val 10 s * 10 + digit_val c"
  by (simp add: digits_val_def)

lemma dec_digit: "n < 10 \<Longrightarrow> digit_val (of_nat (48 + n)) = int n"
proof -
  assume "n < 10"
  then have "n \<in> {0, 1, 2, 3, 4, 5, 6, 7, 8, 9}" by simp arith
  then show ?thesis by (elim insertE emptyE) (simp_all add: digit_val_def)
qed

lemma print_dec_value: "digits_val 10 (print_dec n) = int n"
proof (induction n rule: less_induct)
  case (less n)
  show ?case
  proof (cases "n < 10")
    case True
    then show ?thesis using dec_digit [OF True] by (subst print_dec.simps) (simp add: digits_val_def)
  next
    case False
    then have "n div 10 < n" "n mod 10 < 10" by auto
    with less [of "n div 10"] dec_digit [of "n mod 10"] False show ?thesis
      by (subst print_dec.simps) (simp add: digits_val_append zdiv_int zmod_int)
  qed
qed

lemma zero_pad_value: "digits_val 10 (zero_pad w s) = digits_val 10 s"
proof -
  have "foldl (\<lambda>acc c. acc * 10 + digit_val c) 0 (replicate k 48) = 0" for k
    by (induction k) (simp_all add: digit_val_def)
  then show ?thesis by (simp add: zero_pad_def digits_val_def)
qed

lemma trunk_filename_inject:
  "\<lbrakk>0 \<le> a; 0 \<le> b; TRUNK_GET_FILENAME a = TRUNK_GET_FILENAME b\<rbrakk> \<Longrightarrow> a = b"
proof -
  have v: "digits_val 10 (TRUNK_GET_FILENAME x) = x" if "0 \<le> x" for x
    using that by (simp only: TRUNK_GET_FILENAME_def if_True zero_pad_value print_dec_value int_nat_eq)
  assume "0 \<le> a" "0 \<le> b" "TRUNK_GET_FILENAME a = TRUNK_GET_FILENAME b"
  then show "a = b" using v by metis
qed

lemma take_all_eq: "\<lbrakk>take n xs = take n ys; length xs \<le> n; length ys \<le> n\<rbrakk> \<Longrightarrow> xs = ys"
  by simp

lemma split_body_name:
  assumes "7 \<le> length name" and "uint i < path_count"
  shows "SPLIT_FILENAME_BODY (77 # print_02X i @ 47 # name) path_count check = Inr (uint i, name)"
  using assms strtol_print_02X [of i]
  by (simp add: SPLIT_FILENAME_BODY_def print_02X_def)

lemma split_body_range:
  assumes "SPLIT_FILENAME_BODY logic path_count True = Inr (k, name)" and "0 < path_count"
  shows "0 \<le> k \<and> k < path_count \<and> (name = logic \<or> name = drop 4 logic)"
proof -
  obtain v e where "strtol [logic ! 1, logic ! 2] 16 = (v, e)" by fastforce
  with assms show ?thesis
    by (simp add: SPLIT_FILENAME_BODY_def split: if_splits)
qed

section \<open>Properties\<close>

text \<open>The header block in front of a file in a trunk file has 24 bytes, and unpacking a packed
  header gives every field back.\<close>

theorem trunk_header_roundtrip:
  assumes "header_ok h"
  shows "trunk_unpack_header (trunk_pack_header h) = h \<and>
    int (length (trunk_pack_header h)) = FDFS_TRUNK_FILE_HEADER_SIZE"
  using assms unpack_pack_header [OF assms] by (simp add: header_ok_def length_pack_header)

definition sample_header :: FDFSTrunkHeader where
  "sample_header = \<lparr>file_type = 70, formatted_ext_name = [46, 106, 112, 103, 0, 0, 0, 0],
     th_alloc_size = 1024, th_file_size = 1000, th_crc32 = -7, th_mtime = 1400000000\<rparr>"

theorem trunk_header_roundtrip_witness:
  "header_ok sample_header \<and> trunk_unpack_header (trunk_pack_header sample_header) = sample_header"
  using trunk_header_roundtrip [of sample_header]
  by (simp add: header_ok_def sample_header_def int_range_def nth_Cons')

text \<open>The trunk part of a file name holds the identity of the block: it has the 16 characters
  the file name format reserves, and decoding it gives the trunk file id, offset and size back
  whatever the decoding buffer held before.\<close>

theorem trunk_file_info_roundtrip:
  assumes "file_info_ok f"
  shows "length (trunk_file_info_encode f) = FDFS_TRUNK_FILE_INFO_LEN \<and>
    trunk_file_info_decode stk (trunk_file_info_encode f @ rest) = f"
  using info_decode_encode [OF assms] by simp

theorem trunk_file_info_roundtrip_witness:
  "file_info_ok \<lparr>trunk_id = 3, trunk_offset = 65536, trunk_size = 512\<rparr> \<and>
   trunk_file_info_decode [] (trunk_file_info_encode \<lparr>trunk_id = 3, trunk_offset = 65536, trunk_size = 512\<rparr> @ [46]) =
     \<lparr>trunk_id = 3, trunk_offset = 65536, trunk_size = 512\<rparr>"
  using trunk_file_info_roundtrip [of "\<lparr>trunk_id = 3, trunk_offset = 65536, trunk_size = 512\<rparr>" "[]" "[46]"]
  by (simp add: file_info_ok_def int_range_def)

text \<open>Splitting a logical file name: a name \<open>Mxx/...\<close> with an existing store path is split into
  that path and the rest; whatever the name, an accepted one leads to an existing store path, never
  outside the table.\<close>

theorem storage_split_filename_correct:
  assumes "paths \<noteq> []"
  shows "(unat i < length paths \<and> 7 \<le> length name \<longrightarrow>
      storage_split_filename paths (77 # print_02X i @ 47 # name) = Inr (paths ! unat i, name)) \<and>
    (storage_split_filename_ex paths logic = Inr (k, true_name) \<longrightarrow>
      0 \<le> k \<and> k < int (length paths) \<and> (true_name = logic \<or> true_name = drop 4 logic)) \<and>
    (storage_split_filename paths logic = Inr (p, true_name) \<longrightarrow> p \<in> set paths)"
proof (intro conjI impI)
  assume a: "unat i < length paths \<and> 7 \<le> length name"
  then have "int (unat i) < int (length paths)" by (simp only: of_nat_less_iff)
  then have "uint i < int (length paths)" "nat (uint i) = unat i" by simp_all
  with a show "storage_split_filename paths (77 # print_02X i @ 47 # name) = Inr (paths ! unat i, name)"
    by (simp add: storage_split_filename_def split_body_name)
next
  assume "storage_split_filename_ex paths logic = Inr (k, true_name)"
  with split_body_range [of logic "int (length paths)" k true_name] assms
  show "0 \<le> k" "k < int (length paths)" "true_name = logic \<or> true_name = drop 4 logic"
    by (simp_all add: storage_split_filename_ex_def)
next
  assume "storage_split_filename paths logic = Inr (p, true_name)"
  then obtain k nm where k: "SPLIT_FILENAME_BODY logic (int (length paths)) True = Inr (k, nm)" "p = paths ! nat k"
    by (cases "SPLIT_FILENAME_BODY logic (int (length paths)) True") (auto simp: storage_split_filename_def)
  with split_body_range [OF k(1)] assms show "p \<in> set paths" by (simp add: nat_less_iff)
qed

theorem storage_split_filename_correct_witness:
  "storage_split_filename [[47, 97], [47, 98]] (77 # print_02X 1 @ 47 # [48, 48, 47, 48, 48, 47, 120]) =
     Inr ([47, 98], [48, 48, 47, 48, 48, 47, 120])"
  using storage_split_filename_correct [of "[[47, 97], [47, 98]]" 1 "[48, 48, 47, 48, 48, 47, 120]"] by simp

text \<open>Two trunk files of a store path never share a path name: as long as the names fit the
  buffer, equal full names mean equal sub directories and equal trunk file ids.\<close>

theorem trunk_filename_injective:
  assumes "store_path_index (path a) = store_path_index (path b)"
    and "0 \<le> trunk_id (tfile a)" and "0 \<le> trunk_id (tfile b)"
    and "length (trunk_get_full_filename_ex paths a n) < n - 1"
    and "length (trunk_get_full_filename_ex paths b n) < n - 1"
    and "trunk_get_full_filename_ex paths a n = trunk_get_full_filename_ex paths b n"
  shows "path a = path b \<and> trunk_id (tfile a) = trunk_id (tfile b)"
proof -
  let ?f = "\<lambda>x. paths ! unat (store_path_index (path x)) @ [47, 100, 97, 116, 97, 47] @
        print_02X (sub_path_high (path x)) @ [47] @ print_02X (sub_path_low (path x)) @ [47] @
        TRUNK_GET_FILENAME (trunk_id (tfile x))"
  have "length (?f a) \<le> n - 1" "length (?f b) \<le> n - 1" "take (n - 1) (?f a) = take (n - 1) (?f b)"
    using assms(4-6) by (simp_all only: trunk_get_full_filename_ex_def length_take)
  then have "?f a = ?f b" using take_all_eq by blast
  with assms(1) have "print_02X (sub_path_high (path a)) @ [47] @ print_02X (sub_path_low (path a)) @ [47] @
        TRUNK_GET_FILENAME (trunk_id (tfile a)) =
      print_02X (sub_path_high (path b)) @ [47] @ print_02X (sub_path_low (path b)) @ [47] @
        TRUNK_GET_FILENAME (trunk_id (tfile b))" by simp
  moreover have len: "length (print_02X x) = 2" for x by (simp add: print_02X_def)
  ultimately have "print_02X (sub_path_high (path a)) = print_02X (sub_path_high (path b))"
    "print_02X (sub_path_low (path a)) = print_02X (sub_path_low (path b))"
    "TRUNK_GET_FILENAME (trunk_id (tfile a)) = TRUNK_GET_FILENAME (trunk_id (tfile b))"
    by (simp_all add: append_eq_append_conv)
  with assms(1-3) show ?thesis using trunk_filename_inject by (simp add: print_02X_inject)
qed

definition sample_info :: "int \<Rightarrow> FDFSTrunkFullInfo" where
  "sample_info off = \<lparr>status = 0, path = \<lparr>store_path_index = 0, sub_path_high = 10, sub_path_low = 255\<rparr>,
     tfile = \<lparr>trunk_id = 42, trunk_offset = off, trunk_size = 100\<rparr>\<rparr>"

theorem trunk_filename_injective_witness:
  "path (sample_info 0) = path (sample_info 100) \<and> trunk_id (tfile (sample_info 0)) = trunk_id (tfile (sample_info 100))"
proof -
  have "length (trunk_get_full_filename_ex [[47]] (sample_info 0) 256) = 19"
    "length (trunk_get_full_filename_ex [[47]] (sample_info 100) 256) = 19" by code_simp+
  moreover have "trunk_get_full_filename_ex [[47]] (sample_info 0) 256 = trunk_get_full_filename_ex [[47]] (sample_info 100) 256"
    by (simp add: trunk_get_full_filename_ex_def sample_info_def)
  ultimately show ?thesis
    using trunk_filename_injective [of "sample_info 0" "sample_info 100" "[[47]]" 256]
    by (simp add: sample_info_def)
qed

lemma check_trunk_header_sound:
  assumes "length hbuff = 24" and "7 \<le> length (formatted_ext_name (out_header out))"
    and "lstat_result (check_trunk_header d hbuff keep_fd out) = 0"
  shows "trunk_pack_header (out_header (check_trunk_header d hbuff keep_fd out)) = hbuff \<and>
    file_type (out_header (check_trunk_header d hbuff keep_fd out)) \<in> {70, 76} \<and>
    out_info (check_trunk_header d hbuff keep_fd out) = out_info out \<and>
    (out_fd out = None \<longrightarrow> (out_fd (check_trunk_header d hbuff keep_fd out) \<noteq> None) = keep_fd)"
proof -
  let ?h = "(out_header out)\<lparr>file_type := hbuff ! 0\<rparr>"
  have "length (trunk_pack_header ?h) = length hbuff" using assms(1,2) by (simp add: length_pack_header)
  with assms(3) show ?thesis
    by (auto simp: check_trunk_header_def Let_def memcmp_eq split: if_splits)
qed

definition name_buff :: "byte list \<Rightarrow> byte list" where
  "name_buff true_filename =
     decode_into (replicate 128 0) (take FDFS_FILENAME_BASE64_LENGTH (drop FDFS_TRUE_FILE_PATH_LEN true_filename))"

text \<open>A name passes \<open>trunk_file_do_lstat_func_ex\<close> as a trunk file only if the trunk file it names
  exists and holds, at the offset in the name, exactly the header block that the name implies (type,
  allocated and real size, checksum, time and extension): a stale name, whose block was freed or reused,
  is refused. A descriptor is left open only on success and when the caller wants one.\<close>

theorem trunk_lstat_sound:
  assumes "length true_filename = FDFS_TRUNK_FILENAME_LENGTH"
    and "IS_TRUNK_FILE (buff2long (drop 8 (name_buff true_filename)))"
    and "out = trunk_file_do_lstat_func_ex fs errno stk paths index true_filename stat_func keep_fd out0"
  shows "(lstat_result out = 0 \<longrightarrow>
      (\<exists>content. open_file fs (trunk_get_full_filename_ex paths (out_info out) 256) = Inr content \<and>
         take 24 (drop (nat (trunk_offset (tfile (out_info out)))) content) = trunk_pack_header (out_header out) \<and>
         file_type (out_header out) \<in> {FDFS_TRUNK_FILE_TYPE_REGULAR, FDFS_TRUNK_FILE_TYPE_LINK} \<and>
         th_alloc_size (out_header out) = trunk_size (tfile (out_info out)))) \<and>
    (lstat_result out \<noteq> 0 \<longrightarrow> out_fd out = None) \<and> (lstat_result out = 0 \<longrightarrow> (out_fd out \<noteq> None) = keep_fd)"
proof -
  define out1 where "out1 = fill_from_name stk index true_filename (name_buff true_filename)
    (out0\<lparr>out_info := (out_info out0)\<lparr>tfile := (tfile (out_info out0))\<lparr>trunk_id := 0\<rparr>\<rparr>, out_fd := None\<rparr>)"
  let ?info = "out_info out1"
  have out: "out = (case open_at fs (trunk_get_full_filename_ex paths ?info 256) (trunk_offset (tfile ?info)) of
      Inl e \<Rightarrow> out1\<lparr>lstat_result := e\<rparr>
    | Inr d \<Rightarrow> if length (read_fd d 24) \<noteq> 24 then out1\<lparr>lstat_result := err_or errno EINVAL\<rparr>
               else check_trunk_header d (read_fd d 24) keep_fd out1)"
    using assms(1,2) unfolding assms(3) trunk_file_do_lstat_func_ex_def name_buff_def [symmetric] Let_def out1_def
    by (simp only: if_False simp_thms)
  have ext: "7 \<le> length (formatted_ext_name (out_header out1))" and nofd: "out_fd out1 = None"
    and alloc: "th_alloc_size (out_header out1) = trunk_size (tfile ?info)"
    using assms(1) by (simp_all add: out1_def fill_from_name_def trunk_header_of_name_def Let_def)
  show ?thesis
  proof (cases "open_at fs (trunk_get_full_filename_ex paths ?info 256) (trunk_offset (tfile ?info))")
    case (Inl e)
    then have "e \<noteq> 0" by (auto simp: open_at_def err_or_def split: sum.splits if_splits)
    with Inl show ?thesis using nofd by (simp add: out)
  next
    case (Inr d)
    then obtain content where c: "open_file fs (trunk_get_full_filename_ex paths ?info 256) = Inr content"
      "d = (content, trunk_offset (tfile ?info))"
      by (auto simp: open_at_def split: sum.splits if_splits)
    show ?thesis
    proof (cases "length (read_fd d 24) = 24")
      case True
      with Inr have o: "out = check_trunk_header d (read_fd d 24) keep_fd out1" by (simp add: out)
      have "lstat_result out \<noteq> 0 \<Longrightarrow> out_fd out = None" and "th_alloc_size (out_header out) = th_alloc_size (out_header out1)"
        using nofd by (auto simp: o check_trunk_header_def Let_def split: if_splits)
      with check_trunk_header_sound [OF True ext, of d keep_fd] nofd alloc c show ?thesis
        by (auto simp: o read_fd_def)
    next
      case False
      with Inr show ?thesis using nofd by (simp add: out err_or_def)
    qed
  qed
qed

definition sample_name :: "byte list" where
  "sample_name = [48, 48, 47, 48, 65, 47] @ replicate 11 65 @ [73] @ replicate 31 65 @ [46, 106, 112, 103, 0, 0, 0]"

definition sample_fs :: file_system where
  "sample_fs = \<lparr>open_file = (\<lambda>_. Inr (70 # replicate 16 0 @ [46, 106, 112, 103, 0, 0, 0] @ [1, 2, 3])),
     stat_file = (\<lambda>_ _. Inl 2)\<rparr>"

definition sample_out :: lstat_out where
  "sample_out = \<lparr>lstat_result = 0, out_info = sample_info 0, out_header = sample_header,
     out_stat = \<lparr>st_mode = 0, st_size = 0, st_mtime = 0\<rparr>, out_fd = None\<rparr>"

lemma sample_name_trunk: "length sample_name = 56" "IS_TRUNK_FILE (buff2long (drop 8 (name_buff sample_name)))"
  by code_simp+

lemma sample_lstat_ok:
  "lstat_result (trunk_file_do_lstat_func_ex sample_fs 0 (replicate 16 0) [[47]] 0 sample_name 0 True sample_out) = 0"
  by code_simp

theorem trunk_lstat_sound_witness:
  "\<exists>content d. open_file sample_fs (trunk_get_full_filename_ex [[47]]
       (out_info (trunk_file_do_lstat_func_ex sample_fs 0 (replicate 16 0) [[47]] 0 sample_name 0 True sample_out)) 256) = Inr content \<and>
     out_fd (trunk_file_do_lstat_func_ex sample_fs 0 (replicate 16 0) [[47]] 0 sample_name 0 True sample_out) = Some d"
  using trunk_lstat_sound [OF sample_name_trunk refl, of sample_fs 0 "replicate 16 0" "[[47]]" 0 0 True sample_out]
    sample_lstat_ok by auto

end
