(* ===== verification/Trunk_Checker.thy ===== *)
theory Trunk_Checker
  imports AVL_Tree Trunk_Shared "HOL-Library.Monad_Syntax"
begin

text \<open>
  The register of free blocks, \<open>storage/trunk_mgr/trunk_free_block_checker.c\<close>: an AVL tree with one
  entry per trunk file, which holds the blocks of that file in an array sorted by offset. The arrays
  hold pointers to the blocks of the allocator; they are modelled by the blocks they point to. An
  operation returns \<open>None\<close> where the code would follow a null pointer; the outcomes of \<open>malloc\<close> and \<open>realloc\<close>
  are arguments.
\<close>

section \<open>State\<close>

record FDFSTrunkFileIdentifier =
  ident_path :: FDFSTrunkPathInfo
  ident_id :: int

record FDFSBlockArray =
  ba_alloc :: int
  ba_blocks :: "FDFSTrunkFullInfo list"

record FDFSTrunksById =
  trunk_file_id :: FDFSTrunkFileIdentifier
  block_array :: FDFSBlockArray

abbreviation offset :: "FDFSTrunkFullInfo \<Rightarrow> int" where
  "offset b \<equiv> trunk_offset (tfile b)"

abbreviation bsize :: "FDFSTrunkFullInfo \<Rightarrow> int" where
  "bsize b \<equiv> trunk_size (tfile b)"

text \<open>The bytes of the identifier in memory: three path bytes, one byte of padding that was cleared, the id.\<close>

definition ident_bytes :: "FDFSTrunkFileIdentifier \<Rightarrow> byte list" where
  "ident_bytes i =
     [store_path_index (ident_path i), sub_path_high (ident_path i), sub_path_low (ident_path i), 0] @
     rev (int2buff (ident_id i))"

definition storage_trunk_node_compare_entry :: "FDFSTrunksById compare" where
  "storage_trunk_node_compare_entry p1 p2 = memcmp (ident_bytes (trunk_file_id p1)) (ident_bytes (trunk_file_id p2))"

definition FILL_FILE_IDENTIFIER :: "FDFSTrunkFullInfo \<Rightarrow> FDFSTrunkFileIdentifier" where
  "FILL_FILE_IDENTIFIER pTrunkInfo = \<lparr>ident_path = path pTrunkInfo, ident_id = trunk_id (tfile pTrunkInfo)\<rparr>"

text \<open>The entry with an identifier and no blocks: what \<open>memset\<close> and \<open>memcpy\<close> make, and the target of a search.\<close>

definition empty_entry :: "FDFSTrunkFileIdentifier \<Rightarrow> FDFSTrunksById" where
  "empty_entry target = \<lparr>trunk_file_id = target, block_array = \<lparr>ba_alloc = 0, ba_blocks = []\<rparr>\<rparr>"

type_synonym checker = "FDFSTrunksById AVLTreeInfo"

section \<open>Operations\<close>

definition trunk_free_block_checker_init :: "checker \<times> int" where
  "trunk_free_block_checker_init = avl_tree_init True storage_trunk_node_compare_entry"

definition trunk_free_block_checker_destroy :: "checker \<Rightarrow> checker" where
  "trunk_free_block_checker_destroy tree = fst (avl_tree_destroy tree)"

definition trunk_free_block_tree_node_count :: "checker \<Rightarrow> int" where
  "trunk_free_block_tree_node_count tree = avl_tree_count tree"

definition block_tree_count_walk_callback :: "FDFSTrunksById \<Rightarrow> int \<Rightarrow> int \<times> int" where
  "block_tree_count_walk_callback d pcount = (pcount + int (length (ba_blocks (block_array d))), 0)"

definition trunk_free_block_total_count :: "checker \<Rightarrow> int" where
  "trunk_free_block_total_count tree = fst (avl_tree_walk tree block_tree_count_walk_callback 0)"

text \<open>The binary search of \<open>trunk_free_block_check_duplicate\<close>.\<close>

function check_duplicate_loop :: "FDFSTrunkFullInfo list \<Rightarrow> int \<Rightarrow> int \<Rightarrow> int \<Rightarrow> int \<Rightarrow> int" where
  "check_duplicate_loop blocks off end_offset lo hi =
     (if lo \<le> hi then
        (let mid = (lo + hi) div 2; b = blocks ! nat mid in
         if off < offset b then
           (if offset b < end_offset then EEXIST
            else check_duplicate_loop blocks off end_offset lo (mid - 1))
         else if off = offset b then EEXIST
         else if off < c_int (offset b + bsize b) then EEXIST
         else check_duplicate_loop blocks off end_offset (mid + 1) hi)
      else 0)"
  by pat_completeness auto
termination
  by (relation "measure (\<lambda>(bs, off, e, lo, hi). nat (hi - lo + 1))") auto

declare check_duplicate_loop.simps [simp del]

definition check_duplicate_blocks :: "FDFSTrunkFullInfo list \<Rightarrow> FDFSTrunkFullInfo \<Rightarrow> int" where
  "check_duplicate_blocks blocks pTrunkInfo =
     (if blocks = [] then 0
      else
        (let end_offset = c_int (offset pTrunkInfo + bsize pTrunkInfo);
             hi = int (length blocks) - 1
         in if end_offset \<le> offset (blocks ! 0) then 0
            else if c_int (offset (blocks ! nat hi) + bsize (blocks ! nat hi)) \<le> offset pTrunkInfo then 0
            else check_duplicate_loop blocks (offset pTrunkInfo) end_offset 0 hi))"

definition trunk_free_block_check_duplicate :: "checker \<Rightarrow> FDFSTrunkFullInfo \<Rightarrow> int" where
  "trunk_free_block_check_duplicate tree pTrunkInfo =
     (case avl_tree_find tree (empty_entry (FILL_FILE_IDENTIFIER pTrunkInfo)) of
        None \<Rightarrow> 0
      | Some pFound \<Rightarrow> check_duplicate_blocks (ba_blocks (block_array pFound)) pTrunkInfo)"

definition trunk_free_block_realloc :: "FDFSBlockArray \<Rightarrow> bool \<Rightarrow> int \<Rightarrow> int \<times> FDFSBlockArray" where
  "trunk_free_block_realloc pArray mem new_alloc =
     (if mem then (0, pArray\<lparr>ba_alloc := new_alloc\<rparr>) else (ENOMEM, pArray))"

text \<open>
  The binary search that insertion and deletion share: whether a block with the offset is there, and
  the last middle position.
\<close>

function block_search :: "FDFSTrunkFullInfo list \<Rightarrow> int \<Rightarrow> int \<Rightarrow> int \<Rightarrow> int \<Rightarrow> bool \<times> int" where
  "block_search blocks off lo hi mid0 =
     (if lo \<le> hi then
        (let mid = (lo + hi) div 2; b = blocks ! nat mid in
         if off < offset b then block_search blocks off lo (mid - 1) mid
         else if offset b = off then (True, mid)
         else block_search blocks off (mid + 1) hi mid)
      else (False, mid0))"
  by pat_completeness auto
termination
  by (relation "measure (\<lambda>(bs, off, lo, hi, mid). nat (hi - lo + 1))") auto

declare block_search.simps [simp del]

definition block_array_grow :: "FDFSBlockArray \<Rightarrow> bool \<Rightarrow> int \<times> FDFSBlockArray" where
  "block_array_grow pArray mem =
     (if int (length (ba_blocks pArray)) \<ge> ba_alloc pArray
      then trunk_free_block_realloc pArray mem (if ba_alloc pArray = 0 then 32 else 2 * ba_alloc pArray)
      else (0, pArray))"

text \<open>The array after the block was put at its place; \<open>None\<close> when its offset is taken.\<close>

definition place_block :: "FDFSTrunkFullInfo list \<Rightarrow> FDFSTrunkFullInfo \<Rightarrow> FDFSTrunkFullInfo list option" where
  "place_block blocks pTrunkInfo =
     (if blocks = [] then Some [pTrunkInfo]
      else if offset pTrunkInfo < offset (blocks ! 0) then Some (pTrunkInfo # blocks)
      else
        (let hi = int (length blocks) - 1 in
         if offset (blocks ! nat hi) < offset pTrunkInfo then Some (blocks @ [pTrunkInfo])
         else
           (let (found, mid) = block_search blocks (offset pTrunkInfo) 0 hi 0 in
            if found then None
            else
              (let pos = nat (if offset pTrunkInfo < offset (blocks ! nat mid) then mid else mid + 1)
               in Some (take pos blocks @ pTrunkInfo # drop pos blocks)))))"

definition trunk_free_block_do_insert :: "FDFSTrunkFullInfo \<Rightarrow> bool \<Rightarrow> FDFSBlockArray \<Rightarrow> int \<times> FDFSBlockArray" where
  "trunk_free_block_do_insert pTrunkInfo mem pArray0 =
     (let (result, pArray) = block_array_grow pArray0 mem in
      if result \<noteq> 0 then (result, pArray)
      else
        (case place_block (ba_blocks pArray) pTrunkInfo of
           None \<Rightarrow> (EEXIST, pArray)
         | Some blocks \<Rightarrow> (0, pArray\<lparr>ba_blocks := blocks\<rparr>)))"

record checker_env =
  id_malloc :: bool
  id_tree_mem :: bool
  id_realloc :: bool

definition trunk_free_block_insert :: "checker \<Rightarrow> checker_env \<Rightarrow> FDFSTrunkFullInfo \<Rightarrow> (checker \<times> int) option" where
  "trunk_free_block_insert tree env pTrunkInfo =
     (let target = empty_entry (FILL_FILE_IDENTIFIER pTrunkInfo);
          store = (\<lambda>t pTrunksById.
            (let (result, arr) = trunk_free_block_do_insert pTrunkInfo (id_realloc env) (block_array pTrunksById)
             in Some (avl_tree_write t target (\<lambda>e. e\<lparr>block_array := arr\<rparr>), result)))
      in case avl_tree_find tree target of
           Some pTrunksById \<Rightarrow> store tree pTrunksById
         | None \<Rightarrow>
             if \<not> id_malloc env then Some (tree, ENOMEM)
             else do {
               (tree1, res) \<leftarrow> avl_tree_insert (id_tree_mem env) tree target;
               if res \<noteq> 1 then Some (tree1, ENOMEM) else store tree1 target
             })"

definition remove_block :: "FDFSTrunkFullInfo list \<Rightarrow> nat \<Rightarrow> FDFSTrunkFullInfo list" where
  "remove_block blocks mid = take mid blocks @ drop (Suc mid) blocks"

definition block_array_shrink :: "FDFSBlockArray \<Rightarrow> bool \<Rightarrow> int \<times> FDFSBlockArray" where
  "block_array_shrink pArray mem =
     (if int (length (ba_blocks pArray)) < ba_alloc pArray div 2 \<and> int (length (ba_blocks pArray)) > 16
      then trunk_free_block_realloc pArray mem (ba_alloc pArray div 2)
      else (0, pArray))"

definition trunk_free_block_delete :: "checker \<Rightarrow> bool \<Rightarrow> FDFSTrunkFullInfo \<Rightarrow> (checker \<times> int) option" where
  "trunk_free_block_delete tree mem pTrunkInfo =
     (let target = empty_entry (FILL_FILE_IDENTIFIER pTrunkInfo) in
      case avl_tree_find tree target of
        None \<Rightarrow> Some (tree, ENOENT)
      | Some pTrunksById \<Rightarrow>
          (let arr = block_array pTrunksById;
               blocks = ba_blocks arr;
               (found, mid) = block_search blocks (offset pTrunkInfo) 0 (int (length blocks) - 1) 0
           in if \<not> found then Some (tree, ENOENT)
              else
                (let arr1 = arr\<lparr>ba_blocks := remove_block blocks (nat mid)\<rparr> in
                 if ba_blocks arr1 = [] then
                   do {
                     (tree1, res, freed) \<leftarrow> avl_tree_delete tree target;
                     if res \<noteq> 1
                     then Some (avl_tree_write tree1 target (\<lambda>e. e\<lparr>block_array := \<lparr>ba_alloc = 0, ba_blocks = []\<rparr>\<rparr>), ENOENT)
                     else Some (tree1, 0)
                   }
                 else
                   (let (result, arr2) = block_array_shrink arr1 mem
                    in Some (avl_tree_write tree target (\<lambda>e. e\<lparr>block_array := arr2\<rparr>), result)))))"

section \<open>Well-formed blocks and arrays\<close>

definition bend :: "FDFSTrunkFullInfo \<Rightarrow> int" where
  "bend b = offset b + bsize b"

definition block_ok :: "FDFSTrunkFullInfo \<Rightarrow> bool" where
  "block_ok b \<longleftrightarrow> 0 \<le> offset b \<and> 0 < bsize b \<and> bend b < 2 ^ 31 \<and> int_range (trunk_id (tfile b))"

definition overlap :: "FDFSTrunkFullInfo \<Rightarrow> FDFSTrunkFullInfo \<Rightarrow> bool" where
  "overlap a b \<longleftrightarrow> FILL_FILE_IDENTIFIER a = FILL_FILE_IDENTIFIER b \<and> offset a < bend b \<and> offset b < bend a"

definition blocks_ok :: "FDFSTrunkFullInfo list \<Rightarrow> bool" where
  "blocks_ok bs \<longleftrightarrow> (\<forall>b \<in> set bs. block_ok b) \<and> sorted_wrt (\<lambda>a b. bend a \<le> offset b) bs"

lemma block_ok_end [simp]: "block_ok b \<Longrightarrow> c_int (offset b + bsize b) = bend b"
  by (simp add: block_ok_def bend_def int_range_def)

lemma blocks_ok_nth:
  assumes "blocks_ok bs" and "i < j" and "j < length bs"
  shows "bend (bs ! i) \<le> offset (bs ! j)" and "offset (bs ! i) < offset (bs ! j)" and "bend (bs ! i) < bend (bs ! j)"
proof -
  have ok: "block_ok (bs ! i)" "block_ok (bs ! j)" using assms by (auto simp: blocks_ok_def)
  show b: "bend (bs ! i) \<le> offset (bs ! j)" using assms sorted_wrt_nth_less [of "\<lambda>a b. bend a \<le> offset b" bs i j] by (simp add: blocks_ok_def)
  show "offset (bs ! i) < offset (bs ! j)" "bend (bs ! i) < bend (bs ! j)"
    using b ok by (auto simp: block_ok_def bend_def)
qed

lemma blocks_ok_sorted: "blocks_ok bs \<Longrightarrow> sorted_key offset bs"
  unfolding sorted_key_def sorted_wrt_iff_nth_less using blocks_ok_nth(2) by blast

lemma mid_bounds: "l \<le> r \<Longrightarrow> l \<le> (l + r) div 2 \<and> (l + r) div 2 \<le> r" for l r :: int
  by linarith

lemma check_duplicate_loop_spec:
  assumes "blocks_ok bs" and "0 \<le> lo" and "hi < int (length bs)" and "off < e"
    and "\<forall>i. int i < lo \<longrightarrow> bend (bs ! i) \<le> off"
    and "\<forall>i < length bs. hi < int i \<longrightarrow> e \<le> offset (bs ! i)"
  shows "check_duplicate_loop bs off e lo hi = (if \<exists>i < length bs. off < bend (bs ! i) \<and> offset (bs ! i) < e then EEXIST else 0)"
  using assms
proof (induction bs off e lo hi rule: check_duplicate_loop.induct)
  case (1 bs off e lo hi)
  show ?case
  proof (cases "lo \<le> hi")
    case False
    then have "\<not> (\<exists>i < length bs. off < bend (bs ! i) \<and> offset (bs ! i) < e)"
      using "1.prems"(5,6) by (metis le_less_linear not_less order.strict_trans2)
    with False show ?thesis by (simp add: check_duplicate_loop.simps [of bs off e lo hi])
  next
    case True
    define mid where "mid = (lo + hi) div 2"
    have mb: "lo \<le> mid" "mid \<le> hi" "0 \<le> mid" "nat mid < length bs"
      using mid_bounds [OF True] "1.prems"(2,3) unfolding mid_def by linarith+
    let ?b = "bs ! nat mid"
    have ok: "block_ok ?b" using "1.prems"(1) mb(4) by (simp add: blocks_ok_def)
    have pos: "offset ?b < bend ?b" using ok by (simp add: block_ok_def bend_def)
    have step: "check_duplicate_loop bs off e lo hi =
        (if off < offset ?b then if offset ?b < e then EEXIST else check_duplicate_loop bs off e lo (mid - 1)
         else if off < bend ?b then EEXIST else check_duplicate_loop bs off e (mid + 1) hi)"
      using True pos by (simp add: check_duplicate_loop.simps [of bs off e lo hi] Let_def flip: mid_def)
        (simp add: ok)
    note nth = blocks_ok_nth [OF "1.prems"(1)]
    consider "off < offset ?b" "offset ?b < e" | "off < offset ?b" "e \<le> offset ?b"
      | "offset ?b \<le> off" "off < bend ?b" | "\<not> off < offset ?b" "off \<noteq> offset ?b" "bend ?b \<le> off"
      using pos by linarith
    then show ?thesis
    proof cases
      case 1
      then show ?thesis using mb(4) pos step by (auto intro: less_trans)
    next
      case 2
      have above: "\<forall>i < length bs. mid - 1 < int i \<longrightarrow> e \<le> offset (bs ! i)"
      proof (intro allI impI)
        fix i assume i: "i < length bs" "mid - 1 < int i"
        then have "i = nat mid \<or> nat mid < i" by linarith
        then show "e \<le> offset (bs ! i)" using nth(2) [of "nat mid" i] i 2 by auto
      qed
      have "check_duplicate_loop bs off e lo (mid - 1) =
          (if \<exists>i < length bs. off < bend (bs ! i) \<and> offset (bs ! i) < e then EEXIST else 0)"
        by (rule "1.IH"(1) [OF True mid_def refl 2(1)]) (use 2(2) "1.prems" mb above in \<open>simp_all add: not_less\<close>)
      then show ?thesis using step 2 by simp
    next
      case 3
      then have "off < bend ?b \<and> offset ?b < e" using "1.prems"(4) by linarith
      with 3 show ?thesis using mb(4) step by auto
    next
      case 4
      have n: "\<not> off < c_int (offset ?b + bsize ?b)" using 4(3) ok by simp
      have below: "\<forall>i. int i < mid + 1 \<longrightarrow> bend (bs ! i) \<le> off"
      proof (intro allI impI)
        fix i assume "int i < mid + 1"
        then have "i = nat mid \<or> i < nat mid" by linarith
        then show "bend (bs ! i) \<le> off" using nth(3) [of i "nat mid"] mb 4 by auto
      qed
      have "check_duplicate_loop bs off e (mid + 1) hi =
          (if \<exists>i < length bs. off < bend (bs ! i) \<and> offset (bs ! i) < e then EEXIST else 0)"
        by (rule "1.IH"(2) [OF True mid_def refl 4(1,2) n]) (use "1.prems" mb below in simp_all)
      with 4 show ?thesis using step by simp
    qed
  qed
qed

lemma block_search_spec:
  assumes "blocks_ok bs" and "0 \<le> lo" and "hi < int (length bs)"
    and "\<forall>i. int i < lo \<longrightarrow> offset (bs ! i) < off"
    and "\<forall>i < length bs. hi < int i \<longrightarrow> off < offset (bs ! i)"
    and "lo \<le> hi + 1"
    and "lo \<le> hi \<or> mid0 = lo \<and> mid0 < int (length bs) \<or> mid0 = lo - 1 \<and> 0 \<le> mid0"
  shows "case block_search bs off lo hi mid0 of (found, k) \<Rightarrow>
    0 \<le> k \<and> k < int (length bs) \<and>
    (if found then offset (bs ! nat k) = off
     else (let pos = (if off < offset (bs ! nat k) then k else k + 1) in
           (\<forall>i. int i < pos \<longrightarrow> offset (bs ! i) < off) \<and>
           (\<forall>i < length bs. pos \<le> int i \<longrightarrow> off < offset (bs ! i))))"
  using assms
proof (induction bs off lo hi mid0 rule: block_search.induct)
  case (1 bs off lo hi mid0)
  show ?case
  proof (cases "lo \<le> hi")
    case False
    then have s: "block_search bs off lo hi mid0 = (False, mid0)" by (simp add: block_search.simps)
    from False "1.prems"(7) consider "mid0 = lo" "mid0 < int (length bs)" | "mid0 = lo - 1" "0 \<le> mid0" by blast
    then show ?thesis
    proof cases
      case 1
      then have "off < offset (bs ! nat mid0)" using "1.prems"(2,5) False by auto
      with 1 s False "1.prems"(2,4,5) show ?thesis by (auto simp: Let_def)
    next
      case 2
      then have "offset (bs ! nat mid0) < off" using "1.prems"(4) by auto
      then have "\<not> off < offset (bs ! nat mid0)" by simp
      moreover have "\<forall>i < length bs. lo \<le> int i \<longrightarrow> off < offset (bs ! i)" using "1.prems"(5) False by auto
      ultimately show ?thesis unfolding s using 2 False "1.prems"(3,4,6) by (simp add: Let_def)
    qed
  next
    case True
    define mid where "mid = (lo + hi) div 2"
    have mb: "lo \<le> mid" "mid \<le> hi" "0 \<le> mid" "nat mid < length bs"
      using mid_bounds [OF True] "1.prems"(2,3) unfolding mid_def by linarith+
    let ?b = "bs ! nat mid"
    have step: "block_search bs off lo hi mid0 =
        (if off < offset ?b then block_search bs off lo (mid - 1) mid
         else if offset ?b = off then (True, mid) else block_search bs off (mid + 1) hi mid)"
      using True by (simp add: block_search.simps [of bs off lo hi] Let_def flip: mid_def)
    note nth = blocks_ok_nth(2) [OF "1.prems"(1)]
    consider "off < offset ?b" | "offset ?b = off" | "\<not> off < offset ?b" "offset ?b \<noteq> off" by linarith
    then show ?thesis
    proof cases
      case 1
      have above: "\<forall>i < length bs. mid - 1 < int i \<longrightarrow> off < offset (bs ! i)"
      proof (intro allI impI)
        fix i assume i: "i < length bs" "mid - 1 < int i"
        then have "i = nat mid \<or> nat mid < i" by linarith
        then show "off < offset (bs ! i)" using nth [of "nat mid" i] i 1 by auto
      qed
      have c: "lo \<le> mid - 1 \<or> mid = lo \<and> mid < int (length bs) \<or> mid = lo - 1 \<and> 0 \<le> mid"
        using mb by linarith
      show ?thesis unfolding step using 1
        by (simp only: if_True) (rule "1.IH"(1) [OF True mid_def refl 1 "1.prems"(1,2) _ "1.prems"(4) above _ c]; use mb in linarith)
    next
      case 2
      with step mb show ?thesis by simp
    next
      case 3
      have below: "\<forall>i. int i < mid + 1 \<longrightarrow> offset (bs ! i) < off"
      proof (intro allI impI)
        fix i assume "int i < mid + 1"
        then have "i = nat mid \<or> i < nat mid" by linarith
        then show "offset (bs ! i) < off" using nth [of i "nat mid"] mb 3 by auto
      qed
      have c: "mid + 1 \<le> hi \<or> mid = mid + 1 \<and> mid < int (length bs) \<or> mid = mid + 1 - 1 \<and> 0 \<le> mid"
        using mb by linarith
      show ?thesis unfolding step using 3
        by (simp only: if_False) (rule "1.IH"(2) [OF True mid_def refl 3 "1.prems"(1) _ "1.prems"(3) below "1.prems"(5) _ c]; use mb in linarith)
    qed
  qed
qed

lemma check_duplicate_blocks_spec:
  assumes "blocks_ok bs" and "block_ok x"
  shows "check_duplicate_blocks bs x = (if \<exists>b \<in> set bs. offset x < bend b \<and> offset b < bend x then EEXIST else 0)"
proof (cases "bs = []")
  case True
  then show ?thesis by (simp add: check_duplicate_blocks_def)
next
  case False
  define n where "n = length bs - 1"
  have n: "n < length bs" "nat (int (length bs) - 1) = n" using False unfolding n_def by (cases bs; simp)+
  have ok: "block_ok (bs ! n)" "block_ok (bs ! 0)" using assms(1) n(1) False by (simp_all add: blocks_ok_def)
  note nth = blocks_ok_nth [OF assms(1)]
  have first: "offset (bs ! 0) \<le> offset (bs ! i)" if "i < length bs" for i
    using nth(2) [of 0 i] that by (cases "i = 0") auto
  have lst: "bend (bs ! i) \<le> bend (bs ! n)" if "i < length bs" for i
  proof -
    have "i = n \<or> i < n" using that unfolding n_def by linarith
    then show ?thesis using nth(3) [of i n] n by auto
  qed
  have "check_duplicate_loop bs (offset x) (bend x) 0 (int (length bs) - 1) =
      (if \<exists>i < length bs. offset x < bend (bs ! i) \<and> offset (bs ! i) < bend x then EEXIST else 0)"
    using assms(2) by (intro check_duplicate_loop_spec [OF assms(1)]) (auto simp: block_ok_def bend_def)
  moreover have "(\<exists>b \<in> set bs. offset x < bend b \<and> offset b < bend x) \<longleftrightarrow>
      (\<exists>i < length bs. offset x < bend (bs ! i) \<and> offset (bs ! i) < bend x)"
    by (metis in_set_conv_nth)
  moreover have "\<not> (\<exists>i < length bs. offset x < bend (bs ! i) \<and> offset (bs ! i) < bend x)"
    if "bend x \<le> offset (bs ! 0) \<or> bend (bs ! n) \<le> offset x"
    using that first lst by (meson le_less_trans less_le_not_le order_trans)
  ultimately show ?thesis using False assms(2) ok n(2)
    by (auto simp: check_duplicate_blocks_def Let_def)
qed

lemma insert_at_put_key:
  assumes "\<forall>i. i < pos \<longrightarrow> offset (bs ! i) < offset x" and "\<forall>i < length bs. pos \<le> i \<longrightarrow> offset x < offset (bs ! i)"
  shows "take pos bs @ x # drop pos bs = put_key offset x bs"
proof -
  have t: "\<forall>b \<in> set (take pos bs). offset b < offset x" using assms(1) by (auto simp: in_set_conv_nth)
  have d: "\<forall>b \<in> set (drop pos bs). offset x < offset b" using assms(2) by (auto simp: in_set_conv_nth)
  have "keys_below offset (offset x) (take pos bs @ drop pos bs) = take pos bs"
    using t d by (simp only: keys_below_append) (simp add: keys_below_all keys_below_none less_imp_le)
  moreover have "keys_above offset (offset x) (take pos bs @ drop pos bs) = drop pos bs"
    using t d by (simp only: keys_above_append) (simp add: keys_above_all keys_above_none less_imp_le)
  ultimately show ?thesis by (simp add: put_key_def)
qed

lemma blocks_ok_put_key:
  assumes "blocks_ok bs" and "block_ok x" and "\<forall>b \<in> set bs. bend x \<le> offset b \<or> bend b \<le> offset x"
  shows "blocks_ok (put_key offset x bs)" and "mset (put_key offset x bs) = add_mset x (mset bs)"
proof -
  have bk: "0 < bsize b" "bend x \<le> offset b \<or> bend b \<le> offset x" "0 < bsize x" if "b \<in> set bs" for b
    using assms that by (simp_all add: blocks_ok_def block_ok_def)
  have ne: "offset b \<noteq> offset x" and lt: "offset b < offset x \<longleftrightarrow> bend b \<le> offset x" "offset x < offset b \<longleftrightarrow> bend x \<le> offset b"
    if "b \<in> set bs" for b
    using bk [OF that] unfolding bend_def by linarith+
  have "sorted_wrt (\<lambda>a b. bend a \<le> offset b) (put_key offset x bs)"
  proof -
    have f: "sorted_wrt (\<lambda>a b. bend a \<le> offset b) (filter P bs)" for P
      using assms(1) by (simp add: blocks_ok_def sorted_wrt_filter)
    have "bend a \<le> offset b" if "a \<in> set bs" "b \<in> set bs" "offset a < offset x" "offset x < offset b" for a b
      using lt(1) [OF that(1)] that by linarith
    with f lt show ?thesis
      unfolding put_key_def keys_below_def keys_above_def by (auto simp: sorted_wrt_append)
  qed
  then show "blocks_ok (put_key offset x bs)"
    using assms(1,2) by (auto simp: blocks_ok_def set_put_key)
  show "mset (put_key offset x bs) = add_mset x (mset bs)"
    using ne by (intro mset_put_key) blast
qed

lemma place_block_spec:
  assumes "blocks_ok bs" and "\<forall>b \<in> set bs. offset b \<noteq> offset x"
  shows "place_block bs x = Some (put_key offset x bs)"
proof (cases "bs = []")
  case True
  then show ?thesis by (simp add: place_block_def put_key_def)
next
  case False
  define n where "n = length bs - 1"
  have n: "n < length bs" "nat (int (length bs) - 1) = n" using False unfolding n_def by (cases bs; simp)+
  note nth = blocks_ok_nth(2) [OF assms(1)]
  consider "offset x < offset (bs ! 0)" | "\<not> offset x < offset (bs ! 0)" "offset (bs ! n) < offset x"
    | "\<not> offset x < offset (bs ! 0)" "\<not> offset (bs ! n) < offset x" by blast
  then show ?thesis
  proof cases
    case 1
    have "offset x < offset (bs ! i)" if "i < length bs" for i
      using nth [of 0 i] that 1 by (cases "i = 0") auto
    then have "take 0 bs @ x # drop 0 bs = put_key offset x bs" by (intro insert_at_put_key) auto
    with 1 False show ?thesis by (simp add: place_block_def)
  next
    case 2
    have "offset (bs ! i) < offset x" if "i < length bs" for i
    proof -
      have "i = n \<or> i < n" using that unfolding n_def by linarith
      then show ?thesis using nth [of i n] n 2 by auto
    qed
    then have "take (length bs) bs @ x # drop (length bs) bs = put_key offset x bs"
      by (intro insert_at_put_key) auto
    with 2 False n show ?thesis by (simp add: place_block_def)
  next
    case 3
    obtain found k where k: "block_search bs (offset x) 0 (int (length bs) - 1) 0 = (found, k)" by fastforce
    have s: "case (found, k) of (found, k) \<Rightarrow> 0 \<le> k \<and> k < int (length bs) \<and>
      (if found then offset (bs ! nat k) = offset x
       else (let pos = (if offset x < offset (bs ! nat k) then k else k + 1) in
             (\<forall>i. int i < pos \<longrightarrow> offset (bs ! i) < offset x) \<and>
             (\<forall>i < length bs. pos \<le> int i \<longrightarrow> offset x < offset (bs ! i))))"
      unfolding k [symmetric] by (rule block_search_spec [OF assms(1)]) (use n False in \<open>auto simp: Suc_le_eq\<close>)
    moreover from s have "\<not> found" using assms(2) by (auto simp: nat_less_iff)
    ultimately have "let pos = nat (if offset x < offset (bs ! nat k) then k else k + 1) in
        take pos bs @ x # drop pos bs = put_key offset x bs"
      unfolding Let_def by (intro insert_at_put_key) (auto simp: Let_def split: if_splits)
    with 3 False n k \<open>\<not> found\<close> show ?thesis by (simp add: place_block_def Let_def)
  qed
qed

lemma do_insert_spec:
  assumes "blocks_ok (ba_blocks arr)" and "block_ok x"
    and "\<forall>b \<in> set (ba_blocks arr). bend x \<le> offset b \<or> bend b \<le> offset x"
    and "int (length (ba_blocks arr)) \<le> ba_alloc arr"
  shows "\<exists>r arr'. trunk_free_block_do_insert x mem arr = (r, arr') \<and> (mem \<longrightarrow> r = 0) \<and>
    ba_blocks arr' = (if r = 0 then put_key offset x (ba_blocks arr) else ba_blocks arr) \<and>
    int (length (ba_blocks arr')) \<le> ba_alloc arr'"
proof -
  let ?bs = "ba_blocks arr"
  obtain r1 arr1 where r1: "block_array_grow arr mem = (r1, arr1)" by fastforce
  have a1: "ba_blocks arr1 = ?bs" "mem \<longrightarrow> r1 = 0" "r1 = 0 \<longrightarrow> int (length ?bs) < ba_alloc arr1"
      "r1 \<noteq> 0 \<longrightarrow> arr1 = arr"
    using r1 assms(4) by (auto simp: block_array_grow_def trunk_free_block_realloc_def split: if_splits)
  have "offset b \<noteq> offset x" if "b \<in> set ?bs" for b
  proof -
    have "0 < bsize b" "0 < bsize x" using assms(1,2) that by (simp_all add: blocks_ok_def block_ok_def)
    then show ?thesis using assms(3) that unfolding bend_def by force
  qed
  then have "place_block ?bs x = Some (put_key offset x ?bs)" using place_block_spec [OF assms(1)] by blast
  moreover have "length (put_key offset x ?bs) = Suc (length ?bs)"
    using blocks_ok_put_key(2) [OF assms(1-3)] by (metis size_add_mset size_mset)
  ultimately show ?thesis using r1 a1 assms(4)
    by (cases "r1 = 0") (simp_all add: trunk_free_block_do_insert_def)
qed

section \<open>The register\<close>

definition entry_key :: "FDFSTrunksById \<Rightarrow> byte list" where
  "entry_key e = ident_bytes (trunk_file_id e)"

definition entry_ok :: "FDFSTrunksById \<Rightarrow> bool" where
  "entry_ok e \<longleftrightarrow> int_range (ident_id (trunk_file_id e)) \<and> blocks_ok (ba_blocks (block_array e)) \<and>
     (\<forall>b \<in> set (ba_blocks (block_array e)). FILL_FILE_IDENTIFIER b = trunk_file_id e) \<and>
     int (length (ba_blocks (block_array e))) \<le> ba_alloc (block_array e)"

definition checker_inv :: "checker \<Rightarrow> bool" where
  "checker_inv t \<longleftrightarrow> compare_func t = storage_trunk_node_compare_entry \<and> avl_inv entry_key entry_ok (root t)"

definition checker_blocks :: "checker \<Rightarrow> FDFSTrunkFullInfo list" where
  "checker_blocks t = concat (map (\<lambda>e. ba_blocks (block_array e)) (inorder (root t)))"

lemma length_ident_bytes [simp]: "length (ident_bytes i) = 8"
  by (simp add: ident_bytes_def)

interpretation by_id: avl_order storage_trunk_node_compare_entry entry_key entry_ok
proof
  fix a b
  show "(storage_trunk_node_compare_entry a b < 0) = (entry_key a < entry_key b)"
    by (simp add: storage_trunk_node_compare_entry_def entry_key_def memcmp_less)
  show "(0 < storage_trunk_node_compare_entry a b) = (entry_key b < entry_key a)"
    by (simp add: storage_trunk_node_compare_entry_def entry_key_def memcmp_greater)
qed

lemma ident_bytes_inject:
  assumes "int_range (ident_id i)" and "int_range (ident_id j)" and "ident_bytes i = ident_bytes j"
  shows "i = j"
proof -
  have "int2buff (ident_id i) = int2buff (ident_id j)" using assms(3) by (simp add: ident_bytes_def)
  then have "ident_id i = ident_id j" using assms(1,2) by (metis buff2int_int2buff)
  then show ?thesis using assms(3)
    by (cases i; cases j; cases "ident_path i"; cases "ident_path j") (simp add: ident_bytes_def)
qed

lemma empty_entry_ok: "block_ok x \<Longrightarrow> entry_ok (empty_entry (FILL_FILE_IDENTIFIER x))"
  by (simp add: entry_ok_def empty_entry_def FILL_FILE_IDENTIFIER_def block_ok_def blocks_ok_def)

lemma entry_key_eq:
  assumes "entry_ok e" and "block_ok x"
  shows "entry_key e = entry_key (empty_entry (FILL_FILE_IDENTIFIER x)) \<longleftrightarrow> trunk_file_id e = FILL_FILE_IDENTIFIER x"
  using assms ident_bytes_inject [of "trunk_file_id e" "FILL_FILE_IDENTIFIER x"]
  by (auto simp: entry_key_def empty_entry_def entry_ok_def block_ok_def FILL_FILE_IDENTIFIER_def)

lemma mset_concat_map: "mset (concat (map f xs)) = (\<Sum>y \<in># mset xs. mset (f y))"
  by (induction xs) auto

lemma find_cong_set: "(\<And>y. y \<in> set xs \<Longrightarrow> P y = Q y) \<Longrightarrow> List.find P xs = List.find Q xs"
  by (induction xs) auto

lemma checker_find:
  assumes "checker_inv t" and "block_ok x"
  shows "avl_tree_find t (empty_entry (FILL_FILE_IDENTIFIER x)) =
    List.find (\<lambda>e. trunk_file_id e = FILL_FILE_IDENTIFIER x) (inorder (root t))"
proof -
  have "avl_tree_find t (empty_entry (FILL_FILE_IDENTIFIER x)) =
      List.find (\<lambda>e. entry_key e = entry_key (empty_entry (FILL_FILE_IDENTIFIER x))) (inorder (root t))"
    using assms by_id.tree_find_spec empty_entry_ok by (simp add: checker_inv_def)
  also have "\<dots> = List.find (\<lambda>e. trunk_file_id e = FILL_FILE_IDENTIFIER x) (inorder (root t))"
    using assms by (intro find_cong_set entry_key_eq) (auto simp: checker_inv_def avl_inv_def)
  finally show ?thesis .
qed

text \<open>The entry of a trunk file, and the entries around it.\<close>

lemma checker_split:
  assumes "checker_inv t" and "block_ok x" and "e \<in> set (inorder (root t))" and "trunk_file_id e = FILL_FILE_IDENTIFIER x"
  obtains l r where "inorder (root t) = l @ e # r"
    and "\<forall>e' \<in> set (l @ r). trunk_file_id e' \<noteq> FILL_FILE_IDENTIFIER x"
proof -
  obtain l r where lr: "inorder (root t) = l @ e # r" using split_list [OF assms(3)] by blast
  have "sorted_key entry_key (l @ e # r)" using assms(1) lr by (simp add: checker_inv_def avl_inv_def)
  then have "\<forall>e' \<in> set (l @ r). entry_key e' \<noteq> entry_key e" by auto
  then have "\<forall>e' \<in> set (l @ r). trunk_file_id e' \<noteq> FILL_FILE_IDENTIFIER x"
    using assms(4) unfolding entry_key_def by metis
  with lr show thesis by (rule that)
qed

lemma checker_entries_ok: "\<lbrakk>checker_inv t; e \<in> set (inorder (root t))\<rbrakk> \<Longrightarrow> entry_ok e"
  by (simp add: checker_inv_def avl_inv_def)

lemma checker_find_Some:
  assumes "checker_inv t" and "block_ok x"
  shows "avl_tree_find t (empty_entry (FILL_FILE_IDENTIFIER x)) = Some e \<longleftrightarrow>
    e \<in> set (inorder (root t)) \<and> trunk_file_id e = FILL_FILE_IDENTIFIER x"
proof
  assume "avl_tree_find t (empty_entry (FILL_FILE_IDENTIFIER x)) = Some e"
  then show "e \<in> set (inorder (root t)) \<and> trunk_file_id e = FILL_FILE_IDENTIFIER x"
    using checker_find [OF assms] find_Some_mem by fastforce
next
  assume e: "e \<in> set (inorder (root t)) \<and> trunk_file_id e = FILL_FILE_IDENTIFIER x"
  then obtain l r where "inorder (root t) = l @ e # r" "\<forall>e' \<in> set (l @ r). trunk_file_id e' \<noteq> FILL_FILE_IDENTIFIER x"
    using checker_split [OF assms] by metis
  then show "avl_tree_find t (empty_entry (FILL_FILE_IDENTIFIER x)) = Some e"
    using e by (auto simp: checker_find [OF assms] find_append find_None_iff dest!: find_Some_mem split: option.split)
qed

lemma checker_block_entry:
  assumes "checker_inv t" and "b \<in> set (checker_blocks t)"
  obtains e where "e \<in> set (inorder (root t))" and "b \<in> set (ba_blocks (block_array e))"
    and "trunk_file_id e = FILL_FILE_IDENTIFIER b" and "block_ok b"
  using assms that checker_entries_ok
  by (fastforce simp: checker_blocks_def entry_ok_def blocks_ok_def)

lemma check_duplicate_spec:
  assumes "checker_inv t" and "block_ok x"
  shows "trunk_free_block_check_duplicate t x = (if \<exists>b \<in> set (checker_blocks t). overlap x b then EEXIST else 0)"
proof (cases "avl_tree_find t (empty_entry (FILL_FILE_IDENTIFIER x))")
  case None
  then have "\<forall>e \<in> set (inorder (root t)). trunk_file_id e \<noteq> FILL_FILE_IDENTIFIER x"
    using checker_find_Some [OF assms] by fastforce
  then have "\<not> (\<exists>b \<in> set (checker_blocks t). overlap x b)"
    using checker_block_entry [OF assms(1)] by (metis overlap_def)
  with None show ?thesis by (simp add: trunk_free_block_check_duplicate_def)
next
  case (Some e)
  then have e: "e \<in> set (inorder (root t))" "trunk_file_id e = FILL_FILE_IDENTIFIER x"
    using checker_find_Some [OF assms] by auto
  then have ok: "entry_ok e" using checker_entries_ok [OF assms(1)] by simp
  obtain l r where lr: "inorder (root t) = l @ e # r" "\<forall>e' \<in> set (l @ r). trunk_file_id e' \<noteq> FILL_FILE_IDENTIFIER x"
    using checker_split [OF assms e] by metis
  have "(\<exists>b \<in> set (checker_blocks t). overlap x b) \<longleftrightarrow>
      (\<exists>b \<in> set (ba_blocks (block_array e)). offset x < bend b \<and> offset b < bend x)"
  proof
    assume "\<exists>b \<in> set (checker_blocks t). overlap x b"
    then obtain b where b: "b \<in> set (checker_blocks t)" "overlap x b" by blast
    then obtain e' where e': "e' \<in> set (inorder (root t))" "b \<in> set (ba_blocks (block_array e'))" "trunk_file_id e' = FILL_FILE_IDENTIFIER b"
      using checker_block_entry [OF assms(1)] by blast
    then have "e' = e" using lr b(2) by (auto simp: overlap_def)
    with b e' show "\<exists>b \<in> set (ba_blocks (block_array e)). offset x < bend b \<and> offset b < bend x"
      by (auto simp: overlap_def)
  next
    assume "\<exists>b \<in> set (ba_blocks (block_array e)). offset x < bend b \<and> offset b < bend x"
    then obtain b where b: "b \<in> set (ba_blocks (block_array e))" "offset x < bend b" "offset b < bend x" by blast
    then have "overlap x b" using ok e(2) by (simp add: overlap_def entry_ok_def)
    moreover have "b \<in> set (checker_blocks t)" using b(1) e(1) by (auto simp: checker_blocks_def)
    ultimately show "\<exists>b \<in> set (checker_blocks t). overlap x b" by blast
  qed
  with Some check_duplicate_blocks_spec [OF _ assms(2), of "ba_blocks (block_array e)"] ok show ?thesis
    by (simp add: trunk_free_block_check_duplicate_def entry_ok_def)
qed

text \<open>Storing a new array in the entry of a trunk file.\<close>

lemma write_array_spec:
  assumes "checker_inv t" and "block_ok x" and "e \<in> set (inorder (root t))" and "trunk_file_id e = FILL_FILE_IDENTIFIER x"
    and "blocks_ok (ba_blocks arr)" and "\<forall>b \<in> set (ba_blocks arr). FILL_FILE_IDENTIFIER b = FILL_FILE_IDENTIFIER x"
    and "int (length (ba_blocks arr)) \<le> ba_alloc arr"
  shows "checker_inv (avl_tree_write t (empty_entry (FILL_FILE_IDENTIFIER x)) (\<lambda>e. e\<lparr>block_array := arr\<rparr>)) \<and>
    (\<exists>M. mset (checker_blocks t) = M + mset (ba_blocks (block_array e)) \<and>
      mset (checker_blocks (avl_tree_write t (empty_entry (FILL_FILE_IDENTIFIER x)) (\<lambda>e. e\<lparr>block_array := arr\<rparr>))) =
        M + mset (ba_blocks arr))"
proof -
  let ?tg = "empty_entry (FILL_FILE_IDENTIFIER x)" and ?f = "\<lambda>e. e\<lparr>block_array := arr\<rparr>"
  obtain l r where lr: "inorder (root t) = l @ e # r" "\<forall>e' \<in> set (l @ r). trunk_file_id e' \<noteq> FILL_FILE_IDENTIFIER x"
    using checker_split [OF assms(1-4)] by metis
  have ok: "entry_ok y" if "y \<in> set (inorder (root t))" for y using checker_entries_ok [OF assms(1) that] .
  have pres: "entry_key (?f y) = entry_key y \<and> entry_ok (?f y)"
    if "y \<in> set (inorder (root t))" "entry_key y = entry_key ?tg" for y
    using ok [OF that(1)] entry_key_eq [OF ok [OF that(1)] assms(2)] that(2) assms(5-7)
    by (simp add: entry_key_def entry_ok_def)
  have inv: "compare_func t = storage_trunk_node_compare_entry" "avl_inv entry_key entry_ok (root t)"
    using assms(1) by (simp_all add: checker_inv_def)
  obtain t' where t': "avl_tree_write t ?tg ?f = t\<lparr>root := t'\<rparr>" "avl_inv entry_key entry_ok t'"
      "inorder t' = map (\<lambda>y. if entry_key y = entry_key ?tg then ?f y else y) (inorder (root t))"
    using by_id.tree_write_spec [OF inv empty_entry_ok [OF assms(2)], of ?f, OF pres] by blast
  have idt: "map (\<lambda>y. if entry_key y = entry_key ?tg then ?f y else y) ys = ys"
    if "set ys \<subseteq> set (l @ r)" for ys
  proof (rule map_idI)
    fix y assume "y \<in> set ys"
    then have y: "y \<in> set (l @ r)" using that by blast
    then have "y \<in> set (inorder (root t))" using lr(1) by auto
    from entry_key_eq [OF ok [OF this] assms(2)] lr(2) y show "(if entry_key y = entry_key ?tg then ?f y else y) = y"
      by auto
  qed
  have ino: "inorder t' = l @ ?f e # r"
    using t'(3) lr(1) idt [of l] idt [of r] entry_key_eq [OF ok [OF assms(3)] assms(2)] assms(4) by simp
  let ?B = "\<lambda>es. mset (concat (map (\<lambda>e. ba_blocks (block_array e)) es))"
  have "checker_inv (avl_tree_write t ?tg ?f)" using t' assms(1) by (simp add: checker_inv_def)
  moreover have "mset (checker_blocks t) = (?B l + ?B r) + mset (ba_blocks (block_array e))"
    by (simp add: checker_blocks_def lr(1))
  moreover have "mset (checker_blocks (avl_tree_write t ?tg ?f)) = (?B l + ?B r) + mset (ba_blocks arr)"
    by (simp add: checker_blocks_def t'(1) ino)
  ultimately show ?thesis by blast
qed

lemma store_block_spec:
  assumes "checker_inv t" and "block_ok x" and "e \<in> set (inorder (root t))" and "trunk_file_id e = FILL_FILE_IDENTIFIER x"
    and "\<forall>b \<in> set (checker_blocks t). \<not> overlap x b"
  shows "\<exists>r arr. trunk_free_block_do_insert x mem (block_array e) = (r, arr) \<and> (mem \<longrightarrow> r = 0) \<and>
    (let t' = avl_tree_write t (empty_entry (FILL_FILE_IDENTIFIER x)) (\<lambda>e. e\<lparr>block_array := arr\<rparr>) in
     checker_inv t' \<and>
     mset (checker_blocks t') = (if r = 0 then add_mset x (mset (checker_blocks t)) else mset (checker_blocks t)))"
proof -
  let ?bs = "ba_blocks (block_array e)"
  have ok: "entry_ok e" by (rule checker_entries_ok [OF assms(1,3)])
  have bs: "blocks_ok ?bs" "\<forall>b \<in> set ?bs. FILL_FILE_IDENTIFIER b = FILL_FILE_IDENTIFIER x"
      "int (length ?bs) \<le> ba_alloc (block_array e)"
    using ok assms(4) by (simp_all add: entry_ok_def)
  have sep: "\<forall>b \<in> set ?bs. bend x \<le> offset b \<or> bend b \<le> offset x"
  proof
    fix b assume b: "b \<in> set ?bs"
    then have "b \<in> set (checker_blocks t)" using assms(3) by (auto simp: checker_blocks_def)
    with assms(5) b bs(2) show "bend x \<le> offset b \<or> bend b \<le> offset x" by (auto simp: overlap_def not_less)
  qed
  obtain r arr where ins: "trunk_free_block_do_insert x mem (block_array e) = (r, arr)" "mem \<longrightarrow> r = 0"
      "ba_blocks arr = (if r = 0 then put_key offset x ?bs else ?bs)" "int (length (ba_blocks arr)) \<le> ba_alloc arr"
    using do_insert_spec [OF bs(1) assms(2) sep bs(3)] by blast
  note put = blocks_ok_put_key [OF bs(1) assms(2) sep]
  have "blocks_ok (ba_blocks arr)" "\<forall>b \<in> set (ba_blocks arr). FILL_FILE_IDENTIFIER b = FILL_FILE_IDENTIFIER x"
    using ins(3) put(1) bs by (auto simp: set_put_key)
  from write_array_spec [OF assms(1-4) this ins(4)] ins put(2) show ?thesis
    by (auto simp: Let_def)
qed

lemma checker_insert_spec:
  assumes "checker_inv t" and "block_ok x" and "\<forall>b \<in> set (checker_blocks t). \<not> overlap x b"
  shows "\<exists>t' r. trunk_free_block_insert t env x = Some (t', r) \<and> checker_inv t' \<and>
    (id_malloc env \<and> id_tree_mem env \<and> id_realloc env \<longrightarrow> r = 0) \<and>
    mset (checker_blocks t') = (if r = 0 then add_mset x (mset (checker_blocks t)) else mset (checker_blocks t))"
proof (cases "avl_tree_find t (empty_entry (FILL_FILE_IDENTIFIER x))")
  case (Some e)
  then have e: "e \<in> set (inorder (root t))" "trunk_file_id e = FILL_FILE_IDENTIFIER x"
    using checker_find_Some [OF assms(1,2)] by auto
  obtain r arr where s: "trunk_free_block_do_insert x (id_realloc env) (block_array e) = (r, arr)" "id_realloc env \<longrightarrow> r = 0"
      "let t' = avl_tree_write t (empty_entry (FILL_FILE_IDENTIFIER x)) (\<lambda>e. e\<lparr>block_array := arr\<rparr>) in checker_inv t' \<and>
       mset (checker_blocks t') = (if r = 0 then add_mset x (mset (checker_blocks t)) else mset (checker_blocks t))"
    using store_block_spec [OF assms(1,2) e assms(3), of "id_realloc env"] by blast
  then have "trunk_free_block_insert t env x =
      Some (avl_tree_write t (empty_entry (FILL_FILE_IDENTIFIER x)) (\<lambda>e. e\<lparr>block_array := arr\<rparr>), r)"
    using Some by (simp add: trunk_free_block_insert_def Let_def)
  with s show ?thesis by (simp add: Let_def)
next
  case None
  let ?tg = "empty_entry (FILL_FILE_IDENTIFIER x)"
  have inv: "compare_func t = storage_trunk_node_compare_entry" "avl_inv entry_key entry_ok (root t)"
    using assms(1) by (simp_all add: checker_inv_def)
  have no: "\<not> (\<exists>y \<in> set (inorder (root t)). entry_key y = entry_key ?tg)"
    using None checker_find_Some [OF assms(1,2)] entry_key_eq [OF checker_entries_ok [OF assms(1)] assms(2)] by fastforce
  obtain t1 where t1: "avl_tree_insert (id_tree_mem env) t ?tg =
        Some (t\<lparr>root := t1\<rparr>, snd (insert_result entry_key (id_tree_mem env) ?tg (inorder (root t))))"
      "avl_inv entry_key entry_ok t1" "inorder t1 = fst (insert_result entry_key (id_tree_mem env) ?tg (inorder (root t)))"
    using by_id.tree_insert_spec [OF inv empty_entry_ok [OF assms(2)]] by blast
  have inv1: "checker_inv (t\<lparr>root := t1\<rparr>)" using t1(2) inv(1) by (simp add: checker_inv_def)
  show ?thesis
  proof (cases "id_malloc env \<and> id_tree_mem env")
    case False
    have "checker_blocks (t\<lparr>root := t1\<rparr>) = checker_blocks t" if "\<not> id_tree_mem env"
      using t1(3) no that by (simp add: insert_result_def checker_blocks_def)
    with False None t1(1) no inv1 assms(1) show ?thesis
      by (cases "id_malloc env") (auto simp: trunk_free_block_insert_def Let_def insert_result_def)
  next
    case True
    have ino: "inorder t1 = put_key entry_key ?tg (inorder (root t))" using t1(3) no True by (simp add: insert_result_def)
    have perm: "mset (put_key entry_key ?tg (inorder (root t))) = add_mset ?tg (mset (inorder (root t)))"
      using no by (intro mset_put_key) auto
    have eq: "mset (checker_blocks (t\<lparr>root := t1\<rparr>)) = mset (checker_blocks t)"
      using perm ino by (simp add: checker_blocks_def mset_concat_map) (simp add: empty_entry_def)
    then have no1: "\<forall>b \<in> set (checker_blocks (t\<lparr>root := t1\<rparr>)). \<not> overlap x b"
      using assms(3) by (metis set_mset_mset)
    have tg: "?tg \<in> set (inorder (root (t\<lparr>root := t1\<rparr>)))" "trunk_file_id ?tg = FILL_FILE_IDENTIFIER x"
      using ino by (simp_all add: set_put_key empty_entry_def)
    obtain r arr where s: "trunk_free_block_do_insert x (id_realloc env) (block_array ?tg) = (r, arr)" "id_realloc env \<longrightarrow> r = 0"
      "let t' = avl_tree_write (t\<lparr>root := t1\<rparr>) ?tg (\<lambda>e. e\<lparr>block_array := arr\<rparr>) in checker_inv t' \<and>
       mset (checker_blocks t') = (if r = 0 then add_mset x (mset (checker_blocks t)) else mset (checker_blocks t))"
      using store_block_spec [OF inv1 assms(2) tg no1, of "id_realloc env", unfolded eq] by blast
    then have "trunk_free_block_insert t env x = Some (avl_tree_write (t\<lparr>root := t1\<rparr>) ?tg (\<lambda>e. e\<lparr>block_array := arr\<rparr>), r)"
      using None True t1(1) no by (simp add: trunk_free_block_insert_def Let_def insert_result_def)
    with s show ?thesis by (simp add: Let_def)
  qed
qed

lemma mset_remove_nth:
  "i < length xs \<Longrightarrow> mset xs = add_mset (xs ! i) (mset (take i xs @ drop (Suc i) xs))"
  using id_take_nth_drop [of i xs] by (metis mset.simps(2) mset_append union_mset_add_mset_right)

lemma blocks_ok_remove: "blocks_ok (l @ x # r) \<Longrightarrow> blocks_ok (l @ r)"
  by (auto simp: blocks_ok_def sorted_wrt_append)

lemma block_search_find:
  assumes "blocks_ok bs" and "b \<in> set bs" and "offset b = off"
  shows "\<exists>k. block_search bs off 0 (int (length bs) - 1) 0 = (True, int k) \<and> k < length bs \<and> bs ! k = b"
proof -
  obtain i where i: "i < length bs" "bs ! i = b" using assms(2) by (metis in_set_conv_nth)
  obtain found k where k: "block_search bs off 0 (int (length bs) - 1) 0 = (found, k)" by fastforce
  have s: "case (found, k) of (found, k) \<Rightarrow> 0 \<le> k \<and> k < int (length bs) \<and>
      (if found then offset (bs ! nat k) = off
       else (let pos = (if off < offset (bs ! nat k) then k else k + 1) in
             (\<forall>i. int i < pos \<longrightarrow> offset (bs ! i) < off) \<and>
             (\<forall>i < length bs. pos \<le> int i \<longrightarrow> off < offset (bs ! i))))"
    unfolding k [symmetric] by (rule block_search_spec [OF assms(1)]) (use i in auto)
  have found
  proof (rule ccontr)
    assume "\<not> found"
    with s i assms(3) have "\<not> int i < (if off < offset (bs ! nat k) then k else k + 1)"
      "\<not> (if off < offset (bs ! nat k) then k else k + 1) \<le> int i" by (auto simp: Let_def)
    then show False by linarith
  qed
  with s have "offset (bs ! nat k) = off" "nat k < length bs" "0 \<le> k" by auto
  moreover have "bs ! nat k = b"
    using calculation assms sorted_key_inj [OF blocks_ok_sorted [OF assms(1)], of "bs ! nat k" b] by simp
  ultimately show ?thesis using k \<open>found\<close> by (intro exI [of _ "nat k"]) auto
qed

lemma checker_delete_spec:
  assumes "checker_inv t" and "block_ok x" and "b \<in> set (checker_blocks t)"
    and "FILL_FILE_IDENTIFIER b = FILL_FILE_IDENTIFIER x" and "offset b = offset x"
  shows "\<exists>t' r. trunk_free_block_delete t mem x = Some (t', r) \<and> (mem \<longrightarrow> r = 0) \<and> checker_inv t' \<and>
    mset (checker_blocks t) = add_mset b (mset (checker_blocks t'))"
proof -
  let ?tg = "empty_entry (FILL_FILE_IDENTIFIER x)"
  obtain e where e: "e \<in> set (inorder (root t))" "b \<in> set (ba_blocks (block_array e))" "trunk_file_id e = FILL_FILE_IDENTIFIER x"
    using checker_block_entry [OF assms(1,3)] assms(4) by metis
  let ?bs = "ba_blocks (block_array e)"
  have ok: "entry_ok e" by (rule checker_entries_ok [OF assms(1) e(1)])
  have find: "avl_tree_find t ?tg = Some e" using checker_find_Some [OF assms(1,2)] e by blast
  obtain k where k: "block_search ?bs (offset x) 0 (int (length ?bs) - 1) 0 = (True, int k)" "k < length ?bs" "?bs ! k = b"
    using block_search_find [of ?bs b "offset x"] ok e(2) assms(5) by (auto simp: entry_ok_def)
  let ?bs1 = "remove_block ?bs k"
  have ms: "mset ?bs = add_mset b (mset ?bs1)" using mset_remove_nth [OF k(2)] k(3) by (simp add: remove_block_def)
  have bs1: "blocks_ok ?bs1" "\<forall>b \<in> set ?bs1. FILL_FILE_IDENTIFIER b = FILL_FILE_IDENTIFIER x" "length ?bs = Suc (length ?bs1)"
  proof -
    have "?bs = take k ?bs @ b # drop (Suc k) ?bs" using id_take_nth_drop [OF k(2)] k(3) by simp
    then show "blocks_ok ?bs1" using blocks_ok_remove ok unfolding entry_ok_def remove_block_def by metis
    show "\<forall>b \<in> set ?bs1. FILL_FILE_IDENTIFIER b = FILL_FILE_IDENTIFIER x"
      using ok e(3) by (auto simp: entry_ok_def remove_block_def dest: in_set_takeD in_set_dropD)
    show "length ?bs = Suc (length ?bs1)" using ms by (metis size_add_mset size_mset)
  qed
  show ?thesis
  proof (cases "?bs1 = []")
    case False
    let ?arr1 = "(block_array e)\<lparr>ba_blocks := ?bs1\<rparr>"
    obtain r arr2 where r: "block_array_shrink ?arr1 mem = (r, arr2)" by fastforce
    have "int (length ?bs) \<le> ba_alloc (block_array e)" using ok by (simp add: entry_ok_def)
    then have "int (length ?bs1) \<le> ba_alloc (block_array e)" using bs1(3) by linarith
    then have arr2: "ba_blocks arr2 = ?bs1" "int (length ?bs1) \<le> ba_alloc arr2" "mem \<longrightarrow> r = 0"
      using r by (auto simp: block_array_shrink_def trunk_free_block_realloc_def split: if_splits)
    have "trunk_free_block_delete t mem x = Some (avl_tree_write t ?tg (\<lambda>e. e\<lparr>block_array := arr2\<rparr>), r)"
      using find k(1) False r by (simp add: trunk_free_block_delete_def Let_def)
    with write_array_spec [OF assms(1,2) e(1,3), of arr2] bs1(1,2) arr2 ms show ?thesis by auto
  next
    case True
    have inv: "compare_func t = storage_trunk_node_compare_entry" "avl_inv entry_key entry_ok (root t)"
      using assms(1) by (simp_all add: checker_inv_def)
    obtain l r where lr: "inorder (root t) = l @ e # r" "\<forall>e' \<in> set (l @ r). trunk_file_id e' \<noteq> FILL_FILE_IDENTIFIER x"
      using checker_split [OF assms(1,2) e(1,3)] by metis
    have key: "entry_key e = entry_key ?tg" using entry_key_eq [OF ok assms(2)] e(3) by simp
    have srt: "sorted_key entry_key (l @ e # r)" using inv(2) lr(1) by (simp add: avl_inv_def)
    then have "del_key entry_key (entry_key ?tg) l = l" "del_key entry_key (entry_key ?tg) r = r"
      using key by (auto intro!: del_key_absent)
    then have "del_key entry_key (entry_key ?tg) (l @ e # r) = l @ r" using key by simp
    moreover obtain t1 where t1: "avl_tree_delete t ?tg =
        Some (t\<lparr>root := t1\<rparr>, snd (delete_result entry_key (free_data_func t) ?tg (inorder (root t))))"
      "avl_inv entry_key entry_ok t1" "inorder t1 = fst (delete_result entry_key (free_data_func t) ?tg (inorder (root t)))"
      using by_id.tree_delete_spec [OF inv empty_entry_ok [OF assms(2)]] by blast
    ultimately have "inorder t1 = l @ r" and res: "fst (snd (delete_result entry_key (free_data_func t) ?tg (inorder (root t)))) = 1"
      using lr(1) key by (auto simp: delete_result_def)
    have "trunk_free_block_delete t mem x = Some (t\<lparr>root := t1\<rparr>, 0)"
      using find k(1) True t1(1) res by (simp add: trunk_free_block_delete_def Let_def split_beta)
    moreover have "checker_inv (t\<lparr>root := t1\<rparr>)" using t1(2) inv(1) by (simp add: checker_inv_def)
    moreover have "mset (checker_blocks t) = add_mset b (mset (checker_blocks (t\<lparr>root := t1\<rparr>)))"
      using ms True \<open>inorder t1 = l @ r\<close> lr(1) by (simp add: checker_blocks_def)
    ultimately show ?thesis by auto
  qed
qed

section \<open>The contract of the register\<close>

text \<open>
  What the allocator relies on: a set of blocks that never overlap, a test for overlap, and insertion
  and deletion of one block. The environment of an insertion says which allocations succeed.
\<close>

locale block_register =
  fixes inv :: "'s \<Rightarrow> bool" and blocks :: "'s \<Rightarrow> FDFSTrunkFullInfo list"
    and check :: "'s \<Rightarrow> FDFSTrunkFullInfo \<Rightarrow> int"
    and ins :: "'s \<Rightarrow> 'e \<Rightarrow> FDFSTrunkFullInfo \<Rightarrow> ('s \<times> int) option"
    and del :: "'s \<Rightarrow> bool \<Rightarrow> FDFSTrunkFullInfo \<Rightarrow> ('s \<times> int) option"
    and granted :: "'e \<Rightarrow> bool"
  assumes blocks_ok: "\<lbrakk>inv s; b \<in> set (blocks s)\<rbrakk> \<Longrightarrow> block_ok b"
    and check_spec: "\<lbrakk>inv s; block_ok x\<rbrakk> \<Longrightarrow> check s x = (if \<exists>b \<in> set (blocks s). overlap x b then EEXIST else 0)"
    and ins_spec: "\<lbrakk>inv s; block_ok x; \<forall>b \<in> set (blocks s). \<not> overlap x b\<rbrakk> \<Longrightarrow>
      \<exists>s' r. ins s env x = Some (s', r) \<and> inv s' \<and> (granted env \<longrightarrow> r = 0) \<and>
        mset (blocks s') = (if r = 0 then add_mset x (mset (blocks s)) else mset (blocks s))"
    and del_spec: "\<lbrakk>inv s; x \<in> set (blocks s)\<rbrakk> \<Longrightarrow>
      \<exists>s' r. del s mem x = Some (s', r) \<and> inv s' \<and> mset (blocks s) = add_mset x (mset (blocks s'))"
    and no_overlap: "inv s \<Longrightarrow> pairwise (\<lambda>a b. \<not> overlap a b) (set (blocks s)) \<and> distinct (blocks s)"
begin

text \<open>A checked insertion: the register decides, and what it holds stays free of overlap.\<close>

lemma checked_insert:
  assumes "inv s" and "block_ok x" and "check s x = 0" and "granted env"
  shows "\<exists>s'. ins s env x = Some (s', 0) \<and> inv s' \<and> mset (blocks s') = add_mset x (mset (blocks s))"
proof -
  have "\<forall>b \<in> set (blocks s). \<not> overlap x b" using check_spec [OF assms(1,2)] assms(3) by (auto split: if_splits)
  from ins_spec [OF assms(1,2) this, of env] assms(4) show ?thesis by auto
qed

text \<open>Every byte of a trunk file belongs to at most one block of the register.\<close>

lemma byte_owner_unique:
  assumes "inv s" and "a \<in> set (blocks s)" and "b \<in> set (blocks s)"
    and "FILL_FILE_IDENTIFIER a = FILL_FILE_IDENTIFIER b"
    and "offset a \<le> p" "p < bend a" "offset b \<le> p" "p < bend b"
  shows "a = b"
  using no_overlap [OF assms(1)] assms unfolding pairwise_def overlap_def by force

text \<open>Deleting a block and inserting it again gives the same blocks.\<close>

lemma delete_insert:
  assumes "inv s" and "x \<in> set (blocks s)" and "granted env"
  shows "\<exists>s1 r s2. del s mem x = Some (s1, r) \<and> ins s1 env x = Some (s2, 0) \<and> mset (blocks s2) = mset (blocks s)"
proof -
  obtain s1 r where s1: "del s mem x = Some (s1, r)" "inv s1" "mset (blocks s) = add_mset x (mset (blocks s1))"
    using del_spec [OF assms(1,2)] by blast
  have "distinct (x # blocks s1)" using no_overlap [OF assms(1)] s1(3)
    by (metis mset.simps(2) mset_eq_imp_distinct_iff)
  moreover have "set (blocks s) = insert x (set (blocks s1))" using s1(3) by (metis set_mset_add_mset_insert set_mset_mset)
  ultimately have "\<forall>b \<in> set (blocks s1). \<not> overlap x b"
    using no_overlap [OF assms(1)] unfolding pairwise_def by (metis distinct.simps(2) insertCI)
  from ins_spec [OF s1(2) blocks_ok [OF assms(1,2)] this, of env] assms(3) s1 show ?thesis by auto
qed

end

lemma blocks_ok_no_overlap:
  assumes "blocks_ok bs"
  shows "distinct bs" and "pairwise (\<lambda>a b. \<not> overlap a b) (set bs)"
proof -
  show "distinct bs" using sorted_key_distinct [OF blocks_ok_sorted [OF assms]] by (simp add: distinct_map)
  show "pairwise (\<lambda>a b. \<not> overlap a b) (set bs)"
  proof (rule pairwiseI)
    fix a b assume "a \<in> set bs" "b \<in> set bs" "a \<noteq> b"
    then obtain i j where "i < length bs" "j < length bs" "a = bs ! i" "b = bs ! j" "i < j \<or> j < i"
      by (metis in_set_conv_nth nat_neq_iff)
    then show "\<not> overlap a b"
      using blocks_ok_nth(1) [OF assms, of i j] blocks_ok_nth(1) [OF assms, of j i] by (auto simp: overlap_def)
  qed
qed

lemma entries_no_overlap:
  assumes "\<forall>e \<in> set es. entry_ok e" and "distinct (map trunk_file_id es)"
  shows "distinct (concat (map (\<lambda>e. ba_blocks (block_array e)) es)) \<and>
    pairwise (\<lambda>a b. \<not> overlap a b) (set (concat (map (\<lambda>e. ba_blocks (block_array e)) es)))"
  using assms
proof (induction es)
  case (Cons e es)
  let ?B = "concat (map (\<lambda>e. ba_blocks (block_array e)) es)"
  have ids: "FILL_FILE_IDENTIFIER b = trunk_file_id e" if "b \<in> set (ba_blocks (block_array e))" for b
    using Cons.prems(1) that by (simp add: entry_ok_def)
  have ids': "FILL_FILE_IDENTIFIER b \<noteq> trunk_file_id e" if b: "b \<in> set ?B" for b
  proof -
    obtain e' where "e' \<in> set es" "b \<in> set (ba_blocks (block_array e'))" using b by auto
    then have "FILL_FILE_IDENTIFIER b = trunk_file_id e'" using Cons.prems(1) by (simp add: entry_ok_def)
    then show ?thesis using Cons.prems(2) \<open>e' \<in> set es\<close> by (metis distinct.simps(2) image_eqI list.set_map list.simps(9))
  qed
  have ok: "blocks_ok (ba_blocks (block_array e))" using Cons.prems(1) by (simp add: entry_ok_def)
  have sep: "\<not> overlap a b \<and> \<not> overlap b a" if "a \<in> set (ba_blocks (block_array e))" "b \<in> set ?B" for a b
    using ids [OF that(1)] ids' [OF that(2)] by (auto simp: overlap_def)
  have "set (ba_blocks (block_array e)) \<inter> set ?B = {}" using ids ids' by fastforce
  moreover from Cons have ih: "distinct ?B" "pairwise (\<lambda>a b. \<not> overlap a b) (set ?B)" by simp_all
  moreover have "pairwise (\<lambda>a b. \<not> overlap a b) (set (ba_blocks (block_array e)) \<union> set ?B)"
  proof (rule pairwiseI)
    fix a b assume ab: "a \<in> set (ba_blocks (block_array e)) \<union> set ?B" "b \<in> set (ba_blocks (block_array e)) \<union> set ?B" "a \<noteq> b"
    then show "\<not> overlap a b"
      using pairwiseD [OF blocks_ok_no_overlap(2) [OF ok], of a b] pairwiseD [OF ih(2), of a b] sep [of a b] sep [of b a] by blast
  qed
  ultimately show ?case using blocks_ok_no_overlap(1) [OF ok] by simp
qed simp

lemma checker_no_overlap:
  assumes "checker_inv t"
  shows "pairwise (\<lambda>a b. \<not> overlap a b) (set (checker_blocks t)) \<and> distinct (checker_blocks t)"
proof -
  have "distinct (map ident_bytes (map trunk_file_id (inorder (root t))))"
    using assms sorted_key_distinct [of entry_key "inorder (root t)"]
    by (simp add: checker_inv_def avl_inv_def comp_def entry_key_def [abs_def])
  then have "distinct (map trunk_file_id (inorder (root t)))" by (simp only: distinct_map)
  then show ?thesis using entries_no_overlap checker_entries_ok [OF assms] unfolding checker_blocks_def by blast
qed

interpretation checker: block_register checker_inv checker_blocks trunk_free_block_check_duplicate
  trunk_free_block_insert trunk_free_block_delete "\<lambda>env. id_malloc env \<and> id_tree_mem env \<and> id_realloc env"
proof
  fix t x b mem env
  assume inv: "checker_inv t"
  show "block_ok b" if "b \<in> set (checker_blocks t)" using checker_block_entry [OF inv that] by metis
  show "trunk_free_block_check_duplicate t x = (if \<exists>b \<in> set (checker_blocks t). overlap x b then EEXIST else 0)"
    if "block_ok x" using check_duplicate_spec [OF inv that] .
  show "\<exists>s' r. trunk_free_block_insert t env x = Some (s', r) \<and> checker_inv s' \<and>
      (id_malloc env \<and> id_tree_mem env \<and> id_realloc env \<longrightarrow> r = 0) \<and>
      mset (checker_blocks s') = (if r = 0 then add_mset x (mset (checker_blocks t)) else mset (checker_blocks t))"
    if "block_ok x" "\<forall>b \<in> set (checker_blocks t). \<not> overlap x b" using checker_insert_spec [OF inv that] .
  show "\<exists>s' r. trunk_free_block_delete t mem x = Some (s', r) \<and> checker_inv s' \<and>
      mset (checker_blocks t) = add_mset x (mset (checker_blocks s'))" if "x \<in> set (checker_blocks t)"
    using checker_delete_spec [OF inv _ that refl refl] checker_block_entry [OF inv that] by metis
  show "pairwise (\<lambda>a b. \<not> overlap a b) (set (checker_blocks t)) \<and> distinct (checker_blocks t)"
    by (rule checker_no_overlap [OF inv])
qed

lemma total_count_spec: "trunk_free_block_total_count t = int (length (checker_blocks t))"
proof -
  have "walk_list block_tree_count_walk_callback es n =
      (n + int (length (concat (map (\<lambda>e. ba_blocks (block_array e)) es))), 0)" for es n
    by (induction es arbitrary: n) (simp_all add: block_tree_count_walk_callback_def)
  then show ?thesis
    by (simp add: trunk_free_block_total_count_def avl_tree_walk_def walk_loop_inorder checker_blocks_def)
qed

section \<open>Properties\<close>

definition sample_block :: "int \<Rightarrow> int \<Rightarrow> FDFSTrunkFullInfo" where
  "sample_block off n = \<lparr>status = 0, path = \<lparr>store_path_index = 0, sub_path_high = 1, sub_path_low = 2\<rparr>,
     tfile = \<lparr>trunk_id = 7, trunk_offset = off, trunk_size = n\<rparr>\<rparr>"

definition sample_checker :: checker where
  "sample_checker = \<lparr>root = AVLNode NULL \<lparr>trunk_file_id = FILL_FILE_IDENTIFIER (sample_block 0 1),
       block_array = \<lparr>ba_alloc = 32, ba_blocks = [sample_block 0 100, sample_block 300 50]\<rparr>\<rparr> 0 NULL,
     free_data_func = True, compare_func = storage_trunk_node_compare_entry\<rparr>"

lemma sample_block_ok: "\<lbrakk>0 \<le> off; 0 < n; off + n < 2 ^ 31\<rbrakk> \<Longrightarrow> block_ok (sample_block off n)"
  by (simp add: block_ok_def bend_def sample_block_def int_range_def)

lemma sample_checker_inv: "checker_inv sample_checker"
  by (simp add: checker_inv_def sample_checker_def avl_inv_def entry_ok_def blocks_ok_def block_ok_def bend_def
      sample_block_def int_range_def FILL_FILE_IDENTIFIER_def)

text \<open>C30. The binary search over the blocks of a trunk file decides overlap exactly: a block is reported
  as a duplicate if and only if it shares a byte with a registered block of the same trunk file.\<close>

theorem check_duplicate_exact:
  assumes "checker_inv t" and "block_ok x"
  shows "trunk_free_block_check_duplicate t x =
    (if \<exists>b \<in> set (checker_blocks t). \<exists>p. FILL_FILE_IDENTIFIER x = FILL_FILE_IDENTIFIER b \<and>
          p \<in> {offset x ..< bend x} \<inter> {offset b ..< bend b} then EEXIST else 0)"
proof -
  have "overlap x b \<longleftrightarrow> (\<exists>p. FILL_FILE_IDENTIFIER x = FILL_FILE_IDENTIFIER b \<and>
      p \<in> {offset x ..< bend x} \<inter> {offset b ..< bend b})" if "b \<in> set (checker_blocks t)" for b
  proof -
    have "offset x < bend x" "offset b < bend b"
      using assms(2) checker.blocks_ok [OF assms(1) that] by (simp_all add: block_ok_def bend_def)
    then show ?thesis unfolding overlap_def
      by (auto intro: exI [of _ "max (offset x) (offset b)"])
  qed
  then show ?thesis using checker.check_spec [OF assms] by auto
qed

theorem check_duplicate_exact_witness:
  "trunk_free_block_check_duplicate sample_checker (sample_block 100 200) = 0 \<and>
   trunk_free_block_check_duplicate sample_checker (sample_block 100 201) = 17"
proof -
  have "block_ok (sample_block 100 200)" "block_ok (sample_block 100 201)" by (simp_all add: sample_block_ok)
  from check_duplicate_exact [OF sample_checker_inv this(1)] check_duplicate_exact [OF sample_checker_inv this(2)]
  show ?thesis
    by (auto simp: sample_checker_def checker_blocks_def sample_block_def bend_def FILL_FILE_IDENTIFIER_def
        intro: exI [of _ "300 :: int"])
qed

text \<open>C31. The register stays well formed under insertion and deletion, whatever allocations fail. An
  insertion of a block that overlaps nothing adds exactly that block, or nothing when it reports an error;
  with all allocations granted it succeeds. Deletion removes exactly the block, and removing and
  inserting a block again restores the contents.\<close>

theorem register_updates_correct:
  assumes "checker_inv t" and "block_ok x" and "\<forall>b \<in> set (checker_blocks t). \<not> overlap x b" and "y \<in> set (checker_blocks t)"
  shows "(\<exists>t' r. trunk_free_block_insert t env x = Some (t', r) \<and> checker_inv t' \<and>
      (id_malloc env \<and> id_tree_mem env \<and> id_realloc env \<longrightarrow> r = 0) \<and>
      mset (checker_blocks t') = (if r = 0 then add_mset x (mset (checker_blocks t)) else mset (checker_blocks t))) \<and>
    (\<exists>t' r. trunk_free_block_delete t mem y = Some (t', r) \<and> checker_inv t' \<and>
      mset (checker_blocks t) = add_mset y (mset (checker_blocks t')))"
  using checker.ins_spec [OF assms(1-3)] checker.del_spec [OF assms(1,4)] by blast

definition sample_env :: checker_env where
  "sample_env = \<lparr>id_malloc = True, id_tree_mem = True, id_realloc = True\<rparr>"

theorem register_updates_correct_witness:
  "(\<exists>t'. trunk_free_block_insert sample_checker sample_env (sample_block 200 10) = Some (t', 0) \<and> checker_inv t') \<and>
   (\<exists>t' r. trunk_free_block_delete sample_checker True (sample_block 300 50) = Some (t', r) \<and>
      mset (checker_blocks t') = {#sample_block 0 100#})"
proof -
  have no: "\<forall>b \<in> set (checker_blocks sample_checker). \<not> overlap (sample_block 200 10) b"
    by (simp add: sample_checker_def checker_blocks_def sample_block_def bend_def overlap_def)
  have mem: "sample_block 300 50 \<in> set (checker_blocks sample_checker)"
    by (simp add: sample_checker_def checker_blocks_def)
  have ms: "mset (checker_blocks sample_checker) = {#sample_block 300 50, sample_block 0 100#}"
    by (simp add: sample_checker_def checker_blocks_def add_mset_commute)
  have ok: "block_ok (sample_block 200 10)" by (simp add: sample_block_ok)
  show ?thesis
    using register_updates_correct [OF sample_checker_inv ok no mem, of sample_env True] unfolding ms
    by (auto simp: sample_env_def)
qed

text \<open>No byte of a trunk file is handed out twice: two registered blocks of one trunk file that
  share a byte are the same block. The number of blocks the register reports is the number it holds.\<close>

theorem register_disjoint:
  assumes "checker_inv t" and "a \<in> set (checker_blocks t)" and "b \<in> set (checker_blocks t)"
    and "FILL_FILE_IDENTIFIER a = FILL_FILE_IDENTIFIER b"
    and "p \<in> {offset a ..< bend a} \<inter> {offset b ..< bend b}"
  shows "a = b \<and> trunk_free_block_total_count t = int (length (checker_blocks t))"
proof
  show "a = b" using checker.byte_owner_unique [OF assms(1-4), of p] assms(5) by auto
  show "trunk_free_block_total_count t = int (length (checker_blocks t))" by (rule total_count_spec)
qed

theorem register_disjoint_witness:
  "trunk_free_block_total_count sample_checker = 2"
  using register_disjoint [OF sample_checker_inv, of "sample_block 0 100" "sample_block 0 100" 5]
  by (simp add: sample_checker_def checker_blocks_def bend_def sample_block_def)

end
