(* ===== verification/Hash_Funcs.thy ===== *)
theory Hash_Funcs
  imports FDFS_Prelude
begin

text \<open>
  The hash functions of \<open>common/hash.c\<close>. A C \<open>int\<close> is a 32-bit word: \<open>+\<close>, \<open>*\<close> and \<open><<\<close> wrap,
  and \<open>>>\<close> on an \<open>int\<close> is the arithmetic shift \<open>signed_drop_bit\<close>. Each function is a fold of one step
  over the bytes of the key; the \<open>_ex\<close> variants start from a given value.
\<close>

unbundle bit_operations_syntax

type_synonym cint = "32 word"

definition chr :: "byte \<Rightarrow> cint" where
  "chr c = ucast c"

section \<open>The functions\<close>

definition RSHash :: "byte list \<Rightarrow> cint" where
  "RSHash k = fst (foldl (\<lambda>(h, a) c. (h * a + chr c, a * 378551)) (0, 63689) k)"

definition JSHash_ex :: "byte list \<Rightarrow> cint \<Rightarrow> cint" where
  "JSHash_ex k init_value = foldl (\<lambda>h c. h XOR (push_bit 5 h + chr c + signed_drop_bit 2 h)) init_value k"

definition JSHash :: "byte list \<Rightarrow> cint" where
  "JSHash k = JSHash_ex k 1315423911"

abbreviation (input) HASH_HIGH_BITS :: cint where "HASH_HIGH_BITS \<equiv> 0xf0000000"

definition pjw_step :: "cint \<Rightarrow> byte \<Rightarrow> cint" where
  "pjw_step h c =
     (let h1 = push_bit 4 h + chr c; test = h1 AND HASH_HIGH_BITS in
      if test \<noteq> 0 then (h1 XOR signed_drop_bit 24 test) AND NOT HASH_HIGH_BITS else h1)"

definition PJWHash_ex :: "byte list \<Rightarrow> cint \<Rightarrow> cint" where
  "PJWHash_ex k init_value = foldl pjw_step init_value k"

definition PJWHash :: "byte list \<Rightarrow> cint" where
  "PJWHash k = PJWHash_ex k 0"

definition elf_step :: "cint \<Rightarrow> byte \<Rightarrow> cint" where
  "elf_step h c =
     (let h1 = push_bit 4 h + chr c; x = h1 AND 0xf0000000 in
      if x \<noteq> 0 then (h1 XOR signed_drop_bit 24 x) AND NOT x else h1)"

definition ELFHash_ex :: "byte list \<Rightarrow> cint \<Rightarrow> cint" where
  "ELFHash_ex k init_value = foldl elf_step init_value k"

definition ELFHash :: "byte list \<Rightarrow> cint" where
  "ELFHash k = ELFHash_ex k 0"

definition BKDRHash_ex :: "byte list \<Rightarrow> cint \<Rightarrow> cint" where
  "BKDRHash_ex k init_value = foldl (\<lambda>h c. h * 131 + chr c) init_value k"

definition BKDRHash :: "byte list \<Rightarrow> cint" where
  "BKDRHash k = BKDRHash_ex k 0"

definition SDBMHash_ex :: "byte list \<Rightarrow> cint \<Rightarrow> cint" where
  "SDBMHash_ex k init_value = foldl (\<lambda>h c. chr c + push_bit 6 h + push_bit 16 h - h) init_value k"

definition SDBMHash :: "byte list \<Rightarrow> cint" where
  "SDBMHash k = SDBMHash_ex k 0"

definition Time33Hash_ex :: "byte list \<Rightarrow> cint \<Rightarrow> cint" where
  "Time33Hash_ex k init_value = foldl (\<lambda>h c. h + (push_bit 5 h + chr c)) init_value k"

definition Time33Hash :: "byte list \<Rightarrow> cint" where
  "Time33Hash k = Time33Hash_ex k 0"

definition DJBHash_ex :: "byte list \<Rightarrow> cint \<Rightarrow> cint" where
  "DJBHash_ex k init_value = foldl (\<lambda>h c. h + (push_bit 5 h + chr c)) init_value k"

definition DJBHash :: "byte list \<Rightarrow> cint" where
  "DJBHash k = DJBHash_ex k 5381"

definition ap_step :: "cint \<times> bool \<Rightarrow> byte \<Rightarrow> cint \<times> bool" where
  "ap_step s c =
     (case s of (h, i_even) \<Rightarrow>
        (if i_even then h XOR (push_bit 7 h XOR chr c XOR signed_drop_bit 3 h)
         else h XOR NOT (push_bit 11 h XOR chr c XOR signed_drop_bit 5 h), \<not> i_even))"

definition APHash_ex :: "byte list \<Rightarrow> cint \<Rightarrow> cint" where
  "APHash_ex k init_value = fst (foldl ap_step (init_value, True) k)"

definition APHash :: "byte list \<Rightarrow> cint" where
  "APHash k = APHash_ex k 0"

definition calc_hashnr :: "byte list \<Rightarrow> cint" where
  "calc_hashnr k = fst (foldl (\<lambda>(nr, nr2) c. (nr XOR (((nr AND 63) + nr2) * chr c + push_bit 8 nr), nr2 + 3)) (1, 4) k)"

definition calc_hashnr1_ex :: "byte list \<Rightarrow> cint \<Rightarrow> cint" where
  "calc_hashnr1_ex k init_value = foldl (\<lambda>h c. (h * 16777619) XOR chr c) init_value k"

definition calc_hashnr1 :: "byte list \<Rightarrow> cint" where
  "calc_hashnr1 k = calc_hashnr1_ex k 0"

definition simple_hash_ex :: "byte list \<Rightarrow> cint \<Rightarrow> cint" where
  "simple_hash_ex k init_value = foldl (\<lambda>h c. 31 * h + chr c) init_value k"

definition simple_hash :: "byte list \<Rightarrow> cint" where
  "simple_hash k = simple_hash_ex k 0"

section \<open>CRC\<close>

definition crc_table :: "cint list" where
  "crc_table =
    [
     0x00000000, 0x77073096, 0xee0e612c, 0x990951ba, 0x076dc419, 0x706af48f,
     0xe963a535, 0x9e6495a3, 0x0edb8832, 0x79dcb8a4, 0xe0d5e91e, 0x97d2d988,
     0x09b64c2b, 0x7eb17cbd, 0xe7b82d07, 0x90bf1d91, 0x1db71064, 0x6ab020f2,
     0xf3b97148, 0x84be41de, 0x1adad47d, 0x6ddde4eb, 0xf4d4b551, 0x83d385c7,
     0x136c9856, 0x646ba8c0, 0xfd62f97a, 0x8a65c9ec, 0x14015c4f, 0x63066cd9,
     0xfa0f3d63, 0x8d080df5, 0x3b6e20c8, 0x4c69105e, 0xd56041e4, 0xa2677172,
     0x3c03e4d1, 0x4b04d447, 0xd20d85fd, 0xa50ab56b, 0x35b5a8fa, 0x42b2986c,
     0xdbbbc9d6, 0xacbcf940, 0x32d86ce3, 0x45df5c75, 0xdcd60dcf, 0xabd13d59,
     0x26d930ac, 0x51de003a, 0xc8d75180, 0xbfd06116, 0x21b4f4b5, 0x56b3c423,
     0xcfba9599, 0xb8bda50f, 0x2802b89e, 0x5f058808, 0xc60cd9b2, 0xb10be924,
     0x2f6f7c87, 0x58684c11, 0xc1611dab, 0xb6662d3d, 0x76dc4190, 0x01db7106,
     0x98d220bc, 0xefd5102a, 0x71b18589, 0x06b6b51f, 0x9fbfe4a5, 0xe8b8d433,
     0x7807c9a2, 0x0f00f934, 0x9609a88e, 0xe10e9818, 0x7f6a0dbb, 0x086d3d2d,
     0x91646c97, 0xe6635c01, 0x6b6b51f4, 0x1c6c6162, 0x856530d8, 0xf262004e,
     0x6c0695ed, 0x1b01a57b, 0x8208f4c1, 0xf50fc457, 0x65b0d9c6, 0x12b7e950,
     0x8bbeb8ea, 0xfcb9887c, 0x62dd1ddf, 0x15da2d49, 0x8cd37cf3, 0xfbd44c65,
     0x4db26158, 0x3ab551ce, 0xa3bc0074, 0xd4bb30e2, 0x4adfa541, 0x3dd895d7,
     0xa4d1c46d, 0xd3d6f4fb, 0x4369e96a, 0x346ed9fc, 0xad678846, 0xda60b8d0,
     0x44042d73, 0x33031de5, 0xaa0a4c5f, 0xdd0d7cc9, 0x5005713c, 0x270241aa,
     0xbe0b1010, 0xc90c2086, 0x5768b525, 0x206f85b3, 0xb966d409, 0xce61e49f,
     0x5edef90e, 0x29d9c998, 0xb0d09822, 0xc7d7a8b4, 0x59b33d17, 0x2eb40d81,
     0xb7bd5c3b, 0xc0ba6cad, 0xedb88320, 0x9abfb3b6, 0x03b6e20c, 0x74b1d29a,
     0xead54739, 0x9dd277af, 0x04db2615, 0x73dc1683, 0xe3630b12, 0x94643b84,
     0x0d6d6a3e, 0x7a6a5aa8, 0xe40ecf0b, 0x9309ff9d, 0x0a00ae27, 0x7d079eb1,
     0xf00f9344, 0x8708a3d2, 0x1e01f268, 0x6906c2fe, 0xf762575d, 0x806567cb,
     0x196c3671, 0x6e6b06e7, 0xfed41b76, 0x89d32be0, 0x10da7a5a, 0x67dd4acc,
     0xf9b9df6f, 0x8ebeeff9, 0x17b7be43, 0x60b08ed5, 0xd6d6a3e8, 0xa1d1937e,
     0x38d8c2c4, 0x4fdff252, 0xd1bb67f1, 0xa6bc5767, 0x3fb506dd, 0x48b2364b,
     0xd80d2bda, 0xaf0a1b4c, 0x36034af6, 0x41047a60, 0xdf60efc3, 0xa867df55,
     0x316e8eef, 0x4669be79, 0xcb61b38c, 0xbc66831a, 0x256fd2a0, 0x5268e236,
     0xcc0c7795, 0xbb0b4703, 0x220216b9, 0x5505262f, 0xc5ba3bbe, 0xb2bd0b28,
     0x2bb45a92, 0x5cb36a04, 0xc2d7ffa7, 0xb5d0cf31, 0x2cd99e8b, 0x5bdeae1d,
     0x9b64c2b0, 0xec63f226, 0x756aa39c, 0x026d930a, 0x9c0906a9, 0xeb0e363f,
     0x72076785, 0x05005713, 0x95bf4a82, 0xe2b87a14, 0x7bb12bae, 0x0cb61b38,
     0x92d28e9b, 0xe5d5be0d, 0x7cdcefb7, 0x0bdbdf21, 0x86d3d2d4, 0xf1d4e242,
     0x68ddb3f8, 0x1fda836e, 0x81be16cd, 0xf6b9265b, 0x6fb077e1, 0x18b74777,
     0x88085ae6, 0xff0f6a70, 0x66063bca, 0x11010b5c, 0x8f659eff, 0xf862ae69,
     0x616bffd3, 0x166ccf45, 0xa00ae278, 0xd70dd2ee, 0x4e048354, 0x3903b3c2,
     0xa7672661, 0xd06016f7, 0x4969474d, 0x3e6e77db, 0xaed16a4a, 0xd9d65adc,
     0x40df0b66, 0x37d83bf0, 0xa9bcae53, 0xdebb9ec5, 0x47b2cf7f, 0x30b5ffe9,
     0xbdbdf21c, 0xcabac28a, 0x53b39330, 0x24b4a3a6, 0xbad03605, 0xcdd70693,
     0x54de5729, 0x23d967bf, 0xb3667a2e, 0xc4614ab8, 0x5d681b02, 0x2a6f2b94,
     0xb40bbe37, 0xc30c8ea1, 0x5a05df1b, 0x2d02ef8d
    ]"

definition crc_step :: "cint \<Rightarrow> byte \<Rightarrow> cint" where
  "crc_step crc c = (crc_table ! unat ((crc XOR chr c) AND 255)) XOR signed_drop_bit 8 crc"

definition CRC32_ex :: "byte list \<Rightarrow> cint \<Rightarrow> cint" where
  "CRC32_ex k init_value = foldl crc_step init_value k"

definition CRC32 :: "byte list \<Rightarrow> cint" where
  "CRC32 k = CRC32_ex k 0xffffffff XOR 0xffffffff"

section \<open>Facts\<close>

text \<open>One division step of the CRC-32 polynomial, bit by bit, and the table entry it gives.\<close>

definition crc_bit :: "int \<Rightarrow> int" where
  "crc_bit r = (if odd r then (r div 2) XOR 0xedb88320 else r div 2)"

definition crc_entry :: "int \<Rightarrow> int" where
  "crc_entry i = crc_bit (crc_bit (crc_bit (crc_bit (crc_bit (crc_bit (crc_bit (crc_bit i)))))))"

text \<open>CRC-32 as the standard defines it: the register is unsigned, so it is shifted logically.\<close>

definition std_crc32 :: "byte list \<Rightarrow> cint" where
  "std_crc32 k = foldl (\<lambda>crc c. (crc_table ! unat ((crc XOR chr c) AND 255)) XOR drop_bit 8 crc) 0xffffffff k XOR 0xffffffff"

lemma pjw_step_range:
  assumes "uint h < 2 ^ 28"
  shows "uint (pjw_step h c) < 2 ^ 28"
proof -
  have mask: "uint (w AND NOT HASH_HIGH_BITS) < 2 ^ 28" for w :: cint
  proof -
    have "NOT HASH_HIGH_BITS = (mask 28 :: cint)" by (simp add: mask_eq_exp_minus_1)
    then have "w AND NOT HASH_HIGH_BITS = take_bit 28 w" by (simp only: take_bit_eq_mask)
    then show ?thesis using take_bit_int_less_exp [of 28 "uint w"] by (simp add: unsigned_take_bit_eq)
  qed
  let ?h1 = "push_bit 4 h + chr c"
  show ?thesis
  proof (cases "?h1 AND HASH_HIGH_BITS = 0")
    case True
    have "?h1 = (?h1 AND HASH_HIGH_BITS) OR (?h1 AND NOT HASH_HIGH_BITS)"
      by (rule bit_word_eqI) (auto simp: bit_simps)
    with True have "?h1 = ?h1 AND NOT HASH_HIGH_BITS" by simp
    with True mask [of ?h1] show ?thesis by (simp add: pjw_step_def Let_def)
  next
    case False
    then show ?thesis using mask by (simp add: pjw_step_def Let_def)
  qed
qed

lemma PJWHash_range: "uint (PJWHash k) < 2 ^ 28"
proof -
  have "uint h < 2 ^ 28 \<Longrightarrow> uint (foldl pjw_step h k) < 2 ^ 28" for h
    by (induction k arbitrary: h) (use pjw_step_range in \<open>simp_all del: One_nat_def\<close>)
  from this [of 0] show ?thesis by (simp add: PJWHash_def PJWHash_ex_def)
qed

lemma PJWHash_sint: "sint (PJWHash k) = uint (PJWHash k)"
proof -
  have "uint (PJWHash k) < 2 ^ 31" using PJWHash_range [of k] by simp
  moreover have "- (2 ^ 31) \<le> uint (PJWHash k)" by (rule order_trans [OF _ uint_ge_0]) simp
  ultimately have "signed_take_bit 31 (uint (PJWHash k)) = uint (PJWHash k)"
    by (intro signed_take_bit_int_eq_self) simp_all
  then show ?thesis by (simp add: sint_uint)
qed

section \<open>Properties\<close>

text \<open>The hash functions that take an initial value hash a key in pieces: hashing the second part
  with the hash of the first as initial value gives the hash of the whole, so a file can be hashed
  block by block; \<open>Time33Hash_ex\<close> and \<open>DJBHash_ex\<close> are the same function. The value of \<open>PJWHash\<close>
  is never negative.\<close>

theorem hash_incremental:
  "JSHash_ex (k1 @ k2) v = JSHash_ex k2 (JSHash_ex k1 v) \<and> PJWHash_ex (k1 @ k2) v = PJWHash_ex k2 (PJWHash_ex k1 v) \<and>
   ELFHash_ex (k1 @ k2) v = ELFHash_ex k2 (ELFHash_ex k1 v) \<and> BKDRHash_ex (k1 @ k2) v = BKDRHash_ex k2 (BKDRHash_ex k1 v) \<and>
   SDBMHash_ex (k1 @ k2) v = SDBMHash_ex k2 (SDBMHash_ex k1 v) \<and> DJBHash_ex (k1 @ k2) v = DJBHash_ex k2 (DJBHash_ex k1 v) \<and>
   calc_hashnr1_ex (k1 @ k2) v = calc_hashnr1_ex k2 (calc_hashnr1_ex k1 v) \<and>
   simple_hash_ex (k1 @ k2) v = simple_hash_ex k2 (simple_hash_ex k1 v) \<and> CRC32_ex (k1 @ k2) v = CRC32_ex k2 (CRC32_ex k1 v) \<and>
   Time33Hash_ex k1 v = DJBHash_ex k1 v \<and> 0 \<le> sint (PJWHash k1)"
proof -
  have "0 \<le> sint (PJWHash k1)" by (simp add: PJWHash_sint)
  then show ?thesis
    by (simp add: JSHash_ex_def PJWHash_ex_def ELFHash_ex_def BKDRHash_ex_def SDBMHash_ex_def DJBHash_ex_def
        calc_hashnr1_ex_def simple_hash_ex_def CRC32_ex_def Time33Hash_ex_def)
qed

text \<open>The 256 constants of the CRC table are the remainders of the CRC-32 polynomial, but
  \<open>CRC32\<close> is not CRC-32: it shifts the signed register arithmetically, and on the check string
  \<open>123456789\<close> it returns another value than the standard one.\<close>

theorem crc_table_correct:
  "map uint crc_table = map crc_entry [0..255] \<and>
   std_crc32 [49, 50, 51, 52, 53, 54, 55, 56, 57] = 0xcbf43926 \<and>
   CRC32 [49, 50, 51, 52, 53, 54, 55, 56, 57] \<noteq> std_crc32 [49, 50, 51, 52, 53, 54, 55, 56, 57]"
  by (intro conjI; code_simp)

text \<open>\<open>PJWHash\<close> and \<open>ELFHash\<close>, which the comments call the same function, differ: on keys that fill
  the sign bit with the last byte the two clear different bits.\<close>

theorem pjw_elf_differ: "PJWHash [8, 0, 0, 0, 0, 0, 0, 0] \<noteq> ELFHash [8, 0, 0, 0, 0, 0, 0, 0]"
  by code_simp

end
