(* ===== verification/Dictionary.thy ===== *)
theory Dictionary
  imports Main
begin

text \<open>
  The contract of a table of keys and values whose insertions may be refused: what a lookup, an insertion, a
  deletion and the count promise in terms of the map the table stands for. A refused insertion
  leaves the key out of the table. \<open>room m\<close> says that the table can take \<open>m\<close> more insertions; \<open>w\<close> is what the environment
  decides of one insertion. The clients' lemmas are proved here once.
\<close>

datatype ('w, 'k, 'v) dict_op = Insert_op 'w 'k 'v | Delete_op 'k

text \<open>A sequence of operations on the table, with the codes they return, and the same sequence on the map.\<close>

fun dict_run ::
  "('w \<Rightarrow> 'h \<Rightarrow> 'k \<Rightarrow> 'v \<Rightarrow> ('h \<times> int) option) \<Rightarrow> ('h \<Rightarrow> 'k \<Rightarrow> ('h \<times> int) option) \<Rightarrow> 'h \<Rightarrow> ('w, 'k, 'v) dict_op list \<Rightarrow>
   ('h \<times> int list) option" where
  "dict_run ins del h [] = Some (h, [])"
| "dict_run ins del h (p # ps) =
     (case (case p of Insert_op w k v \<Rightarrow> ins w h k v | Delete_op k \<Rightarrow> del h k) of
        None \<Rightarrow> None
      | Some (h1, r) \<Rightarrow> map_option (\<lambda>(h2, rs). (h2, r # rs)) (dict_run ins del h1 ps))"

fun map_run :: "('k \<rightharpoonup> 'v) \<Rightarrow> ('w, 'k, 'v) dict_op list \<Rightarrow> int list \<Rightarrow> ('k \<rightharpoonup> 'v)" where
  "map_run m (Insert_op w k v # ps) (r # rs) = map_run (m(k := (if r \<ge> 0 then Some v else None))) ps rs"
| "map_run m (Delete_op k # ps) (r # rs) = map_run (m(k := None)) ps rs"
| "map_run m _ _ = m"

locale dictionary =
  fixes inv :: "'h \<Rightarrow> bool" and room :: "nat \<Rightarrow> 'h \<Rightarrow> bool" and abs :: "'h \<Rightarrow> 'k \<Rightarrow> 'v option"
    and find :: "'h \<Rightarrow> 'k \<Rightarrow> 'v option option"
    and ins :: "'w \<Rightarrow> 'h \<Rightarrow> 'k \<Rightarrow> 'v \<Rightarrow> ('h \<times> int) option"
    and del :: "'h \<Rightarrow> 'k \<Rightarrow> ('h \<times> int) option"
    and count :: "'h \<Rightarrow> int"
  assumes find_law: "inv h \<Longrightarrow> find h k = Some (abs h k)"
    and ins_law: "\<lbrakk>inv h; room (Suc m) h\<rbrakk> \<Longrightarrow> \<exists>h' r. ins w h k v = Some (h', r) \<and> inv h' \<and> room m h' \<and>
          abs h' = (abs h)(k := (if r \<ge> 0 then Some v else None))"
    and del_law: "\<lbrakk>inv h; room m h\<rbrakk> \<Longrightarrow> \<exists>h' r. del h k = Some (h', r) \<and> inv h' \<and> room m h' \<and> abs h' = (abs h)(k := None)"
    and room_law: "room (Suc m) h \<Longrightarrow> room m h"
    and count_law: "inv h \<Longrightarrow> finite (dom (abs h)) \<and> count h = int (card (dom (abs h)))"
begin

lemma step:
  assumes "inv h" and "room (Suc m) h"
  shows "\<exists>h' r. (case p of Insert_op w k v \<Rightarrow> ins w h k v | Delete_op k \<Rightarrow> del h k) = Some (h', r) \<and> inv h' \<and> room m h' \<and>
    abs h' = map_run (abs h) [p] [r]"
proof (cases p)
  case (Insert_op w k v)
  with ins_law [OF assms, of w k v] show ?thesis by auto
next
  case (Delete_op k)
  with del_law [OF assms(1) room_law [OF assms(2)], of k] show ?thesis by auto
qed

lemma map_run_Cons: "map_run m (p # ps) (r # rs) = map_run (map_run m [p] [r]) ps rs"
  by (cases p) simp_all

lemma run_refines:
  assumes "inv h" and "room (length ps) h"
  shows "\<exists>h' rs. dict_run ins del h ps = Some (h', rs) \<and> inv h' \<and> length rs = length ps \<and> abs h' = map_run (abs h) ps rs"
  using assms
proof (induction ps arbitrary: h)
  case Nil
  then show ?case by simp
next
  case (Cons p ps)
  have "room (Suc (length ps)) h" using Cons.prems(2) by simp
  from step [OF Cons.prems(1) this, of p] obtain h1 r where h1:
      "(case p of Insert_op w k v \<Rightarrow> ins w h k v | Delete_op k \<Rightarrow> del h k) = Some (h1, r)" "inv h1" "room (length ps) h1"
      "abs h1 = map_run (abs h) [p] [r]" by blast
  from Cons.IH [OF h1(2,3)] obtain h' rs where "dict_run ins del h1 ps = Some (h', rs)" "inv h'" "length rs = length ps"
      "abs h' = map_run (abs h1) ps rs" by blast
  with h1 show ?case using map_run_Cons [of "abs h" p ps r rs] by auto
qed

lemma find_after_run:
  assumes "inv h" and "room (length ps) h"
  shows "\<exists>h' rs. dict_run ins del h ps = Some (h', rs) \<and> length rs = length ps \<and>
    (\<forall>k. find h' k = Some (map_run (abs h) ps rs k)) \<and> count h' = int (card (dom (map_run (abs h) ps rs)))"
  using run_refines [OF assms] find_law count_law by metis

end

end
