(* ===== verification/Hash_Table.thy ===== *)
theory Hash_Table
  imports Complex_Main Hash_Funcs Dictionary "HOL-Library.Monad_Syntax"
begin

text \<open>
  The chained hash table of \<open>common/hash.c\<close>. A bucket is the list of its entries from the head on.
  A value is the pointer that was stored, or the bytes it points to when the table copies values
  (\<open>is_malloc_value\<close>). The capacity is a pointer: into the table of primes, or to a number of its own
  after \<open>hash_best_op\<close>. An operation returns \<open>None\<close> where the code reads behind the table of primes or
  through a null pointer. Sizes are those of a 64-bit machine. The load factor is a rational number and its
  comparison exact; outcomes of \<open>malloc\<close> are arguments.
\<close>

section \<open>State\<close>

definition prime_array :: "nat list" where
  "prime_array = [1, 3, 17, 37, 79, 163, 331, 673, 1361, 2729, 5471, 10949, 21911, 43853, 87719, 175447, 350899,
     701819, 1403641, 2807303, 5614657, 11229331, 22458671, 44917381, 89834777, 179669557, 359339171,
     718678369, 1437356741, 2147483647]"

record 'v HashData =
  hkey :: "byte list"
  value_len :: int
  malloc_value_size :: int
  hvalue :: 'v

datatype capacity = Prime nat | Malloced nat | NULL_capacity

record 'v HashArray =
  buckets :: "'v HashData list list"
  hash_func :: "byte list \<Rightarrow> cint"
  item_count :: int
  capacity :: capacity
  load_factor :: rat
  max_bytes :: int
  bytes_used :: int
  is_malloc_capacity :: bool
  is_malloc_value :: bool

definition cap_value :: "capacity \<Rightarrow> nat option" where
  "cap_value p = (case p of Prime i \<Rightarrow> if i < length prime_array then Some (prime_array ! i) else None | Malloced c \<Rightarrow> Some c | NULL_capacity \<Rightarrow> None)"

definition HASH_CODE :: "(byte list \<Rightarrow> cint) \<Rightarrow> byte list \<Rightarrow> nat" where
  "HASH_CODE f k = unat (f k)"

definition CALC_NODE_MALLOC_BYTES :: "byte list \<Rightarrow> int \<Rightarrow> int" where
  "CALC_NODE_MALLOC_BYTES k n = 32 + int (length k) + n"

abbreviation node_bytes :: "'v HashData \<Rightarrow> int" where
  "node_bytes d \<equiv> CALC_NODE_MALLOC_BYTES (hkey d) (malloc_value_size d)"

section \<open>Operations\<close>

definition hash_alloc_buckets :: "'v HashArray \<Rightarrow> bool \<Rightarrow> nat \<Rightarrow> ('v HashArray \<times> int) option" where
  "hash_alloc_buckets pHash mem old_capacity =
     do {
       c \<leftarrow> cap_value (capacity pHash);
       let bytes = 8 * int c;
       Some (if max_bytes pHash > 0 \<and> bytes_used pHash + bytes > max_bytes pHash then (pHash, ENOSPC)
             else if \<not> mem then (pHash, ENOMEM)
             else (pHash\<lparr>buckets := replicate c [], bytes_used := bytes_used pHash + (bytes - 8 * int old_capacity)\<rparr>, 0))
     }"

text \<open>\<open>hash_init_ex\<close>: an error number or the table. The buckets are allocated before the limit is set.\<close>

definition hash_init_ex ::
  "bool \<Rightarrow> (byte list \<Rightarrow> cint) \<Rightarrow> nat \<Rightarrow> rat \<Rightarrow> int \<Rightarrow> bool \<Rightarrow> (int + 'v HashArray) option" where
  "hash_init_ex mem hf cap lf limit bMallocValue =
     (case List.find (\<lambda>i. prime_array ! i > cap) [0..<length prime_array] of
        None \<Rightarrow> Some (Inl EINVAL)
      | Some i \<Rightarrow>
          do {
            (h, result) \<leftarrow> hash_alloc_buckets
              \<lparr>buckets = [], hash_func = (\<lambda>_. 0), item_count = 0, capacity = Prime i, load_factor = 0, max_bytes = 0,
                bytes_used = 0, is_malloc_capacity = False, is_malloc_value = False\<rparr> mem 0;
            Some (if result \<noteq> 0 then Inl result
                  else Inr (h\<lparr>hash_func := hf, max_bytes := limit, is_malloc_value := bMallocValue,
                              load_factor := (if 1 / 10 \<le> lf \<and> lf \<le> 1 then lf else 1 / 2)\<rparr>))
          })"

definition hash_destroy :: "'v HashArray \<Rightarrow> 'v HashArray \<times> 'v HashData list" where
  "hash_destroy pHash =
     (if buckets pHash = [] then (pHash, [])
      else (pHash\<lparr>buckets := [], capacity := (if is_malloc_capacity pHash then NULL_capacity else capacity pHash),
              is_malloc_capacity := False, item_count := 0, bytes_used := 0\<rparr>, concat (buckets pHash)))"

definition ADD_TO_BUCKET :: "'v HashArray \<Rightarrow> nat \<Rightarrow> 'v HashData \<Rightarrow> 'v HashArray" where
  "ADD_TO_BUCKET pHash i d =
     pHash\<lparr>buckets := (buckets pHash)[i := d # buckets pHash ! i], item_count := item_count pHash + 1\<rparr>"

fun chain_remove :: "byte list \<Rightarrow> 'v HashData list \<Rightarrow> 'v HashData list" where
  "chain_remove k [] = []"
| "chain_remove k (d # ds) = (if hkey d = k then ds else d # chain_remove k ds)"

fun chain_update :: "byte list \<Rightarrow> ('v HashData \<Rightarrow> 'v HashData) \<Rightarrow> 'v HashData list \<Rightarrow> 'v HashData list" where
  "chain_update k f [] = []"
| "chain_update k f (d # ds) = (if hkey d = k then f d # ds else d # chain_update k f ds)"

definition DELETE_FROM_BUCKET :: "'v HashArray \<Rightarrow> nat \<Rightarrow> 'v HashData \<Rightarrow> 'v HashArray" where
  "DELETE_FROM_BUCKET pHash i d =
     pHash\<lparr>buckets := (buckets pHash)[i := chain_remove (hkey d) (buckets pHash ! i)], item_count := item_count pHash - 1,
       bytes_used := bytes_used pHash - node_bytes d\<rparr>"

record HashStat =
  stat_capacity :: nat
  stat_item_count :: int
  bucket_used :: int
  bucket_avg_length :: rat
  bucket_max_length :: int

text \<open>The loop of \<open>hash_stat\<close> over the buckets: buckets used, longest chain, chains by length; \<open>None\<close> for \<open>ENOSPC\<close>.\<close>

fun hash_stat_loop :: "'v HashData list list \<Rightarrow> nat \<Rightarrow> nat \<Rightarrow> int list \<Rightarrow> (nat \<times> nat \<times> int list) option" where
  "hash_stat_loop [] used mx lens = Some (used, mx, lens)"
| "hash_stat_loop (b # bs) used mx lens =
     (if b = [] then hash_stat_loop bs used mx lens
      else if int (length b) > int (length lens) - 1 then None
      else hash_stat_loop bs (used + 1) (max mx (length b)) (lens[length b := lens ! length b + 1]))"

definition hash_stat :: "'v HashArray \<Rightarrow> nat \<Rightarrow> (int + HashStat \<times> int list) option" where
  "hash_stat pHash stat_size =
     do {
       c \<leftarrow> cap_value (capacity pHash);
       Some (case hash_stat_loop (buckets pHash) 0 0 (replicate stat_size 0) of
               None \<Rightarrow> Inl ENOSPC
             | Some (used, mx, lens) \<Rightarrow>
                 (let totalLength = sum_list (map (\<lambda>i. if lens ! i > 0 then int i * lens ! i else 0) [0..<Suc mx])
                  in Inr (\<lparr>stat_capacity = c, stat_item_count = item_count pHash, bucket_used = int used,
                           bucket_avg_length = (if used > 0 then of_int totalLength / of_nat used else 0),
                           bucket_max_length = int mx\<rparr>, lens)))
     }"

definition rehash_node :: "nat \<Rightarrow> 'v HashArray \<Rightarrow> 'v HashData \<Rightarrow> 'v HashArray" where
  "rehash_node c pHash d = ADD_TO_BUCKET pHash (HASH_CODE (hash_func pHash) (hkey d) mod c) d"

definition rehash1 :: "'v HashArray \<Rightarrow> bool \<Rightarrow> nat \<Rightarrow> capacity \<Rightarrow> ('v HashArray \<times> int) option" where
  "rehash1 pHash mem old_capacity new_capacity =
     do {
       (h1, result) \<leftarrow> hash_alloc_buckets (pHash\<lparr>capacity := new_capacity\<rparr>) mem old_capacity;
       if result \<noteq> 0 then Some (h1\<lparr>buckets := buckets pHash\<rparr>, result)
       else do {
         c \<leftarrow> cap_value new_capacity;
         Some (foldl (rehash_node c) (h1\<lparr>item_count := 0\<rparr>) (concat (take old_capacity (buckets pHash))), 0)
       }
     }"

definition next_prime :: "nat \<Rightarrow> capacity option" where
  "next_prime c = map_option Prime (List.find (\<lambda>i. prime_array ! i > c) [0..<length prime_array])"

definition rehash :: "'v HashArray \<Rightarrow> bool \<Rightarrow> ('v HashArray \<times> int) option" where
  "rehash pHash mem =
     do {
       old \<leftarrow> cap_value (capacity pHash);
       new \<leftarrow> (if is_malloc_capacity pHash then next_prime old
              else (case capacity pHash of Prime i \<Rightarrow> Some (Prime (i + 1)) | _ \<Rightarrow> None));
       (h1, result) \<leftarrow> rehash1 pHash mem old new;
       Some (if result \<noteq> 0 then (h1\<lparr>capacity := capacity pHash\<rparr>, result)
             else (h1\<lparr>is_malloc_capacity := False\<rparr>, 0))
     }"

text \<open>Whether two entries of a chain have different hash codes, and the number of chains that do.\<close>

fun chain_conflict :: "(byte list \<Rightarrow> cint) \<Rightarrow> 'v HashData list \<Rightarrow> bool" where
  "chain_conflict f [] = False"
| "chain_conflict f (d # ds) =
     ((\<exists>e \<in> set ds. HASH_CODE f (hkey d) \<noteq> HASH_CODE f (hkey e)) \<or> chain_conflict f ds)"

definition hash_conflict_count :: "'v HashArray \<Rightarrow> int" where
  "hash_conflict_count pHash = int (length (filter (chain_conflict (hash_func pHash)) (buckets pHash)))"

partial_function (option) next_odd :: "32 word \<Rightarrow> 32 word option" where
  "next_odd c =
     (let c1 = c + 2 in
      if unat c1 mod 3 = 0 \<or> unat c1 mod 5 = 0 \<or> unat c1 mod 7 = 0 then next_odd c1 else Some c1)"

partial_function (option) best_op_loop :: "'v HashArray \<Rightarrow> (nat \<Rightarrow> bool) \<Rightarrow> nat \<Rightarrow> nat \<Rightarrow> 32 word \<Rightarrow> ('v HashArray \<times> int) option" where
  "best_op_loop pHash mem k old_capacity c =
     do {
       c1 \<leftarrow> next_odd c;
       (h1, result) \<leftarrow> rehash1 pHash (mem k) old_capacity (Malloced (unat c1));
       if result \<noteq> 0 then Some (h1\<lparr>is_malloc_capacity := True, capacity := Malloced old_capacity\<rparr>, - result)
       else if hash_conflict_count h1 > 0 then best_op_loop h1 mem (Suc k) (unat c1) c1
       else Some (h1\<lparr>is_malloc_capacity := True\<rparr>, 1)
     }"

definition hash_best_op :: "'v HashArray \<Rightarrow> bool \<Rightarrow> (nat \<Rightarrow> bool) \<Rightarrow> int \<Rightarrow> ('v HashArray \<times> int) option" where
  "hash_best_op pHash cap_mem mem suggest_capacity =
     (if hash_conflict_count pHash = 0 then Some (pHash, 0)
      else do {
        old_capacity \<leftarrow> cap_value (capacity pHash);
        if \<not> cap_mem then Some (pHash, - ENOMEM)
        else
          (let c0 = (if suggest_capacity > 2 \<and> suggest_capacity \<ge> item_count pHash then
                       (let c = suggest_capacity - 2 in if c mod 2 = 0 then c + 1 else c)
                     else 2 * (item_count pHash - 1) + 1)
           in best_op_loop pHash mem 0 old_capacity (word_of_int c0))
      })"

definition bucket_of :: "'v HashArray \<Rightarrow> byte list \<Rightarrow> nat option" where
  "bucket_of pHash k = map_option (\<lambda>c. HASH_CODE (hash_func pHash) k mod c) (cap_value (capacity pHash))"

definition chain_find_entry :: "'v HashData list \<Rightarrow> byte list \<Rightarrow> 'v HashData option" where
  "chain_find_entry chain k = List.find (\<lambda>d. hkey d = k) chain"

definition hash_find_ex :: "'v HashArray \<Rightarrow> byte list \<Rightarrow> 'v HashData option option" where
  "hash_find_ex pHash k = do { i \<leftarrow> bucket_of pHash k; Some (chain_find_entry (buckets pHash ! i) k) }"

definition hash_find :: "'v HashArray \<Rightarrow> byte list \<Rightarrow> 'v option option" where
  "hash_find pHash k = do { i \<leftarrow> bucket_of pHash k; Some (map_option hvalue (chain_find_entry (buckets pHash ! i) k)) }"

text \<open>The second half of \<open>hash_insert_ex\<close>, for a key that is not in the table: a new entry.\<close>

definition hash_insert_new :: "'v HashArray \<Rightarrow> bool \<Rightarrow> bool \<Rightarrow> nat \<Rightarrow> byte list \<Rightarrow> 'v \<Rightarrow> int \<Rightarrow> ('v HashArray \<times> int) option" where
  "hash_insert_new pHash mem rehash_mem i k v n =
     (let msize = (if is_malloc_value pHash then n else 0); bytes = CALC_NODE_MALLOC_BYTES k msize in
      if max_bytes pHash > 0 \<and> bytes_used pHash + bytes > max_bytes pHash then Some (pHash, - ENOSPC)
      else if \<not> mem then Some (pHash, - ENOMEM)
      else do {
        let h1 = ADD_TO_BUCKET (pHash\<lparr>bytes_used := bytes_used pHash + bytes\<rparr>) i
                   \<lparr>hkey = k, value_len = n, malloc_value_size = msize, hvalue = v\<rparr>;
        c \<leftarrow> cap_value (capacity h1);
        if of_int (item_count h1) / of_nat c \<ge> load_factor h1
        then do { (h2, result) \<leftarrow> rehash h1 rehash_mem; Some (h2, 1) }
        else Some (h1, 1)
      })"

definition hash_insert_ex :: "'v HashArray \<Rightarrow> bool \<Rightarrow> bool \<Rightarrow> byte list \<Rightarrow> 'v \<Rightarrow> int \<Rightarrow> ('v HashArray \<times> int) option" where
  "hash_insert_ex pHash mem rehash_mem k v n =
     do {
       i \<leftarrow> bucket_of pHash k;
       case chain_find_entry (buckets pHash ! i) k of
         Some d \<Rightarrow>
           if \<not> is_malloc_value pHash \<or> malloc_value_size d \<ge> n \<and> malloc_value_size d div 2 < n
           then Some (pHash\<lparr>buckets := (buckets pHash)[i := chain_update k (\<lambda>d. d\<lparr>value_len := n, hvalue := v\<rparr>) (buckets pHash ! i)]\<rparr>, 0)
           else hash_insert_new (DELETE_FROM_BUCKET pHash i d) mem rehash_mem i k v n
       | None \<Rightarrow> hash_insert_new pHash mem rehash_mem i k v n
     }"

definition hash_delete :: "'v HashArray \<Rightarrow> byte list \<Rightarrow> ('v HashArray \<times> int) option" where
  "hash_delete pHash k =
     do {
       i \<leftarrow> bucket_of pHash k;
       Some (case chain_find_entry (buckets pHash ! i) k of
               Some d \<Rightarrow> (DELETE_FROM_BUCKET pHash i d, 0)
             | None \<Rightarrow> (pHash, ENOENT))
     }"

fun hash_walk_loop :: "(int \<Rightarrow> 'v HashData \<Rightarrow> 's \<Rightarrow> 's \<times> int) \<Rightarrow> 'v HashData list \<Rightarrow> int \<Rightarrow> 's \<Rightarrow> 's \<times> int" where
  "hash_walk_loop f [] i s = (s, 0)"
| "hash_walk_loop f (d # ds) i s = (let (s1, r) = f i d s in if r \<noteq> 0 then (s1, r) else hash_walk_loop f ds (i + 1) s1)"

definition hash_walk :: "'v HashArray \<Rightarrow> (int \<Rightarrow> 'v HashData \<Rightarrow> 's \<Rightarrow> 's \<times> int) \<Rightarrow> 's \<Rightarrow> 's \<times> int" where
  "hash_walk pHash f s = hash_walk_loop f (concat (buckets pHash)) 0 s"

definition hash_count :: "'v HashArray \<Rightarrow> int" where
  "hash_count pHash = item_count pHash"

section \<open>The invariant\<close>

definition entries :: "'v HashArray \<Rightarrow> 'v HashData list" where
  "entries h = concat (buckets h)"

definition index_in :: "'v HashArray \<Rightarrow> nat \<Rightarrow> 'v HashData \<Rightarrow> nat" where
  "index_in h c d = HASH_CODE (hash_func h) (hkey d) mod c"

definition buckets_ok :: "'v HashArray \<Rightarrow> nat \<Rightarrow> bool" where
  "buckets_ok h c \<longleftrightarrow> 0 < c \<and> length (buckets h) = c \<and>
     (\<forall>i < c. \<forall>d \<in> set (buckets h ! i). index_in h c d = i) \<and> distinct (map hkey (entries h))"

definition total_bytes :: "'v HashData list \<Rightarrow> int" where
  "total_bytes ds = sum_list (map node_bytes ds)"

definition hash_inv :: "'v HashArray \<Rightarrow> bool" where
  "hash_inv h \<longleftrightarrow> (\<exists>c. cap_value (capacity h) = Some c \<and> buckets_ok h c \<and>
     item_count h = int (length (entries h)) \<and> bytes_used h = 8 * int c + total_bytes (entries h))"

text \<open>The table as a map from keys to values.\<close>

definition hash_map :: "'v HashArray \<Rightarrow> byte list \<Rightarrow> 'v option" where
  "hash_map h = map_of (map (\<lambda>d. (hkey d, hvalue d)) (entries h))"

lemma total_bytes_mset: "total_bytes ds = (\<Sum>d \<in># mset ds. node_bytes d)"
  by (simp add: total_bytes_def sum_mset_sum_list flip: mset_map)

lemma hash_map_Some:
  assumes "distinct (map hkey (entries h))"
  shows "hash_map h k = Some v \<longleftrightarrow> (\<exists>d \<in> set (entries h). hkey d = k \<and> hvalue d = v)"
proof -
  have "distinct (map fst (map (\<lambda>d. (hkey d, hvalue d)) (entries h)))" using assms by (simp add: comp_def)
  from map_of_eq_Some_iff [OF this] show ?thesis by (auto simp: hash_map_def)
qed

lemma hash_map_None: "hash_map h k = None \<longleftrightarrow> (\<forall>d \<in> set (entries h). hkey d \<noteq> k)"
  by (force simp: hash_map_def map_of_eq_None_iff)

lemma hash_map_eqI:
  assumes "distinct (map hkey (entries h))" and "mset (entries h') = mset (entries h)"
  shows "hash_map h' = hash_map h"
proof -
  have "distinct (map hkey (entries h'))" using assms by (metis mset_eq_imp_distinct_iff mset_map)
  moreover have "set (entries h') = set (entries h)" using assms(2) by (metis set_mset_mset)
  ultimately show ?thesis using hash_map_Some [OF assms(1)] hash_map_Some [of h'] by (metis not_None_eq ext)
qed

text \<open>One bucket replaced.\<close>

lemma mset_concat_update:
  assumes "i < length bs"
  shows "mset (concat (bs[i := x])) + mset (bs ! i) = mset (concat bs) + mset x"
proof -
  have "mset (bs[i := x]) + {#bs ! i#} = mset bs + {#x#}" using assms by (simp add: mset_update)
  from arg_cong [OF this, of "\<lambda>m. \<Sum>y \<in># m. mset y"] show ?thesis
    by (simp add: mset_concat ac_simps flip: sum_mset_sum_list)
qed

lemma bucket_holds:
  assumes "buckets_ok h c" and "d \<in> set (entries h)"
  shows "d \<in> set (buckets h ! index_in h c d)" and "index_in h c d < c"
proof -
  obtain b where "b \<in> set (buckets h)" "d \<in> set b" using assms(2) by (auto simp: entries_def)
  then obtain i where i: "i < c" "d \<in> set (buckets h ! i)" using assms(1) by (auto simp: buckets_ok_def in_set_conv_nth)
  then have "index_in h c d = i" using assms(1) by (simp add: buckets_ok_def)
  with i show "d \<in> set (buckets h ! index_in h c d)" "index_in h c d < c" by simp_all
qed

lemma bucket_subset: "\<lbrakk>buckets_ok h c; i < c; d \<in> set (buckets h ! i)\<rbrakk> \<Longrightarrow> d \<in> set (entries h)"
  by (auto simp: buckets_ok_def entries_def)

lemma distinct_key_eq: "\<lbrakk>distinct (map hkey ds); d \<in> set ds; e \<in> set ds; hkey d = hkey e\<rbrakk> \<Longrightarrow> d = e"
  by (metis distinct_map inj_onD)

lemma chain_find_spec:
  assumes "buckets_ok h c" and "i = HASH_CODE (hash_func h) k mod c"
  shows "chain_find_entry (buckets h ! i) k = Some d \<longleftrightarrow> d \<in> set (entries h) \<and> hkey d = k"
proof -
  have i: "i < c" using assms by (simp add: buckets_ok_def)
  have dst: "distinct (map hkey (entries h))" using assms(1) by (simp add: buckets_ok_def)
  have mem: "d \<in> set (buckets h ! i)" if "d \<in> set (entries h)" "hkey d = k" for d
    using bucket_holds(1) [OF assms(1) that(1)] that(2) assms(2) by (simp add: index_in_def)
  show ?thesis
  proof
    assume "chain_find_entry (buckets h ! i) k = Some d"
    then have "d \<in> set (buckets h ! i)" "hkey d = k" by (auto simp: chain_find_entry_def dest: find_Some_mem)
    then show "d \<in> set (entries h) \<and> hkey d = k" using bucket_subset [OF assms(1) i] by blast
  next
    assume d: "d \<in> set (entries h) \<and> hkey d = k"
    then obtain e where e: "chain_find_entry (buckets h ! i) k = Some e" using mem [of d]
      by (metis (mono_tags, lifting) chain_find_entry_def find_None_iff not_None_eq)
    then have "e \<in> set (entries h)" "hkey e = k" using bucket_subset [OF assms(1) i]
      by (auto simp: chain_find_entry_def dest: find_Some_mem)
    then show "chain_find_entry (buckets h ! i) k = Some d" using distinct_key_eq [OF dst, of d e] d e by simp
  qed
qed

lemma hash_find_spec:
  assumes "hash_inv h"
  shows "\<exists>r. hash_find_ex h k = Some r \<and> hash_find h k = Some (map_option hvalue r) \<and>
    (\<forall>d. r = Some d \<longleftrightarrow> d \<in> set (entries h) \<and> hkey d = k) \<and> map_option hvalue r = hash_map h k"
proof -
  obtain c where c: "cap_value (capacity h) = Some c" "buckets_ok h c" using assms by (auto simp: hash_inv_def)
  let ?r = "chain_find_entry (buckets h ! (HASH_CODE (hash_func h) k mod c)) k"
  have r: "?r = Some d \<longleftrightarrow> d \<in> set (entries h) \<and> hkey d = k" for d by (rule chain_find_spec [OF c(2) refl])
  have dst: "distinct (map hkey (entries h))" using c(2) by (simp add: buckets_ok_def)
  have "map_option hvalue ?r = hash_map h k"
  proof (cases ?r)
    case None
    then have "hash_map h k = None" unfolding hash_map_None using r by fastforce
    with None show ?thesis by simp
  next
    case (Some d)
    then have "hash_map h k = Some (hvalue d)" unfolding hash_map_Some [OF dst] using r by blast
    with Some show ?thesis by simp
  qed
  with r c(1) show ?thesis by (simp add: hash_find_ex_def hash_find_def bucket_of_def)
qed

section \<open>Updates of one bucket\<close>

text \<open>
  The effect of an update on the entries as a multiset, with the rest of the invariant: the contract the
  updates of one bucket and rehashing share.
\<close>

definition same_config :: "'v HashArray \<Rightarrow> 'v HashArray \<Rightarrow> bool" where
  "same_config h h' \<longleftrightarrow> hash_func h' = hash_func h \<and> load_factor h' = load_factor h \<and> max_bytes h' = max_bytes h \<and>
     is_malloc_value h' = is_malloc_value h"

lemma same_config_refl: "same_config h h"
  by (simp add: same_config_def)

lemma same_config_trans: "\<lbrakk>same_config a b; same_config b c\<rbrakk> \<Longrightarrow> same_config a c"
  by (simp add: same_config_def)

lemma update_bucket:
  assumes "buckets_ok h c" and "i < c" and "\<forall>d \<in> set x. index_in h c d = i"
    and "distinct (map hkey (concat ((buckets h)[i := x])))" and "hash_func h' = hash_func h" and "buckets h' = (buckets h)[i := x]"
  shows "buckets_ok h' c" and "mset (entries h') + mset (buckets h ! i) = mset (entries h) + mset x"
proof -
  show "buckets_ok h' c" using assms by (auto simp: buckets_ok_def index_in_def entries_def nth_list_update)
  show "mset (entries h') + mset (buckets h ! i) = mset (entries h) + mset x"
    using mset_concat_update [of i "buckets h" x] assms by (simp add: entries_def buckets_ok_def)
qed

lemma distinct_hkey_mset: "mset xs = mset ys \<Longrightarrow> distinct (map hkey xs) = distinct (map hkey ys)"
  by (metis mset_eq_imp_distinct_iff mset_map)

lemma chain_remove_mset:
  "\<lbrakk>distinct (map hkey ds); d \<in> set ds; hkey d = k\<rbrakk> \<Longrightarrow> mset ds = add_mset d (mset (chain_remove k ds))"
  by (induction ds) (auto simp: image_iff dest: distinct_key_eq)

lemma chain_update_mset:
  "\<lbrakk>distinct (map hkey ds); d \<in> set ds; hkey d = k\<rbrakk> \<Longrightarrow>
     mset (chain_update k f ds) + {#d#} = mset ds + {#f d#}"
  by (induction ds) (auto simp: image_iff add_mset_commute)

lemma bucket_distinct: "\<lbrakk>buckets_ok h c; i < c\<rbrakk> \<Longrightarrow> distinct (map hkey (buckets h ! i))"
proof -
  assume a: "buckets_ok h c" "i < c"
  then have "buckets h ! i \<in> set (buckets h)" "distinct (map hkey (concat (buckets h)))" by (auto simp: buckets_ok_def entries_def)
  then show ?thesis by (metis distinct_concat distinct_map in_set_conv_decomp map_append map_concat concat_append concat.simps(2) distinct_append)
qed

lemma add_spec:
  assumes "buckets_ok h c" and "\<forall>e \<in> set (entries h). hkey e \<noteq> hkey d"
    and "i = HASH_CODE (hash_func h) (hkey d) mod c"
  shows "buckets_ok (ADD_TO_BUCKET h i d) c" and "mset (entries (ADD_TO_BUCKET h i d)) = add_mset d (mset (entries h))"
proof -
  have i: "i < c" "i < length (buckets h)" using assms(1,3) by (simp_all add: buckets_ok_def)
  have ms: "mset (concat ((buckets h)[i := d # buckets h ! i])) = add_mset d (mset (entries h))"
    using mset_concat_update [OF i(2), of "d # buckets h ! i"] by (simp add: entries_def)
  have "distinct (map hkey (d # entries h))" using assms(1,2) by (auto simp: buckets_ok_def)
  then have dst: "distinct (map hkey (concat ((buckets h)[i := d # buckets h ! i])))"
    using distinct_hkey_mset [of "concat ((buckets h)[i := d # buckets h ! i])" "d # entries h"] ms by simp
  have "\<forall>e \<in> set (d # buckets h ! i). index_in h c e = i" using assms(1,3) i(1) by (auto simp: buckets_ok_def index_in_def)
  from update_bucket(1) [OF assms(1) i(1) this dst, of "ADD_TO_BUCKET h i d"] show "buckets_ok (ADD_TO_BUCKET h i d) c"
    by (simp add: ADD_TO_BUCKET_def)
  show "mset (entries (ADD_TO_BUCKET h i d)) = add_mset d (mset (entries h))" using ms by (simp add: entries_def ADD_TO_BUCKET_def)
qed

lemma set_chain_remove: "set (chain_remove k ds) \<subseteq> set ds"
  by (induction ds) auto

lemma remove_spec:
  assumes "hash_inv h" and "d \<in> set (entries h)" and "bucket_of h (hkey d) = Some i"
  shows "hash_inv (DELETE_FROM_BUCKET h i d)" and "mset (entries h) = add_mset d (mset (entries (DELETE_FROM_BUCKET h i d)))"
    and "capacity (DELETE_FROM_BUCKET h i d) = capacity h" and "same_config h (DELETE_FROM_BUCKET h i d)"
proof -
  obtain c where c: "cap_value (capacity h) = Some c" "buckets_ok h c" "item_count h = int (length (entries h))"
      "bytes_used h = 8 * int c + total_bytes (entries h)"
    using assms(1) by (auto simp: hash_inv_def)
  have i: "i = index_in h c d" using assms(3) c(1) by (simp add: bucket_of_def index_in_def)
  have ic: "i < c" "d \<in> set (buckets h ! i)" using bucket_holds [OF c(2) assms(2)] i by simp_all
  let ?x = "chain_remove (hkey d) (buckets h ! i)" and ?h = "DELETE_FROM_BUCKET h i d"
  have "mset (buckets h ! i) = add_mset d (mset ?x)" using chain_remove_mset [OF bucket_distinct [OF c(2) ic(1)] ic(2) refl] .
  then have ms: "add_mset d (mset (concat ((buckets h)[i := ?x]))) = mset (entries h)"
    using mset_concat_update [of i "buckets h" ?x] ic(1) c(2) by (simp add: entries_def buckets_ok_def)
  have "distinct (map hkey (d # concat ((buckets h)[i := ?x])))"
    using distinct_hkey_mset [of "d # concat ((buckets h)[i := ?x])" "entries h"] ms c(2) by (simp add: buckets_ok_def)
  then have dst: "distinct (map hkey (concat ((buckets h)[i := ?x])))" by simp
  have "\<forall>e \<in> set ?x. index_in h c e = i" using set_chain_remove [of "hkey d" "buckets h ! i"] c(2) ic(1) by (auto simp: buckets_ok_def)
  from update_bucket(1) [OF c(2) ic(1) this dst, of ?h] have ok: "buckets_ok ?h c" by (simp add: DELETE_FROM_BUCKET_def)
  show m: "mset (entries h) = add_mset d (mset (entries ?h))" using ms by (simp add: entries_def DELETE_FROM_BUCKET_def)
  from arg_cong [OF m, of size] have len: "length (entries h) = Suc (length (entries ?h))" by simp
  show cap: "capacity ?h = capacity h" "same_config h ?h" by (simp_all add: DELETE_FROM_BUCKET_def same_config_def)
  have f: "item_count ?h = item_count h - 1" "bytes_used ?h = bytes_used h - node_bytes d" by (simp_all add: DELETE_FROM_BUCKET_def)
  have "total_bytes (entries h) = node_bytes d + total_bytes (entries ?h)" using m by (simp add: total_bytes_mset)
  then show "hash_inv ?h" using ok c(1,3,4) len unfolding hash_inv_def cap(1) f by simp
qed

section \<open>Growing\<close>

lemma rehash_fold:
  assumes "buckets_ok h c" and "distinct (map hkey (entries h @ ds))"
  shows "buckets_ok (foldl (rehash_node c) h ds) c \<and>
    mset (entries (foldl (rehash_node c) h ds)) = mset (entries h) + mset ds \<and>
    item_count (foldl (rehash_node c) h ds) = item_count h + int (length ds) \<and>
    capacity (foldl (rehash_node c) h ds) = capacity h \<and> bytes_used (foldl (rehash_node c) h ds) = bytes_used h \<and>
    is_malloc_capacity (foldl (rehash_node c) h ds) = is_malloc_capacity h \<and> same_config h (foldl (rehash_node c) h ds)"
  using assms
proof (induction ds arbitrary: h)
  case Nil
  then show ?case by (simp add: same_config_def)
next
  case (Cons d ds)
  let ?h = "rehash_node c h d"
  have "\<forall>e \<in> set (entries h). hkey e \<noteq> hkey d" using Cons.prems(2) by (auto simp: image_iff)
  note a = add_spec [OF Cons.prems(1) this refl, folded rehash_node_def]
  have "mset (entries ?h @ ds) = mset (entries h @ d # ds)" using a(2) by simp
  then have "distinct (map hkey (entries ?h @ ds))" using distinct_hkey_mset Cons.prems(2) by blast
  from Cons.IH [OF a(1) this] a(2) show ?case
    by (simp add: rehash_node_def ADD_TO_BUCKET_def same_config_def)
qed

lemma rehash1_spec:
  assumes "buckets_ok h old" and "cap_value new = Some c" and "0 < c"
  shows "\<exists>h' r. rehash1 h mem old new = Some (h', r) \<and>
    (if r = 0 then buckets_ok h' c \<and> mset (entries h') = mset (entries h) \<and> item_count h' = int (length (entries h)) \<and>
       capacity h' = new \<and> bytes_used h' = bytes_used h + (8 * int c - 8 * int old) \<and>
       is_malloc_capacity h' = is_malloc_capacity h \<and> same_config h h'
     else h' = h\<lparr>capacity := new\<rparr>)"
proof -
  let ?h0 = "h\<lparr>capacity := new\<rparr>"
  let ?h1 = "?h0\<lparr>buckets := replicate c [], bytes_used := bytes_used h + (8 * int c - 8 * int old), item_count := 0\<rparr>"
  have len: "length (buckets h) = old" using assms(1) by (simp add: buckets_ok_def)
  have ok: "buckets_ok ?h1 c" using assms(3) by (simp add: buckets_ok_def entries_def)
  have dst: "distinct (map hkey (entries ?h1 @ entries h))" using assms(1) by (simp add: entries_def buckets_ok_def)
  note f = rehash_fold [OF ok dst]
  have z: "entries ?h1 = []" by (simp add: entries_def)
  consider (nospc) "max_bytes h > 0 \<and> bytes_used h + 8 * int c > max_bytes h" | (nomem) "\<not> (max_bytes h > 0 \<and> bytes_used h + 8 * int c > max_bytes h)" "\<not> mem"
    | (ok) "\<not> (max_bytes h > 0 \<and> bytes_used h + 8 * int c > max_bytes h)" "mem" by blast
  then show ?thesis
  proof cases
    case nospc
    then have "rehash1 h mem old new = Some (?h0, ENOSPC)"
      using assms(2) by (simp add: rehash1_def hash_alloc_buckets_def Let_def)
    then show ?thesis by simp
  next
    case nomem
    then have "rehash1 h mem old new = Some (?h0, ENOMEM)"
      using assms(2) by (auto simp add: rehash1_def hash_alloc_buckets_def Let_def)
    then show ?thesis by simp
  next
    case ok
    then have "rehash1 h mem old new = Some (foldl (rehash_node c) ?h1 (entries h), 0)"
      using assms(2) len by (auto simp add: rehash1_def hash_alloc_buckets_def entries_def Let_def)
    with f z show ?thesis by (auto simp: same_config_def)
  qed
qed

definition grow_ok :: "'v HashArray \<Rightarrow> bool" where
  "grow_ok h \<longleftrightarrow>
     (if is_malloc_capacity h then (\<exists>c. cap_value (capacity h) = Some c \<and> c < 2147483647)
      else (\<exists>i. capacity h = Prime i \<and> i < 29))"

lemma prime_array_pos: "i < length prime_array \<Longrightarrow> 0 < prime_array ! i"
proof -
  assume "i < length prime_array"
  moreover have "\<forall>p \<in> set prime_array. 0 < p" by (simp add: prime_array_def)
  ultimately show ?thesis using nth_mem by blast
qed

lemma length_prime_array: "length prime_array = 30"
  by (simp add: prime_array_def)

lemma next_prime_spec:
  assumes "c < 2147483647"
  shows "\<exists>i. next_prime c = Some (Prime i) \<and> i < length prime_array \<and> c < prime_array ! i"
proof -
  have "prime_array ! 29 = 2147483647" by (simp add: prime_array_def)
  then have "29 \<in> set [0..<length prime_array] \<and> prime_array ! 29 > c" using assms by (simp add: length_prime_array)
  then obtain i where i: "List.find (\<lambda>i. prime_array ! i > c) [0..<length prime_array] = Some i"
    by (metis (mono_tags, lifting) find_None_iff not_None_eq)
  from find_Some_mem [OF i] show ?thesis using i by (simp add: next_prime_def)
qed

lemma rehash_spec:
  assumes "hash_inv h" and "grow_ok h"
  shows "\<exists>h' r. rehash h mem = Some (h', r) \<and> hash_inv h' \<and> mset (entries h') = mset (entries h) \<and> same_config h h'"
proof -
  obtain old where c: "cap_value (capacity h) = Some old" "buckets_ok h old" "item_count h = int (length (entries h))"
      "bytes_used h = 8 * int old + total_bytes (entries h)"
    using assms(1) by (auto simp: hash_inv_def)
  obtain j where j: "(if is_malloc_capacity h then next_prime old
        else (case capacity h of Prime i \<Rightarrow> Some (Prime (i + 1)) | _ \<Rightarrow> None)) = Some (Prime j)" "j < length prime_array"
  proof (cases "is_malloc_capacity h")
    case True
    then have "old < 2147483647" using assms(2) c(1) by (auto simp: grow_ok_def)
    from next_prime_spec [OF this] True that show ?thesis by auto
  next
    case False
    with assms(2) that show ?thesis by (auto simp: grow_ok_def length_prime_array)
  qed
  have new: "cap_value (Prime j) = Some (prime_array ! j)" "0 < prime_array ! j"
    using j(2) prime_array_pos by (simp_all add: cap_value_def)
  obtain h1 r where h1: "rehash1 h mem old (Prime j) = Some (h1, r)"
      "if r = 0 then buckets_ok h1 (prime_array ! j) \<and> mset (entries h1) = mset (entries h) \<and> item_count h1 = int (length (entries h)) \<and>
         capacity h1 = Prime j \<and> bytes_used h1 = bytes_used h + (8 * int (prime_array ! j) - 8 * int old) \<and>
         is_malloc_capacity h1 = is_malloc_capacity h \<and> same_config h h1
       else h1 = h\<lparr>capacity := Prime j\<rparr>"
    using rehash1_spec [OF c(2) new, of mem] by blast
  have run: "rehash h mem = Some (if r \<noteq> 0 then (h1\<lparr>capacity := capacity h\<rparr>, r) else (h1\<lparr>is_malloc_capacity := False\<rparr>, 0))"
    using c(1) j(1) h1(1) by (simp add: rehash_def)
  show ?thesis
  proof (cases "r = 0")
    case False
    then have "h1\<lparr>capacity := capacity h\<rparr> = h" using h1(2) by simp
    with run False assms(1) show ?thesis by (simp add: same_config_def)
  next
    case True
    let ?h = "h1\<lparr>is_malloc_capacity := False\<rparr>"
    have e: "entries ?h = entries h1" "buckets_ok ?h (prime_array ! j) = buckets_ok h1 (prime_array ! j)"
      by (simp_all add: entries_def buckets_ok_def index_in_def)
    have k: "mset (entries h1) = mset (entries h)" "buckets_ok h1 (prime_array ! j)" "same_config h h1" using h1(2) True by simp_all
    have "length (entries h1) = length (entries h)" "total_bytes (entries h1) = total_bytes (entries h)"
      using k(1) by (metis size_mset, simp add: total_bytes_mset)
    then have "hash_inv ?h" unfolding hash_inv_def e using h1(2) True c(4) new(1) k(2) e(2) by auto
    with run True k e(1) show ?thesis by (simp add: same_config_def)
  qed
qed

section \<open>Insertion\<close>

lemma insert_new_spec:
  assumes "hash_inv h" and "\<forall>e \<in> set (entries h). hkey e \<noteq> k" and "bucket_of h k = Some i" and "grow_ok h"
  shows "\<exists>h' r. hash_insert_new h mem rmem i k v n = Some (h', r) \<and> hash_inv h' \<and> same_config h h' \<and>
    (if r = 1 then mset (entries h') = add_mset \<lparr>hkey = k, value_len = n, malloc_value_size = if is_malloc_value h then n else 0, hvalue = v\<rparr> (mset (entries h))
     else h' = h \<and> r < 0) \<and>
    (mem \<and> max_bytes h \<le> 0 \<longrightarrow> r = 1)"
proof -
  let ?m = "if is_malloc_value h then n else 0"
  let ?d = "\<lparr>hkey = k, value_len = n, malloc_value_size = ?m, hvalue = v\<rparr>"
  let ?b = "CALC_NODE_MALLOC_BYTES k ?m"
  let ?h0 = "h\<lparr>bytes_used := bytes_used h + ?b\<rparr>"
  let ?h1 = "ADD_TO_BUCKET ?h0 i ?d"
  obtain c where c: "cap_value (capacity h) = Some c" "buckets_ok h c" "item_count h = int (length (entries h))"
      "bytes_used h = 8 * int c + total_bytes (entries h)"
    using assms(1) by (auto simp: hash_inv_def)
  show ?thesis
  proof (cases "(max_bytes h > 0 \<and> bytes_used h + ?b > max_bytes h) \<or> \<not> mem")
    case True
    then show ?thesis using assms(1) by (auto simp: hash_insert_new_def Let_def same_config_def)
  next
    case False
    have ok0: "buckets_ok ?h0 c" "\<forall>e \<in> set (entries ?h0). hkey e \<noteq> hkey ?d" "i = HASH_CODE (hash_func ?h0) (hkey ?d) mod c"
      using c(1,2) assms(2,3) by (simp_all add: buckets_ok_def entries_def index_in_def bucket_of_def)
    note a = add_spec [OF ok0]
    have e0: "entries ?h0 = entries h" by (simp add: entries_def)
    have f: "capacity ?h1 = capacity h" "item_count ?h1 = item_count h + 1" "bytes_used ?h1 = bytes_used h + ?b" "same_config h ?h1"
        "is_malloc_capacity ?h1 = is_malloc_capacity h"
      by (simp_all add: ADD_TO_BUCKET_def same_config_def)
    have m: "mset (entries ?h1) = add_mset ?d (mset (entries h))" using a(2) e0 by simp
    from arg_cong [OF m, of size] have len: "length (entries ?h1) = Suc (length (entries h))" by simp
    have tb: "total_bytes (entries ?h1) = ?b + total_bytes (entries h)" using m by (simp add: total_bytes_mset)
    have inv1: "hash_inv ?h1" unfolding hash_inv_def f using c a(1) len tb by simp
    have g1: "grow_ok ?h1" using assms(4) f by (simp add: grow_ok_def)
    from rehash_spec [OF inv1 g1, of rmem] obtain h2 r2 where h2: "rehash ?h1 rmem = Some (h2, r2)" "hash_inv h2"
        "mset (entries h2) = mset (entries ?h1)" "same_config ?h1 h2" by blast
    have run: "hash_insert_new h mem rmem i k v n =
        (if of_int (item_count ?h1) / of_nat c \<ge> load_factor ?h1 then Some (h2, 1) else Some (?h1, 1))"
      using False c(1) h2(1) f(1) by (auto simp: hash_insert_new_def Let_def)
    show ?thesis
    proof (cases "of_int (item_count ?h1) / of_nat c \<ge> load_factor ?h1")
      case True
      then show ?thesis using run h2 m same_config_trans [OF f(4) h2(4)] by simp
    next
      case no: False
      then show ?thesis using run inv1 m f(4) by simp
    qed
  qed
qed

lemma hash_inv_distinct: "hash_inv h \<Longrightarrow> distinct (map hkey (entries h))"
  by (auto simp: hash_inv_def buckets_ok_def)

lemma hash_inv_bucket: "hash_inv h \<Longrightarrow> \<exists>i. bucket_of h k = Some i"
  by (auto simp: hash_inv_def bucket_of_def)

lemma hash_map_add:
  assumes "distinct (map hkey (entries h'))" and "mset (entries h') = add_mset d (mset (entries h))"
  shows "hash_map h' = (hash_map h)(hkey d \<mapsto> hvalue d)"
proof -
  have s: "set (entries h') = insert d (set (entries h))" using arg_cong [OF assms(2), of set_mset] by simp
  have "distinct (map hkey (d # entries h))" using distinct_hkey_mset [of "entries h'" "d # entries h"] assms by simp
  then have e: "distinct (map hkey (entries h))" by simp
  show ?thesis
  proof
    fix k
    show "hash_map h' k = ((hash_map h)(hkey d \<mapsto> hvalue d)) k"
    proof (cases "((hash_map h)(hkey d \<mapsto> hvalue d)) k")
      case None
      then show ?thesis using s by (auto simp: hash_map_None split: if_splits)
    next
      case (Some v)
      then show ?thesis using s e by (auto simp: hash_map_Some assms(1) split: if_splits)
    qed
  qed
qed

lemma hash_map_remove:
  assumes "distinct (map hkey (entries h))" and "mset (entries h) = add_mset d (mset (entries h'))"
  shows "hash_map h' = (hash_map h)(hkey d := None)"
proof -
  have "hash_map h = (hash_map h')(hkey d \<mapsto> hvalue d)" by (rule hash_map_add [OF assms])
  moreover have "distinct (map hkey (d # entries h'))" using distinct_hkey_mset [of "entries h" "d # entries h'"] assms by simp
  then have "hash_map h' (hkey d) = None" by (auto simp: hash_map_None image_iff)
  ultimately show ?thesis by (simp add: fun_upd_idem)
qed

lemma mset_swap:
  assumes "add_mset d X = add_mset e B" and "A + B = E + X"
  shows "add_mset d A = add_mset e E"
proof -
  have "add_mset d A + B = E + add_mset d X" using assms(2) by simp
  also have "\<dots> = add_mset e E + B" using assms(1) by simp
  finally show ?thesis by (rule add_right_imp_eq)
qed

lemma update_spec:
  assumes "hash_inv h" and "d \<in> set (entries h)" and "bucket_of h (hkey d) = Some i"
    and "e = d\<lparr>value_len := n, hvalue := v\<rparr>"
    and "h' = h\<lparr>buckets := (buckets h)[i := chain_update (hkey d) (\<lambda>d. d\<lparr>value_len := n, hvalue := v\<rparr>) (buckets h ! i)]\<rparr>"
  shows "hash_inv h'" and "add_mset d (mset (entries h')) = add_mset e (mset (entries h))"
proof -
  obtain c where c: "cap_value (capacity h) = Some c" "buckets_ok h c" "item_count h = int (length (entries h))"
      "bytes_used h = 8 * int c + total_bytes (entries h)"
    using assms(1) by (auto simp: hash_inv_def)
  let ?x = "chain_update (hkey d) (\<lambda>d. d\<lparr>value_len := n, hvalue := v\<rparr>) (buckets h ! i)"
  have i: "i = index_in h c d" using assms(3) c(1) by (simp add: bucket_of_def index_in_def)
  have ic: "i < c" "d \<in> set (buckets h ! i)" using bucket_holds [OF c(2) assms(2)] i by simp_all
  have x: "add_mset d (mset ?x) = add_mset e (mset (buckets h ! i))"
    using chain_update_mset [OF bucket_distinct [OF c(2) ic(1)] ic(2) refl] assms(4) by simp
  have "mset (concat ((buckets h)[i := ?x])) + mset (buckets h ! i) = mset (entries h) + mset ?x"
    using mset_concat_update [of i "buckets h" ?x] ic(1) c(2) by (simp add: entries_def buckets_ok_def)
  from mset_swap [OF x this] show m: "add_mset d (mset (entries h')) = add_mset e (mset (entries h))"
    by (simp add: assms(5) entries_def)
  have k: "hkey ` set (chain_update l f ds) = hkey ` set ds" if "\<And>d. hkey (f d) = hkey d" for l f and ds :: "'a HashData list"
    using that by (induction ds) auto
  have "\<forall>e \<in> set ?x. index_in h c e = i"
  proof
    fix e assume "e \<in> set ?x"
    then have "hkey e \<in> hkey ` set (buckets h ! i)" using k [of "\<lambda>d. d\<lparr>value_len := n, hvalue := v\<rparr>"] by fastforce
    then show "index_in h c e = i" using c(2) ic(1) by (auto simp: buckets_ok_def index_in_def)
  qed
  moreover have "mset (map hkey (entries h')) = mset (map hkey (entries h))"
    using arg_cong [OF m, of "image_mset hkey"] assms(4) by simp
  then have dst: "distinct (map hkey (entries h'))" using c(2) mset_eq_imp_distinct_iff by (fastforce simp: buckets_ok_def)
  ultimately have ok: "buckets_ok h' c" using update_bucket(1) [OF c(2) ic(1)] unfolding assms(5) by (simp add: entries_def)
  from arg_cong [OF m, of size] have len: "length (entries h') = length (entries h)" by simp
  from arg_cong [OF m, of "\<lambda>m. \<Sum>d \<in># m. node_bytes d"] have "total_bytes (entries h') = total_bytes (entries h)"
    using assms(4) by (simp add: total_bytes_mset)
  then show "hash_inv h'" using ok len c unfolding hash_inv_def by (simp add: assms(5))
qed

text \<open>
  \<open>hash_insert_ex\<close> returns 1 for a new entry and 0 for a value changed in place, and then the key has the
  value. When the limit or \<open>malloc\<close> refuses the new entry the key is no longer in the table.
\<close>

lemma insert_spec:
  assumes "hash_inv h" and "grow_ok h"
  shows "\<exists>h' r. hash_insert_ex h mem rmem k v n = Some (h', r) \<and> hash_inv h' \<and> same_config h h' \<and>
    hash_map h' = (hash_map h)(k := (if r \<ge> 0 then Some v else None)) \<and>
    r \<in> {0, 1, - ENOSPC, - ENOMEM} \<and> (r = 0 \<longrightarrow> k \<in> dom (hash_map h)) \<and>
    (mem \<and> max_bytes h \<le> 0 \<longrightarrow> r \<ge> 0)"
proof -
  obtain i where i: "bucket_of h k = Some i" using hash_inv_bucket [OF assms(1)] by blast
  have find: "chain_find_entry (buckets h ! i) k = Some d \<longleftrightarrow> d \<in> set (entries h) \<and> hkey d = k" for d
    using assms(1) i chain_find_spec [of h] by (auto simp: hash_inv_def bucket_of_def)
  have new: "\<exists>h' r. hash_insert_new g mem rmem i k v n = Some (h', r) \<and> hash_inv h' \<and> same_config h h' \<and>
      hash_map h' = (hash_map g)(k := (if r \<ge> 0 then Some v else None)) \<and>
      r \<in> {0, 1, - ENOSPC, - ENOMEM} \<and> (r = 0 \<longrightarrow> k \<in> dom (hash_map h)) \<and> (mem \<and> max_bytes h \<le> 0 \<longrightarrow> r \<ge> 0)"
    if g: "hash_inv g" "hash_map g k = None" "bucket_of g k = Some i" "grow_ok g" "same_config h g" for g
  proof -
    let ?d = "\<lparr>hkey = k, value_len = n, malloc_value_size = if is_malloc_value g then n else 0, hvalue = v\<rparr>"
    have "\<forall>e \<in> set (entries g). hkey e \<noteq> k" using g(2) by (simp add: hash_map_None)
    from insert_new_spec [OF g(1) this g(3,4), of mem rmem v n]
    obtain h' r where h': "hash_insert_new g mem rmem i k v n = Some (h', r)" "hash_inv h'" "same_config g h'"
        "if r = 1 then mset (entries h') = add_mset ?d (mset (entries g)) else h' = g \<and> r < 0"
        "mem \<and> max_bytes g \<le> 0 \<longrightarrow> r = 1" by blast
    have r: "r \<in> {1, - ENOSPC, - ENOMEM}" using h'(1)
      by (auto simp: hash_insert_new_def Let_def bind_eq_Some_conv split: if_splits)
    have "hash_map h' = (hash_map g)(k := (if r \<ge> 0 then Some v else None))"
    proof (cases "r = 1")
      case True
      with h'(4) have "mset (entries h') = add_mset ?d (mset (entries g))" by simp
      from hash_map_add [OF hash_inv_distinct [OF h'(2)] this] True show ?thesis by simp
    next
      case False
      with h'(4) g(2) show ?thesis by (auto simp: fun_upd_idem)
    qed
    then show ?thesis using h'(1,2,5) r same_config_trans [OF g(5) h'(3)] g(5) by (auto simp: same_config_def)
  qed
  show ?thesis
  proof (cases "chain_find_entry (buckets h ! i) k")
    case None
    then have "hash_map h k = None" using find by (fastforce simp: hash_map_None)
    note n = new [OF assms(1) this i assms(2) same_config_refl]
    have "hash_insert_ex h mem rmem k v n = hash_insert_new h mem rmem i k v n" using None i by (simp add: hash_insert_ex_def)
    then show ?thesis using n by (simp only:)
  next
    case (Some d)
    then have d: "d \<in> set (entries h)" "hkey d = k" using find by simp_all
    let ?h = "h\<lparr>buckets := (buckets h)[i := chain_update k (\<lambda>d. d\<lparr>value_len := n, hvalue := v\<rparr>) (buckets h ! i)]\<rparr>"
    let ?g = "DELETE_FROM_BUCKET h i d"
    have ki: "bucket_of h (hkey d) = Some i" using i d(2) by simp
    note rm = remove_spec [OF assms(1) d(1) ki]
    have mg: "hash_map ?g = (hash_map h)(k := None)" using hash_map_remove [OF hash_inv_distinct [OF assms(1)] rm(2)] d(2) by simp
    show ?thesis
    proof (cases "\<not> is_malloc_value h \<or> malloc_value_size d \<ge> n \<and> malloc_value_size d div 2 < n")
      case True
      note u = update_spec [OF assms(1) d(1) ki refl refl, where n = n and v = v]
      let ?e = "d\<lparr>value_len := n, hvalue := v\<rparr>"
      have uh: "hash_inv ?h" "add_mset d (mset (entries ?h)) = add_mset ?e (mset (entries h))" using u d(2) by simp_all
      then have "mset (entries ?h) = add_mset ?e (mset (entries ?g))" using rm(2) by (simp add: add_mset_commute)
      from hash_map_add [OF hash_inv_distinct [OF uh(1)] this] have "hash_map ?h = (hash_map h)(k \<mapsto> v)"
        using mg d(2) by simp
      moreover have "k \<in> dom (hash_map h)" using d hash_map_None [of h k] by blast
      moreover have "hash_insert_ex h mem rmem k v n = Some (?h, 0)" using True Some i by (simp add: hash_insert_ex_def)
      ultimately show ?thesis using uh(1) by (simp add: same_config_def)
    next
      case False
      have "bucket_of ?g k = Some i" "grow_ok ?g" "same_config h ?g" "hash_map ?g k = None"
        using i assms(2) mg by (simp_all add: bucket_of_def grow_ok_def same_config_def DELETE_FROM_BUCKET_def)
      note n = new [OF rm(1) this(4,1,2,3)]
      have "hash_insert_ex h mem rmem k v n = hash_insert_new ?g mem rmem i k v n" using False Some i by (auto simp: hash_insert_ex_def)
      then show ?thesis using n by (simp only: mg fun_upd_upd)
    qed
  qed
qed

lemma delete_spec:
  assumes "hash_inv h"
  shows "\<exists>h' r. hash_delete h k = Some (h', r) \<and> hash_inv h' \<and> same_config h h' \<and> capacity h' = capacity h \<and>
    is_malloc_capacity h' = is_malloc_capacity h \<and> hash_map h' = (hash_map h)(k := None) \<and>
    r = (if k \<in> dom (hash_map h) then 0 else ENOENT)"
proof -
  obtain i where i: "bucket_of h k = Some i" using hash_inv_bucket [OF assms(1)] by blast
  have find: "chain_find_entry (buckets h ! i) k = Some d \<longleftrightarrow> d \<in> set (entries h) \<and> hkey d = k" for d
    using assms(1) i chain_find_spec [of h] by (auto simp: hash_inv_def bucket_of_def)
  show ?thesis
  proof (cases "chain_find_entry (buckets h ! i) k")
    case None
    then have "hash_map h k = None" using find by (fastforce simp: hash_map_None)
    then show ?thesis using None i assms by (auto simp: hash_delete_def same_config_def fun_upd_idem)
  next
    case (Some d)
    then have d: "d \<in> set (entries h)" "hkey d = k" using find by simp_all
    have ki: "bucket_of h (hkey d) = Some i" using i d(2) by simp
    note rm = remove_spec [OF assms(1) d(1) ki]
    have "hash_map (DELETE_FROM_BUCKET h i d) = (hash_map h)(k := None)"
      using hash_map_remove [OF hash_inv_distinct [OF assms(1)] rm(2)] d(2) by simp
    moreover have "k \<in> dom (hash_map h)" using d hash_map_None [of h k] by blast
    ultimately show ?thesis using rm(1,3,4) Some i by (simp add: hash_delete_def DELETE_FROM_BUCKET_def)
  qed
qed

lemma count_spec:
  assumes "hash_inv h"
  shows "hash_count h = int (card (dom (hash_map h)))"
proof -
  have "dom (hash_map h) = hkey ` set (entries h)" by (force simp: hash_map_def dom_map_of_conv_image_fst)
  moreover have "card (hkey ` set (entries h)) = length (entries h)"
    using hash_inv_distinct [OF assms] by (metis distinct_card length_map set_map)
  ultimately show ?thesis using assms by (auto simp: hash_count_def hash_inv_def)
qed

section \<open>Room in the table of primes\<close>

text \<open>
  \<open>_rehash\<close> steps to the next prime without a look at the end of the table. \<open>hash_room m\<close> says that \<open>m\<close>
  more insertions cannot bring it there: with a load factor of at least 0.1 the last prime is not needed before
  143735675 entries.
\<close>

definition hash_room :: "nat \<Rightarrow> 'v HashArray \<Rightarrow> bool" where
  "hash_room m h \<longleftrightarrow> item_count h + int m < 143735675 \<and> 1 / 10 \<le> load_factor h \<and> \<not> is_malloc_capacity h \<and>
     (\<exists>i \<le> 28. capacity h = Prime i)"

lemma fold_capacity:
  "capacity (foldl (rehash_node c) h ds) = capacity h \<and> is_malloc_capacity (foldl (rehash_node c) h ds) = is_malloc_capacity h"
  by (induction ds arbitrary: h) (simp_all add: rehash_node_def ADD_TO_BUCKET_def)

lemma rehash_capacity:
  assumes "rehash h mem = Some (h', r)" and "\<not> is_malloc_capacity h" and "capacity h = Prime i"
  shows "\<not> is_malloc_capacity h' \<and> (capacity h' = Prime i \<or> capacity h' = Prime (Suc i))"
  using assms
  by (auto simp: rehash_def rehash1_def hash_alloc_buckets_def Let_def bind_eq_Some_conv fold_capacity split: if_splits)

lemma insert_new_capacity:
  assumes "hash_insert_new h mem rmem b k v n = Some (h', r)" and "\<not> is_malloc_capacity h" and "capacity h = Prime i"
    and "cap_value (Prime i) = Some c"
  shows "\<not> is_malloc_capacity h' \<and>
    (capacity h' = Prime i \<or> capacity h' = Prime (Suc i) \<and> of_int (item_count h + 1) / of_nat c \<ge> load_factor h)"
  using assms rehash_capacity
  by (fastforce simp: hash_insert_new_def Let_def ADD_TO_BUCKET_def bind_eq_Some_conv split: if_splits)

lemma delete_keeps:
  "capacity (DELETE_FROM_BUCKET h i d) = capacity h" "is_malloc_capacity (DELETE_FROM_BUCKET h i d) = is_malloc_capacity h"
  "load_factor (DELETE_FROM_BUCKET h i d) = load_factor h" "item_count (DELETE_FROM_BUCKET h i d) = item_count h - 1"
  by (simp_all add: DELETE_FROM_BUCKET_def)

lemma insert_capacity:
  assumes "hash_insert_ex h mem rmem k v n = Some (h', r)" and "\<not> is_malloc_capacity h" and "capacity h = Prime i"
    and "cap_value (Prime i) = Some c"
  shows "\<not> is_malloc_capacity h' \<and>
    (capacity h' = Prime i \<or> capacity h' = Prime (Suc i) \<and> of_int (item_count h + 1) / of_nat c \<ge> load_factor h)"
proof -
  obtain b where b: "bucket_of h k = Some b" using assms(3,4) by (auto simp: bucket_of_def)
  let ?g = "\<lambda>d. DELETE_FROM_BUCKET h b d"
  consider (new) "hash_insert_new h mem rmem b k v n = Some (h', r)" | (old) d where "hash_insert_new (?g d) mem rmem b k v n = Some (h', r)"
    | (same) "capacity h' = capacity h" "is_malloc_capacity h' = is_malloc_capacity h"
    using assms(1) b by (auto simp: hash_insert_ex_def split: option.splits if_splits)
  then show ?thesis
  proof cases
    case new
    from insert_new_capacity [OF new assms(2-4)] show ?thesis .
  next
    case old
    have "(of_int (item_count h) :: rat) / of_nat c \<le> of_int (item_count h + 1) / of_nat c" by (intro divide_right_mono) simp_all
    with insert_new_capacity [OF old, of i c] assms(2-4) show ?thesis by (auto simp: delete_keeps)
  next
    case same
    with assms(2,3) show ?thesis by simp
  qed
qed

lemma room_grow_ok: "hash_room m h \<Longrightarrow> grow_ok h"
  by (auto simp: hash_room_def grow_ok_def)

lemma room_mono: "hash_room (Suc m) h \<Longrightarrow> hash_room m h"
  by (auto simp: hash_room_def)

lemma card_dom_update: "finite (dom m) \<Longrightarrow> card (dom (m(k := x))) \<le> Suc (card (dom m))"
  by (cases x) (simp_all add: card_insert_if card_Diff1_le le_SucI dom_fun_upd)

lemma room_insert:
  assumes "hash_inv h" and "hash_room (Suc m) h" and "hash_insert_ex h mem rmem k v n = Some (h', r)"
  shows "hash_room m h'"
proof -
  obtain i where i: "i \<le> 28" "capacity h = Prime i" "\<not> is_malloc_capacity h" "1 / 10 \<le> load_factor h"
      "item_count h + int (Suc m) < 143735675"
    using assms(2) by (auto simp: hash_room_def)
  have c: "cap_value (Prime i) = Some (prime_array ! i)" using i(1) by (simp add: cap_value_def length_prime_array)
  from insert_spec [OF assms(1) room_grow_ok [OF assms(2)], of mem rmem k v n] assms(3)
  have s: "hash_inv h'" "same_config h h'" "hash_map h' = (hash_map h)(k := (if r \<ge> 0 then Some v else None))" by auto
  have fin: "finite (dom (hash_map h))" by (simp add: hash_map_def finite_dom_map_of)
  have "card (dom (hash_map h')) \<le> Suc (card (dom (hash_map h)))" unfolding s(3) by (rule card_dom_update [OF fin])
  then have "item_count h' \<le> item_count h + 1"
    using count_spec [OF assms(1)] count_spec [OF s(1)] by (simp add: hash_count_def)
  moreover have "\<exists>i' \<le> 28. capacity h' = Prime i'"
  proof (cases "i = 28")
    case True
    have "\<not> of_int (item_count h + 1) / of_nat (prime_array ! i) \<ge> load_factor h"
    proof
      assume a: "of_int (item_count h + 1) / of_nat (prime_array ! i) \<ge> load_factor h"
      have "prime_array ! i = 1437356741" using True by (simp add: prime_array_def)
      with a i(4) have "1437356741 / 10 \<le> (of_int (item_count h + 1) :: rat)" by (simp add: field_simps)
      moreover have "(of_int (item_count h + 1) :: rat) \<le> of_int 143735674" using i(5) by (simp only: of_int_le_iff)
      ultimately show False by simp
    qed
    with insert_capacity [OF assms(3) i(3,2) c] True show ?thesis by auto
  next
    case False
    with insert_capacity [OF assms(3) i(3,2) c] i(1) show ?thesis by (auto intro: exI [of _ i] exI [of _ "Suc i"])
  qed
  ultimately show ?thesis using insert_capacity [OF assms(3) i(3,2) c] i(4,5) s(2) by (auto simp: hash_room_def same_config_def)
qed

lemma room_delete:
  assumes "hash_room m h" and "hash_delete h k = Some (h', r)"
  shows "hash_room m h'"
  using assms by (auto simp: hash_room_def hash_delete_def bind_eq_Some_conv delete_keeps split: option.splits)

interpretation hash_dict: dictionary hash_inv hash_room hash_map hash_find
  "\<lambda>(mem, rmem, n) h k v. hash_insert_ex h mem rmem k v n" hash_delete hash_count
proof
  show "hash_find h k = Some (hash_map h k)" if "hash_inv h" for h :: "'a HashArray" and k
    using hash_find_spec [OF that, of k] by auto
next
  fix h :: "'a HashArray" and m k v and w :: "bool \<times> bool \<times> int"
  assume a: "hash_inv h" "hash_room (Suc m) h"
  obtain mem rmem n where w: "w = (mem, rmem, n)" by (cases w)
  show "\<exists>h' r. (case w of (mem, rmem, n) \<Rightarrow> \<lambda>h k v. hash_insert_ex h mem rmem k v n) h k v = Some (h', r) \<and> hash_inv h' \<and>
      hash_room m h' \<and> hash_map h' = (hash_map h)(k := (if r \<ge> 0 then Some v else None))"
    using insert_spec [OF a(1) room_grow_ok [OF a(2)], of mem rmem k v n] room_insert [OF a, of mem rmem k v n]
    unfolding w prod.case by blast
next
  fix h :: "'a HashArray" and m k
  assume a: "hash_inv h" "hash_room m h"
  show "\<exists>h' r. hash_delete h k = Some (h', r) \<and> hash_inv h' \<and> hash_room m h' \<and> hash_map h' = (hash_map h)(k := None)"
    using delete_spec [OF a(1), of k] room_delete [OF a(2), of k] by blast
next
  show "hash_room m h" if "hash_room (Suc m) h" for m and h :: "'a HashArray" using that by (rule room_mono)
next
  show "finite (dom (hash_map h)) \<and> hash_count h = int (card (dom (hash_map h)))" if "hash_inv h" for h :: "'a HashArray"
    using count_spec [OF that] by (simp add: hash_map_def finite_dom_map_of)
qed

section \<open>Initialisation, reorganisation and statistics\<close>

lemma init_spec:
  assumes "cap < 2147483647"
  shows "\<exists>h i. hash_init_ex True hf cap lf limit mv = Some (Inr h) \<and> hash_inv h \<and> hash_map h = Map.empty \<and>
    capacity h = Prime i \<and> cap < prime_array ! i \<and> i < length prime_array \<and> (\<forall>j < i. prime_array ! j \<le> cap) \<and>
    1 / 10 \<le> load_factor h \<and> load_factor h \<le> 1 \<and> \<not> is_malloc_capacity h \<and> item_count h = 0 \<and> hash_func h = hf \<and> max_bytes h = limit"
proof -
  from next_prime_spec [OF assms] obtain i where i: "List.find (\<lambda>i. prime_array ! i > cap) [0..<length prime_array] = Some i"
      "i < length prime_array" "cap < prime_array ! i" by (auto simp: next_prime_def)
  have least: "\<forall>j < i. prime_array ! j \<le> cap" using i(1) by (auto simp: find_Some_iff not_less)
  define l where "l = (if 1 / 10 \<le> lf \<and> lf \<le> 1 then lf else 1 / 2)"
  have l: "1 / 10 \<le> l" "l \<le> 1" by (simp_all add: l_def)
  let ?c = "prime_array ! i"
  let ?h = "\<lparr>buckets = replicate ?c [], hash_func = hf, item_count = 0, capacity = Prime i,
      load_factor = l, max_bytes = limit,
      bytes_used = 8 * int ?c, is_malloc_capacity = False, is_malloc_value = mv\<rparr>"
  have c: "cap_value (Prime i) = Some ?c" "0 < ?c" using i(2) prime_array_pos by (simp_all add: cap_value_def)
  then have run: "hash_init_ex True hf cap lf limit mv = Some (Inr ?h)"
    by (simp add: hash_init_ex_def i(1) hash_alloc_buckets_def Let_def l_def)
  have "hash_inv ?h" using c by (simp add: hash_inv_def buckets_ok_def entries_def total_bytes_def)
  moreover have "hash_map ?h = Map.empty" by (simp add: hash_map_def entries_def)
  ultimately show ?thesis using run i(2,3) least l by (intro exI [of _ ?h] exI [of _ i]) simp
qed

text \<open>A sequence of operations on a new table.\<close>

lemma init_room:
  assumes "cap < 1437356741"
  shows "\<exists>h :: 'v HashArray. hash_init_ex True hf cap lf limit mv = Some (Inr h) \<and> hash_inv h \<and> hash_map h = Map.empty \<and>
    (m < 143735675 \<longrightarrow> hash_room m h)"
proof -
  from assms have "cap < 2147483647" by simp
  from init_spec [OF this, of hf lf limit mv] obtain h :: "'v HashArray" and i where h: "hash_init_ex True hf cap lf limit mv = Some (Inr h)"
      "hash_inv h" "hash_map h = Map.empty" "capacity h = Prime i" "\<forall>j < i. prime_array ! j \<le> cap"
      "1 / 10 \<le> load_factor h" "\<not> is_malloc_capacity h" "item_count h = 0" by auto
  have "i \<le> 28"
  proof (rule ccontr)
    assume "\<not> i \<le> 28"
    then have "prime_array ! 28 \<le> cap" using h(5) by simp
    moreover have "prime_array ! 28 = 1437356741" by (simp add: prime_array_def)
    ultimately show False using assms by simp
  qed
  then have "m < 143735675 \<longrightarrow> hash_room m h" using h by (simp add: hash_room_def)
  with h show ?thesis by blast
qed

lemma conflict_free_iff:
  "\<not> chain_conflict f ds \<longleftrightarrow> (\<forall>d \<in> set ds. \<forall>e \<in> set ds. HASH_CODE f (hkey d) = HASH_CODE f (hkey e))"
proof (induction ds)
  case (Cons d ds)
  have "(\<forall>a \<in> set (d # ds). \<forall>b \<in> set (d # ds). HASH_CODE f (hkey a) = HASH_CODE f (hkey b)) \<longleftrightarrow>
      (\<forall>e \<in> set ds. HASH_CODE f (hkey d) = HASH_CODE f (hkey e)) \<and>
      (\<forall>a \<in> set ds. \<forall>b \<in> set ds. HASH_CODE f (hkey a) = HASH_CODE f (hkey b))"
    by (metis list.set_intros set_ConsD)
  with Cons show ?case by simp
qed simp

definition no_small_factor :: "32 word \<Rightarrow> bool" where
  "no_small_factor c \<longleftrightarrow> unat c mod 3 \<noteq> 0 \<and> unat c mod 5 \<noteq> 0 \<and> unat c mod 7 \<noteq> 0"

lemma next_odd_spec:
  assumes "next_odd c = Some c'"
  shows "no_small_factor c'"
proof (rule next_odd.raw_induct [where P = "\<lambda>c c'. no_small_factor c'"])
  fix f :: "32 word \<Rightarrow> 32 word option" and c y :: "32 word"
  assume "\<And>c y. f c = Some y \<Longrightarrow> no_small_factor y"
    and "(let c1 = c + 2 in if unat c1 mod 3 = 0 \<or> unat c1 mod 5 = 0 \<or> unat c1 mod 7 = 0 then f c1 else Some c1) = Some y"
  then show "no_small_factor y" unfolding Let_def no_small_factor_def by (metis option.inject)
qed (rule assms)

lemma no_small_factor_pos: "no_small_factor c \<Longrightarrow> 0 < unat c"
  by (cases "unat c = 0") (simp_all add: no_small_factor_def)

text \<open>The invariant for a number of buckets that is not yet the capacity.\<close>

definition counted :: "'v HashArray \<Rightarrow> nat \<Rightarrow> bool" where
  "counted h c \<longleftrightarrow> buckets_ok h c \<and> item_count h = int (length (entries h)) \<and> bytes_used h = 8 * int c + total_bytes (entries h)"

lemma counted_inv: "counted h c \<Longrightarrow> hash_inv (h\<lparr>is_malloc_capacity := b, capacity := Malloced c\<rparr>)"
  by (simp add: counted_def hash_inv_def cap_value_def buckets_ok_def index_in_def entries_def)

lemma best_op_round:
  assumes "counted h old" and "0 < c"
  shows "\<exists>h1 q. rehash1 h mem old (Malloced c) = Some (h1, q) \<and> q \<in> {0, ENOSPC, ENOMEM} \<and>
    (if q = 0 then counted h1 c \<and> mset (entries h1) = mset (entries h) \<and> capacity h1 = Malloced c \<and> same_config h h1
     else h1 = h\<lparr>capacity := Malloced c\<rparr>)"
proof -
  have cv: "cap_value (Malloced c) = Some c" by (simp add: cap_value_def)
  have a: "buckets_ok h old" using assms(1) by (simp add: counted_def)
  from rehash1_spec [OF a cv assms(2), of mem] obtain h1 q where
    h1: "rehash1 h mem old (Malloced c) = Some (h1, q)" and
    q: "if q = 0 then buckets_ok h1 c \<and> mset (entries h1) = mset (entries h) \<and> item_count h1 = int (length (entries h)) \<and>
          capacity h1 = Malloced c \<and> bytes_used h1 = bytes_used h + (8 * int c - 8 * int old) \<and>
          is_malloc_capacity h1 = is_malloc_capacity h \<and> same_config h h1
        else h1 = h\<lparr>capacity := Malloced c\<rparr>" by blast
  have "q \<in> {0, ENOSPC, ENOMEM}" using h1
    by (auto simp: rehash1_def hash_alloc_buckets_def Let_def bind_eq_Some_conv split: if_splits)
  moreover have "counted h1 c" if "q = 0"
  proof -
    have "length (entries h1) = length (entries h)" "total_bytes (entries h1) = total_bytes (entries h)"
      using q that by (metis size_mset, simp add: total_bytes_mset)
    then show ?thesis using q that assms(1) by (simp add: counted_def)
  qed
  ultimately show ?thesis using h1 q by (intro exI [of _ h1] exI [of _ q]) auto
qed

lemma best_op_loop_spec:
  assumes "best_op_loop h mem k old c = Some (h', r)" and "counted h old"
  shows "hash_inv h' \<and> mset (entries h') = mset (entries h) \<and> same_config h h' \<and> (r = 1 \<longrightarrow> hash_conflict_count h' = 0) \<and>
    r \<in> {1, - ENOSPC, - ENOMEM}"
proof -
  let ?Q = "\<lambda>h (y :: 'a HashArray \<times> int). hash_inv (fst y) \<and> mset (entries (fst y)) = mset (entries h) \<and> same_config h (fst y) \<and>
    (snd y = 1 \<longrightarrow> hash_conflict_count (fst y) = 0) \<and> snd y \<in> {1, - ENOSPC, - ENOMEM}"
  have "counted h old \<longrightarrow> ?Q h (h', r)"
  proof (rule best_op_loop.raw_induct [where P = "\<lambda>h mem k old c y. counted h old \<longrightarrow> ?Q h y"])
    fix f and h :: "'a HashArray" and mem k old c y
    assume ih: "\<And>h mem k old c y. f h mem k old c = Some y \<Longrightarrow> counted h old \<longrightarrow> ?Q h y"
      and run: "next_odd c \<bind> (\<lambda>c1. rehash1 h (mem k) old (Malloced (unat c1)) \<bind>
          (\<lambda>(h1, result). if result \<noteq> 0 then Some (h1\<lparr>is_malloc_capacity := True, capacity := Malloced old\<rparr>, - result)
             else if hash_conflict_count h1 > 0 then f h1 mem (Suc k) (unat c1) c1
             else Some (h1\<lparr>is_malloc_capacity := True\<rparr>, 1))) = Some y"
    show "counted h old \<longrightarrow> ?Q h y"
    proof
      assume a: "counted h old"
      from run obtain c1 where c1: "next_odd c = Some c1" by (cases "next_odd c") simp_all
      have pos: "0 < unat c1" using next_odd_spec [OF c1] by (rule no_small_factor_pos)
      from best_op_round [OF a pos, of "mem k"] obtain h1 q where
        h1: "rehash1 h (mem k) old (Malloced (unat c1)) = Some (h1, q)" "q \<in> {0, ENOSPC, ENOMEM}" and
        q: "if q = 0 then counted h1 (unat c1) \<and> mset (entries h1) = mset (entries h) \<and> capacity h1 = Malloced (unat c1) \<and> same_config h h1
            else h1 = h\<lparr>capacity := Malloced (unat c1)\<rparr>" by blast
      consider (failed) "q \<noteq> 0" | (more) "q = 0" "hash_conflict_count h1 > 0" | (free) "q = 0" "\<not> hash_conflict_count h1 > 0" by blast
      then show "?Q h y"
      proof cases
        case failed
        with run c1 h1(1) q have y: "y = (h\<lparr>is_malloc_capacity := True, capacity := Malloced old\<rparr>, - q)" by simp
        show ?thesis using failed h1(2) counted_inv [OF a] unfolding y by (auto simp: entries_def same_config_def)
      next
        case more
        with run c1 h1(1) have "f h1 mem (Suc k) (unat c1) c1 = Some y" by simp
        from ih [OF this] q more(1) same_config_trans [of h h1] show ?thesis by simp
      next
        case free
        with run c1 h1(1) have y: "y = (h1\<lparr>is_malloc_capacity := True\<rparr>, 1)" by simp
        have cap: "counted h1 (unat c1)" "capacity h1 = Malloced (unat c1)" using q free(1) by simp_all
        have "h1\<lparr>is_malloc_capacity := True, capacity := Malloced (unat c1)\<rparr> = h1\<lparr>is_malloc_capacity := True\<rparr>"
          unfolding cap(2) [symmetric] by simp
        with counted_inv [OF cap(1), of True] have "hash_inv (fst y)" unfolding y by simp
        moreover have "hash_conflict_count (fst y) = 0" using free(2) unfolding y by (simp add: hash_conflict_count_def)
        ultimately show ?thesis using q free(1) unfolding y by (simp add: entries_def same_config_def)
      qed
    qed
  qed (rule assms(1))
  with assms(2) show ?thesis by simp
qed

text \<open>The search ends: of five successive candidates one has no factor 3, 5 or 7, and the limit bounds the capacity.\<close>

definition coprime_105 :: "nat \<Rightarrow> bool" where
  "coprime_105 n \<longleftrightarrow> n mod 3 \<noteq> 0 \<and> n mod 5 \<noteq> 0 \<and> n mod 7 \<noteq> 0"

definition residues_ok :: "nat \<Rightarrow> nat \<Rightarrow> nat \<Rightarrow> nat \<Rightarrow> bool" where
  "residues_ok a b c k \<longleftrightarrow> (a + 2 * k) mod 3 \<noteq> 0 \<and> (b + 2 * k) mod 5 \<noteq> 0 \<and> (c + 2 * k) mod 7 \<noteq> 0"

lemma residues_exist:
  "list_all (\<lambda>a. list_all (\<lambda>b. list_all (\<lambda>c. list_ex (residues_ok a b c) [1, 2, 3, 4, 5])
     [0, 1, 2, 3, 4, 5, 6]) [0, 1, 2, 3, 4]) [0, 1, 2]"
  by (simp add: residues_ok_def)

lemma coprime_105_near: "\<exists>k \<in> {1, 2, 3, 4, 5}. coprime_105 (n + 2 * k)"
proof -
  have "a \<in> set [0, 1, 2]" if "a < 3" for a :: nat using that by auto
  then have a: "n mod 3 \<in> set [0, 1, 2]" by simp
  have "b \<in> set [0, 1, 2, 3, 4]" if "b < 5" for b :: nat using that by auto
  then have b: "n mod 5 \<in> set [0, 1, 2, 3, 4]" by simp
  have "c \<in> set [0, 1, 2, 3, 4, 5, 6]" if "c < 7" for c :: nat using that by auto
  then have c: "n mod 7 \<in> set [0, 1, 2, 3, 4, 5, 6]" by simp
  from a b c have "list_ex (residues_ok (n mod 3) (n mod 5) (n mod 7)) [1, 2, 3, 4, 5]"
    using residues_exist unfolding list_all_iff by blast
  moreover have "residues_ok (n mod 3) (n mod 5) (n mod 7) k = coprime_105 (n + 2 * k)" for k
    unfolding residues_ok_def coprime_105_def mod_add_left_eq ..
  ultimately show ?thesis unfolding list_ex_iff list.set by blast
qed

lemma next_odd_total:
  assumes "unat c < 4294967285"
  shows "\<exists>c'. next_odd c = Some c' \<and> unat c < unat c' \<and> unat c' \<le> unat c + 10"
proof -
  obtain k where k: "k \<in> {1, 2, 3, 4, 5 :: nat}" "coprime_105 (unat c + 2 * k)" using coprime_105_near by blast
  have "\<exists>c'. next_odd c = Some c' \<and> unat c < unat c' \<and> unat c' \<le> unat c + 2 * k"
    if "1 \<le> k" "unat c + 2 * k < 4294967296" "coprime_105 (unat c + 2 * k)" for k c
    using that
  proof (induction k arbitrary: c rule: less_induct)
    case (less k)
    have u: "unat (c + 2) = unat c + 2" using less.prems(1,2) by (simp add: unat_word_ariths)
    show ?case
    proof (cases "coprime_105 (unat (c + 2))")
      case True
      then have "next_odd c = Some (c + 2)" by (subst next_odd.simps) (simp add: Let_def coprime_105_def)
      with u less.prems(1) show ?thesis by simp
    next
      case False
      then have n: "next_odd c = next_odd (c + 2)" by (subst next_odd.simps) (simp add: Let_def coprime_105_def)
      have "k \<noteq> 1" using False less.prems(3) u by auto
      then have k: "k - 1 < k" "1 \<le> k - 1" "unat (c + 2) + 2 * (k - 1) = unat c + 2 * k" using less.prems(1) u by auto
      from less.IH [OF k(1,2), of "c + 2", unfolded k(3)] less.prems(2,3)
      obtain c' where "next_odd (c + 2) = Some c'" "unat (c + 2) < unat c'" "unat c' \<le> unat c + 2 * k" by blast
      with u show ?thesis unfolding n by simp
    qed
  qed
  from this [of k c] k assms show ?thesis by fastforce
qed

lemma best_op_loop_returns:
  assumes "counted h old" and "0 < max_bytes h" and "max_bytes h < 17179869184 + total_bytes (entries h)" and "unat c < 2147483660"
  shows "\<exists>y. best_op_loop h mem k old c = Some y"
  using assms
proof (induction "2147483660 - unat c" arbitrary: h k old c rule: less_induct)
  case less
  from next_odd_total [of c] less.prems(4) obtain c1 where c1: "next_odd c = Some c1" "unat c < unat c1" "unat c1 \<le> unat c + 10" by auto
  then have pos: "0 < unat c1" by simp
  from best_op_round [OF less.prems(1) pos, of "mem k"] obtain h1 q where
    h1: "rehash1 h (mem k) old (Malloced (unat c1)) = Some (h1, q)" and
    q: "if q = 0 then counted h1 (unat c1) \<and> mset (entries h1) = mset (entries h) \<and> capacity h1 = Malloced (unat c1) \<and> same_config h h1
        else h1 = h\<lparr>capacity := Malloced (unat c1)\<rparr>" by blast
  show ?case
  proof (cases "q = 0 \<and> hash_conflict_count h1 > 0")
    case False
    with c1 h1 show ?thesis by (subst best_op_loop.simps) auto
  next
    case True
    then have run: "best_op_loop h mem k old c = best_op_loop h1 mem (Suc k) (unat c1) c1"
      using c1(1) h1 by (subst best_op_loop.simps) simp
    have ok: "counted h1 (unat c1)" "mset (entries h1) = mset (entries h)" "max_bytes h1 = max_bytes h"
      using q True by (simp_all add: same_config_def)
    have tb: "total_bytes (entries h1) = total_bytes (entries h)" using ok(2) by (simp add: total_bytes_mset)
    have "\<not> bytes_used h + 8 * int (unat c1) > max_bytes h"
      using h1 True less.prems(2) by (auto simp: rehash1_def hash_alloc_buckets_def Let_def cap_value_def split: if_splits)
    moreover have "bytes_used h = 8 * int old + total_bytes (entries h)" using less.prems(1) by (simp add: counted_def)
    ultimately have "int (unat c1) < 2147483648" using less.prems(3) by linarith
    then have "unat c1 < 2147483648" by linarith
    with less.hyps [of c1 h1 "unat c1" "Suc k"] ok tb less.prems c1(2) show ?thesis unfolding run by simp
  qed
qed

section \<open>Correctness\<close>

text \<open>C32. Refinement: \<open>hash_init_ex\<close> with less than 1437356741 buckets asked for and memory for them gives a table,
  and any sequence of less than 143735675 insertions and deletions on it (whatever \<open>malloc\<close>, the byte limit and the
  growing of the table do on the way) runs without a read outside the table of primes, and ends in a table
  whose lookups give the map the same sequence builds, an insertion refused with a negative code leaving
  its key out; the count is the number of keys of that map.\<close>

theorem hash_table_refines_map:
  fixes ps :: "(bool \<times> bool \<times> int, byte list, 'v) dict_op list"
  assumes "cap < 1437356741" and "length ps < 143735675"
  shows "\<exists>h h' rs. hash_init_ex True hf cap lf limit mv = Some (Inr h) \<and>
    dict_run (\<lambda>(mem, rmem, n) h k v. hash_insert_ex h mem rmem k v n) hash_delete h ps = Some (h', rs) \<and>
    length rs = length ps \<and> (\<forall>k. hash_find h' k = Some (map_run Map.empty ps rs k)) \<and>
    hash_count h' = int (card (dom (map_run Map.empty ps rs)))"
proof -
  from init_room [OF assms(1), of hf lf limit mv "length ps"] assms(2) obtain h :: "'v HashArray" where
    h: "hash_init_ex True hf cap lf limit mv = Some (Inr h)" "hash_inv h" "hash_map h = Map.empty" "hash_room (length ps) h" by blast
  from hash_dict.find_after_run [OF h(2,4)] h(1,3) show ?thesis by auto
qed

theorem hash_table_refines_map_witness:
  "\<exists>h h' rs. hash_init_ex True (\<lambda>k. of_nat (length k)) 10 (1 / 2) 0 False = Some (Inr h) \<and>
    dict_run (\<lambda>(mem, rmem, n) h k v. hash_insert_ex h mem rmem k v n) hash_delete h
      [Insert_op (True, True, 1) [1] ''a'', Insert_op (True, False, 1) [2] ''b'', Delete_op [1]] = Some (h', rs) \<and>
    length rs = 3"
  using hash_table_refines_map [of 10 "[Insert_op (True, True, 1) [1] ''a'', Insert_op (True, False, 1) [2] ''b'', Delete_op [1]]"
      "\<lambda>k. of_nat (length k)" "1 / 2" 0 False] by auto

text \<open>\<open>hash_insert_ex\<close> on a consistent table that can still grow: the result is a consistent table with the same
  settings. It returns 1 or 0, and then the key has the new value and nothing else changed, 0 only for a key that was there;
  or it returns \<open>-ENOSPC\<close> or \<open>-ENOMEM\<close>, and then the key is not in the table and nothing else changed. With memory
  and without a limit it does not fail, also when the rehash it starts fails.\<close>

theorem hash_insert_correct:
  assumes "hash_inv h" and "grow_ok h"
  shows "\<exists>h' r. hash_insert_ex h mem rmem k v n = Some (h', r) \<and> hash_inv h' \<and> same_config h h' \<and>
    hash_map h' = (hash_map h)(k := (if r \<ge> 0 then Some v else None)) \<and>
    r \<in> {0, 1, - ENOSPC, - ENOMEM} \<and> (r = 0 \<longrightarrow> k \<in> dom (hash_map h)) \<and>
    (mem \<and> max_bytes h \<le> 0 \<longrightarrow> r \<ge> 0)"
  by (rule insert_spec [OF assms])

text \<open>A table of one bucket with one entry of five bytes, and a limit of 46 bytes.\<close>

definition one_entry :: "string HashArray" where
  "one_entry = \<lparr>buckets = [[\<lparr>hkey = [7], value_len = 5, malloc_value_size = 5, hvalue = ''first''\<rparr>]], hash_func = (\<lambda>_. 0),
     item_count = 1, capacity = Prime 0, load_factor = 1 / 2, max_bytes = 46, bytes_used = 46,
     is_malloc_capacity = False, is_malloc_value = True\<rparr>"

lemma one_entry_ok: "hash_inv one_entry" "grow_ok one_entry" "hash_map one_entry [7] = Some ''first''"
proof -
  have "cap_value (Prime 0) = Some 1" by (simp add: cap_value_def prime_array_def)
  then show "hash_inv one_entry"
    by (simp add: hash_inv_def one_entry_def buckets_ok_def entries_def index_in_def total_bytes_def CALC_NODE_MALLOC_BYTES_def)
  show "grow_ok one_entry" by (simp add: grow_ok_def one_entry_def)
  show "hash_map one_entry [7] = Some ''first''" by (simp add: hash_map_def one_entry_def entries_def)
qed

theorem hash_insert_correct_witness:
  "\<exists>h' r. hash_insert_ex one_entry True True [7] ''other'' 5 = Some (h', r) \<and> hash_inv h' \<and>
    hash_map h' [7] = (if r \<ge> 0 then Some ''other'' else None)"
  using hash_insert_correct [OF one_entry_ok(1,2), of True True "[7]" "''other''" 5] by (metis fun_upd_same)

text \<open>A key is lost by a refused update: in a table that copies values, when the new value needs more bytes than
  were allocated for the old one and the byte limit has no room for the difference, \<open>hash_insert_ex\<close> returns \<open>-ENOSPC\<close>
  after it has deleted the old entry, so that the key that was there is no longer found.\<close>

theorem hash_insert_enospc_loses_key:
  assumes "hash_inv h" and "is_malloc_value h" and "hash_find_ex h k = Some (Some d)" and "malloc_value_size d < n"
    and "0 < max_bytes h" and "max_bytes h < bytes_used h - malloc_value_size d + n"
  shows "\<exists>h'. hash_insert_ex h mem rmem k v n = Some (h', - ENOSPC) \<and> hash_find h k = Some (Some (hvalue d)) \<and>
    hash_find h' k = Some None"
proof -
  from assms(3) obtain i where i: "bucket_of h k = Some i" and d: "chain_find_entry (buckets h ! i) k = Some d"
    by (auto simp: hash_find_ex_def bind_eq_Some_conv)
  have k: "hkey d = k" "d \<in> set (entries h)" using hash_find_spec [OF assms(1), of k] assms(3) by auto
  let ?g = "DELETE_FROM_BUCKET h i d"
  have "hash_inv ?g" "hash_map ?g k = None"
    using remove_spec [OF assms(1) k(2), of i] i k(1) hash_map_remove [OF hash_inv_distinct [OF assms(1)], of d ?g] by simp_all
  then have "hash_find ?g k = Some None" using hash_dict.find_law by metis
  moreover have "hash_insert_ex h mem rmem k v n = Some (?g, - ENOSPC)"
    using assms i d k(1) by (simp add: hash_insert_ex_def hash_insert_new_def DELETE_FROM_BUCKET_def Let_def CALC_NODE_MALLOC_BYTES_def)
  moreover have "hash_find h k = Some (Some (hvalue d))" using i d by (simp add: hash_find_def)
  ultimately show ?thesis by blast
qed

theorem hash_insert_enospc_loses_key_witness:
  "\<exists>h'. hash_insert_ex one_entry True True [7] ''a longer value'' 14 = Some (h', - ENOSPC) \<and>
    hash_find one_entry [7] = Some (Some ''first'') \<and> hash_find h' [7] = Some None"
proof -
  have "cap_value (Prime 0) = Some 1" by (simp add: cap_value_def prime_array_def)
  then have "hash_find_ex one_entry [7] = Some (Some \<lparr>hkey = [7], value_len = 5, malloc_value_size = 5, hvalue = ''first''\<rparr>)"
    by (simp add: hash_find_ex_def bucket_of_def one_entry_def chain_find_entry_def HASH_CODE_def)
  from hash_insert_enospc_loses_key [OF one_entry_ok(1) _ this, of 14 True True "''a longer value''"] show ?thesis
    by (simp add: one_entry_def)
qed

definition conflict_free :: "'v HashArray \<Rightarrow> bool" where
  "conflict_free h \<longleftrightarrow> (\<forall>b \<in> set (buckets h). \<forall>d \<in> set b. \<forall>e \<in> set b.
     HASH_CODE (hash_func h) (hkey d) = HASH_CODE (hash_func h) (hkey e))"

lemma conflict_free_count: "hash_conflict_count h = 0 \<longleftrightarrow> conflict_free h"
proof -
  have "hash_conflict_count h = 0 \<longleftrightarrow> (\<forall>b \<in> set (buckets h). \<not> chain_conflict (hash_func h) b)"
    by (simp add: hash_conflict_count_def filter_empty_conv)
  then show ?thesis unfolding conflict_free_iff conflict_free_def .
qed

lemma unat_of_small_int:
  assumes "0 \<le> x" and "x < 2147483648"
  shows "unat (word_of_int x :: 32 word) < 2147483660"
proof -
  have "int (unat (word_of_int x :: 32 word)) = x" using assms by (simp add: uint_word_of_int)
  with assms(2) show ?thesis by linarith
qed

lemma conflict_item: "hash_conflict_count h \<noteq> 0 \<Longrightarrow> entries h \<noteq> []"
  by (force simp: hash_conflict_count_def filter_empty_conv entries_def)

text \<open>C33. \<open>hash_best_op\<close> on a consistent table with a byte limit below 16 GB returns, whatever \<open>malloc\<close> does: the table
  is consistent and stands for the same map, and unless the code is negative any two entries in
  one bucket have the same hash code.\<close>

theorem hash_best_op_correct:
  assumes "hash_inv h" and "0 < max_bytes h" and "max_bytes h < 17179869184" and "0 \<le> total_bytes (entries h)"
    and "item_count h < 1073741824" and "suggest < 2147483648"
  shows "\<exists>h' r. hash_best_op h m mem suggest = Some (h', r) \<and> hash_inv h' \<and> hash_map h' = hash_map h \<and>
    r \<in> {0, 1, - ENOSPC, - ENOMEM} \<and>
    (r \<ge> 0 \<longrightarrow> conflict_free h')"
proof (cases "hash_conflict_count h = 0 \<or> \<not> m")
  case True
  obtain c where "cap_value (capacity h) = Some c" using assms(1) by (auto simp: hash_inv_def)
  with True have "hash_best_op h m mem suggest = Some (h, if hash_conflict_count h = 0 then 0 else - ENOMEM)"
    by (auto simp: hash_best_op_def)
  with assms(1) conflict_free_count [of h] show ?thesis by auto
next
  case False
  obtain c where c: "cap_value (capacity h) = Some c" "counted h c" using assms(1) by (auto simp: hash_inv_def counted_def)
  let ?c0 = "if suggest > 2 \<and> suggest \<ge> item_count h then (let c = suggest - 2 in if c mod 2 = 0 then c + 1 else c)
             else 2 * (item_count h - 1) + 1"
  have "entries h \<noteq> []" using conflict_item [of h] False by simp
  then have "1 \<le> item_count h" using c(2) by (cases "entries h") (simp_all add: counted_def)
  then have "0 \<le> ?c0" "?c0 < 2147483648" using assms(5,6) by (auto simp: Let_def)
  then have "unat (word_of_int ?c0 :: 32 word) < 2147483660" by (rule unat_of_small_int)
  then obtain h' r where run: "best_op_loop h mem 0 c (word_of_int ?c0) = Some (h', r)"
    using best_op_loop_returns [OF c(2) assms(2), of "word_of_int ?c0" mem 0] assms(3,4) by auto
  note b = best_op_loop_spec [OF run c(2)]
  have "hash_best_op h m mem suggest = Some (h', r)" using False c(1) run by (simp add: hash_best_op_def Let_def)
  moreover have "hash_map h' = hash_map h" using hash_map_eqI [OF hash_inv_distinct [OF assms(1)]] b by blast
  ultimately show ?thesis using b conflict_free_count [of h'] by auto
qed

text \<open>Two entries in one bucket of a table of one bucket.\<close>

definition two_entries :: "string HashArray" where
  "two_entries = \<lparr>buckets = [[\<lparr>hkey = [1], value_len = 0, malloc_value_size = 0, hvalue = ''a''\<rparr>,
       \<lparr>hkey = [1, 1], value_len = 0, malloc_value_size = 0, hvalue = ''b''\<rparr>]], hash_func = (\<lambda>k. of_nat (length k)),
     item_count = 2, capacity = Prime 0, load_factor = 1 / 2, max_bytes = 1000, bytes_used = 75,
     is_malloc_capacity = False, is_malloc_value = False\<rparr>"

lemma two_entries_ok: "hash_inv two_entries" "0 \<le> total_bytes (entries two_entries)" "0 < max_bytes two_entries"
    "max_bytes two_entries < 17179869184" "item_count two_entries < 1073741824"
proof -
  have e: "entries two_entries = [\<lparr>hkey = [1], value_len = 0, malloc_value_size = 0, hvalue = ''a''\<rparr>,
       \<lparr>hkey = [1, 1], value_len = 0, malloc_value_size = 0, hvalue = ''b''\<rparr>]"
    by (simp add: entries_def two_entries_def)
  then have t: "total_bytes (entries two_entries) = 67" by (simp add: total_bytes_def CALC_NODE_MALLOC_BYTES_def)
  have "cap_value (capacity two_entries) = Some 1" by (simp add: cap_value_def prime_array_def two_entries_def)
  moreover have "buckets_ok two_entries 1" unfolding buckets_ok_def e by (simp add: two_entries_def index_in_def)
  moreover have "item_count two_entries = 2" "bytes_used two_entries = 75" by (simp_all add: two_entries_def)
  ultimately show "hash_inv two_entries" unfolding hash_inv_def t by (simp add: e)
  show "0 \<le> total_bytes (entries two_entries)" using t by simp
  show "0 < max_bytes two_entries" "max_bytes two_entries < 17179869184" "item_count two_entries < 1073741824"
    by (simp_all add: two_entries_def)
qed

theorem hash_best_op_correct_witness:
  "\<exists>h' r. hash_best_op two_entries True (\<lambda>_. True) 0 = Some (h', r) \<and> hash_map h' = hash_map two_entries"
proof -
  have "(0 :: int) < 2147483648" by simp
  from hash_best_op_correct [OF two_entries_ok(1,3,4,2,5) this, of True "\<lambda>_. True"] show ?thesis by blast
qed

end
