(* ===== verification/Storage_Path.thy ===== *)
theory Storage_Path
  imports Complex_Main Hash_Funcs
begin

text \<open>
  Where a new file goes: the choice of a store path (\<open>storage_get_storage_path_index\<close>) and of the two
  levels of sub directories (\<open>storage_get_store_path\<close>) in \<open>storage/storage_service.c\<close>, with the test of
  reserved space in \<open>tracker/fdfs_shared_func.c\<close>. The reserved ratio, a \<open>double\<close> in the code, is a
  rational number and its comparison exact. The global variables the two functions use are the two
  records below; \<open>pthread_mutex_lock\<close> only guards them.
\<close>

unbundle bit_operations_syntax

section \<open>Reserved space\<close>

datatype FDFSStorageReservedSpace = Reserved_MB int | Reserved_Ratio rat

definition fdfs_get_storage_reserved_space_mb :: "int \<Rightarrow> FDFSStorageReservedSpace \<Rightarrow> int" where
  "fdfs_get_storage_reserved_space_mb total_mb rs =
     (case rs of
        Reserved_MB mb \<Rightarrow> mb
      | Reserved_Ratio ratio \<Rightarrow>
          (let x = of_int total_mb * ratio in if x < 0 then - \<lfloor>- x\<rfloor> else \<lfloor>x\<rfloor>))"

definition fdfs_check_reserved_space_path :: "int \<Rightarrow> int \<Rightarrow> int \<Rightarrow> FDFSStorageReservedSpace \<Rightarrow> bool" where
  "fdfs_check_reserved_space_path total_mb free_mb avg_mb rs =
     (case rs of
        Reserved_MB mb \<Rightarrow> free_mb > avg_mb
      | Reserved_Ratio ratio \<Rightarrow>
          (if total_mb = 0 then False else of_int free_mb / of_int total_mb > ratio))"

section \<open>The store path\<close>

record FDFSStoragePathInfo =
  total_mb :: int
  free_mb :: int

record store_path_state =
  g_store_path_load_balance :: bool
  g_store_path_index :: int
  g_path_space_list :: "FDFSStoragePathInfo list"
  g_avg_storage_reserved_mb :: int
  g_storage_reserved_space :: FDFSStorageReservedSpace

definition has_space :: "store_path_state \<Rightarrow> FDFSStoragePathInfo \<Rightarrow> bool" where
  "has_space s p = fdfs_check_reserved_space_path (total_mb p) (free_mb p)
     (g_avg_storage_reserved_mb s) (g_storage_reserved_space s)"

text \<open>The loop over the paths: the first index with enough space.\<close>

fun first_space :: "store_path_state \<Rightarrow> FDFSStoragePathInfo list \<Rightarrow> int \<Rightarrow> int option" where
  "first_space s [] i = None"
| "first_space s (p # ps) i = (if has_space s p then Some i else first_space s ps (i + 1))"

definition rotate_index :: "store_path_state \<Rightarrow> store_path_state" where
  "rotate_index s =
     (let i = g_store_path_index s + 1 in
      s\<lparr>g_store_path_index := (if i \<ge> int (length (g_path_space_list s)) then 0 else i)\<rparr>)"

text \<open>An error number or the index, and the state after the call.\<close>

definition storage_get_storage_path_index :: "store_path_state \<Rightarrow> store_path_state \<times> (int + int)" where
  "storage_get_storage_path_index s =
     (let n = int (length (g_path_space_list s)); i = g_store_path_index s in
      if g_store_path_load_balance s then
        (if i < 0 \<or> i \<ge> n then (s, Inl ENOSPC) else (s, Inr i))
      else
        (let i1 = (if i \<ge> n then 0 else i) in
         if has_space s (g_path_space_list s ! nat i1) then (rotate_index s, Inr i1)
         else
           (case first_space s (g_path_space_list s) 0 of
              None \<Rightarrow> (s, Inl ENOSPC)
            | Some k \<Rightarrow> (rotate_index (s\<lparr>g_store_path_index := k\<rparr>), Inr k))))"

section \<open>The sub directories\<close>

record dist_state =
  g_dist_round_robin :: bool
  g_file_distribute_rotate_count :: int
  g_subdir_count_per_path :: int
  g_dist_path_index_high :: int
  g_dist_path_index_low :: int
  g_dist_write_file_count :: int
  g_stat_change_count :: int

definition rotate_dist :: "dist_state \<Rightarrow> dist_state" where
  "rotate_dist d =
     (let low = g_dist_path_index_low d + 1;
          d1 = (if low \<ge> g_subdir_count_per_path d then
                  (let high = g_dist_path_index_high d + 1
                   in d\<lparr>g_dist_path_index_high := (if high \<ge> g_subdir_count_per_path d then 0 else high),
                        g_dist_path_index_low := 0\<rparr>)
                else d\<lparr>g_dist_path_index_low := low\<rparr>)
      in d1\<lparr>g_dist_write_file_count := 0, g_stat_change_count := g_stat_change_count d1 + 1\<rparr>)"

definition storage_get_store_path :: "dist_state \<Rightarrow> byte list \<Rightarrow> dist_state \<times> int \<times> int" where
  "storage_get_store_path d filename =
     (if g_dist_round_robin d then
        (let n = g_dist_write_file_count d + 1;
             d1 = (if n \<ge> g_file_distribute_rotate_count d then rotate_dist d
                   else d\<lparr>g_dist_write_file_count := n\<rparr>)
         in (d1, g_dist_path_index_high d, g_dist_path_index_low d))
      else
        (let n = sint (PJWHash filename) mod 65536
         in (d, (drop_bit 8 n AND 255) mod g_subdir_count_per_path d, (n AND 255) mod g_subdir_count_per_path d)))"

section \<open>Properties\<close>

definition dist_ok :: "dist_state \<Rightarrow> bool" where
  "dist_ok d \<longleftrightarrow> 0 < g_subdir_count_per_path d \<and>
     0 \<le> g_dist_path_index_high d \<and> g_dist_path_index_high d < g_subdir_count_per_path d \<and>
     0 \<le> g_dist_path_index_low d \<and> g_dist_path_index_low d < g_subdir_count_per_path d"

lemma first_space_Some:
  "first_space s ps i = Some k \<Longrightarrow> i \<le> k \<and> k < i + int (length ps) \<and> has_space s (ps ! nat (k - i))"
proof (induction ps arbitrary: i)
  case (Cons p ps)
  show ?case
  proof (cases "has_space s p")
    case False
    with Cons have r: "i + 1 \<le> k" "k < i + 1 + int (length ps)" "has_space s (ps ! nat (k - (i + 1)))" by auto
    then have "nat (k - i) = Suc (nat (k - (i + 1)))" by linarith
    with r show ?thesis by simp
  qed (use Cons in auto)
qed simp

lemma first_space_None: "first_space s ps i = None \<longleftrightarrow> (\<forall>p \<in> set ps. \<not> has_space s p)"
  by (induction ps arbitrary: i) auto

lemma path_index_range:
  assumes "g_path_space_list s \<noteq> []" and "0 \<le> g_store_path_index s" and "storage_get_storage_path_index s = (s', r)"
  shows "g_path_space_list s' = g_path_space_list s" and "0 \<le> g_store_path_index s'"
    and "r = Inr i \<Longrightarrow> 0 \<le> i \<and> i < int (length (g_path_space_list s))"
proof -
  have "0 < int (length (g_path_space_list s))" using assms(1) by simp
  then show "g_path_space_list s' = g_path_space_list s" "0 \<le> g_store_path_index s'"
    "r = Inr i \<Longrightarrow> 0 \<le> i \<and> i < int (length (g_path_space_list s))"
    using assms first_space_Some [of s "g_path_space_list s" 0]
    by (auto simp: storage_get_storage_path_index_def rotate_index_def Let_def split: if_splits option.splits)
qed

text \<open>A new file always gets an existing sub directory: both indices are below the configured
  count, in round robin and in hash mode, and the state the next call starts from is in range again.
  In round robin mode the directory changes only after the configured number of files.\<close>

theorem store_path_in_range:
  assumes "dist_ok d" and "storage_get_store_path d filename = (d', high, low)"
  shows "0 \<le> high \<and> high < g_subdir_count_per_path d \<and> 0 \<le> low \<and> low < g_subdir_count_per_path d \<and> dist_ok d' \<and>
    (g_dist_round_robin d \<and> g_dist_write_file_count d + 1 < g_file_distribute_rotate_count d \<longrightarrow>
       g_dist_path_index_high d' = high \<and> g_dist_path_index_low d' = low)"
  using assms
  by (auto simp: dist_ok_def storage_get_store_path_def rotate_dist_def Let_def split: if_splits)

theorem store_path_in_range_witness:
  "dist_ok \<lparr>g_dist_round_robin = True, g_file_distribute_rotate_count = 100, g_subdir_count_per_path = 256,
     g_dist_path_index_high = 255, g_dist_path_index_low = 255, g_dist_write_file_count = 99, g_stat_change_count = 0\<rparr> \<and>
   dist_ok (fst (storage_get_store_path \<lparr>g_dist_round_robin = True, g_file_distribute_rotate_count = 100, g_subdir_count_per_path = 256,
     g_dist_path_index_high = 255, g_dist_path_index_low = 255, g_dist_write_file_count = 99, g_stat_change_count = 0\<rparr> [65]))"
proof -
  let ?d = "\<lparr>g_dist_round_robin = True, g_file_distribute_rotate_count = 100, g_subdir_count_per_path = 256,
     g_dist_path_index_high = 255, g_dist_path_index_low = 255, g_dist_write_file_count = 99, g_stat_change_count = 0\<rparr> :: dist_state"
  have ok: "dist_ok ?d" by (simp add: dist_ok_def)
  obtain d' h l where r: "storage_get_store_path ?d [65] = (d', h, l)" by (metis prod_cases3)
  from store_path_in_range [OF ok r] ok r show ?thesis by simp
qed

text \<open>The choice of the store path returns an index of an existing path; in the modes other than
  load balance that path has more free space than is reserved, the search fails only when no path has,
  and the index the next call starts from is in range.\<close>

theorem storage_path_index_correct:
  assumes "g_path_space_list s \<noteq> []" and "0 \<le> g_store_path_index s"
    and "storage_get_storage_path_index s = (s', r)"
  shows "(\<forall>i. r = Inr i \<longrightarrow> 0 \<le> i \<and> i < int (length (g_path_space_list s)) \<and>
      (\<not> g_store_path_load_balance s \<longrightarrow> has_space s (g_path_space_list s ! nat i))) \<and>
    (\<not> g_store_path_load_balance s \<longrightarrow>
      (\<forall>e. r = Inl e \<longrightarrow> e = ENOSPC \<and> (\<forall>p \<in> set (g_path_space_list s). \<not> has_space s p)) \<and>
      (r \<noteq> Inl ENOSPC \<longrightarrow> 0 \<le> g_store_path_index s' \<and> g_store_path_index s' < int (length (g_path_space_list s))))"
proof -
  have n: "0 < int (length (g_path_space_list s))" using assms(1) by simp
  note fs = first_space_Some [of s "g_path_space_list s" 0] first_space_None [of s "g_path_space_list s" 0]
  show ?thesis
  proof (cases "g_store_path_load_balance s")
    case True
    with assms(3) show ?thesis by (auto simp: storage_get_storage_path_index_def Let_def split: if_splits)
  next
    case False
    define i1 where "i1 = (if g_store_path_index s \<ge> int (length (g_path_space_list s)) then 0 else g_store_path_index s)"
    have i1: "0 \<le> i1" "i1 < int (length (g_path_space_list s))" using assms(2) n by (auto simp: i1_def)
    show ?thesis
    proof (cases "has_space s (g_path_space_list s ! nat i1)")
      case True
      with False assms(3) i1 n assms(2) show ?thesis
        by (auto simp: storage_get_storage_path_index_def Let_def i1_def [symmetric] rotate_index_def)
    next
      case no: False
      show ?thesis
      proof (cases "first_space s (g_path_space_list s) 0")
        case None
        with no False assms(3) fs(2) show ?thesis
          by (auto simp: storage_get_storage_path_index_def Let_def i1_def [symmetric])
      next
        case (Some k)
        with no False assms(3) fs(1) [OF Some] n show ?thesis
          by (auto simp: storage_get_storage_path_index_def Let_def i1_def [symmetric] rotate_index_def)
      qed
    qed
  qed
qed

definition sample_paths :: store_path_state where
  "sample_paths = \<lparr>g_store_path_load_balance = False, g_store_path_index = 0,
     g_path_space_list = [\<lparr>total_mb = 100, free_mb = 5\<rparr>, \<lparr>total_mb = 100, free_mb = 50\<rparr>],
     g_avg_storage_reserved_mb = 10, g_storage_reserved_space = Reserved_MB 10\<rparr>"

theorem storage_path_index_correct_witness:
  "has_space sample_paths (g_path_space_list sample_paths ! nat 1) \<and>
   snd (storage_get_storage_path_index sample_paths) = Inr 1"
proof -
  have r: "snd (storage_get_storage_path_index sample_paths) = Inr 1"
    by (simp add: sample_paths_def storage_get_storage_path_index_def has_space_def fdfs_check_reserved_space_path_def Let_def)
  obtain s' where "storage_get_storage_path_index sample_paths = (s', Inr 1)"
    using r by (metis prod.collapse)
  from storage_path_index_correct [OF _ _ this] r show ?thesis by (simp add: sample_paths_def)
qed

end
