(* ===== verification/Trunk_Mem.thy ===== *)
theory Trunk_Mem
  imports Storage_Path Trunk_Checker
begin

text \<open>
  The free space of trunk files, \<open>storage/trunk_mgr/trunk_mem.c\<close>: per store path an AVL tree of slots by
  block size, each slot with the chain of its blocks; the register of blocks by trunk file; the
  counter of free space; the id of the last trunk file; the records handed to the binlog.

  A chain is the list of its blocks, from the head on. The nodes the chains and the register share
  are modelled by value: a write to a node through a chain is also written to the block in the register.
  The state carries the flags and sizes of the configuration. An operation returns \<open>None\<close> where the
  code would follow a null pointer or index past the array of trees. What the system decides
  (allocations, the binlog write, files that exist) are arguments, collected in environment records.
  The two mutexes make the operations run one after another; they are not part of the state.
\<close>

section \<open>State\<close>

record FDFSTrunkSlot =
  slot_size :: int
  slot_head :: "FDFSTrunkFullInfo list"

datatype trunk_op = TRUNK_OP_TYPE_ADD_SPACE | TRUNK_OP_TYPE_DEL_SPACE

abbreviation (input) STORAGE_TRUNK_INIT_FLAG_DONE :: int where "STORAGE_TRUNK_INIT_FLAG_DONE \<equiv> 2"

record trunk_state =
  g_if_trunker_self :: bool
  trunk_init_flag :: int
  g_slot_min_size :: int
  g_slot_max_size :: int
  g_trunk_file_size :: int
  g_fdfs_store_paths :: "byte list list"
  store_path :: store_path_state
  dist_path :: dist_state
  tree_info_by_sizes :: "FDFSTrunkSlot AVLTreeInfo list"
  tree_info_by_id :: checker
  g_trunk_total_free_space :: int
  g_current_trunk_file_id :: int
  trunk_binlog :: "(trunk_op \<times> FDFSTrunkFullInfo) list"

definition trunk_mem_binlog_write :: "trunk_state \<Rightarrow> int \<Rightarrow> trunk_op \<Rightarrow> FDFSTrunkFullInfo \<Rightarrow> trunk_state \<times> int" where
  "trunk_mem_binlog_write st res op_type pTrunk =
     (st\<lparr>g_trunk_total_free_space :=
          (case op_type of
             TRUNK_OP_TYPE_ADD_SPACE \<Rightarrow> g_trunk_total_free_space st + bsize pTrunk
           | TRUNK_OP_TYPE_DEL_SPACE \<Rightarrow> g_trunk_total_free_space st - bsize pTrunk),
        trunk_binlog := trunk_binlog st @ [(op_type, pTrunk)]\<rparr>, res)"

definition storage_trunk_node_compare_size :: "FDFSTrunkSlot compare" where
  "storage_trunk_node_compare_size p1 p2 = c_int (slot_size p1 - slot_size p2)"

definition path_bytes :: "FDFSTrunkPathInfo \<Rightarrow> byte list" where
  "path_bytes p = [store_path_index p, sub_path_high p, sub_path_low p]"

definition storage_trunk_node_compare_offset :: "FDFSTrunkFullInfo compare" where
  "storage_trunk_node_compare_offset p1 p2 =
     (let r1 = memcmp (path_bytes (path p1)) (path_bytes (path p2)) in
      if r1 \<noteq> 0 then r1
      else
        (let r2 = c_int (trunk_id (tfile p1) - trunk_id (tfile p2)) in
         if r2 \<noteq> 0 then r2 else c_int (offset p1 - offset p2)))"

text \<open>\<open>STORAGE_TRUNK_CHECK_STATUS\<close>\<close>

definition status_ok :: "trunk_state \<Rightarrow> bool" where
  "status_ok st \<longleftrightarrow> g_if_trunker_self st \<and> trunk_init_flag st = STORAGE_TRUNK_INIT_FLAG_DONE"

definition path_index :: "FDFSTrunkFullInfo \<Rightarrow> nat" where
  "path_index b = unat (store_path_index (path b))"

definition size_tree :: "trunk_state \<Rightarrow> nat \<Rightarrow> FDFSTrunkSlot AVLTreeInfo option" where
  "size_tree st i = (if i < length (tree_info_by_sizes st) then Some (tree_info_by_sizes st ! i) else None)"

definition set_tree :: "trunk_state \<Rightarrow> nat \<Rightarrow> FDFSTrunkSlot AVLTreeInfo \<Rightarrow> trunk_state" where
  "set_tree st i tree = st\<lparr>tree_info_by_sizes := (tree_info_by_sizes st)[i := tree]\<rparr>"

definition target_slot :: "int \<Rightarrow> FDFSTrunkSlot" where
  "target_slot n = \<lparr>slot_size = n, slot_head = []\<rparr>"

section \<open>Adding and removing blocks\<close>

record add_env =
  slot_alloc :: bool
  slot_tree_mem :: bool
  chk_env :: checker_env
  binlog_res :: int

text \<open>The first half of \<open>trunk_add_free_block\<close>: the block becomes the head of the chain of its size.\<close>

definition push_chain :: "trunk_state \<Rightarrow> add_env \<Rightarrow> FDFSTrunkFullInfo \<Rightarrow> (trunk_state \<times> int) option" where
  "push_chain st env pNode =
     do {
       tree \<leftarrow> size_tree st (path_index pNode);
       case avl_tree_find tree (target_slot (bsize pNode)) of
         None \<Rightarrow>
           if \<not> slot_alloc env then Some (st, ENOMEM)
           else do {
             (tree1, res) \<leftarrow> avl_tree_insert (slot_tree_mem env) tree \<lparr>slot_size = bsize pNode, slot_head = [pNode]\<rparr>;
             Some (set_tree st (path_index pNode) tree1, if res \<noteq> 1 then ENOMEM else 0)
           }
       | Some chain \<Rightarrow>
           Some (set_tree st (path_index pNode)
                   (avl_tree_write tree (target_slot (bsize pNode)) (\<lambda>s. s\<lparr>slot_head := pNode # slot_head s\<rparr>)), 0)
     }"

definition trunk_add_free_block :: "trunk_state \<Rightarrow> add_env \<Rightarrow> FDFSTrunkFullInfo \<Rightarrow> bool \<Rightarrow> (trunk_state \<times> int) option" where
  "trunk_add_free_block st env pNode bWriteBinLog =
     (let result = trunk_free_block_check_duplicate (tree_info_by_id st) pNode in
      if result \<noteq> 0 then Some (st, result)
      else do {
        (st1, r1) \<leftarrow> push_chain st env pNode;
        if r1 \<noteq> 0 then Some (st1, r1)
        else do {
          let (st2, r2) =
            (if bWriteBinLog then trunk_mem_binlog_write st1 (binlog_res env) TRUNK_OP_TYPE_ADD_SPACE pNode
             else (st1\<lparr>g_trunk_total_free_space := g_trunk_total_free_space st1 + bsize pNode\<rparr>, 0));
          (chk, r3) \<leftarrow> trunk_free_block_insert (tree_info_by_id st2) (chk_env env) pNode;
          Some (st2\<lparr>tree_info_by_id := chk\<rparr>, if r2 = 0 then r3 else r2)
        }
      })"

definition trunk_free_space :: "trunk_state \<Rightarrow> bool \<Rightarrow> add_env \<Rightarrow> FDFSTrunkFullInfo \<Rightarrow> bool \<Rightarrow> (trunk_state \<times> int) option" where
  "trunk_free_space st node_alloc env pTrunkInfo bWriteBinLog =
     (if \<not> g_if_trunker_self st then Some (st, EINVAL)
      else if trunk_init_flag st \<noteq> STORAGE_TRUNK_INIT_FLAG_DONE \<and> bWriteBinLog then Some (st, EINVAL)
      else if bsize pTrunkInfo < g_slot_min_size st then Some (st, 0)
      else if \<not> node_alloc then Some (st, ENOMEM)
      else trunk_add_free_block st env (pTrunkInfo\<lparr>status := FDFS_TRUNK_STATUS_FREE\<rparr>) bWriteBinLog)"

definition trunk_delete_size_tree_entry :: "trunk_state \<Rightarrow> nat \<Rightarrow> FDFSTrunkSlot \<Rightarrow> trunk_state option" where
  "trunk_delete_size_tree_entry st i pSlot =
     do {
       tree \<leftarrow> size_tree st i;
       (tree1, res, freed) \<leftarrow> avl_tree_delete tree pSlot;
       Some (set_tree st i tree1)
     }"

text \<open>
  Unlinking a node from the chain of a slot: the head moves on or the previous node is linked to the next;
  a slot whose chain becomes empty leaves the tree.
\<close>

definition unlink_node :: "trunk_state \<Rightarrow> nat \<Rightarrow> FDFSTrunkSlot \<Rightarrow> FDFSTrunkFullInfo \<Rightarrow> trunk_state option" where
  "unlink_node st i pSlot pCurrent =
     (let rest = remove1 pCurrent (slot_head pSlot) in
      do {
        tree \<leftarrow> size_tree st i;
        let st1 = set_tree st i (avl_tree_write tree pSlot (\<lambda>s. s\<lparr>slot_head := rest\<rparr>));
        if rest = [] then trunk_delete_size_tree_entry st1 i pSlot else Some st1
      })"

text \<open>A block leaves its chain and the register; the counter is adjusted by the caller.\<close>

definition take_block :: "trunk_state \<Rightarrow> nat \<Rightarrow> FDFSTrunkSlot \<Rightarrow> FDFSTrunkFullInfo \<Rightarrow> bool \<Rightarrow> trunk_state option" where
  "take_block st i pSlot b realloc_ok =
     do {
       st1 \<leftarrow> unlink_node st i pSlot b;
       (chk, r) \<leftarrow> trunk_free_block_delete (tree_info_by_id st1) realloc_ok b;
       Some (st1\<lparr>tree_info_by_id := chk\<rparr>)
     }"

definition trunk_delete_space :: "trunk_state \<Rightarrow> bool \<Rightarrow> int \<Rightarrow> FDFSTrunkFullInfo \<Rightarrow> bool \<Rightarrow> (trunk_state \<times> int) option" where
  "trunk_delete_space st realloc_ok binlog_result pTrunkInfo bWriteBinLog =
     do {
       tree \<leftarrow> size_tree st (path_index pTrunkInfo);
       case avl_tree_find tree (target_slot (bsize pTrunkInfo)) of
         None \<Rightarrow> Some (st, ENOENT)
       | Some pSlot \<Rightarrow>
           if pTrunkInfo \<notin> set (slot_head pSlot) then Some (st, ENOENT)
           else do {
             st2 \<leftarrow> take_block st (path_index pTrunkInfo) pSlot pTrunkInfo realloc_ok;
             Some (if bWriteBinLog then trunk_mem_binlog_write st2 binlog_result TRUNK_OP_TYPE_DEL_SPACE pTrunkInfo
                   else (st2\<lparr>g_trunk_total_free_space := g_trunk_total_free_space st2 - bsize pTrunkInfo\<rparr>, 0))
           }
     }"

text \<open>Writing to a node that is in a chain and in the register.\<close>

definition write_node :: "FDFSTrunkFullInfo \<Rightarrow> FDFSTrunkFullInfo \<Rightarrow> FDFSTrunkFullInfo list \<Rightarrow> FDFSTrunkFullInfo list" where
  "write_node b b' xs = map (\<lambda>y. if y = b then b' else y) xs"

definition write_registered :: "checker \<Rightarrow> FDFSTrunkFullInfo \<Rightarrow> FDFSTrunkFullInfo \<Rightarrow> checker" where
  "write_registered chk b b' =
     (let target = empty_entry (FILL_FILE_IDENTIFIER b) in
      case avl_tree_find chk target of
        None \<Rightarrow> chk
      | Some e \<Rightarrow>
          (let arr = (block_array e)\<lparr>ba_blocks := write_node b b' (ba_blocks (block_array e))\<rparr>
           in avl_tree_write chk target (\<lambda>e. e\<lparr>block_array := arr\<rparr>)))"

definition trunk_restore_node :: "trunk_state \<Rightarrow> FDFSTrunkFullInfo \<Rightarrow> (trunk_state \<times> int) option" where
  "trunk_restore_node st pTrunkInfo =
     do {
       tree \<leftarrow> size_tree st (path_index pTrunkInfo);
       case avl_tree_find tree (target_slot (bsize pTrunkInfo)) of
         None \<Rightarrow> Some (st, ENOENT)
       | Some pSlot \<Rightarrow>
           if pTrunkInfo \<notin> set (slot_head pSlot) then Some (st, ENOENT)
           else
             (let b' = pTrunkInfo\<lparr>status := FDFS_TRUNK_STATUS_FREE\<rparr>;
                  tree1 = avl_tree_write tree pSlot (\<lambda>s. s\<lparr>slot_head := write_node pTrunkInfo b' (slot_head s)\<rparr>)
              in Some ((set_tree st (path_index pTrunkInfo) tree1)\<lparr>tree_info_by_id :=
                         write_registered (tree_info_by_id st) pTrunkInfo b'\<rparr>, 0))
     }"

section \<open>The comparison functions\<close>

definition slot_ok :: "FDFSTrunkSlot \<Rightarrow> bool" where
  "slot_ok s \<longleftrightarrow> 0 \<le> slot_size s \<and> slot_size s < 2 ^ 31"

interpretation by_size: avl_order storage_trunk_node_compare_size slot_size slot_ok
proof
  fix a b assume "slot_ok a" "slot_ok b"
  then have "c_int (slot_size a - slot_size b) = slot_size a - slot_size b"
    by (simp add: slot_ok_def int_range_def)
  then show "(storage_trunk_node_compare_size a b > 0) = (slot_size b < slot_size a)"
    "(storage_trunk_node_compare_size a b < 0) = (slot_size a < slot_size b)"
    by (simp_all add: storage_trunk_node_compare_size_def)
qed

text \<open>The order of \<open>storage_trunk_node_compare_offset\<close>: by store path, sub directories, trunk file, offset.\<close>

definition node_key :: "FDFSTrunkFullInfo \<Rightarrow> int list" where
  "node_key b = [uint (store_path_index (path b)), uint (sub_path_high (path b)), uint (sub_path_low (path b)),
     trunk_id (tfile b), offset b]"

definition node_ok :: "FDFSTrunkFullInfo \<Rightarrow> bool" where
  "node_ok b \<longleftrightarrow> 0 \<le> trunk_id (tfile b) \<and> trunk_id (tfile b) < 2 ^ 31 \<and> 0 \<le> offset b \<and> offset b < 2 ^ 31"

lemma c_int_diff: "\<lbrakk>0 \<le> a; a < 2 ^ 31; 0 \<le> b; b < 2 ^ 31\<rbrakk> \<Longrightarrow> c_int (a - b) = a - b"
  by (simp add: int_range_def)

lemma compare_offset_sign:
  assumes "node_ok a" and "node_ok b"
  shows "(storage_trunk_node_compare_offset a b < 0) = (node_key a < node_key b)"
    and "(storage_trunk_node_compare_offset a b > 0) = (node_key b < node_key a)"
  using assms
  by (auto simp: storage_trunk_node_compare_offset_def node_key_def node_ok_def c_int_diff path_bytes_def
      word_uint_eq_iff word_less_def)

interpretation by_offset: avl_order storage_trunk_node_compare_offset node_key node_ok
  using compare_offset_sign by unfold_locales

section \<open>The invariant\<close>

definition tree_blocks :: "FDFSTrunkSlot AVLTreeInfo \<Rightarrow> FDFSTrunkFullInfo list" where
  "tree_blocks t = concat (map slot_head (inorder (root t)))"

definition free_blocks :: "trunk_state \<Rightarrow> FDFSTrunkFullInfo list" where
  "free_blocks st = concat (map tree_blocks (tree_info_by_sizes st))"

text \<open>
  The chains of a tree hold blocks of the size of their slot, and the store path of the tree; no chain is
  empty. The greatest \<open>int\<close> is not a block size, so that the size after it can be searched for.
\<close>

definition chain_ok :: "nat \<Rightarrow> FDFSTrunkSlot \<Rightarrow> bool" where
  "chain_ok i s \<longleftrightarrow> slot_head s \<noteq> [] \<and>
     (\<forall>b \<in> set (slot_head s). bsize b = slot_size s \<and> path_index b = i \<and> bend b < 2 ^ 31 - 1)"

definition size_tree_inv :: "nat \<Rightarrow> FDFSTrunkSlot AVLTreeInfo \<Rightarrow> bool" where
  "size_tree_inv i t \<longleftrightarrow> compare_func t = storage_trunk_node_compare_size \<and>
     avl_inv slot_size slot_ok (root t) \<and> (\<forall>s \<in> set (inorder (root t)). chain_ok i s)"

definition trees_inv :: "trunk_state \<Rightarrow> bool" where
  "trees_inv st \<longleftrightarrow> (\<forall>i < length (tree_info_by_sizes st). size_tree_inv i (tree_info_by_sizes st ! i))"

text \<open>
  The chains and the register hold the same blocks. The counter of free space is the sum of their sizes
  and an amount \<open>d\<close>, which is not zero only while an allocation holds a block outside.
\<close>

definition total_size :: "FDFSTrunkFullInfo list \<Rightarrow> int" where
  "total_size bs = sum_list (map bsize bs)"

definition trunk_inv :: "int \<Rightarrow> trunk_state \<Rightarrow> bool" where
  "trunk_inv d st \<longleftrightarrow> trees_inv st \<and> checker_inv (tree_info_by_id st) \<and>
     mset (free_blocks st) = mset (checker_blocks (tree_info_by_id st)) \<and>
     g_trunk_total_free_space st = total_size (free_blocks st) + d"

lemma total_size_mset: "total_size bs = (\<Sum>b \<in># mset bs. bsize b)"
  by (simp add: total_size_def sum_mset_sum_list flip: mset_map)

section \<open>Slots and chains\<close>

lemma target_slot_size [simp]: "slot_size (target_slot n) = n" "slot_head (target_slot n) = []"
  by (simp_all add: target_slot_def)

lemma size_tree_find:
  assumes "size_tree_inv i t" and "0 \<le> n" and "n < 2 ^ 31"
  shows "avl_tree_find t (target_slot n) = List.find (\<lambda>s. slot_size s = n) (inorder (root t))"
  using assms by_size.tree_find_spec [of t "target_slot n"] by (simp add: size_tree_inv_def slot_ok_def)

lemma tree_blocks_mem:
  assumes "size_tree_inv i t" and "b \<in> set (tree_blocks t)"
  obtains s where "s \<in> set (inorder (root t))" and "b \<in> set (slot_head s)" and "slot_size s = bsize b"
    and "path_index b = i" and "bend b < 2 ^ 31 - 1"
  using assms that by (fastforce simp: tree_blocks_def size_tree_inv_def chain_ok_def)

text \<open>A change of the chain of one slot.\<close>

lemma write_chain_spec:
  assumes "size_tree_inv i t" and "inorder (root t) = l @ s # r" and "slot_size x = slot_size s"
  shows "\<exists>t'. avl_tree_write t x (\<lambda>s. s\<lparr>slot_head := f (slot_head s)\<rparr>) = t\<lparr>root := t'\<rparr> \<and>
    avl_inv slot_size slot_ok t' \<and> inorder t' = l @ s\<lparr>slot_head := f (slot_head s)\<rparr> # r"
proof -
  have inv: "compare_func t = storage_trunk_node_compare_size" "avl_inv slot_size slot_ok (root t)"
    using assms(1) by (simp_all add: size_tree_inv_def)
  have "slot_ok s" using inv(2) assms(2) by (simp add: avl_inv_def)
  then have x: "slot_ok x" using assms(3) by (simp add: slot_ok_def)
  have srt: "sorted_key slot_size (l @ s # r)" using inv(2) assms(2) by (simp add: avl_inv_def)
  have ne: "\<forall>y \<in> set l. slot_size y \<noteq> slot_size x" "\<forall>y \<in> set r. slot_size y \<noteq> slot_size x"
    using srt assms(3) by auto
  have "slot_ok (y\<lparr>slot_head := h\<rparr>)" if "y \<in> set (inorder (root t))" for y h
    using inv(2) that by (simp add: avl_inv_def slot_ok_def)
  with by_size.tree_write_spec [OF inv x, of "\<lambda>s. s\<lparr>slot_head := f (slot_head s)\<rparr>"]
  obtain t' where "avl_tree_write t x (\<lambda>s. s\<lparr>slot_head := f (slot_head s)\<rparr>) = t\<lparr>root := t'\<rparr>"
      "avl_inv slot_size slot_ok t'"
      "inorder t' = map (\<lambda>y. if slot_size y = slot_size x then y\<lparr>slot_head := f (slot_head y)\<rparr> else y) (inorder (root t))"
    by auto
  moreover have "map (\<lambda>y. if slot_size y = slot_size x then y\<lparr>slot_head := f (slot_head y)\<rparr> else y) l = l"
    "map (\<lambda>y. if slot_size y = slot_size x then y\<lparr>slot_head := f (slot_head y)\<rparr> else y) r = r"
    using ne by (auto intro!: map_idI)
  ultimately show ?thesis using assms(2,3) by auto
qed

lemma size_tree_split:
  assumes "size_tree_inv i t" and "s \<in> set (inorder (root t))"
  obtains l r where "inorder (root t) = l @ s # r" and "\<forall>y \<in> set (l @ r). slot_size y \<noteq> slot_size s \<and> chain_ok i y"
    and "chain_ok i s" and "slot_ok s"
proof -
  obtain l r where lr: "inorder (root t) = l @ s # r" using split_list [OF assms(2)] by blast
  have srt: "sorted_key slot_size (l @ s # r)" and ok: "\<forall>y \<in> set (l @ s # r). chain_ok i y \<and> slot_ok y"
    using assms(1) lr by (simp_all add: size_tree_inv_def avl_inv_def)
  then have "\<forall>y \<in> set (l @ r). slot_size y \<noteq> slot_size s \<and> chain_ok i y" by auto
  then show thesis using that [OF lr] ok by simp
qed

text \<open>What an update of one tree does to the state.\<close>

lemma set_tree_blocks:
  assumes "trees_inv st" and "i < length (tree_info_by_sizes st)" and "size_tree_inv i t'"
  shows "trees_inv (set_tree st i t')"
    and "mset (free_blocks (set_tree st i t')) + mset (tree_blocks (tree_info_by_sizes st ! i)) =
      mset (free_blocks st) + mset (tree_blocks t')"
proof -
  show "trees_inv (set_tree st i t')"
    using assms by (auto simp: trees_inv_def set_tree_def nth_list_update)
  let ?ts = "tree_info_by_sizes st"
  have "mset (?ts[i := t']) + {#?ts ! i#} = mset ?ts + {#t'#}"
    using assms(2) by (simp add: mset_update)
  from arg_cong [OF this, of "\<lambda>m. \<Sum>y \<in># m. mset (tree_blocks y)"]
  show "mset (free_blocks (set_tree st i t')) + mset (tree_blocks (?ts ! i)) = mset (free_blocks st) + mset (tree_blocks t')"
    by (simp add: free_blocks_def set_tree_def mset_concat_map add.commute)
qed

text \<open>The part of the state that moving blocks between chains and register does not touch.\<close>

definition same_rest :: "trunk_state \<Rightarrow> trunk_state \<Rightarrow> bool" where
  "same_rest st st' \<longleftrightarrow> g_if_trunker_self st' = g_if_trunker_self st \<and> trunk_init_flag st' = trunk_init_flag st \<and>
     g_slot_min_size st' = g_slot_min_size st \<and> g_slot_max_size st' = g_slot_max_size st \<and>
     g_trunk_file_size st' = g_trunk_file_size st \<and> g_fdfs_store_paths st' = g_fdfs_store_paths st \<and>
     length (tree_info_by_sizes st') = length (tree_info_by_sizes st)"

lemma same_rest_refl [simp]: "same_rest st st"
  by (simp add: same_rest_def)

lemma same_rest_trans [trans]: "\<lbrakk>same_rest a b; same_rest b c\<rbrakk> \<Longrightarrow> same_rest a c"
  by (simp add: same_rest_def)

definition keeps_rest :: "trunk_state \<Rightarrow> trunk_state \<Rightarrow> bool" where
  "keeps_rest st st' \<longleftrightarrow> same_rest st st' \<and> tree_info_by_id st' = tree_info_by_id st \<and>
     g_trunk_total_free_space st' = g_trunk_total_free_space st \<and> trunk_binlog st' = trunk_binlog st"

lemma keeps_rest_set_tree [simp]: "keeps_rest st (set_tree st i t)"
  by (simp add: keeps_rest_def same_rest_def set_tree_def)

lemma push_existing:
  assumes "size_tree_inv i t" and "s \<in> set (inorder (root t))" and "slot_size s = bsize b"
    and "path_index b = i" and "bend b < 2 ^ 31 - 1"
  shows "\<exists>t'. avl_tree_write t (target_slot (bsize b)) (\<lambda>s. s\<lparr>slot_head := b # slot_head s\<rparr>) = t' \<and>
    size_tree_inv i t' \<and> mset (tree_blocks t') = add_mset b (mset (tree_blocks t))"
proof -
  obtain l r where lr: "inorder (root t) = l @ s # r" "\<forall>y \<in> set (l @ r). slot_size y \<noteq> slot_size s \<and> chain_ok i y" "chain_ok i s"
    using size_tree_split [OF assms(1,2)] by metis
  from write_chain_spec [OF assms(1) lr(1), of "target_slot (bsize b)" "\<lambda>h. b # h"] assms(3)
  obtain t' where t': "avl_tree_write t (target_slot (bsize b)) (\<lambda>s. s\<lparr>slot_head := b # slot_head s\<rparr>) = t\<lparr>root := t'\<rparr>"
      "avl_inv slot_size slot_ok t'" "inorder t' = l @ s\<lparr>slot_head := b # slot_head s\<rparr> # r" by auto
  then show ?thesis using assms lr
    by (auto simp: size_tree_inv_def chain_ok_def tree_blocks_def)
qed

lemma push_new:
  assumes "size_tree_inv i t" and "\<forall>s \<in> set (inorder (root t)). slot_size s \<noteq> bsize b"
    and "path_index b = i" and "bend b < 2 ^ 31 - 1" and "block_ok b"
  shows "\<exists>t' r. avl_tree_insert mem t \<lparr>slot_size = bsize b, slot_head = [b]\<rparr> = Some (t', r) \<and> size_tree_inv i t' \<and>
    (if mem then r = 1 \<and> mset (tree_blocks t') = add_mset b (mset (tree_blocks t))
     else r \<noteq> 1 \<and> tree_blocks t' = tree_blocks t)"
proof -
  let ?s = "\<lparr>slot_size = bsize b, slot_head = [b]\<rparr> :: FDFSTrunkSlot"
  have inv: "compare_func t = storage_trunk_node_compare_size" "avl_inv slot_size slot_ok (root t)"
    using assms(1) by (simp_all add: size_tree_inv_def)
  have ok: "slot_ok ?s" using assms(5) by (simp add: slot_ok_def block_ok_def bend_def)
  have none: "\<not> (\<exists>y \<in> set (inorder (root t)). slot_size y = slot_size ?s)" using assms(2) by auto
  from by_size.tree_insert_spec [OF inv ok, of mem] obtain t' where
    t': "avl_tree_insert mem t ?s = Some (t\<lparr>root := t'\<rparr>, if mem then 1 else - ENOMEM)" "avl_inv slot_size slot_ok t'"
      "inorder t' = (if mem then put_key slot_size ?s (inorder (root t)) else inorder (root t))"
    using none by (cases mem) (auto simp: insert_result_def)
  have "chain_ok i ?s" using assms by (simp add: chain_ok_def)
  moreover have "mset (put_key slot_size ?s (inorder (root t))) = add_mset ?s (mset (inorder (root t)))"
    using none by (intro mset_put_key) auto
  ultimately show ?thesis using t' assms(1)
    by (auto simp: size_tree_inv_def tree_blocks_def mset_concat_map set_put_key)
qed

lemma push_chain_spec:
  assumes "trees_inv st" and "block_ok b" and "bend b < 2 ^ 31 - 1" and "path_index b < length (tree_info_by_sizes st)"
  shows "\<exists>st' r. push_chain st env b = Some (st', r) \<and> trees_inv st' \<and> keeps_rest st st' \<and>
    (slot_alloc env \<and> slot_tree_mem env \<longrightarrow> r = 0) \<and>
    mset (free_blocks st') = (if r = 0 then add_mset b (mset (free_blocks st)) else mset (free_blocks st))"
proof -
  let ?i = "path_index b" and ?t = "tree_info_by_sizes st ! path_index b"
  have tr: "size_tree st ?i = Some ?t" using assms(4) by (simp add: size_tree_def)
  have inv: "size_tree_inv ?i ?t" using assms(1,4) by (simp add: trees_inv_def)
  have rng: "0 \<le> bsize b" "bsize b < 2 ^ 31" using assms(2) by (auto simp: block_ok_def bend_def)
  note find = size_tree_find [OF inv rng]
  note upd = set_tree_blocks [OF assms(1,4)]
  show ?thesis
  proof (cases "avl_tree_find ?t (target_slot (bsize b))")
    case None
    then have none: "\<forall>s \<in> set (inorder (root ?t)). slot_size s \<noteq> bsize b" using find by (auto simp: find_None_iff)
    show ?thesis
    proof (cases "slot_alloc env")
      case True
      from push_new [OF inv none refl assms(3,2), of "slot_tree_mem env"]
      obtain t' r where t': "avl_tree_insert (slot_tree_mem env) ?t \<lparr>slot_size = bsize b, slot_head = [b]\<rparr> = Some (t', r)"
        "size_tree_inv ?i t'" "if slot_tree_mem env then r = 1 \<and> mset (tree_blocks t') = add_mset b (mset (tree_blocks ?t))
          else r \<noteq> 1 \<and> tree_blocks t' = tree_blocks ?t" by blast
      with upd [OF t'(2)] True None tr show ?thesis
        by (cases "slot_tree_mem env") (simp_all add: push_chain_def)
    qed (use None tr assms in \<open>simp add: push_chain_def keeps_rest_def\<close>)
  next
    case (Some s)
    then have s: "s \<in> set (inorder (root ?t))" "slot_size s = bsize b" using find by (auto dest: find_Some_mem)
    let ?t' = "avl_tree_write ?t (target_slot (bsize b)) (\<lambda>s. s\<lparr>slot_head := b # slot_head s\<rparr>)"
    have t': "size_tree_inv ?i ?t'" "mset (tree_blocks ?t') = add_mset b (mset (tree_blocks ?t))"
      using push_existing [OF inv s refl assms(3)] by auto
    with upd [OF t'(1)] Some tr show ?thesis by (simp add: push_chain_def)
  qed
qed

section \<open>Adding a block\<close>

definition add_granted :: "add_env \<Rightarrow> bool" where
  "add_granted env \<longleftrightarrow> slot_alloc env \<and> slot_tree_mem env \<and>
     id_malloc (chk_env env) \<and> id_tree_mem (chk_env env) \<and> id_realloc (chk_env env)"

text \<open>The state after a block went in: the chains, the register, the counter and the binlog.\<close>

definition added :: "trunk_state \<Rightarrow> FDFSTrunkFullInfo \<Rightarrow> bool \<Rightarrow> trunk_state \<Rightarrow> bool" where
  "added st b logged st' \<longleftrightarrow> same_rest st st' \<and> mset (free_blocks st') = add_mset b (mset (free_blocks st)) \<and>
     trunk_binlog st' = trunk_binlog st @ (if logged then [(TRUNK_OP_TYPE_ADD_SPACE, b)] else [])"

definition conflict :: "trunk_state \<Rightarrow> FDFSTrunkFullInfo \<Rightarrow> bool" where
  "conflict st b \<longleftrightarrow> (\<exists>c \<in> set (free_blocks st). overlap b c)"

lemma inv_set_blocks: "trunk_inv d st \<Longrightarrow> set (checker_blocks (tree_info_by_id st)) = set (free_blocks st)"
  by (metis set_mset_mset trunk_inv_def)

lemma add_free_block_spec:
  assumes "trunk_inv d st" and "block_ok b" and "bend b < 2 ^ 31 - 1"
    and "path_index b < length (tree_info_by_sizes st)" and "add_granted env"
  shows "conflict st b \<Longrightarrow> trunk_add_free_block st env b logged = Some (st, EEXIST)"
    and "\<not> conflict st b \<Longrightarrow>
      \<exists>st'. trunk_add_free_block st env b logged = Some (st', if logged then binlog_res env else 0) \<and>
        trunk_inv d st' \<and> added st b logged st'"
proof -
  let ?chk = "tree_info_by_id st"
  have inv: "trees_inv st" "checker_inv ?chk" using assms(1) by (simp_all add: trunk_inv_def)
  have sets: "set (checker_blocks ?chk) = set (free_blocks st)" by (rule inv_set_blocks [OF assms(1)])
  have dup: "trunk_free_block_check_duplicate ?chk b = (if conflict st b then EEXIST else 0)"
    using checker.check_spec [OF inv(2) assms(2)] sets by (simp add: conflict_def)
  show "conflict st b \<Longrightarrow> trunk_add_free_block st env b logged = Some (st, EEXIST)"
    using dup by (simp add: trunk_add_free_block_def)
  assume no: "\<not> conflict st b"
  obtain st1 where st1: "push_chain st env b = Some (st1, 0)" "trees_inv st1" "keeps_rest st st1"
      "mset (free_blocks st1) = add_mset b (mset (free_blocks st))"
    using push_chain_spec [OF inv(1) assms(2-4), of env] assms(5) by (auto simp: add_granted_def)
  from checker.checked_insert [OF inv(2) assms(2), of "chk_env env"] no dup assms(5)
  obtain chk where chk: "trunk_free_block_insert ?chk (chk_env env) b = Some (chk, 0)" "checker_inv chk"
      "mset (checker_blocks chk) = add_mset b (mset (checker_blocks ?chk))"
    by (auto simp: add_granted_def)
  have k: "tree_info_by_id st1 = ?chk" "g_trunk_total_free_space st1 = g_trunk_total_free_space st"
      "trunk_binlog st1 = trunk_binlog st" "same_rest st st1"
    using st1(3) by (simp_all add: keeps_rest_def)
  have parts: "free_blocks (st1\<lparr>g_trunk_total_free_space := n, trunk_binlog := l, tree_info_by_id := c\<rparr>) = free_blocks st1"
      "free_blocks (st1\<lparr>g_trunk_total_free_space := n, tree_info_by_id := c\<rparr>) = free_blocks st1"
      "trees_inv (st1\<lparr>g_trunk_total_free_space := n, trunk_binlog := l, tree_info_by_id := c\<rparr>)"
      "trees_inv (st1\<lparr>g_trunk_total_free_space := n, tree_info_by_id := c\<rparr>)" for n l c
    using st1(2) by (simp_all add: free_blocks_def trees_inv_def)
  show "\<exists>st'. trunk_add_free_block st env b logged = Some (st', if logged then binlog_res env else 0) \<and>
      trunk_inv d st' \<and> added st b logged st'"
  proof (cases logged)
    case True
    then have "trunk_add_free_block st env b logged =
        Some (st1\<lparr>g_trunk_total_free_space := g_trunk_total_free_space st + bsize b,
          trunk_binlog := trunk_binlog st @ [(TRUNK_OP_TYPE_ADD_SPACE, b)], tree_info_by_id := chk\<rparr>, binlog_res env)"
      using no dup st1 chk k by (simp add: trunk_add_free_block_def trunk_mem_binlog_write_def)
    with True parts st1 chk k assms(1) show ?thesis
      by (simp add: trunk_inv_def added_def total_size_mset same_rest_def)
  next
    case False
    then have "trunk_add_free_block st env b logged =
        Some (st1\<lparr>g_trunk_total_free_space := g_trunk_total_free_space st + bsize b, tree_info_by_id := chk\<rparr>, 0)"
      using no dup st1 chk k by (simp add: trunk_add_free_block_def)
    with False parts st1 chk k assms(1) show ?thesis
      by (simp add: trunk_inv_def added_def total_size_mset same_rest_def)
  qed
qed

section \<open>Taking a block out\<close>

lemma unlink_tree:
  assumes "size_tree_inv i t" and "s \<in> set (inorder (root t))" and "b \<in> set (slot_head s)"
    and "t1 = avl_tree_write t s (\<lambda>s'. s'\<lparr>slot_head := remove1 b (slot_head s)\<rparr>)"
  shows "remove1 b (slot_head s) \<noteq> [] \<Longrightarrow>
      size_tree_inv i t1 \<and> mset (tree_blocks t) = add_mset b (mset (tree_blocks t1))"
    and "remove1 b (slot_head s) = [] \<Longrightarrow>
      \<exists>t2 res freed. avl_tree_delete t1 s = Some (t2, res, freed) \<and> size_tree_inv i t2 \<and>
        mset (tree_blocks t) = add_mset b (mset (tree_blocks t2))"
proof -
  let ?rest = "remove1 b (slot_head s)"
  obtain l r where lr: "inorder (root t) = l @ s # r" "\<forall>y \<in> set (l @ r). slot_size y \<noteq> slot_size s \<and> chain_ok i y"
      "chain_ok i s" "slot_ok s"
    using size_tree_split [OF assms(1,2)] by metis
  obtain t' where t': "t1 = t\<lparr>root := t'\<rparr>" "avl_inv slot_size slot_ok t'" "inorder t' = l @ s\<lparr>slot_head := ?rest\<rparr> # r"
    using write_chain_spec [OF assms(1) lr(1) refl, of "\<lambda>_. ?rest"] assms(4) by auto
  have ms: "mset (slot_head s) = add_mset b (mset ?rest)" using assms(3) by simp
  show "size_tree_inv i t1 \<and> mset (tree_blocks t) = add_mset b (mset (tree_blocks t1))" if "?rest \<noteq> []"
  proof -
    have "chain_ok i (s\<lparr>slot_head := ?rest\<rparr>)" using lr(3) that set_remove1_subset [of b "slot_head s"]
      by (auto simp: chain_ok_def)
    then show ?thesis using t' lr assms(1) ms
      by (auto simp: size_tree_inv_def tree_blocks_def)
  qed
  assume none: "?rest = []"
  have inv1: "compare_func t1 = storage_trunk_node_compare_size" "avl_inv slot_size slot_ok (root t1)"
    using assms(1) t' by (simp_all add: size_tree_inv_def)
  from by_size.tree_delete_spec [OF inv1 lr(4)] obtain t2 where
    t2: "avl_tree_delete t1 s = Some (t1\<lparr>root := t2\<rparr>, snd (delete_result slot_size (free_data_func t1) s (inorder (root t1))))"
      "avl_inv slot_size slot_ok t2" "inorder t2 = fst (delete_result slot_size (free_data_func t1) s (inorder (root t1)))"
    by blast
  have "del_key slot_size (slot_size s) (l @ s\<lparr>slot_head := ?rest\<rparr> # r) = l @ r"
    using lr(2) by (simp add: del_key_absent)
  then have "inorder t2 = l @ r" using t2(3) t'(1,3) by (simp add: delete_result_def)
  moreover have "mset (slot_head s) = {#b#}" using ms none by simp
  ultimately show "\<exists>t2 res freed. avl_tree_delete t1 s = Some (t2, res, freed) \<and> size_tree_inv i t2 \<and>
      mset (tree_blocks t) = add_mset b (mset (tree_blocks t2))"
    using t2(1,2) lr(1,2) inv1(1)
    by (auto simp: size_tree_inv_def tree_blocks_def intro!: exI [of _ "t1\<lparr>root := t2\<rparr>"])
qed

lemma unlink_node_spec:
  assumes "trees_inv st" and "i < length (tree_info_by_sizes st)"
    and "s \<in> set (inorder (root (tree_info_by_sizes st ! i)))" and "b \<in> set (slot_head s)"
  shows "\<exists>st'. unlink_node st i s b = Some st' \<and> trees_inv st' \<and> keeps_rest st st' \<and>
    mset (free_blocks st) = add_mset b (mset (free_blocks st'))"
proof -
  let ?t = "tree_info_by_sizes st ! i" and ?rest = "remove1 b (slot_head s)"
  let ?t1 = "avl_tree_write ?t s (\<lambda>s'. s'\<lparr>slot_head := ?rest\<rparr>)"
  have inv: "size_tree_inv i ?t" using assms(1,2) by (simp add: trees_inv_def)
  have tr: "size_tree st i = Some ?t" "size_tree (set_tree st i t) i = Some t" for t
    using assms(2) by (simp_all add: size_tree_def set_tree_def)
  have tt: "set_tree (set_tree st i t) i t' = set_tree st i t'" for t t' by (simp add: set_tree_def)
  note u = unlink_tree [OF inv assms(3,4) refl] and upd = set_tree_blocks [OF assms(1,2)]
  show ?thesis
  proof (cases "?rest = []")
    case True
    from u(2) [OF this] obtain t2 res freed where t2: "avl_tree_delete ?t1 s = Some (t2, res, freed)" "size_tree_inv i t2"
        "mset (tree_blocks ?t) = add_mset b (mset (tree_blocks t2))" by blast
    with True have "unlink_node st i s b = Some (set_tree st i t2)"
      by (simp add: unlink_node_def trunk_delete_size_tree_entry_def tr tt)
    with upd [OF t2(2)] t2(3) show ?thesis by simp
  next
    case False
    note t1 = u(1) [OF this]
    have "unlink_node st i s b = Some (set_tree st i ?t1)" using False by (simp add: unlink_node_def tr)
    with upd [of ?t1] t1 show ?thesis by simp
  qed
qed

lemma take_block_spec:
  assumes "trunk_inv d st" and "i < length (tree_info_by_sizes st)"
    and "s \<in> set (inorder (root (tree_info_by_sizes st ! i)))" and "b \<in> set (slot_head s)"
  shows "\<exists>st'. take_block st i s b mem = Some st' \<and> trunk_inv (d + bsize b) st' \<and> same_rest st st' \<and>
    trunk_binlog st' = trunk_binlog st \<and> mset (free_blocks st) = add_mset b (mset (free_blocks st'))"
proof -
  have inv: "trees_inv st" "checker_inv (tree_info_by_id st)" using assms(1) by (simp_all add: trunk_inv_def)
  obtain st1 where st1: "unlink_node st i s b = Some st1" "trees_inv st1" "keeps_rest st st1"
      "mset (free_blocks st) = add_mset b (mset (free_blocks st1))"
    using unlink_node_spec [OF inv(1) assms(2-4)] by blast
  then have "b \<in># mset (free_blocks st)" by simp
  then have "b \<in> set (checker_blocks (tree_info_by_id st))" using assms(1) unfolding trunk_inv_def by (metis set_mset_mset)
  from checker.del_spec [OF inv(2) this, of mem] obtain chk r where
    chk: "trunk_free_block_delete (tree_info_by_id st) mem b = Some (chk, r)" "checker_inv chk"
      "mset (checker_blocks (tree_info_by_id st)) = add_mset b (mset (checker_blocks chk))" by blast
  have k: "tree_info_by_id st1 = tree_info_by_id st" "g_trunk_total_free_space st1 = g_trunk_total_free_space st"
      "trunk_binlog st1 = trunk_binlog st" "same_rest st st1" using st1(3) by (simp_all add: keeps_rest_def)
  have "take_block st i s b mem = Some (st1\<lparr>tree_info_by_id := chk\<rparr>)" using st1(1) chk(1) k(1) by (simp add: take_block_def)
  moreover have "free_blocks (st1\<lparr>tree_info_by_id := chk\<rparr>) = free_blocks st1" by (simp add: free_blocks_def)
  moreover have "trees_inv (st1\<lparr>tree_info_by_id := chk\<rparr>)" using st1(2) by (simp add: trees_inv_def)
  moreover have "same_rest st (st1\<lparr>tree_info_by_id := chk\<rparr>)" using k(4) by (simp add: same_rest_def)
  ultimately show ?thesis using st1(4) chk k assms(1)
    by (simp add: trunk_inv_def total_size_mset)
qed


text \<open>A search for a block by its size and store path finds it if it is there.\<close>

lemma concat_map_nth: "b \<in> set (concat (map f xs)) \<longleftrightarrow> (\<exists>i < length xs. b \<in> set (f (xs ! i)))"
  by (simp add: set_conv_nth [of xs]) blast

lemma free_blocks_mem:
  assumes "trees_inv st"
  shows "b \<in> set (free_blocks st) \<longleftrightarrow>
    path_index b < length (tree_info_by_sizes st) \<and> b \<in> set (tree_blocks (tree_info_by_sizes st ! path_index b))"
proof
  assume "b \<in> set (free_blocks st)"
  then obtain i where i: "i < length (tree_info_by_sizes st)" "b \<in> set (tree_blocks (tree_info_by_sizes st ! i))"
    by (auto simp: free_blocks_def concat_map_nth simp del: set_concat)
  then have "size_tree_inv i (tree_info_by_sizes st ! i)" using assms by (simp add: trees_inv_def)
  from tree_blocks_mem [OF this i(2)] i
  show "path_index b < length (tree_info_by_sizes st) \<and> b \<in> set (tree_blocks (tree_info_by_sizes st ! path_index b))" by metis
qed (auto simp: free_blocks_def)

lemma find_chain:
  assumes "trees_inv st" and "path_index b < length (tree_info_by_sizes st)" and "0 \<le> bsize b" and "bsize b < 2 ^ 31"
  shows "b \<in> set (free_blocks st) \<longleftrightarrow>
      (\<exists>s. avl_tree_find (tree_info_by_sizes st ! path_index b) (target_slot (bsize b)) = Some s \<and> b \<in> set (slot_head s))"
    and "avl_tree_find (tree_info_by_sizes st ! path_index b) (target_slot (bsize b)) = Some s \<Longrightarrow>
      s \<in> set (inorder (root (tree_info_by_sizes st ! path_index b))) \<and> slot_size s = bsize b"
proof -
  let ?t = "tree_info_by_sizes st ! path_index b"
  have inv: "size_tree_inv (path_index b) ?t" using assms(1,2) by (simp add: trees_inv_def)
  note find = size_tree_find [OF inv assms(3,4)]
  have found: "avl_tree_find ?t (target_slot (bsize b)) = Some s \<Longrightarrow> s \<in> set (inorder (root ?t)) \<and> slot_size s = bsize b" for s
    using find by (auto dest: find_Some_mem)
  then show "avl_tree_find ?t (target_slot (bsize b)) = Some s \<Longrightarrow> s \<in> set (inorder (root ?t)) \<and> slot_size s = bsize b" .
  show "b \<in> set (free_blocks st) \<longleftrightarrow> (\<exists>s. avl_tree_find ?t (target_slot (bsize b)) = Some s \<and> b \<in> set (slot_head s))"
  proof
    assume "b \<in> set (free_blocks st)"
    then have "b \<in> set (tree_blocks ?t)" using free_blocks_mem [OF assms(1)] by blast
    then obtain s where s: "s \<in> set (inorder (root ?t))" "b \<in> set (slot_head s)" "slot_size s = bsize b"
      using tree_blocks_mem [OF inv] by metis
    then obtain s' where s': "avl_tree_find ?t (target_slot (bsize b)) = Some s'" using find
      by (metis (mono_tags, lifting) find_None_iff not_None_eq)
    then have "s' \<in> set (inorder (root ?t))" "slot_size s' = bsize b" using found by blast+
    then have "s' = s" using s inv sorted_key_inj [of slot_size "inorder (root ?t)" s' s]
      by (simp add: size_tree_inv_def avl_inv_def)
    with s s' show "\<exists>s. avl_tree_find ?t (target_slot (bsize b)) = Some s \<and> b \<in> set (slot_head s)" by blast
  next
    assume "\<exists>s. avl_tree_find ?t (target_slot (bsize b)) = Some s \<and> b \<in> set (slot_head s)"
    then have "b \<in> set (tree_blocks ?t)" using found by (auto simp: tree_blocks_def)
    then show "b \<in> set (free_blocks st)" using free_blocks_mem [OF assms(1)] assms(2) by blast
  qed
qed

lemma mem_block_ok:
  assumes "trunk_inv d st" and "b \<in> set (free_blocks st)"
  shows "block_ok b" and "bend b < 2 ^ 31 - 1" and "path_index b < length (tree_info_by_sizes st)"
    and "0 \<le> bsize b" and "bsize b < 2 ^ 31 - 1"
proof -
  show ok: "block_ok b"
    using checker.blocks_ok [of "tree_info_by_id st" b] assms inv_set_blocks [OF assms(1)] by (simp add: trunk_inv_def)
  have t: "trees_inv st" using assms(1) by (simp add: trunk_inv_def)
  then have m: "path_index b < length (tree_info_by_sizes st)" "b \<in> set (tree_blocks (tree_info_by_sizes st ! path_index b))"
    using free_blocks_mem assms(2) by blast+
  then show "path_index b < length (tree_info_by_sizes st)" by simp
  have "size_tree_inv (path_index b) (tree_info_by_sizes st ! path_index b)" using t m(1) by (simp add: trees_inv_def)
  from tree_blocks_mem [OF this m(2)] show be: "bend b < 2 ^ 31 - 1" by metis
  show "0 \<le> bsize b" "bsize b < 2 ^ 31 - 1" using ok be by (auto simp: block_ok_def bend_def)
qed

definition removed :: "trunk_state \<Rightarrow> FDFSTrunkFullInfo \<Rightarrow> bool \<Rightarrow> trunk_state \<Rightarrow> bool" where
  "removed st b logged st' \<longleftrightarrow> same_rest st st' \<and> mset (free_blocks st) = add_mset b (mset (free_blocks st')) \<and>
     trunk_binlog st' = trunk_binlog st @ (if logged then [(TRUNK_OP_TYPE_DEL_SPACE, b)] else [])"

lemma trunk_inv_counter:
  "trunk_inv d st \<Longrightarrow> trunk_inv (d + k) (st\<lparr>g_trunk_total_free_space := g_trunk_total_free_space st + k\<rparr>)"
  "trunk_inv d st \<Longrightarrow> trunk_inv (d - k) (st\<lparr>g_trunk_total_free_space := g_trunk_total_free_space st - k\<rparr>)"
  by (simp_all add: trunk_inv_def trees_inv_def free_blocks_def)

lemma trunk_inv_binlog [simp]: "trunk_inv d (st\<lparr>trunk_binlog := l\<rparr>) = trunk_inv d st"
  by (simp add: trunk_inv_def trees_inv_def free_blocks_def)

lemma binlog_write_spec:
  assumes "trunk_inv d st" and "trunk_mem_binlog_write st res op b = (st', r)"
  shows "r = res" and "free_blocks st' = free_blocks st" and "same_rest st st'"
    and "trunk_binlog st' = trunk_binlog st @ [(op, b)]"
    and "trunk_inv (case op of TRUNK_OP_TYPE_ADD_SPACE \<Rightarrow> d + bsize b | TRUNK_OP_TYPE_DEL_SPACE \<Rightarrow> d - bsize b) st'"
  using assms by (auto simp: trunk_mem_binlog_write_def free_blocks_def same_rest_def trunk_inv_def trees_inv_def split: trunk_op.splits)

lemma delete_space_spec:
  assumes "trunk_inv d st" and "path_index b < length (tree_info_by_sizes st)" and "0 \<le> bsize b" and "bsize b < 2 ^ 31"
  shows "b \<notin> set (free_blocks st) \<Longrightarrow> trunk_delete_space st mem res b logged = Some (st, ENOENT)"
    and "b \<in> set (free_blocks st) \<Longrightarrow>
      \<exists>st'. trunk_delete_space st mem res b logged = Some (st', if logged then res else 0) \<and>
        trunk_inv d st' \<and> removed st b logged st'"
proof -
  have t: "trees_inv st" using assms(1) by (simp add: trunk_inv_def)
  have tr: "size_tree st (path_index b) = Some (tree_info_by_sizes st ! path_index b)" using assms(2) by (simp add: size_tree_def)
  note fc = find_chain [OF t assms(2-4)]
  show "b \<notin> set (free_blocks st) \<Longrightarrow> trunk_delete_space st mem res b logged = Some (st, ENOENT)"
    using fc(1) tr by (auto simp: trunk_delete_space_def split: option.split)
  assume "b \<in> set (free_blocks st)"
  with fc obtain s where s: "avl_tree_find (tree_info_by_sizes st ! path_index b) (target_slot (bsize b)) = Some s"
      "b \<in> set (slot_head s)" "s \<in> set (inorder (root (tree_info_by_sizes st ! path_index b)))" by blast
  from take_block_spec [OF assms(1,2) s(3,2), of mem] obtain st2 where
    st2: "take_block st (path_index b) s b mem = Some st2" "trunk_inv (d + bsize b) st2" "same_rest st st2"
      "trunk_binlog st2 = trunk_binlog st" "mset (free_blocks st) = add_mset b (mset (free_blocks st2))" by blast
  show "\<exists>st'. trunk_delete_space st mem res b logged = Some (st', if logged then res else 0) \<and>
      trunk_inv d st' \<and> removed st b logged st'"
  proof (cases logged)
    case True
    obtain st3 r where st3: "trunk_mem_binlog_write st2 res TRUNK_OP_TYPE_DEL_SPACE b = (st3, r)" by fastforce
    note w = binlog_write_spec [OF st2(2) st3]
    have "trunk_delete_space st mem res b logged = Some (st3, res)"
      using True s st2(1) st3 w(1) tr by (simp add: trunk_delete_space_def)
    with True w st2 show ?thesis using same_rest_trans [OF st2(3) w(3)] by (simp add: removed_def)
  next
    case False
    let ?st3 = "st2\<lparr>g_trunk_total_free_space := g_trunk_total_free_space st2 - bsize b\<rparr>"
    have "trunk_delete_space st mem res b logged = Some (?st3, 0)"
      using False s st2(1) tr by (simp add: trunk_delete_space_def)
    with False st2 trunk_inv_counter(2) [OF st2(2), of "bsize b"] show ?thesis
      by (simp add: removed_def same_rest_def free_blocks_def)
  qed
qed

section \<open>Restoring a held block\<close>

lemma mset_write_node:
  assumes "distinct xs" and "b \<in> set xs"
  shows "mset (write_node b b' xs) = add_mset b' (mset xs - {#b#})"
proof -
  obtain l r where lr: "xs = l @ b # r" using split_list [OF assms(2)] by blast
  then have "b \<notin> set l" "b \<notin> set r" using assms(1) by auto
  then have "write_node b b' xs = l @ b' # r" unfolding lr write_node_def by (auto intro!: map_idI)
  then show ?thesis using lr by simp
qed

lemma blocks_ok_write_status:
  assumes "blocks_ok bs"
  shows "blocks_ok (write_node b (b\<lparr>status := v\<rparr>) bs)"
proof -
  have eq: "tfile (if y = b then b\<lparr>status := v\<rparr> else y) = tfile y" for y by simp
  have "sorted_wrt (\<lambda>a b. bend a \<le> offset b) bs" using assms by (simp add: blocks_ok_def)
  then have "sorted_wrt (\<lambda>a b. bend a \<le> offset b) (write_node b (b\<lparr>status := v\<rparr>) bs)"
    unfolding write_node_def sorted_wrt_map bend_def eq by (simp add: bend_def)
  then show ?thesis using assms by (auto simp: blocks_ok_def write_node_def block_ok_def bend_def)
qed

lemma write_registered_spec:
  assumes "checker_inv t" and "b \<in> set (checker_blocks t)"
  shows "checker_inv (write_registered t b (b\<lparr>status := v\<rparr>)) \<and>
    mset (checker_blocks (write_registered t b (b\<lparr>status := v\<rparr>))) = add_mset (b\<lparr>status := v\<rparr>) (mset (checker_blocks t) - {#b#})"
proof -
  let ?b' = "b\<lparr>status := v\<rparr>"
  obtain e where e: "e \<in> set (inorder (root t))" "b \<in> set (ba_blocks (block_array e))"
      "trunk_file_id e = FILL_FILE_IDENTIFIER b" "block_ok b"
    using checker_block_entry [OF assms] by metis
  have ok: "entry_ok e" by (rule checker_entries_ok [OF assms(1) e(1)])
  let ?bs = "ba_blocks (block_array e)"
  let ?arr = "(block_array e)\<lparr>ba_blocks := write_node b ?b' ?bs\<rparr>"
  have bs: "blocks_ok ?bs" "\<forall>c \<in> set ?bs. FILL_FILE_IDENTIFIER c = FILL_FILE_IDENTIFIER b"
    using ok e(3) by (simp_all add: entry_ok_def)
  have arr: "blocks_ok (ba_blocks ?arr)" "\<forall>c \<in> set (ba_blocks ?arr). FILL_FILE_IDENTIFIER c = FILL_FILE_IDENTIFIER b"
      "int (length (ba_blocks ?arr)) \<le> ba_alloc ?arr"
    using blocks_ok_write_status [OF bs(1)] bs(2) ok by (auto simp: write_node_def FILL_FILE_IDENTIFIER_def entry_ok_def)
  have find: "avl_tree_find t (empty_entry (FILL_FILE_IDENTIFIER b)) = Some e"
    using checker_find_Some [OF assms(1) e(4)] e by blast
  have ms: "mset (write_node b ?b' ?bs) = add_mset ?b' (mset ?bs - {#b#})"
    using mset_write_node blocks_ok_no_overlap(1) [OF bs(1)] e(2) by blast
  from write_array_spec [OF assms(1) e(4,1,3) arr] obtain M where
    "checker_inv (write_registered t b ?b')" "mset (checker_blocks t) = M + mset ?bs"
    "mset (checker_blocks (write_registered t b ?b')) = M + mset (write_node b ?b' ?bs)"
    using find by (auto simp: write_registered_def)
  then show ?thesis using ms e(2) by simp
qed

lemma restore_chain:
  assumes "size_tree_inv i t" and "s \<in> set (inorder (root t))" and "b \<in> set (slot_head s)" and "distinct (slot_head s)"
    and "t' = avl_tree_write t s (\<lambda>s. s\<lparr>slot_head := write_node b (b\<lparr>status := v\<rparr>) (slot_head s)\<rparr>)"
  shows "size_tree_inv i t' \<and> mset (tree_blocks t') = add_mset (b\<lparr>status := v\<rparr>) (mset (tree_blocks t) - {#b#})"
proof -
  obtain l r where lr: "inorder (root t) = l @ s # r" "\<forall>y \<in> set (l @ r). slot_size y \<noteq> slot_size s \<and> chain_ok i y"
      "chain_ok i s" "slot_ok s"
    using size_tree_split [OF assms(1,2)] by metis
  let ?h = "write_node b (b\<lparr>status := v\<rparr>) (slot_head s)"
  obtain t1 where t1: "t' = t\<lparr>root := t1\<rparr>" "avl_inv slot_size slot_ok t1" "inorder t1 = l @ s\<lparr>slot_head := ?h\<rparr> # r"
    using write_chain_spec [OF assms(1) lr(1) refl, of "write_node b (b\<lparr>status := v\<rparr>)"] assms(5) by auto
  have "chain_ok i (s\<lparr>slot_head := ?h\<rparr>)" using lr(3)
    by (auto simp: chain_ok_def write_node_def path_index_def bend_def)
  then show ?thesis using t1 lr assms(1) mset_write_node [OF assms(4,3)] assms(3)
    by (auto simp: size_tree_inv_def tree_blocks_def)
qed

lemma chain_distinct:
  assumes "trunk_inv d st" and "i < length (tree_info_by_sizes st)" and "s \<in> set (inorder (root (tree_info_by_sizes st ! i)))"
  shows "distinct (slot_head s)"
proof -
  have "distinct (checker_blocks (tree_info_by_id st))" using assms(1) checker.no_overlap by (simp add: trunk_inv_def)
  then have "distinct (free_blocks st)" using assms(1) by (metis mset_eq_imp_distinct_iff trunk_inv_def)
  moreover have "distinct ys" if "distinct (concat xss)" "ys \<in> set xss" for ys and xss :: "FDFSTrunkFullInfo list list"
    using that by (auto simp: distinct_concat_iff)
  ultimately show ?thesis using assms(2,3) unfolding free_blocks_def tree_blocks_def
    by (metis (no_types, lifting) image_eqI list.set_map nth_mem)
qed

definition restored :: "trunk_state \<Rightarrow> FDFSTrunkFullInfo \<Rightarrow> trunk_state \<Rightarrow> bool" where
  "restored st b st' \<longleftrightarrow> same_rest st st' \<and> trunk_binlog st' = trunk_binlog st \<and>
     mset (free_blocks st') = add_mset (b\<lparr>status := FDFS_TRUNK_STATUS_FREE\<rparr>) (mset (free_blocks st) - {#b#})"

lemma mset_exchange:
  assumes "X + T = F + add_mset b' (T - {#b#})" and "b \<in># T" and "b \<in># F"
  shows "X = add_mset b' (F - {#b#})"
proof -
  obtain T' F' where "T = add_mset b T'" "F = add_mset b F'" using assms(2,3) by (metis mset_add)
  with assms(1) show ?thesis by simp
qed

lemma restore_node_spec:
  assumes "trunk_inv d st" and "path_index b < length (tree_info_by_sizes st)" and "0 \<le> bsize b" and "bsize b < 2 ^ 31"
  shows "b \<notin> set (free_blocks st) \<Longrightarrow> trunk_restore_node st b = Some (st, ENOENT)"
    and "b \<in> set (free_blocks st) \<Longrightarrow> \<exists>st'. trunk_restore_node st b = Some (st', 0) \<and> trunk_inv d st' \<and> restored st b st'"
proof -
  let ?t = "tree_info_by_sizes st ! path_index b" and ?b' = "b\<lparr>status := FDFS_TRUNK_STATUS_FREE\<rparr>"
  have t: "trees_inv st" "checker_inv (tree_info_by_id st)" using assms(1) by (simp_all add: trunk_inv_def)
  have tr: "size_tree st (path_index b) = Some ?t" using assms(2) by (simp add: size_tree_def)
  note fc = find_chain [OF t(1) assms(2-4)]
  show "b \<notin> set (free_blocks st) \<Longrightarrow> trunk_restore_node st b = Some (st, ENOENT)"
    using fc(1) tr by (auto simp: trunk_restore_node_def split: option.split)
  assume b: "b \<in> set (free_blocks st)"
  with fc obtain s where s: "avl_tree_find ?t (target_slot (bsize b)) = Some s"
      "b \<in> set (slot_head s)" "s \<in> set (inorder (root ?t))" by blast
  let ?t' = "avl_tree_write ?t s (\<lambda>s. s\<lparr>slot_head := write_node b ?b' (slot_head s)\<rparr>)"
  let ?chk = "write_registered (tree_info_by_id st) b ?b'"
  have inv: "size_tree_inv (path_index b) ?t" using t(1) assms(2) by (simp add: trees_inv_def)
  have t': "size_tree_inv (path_index b) ?t'" "mset (tree_blocks ?t') = add_mset ?b' (mset (tree_blocks ?t) - {#b#})"
    using restore_chain [OF inv s(3,2) chain_distinct [OF assms(1,2) s(3)] refl] by blast+
  note upd = set_tree_blocks [OF t(1) assms(2) t'(1)]
  have bt: "b \<in># mset (tree_blocks ?t)" using s(2,3) by (auto simp: tree_blocks_def)
  have ms: "mset (free_blocks (set_tree st (path_index b) ?t')) = add_mset ?b' (mset (free_blocks st) - {#b#})"
    using mset_exchange [OF upd(2) [unfolded t'(2)] bt] b by simp
  have chk: "checker_inv ?chk" "mset (checker_blocks ?chk) = add_mset ?b' (mset (checker_blocks (tree_info_by_id st)) - {#b#})"
    using write_registered_spec [OF t(2), of b] b inv_set_blocks [OF assms(1)] by blast+
  let ?st = "(set_tree st (path_index b) ?t')\<lparr>tree_info_by_id := ?chk\<rparr>"
  have fb: "free_blocks ?st = free_blocks (set_tree st (path_index b) ?t')" by (simp add: free_blocks_def)
  have r: "trunk_restore_node st b = Some (?st, 0)" using s tr by (simp add: trunk_restore_node_def Let_def)
  have sum: "(\<Sum>y \<in># add_mset ?b' (mset (free_blocks st) - {#b#}). bsize y) = (\<Sum>y \<in># mset (free_blocks st). bsize y)"
  proof -
    obtain F where "mset (free_blocks st) = add_mset b F" using b by (metis mset_add set_mset_mset)
    then show ?thesis by simp
  qed
  have rest: "g_trunk_total_free_space ?st = g_trunk_total_free_space st" "tree_info_by_id ?st = ?chk"
    "trunk_binlog ?st = trunk_binlog st" "same_rest st ?st" "trees_inv ?st"
    using upd(1) by (simp_all add: set_tree_def same_rest_def trees_inv_def)
  have old: "mset (free_blocks st) = mset (checker_blocks (tree_info_by_id st))"
      "g_trunk_total_free_space st = (\<Sum>y \<in># mset (free_blocks st). bsize y) + d"
    using assms(1) by (simp_all add: trunk_inv_def total_size_mset)
  have "trunk_inv d ?st" unfolding trunk_inv_def total_size_mset rest(1,2) fb ms sum
    using chk old rest(5) by simp
  moreover have "restored st b ?st" unfolding restored_def fb ms using rest by simp
  ultimately show "\<exists>st'. trunk_restore_node st b = Some (st', 0) \<and> trunk_inv d st' \<and> restored st b st'"
    using r by blast
qed

section \<open>Properties\<close>

text \<open>C26. Giving space back: a block too small for a slot is dropped, a block that shares a byte with a block
  already known is refused and changes nothing, and any other block joins the free blocks, with the
  counter of free space and the binlog in step. The chains and the register go on to hold the same
  blocks and the counter goes on to be the sum of their sizes.\<close>

theorem trunk_free_space_correct:
  assumes "trunk_inv 0 st" and "block_ok b" and "bend b < 2 ^ 31 - 1" and "path_index b < length (tree_info_by_sizes st)"
    and "add_granted env" and "status_ok st"
  shows "\<exists>st' r. trunk_free_space st True env b w = Some (st', r) \<and> trunk_inv 0 st' \<and>
    (if bsize b < g_slot_min_size st then st' = st \<and> r = 0
     else if \<exists>c \<in> set (free_blocks st). overlap b c then st' = st \<and> r = EEXIST
     else r = (if w then binlog_res env else 0) \<and>
       mset (free_blocks st') = add_mset (b\<lparr>status := FDFS_TRUNK_STATUS_FREE\<rparr>) (mset (free_blocks st)) \<and>
       g_trunk_total_free_space st' = g_trunk_total_free_space st + bsize b \<and>
       trunk_binlog st' = trunk_binlog st @
         (if w then [(TRUNK_OP_TYPE_ADD_SPACE, b\<lparr>status := FDFS_TRUNK_STATUS_FREE\<rparr>)] else []))"
proof (cases "bsize b < g_slot_min_size st")
  case True
  then show ?thesis using assms by (simp add: trunk_free_space_def status_ok_def)
next
  case False
  let ?b = "b\<lparr>status := FDFS_TRUNK_STATUS_FREE\<rparr>"
  have b: "block_ok ?b" "bend ?b < 2 ^ 31 - 1" "path_index ?b < length (tree_info_by_sizes st)"
    using assms(2-4) by (simp_all add: block_ok_def bend_def path_index_def)
  have c: "conflict st ?b \<longleftrightarrow> (\<exists>c \<in> set (free_blocks st). overlap b c)"
    by (simp add: conflict_def overlap_def FILL_FILE_IDENTIFIER_def bend_def)
  have f: "trunk_free_space st True env b w = trunk_add_free_block st env ?b w"
    using False assms(6) by (simp add: trunk_free_space_def status_ok_def)
  note add = add_free_block_spec [OF assms(1) b assms(5), of w]
  show ?thesis
  proof (cases "conflict st ?b")
    case True
    then show ?thesis using add(1) c f False assms(1) by simp
  next
    case no: False
    from add(2) [OF no] obtain st' where st': "trunk_add_free_block st env ?b w = Some (st', if w then binlog_res env else 0)"
      "trunk_inv 0 st'" "added st ?b w st'" by blast
    then have "g_trunk_total_free_space st' = g_trunk_total_free_space st + bsize b"
      using assms(1) by (simp add: trunk_inv_def total_size_mset added_def)
    with st' no c f False show ?thesis by (simp add: added_def)
  qed
qed

definition sample_tree_of :: "FDFSTrunkFullInfo \<Rightarrow> FDFSTrunkSlot AVLTreeInfo" where
  "sample_tree_of b = \<lparr>root = AVLNode NULL \<lparr>slot_size = bsize b, slot_head = [b]\<rparr> 0 NULL,
     free_data_func = False, compare_func = storage_trunk_node_compare_size\<rparr>"

text \<open>A state with one free block of 1000 bytes, on a store path with trunk files of 4096 bytes.\<close>

definition sample_state :: trunk_state where
  "sample_state = \<lparr>g_if_trunker_self = True, trunk_init_flag = 2, g_slot_min_size = 64, g_slot_max_size = 2048,
     g_trunk_file_size = 4096, g_fdfs_store_paths = [[47, 97]],
     store_path = \<lparr>g_store_path_load_balance = False, g_store_path_index = 0,
       g_path_space_list = [\<lparr>total_mb = 100, free_mb = 50\<rparr>], g_avg_storage_reserved_mb = 10,
       g_storage_reserved_space = Reserved_MB 10\<rparr>,
     dist_path = \<lparr>g_dist_round_robin = True, g_file_distribute_rotate_count = 100, g_subdir_count_per_path = 256,
       g_dist_path_index_high = 0, g_dist_path_index_low = 0, g_dist_write_file_count = 0, g_stat_change_count = 0\<rparr>,
     tree_info_by_sizes = [sample_tree_of (sample_block 0 1000)],
     tree_info_by_id = \<lparr>root = AVLNode NULL \<lparr>trunk_file_id = FILL_FILE_IDENTIFIER (sample_block 0 1000),
         block_array = \<lparr>ba_alloc = 32, ba_blocks = [sample_block 0 1000]\<rparr>\<rparr> 0 NULL,
       free_data_func = True, compare_func = storage_trunk_node_compare_entry\<rparr>,
     g_trunk_total_free_space = 1000, g_current_trunk_file_id = 7, trunk_binlog = []\<rparr>"

definition sample_add :: add_env where
  "sample_add = \<lparr>slot_alloc = True, slot_tree_mem = True, chk_env = sample_env, binlog_res = 0\<rparr>"

lemma sample_add_granted: "add_granted sample_add"
  by (simp add: add_granted_def sample_add_def sample_env_def)

lemma sample_blocks: "free_blocks sample_state = [sample_block 0 1000]"
  by (simp add: free_blocks_def sample_state_def tree_blocks_def sample_tree_of_def)

lemma sample_state_inv: "trunk_inv 0 sample_state"
proof -
  have "size_tree_inv 0 (sample_tree_of (sample_block 0 1000))"
    by (simp add: size_tree_inv_def sample_tree_of_def avl_inv_def slot_ok_def chain_ok_def sample_block_def path_index_def bend_def)
  then have "trees_inv sample_state" by (simp add: trees_inv_def sample_state_def)
  moreover have "checker_inv (tree_info_by_id sample_state)"
    by (simp add: checker_inv_def sample_state_def avl_inv_def entry_ok_def blocks_ok_def block_ok_def bend_def
        sample_block_def int_range_def FILL_FILE_IDENTIFIER_def)
  moreover have "checker_blocks (tree_info_by_id sample_state) = [sample_block 0 1000]"
    by (simp add: checker_blocks_def sample_state_def)
  moreover have "g_trunk_total_free_space sample_state = 1000" by (simp add: sample_state_def)
  ultimately show ?thesis by (simp add: trunk_inv_def sample_blocks total_size_def sample_block_def)
qed

lemma sample_state_ok: "status_ok sample_state" "length (tree_info_by_sizes sample_state) = 1"
  by (simp_all add: status_ok_def sample_state_def)

theorem trunk_free_space_correct_witness:
  "(\<exists>st'. trunk_free_space sample_state True sample_add (sample_block 1000 500) True = Some (st', 0) \<and>
      trunk_inv 0 st' \<and> g_trunk_total_free_space st' = 1500) \<and>
   trunk_free_space sample_state True sample_add (sample_block 999 500) True = Some (sample_state, 17)"
proof -
  have b: "block_ok (sample_block 1000 500)" "block_ok (sample_block 999 500)" by (simp_all add: sample_block_ok)
  have m: "bend (sample_block 1000 500) < 2 ^ 31 - 1" "bend (sample_block 999 500) < 2 ^ 31 - 1"
      "path_index (sample_block 1000 500) < length (tree_info_by_sizes sample_state)"
      "path_index (sample_block 999 500) < length (tree_info_by_sizes sample_state)"
    by (simp_all add: bend_def sample_block_def path_index_def sample_state_ok)
  have s: "g_slot_min_size sample_state = 64" "g_trunk_total_free_space sample_state = 1000" "binlog_res sample_add = 0"
      "bsize (sample_block o1 n) = n" "\<not> overlap (sample_block 1000 500) (sample_block 0 1000)"
      "overlap (sample_block 999 500) (sample_block 0 1000)" for o1 n
    by (simp_all add: sample_state_def sample_add_def sample_block_def overlap_def bend_def FILL_FILE_IDENTIFIER_def)
  from trunk_free_space_correct [OF sample_state_inv b(1) m(1,3) sample_add_granted sample_state_ok(1), of True]
    trunk_free_space_correct [OF sample_state_inv b(2) m(2,4) sample_add_granted sample_state_ok(1), of True]
  show ?thesis by (auto simp: sample_blocks s)
qed

end
