(* ===== verification/Trunk_File.thy ===== *)
theory Trunk_File
  imports Trunk_Shared
begin

text \<open>
  The trunk files themselves, in \<open>storage/trunk_mgr/trunk_mem.c\<close>: creating a file of the configured size,
  waiting for another thread that creates it, and marking a block as deleted. What the system calls
  answer is given: a sequence of answers of \<open>stat\<close> with the clock at each of them, error numbers of \<open>open\<close> and
  \<open>ftruncate\<close> (\<open>None\<close> when the call succeeds), and how many bytes each \<open>write\<close> takes.
\<close>

abbreviation (input) ETIMEDOUT :: int where "ETIMEDOUT \<equiv> 110"

section \<open>Creating a trunk file\<close>

text \<open>Each answer of \<open>stat\<close> is an error number, or the time of modification and the size.\<close>

record wait_env =
  stat_seq :: "nat \<Rightarrow> int + int \<times> int"
  g_current_time :: "nat \<Rightarrow> int"

partial_function (option) wait_loop :: "wait_env \<Rightarrow> int \<Rightarrow> int \<Rightarrow> int \<Rightarrow> nat \<Rightarrow> int option" where
  "wait_loop env file_size file_mtime cur_size k =
     (if cur_size \<ge> file_size then Some 0
      else if \<bar>g_current_time env k - file_mtime\<bar> > 10 then Some ETIMEDOUT
      else
        (case stat_seq env (Suc k) of
           Inl errno \<Rightarrow> Some (err_or errno ENOENT)
         | Inr (mtime, sz) \<Rightarrow> wait_loop env file_size file_mtime sz (Suc k)))"

definition trunk_wait_file_ready :: "wait_env \<Rightarrow> int \<Rightarrow> int option" where
  "trunk_wait_file_ready env file_size =
     (case stat_seq env 0 of
        Inl errno \<Rightarrow> Some (err_or errno ENOENT)
      | Inr (mtime, sz) \<Rightarrow> wait_loop env file_size mtime sz 0)"

record init_env =
  open_excl :: "int option"
  init_wait :: wait_env
  init_ftruncate :: "int option"

definition ftruncate_result :: "int option \<Rightarrow> int" where
  "ftruncate_result r = (case r of None \<Rightarrow> 0 | Some errno \<Rightarrow> err_or errno EIO)"

definition trunk_init_file_ex :: "init_env \<Rightarrow> int \<Rightarrow> int option" where
  "trunk_init_file_ex env file_size =
     (case open_excl env of
        Some errno \<Rightarrow>
          (let result = err_or errno EEXIST in
           if result = EEXIST then trunk_wait_file_ready (init_wait env) file_size else Some result)
      | None \<Rightarrow> Some (ftruncate_result (init_ftruncate env)))"

record check_env =
  check_wait :: wait_env
  check_init :: init_env
  check_stat :: "int option"
  check_open :: "int option"
  check_ftruncate :: "int option"

definition trunk_check_and_init_file_ex :: "check_env \<Rightarrow> int \<Rightarrow> int option" where
  "trunk_check_and_init_file_ex env file_size =
     (case trunk_wait_file_ready (check_wait env) file_size of
        None \<Rightarrow> None
      | Some result \<Rightarrow>
          if result = 0 then Some 0
          else if result = ENOENT then trunk_init_file_ex (check_init env) file_size
          else if result \<noteq> ETIMEDOUT then Some result
          else
            (case check_stat env of
               Some errno \<Rightarrow> Some (err_or errno ENOENT)
             | None \<Rightarrow>
                 (case check_open env of
                    Some errno \<Rightarrow> Some (err_or errno EIO)
                  | None \<Rightarrow> Some (ftruncate_result (check_ftruncate env)))))"

section \<open>Deleting a block\<close>

text \<open>Writing bytes to a file at a position; a gap is filled with zero bytes.\<close>

definition write_at :: "byte list \<Rightarrow> nat \<Rightarrow> byte list \<Rightarrow> byte list" where
  "write_at content pos bs =
     take pos content @ replicate (pos - length content) 0 @ bs @ drop (pos + length bs) content"

record delete_env =
  delete_open :: "int option"
  delete_lseek :: "int option"
  write_count :: "nat \<Rightarrow> nat"
  write_errno :: int

text \<open>The loop that clears the block: the file, the position, the result.\<close>

function clear_loop :: "delete_env \<Rightarrow> nat \<Rightarrow> byte list \<Rightarrow> nat \<Rightarrow> int \<Rightarrow> byte list \<times> int" where
  "clear_loop env k content pos remain_bytes =
     (if remain_bytes > 0 then
        (let write_bytes = (if remain_bytes > 65536 then 65536 else remain_bytes);
             n = min (write_count env k) (nat write_bytes);
             content1 = write_at content pos (replicate n 0)
         in if int n \<noteq> write_bytes then (content1, err_or (write_errno env) EIO)
            else clear_loop env (Suc k) content1 (pos + n) (remain_bytes - write_bytes))
      else (content, 0))"
  by pat_completeness auto
termination
  by (relation "measure (\<lambda>(env, k, content, pos, remain). nat remain)") (auto split: if_splits)

declare clear_loop.simps [simp del]

definition delete_header :: "FDFSTrunkFullInfo \<Rightarrow> FDFSTrunkHeader" where
  "delete_header pTrunkInfo = \<lparr>file_type = FDFS_TRUNK_FILE_TYPE_NONE, formatted_ext_name = replicate 8 0,
     th_alloc_size = trunk_size (tfile pTrunkInfo), th_file_size = 0, th_crc32 = 0, th_mtime = 0\<rparr>"

definition trunk_file_delete :: "delete_env \<Rightarrow> byte list \<Rightarrow> FDFSTrunkFullInfo \<Rightarrow> byte list \<times> int" where
  "trunk_file_delete env content pTrunkInfo =
     (case delete_open env of
        Some errno \<Rightarrow> (content, err_or errno EIO)
      | None \<Rightarrow>
          (case (if trunk_offset (tfile pTrunkInfo) < 0 then Some EINVAL else delete_lseek env) of
             Some errno \<Rightarrow> (content, err_or errno EIO)
           | None \<Rightarrow>
               (let pos = nat (trunk_offset (tfile pTrunkInfo));
                    pack_buff = trunk_pack_header (delete_header pTrunkInfo);
                    n = min (write_count env 0) 24;
                    content1 = write_at content pos (take n pack_buff)
                in if n \<noteq> 24 then (content1, err_or (write_errno env) EIO)
                   else clear_loop env 1 content1 (pos + 24)
                          (trunk_size (tfile pTrunkInfo) - FDFS_TRUNK_FILE_HEADER_SIZE))))"

section \<open>Properties\<close>

lemma err_or_nonzero [simp]: "err_or e n = 0 \<longleftrightarrow> e = 0 \<and> n = 0"
  by (simp add: err_or_def)

lemma wait_loop_returns:
  assumes "\<bar>g_current_time env n - mtime\<bar> > 10" and "k \<le> n" and "k > 0 \<or> stat_seq env 0 = Inr (m0, cur)"
    and "k > 0 \<longrightarrow> (\<exists>m. stat_seq env k = Inr (m, cur))"
  shows "\<exists>r. wait_loop env file_size mtime cur k = Some r \<and>
    (r = 0 \<longrightarrow> (\<exists>j m sz. stat_seq env j = Inr (m, sz) \<and> file_size \<le> sz))"
  using assms(2-)
proof (induction "n - k" arbitrary: k cur)
  case 0
  then have "k = n" by simp
  have "\<exists>j m. stat_seq env j = Inr (m, cur)" using 0 by blast
  then show ?case using assms(1) \<open>k = n\<close> by (subst wait_loop.simps) auto
next
  case (Suc d)
  have here: "\<exists>j m. stat_seq env j = Inr (m, cur)" using Suc.prems by blast
  show ?case
  proof (cases "file_size \<le> cur \<or> \<bar>g_current_time env k - mtime\<bar> > 10")
    case True
    then show ?thesis using here by (subst wait_loop.simps) auto
  next
    case False
    show ?thesis
    proof (cases "stat_seq env (Suc k)")
      case (Inl e)
      then show ?thesis using False by (subst wait_loop.simps) auto
    next
      case (Inr p)
      obtain m sz where p: "p = (m, sz)" by fastforce
      have "\<exists>r. wait_loop env file_size mtime sz (Suc k) = Some r \<and>
          (r = 0 \<longrightarrow> (\<exists>j m sz. stat_seq env j = Inr (m, sz) \<and> file_size \<le> sz))"
        using Suc.hyps(1) [of "Suc k" sz] Suc.hyps(2) Suc.prems(1) Inr p by auto
      then show ?thesis using False Inr p by (subst wait_loop.simps) auto
    qed
  qed
qed

text \<open>Waiting for a trunk file another thread creates ends: once the clock is more than ten seconds
  away from the time of modification the wait returns, whatever \<open>stat\<close> reports in between, and it
  reports success only if some answer of \<open>stat\<close> showed the full size.\<close>

theorem trunk_wait_returns:
  assumes "stat_seq env 0 = Inr (mtime, sz)" and "\<bar>g_current_time env n - mtime\<bar> > 10"
  shows "\<exists>r. trunk_wait_file_ready env file_size = Some r \<and>
    (r = 0 \<longrightarrow> (\<exists>j m s. stat_seq env j = Inr (m, s) \<and> file_size \<le> s))"
  using assms wait_loop_returns [OF assms(2), of 0 mtime sz file_size] by (simp add: trunk_wait_file_ready_def)

theorem trunk_wait_returns_witness:
  "\<exists>r. trunk_wait_file_ready \<lparr>stat_seq = (\<lambda>k. Inr (100, int k)), g_current_time = (\<lambda>k. 100 + int k)\<rparr> 4096 = Some r"
  using trunk_wait_returns [of "\<lparr>stat_seq = (\<lambda>k. Inr (100, int k)), g_current_time = (\<lambda>k. 100 + int k)\<rparr>" 100 0 11 4096]
  by auto

lemma write_at_inside: "pos \<le> length c \<Longrightarrow> write_at c pos bs = take pos c @ bs @ drop (pos + length bs) c"
  by (simp add: write_at_def)

lemma write_at_append:
  assumes "pos \<le> length c"
  shows "write_at (write_at c pos xs) (pos + length xs) ys = write_at c pos (xs @ ys)"
  using assms by (simp add: write_at_inside min_def ac_simps)

lemma clear_loop_spec:
  assumes "\<forall>k. 65536 \<le> write_count env k" and "pos \<le> length content"
  shows "clear_loop env k content pos remain = (if remain > 0 then write_at content pos (replicate (nat remain) 0) else content, 0)"
  using assms
proof (induction env k content pos remain rule: clear_loop.induct)
  case (1 env k content pos remain)
  show ?case
  proof (cases "remain > 0")
    case False
    then show ?thesis by (subst clear_loop.simps) simp
  next
    case True
    define w where "w = (if remain > 65536 then 65536 else remain)"
    have w: "0 < w" "w \<le> 65536" "w \<le> remain" using True by (auto simp: w_def)
    have "65536 \<le> write_count env k" using 1(2) by blast
    then have n: "min (write_count env k) (nat w) = nat w" using w by linarith
    let ?c1 = "write_at content pos (replicate (nat w) 0)"
    have len: "pos + nat w \<le> length ?c1" using 1(3) by (simp add: write_at_inside)
    have step: "clear_loop env k content pos remain = clear_loop env (Suc k) ?c1 (pos + nat w) (remain - w)"
      using True w n by (subst clear_loop.simps) (simp add: Let_def w_def [symmetric])
    have ih: "clear_loop env (Suc k) ?c1 (pos + nat w) (remain - w) =
        (if remain - w > 0 then write_at ?c1 (pos + nat w) (replicate (nat (remain - w)) 0) else ?c1, 0)"
      using 1(1) [OF True refl refl refl, unfolded w_def [symmetric], unfolded n] w 1(2) len by simp
    have "nat remain = nat w + nat (remain - w)" using w by linarith
    then have "replicate (nat remain) (0 :: byte) = replicate (nat w) 0 @ replicate (nat (remain - w)) 0"
      by (simp add: replicate_add)
    then have "write_at content pos (replicate (nat remain) 0) = write_at ?c1 (pos + nat w) (replicate (nat (remain - w)) 0)"
      using write_at_append [OF 1(3), of "replicate (nat w) 0" "replicate (nat (remain - w)) 0"] by simp
    moreover have "write_at ?c1 (pos + nat w) [] = ?c1" using len by (simp add: write_at_inside)
    ultimately show ?thesis using step ih True w by (cases "remain - w > 0") simp_all
  qed
qed

lemma header_of_delete: "int_range (trunk_size (tfile b)) \<Longrightarrow> header_ok (delete_header b)"
  by (simp add: header_ok_def delete_header_def int_range_def)

text \<open>C36. Deleting a block clears exactly the block: the file keeps its length and every byte outside the
  block, the block starts with a header of type \<open>NONE\<close> that keeps the allocated size, and the rest
  of it is zero.\<close>

theorem trunk_file_delete_correct:
  assumes "delete_open env = None" and "delete_lseek env = None" and "\<forall>k. 65536 \<le> write_count env k"
    and "trunk_offset (tfile b) = int off" and "trunk_size (tfile b) = int (24 + n)" and "off + 24 + n \<le> length content"
    and "off + 24 + n < 2 ^ 31"
  shows "\<exists>content'. trunk_file_delete env content b = (content', 0) \<and> length content' = length content \<and>
    take off content' = take off content \<and> drop (off + 24 + n) content' = drop (off + 24 + n) content \<and>
    trunk_unpack_header (take 24 (drop off content')) = delete_header b \<and>
    take n (drop (off + 24) content') = replicate n 0"
proof -
  let ?h = "trunk_pack_header (delete_header b)"
  let ?c1 = "write_at content off ?h"
  have hl: "length ?h = 24" by (simp add: length_pack_header delete_header_def)
  have c1: "?c1 = take off content @ ?h @ drop (off + 24) content" using assms(6) hl by (simp add: write_at_inside)
  then have l1: "off + 24 \<le> length ?c1" using hl assms(6) by simp
  have wc: "24 \<le> write_count env 0" using assms(3) by (meson le_trans numeral_le_iff semiring_norm)
  then have "min (write_count env 0) 24 = 24" by simp
  then have run: "trunk_file_delete env content b = clear_loop env 1 ?c1 (off + 24) (int n)"
    using assms(1,2,4,5) hl by (simp add: trunk_file_delete_def Let_def)
  have "clear_loop env 1 ?c1 (off + 24) (int n) = (write_at ?c1 (off + 24) (replicate n 0), 0)"
    using clear_loop_spec [OF assms(3) l1, of 1 "int n"] l1 by (cases "n = 0") (simp_all add: write_at_inside)
  also have "write_at ?c1 (off + 24) (replicate n 0) = write_at content off (?h @ replicate n 0)"
    using write_at_append [of off content ?h "replicate n 0"] assms(6) hl by simp
  also have "\<dots> = take off content @ ?h @ replicate n 0 @ drop (off + 24 + n) content"
    using assms(6) hl by (simp add: write_at_inside add.assoc)
  finally have r: "trunk_file_delete env content b = (take off content @ ?h @ replicate n 0 @ drop (off + 24 + n) content, 0)"
    using run by simp
  have "int_range (trunk_size (tfile b))" using assms(5,7) by (simp add: int_range_def)
  then have "trunk_unpack_header ?h = delete_header b" using unpack_pack_header header_of_delete by blast
  then show ?thesis using r hl assms(6) by (simp add: min_def)
qed

theorem trunk_file_delete_correct_witness:
  "\<exists>content'. trunk_file_delete \<lparr>delete_open = None, delete_lseek = None, write_count = (\<lambda>k. 65536), write_errno = 0\<rparr>
     (replicate 100 7) \<lparr>status = 0, path = \<lparr>store_path_index = 0, sub_path_high = 0, sub_path_low = 0\<rparr>,
       tfile = \<lparr>trunk_id = 1, trunk_offset = int 10, trunk_size = int (24 + 6)\<rparr>\<rparr> = (content', 0) \<and>
     take 10 content' = replicate 10 7 \<and> take 6 (drop 34 content') = replicate 6 0"
  using trunk_file_delete_correct [of "\<lparr>delete_open = None, delete_lseek = None, write_count = (\<lambda>k. 65536), write_errno = 0\<rparr>"
      "\<lparr>status = 0, path = \<lparr>store_path_index = 0, sub_path_high = 0, sub_path_low = 0\<rparr>,
       tfile = \<lparr>trunk_id = 1, trunk_offset = int 10, trunk_size = int (24 + 6)\<rparr>\<rparr>" 10 6 "replicate 100 7"]
  by auto

end
