(* ===== verification/Trunk_Alloc.thy ===== *)
theory Trunk_Alloc
  imports Trunk_Mem Trunk_File
begin

text \<open>
  Allocation of trunk space, \<open>storage/trunk_mgr/trunk_mem.c\<close>: the search for a block, the split of a block,
  new trunk files, the confirmation of an allocation, and the task that creates trunk files in advance.
  The choice of the store path and of the sub directories is the one of \<open>Storage_Path\<close>, the trunk file is
  created as in \<open>Trunk_File\<close>; which files exist and whether the ini file can be written are given.
\<close>

section \<open>Splitting a block\<close>

text \<open>
  \<open>trunk_split\<close>: the state, the error number and the node, whose size is cut when the rest was put back.
\<close>

definition split_rest :: "FDFSTrunkFullInfo \<Rightarrow> int \<Rightarrow> FDFSTrunkFullInfo" where
  "split_rest pNode size0 = pNode\<lparr>status := FDFS_TRUNK_STATUS_FREE,
     tfile := (tfile pNode)\<lparr>trunk_offset := offset pNode + size0, trunk_size := bsize pNode - size0\<rparr>\<rparr>"

definition split_head :: "FDFSTrunkFullInfo \<Rightarrow> int \<Rightarrow> FDFSTrunkFullInfo" where
  "split_head pNode size0 = pNode\<lparr>tfile := (tfile pNode)\<lparr>trunk_size := size0\<rparr>\<rparr>"

definition trunk_split :: "trunk_state \<Rightarrow> bool \<Rightarrow> int \<Rightarrow> add_env \<Rightarrow> FDFSTrunkFullInfo \<Rightarrow> int \<Rightarrow> (trunk_state \<times> int \<times> FDFSTrunkFullInfo) option" where
  "trunk_split st node_alloc del_res env pNode size0 =
     (if bsize pNode - size0 < g_slot_min_size st
      then (let (st1, r) = trunk_mem_binlog_write st del_res TRUNK_OP_TYPE_DEL_SPACE pNode in Some (st1, r, pNode))
      else if \<not> node_alloc then Some (st, ENOMEM, pNode)
      else
        (let (st1, r) = trunk_mem_binlog_write st del_res TRUNK_OP_TYPE_DEL_SPACE pNode in
         if r \<noteq> 0 then Some (st1, r, pNode)
         else do {
           (st2, r2) \<leftarrow> trunk_add_free_block st1 env (split_rest pNode size0) True;
           Some (if r2 \<noteq> 0 then (st2, r2, pNode) else (st2, 0, split_head pNode size0))
         }))"

section \<open>New trunk files\<close>

text \<open>
  \<open>trunk_create_next_file\<close>: ids are drawn until the file of that id does not exist; a loop that finds
  every file taken does not return. \<open>file_init\<close> is what the system answers while the file is made.
\<close>

record file_env =
  ini_res :: "int \<Rightarrow> int"
  file_exists :: "byte list \<Rightarrow> bool"
  file_init :: "byte list \<Rightarrow> init_env"

definition short_filename :: "int \<Rightarrow> byte list" where
  "short_filename new_id = base64_encode_ex g_fdfs_base64_context (int2buff new_id) False"

text \<open>One round of the loop after the id was written: the sub directories and the file name of the id.\<close>

definition draw_id :: "trunk_state \<Rightarrow> trunk_state" where
  "draw_id st = st\<lparr>g_current_trunk_file_id := c_int (g_current_trunk_file_id st + 1)\<rparr>"

definition place_file :: "trunk_state \<Rightarrow> FDFSTrunkFullInfo \<Rightarrow> trunk_state \<times> FDFSTrunkFullInfo \<times> byte list" where
  "place_file st info =
     (let (d, high, low) = storage_get_store_path (dist_path st) (short_filename (trunk_id (tfile info)));
          info1 = info\<lparr>path := (path info)\<lparr>sub_path_high := word_of_int high, sub_path_low := word_of_int low\<rparr>\<rparr>
      in (st\<lparr>dist_path := d\<rparr>, info1, trunk_get_full_filename_ex (g_fdfs_store_paths st) info1 256))"

partial_function (option) trunk_create_next_file ::
  "trunk_state \<Rightarrow> file_env \<Rightarrow> FDFSTrunkFullInfo \<Rightarrow> (trunk_state \<times> int \<times> FDFSTrunkFullInfo) option" where
  "trunk_create_next_file st env pTrunkInfo =
     (let st1 = draw_id st;
          info1 = pTrunkInfo\<lparr>tfile := (tfile pTrunkInfo)\<lparr>trunk_id := g_current_trunk_file_id st1\<rparr>\<rparr>;
          result = ini_res env (g_current_trunk_file_id st1)
      in if result \<noteq> 0 then Some (st1, result, info1)
         else
           (let (st2, info2, full_filename) = place_file st1 info1
            in if file_exists env full_filename then trunk_create_next_file st2 env info2
               else do {
                 r \<leftarrow> trunk_init_file_ex (file_init env full_filename) (g_trunk_file_size st2);
                 Some (st2, r, info2)
               }))"

record create_env =
  create_node_alloc :: bool
  create_files :: file_env
  create_binlog_res :: int

text \<open>
  \<open>trunk_create_trunk_file\<close>: the state, \<open>*err_no\<close> if it is written (\<open>None\<close> if not), and the node if the
  result is not \<open>NULL\<close>. The fields of a fresh node not written are those of \<open>junk\<close>.
\<close>

definition fresh_node :: "trunk_state \<Rightarrow> FDFSTrunkFullInfo \<Rightarrow> int \<Rightarrow> FDFSTrunkFullInfo" where
  "fresh_node st junk i = junk\<lparr>status := FDFS_TRUNK_STATUS_FREE, path := (path junk)\<lparr>store_path_index := word_of_int i\<rparr>,
     tfile := (tfile junk)\<lparr>trunk_offset := 0, trunk_size := g_trunk_file_size st\<rparr>\<rparr>"

definition trunk_create_trunk_file ::
  "trunk_state \<Rightarrow> create_env \<Rightarrow> FDFSTrunkFullInfo \<Rightarrow> int \<Rightarrow> (trunk_state \<times> int option \<times> FDFSTrunkFullInfo option) option" where
  "trunk_create_trunk_file st env junk index =
     (if \<not> create_node_alloc env then Some (st, Some ENOMEM, None)
      else
        (let (s', choice) = (if index \<ge> 0 then (store_path st, Inr index) else storage_get_storage_path_index (store_path st));
             st0 = st\<lparr>store_path := s'\<rparr>
         in case choice of
              Inl e \<Rightarrow> Some (st0, None, None)
            | Inr i \<Rightarrow>
                do {
                  (st1, err, info) \<leftarrow> trunk_create_next_file st0 (create_files env) (fresh_node st0 junk i);
                  if err \<noteq> 0 then Some (st1, Some err, None)
                  else (let (st2, r) = trunk_mem_binlog_write st1 (create_binlog_res env) TRUNK_OP_TYPE_ADD_SPACE info
                        in Some (st2, Some r, Some info))
                }))"

section \<open>Allocation\<close>

text \<open>
  The search of \<open>trunk_alloc_space\<close>: the slot of the least sufficient size that holds a block not on
  hold, with that block; slots with held blocks only are passed over.
\<close>

partial_function (option) find_free_node ::
  "FDFSTrunkSlot AVLTreeInfo \<Rightarrow> int \<Rightarrow> (FDFSTrunkSlot \<times> FDFSTrunkFullInfo) option option" where
  "find_free_node tree n =
     (case avl_tree_find_ge tree (target_slot n) of
        None \<Rightarrow> Some None
      | Some pSlot \<Rightarrow>
          (case List.find (\<lambda>b. status b \<noteq> FDFS_TRUNK_STATUS_HOLD) (slot_head pSlot) of
             Some b \<Rightarrow> Some (Some (pSlot, b))
           | None \<Rightarrow> find_free_node tree (c_int (slot_size pSlot + 1))))"

record alloc_env =
  al_create :: create_env
  al_realloc :: bool
  al_split_alloc :: bool
  al_split_res :: int
  al_split_env :: add_env
  al_hold_env :: add_env

text \<open>The node to allocate from: taken from its chain and the register, or from a new trunk file.\<close>

definition obtain_node ::
  "trunk_state \<Rightarrow> alloc_env \<Rightarrow> FDFSTrunkFullInfo \<Rightarrow> int \<Rightarrow> byte \<Rightarrow> (trunk_state \<times> int option \<times> FDFSTrunkFullInfo option) option" where
  "obtain_node st env junk size0 index =
     do {
       tree \<leftarrow> size_tree st (unat index);
       found \<leftarrow> find_free_node tree (if size0 > g_slot_min_size st then size0 else g_slot_min_size st);
       case found of
         Some (pSlot, b) \<Rightarrow>
           do {
             st1 \<leftarrow> take_block st (unat index) pSlot b (al_realloc env);
             Some (st1, Some 0, Some b)
           }
       | None \<Rightarrow> trunk_create_trunk_file st (al_create env) junk (uint index)
     }"

text \<open>The rest of the allocation once there is a node: split it, hold it, register it again.\<close>

definition hold_node :: "trunk_state \<Rightarrow> alloc_env \<Rightarrow> FDFSTrunkFullInfo \<Rightarrow> int \<Rightarrow> FDFSTrunkFullInfo \<Rightarrow> (trunk_state \<times> int \<times> FDFSTrunkFullInfo) option" where
  "hold_node st1 env b size0 pResult =
     do {
       (st2, r2, b2) \<leftarrow> trunk_split st1 (al_split_alloc env) (al_split_res env) (al_split_env env) b size0;
       if r2 \<noteq> 0 then Some (st2, r2, pResult)
       else do {
         let b3 = b2\<lparr>status := FDFS_TRUNK_STATUS_HOLD\<rparr>;
         (st3, r3) \<leftarrow> trunk_add_free_block st2 (al_hold_env env) b3 True;
         Some (st3, r3, if r3 = 0 then b3 else pResult)
       }
     }"

text \<open>
  \<open>trunk_alloc_space\<close>: the state, the error number and the block (\<open>pResult\<close> unchanged on error). Its
  \<open>result\<close> is not initialised when \<open>trunk_create_trunk_file\<close> fails without writing it; that value is \<open>junk_err\<close>.
\<close>

definition trunk_alloc_space ::
  "trunk_state \<Rightarrow> alloc_env \<Rightarrow> int \<Rightarrow> FDFSTrunkFullInfo \<Rightarrow> int \<Rightarrow> FDFSTrunkFullInfo \<Rightarrow> (trunk_state \<times> int \<times> FDFSTrunkFullInfo) option" where
  "trunk_alloc_space st env junk_err junk size0 pResult =
     (if \<not> status_ok st then Some (st, EINVAL, pResult)
      else do {
        (st1, err, node) \<leftarrow> obtain_node st env junk size0 (store_path_index (path pResult));
        case node of
          None \<Rightarrow> Some (st1, (case err of Some e \<Rightarrow> e | None \<Rightarrow> junk_err), pResult)
        | Some b \<Rightarrow> hold_node st1 env b size0 pResult
      })"

definition trunk_alloc_confirm :: "trunk_state \<Rightarrow> bool \<Rightarrow> int \<Rightarrow> FDFSTrunkFullInfo \<Rightarrow> int \<Rightarrow> (trunk_state \<times> int) option" where
  "trunk_alloc_confirm st realloc_ok binlog_result pTrunkInfo status0 =
     (if \<not> status_ok st then Some (st, EINVAL)
      else
        (let target = pTrunkInfo\<lparr>status := FDFS_TRUNK_STATUS_HOLD\<rparr> in
         if status0 = 0 then trunk_delete_space st realloc_ok binlog_result target True
         else if status0 = EEXIST then trunk_delete_space st realloc_ok binlog_result target True
         else trunk_restore_node st target))"

definition trunk_check_size :: "trunk_state \<Rightarrow> int \<Rightarrow> bool" where
  "trunk_check_size st file_size \<longleftrightarrow> file_size \<le> g_slot_max_size st"

section \<open>Trunk files created in advance\<close>

record advance_env =
  g_trunk_create_file_advance :: bool
  g_trunk_create_file_space_threshold :: int
  adv_create :: "nat \<Rightarrow> create_env"
  adv_add :: "nat \<Rightarrow> add_env"

text \<open>The loop over the number of files; \<open>result\<close> keeps its value when no error number is written.\<close>

fun advance_loop :: "trunk_state \<Rightarrow> advance_env \<Rightarrow> FDFSTrunkFullInfo \<Rightarrow> nat \<Rightarrow> nat \<Rightarrow> int \<Rightarrow> (trunk_state \<times> int) option" where
  "advance_loop st env junk i 0 result = Some (st, result)"
| "advance_loop st env junk i (Suc n) result =
     do {
       (st1, err, node) \<leftarrow> trunk_create_trunk_file st (adv_create env i) junk (-1);
       let result1 = (case err of Some e \<Rightarrow> e | None \<Rightarrow> result);
       case node of
         None \<Rightarrow> advance_loop st1 env junk (Suc i) n result1
       | Some b \<Rightarrow>
           do {
             (st2, r) \<leftarrow> trunk_add_free_block st1 (adv_add env i) b False;
             if r \<noteq> 0 then Some (st2, r) else advance_loop st2 env junk (Suc i) n r
           }
     }"

definition trunk_create_trunk_file_advance :: "trunk_state \<Rightarrow> advance_env \<Rightarrow> FDFSTrunkFullInfo \<Rightarrow> (trunk_state \<times> int) option" where
  "trunk_create_trunk_file_advance st env junk =
     (if \<not> g_trunk_create_file_advance env then Some (st, EINVAL)
      else if \<not> g_if_trunker_self st then Some (st, ENOENT)
      else
        (let alloc_space = g_trunk_create_file_space_threshold env - g_trunk_total_free_space st in
         if alloc_space \<le> 0 then Some (st, 0)
         else
           (let total_mb_sum = sum_list (map total_mb (g_path_space_list (store_path st)));
                free_mb_sum = sum_list (map free_mb (g_path_space_list (store_path st)))
            in if \<not> fdfs_check_reserved_space_path total_mb_sum (free_mb_sum - alloc_space div 1048576)
                     (case g_storage_reserved_space (store_path st) of Reserved_MB mb \<Rightarrow> mb | Reserved_Ratio ratio \<Rightarrow> 0)
                     (g_storage_reserved_space (store_path st))
               then Some (st, ENOSPC)
               else advance_loop st env junk 0 (nat (c_int (alloc_space div g_trunk_file_size st))) 0)))"

section \<open>The search\<close>

definition free_fit :: "FDFSTrunkSlot AVLTreeInfo \<Rightarrow> int \<Rightarrow> FDFSTrunkFullInfo \<Rightarrow> bool" where
  "free_fit t n c \<longleftrightarrow> c \<in> set (tree_blocks t) \<and> status c \<noteq> FDFS_TRUNK_STATUS_HOLD \<and> n \<le> bsize c"

definition best_fit :: "FDFSTrunkSlot AVLTreeInfo \<Rightarrow> int \<Rightarrow> (FDFSTrunkSlot \<times> FDFSTrunkFullInfo) option \<Rightarrow> bool" where
  "best_fit t n res =
     (case res of
        None \<Rightarrow> \<forall>c. \<not> free_fit t n c
      | Some (s, b) \<Rightarrow> s \<in> set (inorder (root t)) \<and> b \<in> set (slot_head s) \<and> free_fit t n b \<and>
          (\<forall>c. free_fit t n c \<longrightarrow> bsize b \<le> bsize c))"

lemma find_free_node_spec:
  assumes "size_tree_inv i t" and "\<forall>b \<in> set (tree_blocks t). bsize b < 2 ^ 31 - 1" and "0 \<le> n" and "n < 2 ^ 31"
  shows "\<exists>res. find_free_node t n = Some res \<and> best_fit t n res"
  using assms(3,4)
proof (induction "nat (2 ^ 31 - n)" arbitrary: n rule: less_induct)
  case less
  have ge: "avl_tree_find_ge t (target_slot n) = List.find (\<lambda>s. n \<le> slot_size s) (inorder (root t))"
    using assms(1) less.prems by_size.tree_find_ge_spec [of t "target_slot n"] by (simp add: size_tree_inv_def slot_ok_def)
  show ?case
  proof (cases "List.find (\<lambda>s. n \<le> slot_size s) (inorder (root t))")
    case None
    then have "find_free_node t n = Some None" using ge by (subst find_free_node.simps) simp
    moreover have "\<not> n \<le> bsize c" if "c \<in> set (tree_blocks t)" for c
      using tree_blocks_mem [OF assms(1) that] None by (metis find_None_iff)
    ultimately show ?thesis by (auto simp: best_fit_def free_fit_def)
  next
    case s_found: (Some s)
    then have s: "s \<in> set (inorder (root t))" "n \<le> slot_size s" by (auto dest: find_Some_mem)
    have least: "slot_size s \<le> bsize c" if "free_fit t n c" for c
      using tree_blocks_mem [OF assms(1), of c] find_sorted_least [OF _ s_found] assms(1) that
      by (metis avl_inv_def size_tree_inv_def free_fit_def)
    have bs: "bsize b = slot_size s" "b \<in> set (tree_blocks t)" if "b \<in> set (slot_head s)" for b
      using assms(1) s(1) that by (auto simp: size_tree_inv_def chain_ok_def tree_blocks_def)
    show ?thesis
    proof (cases "List.find (\<lambda>b. status b \<noteq> FDFS_TRUNK_STATUS_HOLD) (slot_head s)")
      case (Some b)
      then have b: "b \<in> set (slot_head s)" "status b \<noteq> FDFS_TRUNK_STATUS_HOLD" by (auto dest: find_Some_mem)
      have "find_free_node t n = Some (Some (s, b))" using Some s_found ge by (subst find_free_node.simps) simp
      moreover have "best_fit t n (Some (s, b))" using b s bs least by (auto simp: best_fit_def free_fit_def)
      ultimately show ?thesis by blast
    next
      case None
      have "slot_head s \<noteq> []" using assms(1) s(1) by (simp add: size_tree_inv_def chain_ok_def)
      then have mx: "slot_size s < 2 ^ 31 - 1" using bs assms(2) by (metis hd_in_set)
      then have "c_int (slot_size s + 1) = slot_size s + 1" using s less.prems by (simp add: int_range_def)
      then have step: "find_free_node t n = find_free_node t (slot_size s + 1)"
        using None s_found ge by (subst find_free_node.simps) simp
      have held: "status c = FDFS_TRUNK_STATUS_HOLD" if c: "c \<in> set (tree_blocks t)" "bsize c = slot_size s" for c
      proof -
        obtain s' where s': "s' \<in> set (inorder (root t))" "c \<in> set (slot_head s')" "slot_size s' = bsize c"
          using tree_blocks_mem [OF assms(1) c(1)] by metis
        then have "s' = s" using s(1) c(2) assms(1) sorted_key_inj [of slot_size "inorder (root t)" s' s]
          by (simp add: size_tree_inv_def avl_inv_def)
        then show ?thesis using s'(2) None by (auto simp: find_None_iff)
      qed
      have "free_fit t n c \<longleftrightarrow> free_fit t (slot_size s + 1) c" for c
        using least [of c] held [of c] s(2) by (cases "bsize c = slot_size s") (auto simp: free_fit_def)
      then have "free_fit t (slot_size s + 1) = free_fit t n" by blast
      then have "best_fit t (slot_size s + 1) = best_fit t n" by (simp add: best_fit_def [abs_def])
      moreover have "\<exists>res. find_free_node t (slot_size s + 1) = Some res \<and> best_fit t (slot_size s + 1) res"
        using less.hyps [of "slot_size s + 1"] s(2) less.prems mx by simp
      ultimately show ?thesis using step by simp
    qed
  qed
qed

section \<open>Splitting and holding\<close>

definition config_ok :: "trunk_state \<Rightarrow> bool" where
  "config_ok st \<longleftrightarrow> 0 < g_slot_min_size st \<and> g_slot_min_size st < 2 ^ 31 \<and>
     0 < g_trunk_file_size st \<and> g_trunk_file_size st < 2 ^ 31 - 1 \<and> length (tree_info_by_sizes st) \<le> 256"

lemma config_ok_same: "\<lbrakk>config_ok st; same_rest st st'\<rbrakk> \<Longrightarrow> config_ok st'"
  by (simp add: config_ok_def same_rest_def)

lemma status_ok_same: "same_rest st st' \<Longrightarrow> status_ok st' = status_ok st"
  by (simp add: status_ok_def same_rest_def)

text \<open>The blocks an allocation makes of a node.\<close>

definition hold :: "FDFSTrunkFullInfo \<Rightarrow> FDFSTrunkFullInfo" where
  "hold b = b\<lparr>status := FDFS_TRUNK_STATUS_HOLD\<rparr>"

definition cut_node :: "trunk_state \<Rightarrow> int \<Rightarrow> FDFSTrunkFullInfo \<Rightarrow> FDFSTrunkFullInfo" where
  "cut_node st n b = (if bsize b - n < g_slot_min_size st then b else split_head b n)"

definition left_over :: "trunk_state \<Rightarrow> int \<Rightarrow> FDFSTrunkFullInfo \<Rightarrow> FDFSTrunkFullInfo list" where
  "left_over st n b = (if bsize b - n < g_slot_min_size st then [] else [split_rest b n])"

definition node_fits :: "trunk_state \<Rightarrow> FDFSTrunkFullInfo \<Rightarrow> int \<Rightarrow> bool" where
  "node_fits st b n \<longleftrightarrow> block_ok b \<and> bend b < 2 ^ 31 - 1 \<and> path_index b < length (tree_info_by_sizes st) \<and>
     0 < n \<and> n \<le> bsize b \<and> config_ok st"

lemma pieces_ok:
  assumes "node_fits st b n"
  shows "block_ok (hold (cut_node st n b))" and "bend (hold (cut_node st n b)) < 2 ^ 31 - 1"
    and "path_index (hold (cut_node st n b)) = path_index b" and "n \<le> bsize (hold (cut_node st n b))"
    and "offset (hold (cut_node st n b)) = offset b"
    and "\<not> bsize b - n < g_slot_min_size st \<Longrightarrow> block_ok (split_rest b n)"
    and "bend (split_rest b n) = bend b" and "path_index (split_rest b n) = path_index b"
  using assms
  by (auto simp: node_fits_def config_ok_def hold_def cut_node_def split_head_def split_rest_def block_ok_def bend_def path_index_def)

lemma pieces_overlap:
  assumes "node_fits st b n"
  shows "overlap (hold (cut_node st n b)) c \<Longrightarrow> overlap b c"
    and "\<not> bsize b - n < g_slot_min_size st \<Longrightarrow> overlap (split_rest b n) c \<Longrightarrow> overlap b c"
    and "\<not> bsize b - n < g_slot_min_size st \<Longrightarrow> \<not> overlap (hold (cut_node st n b)) (split_rest b n)"
  using assms
  by (auto simp: node_fits_def config_ok_def overlap_def hold_def cut_node_def split_head_def split_rest_def bend_def
      FILL_FILE_IDENTIFIER_def split: if_splits)

lemma split_spec:
  assumes "trunk_inv (bsize b) st" and "node_fits st b n" and "add_granted env"
  shows "\<exists>st' r b'. trunk_split st True del_res env b n = Some (st', r, b') \<and> trunk_inv 0 st' \<and> same_rest st st' \<and>
    (r = 0 \<longrightarrow> b' = cut_node st n b \<and> mset (free_blocks st') = mset (left_over st n b) + mset (free_blocks st)) \<and>
    (del_res = 0 \<and> binlog_res env = 0 \<and> \<not> conflict st b \<longrightarrow> r = 0)"
proof -
  obtain st1 r1 where w: "trunk_mem_binlog_write st del_res TRUNK_OP_TYPE_DEL_SPACE b = (st1, r1)" by fastforce
  note ws = binlog_write_spec [OF assms(1) w]
  have inv1: "trunk_inv 0 st1" using ws(5) by simp
  show ?thesis
  proof (cases "bsize b - n < g_slot_min_size st \<or> r1 \<noteq> 0")
    case True
    then have "trunk_split st True del_res env b n = Some (st1, r1, b)" using w by (auto simp: trunk_split_def)
    with True inv1 ws(1-3) show ?thesis by (auto simp: cut_node_def left_over_def)
  next
    case False
    let ?q = "split_rest b n"
    have q: "block_ok ?q" "bend ?q < 2 ^ 31 - 1" "path_index ?q < length (tree_info_by_sizes st1)"
      using False pieces_ok(6-8) [OF assms(2)] assms(2) ws(3) by (simp_all add: node_fits_def same_rest_def)
    have c: "conflict st1 ?q \<Longrightarrow> conflict st b" using pieces_overlap(2) [OF assms(2)] False ws(2) by (auto simp: conflict_def)
    note add = add_free_block_spec [OF inv1 q assms(3), of True]
    have run: "trunk_split st True del_res env b n =
        do {
          (st2, r2) \<leftarrow> trunk_add_free_block st1 env ?q True;
          Some (if r2 \<noteq> 0 then (st2, r2, b) else (st2, 0, split_head b n))
        }"
      using False w by (simp add: trunk_split_def)
    show ?thesis
    proof (cases "conflict st1 ?q")
      case True
      then show ?thesis using add(1) run inv1 ws(3) c by simp
    next
      case no: False
      from add(2) [OF no] obtain st2 where st2: "trunk_add_free_block st1 env ?q True = Some (st2, binlog_res env)"
        "trunk_inv 0 st2" "added st1 ?q True st2" by auto
      have "same_rest st st2" using same_rest_trans [OF ws(3)] st2(3) by (simp add: added_def)
      with st2 run False ws(2) show ?thesis by (auto simp: added_def cut_node_def left_over_def)
    qed
  qed
qed

definition mem_granted :: "alloc_env \<Rightarrow> bool" where
  "mem_granted env \<longleftrightarrow> al_split_alloc env \<and> add_granted (al_split_env env) \<and> add_granted (al_hold_env env)"

definition logs_ok :: "alloc_env \<Rightarrow> bool" where
  "logs_ok env \<longleftrightarrow> al_split_res env = 0 \<and> binlog_res (al_split_env env) = 0 \<and> binlog_res (al_hold_env env) = 0"

lemma hold_node_spec:
  assumes "trunk_inv (bsize b) st" and "node_fits st b n" and "mem_granted env"
  shows "\<exists>st' r out. hold_node st env b n p = Some (st', r, out) \<and> trunk_inv 0 st' \<and> same_rest st st' \<and>
    (r = 0 \<longrightarrow> out = hold (cut_node st n b) \<and>
      mset (free_blocks st') = add_mset out (mset (left_over st n b) + mset (free_blocks st))) \<and>
    (logs_ok env \<and> \<not> conflict st b \<longrightarrow> r = 0)"
proof -
  have g: "al_split_alloc env" "add_granted (al_split_env env)" "add_granted (al_hold_env env)"
    using assms(3) by (simp_all add: mem_granted_def)
  from split_spec [OF assms(1,2) g(2), of "al_split_res env"] obtain st2 r2 b2 where
    st2: "trunk_split st True (al_split_res env) (al_split_env env) b n = Some (st2, r2, b2)" "trunk_inv 0 st2" "same_rest st st2"
      "r2 = 0 \<longrightarrow> b2 = cut_node st n b \<and> mset (free_blocks st2) = mset (left_over st n b) + mset (free_blocks st)"
      "al_split_res env = 0 \<and> binlog_res (al_split_env env) = 0 \<and> \<not> conflict st b \<longrightarrow> r2 = 0" by blast
  show ?thesis
  proof (cases "r2 = 0")
    case False
    then have "hold_node st env b n p = Some (st2, r2, p)" using st2(1) g(1) by (simp add: hold_node_def)
    with False st2 show ?thesis by (simp add: logs_ok_def)
  next
    case True
    let ?h = "hold (cut_node st n b)"
    have fb: "b2 = cut_node st n b" "mset (free_blocks st2) = mset (left_over st n b) + mset (free_blocks st)"
      using st2(4) True by blast+
    from arg_cong [OF fb(2), of set_mset] have set2: "set (free_blocks st2) = set (left_over st n b) \<union> set (free_blocks st)" by simp
    have h: "block_ok ?h" "bend ?h < 2 ^ 31 - 1" "path_index ?h < length (tree_info_by_sizes st2)"
      using pieces_ok(1-3) [OF assms(2)] assms(2) st2(3) by (simp_all add: node_fits_def same_rest_def)
    have c: "conflict st b" if "conflict st2 ?h"
      using that pieces_overlap(1,3) [OF assms(2)] unfolding conflict_def set2 left_over_def
      by (auto split: if_splits)
    have run: "hold_node st env b n p =
        do {
          (st3, r3) \<leftarrow> trunk_add_free_block st2 (al_hold_env env) ?h True;
          Some (st3, r3, if r3 = 0 then ?h else p)
        }"
      using True st2(1) g(1) fb(1) by (simp add: hold_node_def hold_def [symmetric] Let_def)
    note add = add_free_block_spec [OF st2(2) h g(3), of True]
    show ?thesis
    proof (cases "conflict st2 ?h")
      case yes: True
      then show ?thesis using add(1) run st2(2,3) c by simp
    next
      case no: False
      from add(2) [OF no] obtain st3 where st3: "trunk_add_free_block st2 (al_hold_env env) ?h True = Some (st3, binlog_res (al_hold_env env))"
        "trunk_inv 0 st3" "added st2 ?h True st3" by auto
      have "same_rest st st3" using same_rest_trans [OF st2(3)] st3(3) by (simp add: added_def)
      with st3 run fb(2) show ?thesis by (simp add: added_def logs_ok_def)
    qed
  qed
qed

section \<open>New files\<close>

text \<open>A state that differs only in the file ids, the store path and the sub directories.\<close>

definition quiet :: "trunk_state \<Rightarrow> trunk_state \<Rightarrow> bool" where
  "quiet st st' \<longleftrightarrow> keeps_rest st st' \<and> tree_info_by_sizes st' = tree_info_by_sizes st"

lemma quiet_inv: "\<lbrakk>quiet st st'; trunk_inv d st\<rbrakk> \<Longrightarrow> trunk_inv d st' \<and> free_blocks st' = free_blocks st"
  by (simp add: quiet_def keeps_rest_def trunk_inv_def trees_inv_def free_blocks_def)

lemma quiet_trans [trans]: "\<lbrakk>quiet a b; quiet b c\<rbrakk> \<Longrightarrow> quiet a c"
  by (simp add: quiet_def keeps_rest_def same_rest_def)

definition same_place :: "FDFSTrunkFullInfo \<Rightarrow> FDFSTrunkFullInfo \<Rightarrow> bool" where
  "same_place a b \<longleftrightarrow> status b = status a \<and> offset b = offset a \<and> bsize b = bsize a \<and> path_index b = path_index a"

lemma draw_id_quiet: "quiet st (draw_id st)" "store_path (draw_id st) = store_path st" "int_range (g_current_trunk_file_id (draw_id st))"
  by (simp_all add: quiet_def keeps_rest_def same_rest_def draw_id_def)

lemma place_file_quiet:
  assumes "place_file st info = (st', info', name)"
  shows "quiet st st'" and "same_place info info'" and "trunk_id (tfile info') = trunk_id (tfile info)"
    and "g_current_trunk_file_id st' = g_current_trunk_file_id st" and "store_path st' = store_path st"
  using assms
  by (auto simp: place_file_def quiet_def keeps_rest_def same_rest_def same_place_def path_index_def Let_def split: prod.splits)

definition placed :: "trunk_state \<Rightarrow> FDFSTrunkFullInfo \<Rightarrow> trunk_state \<times> int \<times> FDFSTrunkFullInfo \<Rightarrow> bool" where
  "placed st info y = (case y of (st', r, info') \<Rightarrow>
     quiet st st' \<and> store_path st' = store_path st \<and> same_place info info' \<and> int_range (trunk_id (tfile info')))"

lemma create_next_file_placed: "trunk_create_next_file st env info = Some y \<Longrightarrow> placed st info y"
proof (rule trunk_create_next_file.raw_induct [where P = "\<lambda>st env info y. placed st info y"])
  fix f and st :: trunk_state and env :: file_env and info :: FDFSTrunkFullInfo and y
  let ?info1 = "info\<lparr>tfile := (tfile info)\<lparr>trunk_id := g_current_trunk_file_id (draw_id st)\<rparr>\<rparr>"
  assume ih: "\<And>st (env :: file_env) info y. f st env info = Some y \<Longrightarrow> placed st info y"
  assume "(let st1 = draw_id st; info1 = info\<lparr>tfile := (tfile info)\<lparr>trunk_id := g_current_trunk_file_id st1\<rparr>\<rparr>;
        result = ini_res env (g_current_trunk_file_id st1)
      in if result \<noteq> 0 then Some (st1, result, info1)
         else let (st2, info2, full_filename) = place_file st1 info1
              in if file_exists env full_filename then f st2 env info2
                 else trunk_init_file_ex (file_init env full_filename) (g_trunk_file_size st2) \<bind> (\<lambda>r. Some (st2, r, info2))) =
    Some y"
  moreover obtain st2 info2 name where p: "place_file (draw_id st) ?info1 = (st2, info2, name)" by (metis prod_cases3)
  moreover note q = draw_id_quiet [of st] and pq = place_file_quiet [OF p]
  have info: "same_place info ?info1" by (simp add: same_place_def path_index_def)
  have two: "quiet st st2" "store_path st2 = store_path st" "same_place info info2" "int_range (trunk_id (tfile info2))"
    using quiet_trans [OF q(1) pq(1)] pq(2,3,5) q(2,3) by (simp_all add: same_place_def path_index_def)
  have more: "placed st info z" if "placed st2 info2 z" for z
    using that two by (auto simp: placed_def same_place_def intro: quiet_trans split: prod.splits)
  ultimately show "placed st info y"
    using ih [of st2 env info2 y] more [of y] two info q
    by (auto simp: Let_def placed_def split: if_splits bind_splits)
qed

definition chosen_path :: "trunk_state \<Rightarrow> int \<Rightarrow> int + int" where
  "chosen_path st index = (if index \<ge> 0 then Inr index else snd (storage_get_storage_path_index (store_path st)))"

lemma create_trunk_file_spec:
  assumes "trunk_inv d st" and "config_ok st" and "trunk_create_trunk_file st env junk index = Some (st', err, node)"
  shows "same_rest st st' \<and> free_blocks st' = free_blocks st \<and>
    (case node of
       None \<Rightarrow> trunk_inv d st' \<and> (0 \<le> index \<longrightarrow> (\<exists>e. err = Some e \<and> e \<noteq> 0))
     | Some b \<Rightarrow> trunk_inv (d + bsize b) st' \<and> block_ok b \<and> bend b < 2 ^ 31 - 1 \<and> bsize b = g_trunk_file_size st \<and>
         (\<exists>i. chosen_path st index = Inr i \<and> path_index b = unat (word_of_int i :: byte)))"
proof (cases "create_node_alloc env")
  case False
  then have "st' = st \<and> err = Some ENOMEM \<and> node = None" using assms(3) by (simp add: trunk_create_trunk_file_def)
  then show ?thesis using assms(1) by simp
next
  case True
  obtain s' where ch: "(if index \<ge> 0 then (store_path st, Inr index) else storage_get_storage_path_index (store_path st)) =
      (s', chosen_path st index)"
    by (metis chosen_path_def prod.collapse)
  let ?st0 = "st\<lparr>store_path := s'\<rparr>"
  have q0: "quiet st ?st0" by (simp add: quiet_def keeps_rest_def same_rest_def)
  show ?thesis
  proof (cases "chosen_path st index")
    case (Inl e)
    then have "st' = ?st0 \<and> node = None" using True ch assms(3) by (simp add: trunk_create_trunk_file_def Let_def)
    moreover have "\<not> 0 \<le> index" using Inl by (auto simp: chosen_path_def)
    ultimately show ?thesis using quiet_inv [OF q0 assms(1)] q0 by (simp add: quiet_def keeps_rest_def)
  next
    case (Inr i)
    let ?f = "fresh_node ?st0 junk i"
    have run: "do {
          (st1, err, info) \<leftarrow> trunk_create_next_file ?st0 (create_files env) ?f;
          if err \<noteq> 0 then Some (st1, Some err, None)
          else (let (st2, r) = trunk_mem_binlog_write st1 (create_binlog_res env) TRUNK_OP_TYPE_ADD_SPACE info
                in Some (st2, Some r, Some info))
        } = Some (st', err, node)"
      using assms(3) True ch Inr by (simp add: trunk_create_trunk_file_def Let_def)
    then obtain st1 e info where c: "trunk_create_next_file ?st0 (create_files env) ?f = Some (st1, e, info)"
      by (cases "trunk_create_next_file ?st0 (create_files env) ?f") auto
    have p: "quiet ?st0 st1" "same_place ?f info" "int_range (trunk_id (tfile info))"
      using create_next_file_placed [OF c] by (simp_all add: placed_def)
    have q1: "quiet st st1" by (rule quiet_trans [OF q0 p(1)])
    note i1 = quiet_inv [OF q1 assms(1)]
    show ?thesis
    proof (cases "e = 0")
      case False
      then have "st' = st1 \<and> err = Some e \<and> node = None" using run c by simp
      then show ?thesis using False i1 q1 by (simp add: quiet_def keeps_rest_def)
    next
      case True
      obtain st2 r where w: "trunk_mem_binlog_write st1 (create_binlog_res env) TRUNK_OP_TYPE_ADD_SPACE info = (st2, r)" by fastforce
      have i2: "trunk_inv d st1" "free_blocks st1 = free_blocks st" using i1 by blast+
      note ws = binlog_write_spec [OF i2(1) w]
      have r: "st' = st2" "node = Some info" using run c w True by simp_all
      have "same_rest st st2" using same_rest_trans [OF _ ws(3)] q1 by (simp add: quiet_def keeps_rest_def)
      moreover have "offset info = 0" "bsize info = g_trunk_file_size st" "path_index info = unat (word_of_int i :: byte)"
        using p(2) by (simp_all add: same_place_def fresh_node_def path_index_def)
      ultimately show ?thesis using r ws i2 p(3) Inr assms(2)
        by (simp add: block_ok_def bend_def config_ok_def)
    qed
  qed
qed

definition wanted :: "trunk_state \<Rightarrow> int \<Rightarrow> int" where
  "wanted st n = (if n > g_slot_min_size st then n else g_slot_min_size st)"

lemma search_spec:
  assumes "trunk_inv 0 st" and "config_ok st" and "0 < n" and "n < 2 ^ 31" and "i < length (tree_info_by_sizes st)"
  shows "\<exists>res. find_free_node (tree_info_by_sizes st ! i) (wanted st n) = Some res \<and>
    best_fit (tree_info_by_sizes st ! i) (wanted st n) res"
proof -
  let ?t = "tree_info_by_sizes st ! i"
  have inv: "size_tree_inv i ?t" using assms(1,5) by (simp add: trunk_inv_def trees_inv_def)
  have "b \<in> set (free_blocks st)" if "b \<in> set (tree_blocks ?t)" for b using that assms(5) by (auto simp: free_blocks_def)
  then have "\<forall>b \<in> set (tree_blocks ?t). bsize b < 2 ^ 31 - 1" using mem_block_ok(5) [OF assms(1)] by blast
  from find_free_node_spec [OF inv this, of "wanted st n"] assms(2-4) show ?thesis by (auto simp: wanted_def config_ok_def)
qed

lemma found_node_spec:
  assumes "trunk_inv 0 st" and "config_ok st" and "0 < n" and "n < 2 ^ 31" and "i < length (tree_info_by_sizes st)"
    and "best_fit (tree_info_by_sizes st ! i) (wanted st n) (Some (s, b))"
  shows "\<exists>st1. take_block st i s b mem = Some st1 \<and> trunk_inv (bsize b) st1 \<and> same_rest st st1 \<and> node_fits st1 b n \<and>
    path_index b = i \<and> \<not> conflict st1 b \<and> trunk_binlog st1 = trunk_binlog st \<and>
    mset (free_blocks st) = add_mset b (mset (free_blocks st1))"
proof -
  let ?t = "tree_info_by_sizes st ! i"
  have b: "s \<in> set (inorder (root ?t))" "b \<in> set (slot_head s)" "free_fit ?t (wanted st n) b"
    using assms(6) by (simp_all add: best_fit_def)
  obtain st1 where st1: "take_block st i s b mem = Some st1" "trunk_inv (0 + bsize b) st1" "same_rest st st1"
      "trunk_binlog st1 = trunk_binlog st" "mset (free_blocks st) = add_mset b (mset (free_blocks st1))"
    using take_block_spec [OF assms(1,5) b(1,2)] by blast
  from arg_cong [OF st1(5), of set_mset] have sets: "set (free_blocks st) = insert b (set (free_blocks st1))" by simp
  have mem: "b \<in> set (free_blocks st)" using sets by simp
  note ok = mem_block_ok [OF assms(1) mem]
  have idx: "path_index b = i"
    using tree_blocks_mem [of i ?t b] assms(1,5) b(3) unfolding trunk_inv_def trees_inv_def free_fit_def by metis
  have "node_fits st1 b n" using ok b(3) assms(3) st1(3) config_ok_same [OF assms(2) st1(3)]
    by (auto simp: node_fits_def free_fit_def wanted_def same_rest_def split: if_splits)
  moreover have "\<not> conflict st1 b"
  proof -
    have nv: "pairwise (\<lambda>a b. \<not> overlap a b) (set (free_blocks st))" "distinct (checker_blocks (tree_info_by_id st))"
      using checker.no_overlap [of "tree_info_by_id st"] assms(1) inv_set_blocks [OF assms(1)] by (simp_all add: trunk_inv_def)
    then have "distinct (free_blocks st)" using assms(1) by (metis mset_eq_imp_distinct_iff trunk_inv_def)
    then have "distinct (b # free_blocks st1)" using st1(5) by (metis mset.simps(2) mset_eq_imp_distinct_iff)
    then show ?thesis using nv(1) sets by (auto simp: conflict_def pairwise_def)
  qed
  ultimately show ?thesis using st1 idx by auto
qed

lemma alloc_space_spec:
  assumes "trunk_inv 0 st" and "config_ok st" and "0 < n" and "n \<le> g_trunk_file_size st"
    and "path_index p < length (tree_info_by_sizes st)" and "mem_granted env"
    and "trunk_alloc_space st env junk_err junk n p = Some (st', r, b)"
  shows "trunk_inv 0 st' \<and> same_rest st st' \<and>
    (r = 0 \<longrightarrow> b \<in> set (free_blocks st') \<and> status b = FDFS_TRUNK_STATUS_HOLD \<and> n \<le> bsize b \<and> path_index b = path_index p)"
proof (cases "status_ok st")
  case False
  then show ?thesis using assms(1,7) by (auto simp: trunk_alloc_space_def)
next
  case True
  let ?i = "path_index p" and ?x = "store_path_index (path p)"
  have n31: "n < 2 ^ 31" using assms(2,4) by (simp add: config_ok_def)
  have tr: "size_tree st (unat ?x) = Some (tree_info_by_sizes st ! ?i)" "unat ?x = ?i"
    using assms(5) by (simp_all add: size_tree_def path_index_def)
  obtain st1 err node where o: "obtain_node st env junk n ?x = Some (st1, err, node)"
    using assms(7) True by (cases "obtain_node st env junk n ?x") (auto simp: trunk_alloc_space_def)
  have spec: "same_rest st st1 \<and> (case node of None \<Rightarrow> trunk_inv 0 st1 \<and> (\<exists>e. err = Some e \<and> e \<noteq> 0)
      | Some c \<Rightarrow> trunk_inv (bsize c) st1 \<and> node_fits st1 c n \<and> path_index c = ?i)"
  proof -
    obtain res where res: "find_free_node (tree_info_by_sizes st ! ?i) (wanted st n) = Some res"
        "best_fit (tree_info_by_sizes st ! ?i) (wanted st n) res"
      using search_spec [OF assms(1-3) n31 assms(5)] by blast
    show ?thesis
    proof (cases res)
      case None
      then have c: "trunk_create_trunk_file st (al_create env) junk (uint ?x) = Some (st1, err, node)"
        using o tr res(1) by (simp add: obtain_node_def wanted_def)
      from create_trunk_file_spec [OF assms(1,2) c] assms(2-5) config_ok_same [OF assms(2), of st1]
      show ?thesis by (auto simp: chosen_path_def node_fits_def same_rest_def path_index_def split: option.splits)
    next
      case (Some sb)
      obtain s c where sb: "sb = (s, c)" by fastforce
      with Some res(2) have bf: "best_fit (tree_info_by_sizes st ! ?i) (wanted st n) (Some (s, c))" by simp
      from found_node_spec [OF assms(1-3) n31 assms(5) bf, of "al_realloc env"] o tr res(1) Some sb
      show ?thesis by (auto simp: obtain_node_def wanted_def)
    qed
  qed
  show ?thesis
  proof (cases node)
    case None
    then show ?thesis using assms(7) True o spec by (auto simp: trunk_alloc_space_def)
  next
    case (Some c)
    then have "hold_node st1 env c n p = Some (st', r, b)" using assms(7) True o by (simp add: trunk_alloc_space_def)
    moreover have c: "trunk_inv (bsize c) st1" "node_fits st1 c n" "path_index c = ?i" "same_rest st st1" using spec Some by auto
    ultimately have h: "trunk_inv 0 st'" "same_rest st1 st'" "r = 0 \<longrightarrow> b = hold (cut_node st1 n c) \<and>
        mset (free_blocks st') = add_mset b (mset (left_over st1 n c) + mset (free_blocks st1))"
      using hold_node_spec [OF c(1,2) assms(6), of p] by auto
    have "r = 0 \<longrightarrow> b \<in> set (free_blocks st')" using h(3) by (metis set_mset_mset union_single_eq_member)
    with h same_rest_trans [OF c(4) h(2)] pieces_ok(3,4) [OF c(2)] c(3) show ?thesis by (auto simp: hold_def)
  qed
qed

lemma free_blocks_disjoint:
  assumes "trunk_inv d st" and "a \<in> set (free_blocks st)" and "b \<in> set (free_blocks st)" and "overlap a b"
  shows "a = b"
  using checker.no_overlap [of "tree_info_by_id st"] assms inv_set_blocks [OF assms(1)]
  by (auto simp: trunk_inv_def pairwise_def)

lemma confirm_spec:
  assumes "trunk_inv 0 st" and "status_ok st" and "path_index b < length (tree_info_by_sizes st)"
    and "0 \<le> bsize b" and "bsize b < 2 ^ 31"
  shows "\<exists>st' r. trunk_alloc_confirm st mem res b status0 = Some (st', r) \<and> trunk_inv 0 st' \<and>
    (if hold b \<notin> set (free_blocks st) then st' = st \<and> r = ENOENT
     else if status0 = 0 \<or> status0 = EEXIST then r = res \<and> removed st (hold b) True st'
     else r = 0 \<and> restored st (hold b) st')"
proof -
  have h: "path_index (hold b) < length (tree_info_by_sizes st)" "0 \<le> bsize (hold b)" "bsize (hold b) < 2 ^ 31"
    using assms(3-5) by (simp_all add: hold_def path_index_def)
  note d = delete_space_spec [OF assms(1) h, of mem res True] and rs = restore_node_spec [OF assms(1) h]
  have run: "trunk_alloc_confirm st mem res b status0 =
      (if status0 = 0 \<or> status0 = EEXIST then trunk_delete_space st mem res (hold b) True else trunk_restore_node st (hold b))"
    using assms(2) by (simp add: trunk_alloc_confirm_def hold_def)
  show ?thesis
  proof (cases "hold b \<in> set (free_blocks st)")
    case True
    show ?thesis
    proof (cases "status0 = 0 \<or> status0 = EEXIST")
      case yes: True
      with d(2) [OF True] run True show ?thesis by auto
    next
      case no: False
      with rs(2) [OF True] run True show ?thesis by auto
    qed
  next
    case False
    with d(1) rs(1) run assms(1) show ?thesis by simp
  qed
qed

lemma removed_rest: "removed st b w st' \<Longrightarrow> same_rest st st'"
  and restored_rest: "restored st b st' \<Longrightarrow> same_rest st st'"
  and added_rest: "added st b w st' \<Longrightarrow> same_rest st st'"
  by (simp_all add: removed_def restored_def added_def)

lemma free_space_inv:
  assumes "trunk_inv 0 st" and "block_ok b" and "bend b < 2 ^ 31 - 1" and "path_index b < length (tree_info_by_sizes st)"
    and "add_granted env" and "trunk_free_space st True env b w = Some (st', r)"
  shows "trunk_inv 0 st' \<and> same_rest st st'"
proof -
  let ?b = "b\<lparr>status := FDFS_TRUNK_STATUS_FREE\<rparr>"
  have b: "block_ok ?b" "bend ?b < 2 ^ 31 - 1" "path_index ?b < length (tree_info_by_sizes st)"
    using assms(2-4) by (simp_all add: block_ok_def bend_def path_index_def)
  note add = add_free_block_spec [OF assms(1) b assms(5), of w]
  have "st' = st \<or> trunk_add_free_block st env ?b w = Some (st', r)"
    using assms(6) by (auto simp: trunk_free_space_def split: if_splits)
  then show ?thesis using add assms(1) added_rest by (cases "conflict st ?b") auto
qed

section \<open>The allocator as a state machine\<close>

text \<open>
  The requests the trunk server executes one after another, each with arguments in range and the memory it
  asks for; what the binlog, the ini file and the file system answer is arbitrary.
\<close>

inductive trunk_step :: "trunk_state \<Rightarrow> trunk_state \<Rightarrow> bool" where
  free: "\<lbrakk>block_ok b; bend b < 2 ^ 31 - 1; path_index b < length (tree_info_by_sizes st); add_granted env;
    trunk_free_space st True env b w = Some (st', r)\<rbrakk> \<Longrightarrow> trunk_step st st'"
| alloc: "\<lbrakk>0 < n; n \<le> g_trunk_file_size st; path_index p < length (tree_info_by_sizes st); mem_granted env;
    trunk_alloc_space st env junk_err junk n p = Some (st', r, b)\<rbrakk> \<Longrightarrow> trunk_step st st'"
| confirm: "\<lbrakk>path_index b < length (tree_info_by_sizes st); 0 \<le> bsize b; bsize b < 2 ^ 31;
    trunk_alloc_confirm st mem res b status0 = Some (st', r)\<rbrakk> \<Longrightarrow> trunk_step st st'"

lemma trunk_step_inv:
  assumes "trunk_step st st'" and "trunk_inv 0 st" and "config_ok st"
  shows "trunk_inv 0 st' \<and> config_ok st'"
  using assms(1)
proof cases
  case (free b env w r)
  then show ?thesis using free_space_inv [OF assms(2)] config_ok_same [OF assms(3)] by blast
next
  case (alloc n p env junk_err junk r b)
  then show ?thesis using alloc_space_spec [OF assms(2,3)] config_ok_same [OF assms(3)] by blast
next
  case (confirm b mem res status0 r)
  show ?thesis
  proof (cases "status_ok st")
    case True
    from confirm_spec [OF assms(2) True confirm(1-3), of mem res status0] confirm(4) have "trunk_inv 0 st' \<and> same_rest st st'"
      by (auto split: if_splits dest: removed_rest restored_rest)
    then show ?thesis using config_ok_same [OF assms(3)] by blast
  qed (use confirm(4) assms(2,3) in \<open>simp add: trunk_alloc_confirm_def\<close>)
qed

section \<open>Properties\<close>

text \<open>C17. Allocation from free space is best fit and conserves space. If the tree of the store path has a
  block that is not on hold and is large enough, the allocation succeeds; it takes a block of the least
  sufficient size among those, hands out its head on hold, with at least the size asked for, and puts back the rest
  as a free block when the rest is worth a slot. The head and the rest are exactly the old block, every other
  block stays, and the counter of free space does not change.\<close>

theorem trunk_alloc_best_fit:
  assumes "trunk_inv 0 st" and "config_ok st" and "status_ok st" and "0 < n" and "n < 2 ^ 31"
    and "path_index p < length (tree_info_by_sizes st)" and "mem_granted env" and "logs_ok env"
    and "free_fit (tree_info_by_sizes st ! path_index p) (wanted st n) c"
  shows "\<exists>st' old b. trunk_alloc_space st env junk_err junk n p = Some (st', 0, b) \<and> trunk_inv 0 st' \<and>
    free_fit (tree_info_by_sizes st ! path_index p) (wanted st n) old \<and>
    (\<forall>d. free_fit (tree_info_by_sizes st ! path_index p) (wanted st n) d \<longrightarrow> bsize old \<le> bsize d) \<and>
    b = hold (cut_node st n old) \<and> n \<le> bsize b \<and>
    mset (free_blocks st') + {#old#} = mset (free_blocks st) + mset (b # left_over st n old) \<and>
    total_size (b # left_over st n old) = bsize old \<and>
    g_trunk_total_free_space st' = g_trunk_total_free_space st"
proof -
  let ?i = "path_index p" and ?x = "store_path_index (path p)" and ?t = "tree_info_by_sizes st ! path_index p"
  have tr: "size_tree st (unat ?x) = Some ?t" "unat ?x = ?i" using assms(6) by (simp_all add: size_tree_def path_index_def)
  obtain res where res: "find_free_node ?t (wanted st n) = Some res" "best_fit ?t (wanted st n) res"
    using search_spec [OF assms(1,2,4-6)] by blast
  then obtain s old where old: "res = Some (s, old)" using assms(9) by (cases res) (auto simp: best_fit_def)
  have bf: "best_fit ?t (wanted st n) (Some (s, old))" using res(2) old by simp
  obtain st1 where st1: "take_block st ?i s old (al_realloc env) = Some st1" "trunk_inv (bsize old) st1" "same_rest st st1"
      "node_fits st1 old n" "\<not> conflict st1 old" "mset (free_blocks st) = add_mset old (mset (free_blocks st1))"
    using found_node_spec [OF assms(1,2,4-6) bf] by blast
  have same: "cut_node st1 n old = cut_node st n old" "left_over st1 n old = left_over st n old"
    using st1(3) by (simp_all add: cut_node_def left_over_def same_rest_def)
  obtain st' b where st': "hold_node st1 env old n p = Some (st', 0, b)" "trunk_inv 0 st'" "b = hold (cut_node st n old)"
      "mset (free_blocks st') = add_mset b (mset (left_over st n old) + mset (free_blocks st1))"
    using hold_node_spec [OF st1(2,4) assms(7), of p] assms(8) st1(5) same by auto
  have "obtain_node st env junk n ?x = Some (st1, Some 0, Some old)"
    using tr res(1) old st1(1) by (simp add: obtain_node_def wanted_def)
  then have run: "trunk_alloc_space st env junk_err junk n p = Some (st', 0, b)"
    using assms(3) st'(1) by (simp add: trunk_alloc_space_def)
  have sz: "total_size (b # left_over st n old) = bsize old"
    using st'(3) by (simp add: total_size_def left_over_def hold_def cut_node_def split_head_def split_rest_def)
  have ms: "mset (free_blocks st') + {#old#} = mset (free_blocks st) + mset (b # left_over st n old)"
    using st'(4) st1(6) by simp
  have "total_size (free_blocks st') = total_size (free_blocks st)"
    using st'(4) st1(6) sz by (simp add: total_size_mset)
  then have "g_trunk_total_free_space st' = g_trunk_total_free_space st" using st'(2) assms(1) by (simp add: trunk_inv_def)
  moreover have "n \<le> bsize b" using pieces_ok(4) [OF st1(4)] same st'(3) by simp
  moreover have "free_fit ?t (wanted st n) old" "\<forall>d. free_fit ?t (wanted st n) d \<longrightarrow> bsize old \<le> bsize d"
    using bf by (simp_all add: best_fit_def)
  ultimately show ?thesis using run st'(2,3) sz ms by blast
qed

definition sample_files :: file_env where
  "sample_files = \<lparr>ini_res = (\<lambda>_. 0), file_exists = (\<lambda>_. False),
     file_init = (\<lambda>_. \<lparr>open_excl = None, init_wait = \<lparr>stat_seq = (\<lambda>_. Inl 2), g_current_time = (\<lambda>_. 0)\<rparr>,
       init_ftruncate = None\<rparr>)\<rparr>"

definition sample_alloc :: alloc_env where
  "sample_alloc = \<lparr>al_create = \<lparr>create_node_alloc = True, create_files = sample_files, create_binlog_res = 0\<rparr>,
     al_realloc = True, al_split_alloc = True, al_split_res = 0, al_split_env = sample_add, al_hold_env = sample_add\<rparr>"

lemma sample_alloc_ok: "mem_granted sample_alloc" "logs_ok sample_alloc"
  using sample_add_granted by (simp_all add: mem_granted_def logs_ok_def sample_alloc_def) (simp_all add: sample_add_def)

lemma sample_config: "config_ok sample_state" "path_index (sample_block 0 0) < length (tree_info_by_sizes sample_state)"
  by (simp_all add: config_ok_def sample_state_def path_index_def sample_block_def)

lemma sample_wanted: "64 < n \<Longrightarrow> wanted sample_state n = n"
  by (simp add: wanted_def sample_state_def)

lemma sample_fit:
  "free_fit (tree_info_by_sizes sample_state ! path_index (sample_block 0 0)) n c \<longleftrightarrow> c = sample_block 0 1000 \<and> n \<le> 1000"
  by (auto simp: free_fit_def sample_state_def path_index_def sample_block_def tree_blocks_def sample_tree_of_def)

theorem trunk_alloc_best_fit_witness:
  "\<exists>st' b. trunk_alloc_space sample_state sample_alloc 0 (sample_block 0 0) 300 (sample_block 0 0) = Some (st', 0, b) \<and>
     trunk_inv 0 st' \<and> b = hold (sample_block 0 300) \<and> g_trunk_total_free_space st' = 1000 \<and>
     mset (free_blocks st') = {#hold (sample_block 0 300), sample_block 300 700#}"
proof -
  have fit: "free_fit (tree_info_by_sizes sample_state ! path_index (sample_block 0 0)) (wanted sample_state 300) (sample_block 0 1000)"
    by (simp add: sample_fit sample_wanted)
  have v: "cut_node sample_state 300 (sample_block 0 1000) = sample_block 0 300"
      "left_over sample_state 300 (sample_block 0 1000) = [sample_block 300 700]"
      "g_trunk_total_free_space sample_state = 1000"
    by (simp_all add: cut_node_def left_over_def sample_state_def sample_block_def split_head_def split_rest_def)
  from trunk_alloc_best_fit [OF sample_state_inv sample_config(1) sample_state_ok(1) _ _ sample_config(2) sample_alloc_ok fit,
      of 0 "sample_block 0 0"]
  show ?thesis by (auto simp: sample_fit v sample_blocks)
qed

text \<open>C18. Allocation is safe whatever happens: with the memory it asks for, and for any answers of the
  binlog, the ini file and the file system, a call that returns leaves chains, register and
  counter consistent. A call that returns success, from free space or from a new trunk file, hands out a
  block on hold of at least the size asked for on the store path asked for, which is
  recorded and shares no byte with any other recorded block.\<close>

theorem trunk_alloc_safe:
  assumes "trunk_inv 0 st" and "config_ok st" and "0 < n" and "n \<le> g_trunk_file_size st"
    and "path_index p < length (tree_info_by_sizes st)" and "mem_granted env"
    and "trunk_alloc_space st env junk_err junk n p = Some (st', r, b)"
  shows "trunk_inv 0 st' \<and>
    (r = 0 \<longrightarrow> b \<in> set (free_blocks st') \<and> status b = FDFS_TRUNK_STATUS_HOLD \<and> n \<le> bsize b \<and> path_index b = path_index p \<and>
      (\<forall>c \<in> set (free_blocks st'). c \<noteq> b \<longrightarrow> \<not> overlap b c))"
  using alloc_space_spec [OF assms] free_blocks_disjoint by blast

text \<open>An allocation that no free block satisfies, which makes a trunk file.\<close>

lemma sample_create:
  "\<exists>st1 b. trunk_create_trunk_file sample_state (al_create sample_alloc) (sample_block 0 0) 0 = Some (st1, Some 0, Some b) \<and>
     trunk_id (tfile b) = 8"
proof -
  let ?f = "fresh_node sample_state (sample_block 0 0) 0"
  obtain st2 info2 name where p: "place_file (draw_id sample_state) (?f\<lparr>tfile := (tfile ?f)\<lparr>trunk_id := 8\<rparr>\<rparr>) = (st2, info2, name)"
    by (metis prod_cases3)
  have id: "g_current_trunk_file_id (draw_id sample_state) = 8" by (simp add: draw_id_def sample_state_def int_range_def)
  have "trunk_create_next_file sample_state sample_files ?f = Some (st2, 0, info2)"
    using p id by (subst trunk_create_next_file.simps)
      (simp add: sample_files_def Let_def trunk_init_file_ex_def ftruncate_result_def)
  moreover have "trunk_id (tfile info2) = 8" using place_file_quiet(3) [OF p] by simp
  ultimately show ?thesis
    by (simp add: trunk_create_trunk_file_def sample_alloc_def Let_def trunk_mem_binlog_write_def)
qed

theorem trunk_alloc_safe_witness:
  "\<exists>st' b. trunk_alloc_space sample_state sample_alloc 0 (sample_block 0 0) 2000 (sample_block 0 0) = Some (st', 0, b) \<and>
     trunk_inv 0 st' \<and> 2000 \<le> bsize b"
proof -
  let ?p = "sample_block 0 0"
  obtain st1 b where c: "trunk_create_trunk_file sample_state (al_create sample_alloc) ?p 0 = Some (st1, Some 0, Some b)" "trunk_id (tfile b) = 8"
    using sample_create by blast
  have sz: "g_trunk_file_size sample_state = 4096" "uint (store_path_index (path ?p)) = 0" "path_index ?p = 0"
    by (simp_all add: sample_state_def sample_block_def path_index_def)
  note cs = create_trunk_file_spec [OF sample_state_inv sample_config(1) c(1)]
  have st1: "trunk_inv (bsize b) st1" "free_blocks st1 = [sample_block 0 1000]" "node_fits st1 b 2000"
    using cs sz sample_config config_ok_same [OF sample_config(1), of st1]
    by (auto simp: sample_blocks chosen_path_def node_fits_def same_rest_def)
  have nc: "\<not> conflict st1 b" using c(2) st1(2)
    by (simp add: conflict_def overlap_def FILL_FILE_IDENTIFIER_def sample_block_def)
  obtain res where "find_free_node (tree_info_by_sizes sample_state ! path_index ?p) 2000 = Some res"
      "best_fit (tree_info_by_sizes sample_state ! path_index ?p) 2000 res"
    using search_spec [OF sample_state_inv sample_config(1) _ _ sample_config(2), of 2000] by (auto simp: sample_wanted)
  moreover have "res = None" using calculation(2) by (auto simp: best_fit_def sample_fit split: option.splits)
  ultimately have "obtain_node sample_state sample_alloc ?p 2000 (store_path_index (path ?p)) = Some (st1, Some 0, Some b)"
    using c(1) sz sample_config(2) sample_wanted [of 2000] by (simp add: obtain_node_def size_tree_def path_index_def wanted_def)
  then have run: "trunk_alloc_space sample_state sample_alloc 0 ?p 2000 ?p = hold_node st1 sample_alloc b 2000 ?p"
    using sample_state_ok(1) by (simp add: trunk_alloc_space_def)
  obtain st' out where r: "trunk_alloc_space sample_state sample_alloc 0 ?p 2000 ?p = Some (st', 0, out)"
    using hold_node_spec [OF st1(1,3) sample_alloc_ok(1), of ?p] sample_alloc_ok(2) nc unfolding run by blast
  from trunk_alloc_safe [OF sample_state_inv sample_config(1) _ _ sample_config(2) sample_alloc_ok(1) r] r sz show ?thesis by simp
qed

text \<open>C19. Confirming an allocation: a block that is not on hold in the allocator is answered with
  \<open>ENOENT\<close> and nothing changes. Success, or space that turned out to be occupied, removes exactly that block and
  takes its size off the counter; any other status makes it free again, with the counter unchanged.\<close>

theorem trunk_alloc_confirm_correct:
  assumes "trunk_inv 0 st" and "status_ok st" and "path_index b < length (tree_info_by_sizes st)"
    and "0 \<le> bsize b" and "bsize b < 2 ^ 31"
  shows "\<exists>st' r. trunk_alloc_confirm st mem res b status0 = Some (st', r) \<and> trunk_inv 0 st' \<and>
    (if hold b \<notin> set (free_blocks st) then st' = st \<and> r = ENOENT
     else if status0 = 0 \<or> status0 = EEXIST
     then r = res \<and> mset (free_blocks st) = add_mset (hold b) (mset (free_blocks st')) \<and>
       g_trunk_total_free_space st' = g_trunk_total_free_space st - bsize b \<and>
       trunk_binlog st' = trunk_binlog st @ [(TRUNK_OP_TYPE_DEL_SPACE, hold b)]
     else r = 0 \<and> mset (free_blocks st') = add_mset (b\<lparr>status := FDFS_TRUNK_STATUS_FREE\<rparr>) (mset (free_blocks st) - {#hold b#}) \<and>
       g_trunk_total_free_space st' = g_trunk_total_free_space st \<and> trunk_binlog st' = trunk_binlog st)"
proof -
  obtain st' r where r: "trunk_alloc_confirm st mem res b status0 = Some (st', r)" "trunk_inv 0 st'"
      "if hold b \<notin> set (free_blocks st) then st' = st \<and> r = ENOENT
       else if status0 = 0 \<or> status0 = EEXIST then r = res \<and> removed st (hold b) True st'
       else r = 0 \<and> restored st (hold b) st'"
    using confirm_spec [OF assms] by blast
  have hs: "bsize (hold b) = bsize b" "(hold b)\<lparr>status := FDFS_TRUNK_STATUS_FREE\<rparr> = b\<lparr>status := FDFS_TRUNK_STATUS_FREE\<rparr>"
    by (simp_all add: hold_def)
  have tot: "g_trunk_total_free_space s = (\<Sum>y \<in># mset (free_blocks s). bsize y)" if "trunk_inv 0 s" for s
    using that by (simp add: trunk_inv_def total_size_mset)
  have rem: "g_trunk_total_free_space st' = g_trunk_total_free_space st - bsize b" if "removed st (hold b) True st'"
    using that tot [OF assms(1)] tot [OF r(2)] hs(1) by (simp add: removed_def)
  have res: "g_trunk_total_free_space st' = g_trunk_total_free_space st"
    if m: "restored st (hold b) st'" "hold b \<in> set (free_blocks st)"
  proof -
    obtain F where "mset (free_blocks st) = add_mset (hold b) F" using m(2) by (metis mset_add set_mset_mset)
    then show ?thesis using m(1) tot [OF assms(1)] tot [OF r(2)] hs by (simp add: restored_def)
  qed
  show ?thesis using r rem res hs(2) by (auto simp: removed_def restored_def split: if_splits)
qed

theorem trunk_alloc_confirm_correct_witness:
  "trunk_alloc_confirm sample_state True 0 (sample_block 0 1000) 0 = Some (sample_state, 2)"
proof -
  have b: "path_index (sample_block 0 1000) < length (tree_info_by_sizes sample_state)" "0 \<le> bsize (sample_block 0 1000)"
      "bsize (sample_block 0 1000) < 2 ^ 31" "hold (sample_block 0 1000) \<notin> set (free_blocks sample_state)"
    by (simp_all add: path_index_def sample_state_ok(2) sample_blocks) (simp_all add: sample_block_def hold_def)
  from trunk_alloc_confirm_correct [OF sample_state_inv sample_state_ok(1) b(1-3), of True 0 0] b(4) show ?thesis by auto
qed

text \<open>C1. The trunk server keeps its books: in every state reachable by any sequence of requests to free,
  allocate and confirm, the chains and the register of blocks hold the same blocks, no byte of a trunk
  file is in two of them, and the counter of free space is the sum of their sizes.\<close>

theorem trunk_reachable_consistent:
  assumes "trunk_inv 0 st" and "config_ok st" and "trunk_step\<^sup>*\<^sup>* st st'"
  shows "trunk_inv 0 st' \<and> pairwise (\<lambda>a b. \<not> overlap a b) (set (free_blocks st')) \<and> distinct (free_blocks st') \<and>
    mset (free_blocks st') = mset (checker_blocks (tree_info_by_id st')) \<and>
    g_trunk_total_free_space st' = total_size (free_blocks st')"
proof -
  have "trunk_inv 0 st' \<and> config_ok st'" using assms(3,1,2)
    by (induction rule: rtranclp_induct) (auto dest: trunk_step_inv)
  then have inv: "trunk_inv 0 st'" by blast
  from checker.no_overlap [of "tree_info_by_id st'"] have
    "pairwise (\<lambda>a b. \<not> overlap a b) (set (free_blocks st'))" "distinct (checker_blocks (tree_info_by_id st'))"
    using inv inv_set_blocks [OF inv] by (simp_all add: trunk_inv_def)
  moreover have "distinct (free_blocks st')" using inv calculation(2) by (metis mset_eq_imp_distinct_iff trunk_inv_def)
  ultimately show ?thesis using inv by (simp add: trunk_inv_def)
qed

theorem trunk_reachable_consistent_witness:
  "\<exists>st'. trunk_step\<^sup>*\<^sup>* sample_state st' \<and> g_trunk_total_free_space st' = total_size (free_blocks st') \<and>
     set (free_blocks st') = {sample_block 0 1000, sample_block 1000 500}"
proof -
  let ?b = "sample_block 1000 500"
  have b: "block_ok ?b" "bend ?b < 2 ^ 31 - 1" "path_index ?b < length (tree_info_by_sizes sample_state)"
    by (simp_all add: sample_block_ok) (simp_all add: bend_def sample_block_def path_index_def sample_state_ok)
  have fr: "?b\<lparr>status := FDFS_TRUNK_STATUS_FREE\<rparr> = ?b" by (simp add: sample_block_def)
  have nc: "\<not> conflict sample_state ?b" by (simp add: conflict_def sample_blocks overlap_def bend_def sample_block_def)
  from add_free_block_spec(2) [OF sample_state_inv b sample_add_granted nc, of True] obtain st' where
    st': "trunk_add_free_block sample_state sample_add ?b True = Some (st', 0)" "added sample_state ?b True st'"
    by (auto simp: sample_add_def)
  have "trunk_free_space sample_state True sample_add ?b True = Some (st', 0)"
    using st'(1) fr by (simp add: trunk_free_space_def) (simp add: sample_state_def sample_block_def)
  then have s: "trunk_step\<^sup>*\<^sup>* sample_state st'"
    using trunk_step.free [OF b sample_add_granted] by blast
  have "mset (free_blocks st') = {#?b, sample_block 0 1000#}" using st'(2) by (simp add: added_def sample_blocks)
  from arg_cong [OF this, of set_mset] have "set (free_blocks st') = {sample_block 0 1000, ?b}" by auto
  with trunk_reachable_consistent [OF sample_state_inv sample_config(1) s] s show ?thesis by blast
qed

text \<open>The rounds of \<open>trunk_create_next_file\<close>, while the ids can be written: the state, the node and the file name of each.\<close>

fun rounds :: "nat \<Rightarrow> trunk_state \<Rightarrow> FDFSTrunkFullInfo \<Rightarrow> trunk_state \<times> FDFSTrunkFullInfo \<times> byte list" where
  "rounds 0 st info =
     (let st1 = draw_id st in place_file st1 (info\<lparr>tfile := (tfile info)\<lparr>trunk_id := g_current_trunk_file_id st1\<rparr>\<rparr>))"
| "rounds (Suc k) st info = (let (st1, info1, name) = rounds 0 st info in rounds k st1 info1)"

lemma rounds_id: "rounds k st info = (st', info', name) \<Longrightarrow>
  trunk_id (tfile info') = c_int (g_current_trunk_file_id st + int (Suc k)) \<and> g_current_trunk_file_id st' = trunk_id (tfile info')"
proof (induction k arbitrary: st info)
  case 0
  then have p: "place_file (draw_id st) (info\<lparr>tfile := (tfile info)\<lparr>trunk_id := g_current_trunk_file_id (draw_id st)\<rparr>\<rparr>) = (st', info', name)"
    by (simp add: Let_def)
  from place_file_quiet(3,4) [OF p] show ?case by (simp add: draw_id_def)
next
  case (Suc k)
  obtain st1 info1 n1 where r: "rounds 0 st info = (st1, info1, n1)" by (metis prod_cases3)
  then have p: "place_file (draw_id st) (info\<lparr>tfile := (tfile info)\<lparr>trunk_id := g_current_trunk_file_id (draw_id st)\<rparr>\<rparr>) = (st1, info1, n1)"
    by (simp add: Let_def)
  have "g_current_trunk_file_id st1 = c_int (g_current_trunk_file_id st + 1)"
    using place_file_quiet(4) [OF p] by (simp add: draw_id_def)
  moreover have "c_int (c_int (a + 1) + int (Suc k)) = c_int (a + int (Suc (Suc k)))" for a
  proof -
    have "c_int (c_int (a + 1) + b) = c_int (a + 1 + b)" for b
      unfolding c_int_def by (metis signed_take_bit_add signed_take_bit_signed_take_bit min.idem)
    from this [of "int (Suc k)"] show ?thesis by (simp add: ac_simps)
  qed
  ultimately show ?case using Suc.IH [of st1 info1] Suc.prems r by simp
qed

text \<open>Making a trunk file returns, with the first id after the current one whose file does not
  exist, as soon as there is such an id: the files of the ids in between are the ones that exist, the id
  and sub directories written to the node are those of the free file, and the result is that of creating it.\<close>

theorem trunk_create_next_file_returns:
  assumes "\<forall>i. ini_res env i = 0" and "rounds k st info = (st', info', name)"
    and "\<not> file_exists env name" and "\<forall>j < k. file_exists env (snd (snd (rounds j st info)))"
    and "trunk_init_file_ex (file_init env name) (g_trunk_file_size st') = Some r"
  shows "trunk_create_next_file st env info = Some (st', r, info') \<and>
    trunk_id (tfile info') = c_int (g_current_trunk_file_id st + int (Suc k))"
proof
  show "trunk_id (tfile info') = c_int (g_current_trunk_file_id st + int (Suc k))" using rounds_id [OF assms(2)] by blast
  show "trunk_create_next_file st env info = Some (st', r, info')" using assms(2,4)
  proof (induction k arbitrary: st info)
    case 0
    then show ?case using assms(1,3,5) by (subst trunk_create_next_file.simps) (simp add: Let_def)
  next
    case (Suc k)
    obtain st1 info1 n1 where r: "rounds 0 st info = (st1, info1, n1)" by (metis prod_cases3)
    have "file_exists env n1" using Suc.prems(2) r by force
    then have "trunk_create_next_file st env info = trunk_create_next_file st1 env info1"
      using assms(1) r by (subst trunk_create_next_file.simps) (simp add: Let_def)
    moreover have "file_exists env (snd (snd (rounds j st1 info1)))" if "j < k" for j
      using Suc.prems(2) [rule_format, of "Suc j"] that r by simp
    ultimately show ?case using Suc.IH [of st1 info1] Suc.prems(1) r by simp
  qed
qed

theorem trunk_create_next_file_returns_witness:
  "\<exists>st' r info'. trunk_create_next_file sample_state sample_files (sample_block 0 4096) = Some (st', r, info') \<and>
     trunk_id (tfile info') = 8"
proof -
  obtain st' info' name where p: "rounds 0 sample_state (sample_block 0 4096) = (st', info', name)" by (metis prod_cases3)
  have "trunk_init_file_ex (file_init sample_files name) (g_trunk_file_size st') = Some 0"
    by (simp add: sample_files_def trunk_init_file_ex_def ftruncate_result_def)
  from trunk_create_next_file_returns [OF _ p _ _ this] show ?thesis
    by (simp add: sample_files_def) (simp add: sample_state_def int_range_def)
qed

section \<open>Trunk files made in advance\<close>

definition paths_ok :: "trunk_state \<Rightarrow> bool" where
  "paths_ok st \<longleftrightarrow> g_path_space_list (store_path st) \<noteq> [] \<and> 0 \<le> g_store_path_index (store_path st) \<and>
     length (g_path_space_list (store_path st)) = length (tree_info_by_sizes st)"

lemma chosen_path_index:
  assumes "paths_ok st" and "config_ok st" and "chosen_path st (-1) = Inr i"
  shows "unat (word_of_int i :: byte) < length (tree_info_by_sizes st)"
proof -
  obtain s' where "storage_get_storage_path_index (store_path st) = (s', Inr i)"
    using assms(3) by (metis chosen_path_def eq_neg_iff_add_eq_0 not_one_le_zero one_neq_zero prod.collapse neg_0_le_iff_le)
  from path_index_range(3) [OF _ _ this] assms(1) have "0 \<le> i" "i < int (length (tree_info_by_sizes st))"
    by (simp_all add: paths_ok_def)
  then have "unat (word_of_int i :: byte) = nat i" using assms(2)
    by (simp add: config_ok_def unat_eq_nat_uint uint_word_of_int)
  with \<open>0 \<le> i\<close> \<open>i < _\<close> show ?thesis by linarith
qed

lemma push_chain_store: "push_chain st env b = Some (st', r) \<Longrightarrow> store_path st' = store_path st"
  by (auto simp: push_chain_def set_tree_def split: bind_splits option.splits if_splits)

lemma add_free_block_store: "trunk_add_free_block st env b w = Some (st', r) \<Longrightarrow> store_path st' = store_path st"
  by (auto simp: trunk_add_free_block_def trunk_mem_binlog_write_def Let_def dest!: push_chain_store split: bind_splits if_splits)

lemma create_trunk_file_store:
  assumes "paths_ok st" and "trunk_create_trunk_file st env junk (-1) = Some (st', err, node)"
    and "length (tree_info_by_sizes st') = length (tree_info_by_sizes st)"
  shows "paths_ok st'"
proof -
  obtain s' ch where ch: "storage_get_storage_path_index (store_path st) = (s', ch)" by fastforce
  from path_index_range(1,2) [OF _ _ ch] assms(1) have s': "g_path_space_list s' = g_path_space_list (store_path st)" "0 \<le> g_store_path_index s'"
    by (simp_all add: paths_ok_def)
  have "store_path st' = s' \<or> store_path st' = store_path st"
    using assms(2) ch
    by (auto simp: trunk_create_trunk_file_def trunk_mem_binlog_write_def Let_def placed_def
        dest!: create_next_file_placed split: bind_splits if_splits sum.splits)
  then show ?thesis using assms(1,3) s' by (auto simp: paths_ok_def)
qed

text \<open>One file made in advance: the block is added and its size counted twice.\<close>

lemma advance_one:
  assumes "trunk_inv d st" and "config_ok st" and "paths_ok st"
    and "trunk_create_trunk_file st env junk (-1) = Some (st1, err, Some b)"
    and "add_granted aenv" and "trunk_add_free_block st1 aenv b False = Some (st2, 0)"
  shows "trunk_inv (d + g_trunk_file_size st) st2 \<and> same_rest st st2 \<and> paths_ok st2 \<and>
    length (free_blocks st2) = Suc (length (free_blocks st))"
proof -
  note c = create_trunk_file_spec [OF assms(1,2,4)]
  obtain i where i: "chosen_path st (-1) = Inr i" "path_index b = unat (word_of_int i :: byte)" using c by auto
  have c1: "trunk_inv (d + g_trunk_file_size st) st1" "block_ok b" "bend b < 2 ^ 31 - 1" "same_rest st st1" "free_blocks st1 = free_blocks st"
    using c by auto
  have len: "length (tree_info_by_sizes st1) = length (tree_info_by_sizes st)" using c1(4) by (simp add: same_rest_def)
  have "path_index b < length (tree_info_by_sizes st1)" using chosen_path_index [OF assms(3,2) i(1)] i(2) len by simp
  note add = add_free_block_spec [OF c1(1-3) this assms(5), of False]
  have "\<not> conflict st1 b" using add(1) assms(6) by auto
  from add(2) [OF this] assms(6) have a: "trunk_inv (d + g_trunk_file_size st) st2" "added st1 b False st2" by auto
  have p1: "paths_ok st1" using create_trunk_file_store [OF assms(3,4) len] .
  have "same_rest st st2" using same_rest_trans [OF c1(4) added_rest [OF a(2)]] .
  moreover have "paths_ok st2" using p1 add_free_block_store [OF assms(6)] added_rest [OF a(2)] by (simp add: paths_ok_def same_rest_def)
  moreover have "mset (free_blocks st2) = add_mset b (mset (free_blocks st))" using a(2) c1(5) by (simp add: added_def)
  then have "length (free_blocks st2) = Suc (length (free_blocks st))" by (metis size_add_mset size_mset)
  ultimately show ?thesis using a(1) by blast
qed

lemma advance_loop_spec:
  assumes "advance_loop st env junk i n res = Some (st', 0)" and "trunk_inv d st" and "config_ok st" and "paths_ok st"
    and "\<forall>i. add_granted (adv_add env i)"
  shows "\<exists>k. k \<le> n \<and> trunk_inv (d + int k * g_trunk_file_size st) st' \<and> length (free_blocks st') = length (free_blocks st) + k"
  using assms(1-4)
proof (induction n arbitrary: st i res d)
  case 0
  then show ?case by auto
next
  case (Suc n)
  obtain st1 err node where c: "trunk_create_trunk_file st (adv_create env i) junk (-1) = Some (st1, err, node)"
    using Suc.prems(1) by (cases "trunk_create_trunk_file st (adv_create env i) junk (-1)") auto
  note cs = create_trunk_file_spec [OF Suc.prems(2,3) c]
  have same: "same_rest st st1" using cs by simp
  show ?case
  proof (cases node)
    case None
    have "paths_ok st1" using create_trunk_file_store [OF Suc.prems(4) c] same by (simp add: same_rest_def)
    moreover have "trunk_inv d st1" "free_blocks st1 = free_blocks st" using cs None by auto
    moreover obtain res1 where "advance_loop st1 env junk (Suc i) n res1 = Some (st', 0)"
      using Suc.prems(1) c None by auto
    moreover have "g_trunk_file_size st1 = g_trunk_file_size st" using same by (simp add: same_rest_def)
    ultimately show ?thesis using Suc.IH [of st1 "Suc i" _ d] config_ok_same [OF Suc.prems(3) same]
      by (metis le_Suc_eq)
  next
    case (Some b)
    obtain st2 r where a: "trunk_add_free_block st1 (adv_add env i) b False = Some (st2, r)"
      using Suc.prems(1) c Some by (cases "trunk_add_free_block st1 (adv_add env i) b False") auto
    then have r: "r = 0" "advance_loop st2 env junk (Suc i) n 0 = Some (st', 0)"
      using Suc.prems(1) c Some by (auto split: if_splits)
    have one: "trunk_inv (d + g_trunk_file_size st) st2" "same_rest st st2" "paths_ok st2"
        "length (free_blocks st2) = Suc (length (free_blocks st))"
      using advance_one [OF Suc.prems(2-4) c [unfolded Some], of "adv_add env i" st2] a r(1) assms(5) by auto
    have "g_trunk_file_size st2 = g_trunk_file_size st" using one(2) by (simp add: same_rest_def)
    with Suc.IH [OF r(2) one(1) config_ok_same [OF Suc.prems(3) one(2)] one(3)] one(4)
    obtain k where "k \<le> n" "trunk_inv (d + g_trunk_file_size st + int k * g_trunk_file_size st) st'"
        "length (free_blocks st') = Suc (length (free_blocks st)) + k" by auto
    then show ?thesis by (intro exI [of _ "Suc k"]) (simp add: algebra_simps)
  qed
qed

text \<open>Making trunk files in advance counts their space twice: when the task reports success after
  making \<open>k\<close> files, the counter of free space is too large by the size of \<open>k\<close> trunk files, because both the
  binlog record of the new file and the insertion of its block add the size.\<close>

theorem trunk_advance_double_count:
  assumes "trunk_inv 0 st" and "config_ok st" and "paths_ok st" and "\<forall>i. add_granted (adv_add env i)"
    and "trunk_create_trunk_file_advance st env junk = Some (st', 0)"
  shows "\<exists>k. length (free_blocks st') = length (free_blocks st) + k \<and>
    g_trunk_total_free_space st' = total_size (free_blocks st') + int k * g_trunk_file_size st"
proof -
  have "st' = st \<or> (\<exists>n. advance_loop st env junk 0 n 0 = Some (st', 0))"
    using assms(5) unfolding trunk_create_trunk_file_advance_def Let_def
    by (simp split: if_split_asm) blast+
  then consider (none) "st' = st" | (loop) n where "advance_loop st env junk 0 n 0 = Some (st', 0)" by blast
  then show ?thesis
  proof cases
    case none
    then show ?thesis using assms(1) by (intro exI [of _ 0]) (simp add: trunk_inv_def)
  next
    case loop
    from advance_loop_spec [OF loop assms(1-4)] show ?thesis by (auto simp: trunk_inv_def)
  qed
qed

definition sample_advance :: advance_env where
  "sample_advance = \<lparr>g_trunk_create_file_advance = True, g_trunk_create_file_space_threshold = 5096,
     adv_create = (\<lambda>_. al_create sample_alloc), adv_add = (\<lambda>_. sample_add)\<rparr>"

lemma sample_path_choice: "storage_get_storage_path_index (store_path sample_state) = (store_path sample_state, Inr 0)"
  by (simp add: sample_state_def storage_get_storage_path_index_def has_space_def fdfs_check_reserved_space_path_def
      rotate_index_def Let_def)

theorem trunk_advance_double_count_witness:
  "\<exists>st'. trunk_create_trunk_file_advance sample_state sample_advance (sample_block 0 0) = Some (st', 0) \<and>
     total_size (free_blocks st') = 5096 \<and> g_trunk_total_free_space st' = 9192"
proof -
  let ?j = "sample_block 0 0"
  have "trunk_create_trunk_file sample_state (al_create sample_alloc) ?j (-1) =
      trunk_create_trunk_file sample_state (al_create sample_alloc) ?j 0"
    by (simp add: trunk_create_trunk_file_def sample_path_choice)
  then obtain st1 b where c: "trunk_create_trunk_file sample_state (al_create sample_alloc) ?j (-1) = Some (st1, Some 0, Some b)"
      "trunk_id (tfile b) = 8"
    using sample_create by auto
  note cs = create_trunk_file_spec [OF sample_state_inv sample_config(1) c(1)]
  have sz: "g_trunk_file_size sample_state = 4096" by (simp add: sample_state_def)
  have p: "paths_ok sample_state" by (simp add: paths_ok_def sample_state_def)
  have c1: "trunk_inv 4096 st1" "block_ok b" "bend b < 2 ^ 31 - 1" "bsize b = 4096" "free_blocks st1 = [sample_block 0 1000]"
      "path_index b < length (tree_info_by_sizes st1)"
    using cs sz by (auto simp: chosen_path_def sample_path_choice sample_blocks same_rest_def sample_state_ok(2))
  have "\<not> conflict st1 b" using c(2) c1(5)
    by (simp add: conflict_def overlap_def FILL_FILE_IDENTIFIER_def sample_block_def)
  from add_free_block_spec(2) [OF c1(1-3,6) sample_add_granted this, of False] obtain st2 where
    st2: "trunk_add_free_block st1 sample_add b False = Some (st2, 0)" "added st1 b False st2" by auto
  have "advance_loop sample_state sample_advance ?j 0 1 0 = Some (st2, 0)"
    using c(1) st2(1) by (simp add: sample_advance_def)
  moreover have "trunk_create_trunk_file_advance sample_state sample_advance ?j = advance_loop sample_state sample_advance ?j 0 1 0"
    by (simp add: trunk_create_trunk_file_advance_def Let_def sample_advance_def)
      (simp add: sample_state_def fdfs_check_reserved_space_path_def int_range_def)
  ultimately have run: "trunk_create_trunk_file_advance sample_state sample_advance ?j = Some (st2, 0)" by simp
  have ms: "mset (free_blocks st2) = {#b, sample_block 0 1000#}" using st2(2) c1(5) by (simp add: added_def)
  then have tot: "total_size (free_blocks st2) = 5096" using c1(4) by (simp add: total_size_mset) (simp add: sample_block_def)
  from arg_cong [OF ms, of size] have len: "length (free_blocks st2) = 2" by simp
  have g: "\<forall>i. add_granted (adv_add sample_advance i)" using sample_add_granted by (simp add: sample_advance_def)
  from trunk_advance_double_count [OF sample_state_inv sample_config(1) p g run] len tot sz run
  show ?thesis by (auto simp: sample_blocks)
qed

end
