(* ===== verification/Trunk_Binlog.thy ===== *)
theory Trunk_Binlog
  imports Trunk_Mem
begin

text \<open>
  The trunk binlog, \<open>storage/trunk_mgr/trunk_sync.c\<close>: records are printed into a cache that is flushed to the
  binlog file; a reader takes lines out of a buffer it refills from the file; a sync thread sends
  the complete lines of that buffer to another storage server, which appends them to its own binlog.

  The cache is the list of the bytes it holds. A reader's buffer is the list of the bytes from its start to the
  end of the unread ones, with the place \<open>current\<close> where those begin. What \<open>write\<close>, \<open>fsync\<close> and the network
  answer are arguments. The mutex makes the calls of one server run one after another.
\<close>

section \<open>Numbers as text\<close>

text \<open>\<open>%d\<close> of \<open>sprintf\<close>, and \<open>atoi\<close>.\<close>

definition print_int :: "int \<Rightarrow> byte list" where
  "print_int x = (if 0 \<le> x then print_dec (nat x) else 45 # print_dec (nat (- x)))"

definition atoi :: "byte list \<Rightarrow> int" where
  "atoi s = c_int (fst (strtol s 10))"

section \<open>Writing\<close>

abbreviation (input) TRUNK_BINLOG_BUFFER_SIZE :: nat where "TRUNK_BINLOG_BUFFER_SIZE \<equiv> 8192"
abbreviation (input) TRUNK_BINLOG_LINE_SIZE :: nat where "TRUNK_BINLOG_LINE_SIZE \<equiv> 128"

record binlog =
  binlog_file :: "byte list"
  trunk_binlog_write_cache_buff :: "byte list"
  trunk_binlog_write_version :: int

text \<open>The number of bytes \<open>write\<close> takes and the \<open>errno\<close> it leaves when they are not all; the \<open>errno\<close> of a failing \<open>fsync\<close>.\<close>

record write_env =
  wrote :: nat
  write_errno :: int
  fsync_errno :: "int option"

definition trunk_binlog_fsync_ex :: "binlog \<Rightarrow> write_env \<Rightarrow> byte list \<Rightarrow> binlog \<times> nat \<times> int" where
  "trunk_binlog_fsync_ex bl env buff =
     (let n = length buff;
          out = take (wrote env) buff;
          bl1 = (if n = 0 then bl else bl\<lparr>binlog_file := binlog_file bl @ out\<rparr>);
          write_ret = (if n = 0 then 0
                       else if length out \<noteq> n then err_or (write_errno env) EIO
                       else (case fsync_errno env of Some errno \<Rightarrow> err_or errno EIO | None \<Rightarrow> 0))
      in if write_ret = 0 then (bl1\<lparr>trunk_binlog_write_version := trunk_binlog_write_version bl1 + 1\<rparr>, 0, 0)
         else (bl1, n, write_ret))"

definition trunk_binlog_fsync :: "binlog \<Rightarrow> write_env \<Rightarrow> binlog \<times> int" where
  "trunk_binlog_fsync bl env =
     (let (bl1, n, ret) = trunk_binlog_fsync_ex bl env (trunk_binlog_write_cache_buff bl)
      in (bl1\<lparr>trunk_binlog_write_cache_buff := take n (trunk_binlog_write_cache_buff bl)\<rparr>, ret))"

definition trunk_binlog_sync_func :: "binlog \<Rightarrow> write_env \<Rightarrow> binlog \<times> int" where
  "trunk_binlog_sync_func bl env = (if trunk_binlog_write_cache_buff bl \<noteq> [] then trunk_binlog_fsync bl env else (bl, 0))"

definition trunk_binlog_truncate :: "binlog \<Rightarrow> write_env \<Rightarrow> int option \<Rightarrow> binlog \<times> int" where
  "trunk_binlog_truncate bl env ftruncate_errno =
     (let (bl1, result) = trunk_binlog_sync_func bl env in
      if result \<noteq> 0 then (bl1, result)
      else (case ftruncate_errno of
              Some errno \<Rightarrow> (bl1, err_or errno EIO)
            | None \<Rightarrow> (bl1\<lparr>binlog_file := []\<rparr>, 0)))"

text \<open>One line: the time, the operation and the block.\<close>

definition op_char :: "trunk_op \<Rightarrow> byte" where
  "op_char op_type = (case op_type of TRUNK_OP_TYPE_ADD_SPACE \<Rightarrow> 65 | TRUNK_OP_TYPE_DEL_SPACE \<Rightarrow> 68)"

definition block_cols :: "FDFSTrunkFullInfo \<Rightarrow> byte list list" where
  "block_cols b = [print_int (uint (store_path_index (path b))), print_int (uint (sub_path_high (path b))),
     print_int (uint (sub_path_low (path b))), print_int (trunk_id (tfile b)), print_int (trunk_offset (tfile b)),
     print_int (trunk_size (tfile b))]"

definition binlog_line :: "int \<Rightarrow> byte \<Rightarrow> FDFSTrunkFullInfo \<Rightarrow> byte list" where
  "binlog_line timestamp op_type pTrunk = join_cols 32 (print_int timestamp # [op_type] # block_cols pTrunk) @ [10]"

definition trunk_binlog_write :: "binlog \<Rightarrow> write_env \<Rightarrow> int \<Rightarrow> byte \<Rightarrow> FDFSTrunkFullInfo \<Rightarrow> binlog \<times> int" where
  "trunk_binlog_write bl env timestamp op_type pTrunk =
     (let bl1 = bl\<lparr>trunk_binlog_write_cache_buff := trunk_binlog_write_cache_buff bl @ binlog_line timestamp op_type pTrunk\<rparr> in
      if int TRUNK_BINLOG_BUFFER_SIZE - int (length (trunk_binlog_write_cache_buff bl1)) < 128 then trunk_binlog_fsync bl1 env
      else (bl1, 0))"

definition trunk_binlog_write_buffer :: "binlog \<Rightarrow> (nat \<Rightarrow> write_env) \<Rightarrow> byte list \<Rightarrow> binlog \<times> int" where
  "trunk_binlog_write_buffer bl env buff =
     (let n = length buff;
          (bl1, ret1) = (if int TRUNK_BINLOG_BUFFER_SIZE - (int (length (trunk_binlog_write_cache_buff bl)) + int n) < 128
                         then trunk_binlog_fsync bl (env 0) else (bl, 0))
      in if ret1 \<noteq> 0 then (bl1, ret1)
         else if n \<ge> TRUNK_BINLOG_BUFFER_SIZE then
           (let (bl2, ret2) = (if trunk_binlog_write_cache_buff bl1 \<noteq> [] then trunk_binlog_fsync bl1 (env 1) else (bl1, 0)) in
            if ret2 \<noteq> 0 then (bl2, ret2)
            else (let (bl3, len, ret3) = trunk_binlog_fsync_ex bl2 (env 2) buff in (bl3, ret3)))
         else (bl1\<lparr>trunk_binlog_write_cache_buff := trunk_binlog_write_cache_buff bl1 @ buff\<rparr>, 0))"

section \<open>Reading\<close>

record BinLogBuffer =
  buffer :: "byte list"
  current :: nat
  version :: int

definition unread :: "BinLogBuffer \<Rightarrow> byte list" where
  "unread b = drop (current b) (buffer b)"

record TrunkBinLogReader =
  binlog_buff :: BinLogBuffer
  fd_pos :: nat
  binlog_offset :: int
  last_binlog_offset :: int
  mark_file :: "byte list"

text \<open>\<open>read_errno\<close>: the error of a failing \<open>read\<close>; a \<open>read\<close> of a regular file returns what there is up to the size asked for.\<close>

definition trunk_binlog_preread :: "TrunkBinLogReader \<Rightarrow> binlog \<Rightarrow> int option \<Rightarrow> TrunkBinLogReader \<times> int" where
  "trunk_binlog_preread pReader bl read_errno =
     (let buff = binlog_buff pReader; old = unread buff in
      if version buff = trunk_binlog_write_version bl \<and> length old = 0 then (pReader, ENOENT)
      else if length old = TRUNK_BINLOG_BUFFER_SIZE then (pReader, 0)
      else
        (let buff1 = (if current buff \<noteq> 0 then buff\<lparr>buffer := old, current := 0\<rparr> else buff);
             r1 = pReader\<lparr>binlog_buff := buff1\<rparr> in
         case read_errno of
           Some errno \<Rightarrow> (r1, err_or errno EIO)
         | None \<Rightarrow>
             (let bytes = take (TRUNK_BINLOG_BUFFER_SIZE - length old) (drop (fd_pos pReader) (binlog_file bl)) in
              if bytes = [] then (r1\<lparr>binlog_buff := buff1\<lparr>version := trunk_binlog_write_version bl\<rparr>\<rparr>, ENOENT)
              else (r1\<lparr>binlog_buff := buff1\<lparr>buffer := old @ bytes\<rparr>, fd_pos := fd_pos pReader + length bytes\<rparr>, 0))))"

text \<open>The line read, without a line \<open>[]\<close>; the third result is \<open>*line_length\<close> when the call sets it.\<close>

definition trunk_binlog_do_line_read :: "TrunkBinLogReader \<Rightarrow> nat \<Rightarrow> nat \<Rightarrow> TrunkBinLogReader \<times> int \<times> nat \<times> byte list" where
  "trunk_binlog_do_line_read pReader line_size llen =
     (let buff = binlog_buff pReader in
      if unread buff = [] then (pReader, ENOENT, llen, [])
      else (case strchr (unread buff) 10 of
              None \<Rightarrow> (pReader, ENOENT, llen, [])
            | Some i \<Rightarrow>
                if i + 1 \<ge> line_size then (pReader, ENOSPC, i + 1, [])
                else (pReader\<lparr>binlog_buff := buff\<lparr>current := current buff + i + 1\<rparr>\<rparr>, 0, i + 1, take (i + 1) (unread buff))))"

definition trunk_binlog_read_line :: "TrunkBinLogReader \<Rightarrow> binlog \<Rightarrow> int option \<Rightarrow> nat \<Rightarrow> nat \<Rightarrow> TrunkBinLogReader \<times> int \<times> nat \<times> byte list" where
  "trunk_binlog_read_line pReader bl read_errno line_size llen =
     (let (r1, result, len, line) = trunk_binlog_do_line_read pReader line_size llen in
      if result \<noteq> ENOENT then (r1, result, len, line)
      else
        (let (r2, result2) = trunk_binlog_preread r1 bl read_errno in
         if result2 \<noteq> 0 then (r2, result2, len, line) else trunk_binlog_do_line_read r2 line_size len))"

record TrunkBinLogRecord =
  timestamp :: int
  op_type :: byte
  trunk :: FDFSTrunkFullInfo

definition parse_block :: "byte list list \<Rightarrow> FDFSTrunkFullInfo \<Rightarrow> FDFSTrunkFullInfo" where
  "parse_block cols b =
     b\<lparr>path := \<lparr>store_path_index = word_of_int (atoi (cols ! 0)), sub_path_high = word_of_int (atoi (cols ! 1)),
               sub_path_low = word_of_int (atoi (cols ! 2))\<rparr>,
       tfile := \<lparr>trunk_id = atoi (cols ! 3), trunk_offset = atoi (cols ! 4), trunk_size = atoi (cols ! 5)\<rparr>\<rparr>"

definition c_str :: "byte list \<Rightarrow> byte list" where
  "c_str s = takeWhile (\<lambda>c. c \<noteq> 0) s"

definition trunk_binlog_read ::
  "TrunkBinLogReader \<Rightarrow> binlog \<Rightarrow> int option \<Rightarrow> TrunkBinLogRecord \<Rightarrow> nat \<Rightarrow> TrunkBinLogReader \<times> int \<times> nat \<times> TrunkBinLogRecord" where
  "trunk_binlog_read pReader bl read_errno pRecord record_length =
     (let (r1, result, len, line) = trunk_binlog_read_line pReader bl read_errno TRUNK_BINLOG_LINE_SIZE record_length in
      if result \<noteq> 0 then (r1, result, len, pRecord)
      else
        (let cols = splitEx (c_str line) 32 8 in
         if length cols < 8 then (r1, ENOENT, len, pRecord)
         else (r1, 0, len, pRecord\<lparr>timestamp := atoi (cols ! 0), op_type := (case cols ! 1 of [] \<Rightarrow> 0 | c # _ \<Rightarrow> c),
                                 trunk := parse_block (drop 2 cols) (trunk pRecord)\<rparr>)))"

section \<open>Sending\<close>

text \<open>\<open>storage_write_to_fd\<close> on the mark file; \<open>result\<close> is what it returns.\<close>

definition mark_line :: "int \<Rightarrow> byte list" where
  "mark_line x = [98, 105, 110, 108, 111, 103, 95, 111, 102, 102, 115, 101, 116, 61] @ print_int x @ [10]"

definition trunk_write_to_mark_file :: "TrunkBinLogReader \<Rightarrow> int \<Rightarrow> TrunkBinLogReader \<times> int" where
  "trunk_write_to_mark_file pReader result =
     (if result = 0 then (pReader\<lparr>mark_file := mark_line (binlog_offset pReader), last_binlog_offset := binlog_offset pReader\<rparr>, 0)
      else (pReader, result))"

text \<open>The loop that looks for the end of the last line, from position \<open>i\<close> down to the start of the buffer.\<close>

fun last_line_end :: "byte list \<Rightarrow> nat \<Rightarrow> nat" where
  "last_line_end buff 0 = 0"
| "last_line_end buff (Suc i) = (if buff ! Suc i \<noteq> 10 then last_line_end buff i else Suc i)"

text \<open>The bytes sent, and the state once the answer \<open>reply\<close> is there; \<open>send\<close> is the result of the two sends.\<close>

definition trunk_sync_length :: "TrunkBinLogReader \<Rightarrow> nat" where
  "trunk_sync_length pReader =
     (let buff = binlog_buff pReader in last_line_end (buffer buff) (length (unread buff) - 1))"

definition trunk_sync_data :: "TrunkBinLogReader \<Rightarrow> int \<Rightarrow> int \<Rightarrow> TrunkBinLogReader \<times> byte list \<times> int" where
  "trunk_sync_data pReader send reply =
     (let buff = binlog_buff pReader; n = trunk_sync_length pReader in
      if n = 0 then (pReader, [], ENOENT)
      else if send \<noteq> 0 then (pReader, [], send)
      else
        (let len = n + 1; out = take len (buffer buff) in
         if reply \<noteq> 0 then (pReader, out, reply)
         else (pReader\<lparr>binlog_offset := binlog_offset pReader + int len,
                 binlog_buff := (if length (unread buff) - len > 0 then buff\<lparr>buffer := take (length (unread buff)) (buffer buff), current := len\<rparr>
                                 else buff\<lparr>buffer := take (current buff) (buffer buff)\<rparr>)\<rparr>, out, 0)))"

text \<open>The handlers of the storage server that receives: the binlog bytes, and the order to empty its binlog.\<close>

definition storage_server_trunk_sync_binlog :: "binlog \<Rightarrow> bool \<Rightarrow> bool \<Rightarrow> (nat \<Rightarrow> write_env) \<Rightarrow> byte list \<Rightarrow> binlog \<times> int" where
  "storage_server_trunk_sync_binlog bl use_trunk_file trunker_self env body =
     (if body = [] \<or> \<not> use_trunk_file \<or> trunker_self then (bl, EINVAL) else trunk_binlog_write_buffer bl env body)"

definition storage_server_trunk_truncate_binlog_file :: "binlog \<Rightarrow> bool \<Rightarrow> bool \<Rightarrow> write_env \<Rightarrow> int option \<Rightarrow> nat \<Rightarrow> binlog \<times> int" where
  "storage_server_trunk_truncate_binlog_file bl use_trunk_file trunker_self env ftruncate_errno nInPackLen =
     (if nInPackLen \<noteq> 0 \<or> \<not> use_trunk_file \<or> trunker_self then (bl, EINVAL) else trunk_binlog_truncate bl env ftruncate_errno)"

section \<open>Opening a reader\<close>

text \<open>
  What \<open>trunk_reader_init\<close> finds: whether \<open>malloc\<close> succeeds, the error of renaming an old mark file, whether the mark file is there,
  what the ini reader makes of it (an error number, or the number of items and the offset, -1 without one), the
  errors of opening the files, of writing the mark file and of the first \<open>read\<close>.
\<close>

record reader_env =
  reader_mem :: bool
  rename_errno :: "int option"
  mark_exists :: bool
  mark_content :: "byte list"
  mark_ini :: "int + int \<times> int"
  mark_open_errno :: "int option"
  mark_write_result :: int
  binlog_open_errno :: "int option"
  preread_errno :: "int option"

definition empty_reader :: TrunkBinLogReader where
  "empty_reader = \<lparr>binlog_buff = \<lparr>buffer = [], current = 0, version = 0\<rparr>, fd_pos = 0, binlog_offset = 0, last_binlog_offset = 0,
     mark_file = []\<rparr>"

text \<open>The start offset: the caller's without a storage server, else the one of the mark file, 0 without one.\<close>

definition reader_offset :: "reader_env \<Rightarrow> bool \<Rightarrow> int \<Rightarrow> int + int" where
  "reader_offset env for_storage saved =
     (if \<not> for_storage then Inr saved
      else (case rename_errno env of
              Some errno \<Rightarrow> Inl (err_or errno 13)
            | None \<Rightarrow>
                if \<not> mark_exists env then Inr 0
                else (case mark_ini env of
                        Inl e \<Rightarrow> Inl e
                      | Inr (cnt, v) \<Rightarrow> if cnt < 1 then Inl ENOENT else if v < 0 then Inl EINVAL else Inr v)))"

definition trunk_open_readable_binlog :: "TrunkBinLogReader \<Rightarrow> int option \<Rightarrow> TrunkBinLogReader \<times> int" where
  "trunk_open_readable_binlog pReader open_errno =
     (case open_errno of
        Some errno \<Rightarrow> (pReader, err_or errno ENOENT)
      | None \<Rightarrow> (pReader\<lparr>fd_pos := nat (binlog_offset pReader)\<rparr>, 0))"

definition trunk_reader_init :: "TrunkBinLogReader \<Rightarrow> reader_env \<Rightarrow> bool \<Rightarrow> binlog \<Rightarrow> TrunkBinLogReader \<times> int" where
  "trunk_reader_init pReader env for_storage bl =
     (if \<not> reader_mem env then (empty_reader, ENOMEM)
      else (case reader_offset env for_storage (binlog_offset pReader) of
        Inl e \<Rightarrow> (empty_reader, e)
      | Inr off \<Rightarrow>
          (let r0 = empty_reader\<lparr>binlog_offset := off, last_binlog_offset := off, mark_file := mark_content env\<rparr> in
           case mark_open_errno env of
             Some errno \<Rightarrow> (r0, err_or errno ENOENT)
           | None \<Rightarrow>
               (let (r1, res1) = (if for_storage \<and> \<not> mark_exists env then trunk_write_to_mark_file r0 (mark_write_result env) else (r0, 0)) in
                if res1 \<noteq> 0 then (r1, res1)
                else
                  (let (r2, res2) = trunk_open_readable_binlog r1 (binlog_open_errno env) in
                   if res2 \<noteq> 0 then (r2, res2)
                   else
                     (let (r3, res3) = trunk_binlog_preread r2 bl (preread_errno env) in
                      (r3, if res3 \<noteq> 0 \<and> res3 \<noteq> ENOENT then res3 else 0)))))))"

section \<open>Printing and parsing\<close>

lemma print_dec_digits: "c \<in> set (print_dec n) \<Longrightarrow> 48 \<le> c \<and> c \<le> 57"
proof (induction n rule: less_induct)
  case (less n)
  have d: "(48 :: byte) \<le> of_nat (48 + m) \<and> (of_nat (48 + m) :: byte) \<le> 57" if "m < 10" for m
  proof -
    from that have "m \<in> {0, 1, 2, 3, 4, 5, 6, 7, 8, 9}" by simp arith
    then show ?thesis by (elim insertE emptyE) simp_all
  qed
  show ?case
  proof (cases "n < 10")
    case True
    with less.prems d [OF True] show ?thesis by (subst (asm) print_dec.simps) simp
  next
    case False
    then have "n div 10 < n" "n mod 10 < 10" by auto
    with less.prems less.IH [of "n div 10"] d [of "n mod 10"] False show ?thesis by (subst (asm) print_dec.simps) auto
  qed
qed

lemma print_dec_nonempty: "print_dec n \<noteq> []"
  by (subst print_dec.simps) simp

lemma print_dec_length: "\<lbrakk>n < 10 ^ k; 0 < k\<rbrakk> \<Longrightarrow> length (print_dec n) \<le> k"
proof (induction k arbitrary: n)
  case (Suc k)
  show ?case
  proof (cases "n < 10")
    case True
    then show ?thesis by (subst print_dec.simps) simp
  next
    case False
    have "k \<noteq> 0" using False Suc.prems(1) by (cases k) auto
    moreover have "n div 10 < 10 ^ k" using Suc.prems(1) by (simp add: less_mult_imp_div_less mult.commute)
    ultimately have "length (print_dec (n div 10)) \<le> k" using Suc.IH by simp
    with False show ?thesis by (subst print_dec.simps) simp
  qed
qed simp

lemma digit_char: "48 \<le> c \<and> c \<le> 57 \<Longrightarrow> digit_val c < 10 \<and> \<not> is_space c \<and> c \<noteq> 45 \<and> c \<noteq> 43 \<and> c \<noteq> 32 \<and> c \<noteq> 10 \<and> c \<noteq> (0 :: byte)"
proof -
  assume c: "48 \<le> c \<and> c \<le> 57"
  have "digit_val c < 10" using c by (simp add: digit_val_def word_le_def)
  moreover have "\<not> c \<le> 13" using c order_trans [of 48 c 13] by auto
  moreover have "c \<noteq> 45" "c \<noteq> 43" "c \<noteq> 32" "c \<noteq> 10" "c \<noteq> 0" using c by auto
  ultimately show ?thesis by (simp add: is_space_def)
qed

lemma take_digits:
  assumes "\<forall>c \<in> set ds. digit_val c < 10" and "rest = [] \<or> \<not> digit_val (hd rest) < 10"
  shows "takeWhile (\<lambda>c. digit_val c < 10) (ds @ rest) = ds"
  using assms by (cases rest) (auto simp: takeWhile_append)

lemma strtol_dec:
  assumes "rest = [] \<or> \<not> digit_val (hd rest) < 10"
  shows "fst (strtol (print_dec n @ rest) 10) = min (2 ^ 63 - 1) (int n)"
    and "fst (strtol (45 # print_dec n @ rest) 10) = max (- (2 ^ 63)) (- int n)"
proof -
  obtain c ds where p: "print_dec n = c # ds" using print_dec_nonempty by (cases "print_dec n") auto
  have d: "\<forall>c \<in> set (print_dec n). 48 \<le> c \<and> c \<le> 57" using print_dec_digits by blast
  then have c: "digit_val c < 10" "\<not> is_space c" "c \<noteq> 45" "c \<noteq> 43" using digit_char [of c] p by auto
  have tw: "takeWhile (\<lambda>c. digit_val c < 10) (print_dec n @ rest) = print_dec n"
    using take_digits [OF _ assms] d digit_char by blast
  have v: "digits_val 10 (c # ds) = int n" using print_dec_value [of n] p by simp
  show "fst (strtol (print_dec n @ rest) 10) = min (2 ^ 63 - 1) (int n)"
    using c tw v by (simp add: strtol_def Let_def p)
  show "fst (strtol (45 # print_dec n @ rest) 10) = max (- (2 ^ 63)) (- int n)"
    using c tw v by (simp add: strtol_def Let_def p is_space_def)
qed

lemma atoi_print_int:
  assumes "int_range x" and "rest = [] \<or> \<not> digit_val (hd rest) < 10"
  shows "atoi (print_int x @ rest) = x"
proof (cases "0 \<le> x")
  case True
  then have "fst (strtol (print_int x @ rest) 10) = x"
    using strtol_dec(1) [OF assms(2), of "nat x"] assms(1) by (simp add: print_int_def int_range_def)
  with assms(1) show ?thesis by (simp add: atoi_def)
next
  case False
  then have "fst (strtol (print_int x @ rest) 10) = x"
    using strtol_dec(2) [OF assms(2), of "nat (- x)"] assms(1) by (simp add: print_int_def int_range_def)
  with assms(1) show ?thesis by (simp add: atoi_def)
qed

lemma print_int_chars: "c \<in> set (print_int x) \<Longrightarrow> c \<noteq> 32 \<and> c \<noteq> 10 \<and> c \<noteq> 0"
  using print_dec_digits [of c] digit_char [of c] by (auto simp: print_int_def split: if_splits)

lemma print_int_length: "int_range x \<Longrightarrow> length (print_int x) \<le> 11"
proof -
  assume "int_range x"
  then have "nat x < 10 ^ 10" "nat (- x) < 10 ^ 10" by (auto simp: int_range_def nat_less_iff)
  then have "length (print_dec (nat x)) \<le> 10" "length (print_dec (nat (- x))) \<le> 10" using print_dec_length [of _ 10] by auto
  then show ?thesis by (simp add: print_int_def)
qed

lemma print_byte_length: "length (print_int (uint (b :: byte))) \<le> 3"
proof -
  have "uint b < 256" using uint_bounded [of b] by simp
  then have "nat (uint b) < 10 ^ 3" by (subst nat_less_iff) simp_all
  then show ?thesis using print_dec_length [of "nat (uint b)" 3] by (simp add: print_int_def)
qed

lemma splitEx_join:
  "\<lbrakk>cols \<noteq> []; length cols \<le> k; \<forall>x \<in> set cols. sep \<notin> set x\<rbrakk> \<Longrightarrow> splitEx_loop k sep (join_cols sep cols) = cols"
proof (induction cols arbitrary: k)
  case (Cons x xs)
  obtain k' where k: "k = Suc k'" using Cons.prems(2) by (cases k) auto
  show ?case
  proof (cases "xs = []")
    case True
    have "strchr x sep = None" using Cons.prems(3) by (simp add: strchr_None)
    with True k show ?thesis by (cases k') auto
  next
    case False
    have sc: "strchr (x @ sep # r) sep = Some (length x)" for r
      using Cons.prems(3) by (induction x) auto
    have "k' \<noteq> 0" using False Cons.prems(2) k by (cases xs) auto
    moreover have "splitEx_loop k' sep (join_cols sep xs) = xs" using Cons False k by simp
    ultimately show ?thesis using False sc k by (simp add: join_Cons)
  qed
qed simp

text \<open>The lines: eight columns that no field contains a separator or line end of, at most 62 bytes.\<close>

definition block_range :: "FDFSTrunkFullInfo \<Rightarrow> bool" where
  "block_range b \<longleftrightarrow> int_range (trunk_id (tfile b)) \<and> int_range (trunk_offset (tfile b)) \<and> int_range (trunk_size (tfile b))"

lemma block_cols_clean: "x \<in> set (block_cols b) \<Longrightarrow> c \<in> set x \<Longrightarrow> c \<noteq> 32 \<and> c \<noteq> 10 \<and> c \<noteq> 0"
  using print_int_chars by (auto simp: block_cols_def)

lemma join_length: "cols \<noteq> [] \<Longrightarrow> length (join_cols sep cols) = sum_list (map length cols) + length cols - 1"
  by (induction sep cols rule: join_cols.induct) auto

lemma set_join: "set (join_cols sep cols) \<subseteq> insert sep (\<Union>x \<in> set cols. set x)"
  by (induction sep cols rule: join_cols.induct) auto

lemma binlog_line_length:
  assumes "int_range ts" and "block_range b"
  shows "length (binlog_line ts op b) \<le> 62"
proof -
  note p = print_int_length [OF assms(1)] print_byte_length [of "store_path_index (path b)"] print_byte_length [of "sub_path_high (path b)"]
    print_byte_length [of "sub_path_low (path b)"]
  have "length (print_int (trunk_id (tfile b))) \<le> 11" "length (print_int (trunk_offset (tfile b))) \<le> 11"
      "length (print_int (trunk_size (tfile b))) \<le> 11"
    using assms(2) print_int_length by (simp_all add: block_range_def)
  with p show ?thesis by (simp add: binlog_line_def join_length block_cols_def)
qed

lemma binlog_line_chars:
  assumes "op \<noteq> 32" and "op \<noteq> 10" and "op \<noteq> 0"
  obtains l where "binlog_line ts op b = l @ [10]" and "10 \<notin> set l" and "0 \<notin> set l" and "l \<noteq> []"
proof
  let ?l = "join_cols 32 (print_int ts # [op] # block_cols b)"
  show "binlog_line ts op b = ?l @ [10]" by (simp add: binlog_line_def)
  have "\<forall>c \<in> set ?l. c = 32 \<or> (\<exists>x \<in> set (print_int ts # [op] # block_cols b). c \<in> set x)" using set_join by fastforce
  then show "10 \<notin> set ?l" "0 \<notin> set ?l" using assms print_int_chars block_cols_clean by fastforce+
  show "?l \<noteq> []" by (simp add: join_Cons block_cols_def)
qed

lemma parse_block_print:
  assumes "block_range b"
  shows "parse_block (block_cols b) b' = b\<lparr>status := status b'\<rparr>"
    and "parse_block (butlast (block_cols b) @ [last (block_cols b) @ [10]]) b' = b\<lparr>status := status b'\<rparr>"
proof -
  have byte: "atoi (print_int (uint w)) = uint w" for w :: byte
  proof -
    have "int_range x" if "0 \<le> x" "x < 256" for x using that by (simp add: int_range_def)
    then have "int_range (uint w)" using uint_bounded [of w] by simp
    from atoi_print_int [OF this, of "[]"] show ?thesis by simp
  qed
  have num: "atoi (print_int x) = x" "atoi (print_int x @ [10]) = x" if "int_range x" for x
    using atoi_print_int [OF that, of "[]"] atoi_print_int [OF that, of "[10]"] by (simp_all add: digit_val_def)
  note r = assms [unfolded block_range_def]
  show "parse_block (block_cols b) b' = b\<lparr>status := status b'\<rparr>"
    using r byte num by (simp add: parse_block_def block_cols_def)
  show "parse_block (butlast (block_cols b) @ [last (block_cols b) @ [10]]) b' = b\<lparr>status := status b'\<rparr>"
    using r byte num by (simp add: parse_block_def block_cols_def nth_append)
qed

lemma strchr_append: "c \<notin> set l \<Longrightarrow> strchr (l @ c # r) c = Some (length l)"
  by (induction l) auto

lemma do_line_read_spec:
  assumes "unread (binlog_buff r) = l @ 10 # rest" and "10 \<notin> set l"
  shows "trunk_binlog_do_line_read r sz n =
    (if length l + 1 \<ge> sz then (r, ENOSPC, length l + 1, [])
     else (r\<lparr>binlog_buff := (binlog_buff r)\<lparr>current := current (binlog_buff r) + length l + 1\<rparr>\<rparr>, 0, length l + 1, l @ [10]))"
  using strchr_append [OF assms(2), of rest] assms(1) by (simp add: trunk_binlog_do_line_read_def Let_def)

lemma split_line:
  assumes "op \<noteq> 32"
  shows "splitEx (binlog_line ts op b) 32 8 =
    print_int ts # [op] # butlast (block_cols b) @ [last (block_cols b) @ [10]]"
proof -
  let ?c = "print_int ts # [op] # butlast (block_cols b) @ [last (block_cols b) @ [10]]"
  have "\<forall>x \<in> set ?c. 32 \<notin> set x"
    using assms print_int_chars [of 32] by (auto simp: block_cols_def)
  moreover have "binlog_line ts op b = join_cols 32 ?c" by (simp add: binlog_line_def block_cols_def join_Cons)
  ultimately show ?thesis using splitEx_join [of ?c 8 32] by (simp add: splitEx_def block_cols_def)
qed

lemma binlog_read_line_spec:
  assumes "unread (binlog_buff r) = binlog_line ts op b @ rest" and "op \<noteq> 32" and "op \<noteq> 10" and "op \<noteq> 0"
    and "int_range ts" and "block_range b"
  shows "trunk_binlog_read r bl e rec n =
    (r\<lparr>binlog_buff := (binlog_buff r)\<lparr>current := current (binlog_buff r) + length (binlog_line ts op b)\<rparr>\<rparr>, 0,
     length (binlog_line ts op b), rec\<lparr>timestamp := ts, op_type := op, trunk := b\<lparr>status := status (trunk rec)\<rparr>\<rparr>)"
proof -
  obtain l where l: "binlog_line ts op b = l @ [10]" "10 \<notin> set l" "0 \<notin> set l" using binlog_line_chars [OF assms(2-4)] by metis
  have u: "unread (binlog_buff r) = l @ 10 # rest" using assms(1) l(1) by simp
  have len: "length l + 1 < TRUNK_BINLOG_LINE_SIZE" using binlog_line_length [OF assms(5,6), of op] l(1) by simp
  have line: "trunk_binlog_read_line r bl e TRUNK_BINLOG_LINE_SIZE n =
      (r\<lparr>binlog_buff := (binlog_buff r)\<lparr>current := current (binlog_buff r) + length l + 1\<rparr>\<rparr>, 0, length l + 1, l @ [10])"
    using do_line_read_spec [OF u l(2)] len by (simp add: trunk_binlog_read_line_def)
  have "c_str (l @ [10]) = binlog_line ts op b" using l(1,3) by (auto simp: c_str_def takeWhile_append)
  with split_line [OF assms(2)] have cols: "splitEx (c_str (l @ [10])) 32 8 =
      print_int ts # [op] # butlast (block_cols b) @ [last (block_cols b) @ [10]]" by simp
  have ts: "atoi (print_int ts) = ts" using atoi_print_int [OF assms(5), of "[]"] by simp
  have n: "length (butlast (block_cols b)) = 5" by (simp add: block_cols_def)
  show ?thesis unfolding trunk_binlog_read_def line prod.case Let_def cols
    using ts n parse_block_print(2) [OF assms(6), of "trunk rec"] l(1) by simp
qed

section \<open>The cache\<close>

text \<open>What was written so far, in the file and in the cache.\<close>

definition logged :: "binlog \<Rightarrow> byte list" where
  "logged bl = binlog_file bl @ trunk_binlog_write_cache_buff bl"

lemma fsync_spec:
  assumes "trunk_binlog_fsync bl env = (bl', ret)"
  shows "prefix (binlog_file bl) (binlog_file bl')"
    and "ret = 0 \<Longrightarrow> binlog_file bl' = logged bl \<and> trunk_binlog_write_cache_buff bl' = []"
    and "ret \<noteq> 0 \<Longrightarrow> trunk_binlog_write_cache_buff bl' = trunk_binlog_write_cache_buff bl"
    and "\<lbrakk>ret \<noteq> 0; wrote env = 0\<rbrakk> \<Longrightarrow> bl' = bl"
proof -
  let ?c = "trunk_binlog_write_cache_buff bl"
  have "ret = 0 \<Longrightarrow> ?c = [] \<or> take (wrote env) ?c = ?c"
    using assms by (auto simp: trunk_binlog_fsync_def trunk_binlog_fsync_ex_def Let_def err_or_def split: if_splits)
  then show "prefix (binlog_file bl) (binlog_file bl')"
    "ret = 0 \<Longrightarrow> binlog_file bl' = logged bl \<and> trunk_binlog_write_cache_buff bl' = []"
    "ret \<noteq> 0 \<Longrightarrow> trunk_binlog_write_cache_buff bl' = ?c"
    "\<lbrakk>ret \<noteq> 0; wrote env = 0\<rbrakk> \<Longrightarrow> bl' = bl"
    using assms by (auto simp: trunk_binlog_fsync_def trunk_binlog_fsync_ex_def Let_def logged_def split: if_splits)
qed

lemma fsync_granted:
  assumes "length (trunk_binlog_write_cache_buff bl) \<le> wrote env" and "fsync_errno env = None"
  shows "\<exists>bl'. trunk_binlog_fsync bl env = (bl', 0) \<and> binlog_file bl' = logged bl \<and> trunk_binlog_write_cache_buff bl' = []"
  using assms by (auto simp: trunk_binlog_fsync_def trunk_binlog_fsync_ex_def Let_def logged_def)

lemma sync_func_spec:
  assumes "trunk_binlog_sync_func bl env = (bl', ret)"
  shows "prefix (binlog_file bl) (binlog_file bl')" and "ret = 0 \<or> wrote env = 0 \<Longrightarrow> logged bl' = logged bl"
proof -
  show "prefix (binlog_file bl) (binlog_file bl')"
    using assms fsync_spec(1) by (auto simp: trunk_binlog_sync_func_def split: if_splits)
  show "logged bl' = logged bl" if "ret = 0 \<or> wrote env = 0"
  proof (cases "trunk_binlog_write_cache_buff bl = []")
    case True
    with assms show ?thesis by (simp add: trunk_binlog_sync_func_def)
  next
    case False
    with assms have "trunk_binlog_fsync bl env = (bl', ret)" by (simp add: trunk_binlog_sync_func_def)
    from fsync_spec(2,4) [OF this] that show ?thesis by (cases "ret = 0") (auto simp: logged_def)
  qed
qed

lemma write_line_spec:
  assumes "trunk_binlog_write bl env ts op b = (bl', ret)"
  shows "prefix (binlog_file bl) (binlog_file bl')" and "ret = 0 \<Longrightarrow> logged bl' = logged bl @ binlog_line ts op b"
proof -
  let ?bl = "bl\<lparr>trunk_binlog_write_cache_buff := trunk_binlog_write_cache_buff bl @ binlog_line ts op b\<rparr>"
  have l: "logged ?bl = logged bl @ binlog_line ts op b" "binlog_file ?bl = binlog_file bl" by (simp_all add: logged_def)
  have "prefix (binlog_file bl) (binlog_file bl') \<and> (ret = 0 \<longrightarrow> logged bl' = logged bl @ binlog_line ts op b)"
  proof (cases "int TRUNK_BINLOG_BUFFER_SIZE - int (length (trunk_binlog_write_cache_buff ?bl)) < 128")
    case True
    with assms have "trunk_binlog_fsync ?bl env = (bl', ret)" by (simp add: trunk_binlog_write_def Let_def)
    from fsync_spec(1,2) [OF this] l show ?thesis by (simp add: logged_def)
  next
    case False
    with assms have "bl' = ?bl" by (simp add: trunk_binlog_write_def Let_def)
    with l show ?thesis by simp
  qed
  then show "prefix (binlog_file bl) (binlog_file bl')" "ret = 0 \<Longrightarrow> logged bl' = logged bl @ binlog_line ts op b" by simp_all
qed

lemma write_buffer_spec:
  assumes "trunk_binlog_write_buffer bl env buff = (bl', 0)"
  shows "logged bl' = logged bl @ buff"
proof -
  let ?full = "int TRUNK_BINLOG_BUFFER_SIZE - (int (length (trunk_binlog_write_cache_buff bl)) + int (length buff)) < 128"
  obtain bl1 where bl1: "(if ?full then trunk_binlog_fsync bl (env 0) else (bl, 0)) = (bl1, 0)"
    using assms by (auto simp: trunk_binlog_write_buffer_def Let_def split: if_splits prod.splits)
  have l1: "logged bl1 = logged bl" "?full \<Longrightarrow> trunk_binlog_write_cache_buff bl1 = []"
    using bl1 fsync_spec(2) [of bl "env 0" bl1 0] by (auto simp: logged_def split: if_splits)
  show ?thesis
  proof (cases "length buff \<ge> TRUNK_BINLOG_BUFFER_SIZE")
    case True
    then have c1: "trunk_binlog_write_cache_buff bl1 = []" using l1(2) by simp
    obtain len where "trunk_binlog_fsync_ex bl1 (env 2) buff = (bl', len, 0)"
      using assms True bl1 c1 by (auto simp: trunk_binlog_write_buffer_def Let_def split: prod.splits)
    then have "binlog_file bl' = binlog_file bl1 @ buff \<and> trunk_binlog_write_cache_buff bl' = trunk_binlog_write_cache_buff bl1"
      by (auto simp: trunk_binlog_fsync_ex_def Let_def err_or_def split: if_splits)
    with c1 l1(1) show ?thesis by (simp add: logged_def)
  next
    case False
    then have "bl' = bl1\<lparr>trunk_binlog_write_cache_buff := trunk_binlog_write_cache_buff bl1 @ buff\<rparr>"
      using assms bl1 by (auto simp: trunk_binlog_write_buffer_def Let_def)
    with l1(1) show ?thesis by (simp add: logged_def)
  qed
qed

section \<open>The reader\<close>

text \<open>The unread bytes are those of the file from the offset on; the descriptor is behind them.\<close>

definition reader_inv :: "byte list \<Rightarrow> TrunkBinLogReader \<Rightarrow> bool" where
  "reader_inv content r \<longleftrightarrow>
     (let b = binlog_buff r; off = nat (binlog_offset r) in
      0 \<le> binlog_offset r \<and> current b \<le> length (buffer b) \<and> length (buffer b) \<le> TRUNK_BINLOG_BUFFER_SIZE \<and>
      fd_pos r = off + length (unread b) \<and> fd_pos r \<le> length content \<and> unread b = take (length (unread b)) (drop off content))"

lemma reader_inv_grows: "\<lbrakk>reader_inv content r; prefix content content'\<rbrakk> \<Longrightarrow> reader_inv content' r"
proof -
  assume a: "reader_inv content r" "prefix content content'"
  then obtain more where m: "content' = content @ more" by (auto simp: prefix_def)
  let ?n = "length (unread (binlog_buff r))" and ?off = "nat (binlog_offset r)"
  have "?off + ?n \<le> length content" using a(1) by (simp add: reader_inv_def Let_def)
  then have "take ?n (drop ?off content') = take ?n (drop ?off content)" unfolding m by simp
  with a(1) m show ?thesis by (simp add: reader_inv_def Let_def)
qed

lemma take_length_take: "take (length (take n xs)) xs = take n xs"
  by (cases "n \<le> length xs") auto

lemma preread_spec:
  assumes "reader_inv (binlog_file bl) r" and "trunk_binlog_preread r bl e = (r', ret)"
  shows "reader_inv (binlog_file bl) r' \<and> binlog_offset r' = binlog_offset r \<and>
    (ret = 0 \<longrightarrow> current (binlog_buff r') = 0 \<and> unread (binlog_buff r') \<noteq> [])"
proof -
  let ?b = "binlog_buff r" and ?c = "binlog_file bl"
  let ?old = "unread ?b" and ?off = "nat (binlog_offset r)"
  let ?new = "take (TRUNK_BINLOG_BUFFER_SIZE - length ?old) (drop (fd_pos r) ?c)"
  let ?b1 = "if current ?b \<noteq> 0 then ?b\<lparr>buffer := ?old, current := 0\<rparr> else ?b"
  have inv: "0 \<le> binlog_offset r" "current ?b \<le> length (buffer ?b)" "length (buffer ?b) \<le> TRUNK_BINLOG_BUFFER_SIZE"
      "fd_pos r = ?off + length ?old" "fd_pos r \<le> length ?c" "?old = take (length ?old) (drop ?off ?c)"
    using assms(1) by (simp_all add: reader_inv_def Let_def)
  have len: "length ?old = length (buffer ?b) - current ?b" by (simp add: unread_def)
  have b1: "buffer ?b1 = ?old" "current ?b1 = 0" "unread ?b1 = ?old" by (auto simp: unread_def)
  have moved: "reader_inv ?c (r\<lparr>binlog_buff := ?b1\<lparr>version := v\<rparr>\<rparr>)" "reader_inv ?c (r\<lparr>binlog_buff := ?b1\<rparr>)" for v
    using inv len b1 by (auto simp: reader_inv_def Let_def unread_def)
  consider (none) "version ?b = trunk_binlog_write_version bl" "length ?old = 0"
    | (full) "length ?old = TRUNK_BINLOG_BUFFER_SIZE"
    | (read) "\<not> (version ?b = trunk_binlog_write_version bl \<and> length ?old = 0)" "length ?old \<noteq> TRUNK_BINLOG_BUFFER_SIZE" by blast
  then show ?thesis
  proof cases
    case none
    with assms show ?thesis by (auto simp: trunk_binlog_preread_def)
  next
    case full
    with assms inv(3) len show ?thesis by (auto simp: trunk_binlog_preread_def Let_def split: if_splits)
  next
    case read
    note run = assms(2) [unfolded trunk_binlog_preread_def Let_def if_not_P [OF read(1)] if_not_P [OF read(2)]]
    show ?thesis
    proof (cases "e \<noteq> None \<or> ?new = []")
      case True
      have "err_or x EIO \<noteq> 0" for x by (simp add: err_or_def)
      with True run moved show ?thesis by (auto split: option.splits)
    next
      case False
      then have r': "r' = r\<lparr>binlog_buff := ?b1\<lparr>buffer := ?old @ ?new\<rparr>, fd_pos := fd_pos r + length ?new\<rparr>" "ret = 0"
        using run by auto
      have on: "?old @ ?new = take (length ?old + (TRUNK_BINLOG_BUFFER_SIZE - length ?old)) (drop ?off ?c)"
        using inv(4,6) by (simp add: take_add drop_drop add.commute)
      have "take (length (?old @ ?new)) (drop ?off ?c) = ?old @ ?new" unfolding on by (rule take_length_take)
      moreover have "length (?old @ ?new) \<le> TRUNK_BINLOG_BUFFER_SIZE" using inv(3) len by simp
      moreover have fields: "unread (binlog_buff r') = ?old @ ?new" "buffer (binlog_buff r') = ?old @ ?new" "current (binlog_buff r') = 0"
          "fd_pos r' = fd_pos r + length ?new" "binlog_offset r' = binlog_offset r"
        unfolding r' by (simp_all add: unread_def)
      moreover have "fd_pos r + length ?new \<le> length ?c" using inv(5) by auto
      ultimately have "reader_inv ?c r'" using inv(1,4) unfolding reader_inv_def Let_def fields by auto
      with fields r'(2) False show ?thesis by auto
    qed
  qed
qed

lemma last_line_end_spec: "last_line_end buff i \<le> i \<and> (last_line_end buff i \<noteq> 0 \<longrightarrow> buff ! last_line_end buff i = 10)"
  by (induction i) auto

lemma last_line_end_last: "last_line_end buff i < j \<Longrightarrow> j \<le> i \<Longrightarrow> buff ! j \<noteq> 10"
  by (induction i) (auto split: if_splits simp: le_Suc_eq)

text \<open>A successful exchange: what is sent are the next complete lines of the file, and the offset moves behind them.\<close>

lemma sync_data_spec:
  assumes "reader_inv content r" and "current (binlog_buff r) = 0" and "trunk_sync_data r send reply = (r', out, ret)"
  shows "reader_inv content r' \<and> (ret \<noteq> 0 \<longrightarrow> r' = r) \<and>
    (ret = 0 \<longrightarrow> out = take (length out) (drop (nat (binlog_offset r)) content) \<and> out \<noteq> [] \<and> last out = 10 \<and>
       binlog_offset r' = binlog_offset r + int (length out) \<and> nat (binlog_offset r) + length out \<le> length content)"
proof (cases "trunk_sync_length r = 0 \<or> send \<noteq> 0 \<or> reply \<noteq> 0")
  case True
  with assms show ?thesis by (auto simp: trunk_sync_data_def Let_def split: if_splits)
next
  case False
  let ?b = "binlog_buff r" and ?off = "nat (binlog_offset r)" and ?n = "trunk_sync_length r"
  have inv: "0 \<le> binlog_offset r" "length (buffer ?b) \<le> TRUNK_BINLOG_BUFFER_SIZE" "fd_pos r = ?off + length (buffer ?b)"
      "fd_pos r \<le> length content" "buffer ?b = take (length (buffer ?b)) (drop ?off content)" "unread ?b = buffer ?b"
    using assms(1,2) by (simp_all add: reader_inv_def Let_def unread_def)
  have n: "?n \<le> length (buffer ?b) - 1" "buffer ?b ! ?n = 10" "0 < ?n"
    using last_line_end_spec [of "buffer ?b" "length (buffer ?b) - 1"] False inv(6) by (auto simp: trunk_sync_length_def Let_def)
  then have lt: "?n < length (buffer ?b)" by simp
  let ?b' = "if length (buffer ?b) - (?n + 1) > 0 then ?b\<lparr>buffer := take (length (buffer ?b)) (buffer ?b), current := ?n + 1\<rparr>
      else ?b\<lparr>buffer := take (current ?b) (buffer ?b)\<rparr>"
  have run: "ret = 0" "out = take (?n + 1) (buffer ?b)"
      "r' = r\<lparr>binlog_offset := binlog_offset r + int (?n + 1), binlog_buff := ?b'\<rparr>"
    using assms(3) False inv(6) by (auto simp: trunk_sync_data_def Let_def)
  have lo: "length out = ?n + 1" using lt run(2) by simp
  have "out = take (?n + 1) (drop ?off content)" using run(2) inv(5) lt by (metis take_take min.absorb1 Suc_leI Suc_eq_plus1)
  moreover have "last out = out ! ?n" using lo by (metis last_conv_nth add_diff_cancel_right' list.size(3) add_is_0 one_neq_zero)
  then have "last out = 10" using n(2) lt unfolding run(2) by simp
  moreover have "reader_inv content r'"
  proof -
    have u: "unread (binlog_buff r') = drop (?n + 1) (buffer ?b)" using lt assms(2) unfolding run(3) by (auto simp: unread_def)
    have off: "nat (binlog_offset r') = ?off + (?n + 1)" "fd_pos r' = fd_pos r" "0 \<le> binlog_offset r'" using inv(1) unfolding run(3) by simp_all
    have "drop (?n + 1) (buffer ?b) = take (length (buffer ?b) - (?n + 1)) (drop (?off + (?n + 1)) content)"
      using arg_cong [OF inv(5), of "drop (?n + 1)"] by (simp add: drop_take add.commute)
    moreover have "current (binlog_buff r') \<le> length (buffer (binlog_buff r'))" "length (buffer (binlog_buff r')) \<le> TRUNK_BINLOG_BUFFER_SIZE"
      using inv(2) lt assms(2) unfolding run(3) by auto
    ultimately show ?thesis using off inv(3,4) lt unfolding reader_inv_def Let_def u by simp
  qed
  ultimately show ?thesis using run(1,3) lo inv(3,4) lt by auto
qed

lemma truncate_empty:
  assumes "trunk_binlog_truncate bl env None = (bl', 0)"
  shows "logged bl' = []"
proof -
  obtain bl1 where bl1: "trunk_binlog_sync_func bl env = (bl1, 0)" "bl' = bl1\<lparr>binlog_file := []\<rparr>"
    using assms by (auto simp: trunk_binlog_truncate_def Let_def split: prod.splits if_splits)
  then have "trunk_binlog_write_cache_buff bl1 = []"
    using fsync_spec(2) [of bl env bl1 0] by (auto simp: trunk_binlog_sync_func_def split: if_splits)
  with bl1(2) show ?thesis by (simp add: logged_def)
qed

lemma reader_init_run:
  assumes "trunk_reader_init r0 env for_storage bl = (r, 0)" and "reader_offset env for_storage (binlog_offset r0) = Inr off"
  obtains r1 q where "trunk_binlog_preread r1 bl (preread_errno env) = (r, q)" and "binlog_buff r1 = binlog_buff empty_reader"
    and "binlog_offset r1 = off" and "fd_pos r1 = nat off"
proof -
  let ?r0 = "empty_reader\<lparr>binlog_offset := off, last_binlog_offset := off, mark_file := mark_content env\<rparr>"
  have mem: "reader_mem env" "mark_open_errno env = None"
    using assms(1,2) by (auto simp: trunk_reader_init_def err_or_def Let_def split: if_splits option.splits)
  obtain r1 where r1: "(if for_storage \<and> \<not> mark_exists env then trunk_write_to_mark_file ?r0 (mark_write_result env) else (?r0, 0)) = (r1, 0)"
    using assms(1,2) mem by (auto simp: trunk_reader_init_def Let_def split: if_splits prod.splits)
  have f1: "binlog_buff r1 = binlog_buff empty_reader" "binlog_offset r1 = off"
    using r1 by (auto simp: trunk_write_to_mark_file_def split: if_splits)
  have "binlog_open_errno env = None"
    using assms(1,2) mem r1 by (auto simp: trunk_reader_init_def Let_def trunk_open_readable_binlog_def err_or_def split: if_splits prod.splits option.splits)
  then obtain q where pre: "trunk_binlog_preread (r1\<lparr>fd_pos := nat off\<rparr>) bl (preread_errno env) = (r, q)"
    using assms(1,2) mem r1 f1(2) by (auto simp: trunk_reader_init_def Let_def trunk_open_readable_binlog_def split: prod.splits)
  show thesis by (rule that [OF pre]) (simp_all add: f1)
qed

lemma reader_init_inv:
  assumes "trunk_reader_init r0 env for_storage bl = (r, 0)" and "reader_offset env for_storage (binlog_offset r0) = Inr off"
    and "0 \<le> off" and "nat off \<le> length (binlog_file bl)"
  shows "reader_inv (binlog_file bl) r \<and> binlog_offset r = off"
proof -
  obtain r1 q where r1: "trunk_binlog_preread r1 bl (preread_errno env) = (r, q)" "binlog_buff r1 = binlog_buff empty_reader"
      "binlog_offset r1 = off" "fd_pos r1 = nat off" by (rule reader_init_run [OF assms(1,2)])
  have "reader_inv (binlog_file bl) r1" using r1 assms(3,4) by (simp add: reader_inv_def Let_def empty_reader_def unread_def)
  from preread_spec [OF this r1(1)] r1(3) show ?thesis by simp
qed

lemma reader_offset_new:
  assumes "trunk_reader_init r0 env True bl = (r, 0)" and "\<not> mark_exists env"
  shows "reader_offset env True (binlog_offset r0) = Inr 0"
proof -
  have "rename_errno env = None"
    using assms by (auto simp: trunk_reader_init_def reader_offset_def err_or_def split: option.splits if_splits)
  then show ?thesis using assms(2) by (simp add: reader_offset_def)
qed

lemma preread_eof:
  assumes "unread (binlog_buff r) \<noteq> []" and "length (unread (binlog_buff r)) < TRUNK_BINLOG_BUFFER_SIZE" and "length (binlog_file bl) \<le> fd_pos r"
  shows "snd (trunk_binlog_preread r bl None) = ENOENT" and "unread (binlog_buff (fst (trunk_binlog_preread r bl None))) = unread (binlog_buff r)"
    and "fd_pos (fst (trunk_binlog_preread r bl None)) = fd_pos r"
  using assms by (auto simp: trunk_binlog_preread_def Let_def unread_def)

section \<open>Correctness\<close>

definition fresh_env :: reader_env where
  "fresh_env = \<lparr>reader_mem = True, rename_errno = None, mark_exists = False, mark_content = [], mark_ini = Inr (0, -1),
     mark_open_errno = None, mark_write_result = 0, binlog_open_errno = None, preread_errno = None\<rparr>"

definition good_disk :: write_env where
  "good_disk = \<lparr>wrote = 100000, write_errno = 0, fsync_errno = None\<rparr>"

definition one_line :: binlog where
  "one_line = \<lparr>binlog_file = [], trunk_binlog_write_cache_buff = [65, 10], trunk_binlog_write_version = 1\<rparr>"

definition one_reader :: TrunkBinLogReader where
  "one_reader = \<lparr>binlog_buff = \<lparr>buffer = [], current = 0, version = 1\<rparr>, fd_pos = 0, binlog_offset = 0, last_binlog_offset = 0,
     mark_file = mark_line 0\<rparr>"

definition old_replica :: binlog where
  "old_replica = \<lparr>binlog_file = [1, 2, 3], trunk_binlog_write_cache_buff = [], trunk_binlog_write_version = 1\<rparr>"

text \<open>A record that is written to the trunk binlog and flushed is the record a reader gets that has read everything before it: \<open>trunk_binlog_write\<close> and
  \<open>trunk_binlog_sync_func\<close> succeed on a working disk, and \<open>trunk_binlog_read\<close> then returns 0, the time, the operation and the block, and the length
  of the line. Only the status of a block is not in the binlog.\<close>

theorem trunk_binlog_record_roundtrip:
  assumes "trunk_binlog_write_cache_buff bl = []" and "128 \<le> wrote env" and "fsync_errno env = None"
    and "reader_inv (binlog_file bl) r" and "binlog_offset r = int (length (binlog_file bl))"
    and "version (binlog_buff r) \<le> trunk_binlog_write_version bl" and "op \<noteq> 32" and "op \<noteq> 10" and "op \<noteq> 0" and "int_range ts" and "block_range b"
  shows "\<exists>bl1 bl2 r'. trunk_binlog_write bl env ts op b = (bl1, 0) \<and> trunk_binlog_sync_func bl1 env = (bl2, 0) \<and>
    trunk_binlog_read r bl2 None rec n = (r', 0, length (binlog_line ts op b),
      rec\<lparr>timestamp := ts, op_type := op, trunk := b\<lparr>status := status (trunk rec)\<rparr>\<rparr>)"
proof -
  let ?line = "binlog_line ts op b"
  let ?bl1 = "bl\<lparr>trunk_binlog_write_cache_buff := ?line\<rparr>"
  let ?bl2 = "bl\<lparr>binlog_file := binlog_file bl @ ?line, trunk_binlog_write_version := trunk_binlog_write_version bl + 1\<rparr>"
  have len: "length ?line \<le> 62" using binlog_line_length [OF assms(10,11)] .
  obtain l where l: "?line = l @ [10]" "10 \<notin> set l" using binlog_line_chars [OF assms(7-9)] by metis
  have w: "trunk_binlog_write bl env ts op b = (?bl1, 0)" using assms(1) len by (simp add: trunk_binlog_write_def Let_def)
  have f: "trunk_binlog_sync_func ?bl1 env = (?bl2, 0)"
    using assms(1-3) len l(1) by (simp add: trunk_binlog_sync_func_def trunk_binlog_fsync_def trunk_binlog_fsync_ex_def Let_def)
  have u: "unread (binlog_buff r) = []" "fd_pos r = length (binlog_file bl)" using assms(4,5) by (auto simp: reader_inv_def Let_def)
  obtain r2 where r2: "trunk_binlog_preread r ?bl2 None = (r2, 0)" "unread (binlog_buff r2) = ?line"
    using u assms(6) len l(1) by (auto simp: trunk_binlog_preread_def Let_def unread_def)
  have "trunk_binlog_do_line_read r TRUNK_BINLOG_LINE_SIZE n = (r, ENOENT, n, [])" using u by (simp add: trunk_binlog_do_line_read_def)
  then have "trunk_binlog_read_line r ?bl2 None TRUNK_BINLOG_LINE_SIZE n = trunk_binlog_do_line_read r2 TRUNK_BINLOG_LINE_SIZE n"
    using r2(1) by (simp add: trunk_binlog_read_line_def)
  also have "\<dots> = trunk_binlog_read_line r2 ?bl2 None TRUNK_BINLOG_LINE_SIZE n"
    using do_line_read_spec [of r2 l "[]"] r2(2) l len by (simp add: trunk_binlog_read_line_def)
  finally have "trunk_binlog_read r ?bl2 None rec n = trunk_binlog_read r2 ?bl2 None rec n" by (simp add: trunk_binlog_read_def)
  also note binlog_read_line_spec [of r2 ts op b "[]", OF _ assms(7-11)]
  finally show ?thesis using w f r2(2) by simp
qed

theorem trunk_binlog_record_roundtrip_witness:
  "\<exists>bl1 bl2 r' n. trunk_binlog_write (old_replica\<lparr>binlog_file := []\<rparr>) good_disk 1400000000 65 (sample_block 0 1000) = (bl1, 0) \<and>
    trunk_binlog_sync_func bl1 good_disk = (bl2, 0) \<and>
    trunk_binlog_read one_reader bl2 None \<lparr>timestamp = 0, op_type = 0, trunk = sample_block 0 0\<rparr> 0 =
      (r', 0, n, \<lparr>timestamp = 1400000000, op_type = 65, trunk = sample_block 0 1000\<rparr>)"
proof -
  let ?bl = "old_replica\<lparr>binlog_file := []\<rparr>" and ?rec = "\<lparr>timestamp = 0, op_type = 0, trunk = sample_block 0 0\<rparr>"
  have "trunk_binlog_write_cache_buff ?bl = []" "128 \<le> wrote good_disk" "fsync_errno good_disk = None" "reader_inv (binlog_file ?bl) one_reader"
      "binlog_offset one_reader = int (length (binlog_file ?bl))" "version (binlog_buff one_reader) \<le> trunk_binlog_write_version ?bl"
      "int_range 1400000000" "block_range (sample_block 0 1000)"
    by (simp_all add: old_replica_def good_disk_def reader_inv_def one_reader_def unread_def int_range_def block_range_def sample_block_def)
  from trunk_binlog_record_roundtrip [OF this(1-6) _ _ _ this(7,8), of 65 ?rec 0] show ?thesis by (auto simp: sample_block_def)
qed

text \<open>The cache of the binlog writer does not overflow while the disk works: when at most 8064 of its 8192 bytes are used, \<open>sprintf\<close> in
  \<open>trunk_binlog_write\<close> stays inside the buffer with its terminating zero, at most 8064 bytes are used again afterwards, and what is
  in file and cache grew by exactly the line.\<close>

theorem trunk_binlog_write_bounded:
  assumes "length (trunk_binlog_write_cache_buff bl) \<le> 8064" and "8192 \<le> wrote env" and "fsync_errno env = None"
    and "int_range ts" and "block_range b"
  shows "length (trunk_binlog_write_cache_buff bl) + length (binlog_line ts op b) + 1 \<le> TRUNK_BINLOG_BUFFER_SIZE \<and>
    (\<exists>bl'. trunk_binlog_write bl env ts op b = (bl', 0) \<and> length (trunk_binlog_write_cache_buff bl') \<le> 8064 \<and>
       binlog_file bl' @ trunk_binlog_write_cache_buff bl' = binlog_file bl @ trunk_binlog_write_cache_buff bl @ binlog_line ts op b)"
proof -
  let ?bl = "bl\<lparr>trunk_binlog_write_cache_buff := trunk_binlog_write_cache_buff bl @ binlog_line ts op b\<rparr>"
  have len: "length (trunk_binlog_write_cache_buff bl) + length (binlog_line ts op b) + 1 \<le> TRUNK_BINLOG_BUFFER_SIZE"
    using assms(1) binlog_line_length [OF assms(4,5), of op] by simp
  show ?thesis
  proof (cases "int TRUNK_BINLOG_BUFFER_SIZE - int (length (trunk_binlog_write_cache_buff ?bl)) < 128")
    case True
    from fsync_granted [of ?bl env] len assms(2,3) obtain bl' where
      "trunk_binlog_fsync ?bl env = (bl', 0)" "binlog_file bl' = logged ?bl" "trunk_binlog_write_cache_buff bl' = []" by auto
    with True len show ?thesis by (simp add: trunk_binlog_write_def Let_def logged_def)
  next
    case False
    then have "trunk_binlog_write bl env ts op b = (?bl, 0)" by (simp add: trunk_binlog_write_def Let_def)
    with False len show ?thesis by simp
  qed
qed

theorem trunk_binlog_write_bounded_witness:
  "\<exists>bl'. trunk_binlog_write one_line good_disk 1400000000 65 (sample_block 0 1000) = (bl', 0) \<and>
    length (trunk_binlog_write_cache_buff bl') \<le> 8064"
proof -
  have "length (trunk_binlog_write_cache_buff one_line) \<le> 8064" "8192 \<le> wrote good_disk" "fsync_errno good_disk = None"
      "int_range 1400000000" "block_range (sample_block 0 1000)"
    by (simp_all add: one_line_def good_disk_def int_range_def block_range_def sample_block_def)
  from trunk_binlog_write_bounded [OF this, of 65] show ?thesis by blast
qed

lemma failing_write:
  assumes "wrote env = 0"
  shows "trunk_binlog_write_cache_buff (fst (trunk_binlog_write bl env ts op b)) = trunk_binlog_write_cache_buff bl @ binlog_line ts op b"
proof -
  have "err_or (write_errno env) EIO \<noteq> 0" by (simp add: err_or_def)
  with assms show ?thesis
    by (simp add: trunk_binlog_write_def trunk_binlog_fsync_def trunk_binlog_fsync_ex_def Let_def binlog_line_def)
qed

lemma failing_writes:
  assumes "wrote env = 0"
  shows "length (trunk_binlog_write_cache_buff (((\<lambda>bl. fst (trunk_binlog_write bl env ts op b)) ^^ n) bl)) =
    length (trunk_binlog_write_cache_buff bl) + n * length (binlog_line ts op b)"
  by (induction n) (simp_all add: failing_write [OF assms])

text \<open>The cache of the binlog writer overflows in two ways. When the disk takes nothing, a failed flush leaves the cache as it is and the next record
  is printed behind it all the same: some number of records brings the cache past its 8192 bytes. And with a working disk, 8191 bytes
  received from a trunk server are all put into the cache, so that the next record is printed across its end.\<close>

theorem trunk_binlog_cache_overflow:
  assumes "wrote env = 0" and "trunk_binlog_write_cache_buff bl0 = []" and "length buff = 8191"
  shows "(\<exists>n. TRUNK_BINLOG_BUFFER_SIZE < length (trunk_binlog_write_cache_buff (((\<lambda>bl. fst (trunk_binlog_write bl env ts op b)) ^^ n) bl))) \<and>
    (\<exists>bl'. trunk_binlog_write_buffer bl0 (\<lambda>_. good_disk) buff = (bl', 0) \<and>
        TRUNK_BINLOG_BUFFER_SIZE < length (trunk_binlog_write_cache_buff bl') + length (binlog_line ts op b))"
proof
  have two: "2 \<le> length (binlog_line ts op b)" by (simp add: binlog_line_def join_Cons block_cols_def)
  have "8193 * 2 \<le> 8193 * length (binlog_line ts op b)" using two by (intro mult_le_mono) simp_all
  then have "TRUNK_BINLOG_BUFFER_SIZE < length (trunk_binlog_write_cache_buff (((\<lambda>bl. fst (trunk_binlog_write bl env ts op b)) ^^ 8193) bl))"
    unfolding failing_writes [OF assms(1)] by simp
  then show "\<exists>n. TRUNK_BINLOG_BUFFER_SIZE < length (trunk_binlog_write_cache_buff (((\<lambda>bl. fst (trunk_binlog_write bl env ts op b)) ^^ n) bl))"
    by blast
  have "trunk_binlog_write_buffer bl0 (\<lambda>_. good_disk) buff =
      (bl0\<lparr>trunk_binlog_write_cache_buff := buff, trunk_binlog_write_version := trunk_binlog_write_version bl0 + 1\<rparr>, 0)"
    using assms(2,3) by (simp add: trunk_binlog_write_buffer_def trunk_binlog_fsync_def trunk_binlog_fsync_ex_def Let_def)
  with two assms(3) show "\<exists>bl'. trunk_binlog_write_buffer bl0 (\<lambda>_. good_disk) buff = (bl', 0) \<and>
        TRUNK_BINLOG_BUFFER_SIZE < length (trunk_binlog_write_cache_buff bl') + length (binlog_line ts op b)" by simp
qed

theorem trunk_binlog_cache_overflow_witness:
  "\<exists>bl'. trunk_binlog_write_buffer (old_replica\<lparr>binlog_file := []\<rparr>) (\<lambda>_. good_disk) (replicate 8191 65) = (bl', 0) \<and>
     TRUNK_BINLOG_BUFFER_SIZE < length (trunk_binlog_write_cache_buff bl') + length (binlog_line 0 65 (sample_block 0 1000))"
proof -
  have "trunk_binlog_write_cache_buff (old_replica\<lparr>binlog_file := []\<rparr>) = []" by (simp add: old_replica_def)
  moreover have "wrote (good_disk\<lparr>wrote := 0\<rparr>) = 0" by simp
  ultimately show ?thesis using trunk_binlog_cache_overflow [of "good_disk\<lparr>wrote := 0\<rparr>" _ "replicate 8191 65"] by (metis length_replicate)
qed

text \<open>The sync thread stalls with lines in its buffer: opening the reader already reads up to 8192 bytes of the binlog, and when that is all there is,
  each later \<open>trunk_binlog_preread\<close> meets the end of the file and returns \<open>ENOENT\<close>, which the thread takes for nothing to send. As long as the trunk server
  writes nothing, the lines in the buffer are not sent, however often the thread tries.\<close>

theorem trunk_sync_stalls:
  assumes "trunk_reader_init r0 env True bl = (r, 0)" and "\<not> mark_exists env" and "preread_errno env = None"
    and "binlog_file bl \<noteq> []" and "length (binlog_file bl) < TRUNK_BINLOG_BUFFER_SIZE" and "trunk_binlog_write_version bl \<noteq> 0"
  shows "unread (binlog_buff (((\<lambda>r. fst (trunk_binlog_preread r bl None)) ^^ n) r)) = binlog_file bl \<and>
    snd (trunk_binlog_preread (((\<lambda>r. fst (trunk_binlog_preread r bl None)) ^^ n) r) bl None) = ENOENT"
proof -
  let ?f = "\<lambda>r. fst (trunk_binlog_preread r bl None)"
  obtain r1 q where r1: "trunk_binlog_preread r1 bl None = (r, q)" "binlog_buff r1 = binlog_buff empty_reader" "fd_pos r1 = 0"
    by (rule reader_init_run [OF assms(1) reader_offset_new [OF assms(1,2)]]) (simp add: assms(3))
  have r: "unread (binlog_buff r) = binlog_file bl \<and> fd_pos r = length (binlog_file bl)"
    using r1 assms(4-6) by (auto simp: trunk_binlog_preread_def Let_def empty_reader_def unread_def)
  have "unread (binlog_buff ((?f ^^ n) r)) = binlog_file bl \<and> fd_pos ((?f ^^ n) r) = length (binlog_file bl)"
  proof (induction n)
    case (Suc n)
    then show ?case using preread_eof [of "(?f ^^ n) r" bl] assms(4,5) by simp
  qed (simp add: r)
  then show ?thesis using preread_eof(1) [of "(?f ^^ n) r" bl] assms(4,5) by simp
qed

theorem trunk_sync_stalls_witness:
  "\<exists>r. unread (binlog_buff (((\<lambda>r. fst (trunk_binlog_preread r old_replica None)) ^^ 5) r)) = [1, 2, 3] \<and>
    snd (trunk_binlog_preread (((\<lambda>r. fst (trunk_binlog_preread r old_replica None)) ^^ 5) r) old_replica None) = ENOENT"
proof -
  obtain r where r: "trunk_reader_init empty_reader fresh_env True old_replica = (r, 0)"
    by (simp add: trunk_reader_init_def fresh_env_def reader_offset_def empty_reader_def old_replica_def trunk_write_to_mark_file_def
        trunk_open_readable_binlog_def trunk_binlog_preread_def unread_def Let_def)
  have "\<not> mark_exists fresh_env" "preread_errno fresh_env = None" "binlog_file old_replica = [1, 2, 3]" "trunk_binlog_write_version old_replica \<noteq> 0"
    by (simp_all add: fresh_env_def old_replica_def)
  with trunk_sync_stalls [OF r, of 5] show ?thesis by auto
qed

end
