(* ===== verification/Trunk_Replication.thy ===== *)
theory Trunk_Replication
  imports Trunk_Binlog
begin

text \<open>
  Replication of the trunk binlog, \<open>storage/trunk_mgr/trunk_sync.c\<close>: the sync thread of the trunk server and the server that
  receives, as a step relation over their binlogs and the thread's reader, and what the receiver's log is after any run of it.
\<close>

section \<open>The steps\<close>
















section \<open>What the receiver's disk does to its log\<close>








section \<open>The invariant of the exchange\<close>






















section \<open>Correctness\<close>






end
