(* ===== verification/Trunk_Data.thy ===== *)
theory Trunk_Data
  imports Trunk_Alloc Trunk_Binlog
begin

text \<open>
  The free blocks across restarts, \<open>storage/trunk_mgr/trunk_mem.c\<close> lines 147 to 1049: \<open>storage_trunk_save\<close> writes them to a data
  file with the size of the binlog, \<open>storage_trunk_load\<close> reads the file in pieces of 4096 bytes, \<open>storage_trunk_restore\<close> replays the part of the binlog
  the file does not cover (all of it through a tree ordered by offset when there is no file), and \<open>storage_trunk_init\<close> and \<open>storage_trunk_destroy_ex\<close>
  bracket the life of the trunk server. The data file is \<open>None\<close> when it does not exist.
\<close>

abbreviation (input) STORAGE_TRUNK_INIT_FLAG_NONE :: int where "STORAGE_TRUNK_INIT_FLAG_NONE \<equiv> 0"

section \<open>Saving\<close>

text \<open>\<open>stat\<close> of the binlog: an error number or the size.\<close>

definition storage_trunk_get_binlog_size :: "int + int \<Rightarrow> int" where
  "storage_trunk_get_binlog_size stat_res = (case stat_res of Inl errno \<Rightarrow> if errno = ENOENT then 0 else - 1 | Inr n \<Rightarrow> n)"

text \<open>The bytes in the buffer and in the temporary file, and the number of calls of \<open>write\<close>, whose errors are \<open>errs\<close>.\<close>

record walk_callback_args =
  wbuff :: "byte list"
  tmp_file :: "byte list"
  writes :: nat

definition data_line :: "FDFSTrunkFullInfo \<Rightarrow> byte list" where
  "data_line b = join_cols 32 (block_cols b) @ [10]"

definition write_out :: "(nat \<Rightarrow> int option) \<Rightarrow> walk_callback_args \<Rightarrow> walk_callback_args \<times> int" where
  "write_out errs a =
     (case errs (writes a) of
        Some errno \<Rightarrow> (a\<lparr>writes := writes a + 1\<rparr>, err_or errno EIO)
      | None \<Rightarrow> (a\<lparr>tmp_file := tmp_file a @ wbuff a, wbuff := [], writes := writes a + 1\<rparr>, 0))"

fun walk_chain :: "(nat \<Rightarrow> int option) \<Rightarrow> FDFSTrunkFullInfo list \<Rightarrow> walk_callback_args \<Rightarrow> walk_callback_args \<times> int" where
  "walk_chain errs [] a = (a, 0)"
| "walk_chain errs (b # bs) a =
     (let a1 = a\<lparr>wbuff := wbuff a @ data_line b\<rparr> in
      if length (wbuff a1) > 16 * 1024 - 128 then
        (let (a2, result) = write_out errs a1 in if result \<noteq> 0 then (a2, result) else walk_chain errs bs a2)
      else walk_chain errs bs a1)"

definition tree_walk_callback :: "(nat \<Rightarrow> int option) \<Rightarrow> FDFSTrunkSlot \<Rightarrow> walk_callback_args \<Rightarrow> walk_callback_args \<times> int" where
  "tree_walk_callback errs slot a = walk_chain errs (slot_head slot) a"

fun walk_trees :: "(nat \<Rightarrow> int option) \<Rightarrow> FDFSTrunkSlot AVLTreeInfo list \<Rightarrow> walk_callback_args \<Rightarrow> walk_callback_args \<times> int" where
  "walk_trees errs [] a = (a, 0)"
| "walk_trees errs (t # ts) a =
     (let (a1, result) = avl_tree_walk t (tree_walk_callback errs) a in if result \<noteq> 0 then (a1, result) else walk_trees errs ts a1)"

record save_env =
  binlog_stat :: "int + int"
  tmp_open_errno :: "int option"
  tmp_write_errs :: "nat \<Rightarrow> int option"
  tmp_fsync_errno :: "int option"
  data_rename_errno :: "int option"

definition storage_trunk_save :: "trunk_state \<Rightarrow> save_env \<Rightarrow> byte list option \<Rightarrow> byte list option \<times> int" where
  "storage_trunk_save st env df =
     (let trunk_binlog_size = storage_trunk_get_binlog_size (binlog_stat env) in
      if trunk_binlog_size < 0 then (df, case binlog_stat env of Inl errno \<Rightarrow> err_or errno EPERM | Inr _ \<Rightarrow> EPERM)
      else (case tmp_open_errno env of
        Some errno \<Rightarrow> (df, err_or errno EIO)
      | None \<Rightarrow>
          (let a0 = \<lparr>wbuff = print_int trunk_binlog_size @ [10], tmp_file = [], writes = 0\<rparr>;
               (a1, r1) = walk_trees (tmp_write_errs env) (tree_info_by_sizes st) a0;
               (a2, r2) = (if wbuff a1 \<noteq> [] \<and> r1 = 0 then write_out (tmp_write_errs env) a1 else (a1, r1));
               r3 = (if r2 \<noteq> 0 then r2 else (case tmp_fsync_errno env of Some errno \<Rightarrow> err_or errno EIO | None \<Rightarrow> 0))
           in if r3 \<noteq> 0 then (df, r3)
              else (case data_rename_errno env of
                      Some errno \<Rightarrow> (df, err_or errno EIO)
                    | None \<Rightarrow> (Some (tmp_file a2), 0)))))"

section \<open>Adding space at start\<close>

definition dio_check_trunk_file_ex :: "byte list \<Rightarrow> int \<Rightarrow> int" where
  "dio_check_trunk_file_ex old_header errno =
     (if length old_header \<noteq> nat FDFS_TRUNK_FILE_HEADER_SIZE then err_or errno EIO
      else
        (let expect_header = replicate (nat FDFS_TRUNK_FILE_HEADER_SIZE) 0 in
         if old_header \<noteq> expect_header then
           (let h = (trunk_unpack_header old_header)\<lparr>th_alloc_size := 0, th_file_size := 0, file_type := 0\<rparr> in
            if trunk_pack_header h \<noteq> expect_header then EEXIST else 0)
         else 0))"

definition storage_trunk_is_space_occupied :: "file_system \<Rightarrow> byte list list \<Rightarrow> int \<Rightarrow> FDFSTrunkFullInfo \<Rightarrow> bool" where
  "storage_trunk_is_space_occupied fs paths errno pTrunkInfo =
     (case open_at fs (trunk_get_full_filename_ex paths pTrunkInfo 320) (if offset pTrunkInfo > 0 then offset pTrunkInfo else 0) of
        Inl e \<Rightarrow> False
      | Inr d \<Rightarrow> dio_check_trunk_file_ex (read_fd d FDFS_TRUNK_FILE_HEADER_SIZE) errno = EEXIST)"

definition trunk_add_space_by_trunk :: "trunk_state \<Rightarrow> bool \<Rightarrow> add_env \<Rightarrow> FDFSTrunkFullInfo \<Rightarrow> (trunk_state \<times> int) option" where
  "trunk_add_space_by_trunk st node_alloc env pTrunkInfo =
     do {
       (st1, result) \<leftarrow> trunk_free_space st node_alloc env pTrunkInfo False;
       Some (st1, if result = 0 \<or> result = EEXIST then 0 else result)
     }"

definition trunk_add_space_by_node :: "trunk_state \<Rightarrow> add_env \<Rightarrow> FDFSTrunkFullInfo \<Rightarrow> (trunk_state \<times> int) option" where
  "trunk_add_space_by_node st env pTrunkNode =
     (if bsize pTrunkNode < g_slot_min_size st then Some (st, 0)
      else do {
        (st1, result) \<leftarrow> trunk_add_free_block st env pTrunkNode False;
        Some (st1, if result = 0 then 0 else if result = EEXIST then 0 else result)
      })"

text \<open>What the system decides while the free blocks are read: of the data file, of each line of it.\<close>

record load_env =
  g_trunk_init_reload_from_binlog :: bool
  data_unlink_errno :: "int option"
  data_open_errno :: "int option"
  data_read_errs :: "nat \<Rightarrow> int option"
  g_trunk_init_check_occupying :: bool
  trunk_files :: file_system
  header_errno :: int
  line_mem :: "nat \<Rightarrow> bool"
  line_add :: "nat \<Rightarrow> add_env"
  line_junk :: FDFSTrunkFullInfo

definition storage_trunk_do_add_space :: "trunk_state \<Rightarrow> load_env \<Rightarrow> nat \<Rightarrow> FDFSTrunkFullInfo \<Rightarrow> (trunk_state \<times> int) option" where
  "storage_trunk_do_add_space st env n pTrunkInfo =
     (if g_trunk_init_check_occupying env \<and>
         storage_trunk_is_space_occupied (trunk_files env) (g_fdfs_store_paths st) (header_errno env) pTrunkInfo
      then Some (st, 0)
      else trunk_add_space_by_trunk st (line_mem env n) (line_add env n) pTrunkInfo)"

section \<open>Replaying the binlog\<close>

text \<open>What the system decides while the binlog is replayed: by the number of the record, and while the blocks are added at the end.\<close>

record restore_env =
  restore_reader :: reader_env
  record_read_errno :: "nat \<Rightarrow> int option"
  node_mem :: "nat \<Rightarrow> bool"
  tree_mem :: "nat \<Rightarrow> bool"
  record_add :: "nat \<Rightarrow> add_env"
  record_realloc :: "nat \<Rightarrow> bool"
  block_add :: "nat \<Rightarrow> add_env"
  restore_save :: save_env

type_synonym offset_tree = "FDFSTrunkFullInfo AVLTreeInfo"

text \<open>The bytes of the binlog the reader has not handed out: each round of the loop takes some of them.\<close>

definition pending :: "binlog \<Rightarrow> TrunkBinLogReader \<Rightarrow> nat" where
  "pending bl r = length (drop (fd_pos r) (binlog_file bl)) + length (unread (binlog_buff r))"

lemma do_line_read_pending:
  assumes "trunk_binlog_do_line_read r sz n = (r1, res, len, line)"
  shows "pending bl r1 \<le> pending bl r" and "res = 0 \<Longrightarrow> pending bl r1 < pending bl r" and "res = ENOENT \<Longrightarrow> len = n"
proof -
  have "pending bl r1 \<le> pending bl r \<and> (res = 0 \<longrightarrow> pending bl r1 < pending bl r) \<and> (res = ENOENT \<longrightarrow> len = n)"
  proof (cases "strchr (unread (binlog_buff r)) 10")
    case None
    with assms show ?thesis by (auto simp: trunk_binlog_do_line_read_def Let_def split: if_splits)
  next
    case (Some i)
    from strchr_Some [OF Some] have "i < length (unread (binlog_buff r))" by simp
    with assms Some show ?thesis
      by (auto simp: trunk_binlog_do_line_read_def Let_def pending_def unread_def split: if_splits)
  qed
  then show "pending bl r1 \<le> pending bl r" "res = 0 \<Longrightarrow> pending bl r1 < pending bl r" "res = ENOENT \<Longrightarrow> len = n" by simp_all
qed

lemma preread_pending:
  assumes "trunk_binlog_preread r bl e = (r1, res)"
  shows "pending bl r1 = pending bl r"
  using assms
  by (auto simp: trunk_binlog_preread_def Let_def pending_def unread_def split: if_splits option.splits)

lemma read_line_pending:
  assumes "trunk_binlog_read_line r bl e sz 0 = (r1, res, len, line)"
  shows "res = 0 \<Longrightarrow> pending bl r1 < pending bl r" and "res = ENOENT \<Longrightarrow> len = 0"
proof -
  obtain ra a la li where a: "trunk_binlog_do_line_read r sz 0 = (ra, a, la, li)" by (metis prod_cases4)
  obtain rb b where b: "trunk_binlog_preread ra bl e = (rb, b)" by fastforce
  obtain rc c lc lj where c: "trunk_binlog_do_line_read rb sz la = (rc, c, lc, lj)" by (metis prod_cases4)
  note pa = do_line_read_pending(1,2) [OF a, of bl] do_line_read_pending(3) [OF a] and pb = preread_pending [OF b]
    and pc = do_line_read_pending(1,2) [OF c, of bl] do_line_read_pending(3) [OF c]
  have run: "(r1, res, len, line) = (if a \<noteq> ENOENT then (ra, a, la, li) else if b \<noteq> 0 then (rb, b, la, li) else (rc, c, lc, lj))"
    using assms a b c by (auto simp: trunk_binlog_read_line_def)
  show "res = 0 \<Longrightarrow> pending bl r1 < pending bl r" using run pa pb pc(1,2) by (auto split: if_splits)
  show "res = ENOENT \<Longrightarrow> len = 0" using run pa(3) pc(3) by (auto split: if_splits)
qed

lemma binlog_read_pending:
  assumes "trunk_binlog_read r bl e rec 0 = (r1, res, len, rec1)" and "res = 0 \<or> res = ENOENT \<and> len > 0"
  shows "pending bl r1 < pending bl r"
proof -
  obtain ra a la li where a: "trunk_binlog_read_line r bl e TRUNK_BINLOG_LINE_SIZE 0 = (ra, a, la, li)" by (metis prod_cases4)
  note p = read_line_pending [OF a]
  have "r1 = ra" "a \<noteq> 0 \<longrightarrow> res = a \<and> len = la" using assms(1) a by (auto simp: trunk_binlog_read_def Let_def split: if_splits)
  with p assms(2) show ?thesis by (cases "a = 0") auto
qed

lemma pending_offset [simp]: "pending bl (r\<lparr>binlog_offset := x\<rparr>) = pending bl r"
  by (simp add: pending_def)

text \<open>How the loop is left: by \<open>break\<close> or by \<open>return\<close>, with the result.\<close>

datatype loop_exit = Break int | Return int

function restore_loop ::
  "trunk_state \<Rightarrow> offset_tree \<Rightarrow> restore_env \<Rightarrow> bool \<Rightarrow> binlog \<Rightarrow> int \<Rightarrow> TrunkBinLogReader \<Rightarrow> TrunkBinLogRecord \<Rightarrow> nat \<Rightarrow>
   (trunk_state \<times> offset_tree \<times> loop_exit) option" where
  "restore_loop st ot env reload bl trunk_binlog_size reader rec k =
     (let (r1, result, record_length, rec1) = trunk_binlog_read reader bl (record_read_errno env k) rec 0;
          r2 = r1\<lparr>binlog_offset := binlog_offset r1 + int record_length\<rparr>
      in if result = ENOENT \<and> record_length > 0 then restore_loop st ot env reload bl trunk_binlog_size r2 rec1 (Suc k)
         else if result \<noteq> 0 then
           Some (st, ot, Break (if result = ENOENT then (if binlog_offset r1 \<ge> trunk_binlog_size then 0 else EINVAL) else result))
         else
           (let b = (trunk rec1)\<lparr>status := FDFS_TRUNK_STATUS_FREE\<rparr>; rec2 = rec1\<lparr>trunk := b\<rparr> in
            if op_type rec1 = op_char TRUNK_OP_TYPE_ADD_SPACE then
              if reload then
                if \<not> node_mem env k then Some (st, ot, Return ENOMEM)
                else do {
                  (ot1, res) \<leftarrow> avl_tree_insert (tree_mem env k) ot b;
                  if res < 0 then Some (st, ot1, Return (- res))
                  else restore_loop st ot1 env reload bl trunk_binlog_size r2 rec2 (Suc k)
                }
              else do {
                (st1, res) \<leftarrow> trunk_add_space_by_trunk st (node_mem env k) (record_add env k) b;
                if res \<noteq> 0 then Some (st1, ot, Break res)
                else restore_loop st1 ot env reload bl trunk_binlog_size r2 rec2 (Suc k)
              }
            else if op_type rec1 = op_char TRUNK_OP_TYPE_DEL_SPACE then
              if reload then do {
                (ot1, res, freed) \<leftarrow> avl_tree_delete ot b;
                restore_loop st ot1 env reload bl trunk_binlog_size r2 rec2 (Suc k)
              }
              else do {
                (st1, res) \<leftarrow> trunk_delete_space st (record_realloc env k) 0 b False;
                if res \<noteq> 0 \<and> res \<noteq> ENOENT then Some (st1, ot, Break res)
                else restore_loop st1 ot env reload bl trunk_binlog_size r2 rec2 (Suc k)
              }
            else restore_loop st ot env reload bl trunk_binlog_size r2 rec1 (Suc k)))"
  by pat_completeness auto
termination
  by (relation "measure (\<lambda>(st, ot, env, reload, bl, size, reader, rec, k). pending bl reader)")
    (auto dest!: binlog_read_pending [OF sym])

declare restore_loop.simps [simp del]

definition empty_record :: TrunkBinLogRecord where
  "empty_record = \<lparr>timestamp = 0, op_type = 0,
     trunk = \<lparr>status = 0, path = \<lparr>store_path_index = 0, sub_path_high = 0, sub_path_low = 0\<rparr>,
              tfile = \<lparr>trunk_id = 0, trunk_offset = 0, trunk_size = 0\<rparr>\<rparr>\<rparr>"

text \<open>The walk that adds the blocks of the tree ordered by offset; \<open>None\<close> once an invalid access happened.\<close>

definition storage_trunk_add_free_blocks_callback ::
  "(nat \<Rightarrow> add_env) \<Rightarrow> FDFSTrunkFullInfo \<Rightarrow> (trunk_state \<times> nat) option \<Rightarrow> (trunk_state \<times> nat) option \<times> int" where
  "storage_trunk_add_free_blocks_callback envs b s =
     (case s of
        None \<Rightarrow> (None, 0)
      | Some (st, k) \<Rightarrow>
          (case trunk_add_space_by_node st (envs k) b of
             None \<Rightarrow> (None, 0)
           | Some (st1, r) \<Rightarrow> (Some (st1, Suc k), r)))"

definition storage_trunk_restore ::
  "trunk_state \<Rightarrow> restore_env \<Rightarrow> binlog \<Rightarrow> byte list option \<Rightarrow> int \<Rightarrow> (trunk_state \<times> byte list option \<times> int) option" where
  "storage_trunk_restore st env bl df restore_offset =
     (let trunk_binlog_size = storage_trunk_get_binlog_size (binlog_stat (restore_save env)) in
      if trunk_binlog_size < 0 then
        Some (st, df, case binlog_stat (restore_save env) of Inl errno \<Rightarrow> err_or errno EPERM | Inr _ \<Rightarrow> EPERM)
      else if restore_offset = trunk_binlog_size then Some (st, df, 0)
      else if restore_offset > trunk_binlog_size then
        (let (df1, r) = storage_trunk_save st (restore_save env) df in Some (st, df1, r))
      else
        (let reload = (restore_offset = 0);
             ot = fst (avl_tree_init True storage_trunk_node_compare_offset);
             (reader, r0) = trunk_reader_init (empty_reader\<lparr>binlog_offset := restore_offset\<rparr>) (restore_reader env) False bl
         in if r0 \<noteq> 0 then Some (st, df, r0)
            else do {
              (st1, ot1, ex) \<leftarrow> restore_loop st ot env reload bl trunk_binlog_size reader empty_record 0;
              case ex of
                Return r \<Rightarrow> Some (st1, df, r)
              | Break r \<Rightarrow>
                  if r \<noteq> 0 then Some (st1, df, r)
                  else do {
                    (st2, r2) \<leftarrow>
                      (if reload then
                         (case avl_tree_walk ot1 (storage_trunk_add_free_blocks_callback (block_add env)) (Some (st1, 0)) of
                            (None, _) \<Rightarrow> None
                          | (Some (st2, k), r2) \<Rightarrow> Some (st2, r2))
                       else Some (st1, 0));
                    if r2 \<noteq> 0 then Some (st2, df, r2)
                    else (let (df1, r3) = storage_trunk_save st2 (restore_save env) df in Some (st2, df1, r3))
                  }
            }))"

definition storage_delete_trunk_data_file :: "byte list option \<Rightarrow> int option \<Rightarrow> byte list option \<times> int" where
  "storage_delete_trunk_data_file df unlink_errno =
     (case unlink_errno of
        Some errno \<Rightarrow> (df, err_or errno ENOENT)
      | None \<Rightarrow> if df = None then (df, ENOENT) else (None, 0))"

section \<open>Loading\<close>

text \<open>
  The loop over the lines: \<open>pos\<close> are the bytes of the buffer from \<open>pLineStart\<close> on, \<open>bytes\<close> the number of bytes the buffer was filled with,
  \<open>rest\<close> what is left of the file, \<open>k\<close> and \<open>n\<close> count the reads and the lines. The result is an error number, or the string at \<open>pLineStart\<close>.
\<close>

lemma strchr_less: "strchr s c = Some i \<Longrightarrow> i < length s"
  using strchr_Some by blast

function load_loop ::
  "trunk_state \<Rightarrow> load_env \<Rightarrow> nat \<Rightarrow> nat \<Rightarrow> byte list \<Rightarrow> nat \<Rightarrow> byte list \<Rightarrow> (trunk_state \<times> (int + byte list)) option" where
  "load_loop st env k n pos bytes rest =
     (case strchr (c_str pos) 10 of
        None \<Rightarrow>
          if bytes < 4096 then Some (st, Inr (c_str pos))
          else if length (c_str pos) > 64 then Some (st, Inl EINVAL)
          else (case data_read_errs env k of
                  Some errno \<Rightarrow> Some (st, Inl (err_or errno EIO))
                | None \<Rightarrow>
                    (let more = take (4096 - length (c_str pos)) rest in
                     if more = [] then Some (st, Inl ENOENT)
                     else load_loop st env (Suc k) n (c_str pos @ more) (length (c_str pos) + length more) (drop (length more) rest)))
      | Some i \<Rightarrow>
          (let cols = splitEx (take i pos) 32 6 in
           if length cols \<noteq> 6 then Some (st, Inl EINVAL)
           else do {
             (st1, r) \<leftarrow> storage_trunk_do_add_space st env n (parse_block cols (line_junk env));
             if r \<noteq> 0 then Some (st1, Inl r) else load_loop st1 env k (Suc n) (drop (Suc i) pos) bytes rest
           }))"
  by pat_completeness auto
termination
proof (relation "measures [\<lambda>(st, env, k, n, pos, bytes, rest). length rest, \<lambda>(st, env, k, n, pos, bytes, rest). length pos]")
  fix pos :: "byte list" and i
  assume "strchr (c_str pos) 10 = Some i"
  then have "i < length (c_str pos)" by (rule strchr_less)
  moreover have "length (c_str pos) \<le> length pos" by (simp add: c_str_def length_takeWhile_le)
  ultimately have "length (drop (Suc i) pos) < length pos" by simp
  then show "((st1, env, k, Suc n, drop (Suc i) pos, bytes, rest), (st, env, k, n, pos, bytes, rest))
      \<in> measures [\<lambda>(st, env, k, n, pos, bytes, rest). length rest, \<lambda>(st, env, k, n, pos, bytes, rest). length pos]" for st1 st env k n bytes rest
    by simp
qed auto

declare load_loop.simps [simp del]

definition storage_trunk_load ::
  "trunk_state \<Rightarrow> load_env \<Rightarrow> restore_env \<Rightarrow> binlog \<Rightarrow> byte list option \<Rightarrow> (trunk_state \<times> byte list option \<times> int) option" where
  "storage_trunk_load st env renv bl df =
     (if g_trunk_init_reload_from_binlog env then
        (case data_unlink_errno env of
           Some errno \<Rightarrow> if err_or errno ENOENT \<noteq> ENOENT then Some (st, df, err_or errno ENOENT) else storage_trunk_restore st renv bl df 0
         | None \<Rightarrow> storage_trunk_restore st renv bl None 0)
      else (case data_open_errno env of
        Some errno \<Rightarrow> if err_or errno EIO = ENOENT then storage_trunk_restore st renv bl df 0 else Some (st, df, err_or errno EIO)
      | None \<Rightarrow>
          (case df of
             None \<Rightarrow> storage_trunk_restore st renv bl df 0
           | Some content \<Rightarrow>
               (case data_read_errs env 0 of
                  Some errno \<Rightarrow> Some (st, df, err_or errno EIO)
                | None \<Rightarrow>
                    (let buff = take 4096 content in
                     case strchr (c_str buff) 10 of
                       None \<Rightarrow> Some (st, df, EINVAL)
                     | Some i \<Rightarrow>
                         do {
                           (st1, r) \<leftarrow> load_loop st env 1 0 (drop (Suc i) buff) (length buff) (drop 4096 content);
                           case r of
                             Inl e \<Rightarrow> Some (st1, df, e)
                           | Inr s \<Rightarrow> if s \<noteq> [] then Some (st1, df, EINVAL)
                                      else storage_trunk_restore st1 renv bl df (fst (strtol (take i buff) 10))
                         })))))"

section \<open>Start and stop\<close>

text \<open>\<open>setup_result\<close> is the first error of the locks and block allocators, \<open>tree_array_mem\<close> whether the array of trees can be allocated.\<close>

definition storage_trunk_init ::
  "trunk_state \<Rightarrow> int \<Rightarrow> bool \<Rightarrow> load_env \<Rightarrow> restore_env \<Rightarrow> binlog \<Rightarrow> byte list option \<Rightarrow> (trunk_state \<times> byte list option \<times> int) option" where
  "storage_trunk_init st setup_result tree_array_mem env renv bl df =
     (if \<not> g_if_trunker_self st then Some (st, df, 0)
      else if trunk_init_flag st \<noteq> STORAGE_TRUNK_INIT_FLAG_NONE then Some (st, df, 0)
      else if setup_result \<noteq> 0 then Some (st, df, setup_result)
      else if \<not> tree_array_mem then Some (st, df, ENOMEM)
      else do {
        let trees = replicate (length (g_fdfs_store_paths st)) (fst (avl_tree_init False storage_trunk_node_compare_size));
        (st1, df1, result) \<leftarrow>
          storage_trunk_load (st\<lparr>tree_info_by_sizes := trees, tree_info_by_id := fst trunk_free_block_checker_init\<rparr>) env renv bl df;
        Some (if result \<noteq> 0 then (st1, df1, result)
              else (st1\<lparr>trunk_init_flag := STORAGE_TRUNK_INIT_FLAG_DONE\<rparr>, df1, 0))
      })"

definition storage_trunk_destroy_ex :: "trunk_state \<Rightarrow> save_env \<Rightarrow> byte list option \<Rightarrow> trunk_state \<times> byte list option \<times> int" where
  "storage_trunk_destroy_ex st env df =
     (if trunk_init_flag st \<noteq> STORAGE_TRUNK_INIT_FLAG_DONE then (st, df, 0)
      else
        (let (df1, result) = storage_trunk_save st env df
         in (st\<lparr>tree_info_by_sizes := [], tree_info_by_id := trunk_free_block_checker_destroy (tree_info_by_id st),
               trunk_init_flag := STORAGE_TRUNK_INIT_FLAG_NONE\<rparr>, df1, result)))"

section \<open>What a save writes\<close>

definition data_content :: "int \<Rightarrow> FDFSTrunkFullInfo list \<Rightarrow> byte list" where
  "data_content n bs = print_int n @ [10] @ concat (map data_line bs)"

lemma write_out_spec:
  "write_out errs a = (a', r) \<Longrightarrow> (r = 0 \<longrightarrow> tmp_file a' @ wbuff a' = tmp_file a @ wbuff a) \<and> (errs = (\<lambda>_. None) \<longrightarrow> r = 0)"
  by (auto simp: write_out_def err_or_def split: option.splits if_splits)

lemma walk_chain_spec:
  "walk_chain errs bs a = (a', r) \<Longrightarrow>
     (r = 0 \<longrightarrow> tmp_file a' @ wbuff a' = tmp_file a @ wbuff a @ concat (map data_line bs)) \<and> (errs = (\<lambda>_. None) \<longrightarrow> r = 0)"
proof (induction bs arbitrary: a)
  case (Cons b bs)
  let ?a = "a\<lparr>wbuff := wbuff a @ data_line b\<rparr>"
  obtain a2 r2 where w: "write_out errs ?a = (a2, r2)" by fastforce
  from write_out_spec [OF w] Cons.prems Cons.IH [of a2] Cons.IH [of ?a] w show ?case
    by (auto simp: Let_def split: if_splits)
qed simp

lemma walk_slots_spec:
  "walk_list (tree_walk_callback errs) ss a = (a', r) \<Longrightarrow>
     (r = 0 \<longrightarrow> tmp_file a' @ wbuff a' = tmp_file a @ wbuff a @ concat (map data_line (concat (map slot_head ss)))) \<and>
     (errs = (\<lambda>_. None) \<longrightarrow> r = 0)"
proof (induction ss arbitrary: a)
  case (Cons s ss)
  obtain a2 r2 where w: "walk_chain errs (slot_head s) a = (a2, r2)" by fastforce
  from walk_chain_spec [OF w] Cons.prems Cons.IH [of a2] w show ?case
    by (auto simp: tree_walk_callback_def split: if_splits)
qed simp

lemma walk_tree_list: "avl_tree_walk t f s = walk_list f (inorder (root t)) s"
  by (simp add: avl_tree_walk_def walk_loop_inorder)

lemma walk_trees_spec:
  "walk_trees errs ts a = (a', r) \<Longrightarrow>
     (r = 0 \<longrightarrow> tmp_file a' @ wbuff a' = tmp_file a @ wbuff a @ concat (map data_line (concat (map tree_blocks ts)))) \<and>
     (errs = (\<lambda>_. None) \<longrightarrow> r = 0)"
proof (induction ts arbitrary: a)
  case (Cons t ts)
  obtain a2 r2 where w: "walk_list (tree_walk_callback errs) (inorder (root t)) a = (a2, r2)" by fastforce
  from walk_slots_spec [OF w] Cons.prems Cons.IH [of a2] w show ?case
    by (auto simp: walk_tree_list tree_blocks_def split: if_splits)
qed simp

lemma save_spec:
  assumes "storage_trunk_save st env df = (df', r)"
  shows "(r = 0 \<longrightarrow> df' = Some (data_content (storage_trunk_get_binlog_size (binlog_stat env)) (free_blocks st))) \<and> (r \<noteq> 0 \<longrightarrow> df' = df)"
proof -
  let ?n = "storage_trunk_get_binlog_size (binlog_stat env)"
  let ?a0 = "\<lparr>wbuff = print_int ?n @ [10], tmp_file = [], writes = 0\<rparr>"
  obtain a1 r1 where w: "walk_trees (tmp_write_errs env) (tree_info_by_sizes st) ?a0 = (a1, r1)" by fastforce
  obtain a2 r2 where o: "(if wbuff a1 \<noteq> [] \<and> r1 = 0 then write_out (tmp_write_errs env) a1 else (a1, r1)) = (a2, r2)" by fastforce
  have "r2 = 0 \<Longrightarrow> r1 = 0" using o by (auto split: if_splits)
  moreover have "r2 = 0 \<Longrightarrow> tmp_file a2 = tmp_file a1 @ wbuff a1"
    using o by (auto simp: write_out_def err_or_def split: if_splits option.splits)
  ultimately have c: "r2 = 0 \<Longrightarrow> tmp_file a2 = data_content ?n (free_blocks st)"
    using walk_trees_spec [OF w] by (simp add: data_content_def free_blocks_def)
  show ?thesis using assms w o c
    by (auto simp: storage_trunk_save_def Let_def err_or_def split: if_splits option.splits sum.splits)
qed

lemma save_returns:
  assumes "0 \<le> storage_trunk_get_binlog_size (binlog_stat env)" and "tmp_open_errno env = None" and "tmp_write_errs env = (\<lambda>_. None)"
    and "tmp_fsync_errno env = None" and "data_rename_errno env = None"
  shows "storage_trunk_save st env df = (Some (data_content (storage_trunk_get_binlog_size (binlog_stat env)) (free_blocks st)), 0)"
proof -
  let ?n = "storage_trunk_get_binlog_size (binlog_stat env)"
  let ?a0 = "\<lparr>wbuff = print_int ?n @ [10], tmp_file = [], writes = 0\<rparr>"
  obtain a1 r1 where w: "walk_trees (tmp_write_errs env) (tree_info_by_sizes st) ?a0 = (a1, r1)" by fastforce
  have "r1 = 0" using walk_trees_spec [OF w] assms(3) by simp
  then have "snd (storage_trunk_save st env df) = 0"
    using assms w by (simp add: storage_trunk_save_def Let_def write_out_def)
  then show ?thesis using save_spec [of st env df] by (cases "storage_trunk_save st env df") simp
qed

section \<open>What a load reads\<close>

fun add_lines :: "trunk_state \<Rightarrow> load_env \<Rightarrow> nat \<Rightarrow> FDFSTrunkFullInfo list \<Rightarrow> (trunk_state \<times> int) option" where
  "add_lines st env n [] = Some (st, 0)"
| "add_lines st env n (b # bs) =
     do {
       (st1, r) \<leftarrow> storage_trunk_do_add_space st env n (b\<lparr>status := status (line_junk env)\<rparr>);
       if r \<noteq> 0 then Some (st1, r) else add_lines st1 env (Suc n) bs
     }"

text \<open>
  Lines of the given lengths are taken from a buffer of 4096 bytes that is refilled when the next line is not complete in it; \<open>room\<close> is what
  of the file still fits the buffer. The last line ends where the buffer ends.
\<close>

fun hits_end :: "nat \<Rightarrow> nat list \<Rightarrow> bool" where
  "hits_end room [] \<longleftrightarrow> room = 0"
| "hits_end room (l # ls) \<longleftrightarrow> (if l \<le> room then hits_end (room - l) ls else hits_end (4096 - l) ls)"

abbreviation data_lengths :: "FDFSTrunkFullInfo list \<Rightarrow> nat list" where
  "data_lengths bs \<equiv> map (\<lambda>b. length (data_line b)) bs"

lemma data_line_chars:
  obtains l where "data_line b = l @ [10]" and "10 \<notin> set l" and "0 \<notin> set l" and "splitEx l 32 6 = block_cols b"
proof
  let ?l = "join_cols 32 (block_cols b)"
  show "data_line b = ?l @ [10]" by (simp add: data_line_def)
  have "\<forall>c \<in> set ?l. c = 32 \<or> (\<exists>x \<in> set (block_cols b). c \<in> set x)" using set_join by fastforce
  then show "10 \<notin> set ?l" "0 \<notin> set ?l" using block_cols_clean by fastforce+
  have "\<forall>x \<in> set (block_cols b). 32 \<notin> set x" using block_cols_clean by blast
  moreover have "length (block_cols b) = 6" "block_cols b \<noteq> []" by (simp_all add: block_cols_def)
  ultimately have "splitEx_loop 6 32 ?l = block_cols b" by (intro splitEx_join) simp_all
  then show "splitEx ?l 32 6 = block_cols b" by (simp add: splitEx_def)
qed

lemma data_line_length:
  assumes "block_range b"
  shows "length (data_line b) \<le> 48"
proof -
  note p = print_byte_length [of "store_path_index (path b)"] print_byte_length [of "sub_path_high (path b)"]
    print_byte_length [of "sub_path_low (path b)"]
  have "length (print_int (trunk_id (tfile b))) \<le> 11" "length (print_int (trunk_offset (tfile b))) \<le> 11"
      "length (print_int (trunk_size (tfile b))) \<le> 11"
    using assms print_int_length by (simp_all add: block_range_def)
  with p show ?thesis by (simp add: data_line_def join_length block_cols_def)
qed

lemma data_lines_no_zero: "0 \<notin> set (concat (map data_line bs))"
proof -
  have "0 \<notin> set (data_line b)" for b by (rule data_line_chars [of b]) auto
  then show ?thesis by auto
qed

lemma c_str_id: "0 \<notin> set s \<Longrightarrow> c_str s = s"
  by (auto simp: c_str_def takeWhile_eq_all_conv)

lemma load_step:
  assumes "pos = data_line b @ pos'" and "0 \<notin> set pos'" and "block_range b"
  shows "load_loop st env k n pos bytes rest =
    do {
      (st1, r) \<leftarrow> storage_trunk_do_add_space st env n (b\<lparr>status := status (line_junk env)\<rparr>);
      if r \<noteq> 0 then Some (st1, Inl r) else load_loop st1 env k (Suc n) pos' bytes rest
    }"
proof -
  obtain l where l: "data_line b = l @ [10]" "10 \<notin> set l" "0 \<notin> set l" "splitEx l 32 6 = block_cols b" by (rule data_line_chars)
  have pos: "pos = l @ 10 # pos'" "0 \<notin> set pos" using assms(1,2) l by auto
  have "strchr (c_str pos) 10 = Some (length l)" using strchr_append [OF l(2)] c_str_id [OF pos(2)] pos(1) by simp
  moreover have "length (block_cols b) = 6" by (simp add: block_cols_def)
  moreover have "take (length l) pos = l" "drop (Suc (length l)) pos = pos'" using pos(1) by simp_all
  ultimately show ?thesis
    using l(4) parse_block_print(1) [OF assms(3)] by (subst load_loop.simps) (simp cong: if_cong)
qed

lemma load_loop_spec:
  assumes "pos @ rest = concat (map data_line bs)" and "\<forall>b \<in> set bs. block_range b"
    and "length pos \<le> bytes" and "bytes \<le> 4096" and "bytes < 4096 \<longrightarrow> rest = []" and "\<forall>k. data_read_errs env k = None"
  shows "load_loop st env k n pos bytes rest =
    do {
      (st1, r) \<leftarrow> add_lines st env n bs;
      Some (st1, if r \<noteq> 0 then Inl r
                 else if hits_end (length pos + (4096 - bytes)) (data_lengths bs) then Inl ENOENT else Inr [])
    }"
  using assms(1-5)
proof (induction bs arbitrary: st k n pos bytes rest)
  case Nil
  then show ?case using assms(6) by (subst load_loop.simps) (auto simp: c_str_def)
next
  case (Cons b bs)
  let ?len = "length (data_line b)"
  have rng: "block_range b" "\<forall>b \<in> set bs. block_range b" using Cons.prems(2) by simp_all
  have len: "?len \<le> 48" by (rule data_line_length [OF rng(1)])
  have fits: "load_loop st env k n pos bytes rest =
      do {
        (st1, r) \<leftarrow> add_lines st env n (b # bs);
        Some (st1, if r \<noteq> 0 then Inl r
                   else if hits_end (length pos + (4096 - bytes)) (data_lengths (b # bs)) then Inl ENOENT else Inr [])
      }"
    if h: "pos @ rest = concat (map data_line (b # bs))" "length pos \<le> bytes" "bytes \<le> 4096" "bytes < 4096 \<longrightarrow> rest = []" "?len \<le> length pos"
    for k pos bytes rest
  proof -
    obtain pos' where p: "pos = data_line b @ pos'"
      using h(1,5) by (metis append_eq_append_conv_if append_take_drop_id concat.simps(2) list.simps(9))
    have r: "pos' @ rest = concat (map data_line bs)" using h(1) p by simp
    have z: "0 \<notin> set pos'" using data_lines_no_zero [of bs] unfolding r [symmetric] by simp
    have room: "hits_end (length pos + (4096 - bytes)) (data_lengths (b # bs)) = hits_end (length pos' + (4096 - bytes)) (data_lengths bs)"
      using p by simp
    have ih: "load_loop st1 env k (Suc n) pos' bytes rest =
        do {
          (st1, r) \<leftarrow> add_lines st1 env (Suc n) bs;
          Some (st1, if r \<noteq> 0 then Inl r
                     else if hits_end (length pos' + (4096 - bytes)) (data_lengths bs) then Inl ENOENT else Inr [])
        }" for st1
      using Cons.IH [OF r rng(2) _ h(3,4)] p h(2) by simp
    show ?thesis unfolding room
      by (cases "storage_trunk_do_add_space st env n (b\<lparr>status := status (line_junk env)\<rparr>)")
        (auto simp: load_step [OF p z rng(1)] ih simp del: hits_end.simps)
  qed
  show ?case
  proof (cases "?len \<le> length pos")
    case True
    with Cons.prems show ?thesis by (intro fits)
  next
    case False
    obtain l where l: "data_line b = l @ [10]" "10 \<notin> set l" "0 \<notin> set l" by (rule data_line_chars)
    have pre: "pos = take (length pos) l"
      using Cons.prems(1) False l(1) by (auto simp: append_eq_append_conv_if)
    have pc: "10 \<notin> set pos" "0 \<notin> set pos" using l(2,3) set_take_subset [of "length pos" l] pre by auto
    have "rest \<noteq> []" using Cons.prems(1) False by auto
    with Cons.prems(4,5) have b4: "bytes = 4096" by auto
    let ?more = "take (4096 - length pos) rest" and ?rest = "drop (4096 - length pos) rest"
    have more: "?more \<noteq> []" using \<open>rest \<noteq> []\<close> False len by simp
    have "load_loop st env k n pos bytes rest =
        load_loop st env (Suc k) n (pos @ ?more) (length pos + length ?more) ?rest"
    proof -
      have "c_str pos = pos" "strchr pos 10 = None" using pc by (simp_all add: c_str_id strchr_None)
      moreover have "drop (length ?more) rest = ?rest" by (cases "length rest \<le> 4096 - length pos") simp_all
      moreover have "\<not> 64 < length pos" "\<not> bytes < 4096" "data_read_errs env k = None" using False len b4 assms(6) by simp_all
      ultimately show ?thesis using more by (subst load_loop.simps) (simp add: Let_def cong: if_cong)
    qed
    moreover have "?len \<le> length (pos @ ?more)"
    proof -
      have "?len \<le> length pos + length rest" using arg_cong [OF Cons.prems(1), of length] by simp
      then show ?thesis using False len by simp
    qed
    moreover have "hits_end (length pos + (4096 - bytes)) (data_lengths (b # bs)) =
        hits_end (length (pos @ ?more) + (4096 - (length pos + length ?more))) (data_lengths (b # bs))"
      using False b4 len by simp
    ultimately show ?thesis
      using fits [of "pos @ ?more" ?rest "length pos + length ?more" "Suc k"] Cons.prems(1) False len by simp
  qed
qed

section \<open>The blocks a load adds\<close>

abbreviation freed :: "FDFSTrunkFullInfo \<Rightarrow> FDFSTrunkFullInfo" where
  "freed b \<equiv> b\<lparr>status := FDFS_TRUNK_STATUS_FREE\<rparr>"

definition grown :: "trunk_state \<Rightarrow> FDFSTrunkFullInfo multiset \<Rightarrow> trunk_state \<Rightarrow> bool" where
  "grown st bs st' \<longleftrightarrow> same_rest st st' \<and> trunk_binlog st' = trunk_binlog st \<and> mset (free_blocks st') = mset (free_blocks st) + bs"

lemma grown_refl: "grown st {#} st"
  by (simp add: grown_def)

lemma grown_trans: "\<lbrakk>grown a x b; grown b y c\<rbrakk> \<Longrightarrow> grown a (x + y) c"
  by (auto simp: grown_def same_rest_def)

lemma grown_rest: "grown a x b \<Longrightarrow> same_rest a b"
  by (simp add: grown_def)

definition placeable :: "trunk_state \<Rightarrow> FDFSTrunkFullInfo \<Rightarrow> bool" where
  "placeable st b \<longleftrightarrow> block_ok b \<and> bend b < 2 ^ 31 - 1 \<and> path_index b < length (tree_info_by_sizes st)"

lemma placeable_freed [simp]: "placeable st (b\<lparr>status := s\<rparr>) = placeable st b"
  by (simp add: placeable_def block_ok_def bend_def path_index_def)

lemma conflict_status [simp]: "conflict st (b\<lparr>status := s\<rparr>) = conflict st b"
  by (simp add: conflict_def overlap_def bend_def FILL_FILE_IDENTIFIER_def)

lemma placeable_same: "same_rest st st' \<Longrightarrow> placeable st' b = placeable st b"
  by (simp add: same_rest_def placeable_def)

definition kept :: "trunk_state \<Rightarrow> FDFSTrunkFullInfo \<Rightarrow> bool" where
  "kept st b \<longleftrightarrow> g_slot_min_size st \<le> bsize b \<and> \<not> conflict st b"

lemma add_block_grown:
  assumes "trunk_inv d st" and "placeable st b" and "add_granted env"
  shows "\<exists>st' r. trunk_add_free_block st env b False = Some (st', r) \<and> (r = 0 \<or> r = EEXIST) \<and> trunk_inv d st' \<and>
    grown st (if conflict st b then {#} else {#b#}) st'"
  using add_free_block_spec [OF assms(1) _ _ _ assms(3), of b False] assms(1,2)
  by (cases "conflict st b") (auto simp: placeable_def grown_def added_def)

lemma add_by_trunk_spec:
  assumes "trunk_inv d st" and "placeable st b" and "add_granted env" and "g_if_trunker_self st"
  shows "\<exists>st'. trunk_add_space_by_trunk st True env b = Some (st', 0) \<and> trunk_inv d st' \<and>
    grown st (if kept st b then {#freed b#} else {#}) st'"
proof (cases "bsize b < g_slot_min_size st")
  case True
  then show ?thesis using assms(1,4)
    by (auto simp: trunk_add_space_by_trunk_def trunk_free_space_def kept_def grown_refl)
next
  case False
  from add_block_grown [OF assms(1), of "freed b", OF _ assms(3)] assms(2) obtain st' r where
    st': "trunk_add_free_block st env (freed b) False = Some (st', r)" "r = 0 \<or> r = EEXIST" "trunk_inv d st'"
      "grown st (if conflict st b then {#} else {#freed b#}) st'" by auto
  have "trunk_free_space st True env b False = Some (st', r)" using st'(1) False assms(4) by (simp add: trunk_free_space_def)
  then show ?thesis using st' False by (auto simp: trunk_add_space_by_trunk_def kept_def)
qed

lemma add_by_node_spec:
  assumes "trunk_inv d st" and "placeable st b" and "add_granted env"
  shows "\<exists>st'. trunk_add_space_by_node st env b = Some (st', 0) \<and> trunk_inv d st' \<and>
    grown st (if kept st b then {#b#} else {#}) st'"
proof (cases "bsize b < g_slot_min_size st")
  case True
  then show ?thesis using assms(1) by (auto simp: trunk_add_space_by_node_def kept_def grown_refl)
next
  case False
  from add_block_grown [OF assms(1-3)] obtain st' r where
    st': "trunk_add_free_block st env b False = Some (st', r)" "r = 0 \<or> r = EEXIST" "trunk_inv d st'"
      "grown st (if conflict st b then {#} else {#b#}) st'" by auto
  then show ?thesis using False by (auto simp: trunk_add_space_by_node_def kept_def)
qed

text \<open>A system that grants what is asked for.\<close>

definition load_granted :: "load_env \<Rightarrow> bool" where
  "load_granted env \<longleftrightarrow> (\<forall>k. data_read_errs env k = None) \<and> (\<forall>n. line_mem env n \<and> add_granted (line_add env n)) \<and>
     \<not> g_trunk_init_check_occupying env"

definition apart :: "trunk_state \<Rightarrow> FDFSTrunkFullInfo list \<Rightarrow> bool" where
  "apart st bs \<longleftrightarrow> sorted_wrt (\<lambda>a b. \<not> overlap b a) bs \<and> (\<forall>b \<in> set bs. placeable st b \<and> \<not> conflict st b)"

definition survivors :: "trunk_state \<Rightarrow> FDFSTrunkFullInfo list \<Rightarrow> FDFSTrunkFullInfo list" where
  "survivors st bs = filter (\<lambda>b. g_slot_min_size st \<le> bsize b) bs"

lemma conflict_grown:
  assumes "grown st (if p then {#c#} else {#}) st'" and "\<not> conflict st b" and "\<not> overlap b c"
  shows "\<not> conflict st' b"
proof -
  have "set_mset (mset (free_blocks st')) \<subseteq> insert c (set (free_blocks st))" using assms(1) by (auto simp: grown_def)
  then show ?thesis using assms(2,3) by (auto simp: conflict_def)
qed

lemma apart_grown:
  assumes "apart st (b # bs)" and "grown st (if p then {#b\<lparr>status := s\<rparr>#} else {#}) st'"
  shows "apart st' bs" and "survivors st' bs = survivors st bs"
proof -
  have o: "\<not> overlap c (b\<lparr>status := s\<rparr>)" if "c \<in> set bs" for c
    using assms(1) that by (auto simp: apart_def overlap_def bend_def FILL_FILE_IDENTIFIER_def)
  show "apart st' bs" using assms(1) conflict_grown [OF assms(2) _ o] placeable_same [OF grown_rest [OF assms(2)]]
    by (simp add: apart_def)
  show "survivors st' bs = survivors st bs" using grown_rest [OF assms(2)] by (simp add: survivors_def same_rest_def)
qed

lemma add_lines_spec:
  assumes "trunk_inv d st" and "apart st bs" and "load_granted env" and "g_if_trunker_self st"
  shows "\<exists>st'. add_lines st env n bs = Some (st', 0) \<and> trunk_inv d st' \<and> grown st (mset (map freed (survivors st bs))) st'"
  using assms(1,2,4)
proof (induction bs arbitrary: st n)
  case Nil
  then show ?case by (simp add: grown_def survivors_def)
next
  case (Cons b bs)
  let ?b = "b\<lparr>status := status (line_junk env)\<rparr>"
  have b: "placeable st ?b" "\<not> conflict st b" using Cons.prems(2) by (simp_all add: apart_def)
  have e: "line_mem env n" "add_granted (line_add env n)" "\<not> g_trunk_init_check_occupying env" using assms(3) by (auto simp: load_granted_def)
  from add_by_trunk_spec [OF Cons.prems(1) b(1) e(2) Cons.prems(3)] b(2) obtain st1 where
    st1: "trunk_add_space_by_trunk st True (line_add env n) ?b = Some (st1, 0)" "trunk_inv d st1"
      "grown st (if g_slot_min_size st \<le> bsize b then {#freed b#} else {#}) st1"
    by (auto simp: kept_def cong: if_cong)
  have self: "g_if_trunker_self st1" using grown_rest [OF st1(3)] Cons.prems(3) by (simp add: same_rest_def)
  from Cons.IH [OF st1(2) apart_grown(1) [OF Cons.prems(2) st1(3)] self] apart_grown(2) [OF Cons.prems(2) st1(3)] obtain st' where
    st': "add_lines st1 env (Suc n) bs = Some (st', 0)" "trunk_inv d st'" "grown st1 (mset (map freed (survivors st bs))) st'" by metis
  have "storage_trunk_do_add_space st env n ?b = Some (st1, 0)" using st1(1) e by (simp add: storage_trunk_do_add_space_def)
  then have "add_lines st env n (b # bs) = Some (st', 0)" using st'(1) by simp
  moreover have "grown st (mset (map freed (survivors st (b # bs)))) st'"
    using grown_trans [OF st1(3) st'(3)] by (simp add: survivors_def split: if_splits)
  ultimately show ?case using st'(2) by blast
qed

section \<open>Restart\<close>

definition fresh_trees :: "trunk_state \<Rightarrow> trunk_state" where
  "fresh_trees st = st\<lparr>tree_info_by_sizes :=
     replicate (length (g_fdfs_store_paths st)) (fst (avl_tree_init False storage_trunk_node_compare_size)),
     tree_info_by_id := fst trunk_free_block_checker_init\<rparr>"

lemma fresh_trees_inv:
  "trunk_inv (g_trunk_total_free_space st) (fresh_trees st)" "free_blocks (fresh_trees st) = []"
  "length (tree_info_by_sizes (fresh_trees st)) = length (g_fdfs_store_paths st)"
  "g_slot_min_size (fresh_trees st) = g_slot_min_size st" "g_if_trunker_self (fresh_trees st) = g_if_trunker_self st"
proof -
  show fb: "free_blocks (fresh_trees st) = []"
    by (simp add: free_blocks_def fresh_trees_def avl_tree_init_def tree_blocks_def)
  have "trees_inv (fresh_trees st)"
    by (simp add: trees_inv_def fresh_trees_def size_tree_inv_def avl_tree_init_def avl_inv_def)
  moreover have "checker_inv (tree_info_by_id (fresh_trees st))" "checker_blocks (tree_info_by_id (fresh_trees st)) = []"
    by (simp_all add: checker_inv_def checker_blocks_def fresh_trees_def trunk_free_block_checker_init_def avl_tree_init_def avl_inv_def)
  moreover have "g_trunk_total_free_space (fresh_trees st) = g_trunk_total_free_space st" by (simp add: fresh_trees_def)
  ultimately show "trunk_inv (g_trunk_total_free_space st) (fresh_trees st)" by (simp add: trunk_inv_def fb total_size_def)
qed (simp_all add: fresh_trees_def)

text \<open>Whether the lines of the data file, the first of them the size of the binlog, end where a full buffer ends.\<close>

definition at_boundary :: "int \<Rightarrow> FDFSTrunkFullInfo list \<Rightarrow> bool" where
  "at_boundary n bs \<longleftrightarrow> hits_end 4096 ((length (print_int n) + 1) # data_lengths bs)"

lemma block_ok_range: "block_ok b \<Longrightarrow> block_range b"
  by (simp add: block_ok_def block_range_def bend_def int_range_def)

lemma print_size_length: "\<lbrakk>0 \<le> n; n < 2 ^ 63\<rbrakk> \<Longrightarrow> length (print_int n) \<le> 19"
  using print_dec_length [of "nat n" 19] by (simp add: print_int_def nat_less_iff)

lemma load_data_spec:
  assumes "0 \<le> n" and "n < 2 ^ 63" and "\<forall>b \<in> set bs. block_range b" and "load_granted env"
    and "\<not> g_trunk_init_reload_from_binlog env" and "data_open_errno env = None" and "add_lines st env 0 bs = Some (st1, 0)"
  shows "storage_trunk_load st env renv bl (Some (data_content n bs)) =
    (if at_boundary n bs then Some (st1, Some (data_content n bs), ENOENT)
     else storage_trunk_restore st1 renv bl (Some (data_content n bs)) n)"
proof -
  let ?h = "print_int n" and ?c = "data_content n bs"
  let ?buff = "take 4096 ?c" and ?pos = "take (4095 - length (print_int n)) (concat (map data_line bs))"
  let ?rest = "drop 4096 ?c"
  have len: "length ?h \<le> 19" by (rule print_size_length [OF assms(1,2)])
  have h: "10 \<notin> set ?h" "0 \<notin> set ?h" using print_int_chars by blast+
  have buff: "?buff = ?h @ 10 # ?pos" using len by (simp add: data_content_def take_Cons')
  have dl: "0 \<notin> set ?pos" using data_lines_no_zero [of bs] by (meson in_set_takeD)
  have "c_str ?buff = ?buff" unfolding buff using dl h by (intro c_str_id) auto
  then have sc: "strchr (c_str ?buff) 10 = Some (length ?h)" using strchr_append [OF h(1)] buff by simp
  have tk: "take (length ?h) ?buff = ?h" "drop (Suc (length ?h)) ?buff = ?pos" by (simp_all only: buff) simp_all
  have pr: "?pos @ ?rest = concat (map data_line bs)"
  proof -
    have "?h @ 10 # (?pos @ ?rest) = ?buff @ ?rest" unfolding buff by simp
    also have "\<dots> = ?h @ 10 # concat (map data_line bs)" by (simp only: append_take_drop_id) (simp add: data_content_def)
    finally show ?thesis by simp
  qed
  have bytes: "length ?pos \<le> length ?buff" "length ?buff \<le> 4096" "length ?buff < 4096 \<longrightarrow> ?rest = []"
  proof -
    show "length ?pos \<le> length ?buff" unfolding buff by simp
  qed (simp_all add: min_def)
  have room: "hits_end (length ?pos + (4096 - length ?buff)) (data_lengths bs) = at_boundary n bs"
  proof -
    have "length ?buff = length ?h + 1 + length ?pos" by (simp only: buff) simp
    then have "length ?pos + (4096 - length ?buff) = 4096 - (length ?h + 1)" using bytes(2) len by linarith
    then show ?thesis using len by (simp add: at_boundary_def)
  qed
  have re: "\<forall>k. data_read_errs env k = None" using assms(4) by (simp add: load_granted_def)
  have loop: "load_loop st env 1 0 ?pos (length ?buff) ?rest = Some (st1, if at_boundary n bs then Inl ENOENT else Inr [])"
    using load_loop_spec [OF pr assms(3) bytes re, of st 1 0] assms(7) room by simp
  have num: "fst (strtol ?h 10) = n" using strtol_dec(1) [of "[]" "nat n"] assms(1,2) by (simp add: print_int_def)
  show ?thesis
    using assms(5,6) re sc tk loop num by (simp add: storage_trunk_load_def Let_def)
qed

lemma free_blocks_apart:
  assumes "trunk_inv d st" and "length (g_fdfs_store_paths st0) = length (tree_info_by_sizes st)"
  shows "apart (fresh_trees st0) (free_blocks st)"
proof -
  from checker.no_overlap [of "tree_info_by_id st"] have
    "pairwise (\<lambda>a b. \<not> overlap a b) (set (free_blocks st))" "distinct (checker_blocks (tree_info_by_id st))"
    using assms(1) inv_set_blocks [OF assms(1)] by (simp_all add: trunk_inv_def)
  moreover have "distinct (free_blocks st)" using assms(1) calculation(2) by (metis mset_eq_imp_distinct_iff trunk_inv_def)
  ultimately have "sorted_wrt (\<lambda>a b. \<not> overlap b a) (free_blocks st)"
    by (auto simp: sorted_wrt_iff_nth_less pairwise_def distinct_conv_nth)
  moreover have "placeable (fresh_trees st0) b" if "b \<in> set (free_blocks st)" for b
    using mem_block_ok(1-3) [OF assms(1) that] assms(2) fresh_trees_inv(3) [of st0] by (simp add: placeable_def)
  ultimately show ?thesis by (simp add: apart_def conflict_def fresh_trees_inv(2))
qed

text \<open>A start on the data file a process wrote with the binlog as it is now; \<open>st0\<close> is the state the start finds.\<close>

lemma init_saved:
  assumes "trunk_inv d st" and "length (g_fdfs_store_paths st0) = length (tree_info_by_sizes st)" and "g_if_trunker_self st0"
    and "trunk_init_flag st0 = STORAGE_TRUNK_INIT_FLAG_NONE" and "load_granted env" and "\<not> g_trunk_init_reload_from_binlog env"
    and "data_open_errno env = None" and "storage_trunk_get_binlog_size (binlog_stat (restore_save renv)) = n" and "0 \<le> n" and "n < 2 ^ 63"
  shows "\<exists>st1. trunk_inv (g_trunk_total_free_space st0) st1 \<and> g_if_trunker_self st1 \<and>
    trunk_init_flag st1 = STORAGE_TRUNK_INIT_FLAG_NONE \<and> mset (free_blocks st1) = mset (map freed (survivors st0 (free_blocks st))) \<and>
    storage_trunk_init st0 0 True env renv bl (Some (data_content n (free_blocks st))) =
      (if at_boundary n (free_blocks st) then Some (st1, Some (data_content n (free_blocks st)), ENOENT)
       else Some (st1\<lparr>trunk_init_flag := STORAGE_TRUNK_INIT_FLAG_DONE\<rparr>, Some (data_content n (free_blocks st)), 0))"
proof -
  have self: "g_if_trunker_self (fresh_trees st0)" using assms(3) by (simp add: fresh_trees_inv)
  from add_lines_spec [OF fresh_trees_inv(1) free_blocks_apart [OF assms(1,2)] assms(5) self, of 0] obtain st1 where
    st1: "add_lines (fresh_trees st0) env 0 (free_blocks st) = Some (st1, 0)" "trunk_inv (g_trunk_total_free_space st0) st1"
      "grown (fresh_trees st0) (mset (map freed (survivors (fresh_trees st0) (free_blocks st)))) st1" by blast
  have rng: "\<forall>b \<in> set (free_blocks st). block_range b" using mem_block_ok(1) [OF assms(1)] block_ok_range by blast
  have load: "storage_trunk_load (fresh_trees st0) env renv bl (Some (data_content n (free_blocks st))) =
      (if at_boundary n (free_blocks st) then Some (st1, Some (data_content n (free_blocks st)), ENOENT)
       else Some (st1, Some (data_content n (free_blocks st)), 0))"
    using load_data_spec [OF assms(9,10) rng assms(5-7) st1(1)] assms(8,9) by (simp add: storage_trunk_restore_def Let_def)
  have run: "storage_trunk_init st0 0 True env renv bl (Some (data_content n (free_blocks st))) =
      (if at_boundary n (free_blocks st) then Some (st1, Some (data_content n (free_blocks st)), ENOENT)
       else Some (st1\<lparr>trunk_init_flag := STORAGE_TRUNK_INIT_FLAG_DONE\<rparr>, Some (data_content n (free_blocks st)), 0))"
    using assms(3,4) load by (simp add: storage_trunk_init_def fresh_trees_def)
  have "g_if_trunker_self st1" "trunk_init_flag st1 = STORAGE_TRUNK_INIT_FLAG_NONE"
    using grown_rest [OF st1(3)] self assms(4) by (simp_all add: same_rest_def fresh_trees_def)
  moreover have "mset (free_blocks st1) = mset (map freed (survivors st0 (free_blocks st)))"
    using st1(3) by (simp add: grown_def fresh_trees_inv survivors_def)
  ultimately show ?thesis using st1(2) run by blast
qed

lemma save_size:
  assumes "storage_trunk_save st env df = (df', 0)"
  shows "0 \<le> storage_trunk_get_binlog_size (binlog_stat env)"
  using assms by (auto simp: storage_trunk_save_def Let_def err_or_def storage_trunk_get_binlog_size_def split: if_splits sum.splits)

lemma destroy_spec:
  assumes "storage_trunk_destroy_ex st env df = (st', df', 0)" and "status_ok st"
  shows "df' = Some (data_content (storage_trunk_get_binlog_size (binlog_stat env)) (free_blocks st))"
    and "0 \<le> storage_trunk_get_binlog_size (binlog_stat env)"
    and "st' = st\<lparr>tree_info_by_sizes := [], tree_info_by_id := trunk_free_block_checker_destroy (tree_info_by_id st),
      trunk_init_flag := STORAGE_TRUNK_INIT_FLAG_NONE\<rparr>"
proof -
  obtain df1 r where s: "storage_trunk_save st env df = (df1, r)" by fastforce
  with assms have r: "r = 0" "df' = df1" and st': "st' = st\<lparr>tree_info_by_sizes := [],
      tree_info_by_id := trunk_free_block_checker_destroy (tree_info_by_id st), trunk_init_flag := STORAGE_TRUNK_INIT_FLAG_NONE\<rparr>"
    by (simp_all add: storage_trunk_destroy_ex_def status_ok_def)
  show "st' = st\<lparr>tree_info_by_sizes := [], tree_info_by_id := trunk_free_block_checker_destroy (tree_info_by_id st),
      trunk_init_flag := STORAGE_TRUNK_INIT_FLAG_NONE\<rparr>" by (rule st')
  show "df' = Some (data_content (storage_trunk_get_binlog_size (binlog_stat env)) (free_blocks st))"
    using save_spec [OF s] r by simp
  show "0 \<le> storage_trunk_get_binlog_size (binlog_stat env)" using save_size s r by blast
qed

section \<open>Properties\<close>

text \<open>C28. Saving the free blocks is atomic: when \<open>storage_trunk_save\<close> reports success the data file holds the size of the binlog and one
  line for every free block in the order of the trees, however the lines were cut into writes; when it reports an error (of \<open>stat\<close>,
  \<open>open\<close>, any of the writes, \<open>fsync\<close> or \<open>rename\<close>) the data file is the one there was before. With no error from the system it succeeds.\<close>

theorem storage_trunk_save_atomic:
  "(case storage_trunk_save st env df of (df', r) \<Rightarrow>
      if r = 0 then df' = Some (print_int (storage_trunk_get_binlog_size (binlog_stat env)) @ [10] @ concat (map data_line (free_blocks st)))
      else df' = df) \<and>
   (0 \<le> storage_trunk_get_binlog_size (binlog_stat env) \<and> tmp_open_errno env = None \<and> tmp_write_errs env = (\<lambda>_. None) \<and>
      tmp_fsync_errno env = None \<and> data_rename_errno env = None \<longrightarrow> snd (storage_trunk_save st env df) = 0)"
  using save_spec [of st env df] save_returns [of env st df]
  by (cases "storage_trunk_save st env df") (auto simp: data_content_def)

text \<open>C27. The free blocks survive a restart: when \<open>storage_trunk_destroy_ex\<close> reports success and the binlog does not change in between, a start
  in a new process (whose counter is zero) takes from the data file every free block that is at least \<open>g_slot_min_size\<close> long, with the
  status free, whatever status it had; the books are consistent again and the server is ready. This needs that the file does not end where a full buffer ends.\<close>

theorem trunk_restart_roundtrip:
  assumes "trunk_inv d st" and "status_ok st" and "storage_trunk_destroy_ex st senv df = (st', df1, 0)"
    and "storage_trunk_get_binlog_size (binlog_stat senv) = n" and "n < 2 ^ 63"
    and "storage_trunk_get_binlog_size (binlog_stat (restore_save renv)) = n"
    and "g_if_trunker_self st0" and "trunk_init_flag st0 = STORAGE_TRUNK_INIT_FLAG_NONE" and "g_trunk_total_free_space st0 = 0"
    and "length (g_fdfs_store_paths st0) = length (tree_info_by_sizes st)"
    and "load_granted env" and "\<not> g_trunk_init_reload_from_binlog env" and "data_open_errno env = None"
    and "\<not> at_boundary n (free_blocks st)"
  shows "\<exists>st2. storage_trunk_init st0 0 True env renv bl df1 = Some (st2, df1, 0) \<and> status_ok st2 \<and> trunk_inv 0 st2 \<and>
    mset (free_blocks st2) =
      image_mset (\<lambda>b. b\<lparr>status := FDFS_TRUNK_STATUS_FREE\<rparr>) (filter_mset (\<lambda>b. g_slot_min_size st0 \<le> bsize b) (mset (free_blocks st)))"
proof -
  note d = destroy_spec [OF assms(3,2)]
  from init_saved [OF assms(1,10,7,8,11-13,6) _ assms(5), of bl] d(2) assms(4,9,14) obtain st1 where
    st1: "trunk_inv 0 st1" "g_if_trunker_self st1" "mset (free_blocks st1) = mset (map freed (survivors st0 (free_blocks st)))"
      "storage_trunk_init st0 0 True env renv bl (Some (data_content n (free_blocks st))) =
        Some (st1\<lparr>trunk_init_flag := STORAGE_TRUNK_INIT_FLAG_DONE\<rparr>, Some (data_content n (free_blocks st)), 0)" by auto
  let ?st2 = "st1\<lparr>trunk_init_flag := STORAGE_TRUNK_INIT_FLAG_DONE\<rparr>"
  have fb: "free_blocks ?st2 = free_blocks st1" by (simp add: free_blocks_def)
  have "trunk_inv 0 ?st2" using st1(1) by (simp add: trunk_inv_def trees_inv_def fb)
  moreover have "status_ok ?st2" using st1(2) by (simp add: status_ok_def)
  moreover have "mset (free_blocks ?st2) = image_mset freed (filter_mset (\<lambda>b. g_slot_min_size st0 \<le> bsize b) (mset (free_blocks st)))"
    using st1(3) unfolding fb by (simp add: survivors_def mset_filter)
  ultimately show ?thesis using st1(4) d(1) assms(4) by auto
qed

definition sample_save :: save_env where
  "sample_save = \<lparr>binlog_stat = Inr 123456, tmp_open_errno = None, tmp_write_errs = \<lambda>_. None, tmp_fsync_errno = None, data_rename_errno = None\<rparr>"

definition sample_load :: load_env where
  "sample_load = \<lparr>g_trunk_init_reload_from_binlog = False, data_unlink_errno = None, data_open_errno = None, data_read_errs = \<lambda>_. None,
     g_trunk_init_check_occupying = False, trunk_files = \<lparr>open_file = \<lambda>_. Inl ENOENT, stat_file = \<lambda>_ _. Inl ENOENT\<rparr>, header_errno = 0, line_mem = \<lambda>_. True,
     line_add = \<lambda>_. sample_add, line_junk = sample_block 0 0\<rparr>"

definition sample_restore :: restore_env where
  "sample_restore = \<lparr>restore_reader = \<lparr>reader_mem = True, rename_errno = None, mark_exists = False, mark_content = [], mark_ini = Inl ENOENT,
       mark_open_errno = None, mark_write_result = 0, binlog_open_errno = None, preread_errno = None\<rparr>,
     record_read_errno = \<lambda>_. None, node_mem = \<lambda>_. True, tree_mem = \<lambda>_. True, record_add = \<lambda>_. sample_add, record_realloc = \<lambda>_. True,
     block_add = \<lambda>_. sample_add, restore_save = sample_save\<rparr>"

definition sample_fresh :: trunk_state where
  "sample_fresh = sample_state\<lparr>trunk_init_flag := STORAGE_TRUNK_INIT_FLAG_NONE, tree_info_by_sizes := [], g_trunk_total_free_space := 0\<rparr>"

lemma sample_load_granted: "load_granted sample_load"
  using sample_add_granted by (simp add: load_granted_def sample_load_def)

lemma sample_save_size: "storage_trunk_get_binlog_size (binlog_stat sample_save) = 123456"
  "storage_trunk_get_binlog_size (binlog_stat (restore_save sample_restore)) = 123456"
  by (simp_all add: sample_save_def sample_restore_def storage_trunk_get_binlog_size_def)

lemma sample_fresh_ok: "g_if_trunker_self sample_fresh" "trunk_init_flag sample_fresh = STORAGE_TRUNK_INIT_FLAG_NONE"
  "g_trunk_total_free_space sample_fresh = 0" "length (g_fdfs_store_paths sample_fresh) = 1" "g_slot_min_size sample_fresh = 64"
  by (simp_all add: sample_fresh_def sample_state_def)

lemma sample_saves:
  assumes "status_ok st"
  shows "\<exists>st'. storage_trunk_destroy_ex st sample_save None = (st', Some (data_content 123456 (free_blocks st)), 0)"
  using save_returns [of sample_save st None] assms
  by (simp add: storage_trunk_destroy_ex_def status_ok_def sample_save_def storage_trunk_get_binlog_size_def)

theorem storage_trunk_save_atomic_witness:
  "storage_trunk_save sample_state sample_save None =
     (Some (print_int 123456 @ [10] @ data_line (sample_block 0 1000)), 0)"
  using storage_trunk_save_atomic [where st = sample_state and env = sample_save and df = None]
  by (cases "storage_trunk_save sample_state sample_save None")
    (auto simp: sample_save_size(1) sample_blocks, auto simp: sample_save_def storage_trunk_get_binlog_size_def)

lemma sample_not_boundary: "\<not> at_boundary 123456 (free_blocks sample_state)"
proof -
  have "length (print_int 123456) \<le> 19" by (intro print_size_length) simp_all
  moreover have "length (data_line (sample_block 0 1000)) \<le> 48"
    by (rule data_line_length) (simp add: block_range_def sample_block_def int_range_def)
  ultimately show ?thesis by (simp add: at_boundary_def sample_blocks)
qed

theorem trunk_restart_roundtrip_witness:
  "\<exists>st' df1 st2. storage_trunk_destroy_ex sample_state sample_save None = (st', df1, 0) \<and>
     storage_trunk_init sample_fresh 0 True sample_load sample_restore old_replica df1 = Some (st2, df1, 0) \<and> trunk_inv 0 st2 \<and>
     mset (free_blocks st2) = {#sample_block 0 1000#}"
proof -
  obtain st' df1 where d: "storage_trunk_destroy_ex sample_state sample_save None = (st', df1, 0)"
    using sample_saves [OF sample_state_ok(1)] by blast
  have l: "length (g_fdfs_store_paths sample_fresh) = length (tree_info_by_sizes sample_state)" by (simp add: sample_fresh_ok sample_state_ok)
  have e: "\<not> g_trunk_init_reload_from_binlog sample_load" "data_open_errno sample_load = None" by (simp_all add: sample_load_def)
  have "filter_mset (\<lambda>b. g_slot_min_size sample_fresh \<le> bsize b) (mset (free_blocks sample_state)) = {#sample_block 0 1000#}"
    by (simp add: sample_fresh_ok sample_blocks) (simp add: sample_block_def)
  moreover have "(sample_block 0 1000)\<lparr>status := FDFS_TRUNK_STATUS_FREE\<rparr> = sample_block 0 1000" by (simp add: sample_block_def)
  ultimately show ?thesis
    using trunk_restart_roundtrip [OF sample_state_inv sample_state_ok(1) d sample_save_size(1) _ sample_save_size(2) sample_fresh_ok(1-3) l
      sample_load_granted e sample_not_boundary, of old_replica] d by auto
qed

text \<open>A data file that ends exactly where a full read buffer ends cannot be loaded: it is complete, \<open>storage_trunk_destroy_ex\<close> reported success,
  yet \<open>storage_trunk_load\<close> reads on for an unfinished line that is not there, takes the end of the file for an error and the trunk server does not start.\<close>

theorem trunk_data_boundary:
  assumes "trunk_inv d st" and "status_ok st" and "storage_trunk_destroy_ex st senv df = (st', df1, 0)"
    and "storage_trunk_get_binlog_size (binlog_stat senv) = n" and "n < 2 ^ 63"
    and "storage_trunk_get_binlog_size (binlog_stat (restore_save renv)) = n"
    and "g_if_trunker_self st0" and "trunk_init_flag st0 = STORAGE_TRUNK_INIT_FLAG_NONE"
    and "length (g_fdfs_store_paths st0) = length (tree_info_by_sizes st)"
    and "load_granted env" and "\<not> g_trunk_init_reload_from_binlog env" and "data_open_errno env = None"
    and "at_boundary n (free_blocks st)"
  shows "\<exists>st2. storage_trunk_init st0 0 True env renv bl df1 = Some (st2, df1, ENOENT) \<and> \<not> status_ok st2"
proof -
  note d = destroy_spec [OF assms(3,2)]
  from init_saved [OF assms(1,9,7,8,10-12,6) _ assms(5), of bl] d(2) assms(4,13) obtain st1 where
    st1: "trunk_init_flag st1 = STORAGE_TRUNK_INIT_FLAG_NONE" "storage_trunk_init st0 0 True env renv bl (Some (data_content n (free_blocks st))) =
        Some (st1, Some (data_content n (free_blocks st)), ENOENT)" by auto
  then show ?thesis using d(1) assms(4) by (auto simp: status_ok_def)
qed

text \<open>141 blocks whose lines are 29 bytes long: with a first line of seven bytes the file has 4096 bytes.\<close>

definition boundary_block :: "nat \<Rightarrow> FDFSTrunkFullInfo" where
  "boundary_block i = \<lparr>status = 0, path = \<lparr>store_path_index = 0, sub_path_high = 1, sub_path_low = 2\<rparr>,
     tfile = \<lparr>trunk_id = 1000000, trunk_offset = 10000000 + 10000 * int i, trunk_size = 10000\<rparr>\<rparr>"

lemma print_dec_length_eq: "\<lbrakk>10 ^ k \<le> n; n < 10 ^ Suc k\<rbrakk> \<Longrightarrow> length (print_dec n) = Suc k"
proof (induction k arbitrary: n)
  case 0
  then show ?case by (subst print_dec.simps) simp
next
  case (Suc k)
  have "10 ^ k \<le> n div 10" using Suc.prems(1) by (simp add: less_eq_div_iff_mult_less_eq mult.commute)
  moreover have "n div 10 < 10 ^ Suc k" using Suc.prems(2) by (simp add: less_mult_imp_div_less mult.commute)
  moreover have "\<not> n < 10" using Suc.prems(1) one_le_power [of "10 :: nat" k] unfolding power_Suc by linarith
  ultimately show ?case using Suc.IH by (subst print_dec.simps) simp
qed

lemma boundary_line: "i < 141 \<Longrightarrow> length (data_line (boundary_block i)) = 29"
proof -
  assume i: "i < 141"
  have p: "length (print_int 0) = 1" "length (print_int 1) = 1" "length (print_int 2) = 1"
    by (simp_all add: print_int_def print_dec.simps)
  have "length (print_int 1000000) = 7" "length (print_int 10000) = 5"
    using print_dec_length_eq [of 6 1000000] print_dec_length_eq [of 4 10000] by (simp_all add: print_int_def)
  moreover have "length (print_int (10000000 + 10000 * int i)) = 8"
    using print_dec_length_eq [of 7 "10000000 + 10000 * i"] i by (simp add: print_int_def nat_add_distrib nat_mult_distrib)
  ultimately show ?thesis using p by (simp add: data_line_def join_length block_cols_def boundary_block_def)
qed

lemma hits_end_equal: "hits_end (k * l) (replicate k l)"
  by (induction k) simp_all

lemma boundary_apart: "apart (fresh_trees sample_fresh) (map boundary_block [0..<141])"
proof -
  have "\<not> overlap (boundary_block j) (boundary_block i)" if "i < j" for i j
    using that by (auto simp: overlap_def boundary_block_def bend_def)
  moreover have "placeable (fresh_trees sample_fresh) (boundary_block i)" if "i < 141" for i
    using that by (auto simp: placeable_def fresh_trees_inv sample_fresh_ok block_ok_def bend_def boundary_block_def path_index_def int_range_def)
  ultimately show ?thesis
    by (auto simp: apart_def conflict_def fresh_trees_inv sorted_wrt_map intro!: sorted_wrt_mono_rel [OF _ sorted_wrt_upt])
qed

lemma boundary_state:
  obtains st where "trunk_inv 0 st" and "status_ok st" and "length (tree_info_by_sizes st) = 1" and "at_boundary 123456 (free_blocks st)"
proof -
  let ?bs = "map boundary_block [0..<141]" and ?st0 = "fresh_trees sample_fresh"
  from add_lines_spec [OF fresh_trees_inv(1) boundary_apart sample_load_granted, of 0] obtain st1 where
    st1: "trunk_inv 0 st1" "grown ?st0 (mset (map freed (survivors ?st0 ?bs))) st1"
    by (auto simp: fresh_trees_inv sample_fresh_ok)
  let ?st = "st1\<lparr>trunk_init_flag := STORAGE_TRUNK_INIT_FLAG_DONE\<rparr>"
  have fb: "free_blocks ?st = free_blocks st1" by (simp add: free_blocks_def)
  have "freed (boundary_block i) = boundary_block i" "64 \<le> bsize (boundary_block i)" for i by (simp_all add: boundary_block_def)
  then have m: "mset (free_blocks st1) = mset ?bs"
    using st1(2) by (simp add: grown_def fresh_trees_inv survivors_def sample_fresh_ok comp_def)
  have "data_lengths (free_blocks st1) = replicate 141 29"
  proof (rule replicate_eqI)
    show "length (data_lengths (free_blocks st1)) = 141" using arg_cong [OF m, of size] by simp
    show "y = 29" if "y \<in> set (data_lengths (free_blocks st1))" for y
      using that boundary_line arg_cong [OF m, of set_mset] by auto
  qed
  moreover have "length (print_int 123456) = 6" using print_dec_length_eq [of 5 123456] by (simp add: print_int_def)
  ultimately have "at_boundary 123456 (free_blocks ?st)" using hits_end_equal [of 141 29] unfolding fb by (simp add: at_boundary_def)
  moreover have "trunk_inv 0 ?st" using st1(1) by (simp add: trunk_inv_def trees_inv_def fb)
  moreover have "status_ok ?st" "length (tree_info_by_sizes ?st) = 1"
    using grown_rest [OF st1(2)] by (simp_all add: status_ok_def same_rest_def fresh_trees_inv sample_fresh_ok)
  ultimately show ?thesis using that by blast
qed

theorem trunk_data_boundary_witness:
  "\<exists>st st' df1 st2. trunk_inv 0 st \<and> storage_trunk_destroy_ex st sample_save None = (st', df1, 0) \<and>
     storage_trunk_init sample_fresh 0 True sample_load sample_restore old_replica df1 = Some (st2, df1, 2)"
proof -
  obtain st where st: "trunk_inv 0 st" "status_ok st" "length (tree_info_by_sizes st) = 1" "at_boundary 123456 (free_blocks st)"
    by (rule boundary_state)
  obtain st' df1 where d: "storage_trunk_destroy_ex st sample_save None = (st', df1, 0)" using sample_saves [OF st(2)] by blast
  have l: "length (g_fdfs_store_paths sample_fresh) = length (tree_info_by_sizes st)" using st(3) by (simp add: sample_fresh_ok)
  have e: "\<not> g_trunk_init_reload_from_binlog sample_load" "data_open_errno sample_load = None" by (simp_all add: sample_load_def)
  show ?thesis
    using trunk_data_boundary [OF st(1,2) d sample_save_size(1) _ sample_save_size(2) sample_fresh_ok(1,2) l sample_load_granted e st(4), of old_replica]
      st(1) d by auto
qed

text \<open>The counter of free space is wrong on a server that loses the role of the trunk server and gets it back: \<open>storage_trunk_destroy_ex\<close> empties the
  trees but not the counter, so the start in the same process counts every block a second time.\<close>

theorem trunk_reinit_counter:
  assumes "trunk_inv 0 st" and "status_ok st" and "storage_trunk_destroy_ex st senv df = (st', df1, 0)"
    and "storage_trunk_get_binlog_size (binlog_stat senv) = n" and "n < 2 ^ 63"
    and "storage_trunk_get_binlog_size (binlog_stat (restore_save renv)) = n"
    and "length (g_fdfs_store_paths st) = length (tree_info_by_sizes st)"
    and "load_granted env" and "\<not> g_trunk_init_reload_from_binlog env" and "data_open_errno env = None"
    and "\<not> at_boundary n (free_blocks st)"
  shows "\<exists>st2. storage_trunk_init st' 0 True env renv bl df1 = Some (st2, df1, 0) \<and>
    g_trunk_total_free_space st2 = total_size (free_blocks st2) + total_size (free_blocks st)"
proof -
  note d = destroy_spec [OF assms(3,2)]
  have st': "g_if_trunker_self st'" "trunk_init_flag st' = STORAGE_TRUNK_INIT_FLAG_NONE" "length (g_fdfs_store_paths st') = length (tree_info_by_sizes st)"
      "g_trunk_total_free_space st' = total_size (free_blocks st)"
    using assms(1,2,7) d(3) by (simp_all add: status_ok_def trunk_inv_def)
  from init_saved [OF assms(1) st'(3,1,2) assms(8-10,6) _ assms(5), of bl] d(2) assms(4,11) st'(4) obtain st1 where
    st1: "trunk_inv (total_size (free_blocks st)) st1" "storage_trunk_init st' 0 True env renv bl (Some (data_content n (free_blocks st))) =
        Some (st1\<lparr>trunk_init_flag := STORAGE_TRUNK_INIT_FLAG_DONE\<rparr>, Some (data_content n (free_blocks st)), 0)" by auto
  then show ?thesis using d(1) assms(4) by (auto simp: trunk_inv_def free_blocks_def)
qed

theorem trunk_reinit_counter_witness:
  "\<exists>st' df1 st2. storage_trunk_destroy_ex sample_state sample_save None = (st', df1, 0) \<and>
     storage_trunk_init st' 0 True sample_load sample_restore old_replica df1 = Some (st2, df1, 0) \<and>
     g_trunk_total_free_space st2 = total_size (free_blocks st2) + 1000"
proof -
  obtain st' df1 where d: "storage_trunk_destroy_ex sample_state sample_save None = (st', df1, 0)"
    using sample_saves [OF sample_state_ok(1)] by blast
  have l: "length (g_fdfs_store_paths sample_state) = length (tree_info_by_sizes sample_state)" by (simp add: sample_state_def)
  have e: "\<not> g_trunk_init_reload_from_binlog sample_load" "data_open_errno sample_load = None" by (simp_all add: sample_load_def)
  have "total_size (free_blocks sample_state) = 1000" by (simp add: sample_blocks total_size_def) (simp add: sample_block_def)
  then show ?thesis
    using trunk_reinit_counter [OF sample_state_inv sample_state_ok(1) d sample_save_size(1) _ sample_save_size(2) l
      sample_load_granted e sample_not_boundary, of old_replica] d by auto
qed

end
