(* ===== verification/Trunk_Recovery.thy ===== *)
theory Trunk_Recovery
  imports Trunk_Data
begin

text \<open>
  Recovery of the free blocks from the binlog alone. The records the allocator hands to the binlog are a journal: replayed in order they give the free
  blocks of the state. \<open>storage_trunk_restore\<close> reads the binlog through a buffer of 8192 bytes, replays it into a tree ordered by offset
  and adds what is left. Both together are the recovery after a crash that leaves no data file.
\<close>

section \<open>Replay\<close>

definition replay_step :: "FDFSTrunkFullInfo list \<Rightarrow> trunk_op \<times> FDFSTrunkFullInfo \<Rightarrow> FDFSTrunkFullInfo list" where
  "replay_step bs x =
     (case x of (op, b) \<Rightarrow>
        (case op of
           TRUNK_OP_TYPE_ADD_SPACE \<Rightarrow> if \<exists>c \<in> set bs. node_key c = node_key b then bs else put_key node_key (freed b) bs
         | TRUNK_OP_TYPE_DEL_SPACE \<Rightarrow> del_key node_key (node_key b) bs))"

definition replay :: "(trunk_op \<times> FDFSTrunkFullInfo) list \<Rightarrow> FDFSTrunkFullInfo list" where
  "replay l = foldl replay_step [] l"

lemma node_key_status [simp]: "node_key (b\<lparr>status := s\<rparr>) = node_key b"
  by (simp add: node_key_def)

lemma node_ok_status [simp]: "node_ok (b\<lparr>status := s\<rparr>) = node_ok b"
  by (simp add: node_ok_def)

section \<open>Reading the binlog record by record\<close>

abbreviation log_line :: "int \<times> trunk_op \<times> FDFSTrunkFullInfo \<Rightarrow> byte list" where
  "log_line e \<equiv> binlog_line (fst e) (op_char (fst (snd e))) (snd (snd e))"

definition log_entry_ok :: "int \<times> trunk_op \<times> FDFSTrunkFullInfo \<Rightarrow> bool" where
  "log_entry_ok e \<longleftrightarrow> int_range (fst e) \<and> block_range (snd (snd e)) \<and> node_ok (snd (snd e))"

lemma op_char_ok: "op_char op \<noteq> 32" "op_char op \<noteq> 10" "op_char op \<noteq> 0"
  by (simp_all add: op_char_def split: trunk_op.splits)

definition read_state :: "binlog \<Rightarrow> TrunkBinLogReader \<Rightarrow> byte list \<Rightarrow> bool" where
  "read_state bl r rest \<longleftrightarrow> reader_inv (binlog_file bl) r \<and> drop (nat (binlog_offset r)) (binlog_file bl) = rest \<and>
     version (binlog_buff r) \<noteq> trunk_binlog_write_version bl"

lemma read_state_unread:
  assumes "read_state bl r rest"
  shows "unread (binlog_buff r) = take (length (unread (binlog_buff r))) rest"
    and "fd_pos r = nat (binlog_offset r) + length (unread (binlog_buff r))" and "length (unread (binlog_buff r)) \<le> length rest"
proof -
  let ?u = "unread (binlog_buff r)"
  have u0: "?u = take (length ?u) (drop (nat (binlog_offset r)) (binlog_file bl))" and "drop (nat (binlog_offset r)) (binlog_file bl) = rest"
    and "fd_pos r = nat (binlog_offset r) + length ?u"
    using assms unfolding read_state_def reader_inv_def Let_def by blast+
  then show u: "?u = take (length ?u) rest" and "fd_pos r = nat (binlog_offset r) + length ?u" by simp_all
  show "length ?u \<le> length rest" using arg_cong [OF u, of length] by simp
qed

lemma read_state_line:
  assumes "read_state bl r (line @ rest)" and "length line \<le> length (unread (binlog_buff r))"
  shows "unread (binlog_buff r) = line @ drop (length line) (unread (binlog_buff r))"
  using read_state_unread(1) [OF assms(1)] assms(2) by (metis append_eq_conv_conj append_take_drop_id take_take min.absorb1)

lemma read_complete_line:
  assumes "read_state bl r (log_line e @ rest)" and "log_entry_ok e" and "length (log_line e) \<le> length (unread (binlog_buff r))"
  shows "\<exists>r'. trunk_binlog_read r bl err rec 0 =
      (r', 0, length (log_line e),
       rec\<lparr>timestamp := fst e, op_type := op_char (fst (snd e)), trunk := (snd (snd e))\<lparr>status := status (trunk rec)\<rparr>\<rparr>) \<and>
    binlog_offset r' = binlog_offset r \<and> read_state bl (r'\<lparr>binlog_offset := binlog_offset r' + int (length (log_line e))\<rparr>) rest"
proof -
  let ?b = "binlog_buff r" and ?n = "length (log_line e)" and ?off = "nat (binlog_offset r)"
  let ?r' = "r\<lparr>binlog_buff := ?b\<lparr>current := current ?b + ?n\<rparr>\<rparr>"
  note u = read_state_unread [OF assms(1)]
  have inv: "0 \<le> binlog_offset r" "current ?b \<le> length (buffer ?b)" "length (buffer ?b) \<le> TRUNK_BINLOG_BUFFER_SIZE"
      "fd_pos r \<le> length (binlog_file bl)" and dr: "drop ?off (binlog_file bl) = log_line e @ rest"
      and ver: "version ?b \<noteq> trunk_binlog_write_version bl"
    using assms(1) by (simp_all add: read_state_def reader_inv_def Let_def)
  have line: "unread ?b = log_line e @ drop ?n (unread ?b)" by (rule read_state_line [OF assms(1,3)])
  have rd: "trunk_binlog_read r bl err rec 0 =
      (?r', 0, ?n, rec\<lparr>timestamp := fst e, op_type := op_char (fst (snd e)), trunk := (snd (snd e))\<lparr>status := status (trunk rec)\<rparr>\<rparr>)"
    using binlog_read_line_spec [OF line op_char_ok] assms(2) by (simp add: log_entry_ok_def)
  have ur: "unread (binlog_buff ?r') = drop ?n (unread ?b)" by (simp add: unread_def add.commute)
  have off: "nat (binlog_offset r + int ?n) = ?off + ?n" using inv(1) by simp
  have "drop ?n (unread ?b) = take (length (unread ?b) - ?n) rest"
    using arg_cong [OF u(1), of "drop ?n"] assms(3) by (simp add: drop_take min_absorb1 min_absorb2)
  moreover have "drop (?off + ?n) (binlog_file bl) = rest" using arg_cong [OF dr, of "drop ?n"] by (simp add: add.commute)
  moreover have "current ?b + ?n \<le> length (buffer ?b)" using assms(3) inv(2) by (simp add: unread_def)
  moreover have "min (length rest) (length (unread ?b) - ?n) = length (unread ?b) - ?n" using u(3) assms(3) by simp
  ultimately have "read_state bl (?r'\<lparr>binlog_offset := binlog_offset ?r' + int ?n\<rparr>) rest"
    using inv ver u(2) assms(3) ur off by (simp add: read_state_def reader_inv_def Let_def)
  with rd show ?thesis by auto
qed

lemma read_next:
  assumes "read_state bl r (log_line e @ rest)" and "log_entry_ok e"
  shows "\<exists>r'. trunk_binlog_read r bl None rec 0 =
      (r', 0, length (log_line e),
       rec\<lparr>timestamp := fst e, op_type := op_char (fst (snd e)), trunk := (snd (snd e))\<lparr>status := status (trunk rec)\<rparr>\<rparr>) \<and>
    binlog_offset r' = binlog_offset r \<and> read_state bl (r'\<lparr>binlog_offset := binlog_offset r' + int (length (log_line e))\<rparr>) rest"
proof (cases "length (log_line e) \<le> length (unread (binlog_buff r))")
  case True
  show ?thesis by (rule read_complete_line [OF assms True])
next
  case False
  let ?b = "binlog_buff r" and ?old = "unread (binlog_buff r)"
  let ?new = "take (TRUNK_BINLOG_BUFFER_SIZE - length ?old) (drop (fd_pos r) (binlog_file bl))"
  let ?b1 = "(if current ?b \<noteq> 0 then ?b\<lparr>buffer := ?old, current := 0\<rparr> else ?b)"
  let ?r1 = "r\<lparr>binlog_buff := ?b1\<lparr>buffer := ?old @ ?new\<rparr>, fd_pos := fd_pos r + length ?new\<rparr>"
  obtain l where l: "log_line e = l @ [10]" "10 \<notin> set l" using binlog_line_chars [OF op_char_ok] by metis
  note u = read_state_unread [OF assms(1)]
  have inv: "reader_inv (binlog_file bl) r" and ver: "version ?b \<noteq> trunk_binlog_write_version bl"
      and dr: "drop (nat (binlog_offset r)) (binlog_file bl) = log_line e @ rest"
    using assms(1) by (simp_all add: read_state_def)
  have len: "length (log_line e) \<le> 62" using binlog_line_length assms(2) by (simp add: log_entry_ok_def)
  have old: "?old = take (length ?old) l" using u(1) False l(1) by simp
  then have no: "10 \<notin> set ?old" using l(2) in_set_takeD [of 10 "length ?old" l] by auto
  have rest: "drop (fd_pos r) (binlog_file bl) = drop (length ?old) (log_line e @ rest)"
    using u(2) arg_cong [OF dr, of "drop (length ?old)"] by (simp add: add.commute)
  have new: "?new \<noteq> []" unfolding rest using False len by simp
  have pre: "trunk_binlog_preread r bl None = (?r1, 0)"
    using ver new False len by (simp add: trunk_binlog_preread_def Let_def)
  from preread_spec [OF inv pre] have inv1: "reader_inv (binlog_file bl) ?r1" by blast
  have u1: "unread (binlog_buff ?r1) = ?old @ ?new" by (simp add: unread_def)
  have v1: "version (binlog_buff ?r1) = version ?b" "binlog_offset ?r1 = binlog_offset r" by simp_all
  have rs1: "read_state bl ?r1 (log_line e @ rest)" using inv1 v1 dr ver unfolding read_state_def by simp
  have long: "length (log_line e) \<le> length (unread (binlog_buff ?r1))"
  proof -
    have "length ?new = min (TRUNK_BINLOG_BUFFER_SIZE - length ?old) (length (log_line e) + length rest - length ?old)"
      unfolding rest length_take length_drop length_append by simp
    then show ?thesis unfolding u1 length_append using False len by linarith
  qed
  from read_complete_line [OF rs1 assms(2) long, of None rec] obtain r' where
    r': "trunk_binlog_read ?r1 bl None rec 0 = (r', 0, length (log_line e),
        rec\<lparr>timestamp := fst e, op_type := op_char (fst (snd e)), trunk := (snd (snd e))\<lparr>status := status (trunk rec)\<rparr>\<rparr>)"
      "binlog_offset r' = binlog_offset ?r1" "read_state bl (r'\<lparr>binlog_offset := binlog_offset r' + int (length (log_line e))\<rparr>) rest" by blast
  have "strchr ?old 10 = None" using no by (simp add: strchr_None)
  then have d0: "trunk_binlog_do_line_read r sz 0 = (r, ENOENT, 0, [])" for sz by (simp add: trunk_binlog_do_line_read_def Let_def)
  obtain q a m li where d1: "trunk_binlog_do_line_read ?r1 TRUNK_BINLOG_LINE_SIZE 0 = (q, a, m, li)" by (metis prod_cases4)
  have "unread (binlog_buff ?r1) = l @ 10 # drop (length (log_line e)) (unread (binlog_buff ?r1))"
    using read_state_line [OF rs1 long] l(1) by (metis append_Cons append_Nil append_assoc)
  from do_line_read_spec [OF this l(2), of TRUNK_BINLOG_LINE_SIZE 0] d1 have "a \<noteq> ENOENT" by (auto split: if_splits)
  then have "trunk_binlog_read_line r bl None TRUNK_BINLOG_LINE_SIZE 0 = trunk_binlog_read_line ?r1 bl None TRUNK_BINLOG_LINE_SIZE 0"
    using d0 pre d1 by (simp add: trunk_binlog_read_line_def)
  then have "trunk_binlog_read r bl None rec 0 = trunk_binlog_read ?r1 bl None rec 0" by (simp add: trunk_binlog_read_def)
  with r' v1(2) show ?thesis by auto
qed

lemma read_end:
  assumes "read_state bl r []"
  shows "\<exists>r'. trunk_binlog_read r bl None rec 0 = (r', ENOENT, 0, rec) \<and> binlog_offset r' = binlog_offset r"
proof -
  note u = read_state_unread [OF assms]
  have un: "unread (binlog_buff r) = []" using u(3) by simp
  have "drop (fd_pos r) (binlog_file bl) = []" using u(2) un assms by (simp add: read_state_def)
  with un assms show ?thesis
    by (simp add: trunk_binlog_read_def trunk_binlog_read_line_def trunk_binlog_do_line_read_def trunk_binlog_preread_def Let_def read_state_def)
qed

section \<open>Replaying the whole binlog\<close>

definition restore_granted :: "restore_env \<Rightarrow> bool" where
  "restore_granted env \<longleftrightarrow> (\<forall>k. record_read_errno env k = None) \<and> (\<forall>k. node_mem env k \<and> tree_mem env k) \<and> (\<forall>k. add_granted (block_add env k)) \<and>
     reader_mem (restore_reader env) \<and> mark_open_errno (restore_reader env) = None \<and> binlog_open_errno (restore_reader env) = None \<and>
     preread_errno (restore_reader env) = None \<and> tmp_open_errno (restore_save env) = None \<and> tmp_write_errs (restore_save env) = (\<lambda>_. None) \<and>
     tmp_fsync_errno (restore_save env) = None \<and> data_rename_errno (restore_save env) = None"

definition offset_tree_inv :: "offset_tree \<Rightarrow> bool" where
  "offset_tree_inv ot \<longleftrightarrow> compare_func ot = storage_trunk_node_compare_offset \<and> avl_inv node_key node_ok (root ot)"

lemma offset_tree_add:
  assumes "offset_tree_inv ot" and "node_ok b"
  shows "\<exists>ot' r. avl_tree_insert True ot (freed b) = Some (ot', r) \<and> 0 \<le> r \<and> offset_tree_inv ot' \<and>
    inorder (root ot') = replay_step (inorder (root ot)) (TRUNK_OP_TYPE_ADD_SPACE, b)"
proof -
  have ok: "node_ok (freed b)" using assms(2) by simp
  have t: "compare_func ot = storage_trunk_node_compare_offset" "avl_inv node_key node_ok (root ot)"
    using assms(1) by (simp_all add: offset_tree_inv_def)
  from by_offset.tree_insert_spec [OF t ok, of True] t(1) show ?thesis
    by (auto simp: offset_tree_inv_def insert_result_def replay_step_def split: if_splits)
qed

lemma offset_tree_del:
  assumes "offset_tree_inv ot" and "node_ok b"
  shows "\<exists>ot' r fr. avl_tree_delete ot (freed b) = Some (ot', r, fr) \<and> offset_tree_inv ot' \<and>
    inorder (root ot') = replay_step (inorder (root ot)) (TRUNK_OP_TYPE_DEL_SPACE, b)"
proof -
  have ok: "node_ok (freed b)" using assms(2) by simp
  have t: "compare_func ot = storage_trunk_node_compare_offset" "avl_inv node_key node_ok (root ot)"
    using assms(1) by (simp_all add: offset_tree_inv_def)
  let ?R = "delete_result node_key (free_data_func ot) (freed b) (inorder (root ot))"
  obtain t' where t': "avl_tree_delete ot (freed b) = Some (ot\<lparr>root := t'\<rparr>, snd ?R)" "avl_inv node_key node_ok t'" "inorder t' = fst ?R"
    using by_offset.tree_delete_spec [OF t ok] by blast
  have "fst ?R = replay_step (inorder (root ot)) (TRUNK_OP_TYPE_DEL_SPACE, b)"
    by (auto simp: delete_result_def replay_step_def del_key_absent)
  then show ?thesis using t' t(1) by (cases "snd ?R") (auto simp: offset_tree_inv_def)
qed

lemma restore_loop_reload:
  assumes "restore_granted env" and "trunk_binlog_size \<le> int (length (binlog_file bl))"
  shows "\<lbrakk>read_state bl r (concat (map log_line ls)); \<forall>e \<in> set ls. log_entry_ok e; offset_tree_inv ot\<rbrakk> \<Longrightarrow>
    \<exists>ot'. restore_loop st ot env True bl trunk_binlog_size r rec k = Some (st, ot', Break 0) \<and> offset_tree_inv ot' \<and>
      inorder (root ot') = foldl replay_step (inorder (root ot)) (map snd ls)"
proof (induction ls arbitrary: ot r rec k)
  case Nil
  have g: "record_read_errno env k = None" using assms(1) by (simp add: restore_granted_def)
  obtain r' where r': "trunk_binlog_read r bl None rec 0 = (r', ENOENT, 0, rec)" "binlog_offset r' = binlog_offset r"
    using read_end [of bl r rec] Nil.prems(1) by auto
  have "drop (nat (binlog_offset r)) (binlog_file bl) = []" "0 \<le> binlog_offset r"
    using Nil.prems(1) by (simp_all add: read_state_def reader_inv_def Let_def)
  then have "trunk_binlog_size \<le> binlog_offset r" using assms(2) by simp
  with r' g Nil.prems(3) show ?case by (subst restore_loop.simps) simp
next
  case (Cons e ls)
  obtain ts op b where e: "e = (ts, op, b)" by (metis prod_cases3)
  have g: "record_read_errno env k = None" "node_mem env k" "tree_mem env k" using assms(1) by (simp_all add: restore_granted_def)
  have ok: "log_entry_ok e" "node_ok b" using Cons.prems(2) e by (auto simp: log_entry_ok_def)
  let ?rec = "rec\<lparr>timestamp := ts, op_type := op_char op, trunk := b\<lparr>status := status (trunk rec)\<rparr>\<rparr>"
  obtain r' where r': "trunk_binlog_read r bl None rec 0 = (r', 0, length (log_line e), ?rec)"
      "read_state bl (r'\<lparr>binlog_offset := binlog_offset r' + int (length (log_line e))\<rparr>) (concat (map log_line ls))"
    using read_next [of bl r e "concat (map log_line ls)" rec] Cons.prems(1) ok(1) e by auto
  let ?r = "r'\<lparr>binlog_offset := binlog_offset r' + int (length (log_line e))\<rparr>"
  have step: "\<exists>ot1. restore_loop st ot env True bl trunk_binlog_size r rec k =
        restore_loop st ot1 env True bl trunk_binlog_size ?r (?rec\<lparr>trunk := freed b\<rparr>) (Suc k) \<and> offset_tree_inv ot1 \<and>
      inorder (root ot1) = replay_step (inorder (root ot)) (op, b)"
  proof (cases op)
    case TRUNK_OP_TYPE_ADD_SPACE
    with offset_tree_add [OF Cons.prems(3) ok(2)] r'(1) g show ?thesis
      by (subst restore_loop.simps) (auto simp: op_char_def cong: if_cong)
  next
    case TRUNK_OP_TYPE_DEL_SPACE
    with offset_tree_del [OF Cons.prems(3) ok(2)] r'(1) g show ?thesis
      by (subst restore_loop.simps) (auto simp: op_char_def cong: if_cong)
  qed
  then obtain ot1 where ot1: "restore_loop st ot env True bl trunk_binlog_size r rec k =
        restore_loop st ot1 env True bl trunk_binlog_size ?r (?rec\<lparr>trunk := freed b\<rparr>) (Suc k)" "offset_tree_inv ot1"
      "inorder (root ot1) = replay_step (inorder (root ot)) (op, b)" by blast
  have "\<forall>e \<in> set ls. log_entry_ok e" using Cons.prems(2) by simp
  from Cons.IH [OF r'(2) this ot1(2), of "?rec\<lparr>trunk := freed b\<rparr>" "Suc k"] ot1 e show ?case by auto
qed

lemma walk_add_spec:
  assumes "trunk_inv d st" and "apart st bs" and "\<forall>k. add_granted (envs k)"
  shows "\<exists>st' k'. walk_list (storage_trunk_add_free_blocks_callback envs) bs (Some (st, k)) = (Some (st', k'), 0) \<and> trunk_inv d st' \<and>
    grown st (mset (survivors st bs)) st'"
  using assms(1,2)
proof (induction bs arbitrary: st k)
  case Nil
  then show ?case by (simp add: grown_def survivors_def)
next
  case (Cons b bs)
  have b: "placeable st b" "\<not> conflict st b" using Cons.prems(2) by (simp_all add: apart_def)
  from add_by_node_spec [OF Cons.prems(1) b(1), of "envs k"] b(2) assms(3) obtain st1 where
    st1: "trunk_add_space_by_node st (envs k) b = Some (st1, 0)" "trunk_inv d st1"
      "grown st (if g_slot_min_size st \<le> bsize b then {#b#} else {#}) st1"
    by (auto simp: kept_def)
  have g: "grown st (if g_slot_min_size st \<le> bsize b then {#b\<lparr>status := status b\<rparr>#} else {#}) st1" using st1(3) by (auto split: if_splits)
  from Cons.IH [OF st1(2) apart_grown(1) [OF Cons.prems(2) g], of "Suc k"] apart_grown(2) [OF Cons.prems(2) g] obtain st' k' where
    st': "walk_list (storage_trunk_add_free_blocks_callback envs) bs (Some (st1, Suc k)) = (Some (st', k'), 0)" "trunk_inv d st'"
      "grown st1 (mset (survivors st bs)) st'" by metis
  have "storage_trunk_add_free_blocks_callback envs b (Some (st, k)) = (Some (st1, Suc k), 0)"
    using st1(1) by (simp add: storage_trunk_add_free_blocks_callback_def)
  then have "walk_list (storage_trunk_add_free_blocks_callback envs) (b # bs) (Some (st, k)) = (Some (st', k'), 0)" using st'(1) by simp
  moreover have "grown st (mset (survivors st (b # bs))) st'"
    using grown_trans [OF st1(3) st'(3)] by (simp add: survivors_def split: if_splits)
  ultimately show ?case using st'(2) by blast
qed

lemma restore_reader_ready:
  assumes "restore_granted env" and "binlog_file bl \<noteq> []" and "trunk_binlog_write_version bl \<noteq> 0"
  shows "\<exists>r. trunk_reader_init (empty_reader\<lparr>binlog_offset := 0\<rparr>) (restore_reader env) False bl = (r, 0) \<and> read_state bl r (binlog_file bl)"
proof -
  have g: "reader_mem (restore_reader env)" "mark_open_errno (restore_reader env) = None" "binlog_open_errno (restore_reader env) = None"
      "preread_errno (restore_reader env) = None"
    using assms(1) by (simp_all add: restore_granted_def)
  have off: "reader_offset (restore_reader env) False (binlog_offset (empty_reader\<lparr>binlog_offset := 0\<rparr>)) = Inr 0"
    by (simp add: reader_offset_def)
  obtain r q where r: "trunk_reader_init (empty_reader\<lparr>binlog_offset := 0\<rparr>) (restore_reader env) False bl = (r, q)" by fastforce
  have run: "q = 0 \<and> version (binlog_buff r) = 0"
    using r g off assms(2,3)
    by (auto simp: trunk_reader_init_def Let_def trunk_open_readable_binlog_def trunk_binlog_preread_def empty_reader_def unread_def
        split: if_splits)
  from reader_init_inv [OF _ off, of bl r] r run have "reader_inv (binlog_file bl) r" "binlog_offset r = 0" by simp_all
  then show ?thesis using r run assms(3) by (auto simp: read_state_def)
qed

lemma restore_reload:
  assumes "trunk_inv d st" and "restore_granted env" and "trunk_binlog_write_version bl \<noteq> 0"
    and "binlog_file bl = concat (map log_line ls)" and "ls \<noteq> []" and "\<forall>e \<in> set ls. log_entry_ok e" and "apart st (replay (map snd ls))"
    and "storage_trunk_get_binlog_size (binlog_stat (restore_save env)) = int (length (binlog_file bl))"
  shows "\<exists>st2. storage_trunk_restore st env bl df 0 = Some (st2, Some (data_content (int (length (binlog_file bl))) (free_blocks st2)), 0) \<and>
    trunk_inv d st2 \<and> grown st (mset (survivors st (replay (map snd ls)))) st2"
proof -
  let ?n = "int (length (binlog_file bl))"
  have ne: "binlog_file bl \<noteq> []"
  proof -
    obtain e es where "ls = e # es" using assms(5) by (cases ls) auto
    moreover obtain l where "log_line e = l @ [10]" using binlog_line_chars [OF op_char_ok] by metis
    ultimately show ?thesis using assms(4) by simp
  qed
  obtain r where r: "trunk_reader_init (empty_reader\<lparr>binlog_offset := 0\<rparr>) (restore_reader env) False bl = (r, 0)"
      "read_state bl r (concat (map log_line ls))"
    using restore_reader_ready [OF assms(2) ne assms(3)] assms(4) by auto
  let ?ot = "fst (avl_tree_init True storage_trunk_node_compare_offset)"
  have ot: "offset_tree_inv ?ot" "inorder (root ?ot) = []" by (simp_all add: offset_tree_inv_def avl_tree_init_def avl_inv_def)
  from restore_loop_reload [OF assms(2) order.refl r(2) assms(6) ot(1), of st empty_record 0] ot(2) obtain ot1 where
    ot1: "restore_loop st ?ot env True bl ?n r empty_record 0 = Some (st, ot1, Break 0)" "inorder (root ot1) = replay (map snd ls)"
    by (auto simp: replay_def)
  have ga: "\<forall>k. add_granted (block_add env k)" using assms(2) by (simp add: restore_granted_def)
  from walk_add_spec [OF assms(1,7) ga, of 0] ot1(2) obtain st2 k' where
    st2: "avl_tree_walk ot1 (storage_trunk_add_free_blocks_callback (block_add env)) (Some (st, 0)) = (Some (st2, k'), 0)" "trunk_inv d st2"
      "grown st (mset (survivors st (replay (map snd ls)))) st2"
    by (auto simp: walk_tree_list)
  have sv: "storage_trunk_save st2 (restore_save env) df = (Some (data_content ?n (free_blocks st2)), 0)"
    using save_returns [of "restore_save env" st2 df] assms(2,8) by (simp add: restore_granted_def)
  have "0 < ?n" using ne by simp
  then have "storage_trunk_restore st env bl df 0 = Some (st2, Some (data_content ?n (free_blocks st2)), 0)"
    using r(1) ot1(1) st2(1) sv assms(8) by (simp add: storage_trunk_restore_def Let_def)
  with st2(2,3) show ?thesis by blast
qed

section \<open>The journal\<close>

text \<open>The replay of the records gives the free blocks and \<open>xs\<close>, blocks an allocation has taken out without a record yet.\<close>

definition journal :: "FDFSTrunkFullInfo list \<Rightarrow> trunk_state \<Rightarrow> bool" where
  "journal xs st \<longleftrightarrow> set (replay (trunk_binlog st)) = freed ` (set xs \<union> set (free_blocks st)) \<and>
     (\<forall>x \<in> set (trunk_binlog st). block_ok (snd x))"

lemma replay_append: "replay (l @ [x]) = replay_step (replay l) x"
  by (simp add: replay_def)

lemma key_overlap: "\<lbrakk>block_ok a; block_ok b; node_key a = node_key b\<rbrakk> \<Longrightarrow> overlap a b"
  by (auto simp: overlap_def node_key_def block_ok_def bend_def FILL_FILE_IDENTIFIER_def word_uint_eq_iff)

lemma journal_add:
  assumes "journal [] st" and "trunk_inv d st" and "\<not> conflict st b" and "block_ok b"
    and "trunk_binlog st' = trunk_binlog st @ [(TRUNK_OP_TYPE_ADD_SPACE, b)]" and "set xs \<union> set (free_blocks st') = insert b (set (free_blocks st))"
  shows "journal xs st'"
proof -
  have "\<forall>c \<in> set (free_blocks st). node_key c \<noteq> node_key b"
    using key_overlap [OF assms(4)] mem_block_ok(1) [OF assms(2)] assms(3) by (fastforce simp: conflict_def)
  then have "\<forall>c \<in> set (replay (trunk_binlog st)). node_key c \<noteq> node_key b" using assms(1) by (auto simp: journal_def)
  then have "set (replay (trunk_binlog st')) = insert (freed b) (set (replay (trunk_binlog st)))"
    unfolding assms(5) replay_append by (auto simp: replay_step_def set_put_key)
  then show ?thesis using assms(1,4,5,6) by (auto simp: journal_def)
qed

lemma journal_del:
  assumes "journal [b] st" and "trunk_inv d st" and "\<not> conflict st b" and "block_ok b"
    and "trunk_binlog st' = trunk_binlog st @ [(TRUNK_OP_TYPE_DEL_SPACE, b)]" and "set (free_blocks st') = set (free_blocks st)"
  shows "journal [] st'"
proof -
  have "\<forall>c \<in> set (free_blocks st). node_key c \<noteq> node_key b"
    using key_overlap [OF assms(4)] mem_block_ok(1) [OF assms(2)] assms(3) by (fastforce simp: conflict_def)
  moreover have "set (replay (trunk_binlog st')) = {c \<in> set (replay (trunk_binlog st)). node_key c \<noteq> node_key b}"
    unfolding assms(5) replay_append by (simp add: replay_step_def)
  moreover have "set (replay (trunk_binlog st)) = insert (freed b) (freed ` set (free_blocks st))" using assms(1) by (auto simp: journal_def)
  ultimately have "set (replay (trunk_binlog st')) = freed ` set (free_blocks st)" by auto
  then show ?thesis using assms(1,4,5,6) by (auto simp: journal_def)
qed

lemma journal_same:
  assumes "journal xs st" and "trunk_binlog st' = trunk_binlog st" and "freed ` (set ys \<union> set (free_blocks st')) = freed ` (set xs \<union> set (free_blocks st))"
  shows "journal ys st'"
  using assms by (simp add: journal_def)

lemma added_journal:
  assumes "journal [] st" and "trunk_inv d st" and "\<not> conflict st b" and "block_ok b" and "added st b True st'"
  shows "journal [] st'"
proof -
  have "set_mset (mset (free_blocks st')) = insert b (set (free_blocks st))" using assms(5) by (simp add: added_def)
  then show ?thesis using journal_add [OF assms(1-4)] assms(5) by (simp add: added_def)
qed

text \<open>A block of a consistent state does not overlap the others.\<close>

lemma taken_no_conflict:
  assumes "trunk_inv d st" and "mset (free_blocks st) = add_mset b (mset (free_blocks st'))"
  shows "\<not> conflict st' b"
proof -
  have nv: "pairwise (\<lambda>a b. \<not> overlap a b) (set (free_blocks st))" "distinct (checker_blocks (tree_info_by_id st))"
    using checker.no_overlap [of "tree_info_by_id st"] assms(1) inv_set_blocks [OF assms(1)] by (simp_all add: trunk_inv_def)
  then have "distinct (free_blocks st)" using assms(1) by (metis mset_eq_imp_distinct_iff trunk_inv_def)
  then have "distinct (b # free_blocks st')" using assms(2) by (metis mset.simps(2) mset_eq_imp_distinct_iff)
  moreover have "set (free_blocks st) = insert b (set (free_blocks st'))" using arg_cong [OF assms(2), of set_mset] by simp
  ultimately show ?thesis using nv(1) by (auto simp: conflict_def pairwise_def)
qed

lemma removed_journal:
  assumes "journal [] st" and "trunk_inv d st" and "trunk_inv d' st'" and "removed st b True st'"
  shows "journal [] st'"
proof -
  have m: "mset (free_blocks st) = add_mset b (mset (free_blocks st'))" using assms(4) by (simp add: removed_def)
  have s: "set (free_blocks st) = insert b (set (free_blocks st'))" using arg_cong [OF m, of set_mset] by simp
  have ok: "block_ok b" using mem_block_ok(1) [OF assms(2), of b] s by simp
  let ?st = "st'\<lparr>trunk_binlog := trunk_binlog st\<rparr>"
  have fb: "free_blocks ?st = free_blocks st'" by (simp add: free_blocks_def)
  have "journal [b] ?st" using assms(1) s by (simp add: journal_def fb)
  moreover have "\<not> conflict ?st b" using taken_no_conflict [OF assms(2) m] by (simp add: conflict_def fb)
  ultimately show ?thesis using journal_del [of b ?st d' st'] assms(3,4) ok by (simp add: removed_def fb)
qed

lemma add_block_journal:
  assumes "journal [] st" and "trunk_inv d st" and "block_ok b" and "bend b < 2 ^ 31 - 1" and "path_index b < length (tree_info_by_sizes st)"
    and "add_granted env" and "trunk_add_free_block st env b True = Some (st', r)"
  shows "journal [] st'"
  using add_free_block_spec [OF assms(2-6), of True] added_journal [OF assms(1,2) _ assms(3)] assms(1,7)
  by (cases "conflict st b") auto

lemma split_journal:
  assumes "trunk_inv (bsize b) st" and "node_fits st b n" and "add_granted env" and "journal [b] st" and "\<not> conflict st b"
    and "trunk_split st True del_res env b n = Some (st', r, b')"
  shows "journal [] st'"
proof -
  have ok: "block_ok b" using assms(2) by (simp add: node_fits_def)
  obtain st1 r1 where w: "trunk_mem_binlog_write st del_res TRUNK_OP_TYPE_DEL_SPACE b = (st1, r1)" by fastforce
  note ws = binlog_write_spec [OF assms(1) w]
  have inv1: "trunk_inv 0 st1" using ws(5) by simp
  have j1: "journal [] st1" using journal_del [OF assms(4,1,5) ok ws(4)] ws(2) by simp
  show ?thesis
  proof (cases "bsize b - n < g_slot_min_size st \<or> r1 \<noteq> 0")
    case True
    then have "st' = st1" using w assms(6) by (auto simp: trunk_split_def split: if_splits)
    with j1 show ?thesis by simp
  next
    case False
    let ?q = "split_rest b n"
    have q: "block_ok ?q" "bend ?q < 2 ^ 31 - 1" "path_index ?q < length (tree_info_by_sizes st1)"
      using False pieces_ok(6-8) [OF assms(2)] assms(2) ws(3) by (simp_all add: node_fits_def same_rest_def)
    obtain r2 where "trunk_add_free_block st1 env ?q True = Some (st', r2)"
      using False w assms(6) by (auto simp: trunk_split_def split: bind_splits if_splits)
    from add_block_journal [OF j1 inv1 q assms(3) this] show ?thesis .
  qed
qed

lemma hold_node_journal:
  assumes "trunk_inv (bsize b) st" and "node_fits st b n" and "mem_granted env" and "journal [b] st" and "\<not> conflict st b"
    and "hold_node st env b n p = Some (st', r, out)"
  shows "journal [] st'"
proof -
  have g: "al_split_alloc env" "add_granted (al_split_env env)" "add_granted (al_hold_env env)"
    using assms(3) by (simp_all add: mem_granted_def)
  from split_spec [OF assms(1,2) g(2), of "al_split_res env"] obtain st2 r2 b2 where
    st2: "trunk_split st True (al_split_res env) (al_split_env env) b n = Some (st2, r2, b2)" "trunk_inv 0 st2" "same_rest st st2"
      "r2 = 0 \<longrightarrow> b2 = cut_node st n b" by blast
  note j2 = split_journal [OF assms(1,2) g(2) assms(4,5) st2(1)]
  show ?thesis
  proof (cases "r2 = 0")
    case False
    then show ?thesis using assms(6) st2(1) g(1) j2 by (simp add: hold_node_def)
  next
    case True
    let ?h = "hold (cut_node st n b)"
    have h: "block_ok ?h" "bend ?h < 2 ^ 31 - 1" "path_index ?h < length (tree_info_by_sizes st2)"
      using pieces_ok(1-3) [OF assms(2)] assms(2) st2(3) by (simp_all add: node_fits_def same_rest_def)
    obtain r3 where "trunk_add_free_block st2 (al_hold_env env) ?h True = Some (st', r3)"
      using True st2 g(1) assms(6) by (auto simp: hold_node_def hold_def Let_def split: bind_splits)
    from add_block_journal [OF j2 st2(2) h g(3) this] show ?thesis .
  qed
qed

text \<open>A new trunk file has a name that did not exist; the trunk files of the free blocks do.\<close>

definition files_known :: "file_env \<Rightarrow> trunk_state \<Rightarrow> bool" where
  "files_known env st \<longleftrightarrow> (\<forall>c \<in> set (free_blocks st). file_exists env (trunk_get_full_filename_ex (g_fdfs_store_paths st) c 256))"

definition new_file :: "trunk_state \<Rightarrow> file_env \<Rightarrow> trunk_state \<times> int \<times> FDFSTrunkFullInfo \<Rightarrow> bool" where
  "new_file st env y = (case y of (st', r, info) \<Rightarrow>
     r = 0 \<longrightarrow> \<not> file_exists env (trunk_get_full_filename_ex (g_fdfs_store_paths st) info 256))"

lemma create_next_file_new: "trunk_create_next_file st env info = Some y \<Longrightarrow> new_file st env y"
proof (rule trunk_create_next_file.raw_induct [where P = "\<lambda>st env info y. new_file st env y"])
  fix f and st :: trunk_state and env :: file_env and info :: FDFSTrunkFullInfo and y
  let ?info1 = "info\<lparr>tfile := (tfile info)\<lparr>trunk_id := g_current_trunk_file_id (draw_id st)\<rparr>\<rparr>"
  assume ih: "\<And>st (env :: file_env) (info :: FDFSTrunkFullInfo) y. f st env info = Some y \<Longrightarrow> new_file st env y"
  assume run: "(let st1 = draw_id st; info1 = info\<lparr>tfile := (tfile info)\<lparr>trunk_id := g_current_trunk_file_id st1\<rparr>\<rparr>;
        result = ini_res env (g_current_trunk_file_id st1)
      in if result \<noteq> 0 then Some (st1, result, info1)
         else let (st2, info2, full_filename) = place_file st1 info1
              in if file_exists env full_filename then f st2 env info2
                 else trunk_init_file_ex (file_init env full_filename) (g_trunk_file_size st2) \<bind> (\<lambda>r. Some (st2, r, info2))) =
    Some y"
  obtain st2 info2 name where p: "place_file (draw_id st) ?info1 = (st2, info2, name)" by (metis prod_cases3)
  have "name = trunk_get_full_filename_ex (g_fdfs_store_paths st) info2 256" "g_fdfs_store_paths st2 = g_fdfs_store_paths st"
    using p by (auto simp: place_file_def draw_id_def Let_def split: prod.splits)
  then show "new_file st env y"
    using run p ih [of st2 env info2 y] by (auto simp: Let_def new_file_def split: if_splits bind_splits)
qed

lemma filename_same_file:
  assumes "overlap a b"
  shows "trunk_get_full_filename_ex paths a n = trunk_get_full_filename_ex paths b n"
proof -
  have "path a = path b" "trunk_id (tfile a) = trunk_id (tfile b)"
    using assms by (auto simp: overlap_def FILL_FILE_IDENTIFIER_def)
  then show ?thesis by (simp add: trunk_get_full_filename_ex_def)
qed

lemma create_journal:
  assumes "trunk_inv d st" and "config_ok st" and "journal [] st" and "files_known (create_files env) st"
    and "trunk_create_trunk_file st env junk index = Some (st', err, node)"
  shows "case node of None \<Rightarrow> journal [] st' | Some b \<Rightarrow> journal [b] st' \<and> \<not> conflict st' b"
proof (cases "create_node_alloc env")
  case False
  then have "st' = st \<and> node = None" using assms(5) by (simp add: trunk_create_trunk_file_def)
  then show ?thesis using assms(3) by simp
next
  case True
  obtain s' ch where ch: "(if index \<ge> 0 then (store_path st, Inr index) else storage_get_storage_path_index (store_path st)) = (s', ch)"
    by fastforce
  let ?st0 = "st\<lparr>store_path := s'\<rparr>"
  have q0: "quiet st ?st0" by (simp add: quiet_def keeps_rest_def same_rest_def)
  show ?thesis
  proof (cases ch)
    case (Inl e)
    then have "st' = ?st0" "node = None" using True ch assms(5) by (simp_all add: trunk_create_trunk_file_def Let_def)
    then show ?thesis using journal_same [OF assms(3), of ?st0 "[]"] by (simp add: free_blocks_def)
  next
    case (Inr i)
    let ?f = "fresh_node ?st0 junk i"
    have run: "do {
          (st1, err, info) \<leftarrow> trunk_create_next_file ?st0 (create_files env) ?f;
          if err \<noteq> 0 then Some (st1, Some err, None)
          else (let (st2, r) = trunk_mem_binlog_write st1 (create_binlog_res env) TRUNK_OP_TYPE_ADD_SPACE info
                in Some (st2, Some r, Some info))
        } = Some (st', err, node)"
      using assms(5) True ch Inr by (simp add: trunk_create_trunk_file_def Let_def)
    then obtain st1 e info where c: "trunk_create_next_file ?st0 (create_files env) ?f = Some (st1, e, info)"
      by (cases "trunk_create_next_file ?st0 (create_files env) ?f") auto
    have q1: "quiet st st1" using quiet_trans [OF q0] create_next_file_placed [OF c] by (simp add: placed_def)
    have i1: "trunk_inv d st1" "free_blocks st1 = free_blocks st" using quiet_inv [OF q1 assms(1)] by blast+
    have j1: "journal [] st1" using journal_same [OF assms(3), of st1 "[]"] q1 i1(2) by (simp add: quiet_def keeps_rest_def)
    show ?thesis
    proof (cases "e = 0")
      case False
      then have "st' = st1 \<and> node = None" using run c by simp
      then show ?thesis using j1 by simp
    next
      case True
      obtain st2 r where w: "trunk_mem_binlog_write st1 (create_binlog_res env) TRUNK_OP_TYPE_ADD_SPACE info = (st2, r)" by fastforce
      note ws = binlog_write_spec [OF i1(1) w]
      have r: "st' = st2" "node = Some info" using run c w True by simp_all
      have "\<not> file_exists (create_files env) (trunk_get_full_filename_ex (g_fdfs_store_paths st) info 256)"
        using create_next_file_new [OF c] True by (simp add: new_file_def)
      then have nc: "\<not> conflict st1 info" using assms(4) filename_same_file i1(2) by (fastforce simp: conflict_def files_known_def)
      have ok: "block_ok info" using create_trunk_file_spec [OF assms(1,2,5)] r(2) by simp
      have "journal [info] st2" using journal_add [OF j1 i1(1) nc ok ws(4)] ws(2) by auto
      moreover have "\<not> conflict st2 info" using nc ws(2) by (simp add: conflict_def)
      ultimately show ?thesis using r by simp
    qed
  qed
qed

lemma alloc_journal:
  assumes "trunk_inv 0 st" and "config_ok st" and "0 < n" and "n \<le> g_trunk_file_size st" and "path_index p < length (tree_info_by_sizes st)"
    and "mem_granted env" and "journal [] st" and "files_known (create_files (al_create env)) st"
    and "trunk_alloc_space st env junk_err junk n p = Some (st', r, b)"
  shows "journal [] st'"
proof (cases "status_ok st")
  case False
  then show ?thesis using assms(7,9) by (auto simp: trunk_alloc_space_def)
next
  case True
  let ?i = "path_index p" and ?x = "store_path_index (path p)"
  have n31: "n < 2 ^ 31" using assms(2,4) by (simp add: config_ok_def)
  have tr: "size_tree st (unat ?x) = Some (tree_info_by_sizes st ! ?i)" "unat ?x = ?i"
    using assms(5) by (simp_all add: size_tree_def path_index_def)
  obtain st1 err node where o: "obtain_node st env junk n ?x = Some (st1, err, node)"
    using assms(9) True by (cases "obtain_node st env junk n ?x") (auto simp: trunk_alloc_space_def)
  obtain res where res: "find_free_node (tree_info_by_sizes st ! ?i) (wanted st n) = Some res"
      "best_fit (tree_info_by_sizes st ! ?i) (wanted st n) res"
    using search_spec [OF assms(1-3) n31 assms(5)] by blast
  have spec: "case node of None \<Rightarrow> journal [] st1
      | Some c \<Rightarrow> trunk_inv (bsize c) st1 \<and> node_fits st1 c n \<and> journal [c] st1 \<and> \<not> conflict st1 c"
  proof (cases res)
    case None
    then have c: "trunk_create_trunk_file st (al_create env) junk (uint ?x) = Some (st1, err, node)"
      using o tr res(1) by (simp add: obtain_node_def wanted_def)
    from create_trunk_file_spec [OF assms(1,2) c] create_journal [OF assms(1,2,7,8) c] assms(2-5) config_ok_same [OF assms(2), of st1]
    show ?thesis by (auto simp: chosen_path_def node_fits_def same_rest_def path_index_def split: option.splits)
  next
    case (Some sb)
    obtain s c where sb: "sb = (s, c)" by fastforce
    with Some res(2) have bf: "best_fit (tree_info_by_sizes st ! ?i) (wanted st n) (Some (s, c))" by simp
    from found_node_spec [OF assms(1-3) n31 assms(5) bf, of "al_realloc env"] obtain st2 where
      st2: "take_block st ?i s c (al_realloc env) = Some st2" "trunk_inv (bsize c) st2" "node_fits st2 c n" "\<not> conflict st2 c"
        "trunk_binlog st2 = trunk_binlog st" "mset (free_blocks st) = add_mset c (mset (free_blocks st2))" by blast
    have "set (free_blocks st) = insert c (set (free_blocks st2))" using arg_cong [OF st2(6), of set_mset] by simp
    then have "journal [c] st2" using journal_same [OF assms(7) st2(5), of "[c]"] by simp
    moreover have "st1 = st2" "node = Some c" using o tr res(1) Some sb st2(1) by (simp_all add: obtain_node_def wanted_def)
    ultimately show ?thesis using st2 by simp
  qed
  show ?thesis
  proof (cases node)
    case None
    then show ?thesis using assms(9) True o spec by (simp add: trunk_alloc_space_def)
  next
    case (Some c)
    then have "hold_node st1 env c n p = Some (st', r, b)" using assms(9) True o by (simp add: trunk_alloc_space_def)
    then show ?thesis using hold_node_journal [OF _ _ assms(6)] spec Some by auto
  qed
qed

section \<open>Steps that are logged\<close>

text \<open>The requests of \<open>trunk_step\<close> as the trunk server executes them: space given back is logged, and the trunk files of the free blocks exist.\<close>

inductive logged_step :: "trunk_state \<Rightarrow> trunk_state \<Rightarrow> bool" where
  free: "\<lbrakk>block_ok b; bend b < 2 ^ 31 - 1; path_index b < length (tree_info_by_sizes st); add_granted env;
    trunk_free_space st True env b True = Some (st', r)\<rbrakk> \<Longrightarrow> logged_step st st'"
| alloc: "\<lbrakk>0 < n; n \<le> g_trunk_file_size st; path_index p < length (tree_info_by_sizes st); mem_granted env;
    files_known (create_files (al_create env)) st; trunk_alloc_space st env junk_err junk n p = Some (st', r, b)\<rbrakk> \<Longrightarrow> logged_step st st'"
| confirm: "\<lbrakk>path_index b < length (tree_info_by_sizes st); 0 \<le> bsize b; bsize b < 2 ^ 31;
    trunk_alloc_confirm st mem res b status0 = Some (st', r)\<rbrakk> \<Longrightarrow> logged_step st st'"

lemma logged_step_trunk: "logged_step st st' \<Longrightarrow> trunk_step st st'"
  by (auto elim!: logged_step.cases intro: trunk_step.intros)

lemma logged_step_journal:
  assumes "logged_step st st'" and "trunk_inv 0 st" and "config_ok st" and "journal [] st"
  shows "journal [] st'"
  using assms(1)
proof cases
  case (free b env r)
  let ?b = "b\<lparr>status := FDFS_TRUNK_STATUS_FREE\<rparr>"
  have b: "block_ok ?b" "bend ?b < 2 ^ 31 - 1" "path_index ?b < length (tree_info_by_sizes st)"
    using free(1-3) by (simp_all add: block_ok_def bend_def path_index_def)
  have "st' = st \<or> trunk_add_free_block st env ?b True = Some (st', r)"
    using free(5) by (auto simp: trunk_free_space_def split: if_splits)
  then show ?thesis using add_block_journal [OF assms(4,2) b free(4)] assms(4) by blast
next
  case (alloc n p env junk_err junk r b)
  then show ?thesis using alloc_journal [OF assms(2,3) alloc(1-4) assms(4) alloc(5,6)] by blast
next
  case (confirm b mem res status0 r)
  show ?thesis
  proof (cases "status_ok st")
    case False
    then show ?thesis using confirm(4) assms(4) by (simp add: trunk_alloc_confirm_def)
  next
    case True
    from confirm_spec [OF assms(2) True confirm(1-3), of mem res status0] confirm(4) have
      c: "trunk_inv 0 st'" "st' = st \<or> removed st (hold b) True st' \<or> restored st (hold b) st' \<and> hold b \<in> set (free_blocks st)"
      by (auto split: if_splits)
    have "journal [] st'" if r: "restored st (hold b) st'" "hold b \<in> set (free_blocks st)"
    proof (rule journal_same [OF assms(4)])
      show "trunk_binlog st' = trunk_binlog st" using r(1) by (simp add: restored_def)
      have m: "mset (free_blocks st') = add_mset (freed (hold b)) (mset (free_blocks st) - {#hold b#})" using r(1) by (simp add: restored_def)
      have "image_mset freed (mset (free_blocks st')) = image_mset freed (mset (free_blocks st))"
      proof -
        obtain M where "mset (free_blocks st) = add_mset (hold b) M" using r(2) by (metis mset_add set_mset_mset)
        with m show ?thesis by simp
      qed
      then show "freed ` (set [] \<union> set (free_blocks st')) = freed ` (set [] \<union> set (free_blocks st))"
        by (metis empty_set set_image_mset set_mset_mset sup_bot_left)
    qed
    then show ?thesis using c removed_journal [OF assms(4,2) c(1)] assms(4) by blast
  qed
qed

lemma logged_reach:
  assumes "trunk_inv 0 st" and "config_ok st" and "journal [] st" and "logged_step\<^sup>*\<^sup>* st st'"
  shows "trunk_inv 0 st' \<and> config_ok st' \<and> journal [] st'"
  using assms(4,1-3)
proof (induction rule: rtranclp_induct)
  case (step y z)
  then show ?case using trunk_step_inv [OF logged_step_trunk] logged_step_journal by blast
qed simp

section \<open>What the replay gives\<close>

lemma sorted_replay: "sorted_key node_key (replay l)"
proof (induction l rule: rev_induct)
  case Nil
  show ?case by (simp add: replay_def)
next
  case (snoc x l)
  obtain op b where "x = (op, b)" by fastforce
  with snoc show ?case by (cases op) (simp_all add: replay_append replay_step_def sorted_put_key sorted_del_key)
qed

lemma journal_mset:
  assumes "trunk_inv d st" and "journal [] st"
  shows "mset (replay (trunk_binlog st)) = image_mset freed (mset (free_blocks st))"
proof -
  have nv: "pairwise (\<lambda>a b. \<not> overlap a b) (set (free_blocks st))" "distinct (checker_blocks (tree_info_by_id st))"
    using checker.no_overlap [of "tree_info_by_id st"] assms(1) inv_set_blocks [OF assms(1)] by (simp_all add: trunk_inv_def)
  have "distinct (free_blocks st)" using assms(1) nv(2) by (metis mset_eq_imp_distinct_iff trunk_inv_def)
  moreover have "inj_on freed (set (free_blocks st))"
  proof (rule inj_onI)
    fix a b assume a: "a \<in> set (free_blocks st)" "b \<in> set (free_blocks st)" "freed a = freed b"
    then have "node_key a = node_key b" by (metis node_key_status)
    then have "overlap a b" using key_overlap mem_block_ok(1) [OF assms(1)] a(1,2) by blast
    then show "a = b" using free_blocks_disjoint [OF assms(1) a(1,2)] by blast
  qed
  ultimately have "distinct (map freed (free_blocks st))" by (simp add: distinct_map)
  moreover have "distinct (replay (trunk_binlog st))" using sorted_key_distinct [OF sorted_replay] by (simp add: distinct_map)
  moreover have "set (replay (trunk_binlog st)) = set (map freed (free_blocks st))" using assms(2) by (simp add: journal_def)
  ultimately have "mset (replay (trunk_binlog st)) = mset (map freed (free_blocks st))" using set_eq_iff_mset_eq_distinct by blast
  then show ?thesis by simp
qed

lemma replay_apart:
  assumes "trunk_inv d st" and "journal [] st" and "length (g_fdfs_store_paths st0) = length (tree_info_by_sizes st)"
  shows "apart (fresh_trees st0) (replay (trunk_binlog st))"
proof -
  let ?l = "replay (trunk_binlog st)"
  have s: "set ?l = freed ` set (free_blocks st)" using assms(2) by (simp add: journal_def)
  have "\<not> overlap b a" if h: "a \<in> set ?l" "b \<in> set ?l" "a \<noteq> b" for a b
  proof
    assume o: "overlap b a"
    obtain a' b' where ab: "a' \<in> set (free_blocks st)" "b' \<in> set (free_blocks st)" "a = freed a'" "b = freed b'" using h(1,2) s by auto
    have "overlap b' a'" using o ab(3,4) by (simp add: overlap_def bend_def FILL_FILE_IDENTIFIER_def)
    then have "b' = a'" by (rule free_blocks_disjoint [OF assms(1) ab(2,1)])
    with ab h(3) show False by simp
  qed
  moreover have "distinct ?l" using sorted_key_distinct [OF sorted_replay] by (simp add: distinct_map)
  ultimately have "sorted_wrt (\<lambda>a b. \<not> overlap b a) ?l"
    by (auto simp: sorted_wrt_iff_nth_less distinct_conv_nth)
  moreover have "placeable (fresh_trees st0) b" if bl: "b \<in> set ?l" for b
  proof -
    obtain c where c: "c \<in> set (free_blocks st)" "b = freed c" using bl s by auto
    show ?thesis using mem_block_ok(1-3) [OF assms(1) c(1)] assms(3) fresh_trees_inv(3) [of st0] c(2) by (simp add: placeable_def [of _ c])
  qed
  ultimately show ?thesis by (simp add: apart_def conflict_def fresh_trees_inv(2))
qed

section \<open>Properties\<close>

text \<open>C3. The binlog is a journal of the free blocks: in every state the trunk server reaches from one whose records replay to its free blocks, by freeing,
  allocating and confirming, replaying the records in order gives exactly the free blocks, held ones as free. This holds whatever the allocations meet
  (split blocks, new trunk files, blocks refused because they overlap).\<close>

theorem trunk_journal_replays:
  assumes "trunk_inv 0 st" and "config_ok st" and "journal [] st" and "logged_step\<^sup>*\<^sup>* st st'"
  shows "mset (replay (trunk_binlog st')) = image_mset (\<lambda>b. b\<lparr>status := FDFS_TRUNK_STATUS_FREE\<rparr>) (mset (free_blocks st'))"
  using logged_reach [OF assms] journal_mset by blast

text \<open>C2. Recovery after a crash: when the data file is lost and the binlog holds the records of a run from an empty state, one line per record, a start in a new
  process reads the whole binlog, ends with every free block of the run that is at least \<open>g_slot_min_size\<close> long, all of them free, has consistent books, and has written
  a data file for the binlog it read.\<close>

theorem trunk_crash_recovery:
  assumes "trunk_inv 0 st0" and "config_ok st0" and "free_blocks st0 = []" and "trunk_binlog st0 = []" and "logged_step\<^sup>*\<^sup>* st0 st"
    and "binlog_file bl = concat (map (\<lambda>(ts, op, b). binlog_line ts (op_char op) b) ls)" and "map snd ls = trunk_binlog st" and "ls \<noteq> []"
    and "\<forall>(ts, op, b) \<in> set ls. int_range ts \<and> 0 \<le> trunk_id (tfile b)"
    and "storage_trunk_get_binlog_size (binlog_stat (restore_save renv)) = int (length (binlog_file bl))"
    and "trunk_binlog_write_version bl \<noteq> 0" and "restore_granted renv"
    and "g_if_trunker_self st1" and "trunk_init_flag st1 = STORAGE_TRUNK_INIT_FLAG_NONE" and "g_trunk_total_free_space st1 = 0"
    and "length (g_fdfs_store_paths st1) = length (tree_info_by_sizes st)"
    and "\<not> g_trunk_init_reload_from_binlog env" and "data_open_errno env = None"
  shows "\<exists>st2. storage_trunk_init st1 0 True env renv bl None =
      Some (st2, Some (data_content (int (length (binlog_file bl))) (free_blocks st2)), 0) \<and> status_ok st2 \<and> trunk_inv 0 st2 \<and>
    mset (free_blocks st2) =
      image_mset (\<lambda>b. b\<lparr>status := FDFS_TRUNK_STATUS_FREE\<rparr>) (filter_mset (\<lambda>b. g_slot_min_size st1 \<le> bsize b) (mset (free_blocks st)))"
proof -
  have "journal [] st0" using assms(3,4) by (simp add: journal_def replay_def)
  from logged_reach [OF assms(1,2) this assms(5)] have inv: "trunk_inv 0 st" and j: "journal [] st" by blast+
  have ok: "log_entry_ok e" if "e \<in> set ls" for e
  proof -
    have "snd e \<in> set (trunk_binlog st)" using that unfolding assms(7) [symmetric] by simp
    then have "block_ok (snd (snd e))" using j by (simp add: journal_def)
    then show ?thesis using assms(9) that block_ok_range by (auto simp: log_entry_ok_def node_ok_def block_ok_def bend_def int_range_def)
  qed
  have fc: "binlog_file bl = concat (map log_line ls)" using assms(6) by (simp add: case_prod_unfold)
  have ap: "apart (fresh_trees st1) (replay (map snd ls))" unfolding assms(7) by (rule replay_apart [OF inv j assms(16)])
  from restore_reload [OF fresh_trees_inv(1) assms(12,11) fc assms(8) _ ap assms(10), of None] ok obtain st2 where
    st2: "storage_trunk_restore (fresh_trees st1) renv bl None 0 = Some (st2, Some (data_content (int (length (binlog_file bl))) (free_blocks st2)), 0)"
      "trunk_inv (g_trunk_total_free_space st1) st2" "grown (fresh_trees st1) (mset (survivors (fresh_trees st1) (replay (trunk_binlog st)))) st2"
    unfolding assms(7) by blast
  let ?st2 = "st2\<lparr>trunk_init_flag := STORAGE_TRUNK_INIT_FLAG_DONE\<rparr>"
  have fb: "free_blocks ?st2 = free_blocks st2" by (simp add: free_blocks_def)
  have "storage_trunk_load (fresh_trees st1) env renv bl None = Some (st2, Some (data_content (int (length (binlog_file bl))) (free_blocks st2)), 0)"
    using assms(17,18) st2(1) by (simp add: storage_trunk_load_def)
  then have "storage_trunk_init st1 0 True env renv bl None = Some (?st2, Some (data_content (int (length (binlog_file bl))) (free_blocks ?st2)), 0)"
    using assms(13,14) by (simp add: storage_trunk_init_def fresh_trees_def fb)
  moreover have "trunk_inv 0 ?st2" using st2(2) assms(15) by (simp add: trunk_inv_def trees_inv_def fb)
  moreover have "status_ok ?st2" using grown_rest [OF st2(3)] assms(13) by (simp add: status_ok_def same_rest_def fresh_trees_inv)
  moreover have "mset (free_blocks ?st2) = image_mset freed (filter_mset (\<lambda>b. g_slot_min_size st1 \<le> bsize b) (mset (free_blocks st)))"
    using st2(3) journal_mset [OF inv j] unfolding fb
    by (simp add: grown_def fresh_trees_inv survivors_def mset_filter filter_mset_image_mset)
  ultimately show ?thesis by blast
qed

text \<open>A server with no free blocks to which one block is given back.\<close>

definition empty_server :: trunk_state where
  "empty_server = (fresh_trees sample_fresh)\<lparr>trunk_init_flag := STORAGE_TRUNK_INIT_FLAG_DONE\<rparr>"

lemma empty_server_ok: "trunk_inv 0 empty_server" "config_ok empty_server" "free_blocks empty_server = []" "trunk_binlog empty_server = []"
  "journal [] empty_server" "length (tree_info_by_sizes empty_server) = 1" "g_slot_min_size empty_server = 64" "status_ok empty_server"
proof -
  have fb: "free_blocks empty_server = free_blocks (fresh_trees sample_fresh)" by (simp add: empty_server_def free_blocks_def)
  show f: "free_blocks empty_server = []" unfolding fb by (rule fresh_trees_inv)
  show "trunk_inv 0 empty_server" using fresh_trees_inv(1) [of sample_fresh]
    by (simp add: sample_fresh_ok) (simp add: empty_server_def trunk_inv_def trees_inv_def free_blocks_def)
  show l: "trunk_binlog empty_server = []" by (simp add: empty_server_def fresh_trees_def sample_fresh_def sample_state_def)
  show "journal [] empty_server" by (simp add: journal_def l f replay_def)
  show "config_ok empty_server" "length (tree_info_by_sizes empty_server) = 1" "g_slot_min_size empty_server = 64" "status_ok empty_server"
    by (simp_all add: empty_server_def config_ok_def status_ok_def fresh_trees_def sample_fresh_def sample_state_def)
qed

lemma one_free_step:
  obtains st where "logged_step\<^sup>*\<^sup>* empty_server st" and "trunk_binlog st = [(TRUNK_OP_TYPE_ADD_SPACE, sample_block 1000 500)]"
    and "mset (free_blocks st) = {#sample_block 1000 500#}" and "length (tree_info_by_sizes st) = 1"
proof -
  let ?b = "sample_block 1000 500"
  have b: "block_ok ?b" "bend ?b < 2 ^ 31 - 1" "path_index ?b < length (tree_info_by_sizes empty_server)"
    by (simp_all add: sample_block_ok) (simp_all add: bend_def sample_block_def path_index_def empty_server_ok)
  have fr: "?b\<lparr>status := FDFS_TRUNK_STATUS_FREE\<rparr> = ?b" by (simp add: sample_block_def)
  have nc: "\<not> conflict empty_server ?b" by (simp add: conflict_def empty_server_ok)
  from add_free_block_spec(2) [OF empty_server_ok(1) b sample_add_granted nc, of True] obtain st where
    st: "trunk_add_free_block empty_server sample_add ?b True = Some (st, 0)" "added empty_server ?b True st"
    by (auto simp: sample_add_def)
  have s: "bsize ?b = 500" by (simp add: sample_block_def)
  have "trunk_free_space empty_server True sample_add ?b True = Some (st, 0)"
    using st(1) fr empty_server_ok(7,8) s by (simp add: trunk_free_space_def status_ok_def)
  then have "logged_step\<^sup>*\<^sup>* empty_server st" using logged_step.free [OF b sample_add_granted] by blast
  with st(2) show ?thesis using that empty_server_ok(3,4,6) by (simp add: added_def same_rest_def)
qed

theorem trunk_journal_replays_witness:
  "\<exists>st. logged_step\<^sup>*\<^sup>* empty_server st \<and> trunk_binlog st \<noteq> [] \<and>
     mset (replay (trunk_binlog st)) = image_mset (\<lambda>b. b\<lparr>status := FDFS_TRUNK_STATUS_FREE\<rparr>) (mset (free_blocks st))"
proof -
  obtain st where st: "logged_step\<^sup>*\<^sup>* empty_server st" "trunk_binlog st = [(TRUNK_OP_TYPE_ADD_SPACE, sample_block 1000 500)]"
    by (rule one_free_step)
  from trunk_journal_replays [OF empty_server_ok(1,2,5) st(1)] st show ?thesis by auto
qed

definition one_record :: binlog where
  "one_record = \<lparr>binlog_file = binlog_line 1400000000 65 (sample_block 1000 500), trunk_binlog_write_cache_buff = [], trunk_binlog_write_version = 1\<rparr>"

definition one_restore :: restore_env where
  "one_restore = sample_restore\<lparr>restore_save := sample_save\<lparr>binlog_stat := Inr (int (length (binlog_file one_record)))\<rparr>\<rparr>"

theorem trunk_crash_recovery_witness:
  "\<exists>st2 df. storage_trunk_init sample_fresh 0 True sample_load one_restore one_record None = Some (st2, Some df, 0) \<and> trunk_inv 0 st2 \<and>
     mset (free_blocks st2) = {#sample_block 1000 500#}"
proof -
  let ?b = "sample_block 1000 500" and ?ls = "[(1400000000, TRUNK_OP_TYPE_ADD_SPACE, sample_block 1000 500)]"
  obtain st where st: "logged_step\<^sup>*\<^sup>* empty_server st" "trunk_binlog st = [(TRUNK_OP_TYPE_ADD_SPACE, ?b)]"
      "mset (free_blocks st) = {#?b#}" "length (tree_info_by_sizes st) = 1"
    by (rule one_free_step)
  have fc: "binlog_file one_record = concat (map (\<lambda>(ts, op, b). binlog_line ts (op_char op) b) ?ls)"
    by (simp add: one_record_def op_char_def)
  have rng: "\<forall>(ts, op, b) \<in> set ?ls. int_range ts \<and> 0 \<le> trunk_id (tfile b)" by (simp add: int_range_def sample_block_def)
  have sz: "storage_trunk_get_binlog_size (binlog_stat (restore_save one_restore)) = int (length (binlog_file one_record))"
    by (simp add: one_restore_def storage_trunk_get_binlog_size_def)
  have g: "restore_granted one_restore" using sample_add_granted
    by (simp add: restore_granted_def one_restore_def sample_restore_def sample_save_def)
  have v: "trunk_binlog_write_version one_record \<noteq> 0" by (simp add: one_record_def)
  have l: "length (g_fdfs_store_paths sample_fresh) = length (tree_info_by_sizes st)" using st(4) by (simp add: sample_fresh_ok)
  have e: "\<not> g_trunk_init_reload_from_binlog sample_load" "data_open_errno sample_load = None" by (simp_all add: sample_load_def)
  have "image_mset (\<lambda>b. b\<lparr>status := FDFS_TRUNK_STATUS_FREE\<rparr>) (filter_mset (\<lambda>b. g_slot_min_size sample_fresh \<le> bsize b) (mset (free_blocks st))) = {#?b#}"
    by (simp add: st(3) sample_fresh_ok) (simp add: sample_block_def)
  then show ?thesis
    using trunk_crash_recovery [OF empty_server_ok(1-4) st(1) fc _ _ rng sz v g sample_fresh_ok(1-3) l e] st(2) by auto
qed

end
