(* ===== verification/Sorted_Array.thy ===== *)
theory Sorted_Array
  imports FDFS_Prelude
begin

text \<open>
  The parts of the C library that the tracker uses to keep arrays in order: \<open>strcmp\<close>, \<open>bsearch\<close> and
  \<open>qsort\<close>, and the loop of \<open>tracker_mem_insert_into_sorted_servers\<close> and
  \<open>tracker_mem_insert_into_sorted_groups\<close> (\<open>tracker/tracker_mem.c\<close>) that shifts the larger entries up.
  A C string is the list of its bytes before the terminating zero. The locale \<open>array_order\<close> is the
  contract of a comparison function; it is interpreted here on \<open>strcmp\<close>, and by the components on
  their own comparison functions.
\<close>

section \<open>strcmp\<close>

text \<open>Only the sign of the result of \<open>strcmp\<close> is specified; bytes compare as unsigned.\<close>

fun strcmp :: "byte list \<Rightarrow> byte list \<Rightarrow> int" where
  "strcmp [] [] = 0"
| "strcmp [] (y # ys) = - 1"
| "strcmp (x # xs) [] = 1"
| "strcmp (x # xs) (y # ys) = (if x = y then strcmp xs ys else uint x - uint y)"

lemma strcmp_less [simp]: "strcmp xs ys < 0 \<longleftrightarrow> xs < ys"
  by (induction xs ys rule: strcmp.induct) (auto simp: word_less_def)

lemma strcmp_eq [simp]: "strcmp xs ys = 0 \<longleftrightarrow> xs = ys"
  by (induction xs ys rule: strcmp.induct) (auto simp: word_uint_eq_iff)

lemma strcmp_greater [simp]: "0 < strcmp xs ys \<longleftrightarrow> ys < xs"
  using strcmp_less [of xs ys] strcmp_eq [of xs ys] by (metis not_less_iff_gr_or_eq)

section \<open>bsearch\<close>

text \<open>
  The search in the half-open range \<open>[l, u)\<close>; \<open>c p\<close> is the result of comparing the searched key with
  the entry \<open>p\<close>. The result is the index of the entry found, \<open>None\<close> for a null pointer.
\<close>

function bsearch_range :: "('p \<Rightarrow> int) \<Rightarrow> 'p list \<Rightarrow> nat \<Rightarrow> nat \<Rightarrow> nat option" where
  "bsearch_range c a l u =
     (if l < u then
        (let i = (l + u) div 2; r = c (a ! i) in
         if r < 0 then bsearch_range c a l i
         else if r > 0 then bsearch_range c a (i + 1) u
         else Some i)
      else None)"
  by pat_completeness auto
termination
  by (relation "measure (\<lambda>(c, a, l, u). u - l)") auto

declare bsearch_range.simps [simp del]

definition bsearch_index :: "('p \<Rightarrow> int) \<Rightarrow> 'p list \<Rightarrow> nat option" where
  "bsearch_index c a = bsearch_range c a 0 (length a)"

definition bsearch :: "('p \<Rightarrow> int) \<Rightarrow> 'p list \<Rightarrow> 'p option" where
  "bsearch c a = map_option (\<lambda>i. a ! i) (bsearch_index c a)"

section \<open>qsort\<close>

text \<open>
  \<open>qsort\<close> as an insertion sort. Where the comparison separates all entries every sorting algorithm
  gives this result (\<open>qsort_unique\<close> below).
\<close>

fun insert_cmp :: "('p \<Rightarrow> 'p \<Rightarrow> int) \<Rightarrow> 'p \<Rightarrow> 'p list \<Rightarrow> 'p list" where
  "insert_cmp c x [] = [x]"
| "insert_cmp c x (y # ys) = (if c x y \<le> 0 then x # y # ys else y # insert_cmp c x ys)"

definition qsort :: "('p \<Rightarrow> 'p \<Rightarrow> int) \<Rightarrow> 'p list \<Rightarrow> 'p list" where
  "qsort c xs = foldr (insert_cmp c) xs []"

section \<open>Insertion into a sorted array\<close>

text \<open>
  The loop runs from the free slot behind the last entry downwards: the entry below the slot moves
  up until it compares smaller than the new one (\<open>c p > 0\<close>), then the new entry takes the slot.
\<close>

fun shift_up :: "('p \<Rightarrow> int) \<Rightarrow> 'p \<Rightarrow> 'p list \<Rightarrow> nat \<Rightarrow> 'p list" where
  "shift_up c t a 0 = a[0 := t]"
| "shift_up c t a (Suc i) = (if c (a ! i) > 0 then a[Suc i := t] else shift_up c t (a[Suc i := a ! i]) i)"

definition insert_into_sorted :: "('p \<Rightarrow> int) \<Rightarrow> 'p \<Rightarrow> 'p list \<Rightarrow> 'p list" where
  "insert_into_sorted c t a = shift_up c t (a @ [t]) (length a)"

text \<open>
  The loop that closes the gap when the entry at index \<open>i\<close> leaves the array; the count drops by one
  after it (\<open>remove_at\<close>).
\<close>

function shift_down :: "'p list \<Rightarrow> nat \<Rightarrow> 'p list" where
  "shift_down a i = (if i + 1 < length a then shift_down (a[i := a ! (i + 1)]) (i + 1) else a)"
  by pat_completeness auto
termination
  by (relation "measure (\<lambda>(a, i). length a - i)") auto

declare shift_down.simps [simp del]

definition remove_at :: "'p list \<Rightarrow> nat \<Rightarrow> 'p list" where
  "remove_at a i = butlast (shift_down a i)"

lemma shift_down_butlast: "i < length a \<Longrightarrow> butlast (shift_down a i) = take i a @ drop (Suc i) a"
proof (induction a i rule: shift_down.induct)
  case (1 a i)
  show ?case
  proof (cases "i + 1 < length a")
    case True
    then have "butlast (shift_down a i) = butlast (shift_down (a[i := a ! (i + 1)]) (i + 1))"
      by (subst shift_down.simps) simp
    also have "\<dots> = take (i + 1) (a[i := a ! (i + 1)]) @ drop (Suc (i + 1)) (a[i := a ! (i + 1)])"
      using 1 True by simp
    also have "\<dots> = take i a @ drop (Suc i) a"
      using True by (simp add: take_Suc_conv_app_nth take_update_cancel Cons_nth_drop_Suc)
    finally show ?thesis .
  next
    case False
    with "1.prems" have "length a = Suc i" by simp
    then show ?thesis by (subst shift_down.simps) (simp add: butlast_conv_take)
  qed
qed

lemma remove_at: "i < length a \<Longrightarrow> remove_at a i = take i a @ drop (Suc i) a"
  by (simp add: remove_at_def shift_down_butlast)

lemma remove_at_filter: "\<lbrakk>distinct a; i < length a\<rbrakk> \<Longrightarrow> remove_at a i = filter (\<lambda>x. x \<noteq> a ! i) a"
proof -
  assume d: "distinct a" "i < length a"
  have split_a: "a = take i a @ a ! i # drop (Suc i) a" using d(2) by (rule id_take_nth_drop)
  have "a ! i \<notin> set (take i a)" "a ! i \<notin> set (drop (Suc i) a)"
    using d(1) split_a by (metis distinct.simps(2) distinct_append disjoint_iff list.set_intros(1))+
  then have "filter (\<lambda>x. x \<noteq> a ! i) (take i a) = take i a"
      "filter (\<lambda>x. x \<noteq> a ! i) (drop (Suc i) a) = drop (Suc i) a"
    by (intro filter_True; fastforce)+
  then have "filter (\<lambda>x. x \<noteq> a ! i) (take i a @ a ! i # drop (Suc i) a) = take i a @ drop (Suc i) a"
    by simp
  with split_a remove_at [OF d(2)] show ?thesis by simp
qed

lemma shift_up_append:
  "i < length a \<Longrightarrow> shift_up c t (a @ b) i = shift_up c t a i @ b"
proof (induction i arbitrary: a)
  case (Suc i)
  then show ?case by (auto simp: nth_append list_update_append)
qed (auto simp: list_update_append)

lemma insert_into_sorted_snoc:
  "insert_into_sorted c t (a @ [p]) = (if c p > 0 then a @ [p, t] else insert_into_sorted c t a @ [p])"
proof -
  have "(a @ [p, t])[Suc (length a) := p] = (a @ [p]) @ [p]" by (simp add: list_update_append)
  moreover have "shift_up c t ((a @ [p]) @ [p]) (length a) = shift_up c t (a @ [p]) (length a) @ [p]"
    by (rule shift_up_append) simp
  moreover have "shift_up c t (a @ [p]) (length a) = shift_up c t (a @ [t]) (length a)"
    by (cases "length a") (auto simp: nth_append list_update_append)
  ultimately show ?thesis
    by (simp add: insert_into_sorted_def nth_append list_update_append)
qed

lemma insert_into_sorted_Nil [simp]: "insert_into_sorted c t [] = [t]"
  by (simp add: insert_into_sorted_def)

lemma mset_insert_into_sorted [simp]: "mset (insert_into_sorted c t a) = add_mset t (mset a)"
  by (induction a rule: rev_induct) (auto simp: insert_into_sorted_snoc)

lemma set_insert_into_sorted [simp]: "set (insert_into_sorted c t a) = insert t (set a)"
  by (metis mset_insert_into_sorted set_mset_add_mset_insert set_mset_mset)

lemma length_insert_into_sorted [simp]: "length (insert_into_sorted c t a) = Suc (length a)"
  by (metis mset_insert_into_sorted size_add_mset size_mset)

lemma mset_insert_cmp [simp]: "mset (insert_cmp c x xs) = add_mset x (mset xs)"
  by (induction xs) auto

lemma mset_qsort [simp]: "mset (qsort c xs) = mset xs"
  by (induction xs) (auto simp: qsort_def)

lemma set_qsort [simp]: "set (qsort c xs) = set xs"
  by (metis mset_qsort set_mset_mset)

lemma length_qsort [simp]: "length (qsort c xs) = length xs"
  by (metis mset_qsort size_mset)

lemma bsearch_range_bounds: "bsearch_range c a l u = Some i \<Longrightarrow> l \<le> i \<and> i < u"
proof (induction c a l u rule: bsearch_range.induct)
  case (1 c a l u)
  then show ?case
    by (subst (asm) (3) bsearch_range.simps) (fastforce simp: Let_def split: if_splits)
qed

lemma bsearch_in_set: "bsearch c a = Some p \<Longrightarrow> p \<in> set a"
  using bsearch_range_bounds [of c a 0 "length a"] by (auto simp: bsearch_def bsearch_index_def)

lemma sorted_key_cong: "\<forall>x \<in> set xs. key x = key' x \<Longrightarrow> sorted_key key xs = sorted_key key' xs"
  by (induction xs) auto

section \<open>Comparison functions\<close>

text \<open>
  A comparison function orders the valid objects by a key of a linear order. \<open>valid\<close> carries what the
  function needs to compute the right sign, such as the range of subtracted integers.
\<close>

locale array_order =
  fixes valid :: "'o \<Rightarrow> bool"
    and key :: "'o \<Rightarrow> 'k::linorder"
    and cmp :: "'o \<Rightarrow> 'o \<Rightarrow> int"
  assumes cmp_less: "\<lbrakk>valid a; valid b\<rbrakk> \<Longrightarrow> cmp a b < 0 \<longleftrightarrow> key a < key b"
    and cmp_eq: "\<lbrakk>valid a; valid b\<rbrakk> \<Longrightarrow> cmp a b = 0 \<longleftrightarrow> key a = key b"
begin

lemma cmp_greater: "\<lbrakk>valid a; valid b\<rbrakk> \<Longrightarrow> 0 < cmp a b \<longleftrightarrow> key b < key a"
  using cmp_less [of a b] cmp_eq [of a b] by (metis not_less_iff_gr_or_eq)

text \<open>\<open>deref\<close> reads the object an array entry points to (the identity for an array of objects).\<close>

lemma bsearch_range_sound:
  "\<lbrakk>valid t; \<forall>p \<in> set a. valid (deref p); u \<le> length a;
    bsearch_range (\<lambda>p. cmp t (deref p)) a l u = Some i\<rbrakk>
   \<Longrightarrow> l \<le> i \<and> i < u \<and> key (deref (a ! i)) = key t"
proof (induction "\<lambda>p. cmp t (deref p)" a l u rule: bsearch_range.induct)
  case (1 a l u)
  have lu: "l < u" using "1.prems"(4) by (subst (asm) bsearch_range.simps) (auto split: if_splits)
  define m where "m = (l + u) div 2"
  have m: "l \<le> m" "m < u" using lu by (auto simp: m_def)
  have v: "valid (deref (a ! m))" using "1.prems" m by auto
  let ?r = "cmp t (deref (a ! m))" and ?c = "\<lambda>p. cmp t (deref p)"
  have found: "(if ?r < 0 then bsearch_range ?c a l m
      else if ?r > 0 then bsearch_range ?c a (m + 1) u else Some m) = Some i"
    using "1.prems"(4) lu by (subst (asm) bsearch_range.simps) (simp add: Let_def m_def split: if_splits)
  consider "?r < 0" | "?r > 0" | "?r = 0" by linarith
  then show ?case
  proof cases
    case 1
    with found "1.hyps"(1) [OF lu m_def refl] "1.prems" m show ?thesis by simp
  next
    case 2
    with found "1.hyps"(2) [OF lu m_def refl] "1.prems" m show ?thesis by simp
  next
    case 3
    with found m cmp_eq [OF "1.prems"(1) v] show ?thesis by simp
  qed
qed

lemma bsearch_range_complete:
  "\<lbrakk>valid t; \<forall>p \<in> set a. valid (deref p); sorted_key (\<lambda>p. key (deref p)) a; u \<le> length a;
    l \<le> j; j < u; key (deref (a ! j)) = key t\<rbrakk>
   \<Longrightarrow> bsearch_range (\<lambda>p. cmp t (deref p)) a l u = Some j"
proof (induction "\<lambda>p. cmp t (deref p)" a l u rule: bsearch_range.induct)
  case (1 a l u)
  have lu: "l < u" using "1.prems" by simp
  define m where "m = (l + u) div 2"
  have m: "l \<le> m" "m < u" using lu by (auto simp: m_def)
  have v: "valid (deref (a ! m))" using "1.prems" m by auto
  have lt: "key (deref (a ! i)) < key (deref (a ! k))" if "i < k" "k < length a" for i k
    using "1.prems"(3) that by (simp add: sorted_key_def sorted_wrt_iff_nth_less)
  consider "j < m" | "j = m" | "m < j" by linarith
  then show ?case
  proof cases
    case 1
    with lt [of j m] "1.prems" m have "cmp t (deref (a ! m)) < 0"
      using cmp_less [OF "1.prems"(1) v] by simp
    with "1.hyps"(1) [OF lu m_def refl] 1 "1.prems" lu m show ?thesis
      by (subst bsearch_range.simps) (simp add: Let_def m_def [symmetric])
  next
    case 2
    with "1.prems" have "cmp t (deref (a ! m)) = 0"
      using cmp_eq [OF "1.prems"(1) v] by simp
    with 2 lu show ?thesis by (subst bsearch_range.simps) (simp add: Let_def m_def [symmetric])
  next
    case 3
    with lt [of m j] "1.prems" m have "0 < cmp t (deref (a ! m))"
      using cmp_greater [OF "1.prems"(1) v] by simp
    with "1.hyps"(2) [OF lu m_def refl] 3 "1.prems" lu m show ?thesis
      by (subst bsearch_range.simps) (simp add: Let_def m_def [symmetric])
  qed
qed

text \<open>On a sorted array \<open>bsearch\<close> finds the entry with the searched key, and nothing else.\<close>

lemma bsearch_iff:
  assumes "valid t" "\<forall>p \<in> set a. valid (deref p)" "sorted_key (\<lambda>p. key (deref p)) a"
  shows "bsearch (\<lambda>p. cmp t (deref p)) a = Some p \<longleftrightarrow> p \<in> set a \<and> key (deref p) = key t"
proof
  assume "bsearch (\<lambda>p. cmp t (deref p)) a = Some p"
  then show "p \<in> set a \<and> key (deref p) = key t"
    using bsearch_range_sound [OF assms(1,2) order_refl] by (auto simp: bsearch_def bsearch_index_def)
next
  assume p: "p \<in> set a \<and> key (deref p) = key t"
  then obtain j where "j < length a" "a ! j = p" by (auto simp: in_set_conv_nth)
  with bsearch_range_complete [OF assms order_refl, of 0 j] p
  show "bsearch (\<lambda>p. cmp t (deref p)) a = Some p" by (simp add: bsearch_def bsearch_index_def)
qed

lemma bsearch_index_iff:
  assumes "valid t" "\<forall>p \<in> set a. valid (deref p)" "sorted_key (\<lambda>p. key (deref p)) a"
  shows "bsearch_index (\<lambda>p. cmp t (deref p)) a = Some i \<longleftrightarrow> i < length a \<and> key (deref (a ! i)) = key t"
  using bsearch_range_sound [OF assms(1,2) order_refl, of 0 i]
    bsearch_range_complete [OF assms order_refl, of 0 i]
  by (auto simp: bsearch_index_def)

lemma bsearch_None:
  assumes "valid t" "\<forall>p \<in> set a. valid (deref p)" "sorted_key (\<lambda>p. key (deref p)) a"
  shows "bsearch (\<lambda>p. cmp t (deref p)) a = None \<longleftrightarrow> key t \<notin> (\<lambda>p. key (deref p)) ` set a"
proof (cases "bsearch (\<lambda>p. cmp t (deref p)) a")
  case None
  then have "key (deref p) \<noteq> key t" if "p \<in> set a" for p
    using bsearch_iff [OF assms, of p] that by simp
  with None show ?thesis by force
next
  case (Some p)
  with bsearch_iff [OF assms, of p] show ?thesis by force
qed

lemma insert_sorted_split:
  assumes "valid (deref t)" "\<forall>p \<in> set a. valid (deref p)" "sorted_key (\<lambda>p. key (deref p)) a"
    and "key (deref t) \<notin> (\<lambda>p. key (deref p)) ` set a"
  shows "insert_into_sorted (\<lambda>p. cmp (deref t) (deref p)) t a = put_key (\<lambda>p. key (deref p)) t a"
  using assms
proof (induction a rule: rev_induct)
  case (snoc p a)
  have gr: "0 < cmp (deref t) (deref p) \<longleftrightarrow> key (deref p) < key (deref t)"
    using snoc.prems cmp_greater by simp
  show ?case
  proof (cases "key (deref p) < key (deref t)")
    case True
    with snoc.prems have "\<forall>q \<in> set a. key (deref q) < key (deref t)" by fastforce
    with True gr show ?thesis
      by (simp add: insert_into_sorted_snoc put_key_def keys_below_all keys_above_none less_imp_le)
  next
    case False
    with snoc.prems have "key (deref t) < key (deref p)" by fastforce
    with False gr snoc show ?thesis by (auto simp: insert_into_sorted_snoc put_key_def)
  qed
qed (simp add: put_key_def)

lemma sorted_insert_into_sorted:
  assumes "valid (deref t)" "\<forall>p \<in> set a. valid (deref p)" "sorted_key (\<lambda>p. key (deref p)) a"
    and "key (deref t) \<notin> (\<lambda>p. key (deref p)) ` set a"
  shows "sorted_key (\<lambda>p. key (deref p)) (insert_into_sorted (\<lambda>p. cmp (deref t) (deref p)) t a)"
  using insert_sorted_split [OF assms] assms(3)
  by (auto simp: put_key_def keys_below_def keys_above_def)

lemma sorted_insert_cmp:
  assumes "valid (deref x)" "\<forall>p \<in> set xs. valid (deref p)"
    and "sorted_wrt (\<lambda>p q. key (deref p) \<le> key (deref q)) xs"
  shows "sorted_wrt (\<lambda>p q. key (deref p) \<le> key (deref q)) (insert_cmp (\<lambda>p q. cmp (deref p) (deref q)) x xs)"
  using assms
proof (induction xs)
  case (Cons y ys)
  have le: "cmp (deref x) (deref y) \<le> 0 \<longleftrightarrow> key (deref x) \<le> key (deref y)"
    using Cons.prems cmp_greater [of "deref x" "deref y"] by (simp add: not_less [symmetric])
  have set_ins: "set (insert_cmp (\<lambda>p q. cmp (deref p) (deref q)) x ys) = insert x (set ys)"
    by (metis mset_insert_cmp set_mset_add_mset_insert set_mset_mset)
  show ?case
    using Cons le by (auto simp: set_ins intro: order_trans)
qed simp

lemma sorted_qsort:
  assumes "\<forall>p \<in> set xs. valid (deref p)"
  shows "sorted_wrt (\<lambda>p q. key (deref p) \<le> key (deref q)) (qsort (\<lambda>p q. cmp (deref p) (deref q)) xs)"
  using assms
proof (induction xs)
  case (Cons x xs)
  then show ?case
    using sorted_insert_cmp [of deref x "qsort (\<lambda>p q. cmp (deref p) (deref q)) xs"]
    by (simp add: qsort_def) (metis qsort_def set_qsort)
qed (simp add: qsort_def)

lemma sorted_key_qsort:
  assumes "\<forall>p \<in> set xs. valid (deref p)" "distinct (map (\<lambda>p. key (deref p)) xs)"
  shows "sorted_key (\<lambda>p. key (deref p)) (qsort (\<lambda>p q. cmp (deref p) (deref q)) xs)"
proof -
  let ?ys = "qsort (\<lambda>p q. cmp (deref p) (deref q)) xs"
  have "mset (map (\<lambda>p. key (deref p)) ?ys) = mset (map (\<lambda>p. key (deref p)) xs)" by simp
  with assms(2) have d: "distinct (map (\<lambda>p. key (deref p)) ?ys)"
    using mset_eq_imp_distinct_iff by blast
  have s: "sorted (map (\<lambda>p. key (deref p)) ?ys)"
    using sorted_qsort [OF assms(1)] by (simp add: sorted_wrt_map)
  have "sorted_wrt (<) (map (\<lambda>p. key (deref p)) ?ys)"
    using strict_sorted_iff d s by blast
  then show ?thesis by (simp add: sorted_key_def sorted_wrt_map)
qed

text \<open>Any algorithm that returns a sorted permutation returns this list when the keys are distinct.\<close>

lemma qsort_unique:
  assumes "\<forall>p \<in> set xs. valid (deref p)" "distinct (map (\<lambda>p. key (deref p)) xs)"
    and "mset ys = mset xs" "sorted_key (\<lambda>p. key (deref p)) ys"
  shows "ys = qsort (\<lambda>p q. cmp (deref p) (deref q)) xs"
proof -
  let ?zs = "qsort (\<lambda>p q. cmp (deref p) (deref q)) xs" and ?k = "\<lambda>p. key (deref p)"
  have z: "sorted_key ?k ?zs" by (rule sorted_key_qsort [OF assms(1,2)])
  have s: "sorted_wrt (<) (map ?k ys)" "sorted_wrt (<) (map ?k ?zs)"
    using assms(4) z by (simp_all add: sorted_key_def sorted_wrt_map)
  have "set ys = set ?zs" using assms(3) by (metis set_mset_mset set_qsort)
  then have "map ?k ys = map ?k ?zs"
    using s by (metis set_map strict_sorted_equal)
  moreover have "inj_on ?k (set ys \<union> set ?zs)"
    using \<open>set ys = set ?zs\<close> sorted_key_inj [OF z] by (auto simp: inj_on_def)
  ultimately show ?thesis by (simp add: inj_on_map_eq_map)
qed

end

text \<open>\<open>strcmp\<close> orders C strings by the lexicographic order of their bytes.\<close>

interpretation strcmp_order: array_order "\<lambda>_. True" "\<lambda>s. s" strcmp
  by unfold_locales simp_all

end
