(* ===== verification/Storage_Ids.thy ===== *)
theory Storage_Ids
  imports Trunk_Binlog Sorted_Array "HOL-Library.Product_Lexorder"
begin

text \<open>
  The table of server ids in \<open>tracker/fdfs_shared_func.c\<close>: the parser of \<open>storage_ids.conf\<close>
  (\<open>fdfs_load_storage_ids\<close>), the two sorted views of the table and the look-ups by id and by address.
  Resolving a host name (\<open>getIpaddrByName\<close>, the resolver of the system) is the parameter \<open>resolve\<close>;
  the outcome of the three allocations is the parameter \<open>mem\<close>.
\<close>

section \<open>Server ids\<close>

abbreviation (input) FDFS_MAX_SERVER_ID :: int where "FDFS_MAX_SERVER_ID \<equiv> 2 ^ 24 - 1"

definition fdfs_is_server_id_valid :: "byte list \<Rightarrow> bool" where
  "fdfs_is_server_id_valid sid =
     (if sid = [] then False
      else (let (n, endptr) = strtol sid 10 in
            if endptr \<noteq> [] then False
            else if n \<le> 0 \<or> n > FDFS_MAX_SERVER_ID then False
            else strcmp (take 15 (print_dec (nat n))) sid = 0))"

datatype server_id_type = FDFS_ID_TYPE_SERVER_ID | FDFS_ID_TYPE_IP_ADDRESS

definition fdfs_get_server_id_type :: "int \<Rightarrow> server_id_type" where
  "fdfs_get_server_id_type sid =
     (if sid > 0 \<and> sid \<le> FDFS_MAX_SERVER_ID then FDFS_ID_TYPE_SERVER_ID else FDFS_ID_TYPE_IP_ADDRESS)"

section \<open>The table\<close>

record FDFSStorageIdInfo =
  si_id :: "byte list"
  si_group_name :: "byte list"
  si_ip_addr :: "byte list"

text \<open>
  \<open>g_storage_ids_by_ip\<close> holds the entries themselves, \<open>g_storage_ids_by_id\<close> pointers to them, here
  their indices in the first array. \<open>g_storage_id_count\<close> is the length of both.
\<close>

record storage_id_table =
  g_storage_ids_by_ip :: "FDFSStorageIdInfo list"
  g_storage_ids_by_id :: "nat list"

definition fdfs_cmp_group_name_and_ip :: "FDFSStorageIdInfo \<Rightarrow> FDFSStorageIdInfo \<Rightarrow> int" where
  "fdfs_cmp_group_name_and_ip p1 p2 =
     (let result = strcmp (si_group_name p1) (si_group_name p2) in
      if result \<noteq> 0 then result else strcmp (si_ip_addr p1) (si_ip_addr p2))"

definition fdfs_cmp_server_id :: "FDFSStorageIdInfo \<Rightarrow> FDFSStorageIdInfo \<Rightarrow> int" where
  "fdfs_cmp_server_id p1 p2 = strcmp (si_id p1) (si_id p2)"

text \<open>\<open>snprintf\<close> into the fields cuts a group name at 23 bytes and an address or an id at 15.\<close>

definition fdfs_get_storage_id_by_ip :: "storage_id_table \<Rightarrow> byte list \<Rightarrow> byte list \<Rightarrow> FDFSStorageIdInfo option" where
  "fdfs_get_storage_id_by_ip s group_name pIpAddr =
     (let target = \<lparr>si_id = [], si_group_name = take 23 group_name, si_ip_addr = take 15 pIpAddr\<rparr> in
      bsearch (\<lambda>p. fdfs_cmp_group_name_and_ip target p) (g_storage_ids_by_ip s))"

definition fdfs_get_storage_by_id :: "storage_id_table \<Rightarrow> byte list \<Rightarrow> FDFSStorageIdInfo option" where
  "fdfs_get_storage_by_id s sid =
     (let target = \<lparr>si_id = take 15 sid, si_group_name = [], si_ip_addr = []\<rparr> in
      map_option (\<lambda>i. g_storage_ids_by_ip s ! i)
        (bsearch (\<lambda>i. fdfs_cmp_server_id target (g_storage_ids_by_ip s ! i)) (g_storage_ids_by_id s)))"

definition fdfs_check_storage_id :: "storage_id_table \<Rightarrow> byte list \<Rightarrow> byte list \<Rightarrow> int" where
  "fdfs_check_storage_id s group_name sid =
     (case fdfs_get_storage_by_id s sid of
        None \<Rightarrow> ENOENT
      | Some pFound \<Rightarrow> if strcmp (si_group_name pFound) group_name = 0 then 0 else EINVAL)"

section \<open>Loading the table\<close>

definition is_sep :: "byte \<Rightarrow> bool" where
  "is_sep c \<longleftrightarrow> c = 32 \<or> c = 9"

text \<open>One line \<open>id group_name ip_or_host\<close>, trimmed before.\<close>

definition load_storage_id_line :: "(byte list \<Rightarrow> byte list option) \<Rightarrow> byte list \<Rightarrow> int + FDFSStorageIdInfo" where
  "load_storage_id_line resolve line =
     (let sid = takeWhile (\<lambda>c. \<not> is_sep c) line;
          rest = dropWhile (\<lambda>c. \<not> is_sep c) line in
      if rest = [] then Inl EINVAL
      else
        (let p = dropWhile is_sep (tl rest);
             group_name = takeWhile (\<lambda>c. \<not> is_sep c) p;
             rest = dropWhile (\<lambda>c. \<not> is_sep c) p in
         if rest = [] then Inl EINVAL
         else
           (let pIpAddr = dropWhile is_sep (tl rest) in
            case resolve pIpAddr of
              None \<Rightarrow> Inl EINVAL
            | Some ip \<Rightarrow>
                if \<not> fdfs_is_server_id_valid sid then Inl EINVAL
                else Inr \<lparr>si_id = take 15 sid, si_group_name = take 23 group_name, si_ip_addr = take 15 ip\<rparr>)))"

definition is_comment :: "byte list \<Rightarrow> bool" where
  "is_comment line \<longleftrightarrow> line = [] \<or> hd line = 35"

fun load_storage_id_lines :: "(byte list \<Rightarrow> byte list option) \<Rightarrow> byte list list \<Rightarrow> int + FDFSStorageIdInfo list" where
  "load_storage_id_lines resolve [] = Inr []"
| "load_storage_id_lines resolve (line # lines) =
     (if is_comment line then load_storage_id_lines resolve lines
      else
        (case load_storage_id_line resolve line of
           Inl e \<Rightarrow> Inl e
         | Inr info \<Rightarrow>
             (case load_storage_id_lines resolve lines of
                Inl e \<Rightarrow> Inl e
              | Inr infos \<Rightarrow> Inr (info # infos))))"

definition fdfs_load_storage_ids ::
    "bool \<times> bool \<times> bool \<Rightarrow> (byte list \<Rightarrow> byte list option) \<Rightarrow> byte list \<Rightarrow> int + storage_id_table" where
  "fdfs_load_storage_ids mem resolve content =
     (case mem of (mem_lines, mem_by_ip, mem_by_id) \<Rightarrow>
      (case split mem_lines content 10 0 of
         None \<Rightarrow> Inl ENOMEM
       | Some lines \<Rightarrow>
           if lines = [] then Inl ENOMEM
           else
             (let lines = map trim lines in
              if filter (\<lambda>line. \<not> is_comment line) lines = [] then Inl ENOENT
              else if \<not> mem_by_ip then Inl ENOMEM
              else if \<not> mem_by_id then Inl ENOMEM
              else
                (case load_storage_id_lines resolve lines of
                   Inl e \<Rightarrow> Inl e
                 | Inr infos \<Rightarrow>
                     (let by_ip = qsort fdfs_cmp_group_name_and_ip infos in
                      Inr \<lparr>g_storage_ids_by_ip = by_ip,
                           g_storage_ids_by_id =
                             qsort (\<lambda>i j. fdfs_cmp_server_id (by_ip ! i) (by_ip ! j)) [0..<length infos]\<rparr>)))))"

section \<open>Correctness\<close>

interpretation group_ip: array_order "\<lambda>_. True" "\<lambda>p. (si_group_name p, si_ip_addr p)" fdfs_cmp_group_name_and_ip
  by unfold_locales (auto simp: fdfs_cmp_group_name_and_ip_def Let_def)

interpretation server_id: array_order "\<lambda>_. True" si_id fdfs_cmp_server_id
  by unfold_locales (auto simp: fdfs_cmp_server_id_def)

text \<open>What the file says: the entries of its significant lines, in the order of the file.\<close>

definition config_entries :: "(byte list \<Rightarrow> byte list option) \<Rightarrow> byte list \<Rightarrow> FDFSStorageIdInfo list" where
  "config_entries resolve content =
     map (\<lambda>line. projr (load_storage_id_line resolve line))
       (filter (\<lambda>line. \<not> is_comment line) (map trim (splitEx content 10 (getOccurCount content 10 + 1))))"

lemma load_lines_Inr:
  "load_storage_id_lines resolve lines = Inr infos \<Longrightarrow>
   infos = map (\<lambda>line. projr (load_storage_id_line resolve line)) (filter (\<lambda>line. \<not> is_comment line) lines)"
  by (induction lines arbitrary: infos) (auto split: if_splits sum.splits)

lemma load_storage_ids_table:
  assumes "fdfs_load_storage_ids mem resolve content = Inr s"
  defines "es \<equiv> config_entries resolve content"
  shows "g_storage_ids_by_ip s = qsort fdfs_cmp_group_name_and_ip es"
    and "g_storage_ids_by_id s =
      qsort (\<lambda>i j. fdfs_cmp_server_id (g_storage_ids_by_ip s ! i) (g_storage_ids_by_ip s ! j)) [0..<length es]"
proof -
  obtain m1 m2 m3 where mem: "mem = (m1, m2, m3)" by (cases mem)
  have sp: "split m1 content 10 0 = Some (if m1 then splitEx content 10 (getOccurCount content 10 + 1) else [])"
    using split_equals_splitEx [of m1 content 10 0] by simp
  let ?ls = "map trim (splitEx content 10 (getOccurCount content 10 + 1))"
  from assms(1) obtain infos where l: "load_storage_id_lines resolve ?ls = Inr infos"
    and s: "s = \<lparr>g_storage_ids_by_ip = qsort fdfs_cmp_group_name_and_ip infos,
      g_storage_ids_by_id = qsort (\<lambda>i j. fdfs_cmp_server_id (qsort fdfs_cmp_group_name_and_ip infos ! i)
        (qsort fdfs_cmp_group_name_and_ip infos ! j)) [0..<length infos]\<rparr>"
    by (auto simp: fdfs_load_storage_ids_def mem sp Let_def split: if_splits sum.splits)
  have "infos = es" using load_lines_Inr [OF l] by (simp add: es_def config_entries_def)
  with s show "g_storage_ids_by_ip s = qsort fdfs_cmp_group_name_and_ip es"
    and "g_storage_ids_by_id s =
      qsort (\<lambda>i j. fdfs_cmp_server_id (g_storage_ids_by_ip s ! i) (g_storage_ids_by_ip s ! j)) [0..<length es]"
    by simp_all
qed

lemma find_unique:
  "\<lbrakk>distinct (map f xs); x \<in> set xs; f x = k\<rbrakk> \<Longrightarrow> find (\<lambda>x. f x = k) xs = Some x"
  by (induction xs) (auto simp: image_iff)

lemma find_absent: "\<forall>x \<in> set xs. f x \<noteq> k \<Longrightarrow> find (\<lambda>x. f x = k) xs = None"
  by (simp add: find_None_iff)

text \<open>A look-up in a sorted view of a list is a search for the key in the list.\<close>

lemma bsearch_find:
  assumes "\<And>p. b = Some p \<longleftrightarrow> p \<in> set xs \<and> f p = k" and "distinct (map f xs)"
  shows "b = find (\<lambda>x. f x = k) xs"
proof (cases b)
  case None
  with assms(1) have "\<forall>x \<in> set xs. f x \<noteq> k" by auto
  with None show ?thesis by (simp add: find_absent)
next
  case (Some p)
  with assms(1) [of p] find_unique [OF assms(2), of p k] show ?thesis by simp
qed

lemma storage_ids_by_ip_find:
  assumes "fdfs_load_storage_ids mem resolve content = Inr s"
  defines "es \<equiv> config_entries resolve content"
  assumes "distinct (map (\<lambda>e. (si_group_name e, si_ip_addr e)) es)"
  shows "fdfs_get_storage_id_by_ip s g a =
    find (\<lambda>e. (si_group_name e, si_ip_addr e) = (take 23 g, take 15 a)) es"
proof (rule bsearch_find)
  have t: "g_storage_ids_by_ip s = qsort fdfs_cmp_group_name_and_ip es"
    using load_storage_ids_table(1) [OF assms(1)] by (simp add: es_def)
  have "sorted_key (\<lambda>p. (si_group_name p, si_ip_addr p)) (qsort fdfs_cmp_group_name_and_ip es)"
    using group_ip.sorted_key_qsort [where xs = es and deref = "\<lambda>p. p"] assms(3) by simp
  then show "fdfs_get_storage_id_by_ip s g a = Some p \<longleftrightarrow>
      p \<in> set es \<and> (si_group_name p, si_ip_addr p) = (take 23 g, take 15 a)" for p
    using group_ip.bsearch_iff [where a = "qsort fdfs_cmp_group_name_and_ip es" and deref = "\<lambda>p. p"]
    by (simp add: fdfs_get_storage_id_by_ip_def Let_def t)
  show "distinct (map (\<lambda>e. (si_group_name e, si_ip_addr e)) es)" by (rule assms(3))
qed

lemma storage_by_id_find:
  assumes "fdfs_load_storage_ids mem resolve content = Inr s"
  defines "es \<equiv> config_entries resolve content"
  assumes "distinct (map si_id es)"
  shows "fdfs_get_storage_by_id s i = find (\<lambda>e. si_id e = take 15 i) es"
proof (rule bsearch_find)
  let ?a = "g_storage_ids_by_ip s" and ?deref = "\<lambda>i. g_storage_ids_by_ip s ! i"
  have t: "mset ?a = mset es"
    using load_storage_ids_table(1) [OF assms(1)] by (simp add: es_def)
  then have len: "length ?a = length es" and set_a: "set ?a = set es"
    using mset_eq_length mset_eq_setD by blast+
  have by_id: "g_storage_ids_by_id s = qsort (\<lambda>i j. fdfs_cmp_server_id (?deref i) (?deref j)) [0..<length ?a]"
    using load_storage_ids_table(2) [OF assms(1)] len by (simp add: es_def)
  have m: "map (\<lambda>i. si_id (?deref i)) [0..<length ?a] = map si_id ?a"
    by (rule nth_equalityI) simp_all
  have "mset (map si_id ?a) = mset (map si_id es)" using t by simp
  from mset_eq_imp_distinct_iff [OF this] assms(3)
  have "distinct (map (\<lambda>i. si_id (?deref i)) [0..<length ?a])" by (simp only: m)
  then have "sorted_key (\<lambda>i. si_id (?deref i)) (g_storage_ids_by_id s)"
    unfolding by_id using server_id.sorted_key_qsort [where xs = "[0..<length ?a]" and deref = ?deref] by simp
  then have b: "bsearch (\<lambda>i. fdfs_cmp_server_id t (?deref i)) (g_storage_ids_by_id s) = Some j \<longleftrightarrow>
      j < length ?a \<and> si_id (?deref j) = si_id t" for t j
    using server_id.bsearch_iff [where t = t and a = "g_storage_ids_by_id s" and deref = ?deref and p = j] by (simp add: by_id)
  show "fdfs_get_storage_by_id s i = Some p \<longleftrightarrow> p \<in> set es \<and> si_id p = take 15 i" for p
  proof -
    have "p \<in> set es \<longleftrightarrow> (\<exists>j < length ?a. ?deref j = p)"
      using set_a by (metis in_set_conv_nth)
    then show ?thesis by (auto simp: fdfs_get_storage_by_id_def b)
  qed
  show "distinct (map si_id es)" by (rule assms(3))
qed

lemma strtol_print_dec: "int n < 2 ^ 63 \<Longrightarrow> strtol (print_dec n) 10 = (int n, [])"
proof -
  assume n: "int n < 2 ^ 63"
  obtain c ds where p: "print_dec n = c # ds" using print_dec_nonempty by (cases "print_dec n") auto
  have d: "\<forall>c \<in> set (print_dec n). 48 \<le> c \<and> c \<le> 57" using print_dec_digits by blast
  then have c: "digit_val c < 10" "\<not> is_space c" "c \<noteq> 45" "c \<noteq> 43" using digit_char [of c] p by auto
  have tw: "takeWhile (\<lambda>c. digit_val c < 10) (print_dec n) = print_dec n"
    using take_digits [of "print_dec n" "[]"] d digit_char by auto
  have v: "digits_val 10 (c # ds) = int n" using print_dec_value [of n] p by simp
  have tw': "takeWhile (\<lambda>c. digit_val c < 10) ds = ds" using tw c by (simp add: p)
  from c v n show ?thesis by (simp add: strtol_def Let_def p tw')
qed

lemma print_dec_id_length: "int n \<le> FDFS_MAX_SERVER_ID \<Longrightarrow> length (print_dec n) \<le> 8"
  using print_dec_length [of n 8] by simp

lemma server_id_valid_iff:
  "fdfs_is_server_id_valid sid \<longleftrightarrow> (\<exists>n. 0 < n \<and> int n \<le> FDFS_MAX_SERVER_ID \<and> sid = print_dec n)"
proof
  assume v: "fdfs_is_server_id_valid sid"
  obtain n e where ne: "strtol sid 10 = (n, e)" by fastforce
  with v have n: "0 < n" "n \<le> FDFS_MAX_SERVER_ID" "take 15 (print_dec (nat n)) = sid"
    by (auto simp: fdfs_is_server_id_valid_def split: if_splits)
  then have "length (print_dec (nat n)) \<le> 8" using print_dec_id_length [of "nat n"] by simp
  with n show "\<exists>n. 0 < n \<and> int n \<le> FDFS_MAX_SERVER_ID \<and> sid = print_dec n"
    by (intro exI [of _ "nat n"]) auto
next
  assume "\<exists>n. 0 < n \<and> int n \<le> FDFS_MAX_SERVER_ID \<and> sid = print_dec n"
  then obtain n where n: "0 < n" "int n \<le> FDFS_MAX_SERVER_ID" "sid = print_dec n" by blast
  then show "fdfs_is_server_id_valid sid"
    using print_dec_id_length [of n] strtol_print_dec [of n] print_dec_nonempty [of n]
    by (simp add: fdfs_is_server_id_valid_def)
qed

section \<open>Properties\<close>

text \<open>A server id of the configuration file is accepted exactly when it is the decimal numeral,
  without sign and leading zeros, of a number between 1 and \<open>FDFS_MAX_SERVER_ID\<close>.\<close>

theorem fdfs_is_server_id_valid_correct:
  "fdfs_is_server_id_valid sid \<longleftrightarrow> sid \<in> print_dec ` {n. 0 < n \<and> int n \<le> FDFS_MAX_SERVER_ID}"
  using server_id_valid_iff by auto

text \<open>C25. After \<open>fdfs_load_storage_ids\<close> has read a file without repeated ids and without repeated
  pairs of group and address, the two binary searches return exactly the entry of the file with the
  asked id, or with the asked group and address, and nothing when the file has none.\<close>

theorem storage_ids_lookup:
  assumes "fdfs_load_storage_ids mem resolve content = Inr s"
    and "distinct (map si_id (config_entries resolve content))"
    and "distinct (map (\<lambda>e. (si_group_name e, si_ip_addr e)) (config_entries resolve content))"
  shows "(fdfs_get_storage_by_id s i, fdfs_get_storage_id_by_ip s g a) =
    (find (\<lambda>e. si_id e = take 15 i) (config_entries resolve content),
     find (\<lambda>e. (si_group_name e, si_ip_addr e) = (take 23 g, take 15 a)) (config_entries resolve content))"
  using storage_by_id_find [OF assms(1,2)] storage_ids_by_ip_find [OF assms(1,3)] by simp

text \<open>The lines \<open>2 g b\<close>, \<open># x\<close> and \<open>1 g c\<close>; every name resolves to itself.\<close>

definition ids_file :: "byte list" where
  "ids_file = [50, 32, 103, 32, 98, 10, 35, 32, 120, 10, 32, 49, 9, 103, 32, 32, 99, 13]"

lemma ids_file_lines:
  "map trim (splitEx ids_file 10 (getOccurCount ids_file 10 + 1)) = [[50, 32, 103, 32, 98], [35, 32, 120], [49, 9, 103, 32, 32, 99]]"
  by code_simp

lemma ids_file_load:
  "fdfs_load_storage_ids (True, True, True) Some ids_file = Inr \<lparr>g_storage_ids_by_ip =
     [\<lparr>si_id = [50], si_group_name = [103], si_ip_addr = [98]\<rparr>, \<lparr>si_id = [49], si_group_name = [103], si_ip_addr = [99]\<rparr>],
     g_storage_ids_by_id = [1, 0]\<rparr>"
  by code_simp

lemma ids_file_entries:
  "config_entries Some ids_file =
     [\<lparr>si_id = [50], si_group_name = [103], si_ip_addr = [98]\<rparr>, \<lparr>si_id = [49], si_group_name = [103], si_ip_addr = [99]\<rparr>]"
  by code_simp

theorem storage_ids_lookup_witness:
  "\<exists>s. fdfs_load_storage_ids (True, True, True) Some ids_file = Inr s \<and>
     (fdfs_get_storage_by_id s [50], fdfs_get_storage_id_by_ip s [103] [97]) =
     (Some \<lparr>si_id = [50], si_group_name = [103], si_ip_addr = [98]\<rparr>, None)"
  using storage_ids_lookup [OF ids_file_load, of "[50]" "[103]" "[97]"]
  by (simp add: ids_file_load ids_file_entries)

end
