(* ===== verification/Tracker_Mem.thy ===== *)
theory Tracker_Mem
  imports Storage_Ids
begin

text \<open>
  The storage groups of the tracker (\<open>tracker/tracker_mem.c\<close>, \<open>tracker/tracker_types.h\<close>): the records
  of a storage server, of a group and of the table of groups, and the operations on one group. A pointer
  to a \<open>FDFSStorageDetail\<close> is the index of the object in \<open>all_servers\<close>, which never moves; \<open>sorted_servers\<close>
  and \<open>active_servers\<close> are lists of such pointers. The counts \<open>count\<close> and \<open>active_count\<close> are the lengths
  of the lists, \<open>alloc_size\<close> is kept. The mutexes only guard these operations, each of which is one
  atomic step here; the change counters are unbounded integers.

  What leaves the process is in the record \<open>tracker_env\<close>: the answers of storage servers
  (\<open>tracker_mem_get_trunk_binlog_size\<close>, \<open>fdfs_deal_no_body_cmd_ex\<close>), the results of writing the files of
  the tracker and of allocating memory. The build is the one without \<open>WITH_HTTPD\<close>.
\<close>

section \<open>Constants\<close>

abbreviation (input) FDFS_STORAGE_STATUS_INIT :: int where "FDFS_STORAGE_STATUS_INIT \<equiv> 0"
abbreviation (input) FDFS_STORAGE_STATUS_WAIT_SYNC :: int where "FDFS_STORAGE_STATUS_WAIT_SYNC \<equiv> 1"
abbreviation (input) FDFS_STORAGE_STATUS_SYNCING :: int where "FDFS_STORAGE_STATUS_SYNCING \<equiv> 2"
abbreviation (input) FDFS_STORAGE_STATUS_IP_CHANGED :: int where "FDFS_STORAGE_STATUS_IP_CHANGED \<equiv> 3"
abbreviation (input) FDFS_STORAGE_STATUS_DELETED :: int where "FDFS_STORAGE_STATUS_DELETED \<equiv> 4"
abbreviation (input) FDFS_STORAGE_STATUS_OFFLINE :: int where "FDFS_STORAGE_STATUS_OFFLINE \<equiv> 5"
abbreviation (input) FDFS_STORAGE_STATUS_ONLINE :: int where "FDFS_STORAGE_STATUS_ONLINE \<equiv> 6"
abbreviation (input) FDFS_STORAGE_STATUS_ACTIVE :: int where "FDFS_STORAGE_STATUS_ACTIVE \<equiv> 7"
abbreviation (input) FDFS_STORAGE_STATUS_RECOVERY :: int where "FDFS_STORAGE_STATUS_RECOVERY \<equiv> 9"
abbreviation (input) FDFS_STORAGE_STATUS_NONE :: int where "FDFS_STORAGE_STATUS_NONE \<equiv> 99"

abbreviation (input) FDFS_STORE_SERVER_ROUND_ROBIN :: int where "FDFS_STORE_SERVER_ROUND_ROBIN \<equiv> 0"
abbreviation (input) FDFS_STORE_SERVER_FIRST_BY_IP :: int where "FDFS_STORE_SERVER_FIRST_BY_IP \<equiv> 1"
abbreviation (input) FDFS_STORE_SERVER_FIRST_BY_PRI :: int where "FDFS_STORE_SERVER_FIRST_BY_PRI \<equiv> 2"

abbreviation (input) EBUSY :: int where "EBUSY \<equiv> 16"
abbreviation (input) ENONET :: int where "ENONET \<equiv> 64"
abbreviation (input) EOPNOTSUPP :: int where "EOPNOTSUPP \<equiv> 95"
abbreviation (input) EALREADY :: int where "EALREADY \<equiv> 114"

abbreviation (input) TRACKER_MEM_ALLOC_ONCE :: nat where "TRACKER_MEM_ALLOC_ONCE \<equiv> 2"
abbreviation (input) FDFS_MAX_SERVERS_EACH_GROUP :: nat where "FDFS_MAX_SERVERS_EACH_GROUP \<equiv> 32"

section \<open>Servers and groups\<close>

text \<open>
  The 38 counters of \<open>FDFSStorageStat\<close>, from \<open>total_upload_count\<close> to \<open>success_file_write_count\<close> in the
  order of the struct, are one list; the four time stamps are fields of their own.
\<close>

record FDFSStorageStat =
  st_counters :: "int list"
  st_last_source_update :: int
  st_last_sync_update :: int
  st_last_synced_timestamp :: int
  st_last_heart_beat_time :: int

record FDFSStorageDetail =
  sd_status :: int
  sd_id :: "byte list"
  sd_ip_addr :: "byte list"
  sd_version :: "byte list"
  sd_domain_name :: "byte list"
  sd_psync_src_server :: "nat option"
  sd_path_total_mbs :: "int list"
  sd_path_free_mbs :: "int list"
  sd_total_mb :: int
  sd_free_mb :: int
  sd_changelog_offset :: int
  sd_sync_until_timestamp :: int
  sd_join_time :: int
  sd_up_time :: int
  sd_store_path_count :: int
  sd_subdir_count_per_path :: int
  sd_upload_priority :: int
  sd_storage_port :: int
  sd_storage_http_port :: int
  sd_current_write_path :: int
  sd_chg_count :: int
  sd_trunk_chg_count :: int
  sd_stat :: FDFSStorageStat

record FDFSGroupInfo =
  gi_group_name :: "byte list"
  gi_total_mb :: int
  gi_free_mb :: int
  gi_trunk_free_mb :: int
  gi_alloc_size :: nat
  gi_storage_port :: int
  gi_storage_http_port :: int
  gi_current_trunk_file_id :: int
  gi_all_servers :: "FDFSStorageDetail list"
  gi_sorted_servers :: "nat list"
  gi_active_servers :: "nat list"
  gi_pStoreServer :: "nat option"
  gi_pTrunkServer :: "nat option"
  gi_last_trunk_server_id :: "byte list"
  gi_current_read_server :: int
  gi_current_write_server :: int
  gi_store_path_count :: int
  gi_subdir_count_per_path :: int
  gi_last_sync_timestamps :: "int list list"
  gi_chg_count :: int
  gi_trunk_chg_count :: int

record FDFSStorageBrief =
  br_status :: int
  br_id :: "byte list"
  br_ip_addr :: "byte list"

text \<open>The globals the operations read, and the world outside the process.\<close>

record tracker_env =
  g_use_storage_id :: bool
  g_storage_ids :: storage_id_table
  g_if_leader_self :: bool
  g_if_use_trunk_file :: bool
  g_store_server :: int
  g_current_time :: int
  g_check_active_interval :: int
  g_trunk_init_check_occupying :: bool
  g_trunk_init_reload_from_binlog :: bool
  g_changelog_fsize :: int
  ext_trunk_binlog_size :: "byte list \<Rightarrow> int \<Rightarrow> int + int"
  ext_delete_binlog_marks :: "byte list \<Rightarrow> int \<Rightarrow> int"
  ext_malloc :: int
  ext_save_groups :: int
  ext_save_storages :: int
  ext_save_sync_timestamps :: int
  ext_save_sys_files :: int
  ext_write_trunk_log :: int

definition zero_stat :: FDFSStorageStat where
  "zero_stat = \<lparr>st_counters = replicate 38 0, st_last_source_update = 0, st_last_sync_update = 0,
     st_last_synced_timestamp = 0, st_last_heart_beat_time = 0\<rparr>"

text \<open>A slot of \<open>all_servers\<close> behind the servers in use: zero bytes, with path arrays of the group's size.\<close>

definition zero_storage :: "nat \<Rightarrow> FDFSStorageDetail" where
  "zero_storage paths = \<lparr>sd_status = 0, sd_id = [], sd_ip_addr = [], sd_version = [], sd_domain_name = [],
     sd_psync_src_server = None, sd_path_total_mbs = replicate paths 0, sd_path_free_mbs = replicate paths 0,
     sd_total_mb = 0, sd_free_mb = 0, sd_changelog_offset = 0, sd_sync_until_timestamp = 0, sd_join_time = 0,
     sd_up_time = 0, sd_store_path_count = 0, sd_subdir_count_per_path = 0, sd_upload_priority = 0,
     sd_storage_port = 0, sd_storage_http_port = 0, sd_current_write_path = 0, sd_chg_count = 0,
     sd_trunk_chg_count = 0, sd_stat = zero_stat\<rparr>"

abbreviation srv :: "FDFSGroupInfo \<Rightarrow> nat \<Rightarrow> FDFSStorageDetail" where
  "srv g i \<equiv> gi_all_servers g ! i"

abbreviation srv_count :: "FDFSGroupInfo \<Rightarrow> nat" where
  "srv_count g \<equiv> length (gi_all_servers g)"

text \<open>An assignment to fields of the object behind a pointer.\<close>

definition upd_srv :: "nat \<Rightarrow> (FDFSStorageDetail \<Rightarrow> FDFSStorageDetail) \<Rightarrow> FDFSGroupInfo \<Rightarrow> FDFSGroupInfo" where
  "upd_srv i f g = g\<lparr>gi_all_servers := (gi_all_servers g)[i := f (srv g i)]\<rparr>"

definition tracker_malloc_last_sync_timestamps :: "nat \<Rightarrow> int list list" where
  "tracker_malloc_last_sync_timestamps n = replicate n (replicate n 0)"

text \<open>\<open>tracker_mem_init_group\<close> on the zeroed object, then the name; the allocations succeed.\<close>

definition tracker_mem_init_group :: "byte list \<Rightarrow> FDFSGroupInfo" where
  "tracker_mem_init_group group_name = \<lparr>gi_group_name = group_name, gi_total_mb = 0, gi_free_mb = 0,
     gi_trunk_free_mb = 0, gi_alloc_size = TRACKER_MEM_ALLOC_ONCE, gi_storage_port = 0, gi_storage_http_port = 0,
     gi_current_trunk_file_id = 0, gi_all_servers = [], gi_sorted_servers = [], gi_active_servers = [],
     gi_pStoreServer = None, gi_pTrunkServer = None, gi_last_trunk_server_id = [], gi_current_read_server = 0,
     gi_current_write_server = 0, gi_store_path_count = 0, gi_subdir_count_per_path = 0,
     gi_last_sync_timestamps = tracker_malloc_last_sync_timestamps TRACKER_MEM_ALLOC_ONCE,
     gi_chg_count = 0, gi_trunk_chg_count = 0\<rparr>"

section \<open>Look-ups\<close>

definition tracker_mem_cmp_by_storage_id :: "FDFSStorageDetail \<Rightarrow> FDFSStorageDetail \<Rightarrow> int" where
  "tracker_mem_cmp_by_storage_id p1 p2 = strcmp (sd_id p1) (sd_id p2)"

definition target_storage :: "byte list \<Rightarrow> FDFSStorageDetail" where
  "target_storage sid = (zero_storage 0)\<lparr>sd_id := sid\<rparr>"

definition tracker_mem_get_storage :: "FDFSGroupInfo \<Rightarrow> byte list \<Rightarrow> nat option" where
  "tracker_mem_get_storage g sid =
     bsearch (\<lambda>i. tracker_mem_cmp_by_storage_id (target_storage sid) (srv g i)) (gi_sorted_servers g)"

definition tracker_mem_get_active_storage_by_id :: "FDFSGroupInfo \<Rightarrow> byte list option \<Rightarrow> nat option" where
  "tracker_mem_get_active_storage_by_id g sid_opt =
     (case sid_opt of
        None \<Rightarrow> None
      | Some sid \<Rightarrow> bsearch (\<lambda>i. tracker_mem_cmp_by_storage_id (target_storage sid) (srv g i)) (gi_active_servers g))"

definition tracker_mem_get_active_storage_by_ip :: "tracker_env \<Rightarrow> FDFSGroupInfo \<Rightarrow> byte list \<Rightarrow> nat option" where
  "tracker_mem_get_active_storage_by_ip env g ip =
     (if \<not> g_use_storage_id env then tracker_mem_get_active_storage_by_id g (Some ip)
      else
        (case fdfs_get_storage_id_by_ip (g_storage_ids env) (gi_group_name g) ip of
           None \<Rightarrow> None
         | Some pStorageId \<Rightarrow> tracker_mem_get_active_storage_by_id g (Some (si_id pStorageId))))"

definition tracker_mem_get_storage_by_ip :: "tracker_env \<Rightarrow> FDFSGroupInfo \<Rightarrow> byte list \<Rightarrow> nat option" where
  "tracker_mem_get_storage_by_ip env g ip =
     (if g_use_storage_id env then
        (case fdfs_get_storage_id_by_ip (g_storage_ids env) (gi_group_name g) ip of
           None \<Rightarrow> None
         | Some pStorageIdInfo \<Rightarrow> tracker_mem_get_storage g (si_id pStorageIdInfo))
      else tracker_mem_get_storage g ip)"

text \<open>The loop over \<open>all_servers\<close> for a pointer; \<open>None\<close> stands for the result \<open>-1\<close>.\<close>

definition tracker_mem_get_storage_index :: "FDFSGroupInfo \<Rightarrow> nat \<Rightarrow> nat option" where
  "tracker_mem_get_storage_index g p = find (\<lambda>i. i = p) [0..<srv_count g]"

definition tracker_get_group_sync_src_server :: "FDFSGroupInfo \<Rightarrow> nat \<Rightarrow> nat option" where
  "tracker_get_group_sync_src_server g pDestServer =
     find (\<lambda>i. strcmp (sd_id (srv g i)) (sd_id (srv g pDestServer)) \<noteq> 0) (gi_active_servers g)"

text \<open>The counters are 64 bits wide and the sums \<open>int\<close>.\<close>

definition tracker_get_group_file_count :: "FDFSGroupInfo \<Rightarrow> int" where
  "tracker_get_group_file_count g =
     foldl (\<lambda>count s. c_int (count + (st_counters (sd_stat s) ! 1 - st_counters (sd_stat s) ! 11))) 0 (gi_all_servers g)"

definition tracker_get_group_success_upload_count :: "FDFSGroupInfo \<Rightarrow> int" where
  "tracker_get_group_success_upload_count g =
     foldl (\<lambda>count s. c_int (count + st_counters (sd_stat s) ! 1)) 0 (gi_all_servers g)"

section \<open>The store server\<close>

definition tracker_mem_find_store_server :: "tracker_env \<Rightarrow> FDFSGroupInfo \<Rightarrow> FDFSGroupInfo" where
  "tracker_mem_find_store_server env g =
     (case gi_active_servers g of
        [] \<Rightarrow> g\<lparr>gi_pStoreServer := None\<rparr>
      | first # rest \<Rightarrow>
          if g_store_server env = FDFS_STORE_SERVER_FIRST_BY_PRI then
            g\<lparr>gi_pStoreServer := Some (foldl (\<lambda>pMin i.
                if sd_upload_priority (srv g i) < sd_upload_priority (srv g pMin) then i else pMin) first rest)\<rparr>
          else g\<lparr>gi_pStoreServer := Some first\<rparr>)"

definition tracker_get_writable_storage :: "tracker_env \<Rightarrow> FDFSGroupInfo \<Rightarrow> nat option \<times> FDFSGroupInfo" where
  "tracker_get_writable_storage env g =
     (if g_store_server env = FDFS_STORE_SERVER_ROUND_ROBIN then
        (let active_count = int (length (gi_active_servers g));
             write_server_index = gi_current_write_server g;
             next_index = gi_current_write_server g + 1;
             g1 = g\<lparr>gi_current_write_server := (if next_index \<ge> active_count then 0 else next_index)\<rparr>;
             index = (if write_server_index \<ge> active_count then 0 else write_server_index)
         in (Some (gi_active_servers g ! nat index), g1))
      else (gi_pStoreServer g, g))"

section \<open>The trunk server\<close>

text \<open>
  The change of the trunk server is written to a log file, whose result is \<open>ext_write_trunk_log\<close>; with
  it the last trunk server id follows.
\<close>

definition tracker_set_trunk_server_and_log :: "tracker_env \<Rightarrow> FDFSGroupInfo \<Rightarrow> nat option \<Rightarrow> int \<times> FDFSGroupInfo" where
  "tracker_set_trunk_server_and_log env g pNew =
     (let g1 = g\<lparr>gi_pTrunkServer := pNew\<rparr> in
      case pNew of
        None \<Rightarrow> (ext_write_trunk_log env, g1\<lparr>gi_last_trunk_server_id := []\<rparr>)
      | Some i \<Rightarrow>
          if strcmp (sd_id (srv g i)) (gi_last_trunk_server_id g) \<noteq> 0
          then (ext_write_trunk_log env, g1\<lparr>gi_last_trunk_server_id := sd_id (srv g i)\<rparr>)
          else (0, g1))"

text \<open>\<open>g_trunk_server_chg_count\<close> moves in step with the \<open>trunk_chg_count\<close> of the groups.\<close>

definition tracker_mem_do_set_trunk_server ::
    "tracker_env \<Rightarrow> FDFSGroupInfo \<Rightarrow> nat \<Rightarrow> bool \<Rightarrow> int \<times> FDFSGroupInfo" where
  "tracker_mem_do_set_trunk_server env g pTrunkServer save =
     (let result = (if gi_last_trunk_server_id g \<noteq> [] \<and>
                       strcmp (sd_id (srv g pTrunkServer)) (gi_last_trunk_server_id g) \<noteq> 0
                    then ext_delete_binlog_marks env (sd_ip_addr (srv g pTrunkServer)) (gi_storage_port g)
                    else 0) in
      if result \<noteq> 0 then (result, g)
      else
        (let g1 = snd (tracker_set_trunk_server_and_log env g (Some pTrunkServer));
             g2 = g1\<lparr>gi_trunk_chg_count := gi_trunk_chg_count g1 + 1\<rparr>
         in (if save then ext_save_groups env else 0, g2)))"

definition find_trunk_loop :: "tracker_env \<Rightarrow> FDFSGroupInfo \<Rightarrow> int \<Rightarrow> nat \<Rightarrow> nat list \<Rightarrow> nat" where
  "find_trunk_loop env g max_file_size p servers =
     foldl (\<lambda>pStoreServer i.
        if i = pStoreServer then pStoreServer
        else
          (case ext_trunk_binlog_size env (sd_ip_addr (srv g i)) (gi_storage_port g) of
             Inl _ \<Rightarrow> pStoreServer
           | Inr file_size \<Rightarrow> if file_size > max_file_size then i else pStoreServer)) p servers"

definition tracker_mem_find_trunk_server :: "tracker_env \<Rightarrow> FDFSGroupInfo \<Rightarrow> bool \<Rightarrow> int \<times> FDFSGroupInfo" where
  "tracker_mem_find_trunk_server env g save =
     (case gi_pStoreServer g of
        None \<Rightarrow> (ENOENT, g)
      | Some pStoreServer \<Rightarrow>
          (case ext_trunk_binlog_size env (sd_ip_addr (srv g pStoreServer)) (gi_storage_port g) of
             Inl result \<Rightarrow> (result, g)
           | Inr max_file_size \<Rightarrow>
               tracker_mem_do_set_trunk_server env g
                 (find_trunk_loop env g max_file_size pStoreServer (gi_active_servers g)) save))"

definition tracker_mem_set_trunk_server ::
    "tracker_env \<Rightarrow> FDFSGroupInfo \<Rightarrow> byte list \<Rightarrow> (int \<times> nat option) \<times> FDFSGroupInfo" where
  "tracker_mem_set_trunk_server env g pStroageId =
     (if \<not> (g_if_leader_self env \<and> g_if_use_trunk_file env) then ((EOPNOTSUPP, None), g)
      else
        (let trunk_active = (case gi_pTrunkServer g of
                               None \<Rightarrow> False
                             | Some t \<Rightarrow> sd_status (srv g t) = FDFS_STORAGE_STATUS_ACTIVE) in
         if pStroageId = [] then
           (if trunk_active then ((0, gi_pTrunkServer g), g)
            else
              (let (result, g1) = tracker_mem_find_trunk_server env g True
               in if result \<noteq> 0 then ((result, None), g1) else ((result, gi_pTrunkServer g1), g1)))
         else if trunk_active then
           ((if strcmp pStroageId (sd_id (srv g (the (gi_pTrunkServer g)))) = 0 then EALREADY else EEXIST,
             gi_pTrunkServer g), g)
         else
           (case tracker_mem_get_storage g pStroageId of
              None \<Rightarrow> ((ENOENT, None), g)
            | Some pServer \<Rightarrow>
                if sd_status (srv g pServer) \<noteq> FDFS_STORAGE_STATUS_ACTIVE then ((ENONET, None), g)
                else
                  (let (result, g1) = tracker_mem_do_set_trunk_server env g pServer True
                   in ((result, if result = 0 then gi_pTrunkServer g1 else None), g1)))))"

section \<open>Servers going up and down\<close>

definition tracker_mem_deactive_store_server :: "tracker_env \<Rightarrow> FDFSGroupInfo \<Rightarrow> nat \<Rightarrow> FDFSGroupInfo" where
  "tracker_mem_deactive_store_server env g pTargetServer =
     (case bsearch_index (\<lambda>i. tracker_mem_cmp_by_storage_id (srv g pTargetServer) (srv g i)) (gi_active_servers g) of
        None \<Rightarrow> tracker_mem_find_store_server env g
      | Some k \<Rightarrow>
          (let g1 = upd_srv (gi_active_servers g ! k) (\<lambda>s. s\<lparr>sd_chg_count := 0, sd_trunk_chg_count := 0\<rparr>) g;
               g2 = g1\<lparr>gi_active_servers := remove_at (gi_active_servers g) k, gi_chg_count := gi_chg_count g1 + 1\<rparr>
           in tracker_mem_find_store_server env g2))"

definition tracker_mem_insert_into_sorted_servers :: "FDFSGroupInfo \<Rightarrow> nat \<Rightarrow> nat list \<Rightarrow> nat list" where
  "tracker_mem_insert_into_sorted_servers g pTargetServer servers =
     insert_into_sorted (\<lambda>i. tracker_mem_cmp_by_storage_id (srv g pTargetServer) (srv g i)) pTargetServer servers"

definition tracker_mem_active_store_server :: "tracker_env \<Rightarrow> FDFSGroupInfo \<Rightarrow> nat \<Rightarrow> FDFSGroupInfo" where
  "tracker_mem_active_store_server env g pTargetServer =
     (if sd_status (srv g pTargetServer) \<in>
          {FDFS_STORAGE_STATUS_WAIT_SYNC, FDFS_STORAGE_STATUS_SYNCING, FDFS_STORAGE_STATUS_IP_CHANGED, FDFS_STORAGE_STATUS_INIT}
      then g
      else
        (let g1 = upd_srv pTargetServer (\<lambda>s. s\<lparr>sd_status := FDFS_STORAGE_STATUS_ACTIVE\<rparr>) g in
         case bsearch (\<lambda>i. tracker_mem_cmp_by_storage_id (srv g1 pTargetServer) (srv g1 i)) (gi_active_servers g1) of
           Some _ \<Rightarrow> g1
         | None \<Rightarrow>
             (let g2 = g1\<lparr>gi_active_servers := tracker_mem_insert_into_sorted_servers g1 pTargetServer (gi_active_servers g1),
                          gi_chg_count := gi_chg_count g1 + 1\<rparr>;
                  g3 = tracker_mem_find_store_server env g2
              in if g_if_leader_self env \<and> g_if_use_trunk_file env \<and> gi_pTrunkServer g3 = None
                 then snd (tracker_mem_find_trunk_server env g3 True) else g3)))"

definition tracker_mem_offline_store_server :: "tracker_env \<Rightarrow> FDFSGroupInfo \<Rightarrow> nat \<Rightarrow> FDFSGroupInfo" where
  "tracker_mem_offline_store_server env g pStorage =
     (let g1 = upd_srv pStorage (\<lambda>s. s\<lparr>sd_up_time := 0\<rparr>) g in
      if sd_status (srv g1 pStorage) \<in>
          {FDFS_STORAGE_STATUS_WAIT_SYNC, FDFS_STORAGE_STATUS_SYNCING, FDFS_STORAGE_STATUS_INIT,
           FDFS_STORAGE_STATUS_DELETED, FDFS_STORAGE_STATUS_IP_CHANGED, FDFS_STORAGE_STATUS_RECOVERY}
      then g1
      else tracker_mem_deactive_store_server env
             (upd_srv pStorage (\<lambda>s. s\<lparr>sd_status := FDFS_STORAGE_STATUS_OFFLINE\<rparr>) g1) pStorage)"

text \<open>
  \<open>tracker_mem_check_alive\<close> on one group: the active servers whose last heart beat is too old go
  offline, at most 32 in one call; then, on the leader, the trunk server is checked.
\<close>

definition idle_servers :: "tracker_env \<Rightarrow> FDFSGroupInfo \<Rightarrow> nat list" where
  "idle_servers env g =
     take FDFS_MAX_SERVERS_EACH_GROUP
       (filter (\<lambda>i. g_current_time env - st_last_heart_beat_time (sd_stat (srv g i)) > g_check_active_interval env)
          (gi_active_servers g))"

definition check_alive_servers :: "tracker_env \<Rightarrow> FDFSGroupInfo \<Rightarrow> FDFSGroupInfo" where
  "check_alive_servers env g =
     foldl (\<lambda>g i. tracker_mem_deactive_store_server env
               (upd_srv i (\<lambda>s. s\<lparr>sd_status := FDFS_STORAGE_STATUS_OFFLINE\<rparr>) g) i) g (idle_servers env g)"

definition check_trunk_times :: "tracker_env \<Rightarrow> FDFSStorageDetail \<Rightarrow> int" where
  "check_trunk_times env pTrunk =
     (if g_current_time env - sd_up_time pTrunk \<le> 10 * g_check_active_interval env then
        (let times = (if g_trunk_init_check_occupying env then 5 else 3)
         in if g_trunk_init_reload_from_binlog env then times * 2 else times)
      else 2)"

definition check_alive_trunk :: "tracker_env \<Rightarrow> FDFSGroupInfo \<Rightarrow> FDFSGroupInfo" where
  "check_alive_trunk env g =
     (case gi_pTrunkServer g of
        None \<Rightarrow> snd (tracker_mem_find_trunk_server env g True)
      | Some t \<Rightarrow>
          (let last_beat_interval = g_current_time env - st_last_heart_beat_time (sd_stat (srv g t));
               check_trunk_interval = check_trunk_times env (srv g t) * g_check_active_interval env
           in if last_beat_interval > check_trunk_interval then
                (let g1 = snd (tracker_mem_find_trunk_server env (g\<lparr>gi_pTrunkServer := None\<rparr>) False);
                     g2 = (if gi_pTrunkServer g1 = None then snd (tracker_set_trunk_server_and_log env g1 None) else g1)
                 in g2\<lparr>gi_trunk_chg_count := gi_trunk_chg_count g2 + 1\<rparr>)
              else g))"

definition tracker_mem_check_alive :: "tracker_env \<Rightarrow> FDFSGroupInfo list \<Rightarrow> FDFSGroupInfo list" where
  "tracker_mem_check_alive env groups =
     (let groups1 = map (check_alive_servers env) groups
      in if \<not> g_if_leader_self env \<or> \<not> g_if_use_trunk_file env then groups1
         else map (check_alive_trunk env) groups1)"

definition tracker_mem_find_trunk_servers :: "tracker_env \<Rightarrow> FDFSGroupInfo list \<Rightarrow> FDFSGroupInfo list" where
  "tracker_mem_find_trunk_servers env groups =
     (if \<not> (g_if_leader_self env \<and> g_if_use_trunk_file env) then groups
      else map (\<lambda>g. if gi_pTrunkServer g = None then snd (tracker_mem_find_trunk_server env g True) else g) groups)"

section \<open>Adding, deleting and renaming servers\<close>

text \<open>
  \<open>tracker_mem_realloc_store_servers\<close>: larger arrays with the old contents. The result is \<open>ext_malloc\<close>,
  zero when every allocation succeeds; a failure leaves the group as it was.
\<close>

definition realloc_last_sync_timestamps :: "nat \<Rightarrow> nat \<Rightarrow> int list list \<Rightarrow> int list list" where
  "realloc_last_sync_timestamps old_size new_size timestamps =
     map (\<lambda>i. if i < old_size then take old_size (timestamps ! i) @ replicate (new_size - old_size) 0
              else replicate new_size 0) [0..<new_size]"

definition tracker_mem_realloc_store_servers :: "tracker_env \<Rightarrow> FDFSGroupInfo \<Rightarrow> nat \<Rightarrow> int \<times> FDFSGroupInfo" where
  "tracker_mem_realloc_store_servers env g inc_count =
     (if ext_malloc env \<noteq> 0 then (ext_malloc env, g)
      else
        (let old_size = gi_alloc_size g;
             new_size = old_size + inc_count + TRACKER_MEM_ALLOC_ONCE;
             timestamps = realloc_last_sync_timestamps old_size new_size (gi_last_sync_timestamps g);
             g1 = tracker_mem_find_store_server env
                    (g\<lparr>gi_alloc_size := new_size, gi_last_sync_timestamps := timestamps\<rparr>)
         in (0, if g_if_leader_self env \<and> g_if_use_trunk_file env
                then snd (tracker_mem_find_trunk_server env g1 True) else g1)))"

text \<open>
  \<open>_tracker_mem_add_storage\<close>: the error, or the pointer to the server and whether it was inserted.
  A null \<open>id\<close> is \<open>None\<close>.
\<close>

definition storage_id_of ::
    "tracker_env \<Rightarrow> FDFSGroupInfo \<Rightarrow> byte list option \<Rightarrow> byte list \<Rightarrow> int + byte list" where
  "storage_id_of env g id_opt ip =
     (case id_opt of
        Some sid \<Rightarrow>
          (let result = (if g_use_storage_id env then fdfs_check_storage_id (g_storage_ids env) (gi_group_name g) sid else 0)
           in if result \<noteq> 0 then Inl result else Inr sid)
      | None \<Rightarrow>
          if g_use_storage_id env then
            (case fdfs_get_storage_id_by_ip (g_storage_ids env) (gi_group_name g) ip of
               None \<Rightarrow> Inl ENOENT
             | Some info \<Rightarrow> Inr (si_id info))
          else Inr ip)"

definition insert_storage :: "FDFSGroupInfo \<Rightarrow> byte list \<Rightarrow> byte list \<Rightarrow> FDFSGroupInfo" where
  "insert_storage g storage_id ip =
     (let slot = (zero_storage (nat (gi_store_path_count g)))\<lparr>sd_id := take 15 storage_id, sd_ip_addr := ip\<rparr>;
          g1 = g\<lparr>gi_all_servers := gi_all_servers g @ [slot]\<rparr>
      in g1\<lparr>gi_sorted_servers := tracker_mem_insert_into_sorted_servers g1 (srv_count g) (gi_sorted_servers g),
            gi_chg_count := gi_chg_count g + 1\<rparr>)"

definition tracker_mem_add_storage ::
    "tracker_env \<Rightarrow> FDFSGroupInfo \<Rightarrow> byte list option \<Rightarrow> byte list \<Rightarrow> (int + nat \<times> bool) \<times> FDFSGroupInfo" where
  "tracker_mem_add_storage env g id_opt ip =
     (if ip = [] then (Inl EINVAL, g)
      else
        (case storage_id_of env g id_opt ip of
           Inl result \<Rightarrow> (Inl result, g)
         | Inr storage_id \<Rightarrow>
             (case tracker_mem_get_storage g storage_id of
                Some i \<Rightarrow>
                  (let g1 = (if g_use_storage_id env then upd_srv i (\<lambda>s. s\<lparr>sd_ip_addr := ip\<rparr>) g else g);
                       g2 = (if sd_status (srv g1 i) = FDFS_STORAGE_STATUS_DELETED \<or>
                                sd_status (srv g1 i) = FDFS_STORAGE_STATUS_IP_CHANGED
                             then upd_srv i (\<lambda>s. s\<lparr>sd_status := FDFS_STORAGE_STATUS_INIT\<rparr>) g1 else g1)
                   in (Inr (i, False), g2))
              | None \<Rightarrow>
                  (let (result, g1) = (if srv_count g \<ge> gi_alloc_size g
                                       then tracker_mem_realloc_store_servers env g 1 else (0, g))
                   in if result \<noteq> 0 then (Inl result, g1)
                      else (Inr (srv_count g1, True), insert_storage g1 storage_id ip)))))"

text \<open>
  \<open>memset\<close> over the first \<open>n\<close> numbers of a path array; \<open>None\<close> is a write behind the end of the array.
  A null pointer is the empty array.
\<close>

definition clear_path_mbs :: "int list \<Rightarrow> int \<Rightarrow> int list option" where
  "clear_path_mbs mbs n =
     (if mbs = [] then Some [] else if nat n \<le> length mbs then Some (replicate (nat n) 0 @ drop (nat n) mbs) else None)"

definition tracker_mem_clear_storage_fields :: "FDFSStorageDetail \<Rightarrow> FDFSStorageDetail option" where
  "tracker_mem_clear_storage_fields s =
     (case (clear_path_mbs (sd_path_total_mbs s) (sd_store_path_count s),
            clear_path_mbs (sd_path_free_mbs s) (sd_store_path_count s)) of
        (Some total_mbs, Some free_mbs) \<Rightarrow>
          Some (s\<lparr>sd_path_total_mbs := total_mbs, sd_path_free_mbs := free_mbs, sd_psync_src_server := None,
                  sd_sync_until_timestamp := 0, sd_total_mb := 0, sd_free_mb := 0, sd_changelog_offset := 0,
                  sd_store_path_count := 0, sd_subdir_count_per_path := 0, sd_upload_priority := 0,
                  sd_current_write_path := 0, sd_stat := zero_stat\<rparr>)
      | _ \<Rightarrow> None)"

text \<open>The line that \<open>tracker_write_to_changelog\<close> appends to the change log.\<close>

definition changelog_line :: "tracker_env \<Rightarrow> FDFSGroupInfo \<Rightarrow> FDFSStorageDetail \<Rightarrow> byte list \<Rightarrow> byte list" where
  "changelog_line env g s pArg =
     print_int (g_current_time env) @ 32 # gi_group_name g @ 32 # sd_id s @ 32 # print_int (sd_status s) @ 32 # pArg @ [10]"

text \<open>A server whose source server is the deleted one loses it.\<close>

definition drop_sync_src :: "FDFSGroupInfo \<Rightarrow> byte list \<Rightarrow> FDFSStorageDetail \<Rightarrow> FDFSStorageDetail" where
  "drop_sync_src g sid s =
     (case sd_psync_src_server s of
        None \<Rightarrow> s
      | Some p \<Rightarrow> if strcmp (sd_id (srv g p)) sid = 0 then s\<lparr>sd_psync_src_server := None\<rparr> else s)"

definition tracker_mem_delete_storage ::
    "tracker_env \<Rightarrow> FDFSGroupInfo \<Rightarrow> byte list \<Rightarrow> (int \<times> FDFSGroupInfo \<times> byte list) option" where
  "tracker_mem_delete_storage env g sid =
     (case tracker_mem_get_storage g sid of
        None \<Rightarrow> Some (ENOENT, g, [])
      | Some i \<Rightarrow>
          if sd_status (srv g i) = FDFS_STORAGE_STATUS_IP_CHANGED then Some (ENOENT, g, [])
          else if sd_status (srv g i) \<in>
              {FDFS_STORAGE_STATUS_ONLINE, FDFS_STORAGE_STATUS_ACTIVE, FDFS_STORAGE_STATUS_RECOVERY}
          then Some (EBUSY, g, [])
          else if sd_status (srv g i) = FDFS_STORAGE_STATUS_DELETED then Some (EALREADY, g, [])
          else
            (let g1 = g\<lparr>gi_all_servers := map (drop_sync_src g sid) (gi_all_servers g)\<rparr>
             in case tracker_mem_clear_storage_fields (srv g1 i) of
                  None \<Rightarrow> None
                | Some s \<Rightarrow>
                    (let s1 = s\<lparr>sd_status := FDFS_STORAGE_STATUS_DELETED\<rparr>;
                         g2 = upd_srv i (\<lambda>_. s1) g1
                     in Some (0, g2\<lparr>gi_chg_count := gi_chg_count g2 + 1\<rparr>, changelog_line env g s1 []))))"

definition tracker_mem_storage_ip_changed ::
    "tracker_env \<Rightarrow> FDFSGroupInfo \<Rightarrow> byte list \<Rightarrow> byte list \<Rightarrow> int \<times> FDFSGroupInfo \<times> byte list" where
  "tracker_mem_storage_ip_changed env g old_ip new_ip =
     (if g_use_storage_id env then (EOPNOTSUPP, g, [])
      else
        (case tracker_mem_get_storage g old_ip of
           None \<Rightarrow> (ENOENT, g, [])
         | Some pOld \<Rightarrow>
             if sd_status (srv g pOld) = FDFS_STORAGE_STATUS_DELETED then (ENOENT, g, [])
             else if sd_status (srv g pOld) \<in>
                 {FDFS_STORAGE_STATUS_ONLINE, FDFS_STORAGE_STATUS_ACTIVE, FDFS_STORAGE_STATUS_RECOVERY}
             then (EBUSY, g, [])
             else if sd_status (srv g pOld) = FDFS_STORAGE_STATUS_IP_CHANGED then (EALREADY, g, [])
             else if (case tracker_mem_get_storage g new_ip of
                        None \<Rightarrow> False
                      | Some pNew \<Rightarrow> sd_status (srv g pNew) \<noteq> FDFS_STORAGE_STATUS_DELETED)
             then (EEXIST, g, [])
             else
               (case tracker_mem_add_storage env g (Some new_ip) new_ip of
                  (Inl result, g1) \<Rightarrow> (result, g1, [])
                | (Inr (pNew, bInserted), g1) \<Rightarrow>
                    if \<not> bInserted then (EEXIST, g1, [])
                    else
                      (let g2 = upd_srv pOld (\<lambda>s. s\<lparr>sd_id := take 15 new_ip, sd_ip_addr := take 15 new_ip\<rparr>) g1;
                           g3 = upd_srv pNew (\<lambda>s. s\<lparr>sd_id := take 15 old_ip, sd_ip_addr := take 15 old_ip,
                                                     sd_status := FDFS_STORAGE_STATUS_IP_CHANGED\<rparr>) g2;
                           g4 = g3\<lparr>gi_chg_count := gi_chg_count g3 + 1,
                                   gi_sorted_servers := qsort (\<lambda>i j. tracker_mem_cmp_by_storage_id (srv g3 i) (srv g3 j))
                                     (gi_sorted_servers g3)\<rparr>
                       in (ext_save_sys_files env, g4, changelog_line env g4 (srv g4 pNew) new_ip)))))"

text \<open>
  The servers another tracker reports. The code writes the status through \<open>pStorageServer\<close> when adding
  the server has failed, a pointer that is not set then: \<open>None\<close> is that undefined behaviour.
\<close>

definition sync_one_storage :: "tracker_env \<Rightarrow> int \<times> FDFSGroupInfo \<Rightarrow> FDFSStorageBrief \<Rightarrow> (int \<times> FDFSGroupInfo) option" where
  "sync_one_storage env rg b =
     (let (result, g) = rg; status = br_status b; sid = take 15 (br_id b); ip = take 15 (br_ip_addr b) in
      if status \<in> {FDFS_STORAGE_STATUS_NONE, FDFS_STORAGE_STATUS_ACTIVE, FDFS_STORAGE_STATUS_ONLINE}
      then Some (result, g)
      else
        (case bsearch (\<lambda>i. tracker_mem_cmp_by_storage_id (target_storage sid) (srv g i)) (gi_sorted_servers g) of
           Some i \<Rightarrow>
             (let found = sd_status (srv g i);
                  g1 = upd_srv i (\<lambda>s. s\<lparr>sd_status := status\<rparr>) g;
                  g2 = g1\<lparr>gi_chg_count := gi_chg_count g1 + 1\<rparr>
              in if found = status \<or>
                    found \<in> {FDFS_STORAGE_STATUS_ONLINE, FDFS_STORAGE_STATUS_ACTIVE, FDFS_STORAGE_STATUS_RECOVERY}
                 then Some (result, g)
                 else if status = FDFS_STORAGE_STATUS_DELETED \<or> status = FDFS_STORAGE_STATUS_IP_CHANGED
                 then Some (result, g2)
                 else if status > found then Some (result, g2) else Some (result, g))
         | None \<Rightarrow>
             if status = FDFS_STORAGE_STATUS_DELETED \<or> status = FDFS_STORAGE_STATUS_IP_CHANGED then Some (result, g)
             else
               (case tracker_mem_add_storage env g (Some sid) ip of
                  (Inl _, _) \<Rightarrow> None
                | (Inr _, g1) \<Rightarrow> Some (0, g1))))"

fun sync_storages_loop :: "tracker_env \<Rightarrow> int \<times> FDFSGroupInfo \<Rightarrow> FDFSStorageBrief list \<Rightarrow> (int \<times> FDFSGroupInfo) option" where
  "sync_storages_loop env rg [] = Some rg"
| "sync_storages_loop env rg (b # bs) =
     (case sync_one_storage env rg b of None \<Rightarrow> None | Some rg1 \<Rightarrow> sync_storages_loop env rg1 bs)"

definition tracker_mem_sync_storages ::
    "tracker_env \<Rightarrow> FDFSGroupInfo \<Rightarrow> FDFSStorageBrief list \<Rightarrow> (int \<times> FDFSGroupInfo) option" where
  "tracker_mem_sync_storages env g briefServers = sync_storages_loop env (0, g) briefServers"

end
