(* ===== verification/Tracker_Group.thy ===== *)
theory Tracker_Group
  imports Tracker_Mem
begin

text \<open>
  The invariant of a storage group of the tracker, what the look-ups return under it, and that the
  operations of \<open>Tracker_Mem\<close> keep it.
\<close>

section \<open>The invariant\<close>

definition sorted_ok :: "FDFSGroupInfo \<Rightarrow> bool" where
  "sorted_ok g \<longleftrightarrow> mset (gi_sorted_servers g) = mset [0..<srv_count g] \<and>
     sorted_key (\<lambda>i. sd_id (srv g i)) (gi_sorted_servers g)"

text \<open>The active servers are exactly those with the status \<open>ACTIVE\<close>.\<close>

definition active_ok :: "FDFSGroupInfo \<Rightarrow> bool" where
  "active_ok g \<longleftrightarrow> set (gi_active_servers g) = {i. i < srv_count g \<and> sd_status (srv g i) = FDFS_STORAGE_STATUS_ACTIVE} \<and>
     sorted_key (\<lambda>i. sd_id (srv g i)) (gi_active_servers g)"

definition store_ok :: "FDFSGroupInfo \<Rightarrow> bool" where
  "store_ok g \<longleftrightarrow> (gi_pStoreServer g = None \<longrightarrow> gi_active_servers g = []) \<and>
     (\<forall>i. gi_pStoreServer g = Some i \<longrightarrow> i \<in> set (gi_active_servers g))"

definition ptr_ok :: "FDFSGroupInfo \<Rightarrow> bool" where
  "ptr_ok g \<longleftrightarrow> (\<forall>i. gi_pTrunkServer g = Some i \<longrightarrow> i < srv_count g) \<and>
     (\<forall>j < srv_count g. \<forall>i. sd_psync_src_server (srv g j) = Some i \<longrightarrow> i < srv_count g)"

definition size_ok :: "FDFSGroupInfo \<Rightarrow> bool" where
  "size_ok g \<longleftrightarrow> srv_count g \<le> gi_alloc_size g \<and> 0 \<le> gi_current_write_server g \<and> 0 \<le> gi_current_read_server g \<and>
     length (gi_last_sync_timestamps g) = gi_alloc_size g \<and>
     (\<forall>row \<in> set (gi_last_sync_timestamps g). length row = gi_alloc_size g) \<and>
     (\<forall>j < srv_count g. length (sd_path_total_mbs (srv g j)) = nat (gi_store_path_count g) \<and>
        length (sd_path_free_mbs (srv g j)) = nat (gi_store_path_count g) \<and>
        length (sd_id (srv g j)) \<le> 15 \<and> 0 \<le> sd_current_write_path (srv g j))"

definition group_inv :: "FDFSGroupInfo \<Rightarrow> bool" where
  "group_inv g \<longleftrightarrow> sorted_ok g \<and> active_ok g \<and> store_ok g \<and> ptr_ok g \<and> size_ok g"

named_theorems inv_defs

declare sorted_ok_def [inv_defs] active_ok_def [inv_defs] store_ok_def [inv_defs] ptr_ok_def [inv_defs]
  size_ok_def [inv_defs] group_inv_def [inv_defs]

lemma group_inv_init: "group_inv (tracker_mem_init_group name)"
  by (simp add: inv_defs tracker_mem_init_group_def tracker_malloc_last_sync_timestamps_def)

section \<open>Look-ups\<close>

interpretation by_id: array_order "\<lambda>_. True" sd_id tracker_mem_cmp_by_storage_id
  by unfold_locales (auto simp: tracker_mem_cmp_by_storage_id_def)

lemma sd_id_target [simp]: "sd_id (target_storage sid) = sid"
  by (simp add: target_storage_def)

lemma set_sorted_servers:
  assumes "sorted_ok g"
  shows "set (gi_sorted_servers g) = {i. i < srv_count g}"
proof -
  have "mset (gi_sorted_servers g) = mset [0..<srv_count g]" using assms by (simp add: sorted_ok_def)
  then have "set (gi_sorted_servers g) = set [0..<srv_count g]" by (rule mset_eq_setD)
  then show ?thesis by (simp only: set_upt atLeast0LessThan lessThan_def)
qed

lemma id_inj: "\<lbrakk>sorted_ok g; i < srv_count g; j < srv_count g; sd_id (srv g i) = sd_id (srv g j)\<rbrakk> \<Longrightarrow> i = j"
  using sorted_key_inj [of "\<lambda>i. sd_id (srv g i)" "gi_sorted_servers g" i j] set_sorted_servers [of g]
  by (auto simp: sorted_ok_def)

lemma get_storage_iff:
  "sorted_ok g \<Longrightarrow> tracker_mem_get_storage g sid = Some i \<longleftrightarrow> i < srv_count g \<and> sd_id (srv g i) = sid"
  using by_id.bsearch_iff [where a = "gi_sorted_servers g" and deref = "\<lambda>i. srv g i" and t = "target_storage sid" and p = i]
    set_sorted_servers [of g]
  by (simp add: tracker_mem_get_storage_def sorted_ok_def)

lemma get_storage_None:
  "sorted_ok g \<Longrightarrow> tracker_mem_get_storage g sid = None \<longleftrightarrow> (\<forall>i < srv_count g. sd_id (srv g i) \<noteq> sid)"
  using get_storage_iff [of g sid] by (metis not_None_eq)

lemma get_active_storage_iff:
  "active_ok g \<Longrightarrow> tracker_mem_get_active_storage_by_id g (Some sid) = Some i \<longleftrightarrow>
     i < srv_count g \<and> sd_id (srv g i) = sid \<and> sd_status (srv g i) = FDFS_STORAGE_STATUS_ACTIVE"
  using by_id.bsearch_iff [where a = "gi_active_servers g" and deref = "\<lambda>i. srv g i" and t = "target_storage sid" and p = i]
  by (auto simp: tracker_mem_get_active_storage_by_id_def active_ok_def)

lemma get_storage_index: "tracker_mem_get_storage_index g p = (if p < srv_count g then Some p else None)"
proof (cases "p < srv_count g")
  case True
  then have "find (\<lambda>i. i = p) [0..<srv_count g] = Some p"
    by (intro find_Some_iff [THEN iffD2] exI [of _ p]) auto
  with True show ?thesis by (simp add: tracker_mem_get_storage_index_def)
next
  case False
  then show ?thesis by (auto simp: tracker_mem_get_storage_index_def find_None_iff)
qed

section \<open>Frames\<close>

lemma srv_count_upd [simp]: "srv_count (upd_srv i f g) = srv_count g"
  by (simp add: upd_srv_def)

lemma srv_upd: "j < srv_count g \<Longrightarrow> srv (upd_srv i f g) j = (if j = i then f (srv g i) else srv g j)"
  by (auto simp: upd_srv_def nth_list_update)

lemma upd_srv_fields [simp]:
  "gi_sorted_servers (upd_srv i f g) = gi_sorted_servers g" "gi_active_servers (upd_srv i f g) = gi_active_servers g"
  "gi_pStoreServer (upd_srv i f g) = gi_pStoreServer g" "gi_pTrunkServer (upd_srv i f g) = gi_pTrunkServer g"
  "gi_alloc_size (upd_srv i f g) = gi_alloc_size g" "gi_store_path_count (upd_srv i f g) = gi_store_path_count g"
  "gi_last_sync_timestamps (upd_srv i f g) = gi_last_sync_timestamps g" "gi_chg_count (upd_srv i f g) = gi_chg_count g"
  "gi_group_name (upd_srv i f g) = gi_group_name g" "gi_current_write_server (upd_srv i f g) = gi_current_write_server g" "gi_current_read_server (upd_srv i f g) = gi_current_read_server g"
  "gi_last_trunk_server_id (upd_srv i f g) = gi_last_trunk_server_id g"
  by (simp_all add: upd_srv_def)

text \<open>What an assignment to a server must keep for each part of the invariant.\<close>

definition same_shape :: "FDFSStorageDetail \<Rightarrow> FDFSStorageDetail \<Rightarrow> bool" where
  "same_shape s t \<longleftrightarrow> sd_id s = sd_id t \<and> sd_psync_src_server s \<in> {sd_psync_src_server t, None} \<and>
     length (sd_path_total_mbs s) = length (sd_path_total_mbs t) \<and> length (sd_path_free_mbs s) = length (sd_path_free_mbs t) \<and>
     (0 \<le> sd_current_write_path t \<longrightarrow> 0 \<le> sd_current_write_path s)"

lemma sorted_ok_upd: "\<lbrakk>sorted_ok g; sd_id (f (srv g i)) = sd_id (srv g i)\<rbrakk> \<Longrightarrow> sorted_ok (upd_srv i f g)"
  using set_sorted_servers [of g] sorted_key_cong [of "gi_sorted_servers g" "\<lambda>j. sd_id (srv (upd_srv i f g) j)" "\<lambda>j. sd_id (srv g j)"]
  by (simp add: sorted_ok_def srv_upd)

lemma active_sorted_upd:
  "\<lbrakk>set (gi_active_servers g) \<subseteq> {i. i < srv_count g}; sorted_key (\<lambda>i. sd_id (srv g i)) (gi_active_servers g);
    sd_id (f (srv g i)) = sd_id (srv g i)\<rbrakk> \<Longrightarrow> sorted_key (\<lambda>j. sd_id (srv (upd_srv i f g) j)) (gi_active_servers g)"
  using sorted_key_cong [of "gi_active_servers g" "\<lambda>j. sd_id (srv (upd_srv i f g) j)" "\<lambda>j. sd_id (srv g j)"]
  by (auto simp: srv_upd subset_iff)

lemma size_ok_upd:
  "\<lbrakk>size_ok g; same_shape (f (srv g i)) (srv g i)\<rbrakk> \<Longrightarrow> size_ok (upd_srv i f g)"
  by (auto simp: size_ok_def same_shape_def srv_upd)

lemma ptr_ok_upd: "\<lbrakk>ptr_ok g; same_shape (f (srv g i)) (srv g i)\<rbrakk> \<Longrightarrow> ptr_ok (upd_srv i f g)"
  by (auto simp: ptr_ok_def same_shape_def srv_upd split: if_splits)

lemma group_inv_upd:
  assumes inv: "group_inv g" and shape: "same_shape (f (srv g i)) (srv g i)"
    and st: "i < srv_count g \<longrightarrow> (sd_status (f (srv g i)) = FDFS_STORAGE_STATUS_ACTIVE) = (sd_status (srv g i) = FDFS_STORAGE_STATUS_ACTIVE)"
  shows "group_inv (upd_srv i f g)"
proof -
  have act: "set (gi_active_servers g) = {j. j < srv_count g \<and> sd_status (srv g j) = FDFS_STORAGE_STATUS_ACTIVE}"
    using inv by (simp add: group_inv_def active_ok_def)
  have "{j. j < srv_count g \<and> sd_status (srv (upd_srv i f g) j) = FDFS_STORAGE_STATUS_ACTIVE} =
      {j. j < srv_count g \<and> sd_status (srv g j) = FDFS_STORAGE_STATUS_ACTIVE}"
    using st by (intro Collect_cong conj_cong refl) (simp add: srv_upd)
  moreover have "sorted_key (\<lambda>j. sd_id (srv (upd_srv i f g) j)) (gi_active_servers g)"
    using inv shape act by (intro active_sorted_upd) (auto simp: group_inv_def active_ok_def same_shape_def)
  ultimately have "active_ok (upd_srv i f g)" using act by (simp add: active_ok_def)
  then show ?thesis
    using inv shape sorted_ok_upd [of g f i] size_ok_upd [of g f i] ptr_ok_upd [of g f i]
    by (simp add: group_inv_def store_ok_def same_shape_def)
qed

section \<open>The store server and the trunk server\<close>

definition group_inv0 :: "FDFSGroupInfo \<Rightarrow> bool" where
  "group_inv0 g \<longleftrightarrow> sorted_ok g \<and> active_ok g \<and> ptr_ok g \<and> size_ok g"

lemma group_inv0I: "group_inv g \<Longrightarrow> group_inv0 g"
  by (simp add: group_inv_def group_inv0_def)

lemma foldl_min_priority:
  fixes prio :: "nat \<Rightarrow> int"
  defines "step \<equiv> \<lambda>m i. if prio i < prio m then i else m"
  shows "foldl step x xs \<in> set (x # xs) \<and> (\<forall>y \<in> set (x # xs). prio (foldl step x xs) \<le> prio y)"
proof (induction xs arbitrary: x)
  case (Cons a xs)
  from Cons [of "step x a"] show ?case by (auto simp: step_def split: if_splits)
qed simp

lemma find_store_server_eq:
  "tracker_mem_find_store_server env g = g\<lparr>gi_pStoreServer := gi_pStoreServer (tracker_mem_find_store_server env g)\<rparr>"
  by (cases "gi_active_servers g") (simp_all add: tracker_mem_find_store_server_def)

lemma find_store_server_None:
  "gi_pStoreServer (tracker_mem_find_store_server env g) = None \<longleftrightarrow> gi_active_servers g = []"
  by (cases "gi_active_servers g") (simp_all add: tracker_mem_find_store_server_def)

lemma find_store_server_Some:
  assumes "gi_pStoreServer (tracker_mem_find_store_server env g) = Some i"
  shows "i \<in> set (gi_active_servers g)"
    and "g_store_server env = FDFS_STORE_SERVER_FIRST_BY_PRI \<Longrightarrow>
      \<forall>j \<in> set (gi_active_servers g). sd_upload_priority (srv g i) \<le> sd_upload_priority (srv g j)"
proof -
  obtain a as where act: "gi_active_servers g = a # as"
    using assms find_store_server_None [of env g] by (cases "gi_active_servers g") auto
  note fold = foldl_min_priority [of "\<lambda>i. sd_upload_priority (srv g i)" a as]
  show "i \<in> set (gi_active_servers g)"
    using assms act fold by (auto simp: tracker_mem_find_store_server_def split: if_splits)
  show "\<forall>j \<in> set (gi_active_servers g). sd_upload_priority (srv g i) \<le> sd_upload_priority (srv g j)"
    if "g_store_server env = FDFS_STORE_SERVER_FIRST_BY_PRI"
    using assms act fold that by (auto simp: tracker_mem_find_store_server_def)
qed

lemma group_inv0_store_upd [simp]: "group_inv0 (g\<lparr>gi_pStoreServer := x\<rparr>) = group_inv0 g"
  by (simp add: group_inv0_def sorted_ok_def active_ok_def ptr_ok_def size_ok_def)

lemma find_store_server_inv: "group_inv0 g \<Longrightarrow> group_inv (tracker_mem_find_store_server env g)"
proof -
  assume inv: "group_inv0 g"
  let ?h = "tracker_mem_find_store_server env g"
  have act: "gi_active_servers ?h = gi_active_servers g" by (subst find_store_server_eq) simp
  have "group_inv0 ?h" by (subst find_store_server_eq) (simp add: inv)
  moreover have "store_ok ?h"
    using find_store_server_None [of env g] find_store_server_Some(1) [of env g] by (simp add: store_ok_def act)
  ultimately show ?thesis by (simp add: group_inv_def group_inv0_def)
qed

text \<open>The operations on the trunk server change nothing but the pointer, the last id and the counter.\<close>

definition trunk_change :: "FDFSGroupInfo \<Rightarrow> FDFSGroupInfo \<Rightarrow> bool" where
  "trunk_change g g' \<longleftrightarrow> (\<exists>p l c. g' = g\<lparr>gi_pTrunkServer := p, gi_last_trunk_server_id := l, gi_trunk_chg_count := c\<rparr> \<and>
     (\<forall>i. p = Some i \<longrightarrow> gi_pTrunkServer g = Some i \<or> i < srv_count g))"

lemma trunk_change_refl [simp]: "trunk_change g g"
  unfolding trunk_change_def
  by (rule exI [of _ "gi_pTrunkServer g"], rule exI [of _ "gi_last_trunk_server_id g"], rule exI [of _ "gi_trunk_chg_count g"]) simp

lemma trunk_change_trans: "\<lbrakk>trunk_change a b; trunk_change b c\<rbrakk> \<Longrightarrow> trunk_change a c"
  by (fastforce simp: trunk_change_def)

lemma trunk_change_inv: "\<lbrakk>trunk_change g g'; group_inv g\<rbrakk> \<Longrightarrow> group_inv g'"
proof -
  assume "trunk_change g g'" and inv: "group_inv g"
  then obtain p l c where g': "g' = g\<lparr>gi_pTrunkServer := p, gi_last_trunk_server_id := l, gi_trunk_chg_count := c\<rparr>"
    and p: "\<forall>i. p = Some i \<longrightarrow> gi_pTrunkServer g = Some i \<or> i < srv_count g"
    by (auto simp: trunk_change_def)
  have "sorted_ok g'" using inv by (simp add: g' group_inv_def sorted_ok_def)
  moreover have "active_ok g'" using inv by (simp add: g' group_inv_def active_ok_def)
  moreover have "store_ok g'" using inv by (simp add: g' group_inv_def store_ok_def)
  moreover have "size_ok g'" using inv by (simp add: g' group_inv_def size_ok_def)
  moreover have "ptr_ok g'" using inv p by (auto simp: g' group_inv_def ptr_ok_def)
  ultimately show ?thesis by (simp add: group_inv_def)
qed

lemma trunk_changeI [intro]:
  "(\<And>i. p = Some i \<Longrightarrow> gi_pTrunkServer g = Some i \<or> i < srv_count g) \<Longrightarrow>
   trunk_change g (g\<lparr>gi_pTrunkServer := p, gi_last_trunk_server_id := l, gi_trunk_chg_count := c\<rparr>)"
  unfolding trunk_change_def by blast

lemma trunk_change_set:
  assumes "\<And>i. p = Some i \<Longrightarrow> i < srv_count g"
  shows "trunk_change g (snd (tracker_set_trunk_server_and_log env g p))"
proof -
  have "\<exists>l. snd (tracker_set_trunk_server_and_log env g p) = g\<lparr>gi_pTrunkServer := p, gi_last_trunk_server_id := l\<rparr>"
    by (cases p) (auto simp: tracker_set_trunk_server_and_log_def Let_def intro: exI [of _ "gi_last_trunk_server_id g"])
  then obtain l where "snd (tracker_set_trunk_server_and_log env g p) =
      g\<lparr>gi_pTrunkServer := p, gi_last_trunk_server_id := l, gi_trunk_chg_count := gi_trunk_chg_count g\<rparr>" by auto
  then show ?thesis using assms by (simp only:) (rule trunk_changeI, blast)
qed

lemma trunk_change_count: "trunk_change g g' \<Longrightarrow> trunk_change g (g'\<lparr>gi_trunk_chg_count := c\<rparr>)"
  by (fastforce simp: trunk_change_def)

lemma trunk_change_clear: "trunk_change (g\<lparr>gi_pTrunkServer := None\<rparr>) g' \<Longrightarrow> trunk_change g g'"
  by (fastforce simp: trunk_change_def)

lemma trunk_change_do_set:
  "i < srv_count g \<Longrightarrow> trunk_change g (snd (tracker_mem_do_set_trunk_server env g i save))"
  using trunk_change_count [OF trunk_change_set [of "Some i" g env]]
  by (simp add: tracker_mem_do_set_trunk_server_def Let_def)

lemma find_trunk_loop_mem: "find_trunk_loop env g m p xs \<in> set (p # xs)"
proof (induction xs arbitrary: p)
  case (Cons a xs)
  from Cons [of "if a = p then p else case ext_trunk_binlog_size env (sd_ip_addr (srv g a)) (gi_storage_port g) of
      Inl _ \<Rightarrow> p | Inr n \<Rightarrow> if n > m then a else p"]
  show ?case by (auto simp: find_trunk_loop_def split: if_splits sum.splits)
qed (simp add: find_trunk_loop_def)

lemma store_server_bound: "\<lbrakk>group_inv g; gi_pStoreServer g = Some i\<rbrakk> \<Longrightarrow> i < srv_count g"
  by (auto simp: group_inv_def store_ok_def active_ok_def)

lemma trunk_change_find: "group_inv g \<Longrightarrow> trunk_change g (snd (tracker_mem_find_trunk_server env g save))"
proof (cases "gi_pStoreServer g")
  case (Some p)
  assume inv: "group_inv g"
  let ?i = "\<lambda>m. find_trunk_loop env g m p (gi_active_servers g)"
  have "set (gi_active_servers g) \<subseteq> {i. i < srv_count g}" using inv by (auto simp: group_inv_def active_ok_def)
  then have "?i m < srv_count g" for m
    using find_trunk_loop_mem [of env g m p "gi_active_servers g"] store_server_bound [OF inv Some] by auto
  then show ?thesis
    by (auto simp: tracker_mem_find_trunk_server_def Some trunk_change_do_set split: sum.splits)
qed (simp add: tracker_mem_find_trunk_server_def)

lemmas find_trunk_server_inv = trunk_change_inv [OF trunk_change_find]

lemma set_trunk_server_inv: "group_inv g \<Longrightarrow> group_inv (snd (tracker_mem_set_trunk_server env g sid))"
proof -
  assume inv: "group_inv g"
  have "i < srv_count g" if "tracker_mem_get_storage g sid = Some i" for i
    using inv that get_storage_iff [of g sid i] by (simp add: group_inv_def)
  then have "trunk_change g (snd (tracker_mem_set_trunk_server env g sid))"
    using trunk_change_find [OF inv] trunk_change_do_set [of _ g env True]
    by (auto simp: tracker_mem_set_trunk_server_def Let_def case_prod_unfold split: option.splits)
  then show ?thesis using inv by (rule trunk_change_inv)
qed

section \<open>Servers going up and down\<close>

text \<open>A change of the list of active servers and of counters.\<close>

lemma group_inv0_counts [simp]:
  "group_inv0 (g\<lparr>gi_chg_count := c\<rparr>) = group_inv0 g"
  by (simp add: group_inv0_def sorted_ok_def active_ok_def ptr_ok_def size_ok_def)

lemma group_inv_chg_count [simp]: "group_inv (g\<lparr>gi_chg_count := c\<rparr>) = group_inv g"
  by (simp add: inv_defs)

lemma group_inv_chg_sorted [simp]:
  "group_inv (g\<lparr>gi_chg_count := c, gi_sorted_servers := xs\<rparr>) = group_inv (g\<lparr>gi_sorted_servers := xs\<rparr>)"
  by (simp add: inv_defs)

lemma group_inv0_active:
  assumes "sorted_ok g" "ptr_ok g" "size_ok g"
    and "set xs = {i. i < srv_count g \<and> sd_status (srv g i) = FDFS_STORAGE_STATUS_ACTIVE}"
    and "sorted_key (\<lambda>i. sd_id (srv g i)) xs"
  shows "group_inv0 (g\<lparr>gi_active_servers := xs\<rparr>)"
proof -
  have "sorted_ok (g\<lparr>gi_active_servers := xs\<rparr>)" "ptr_ok (g\<lparr>gi_active_servers := xs\<rparr>)" "size_ok (g\<lparr>gi_active_servers := xs\<rparr>)"
    using assms(1-3) by (simp_all add: sorted_ok_def ptr_ok_def size_ok_def)
  moreover have "active_ok (g\<lparr>gi_active_servers := xs\<rparr>)" using assms(4,5) by (simp add: active_ok_def)
  ultimately show ?thesis by (simp add: group_inv0_def)
qed

lemma deactive_inv:
  assumes "sorted_ok g" "ptr_ok g" "size_ok g" and t: "t < srv_count g" "sd_status (srv g t) \<noteq> FDFS_STORAGE_STATUS_ACTIVE"
    and act: "set (gi_active_servers g) - {t} = {i. i < srv_count g \<and> sd_status (srv g i) = FDFS_STORAGE_STATUS_ACTIVE}"
    and sorted: "sorted_key (\<lambda>i. sd_id (srv g i)) (gi_active_servers g)"
  shows "group_inv (tracker_mem_deactive_store_server env g t)"
proof -
  let ?a = "gi_active_servers g"
  have bound: "i < srv_count g" if "i \<in> set ?a" for i
    using that act t(1) by (cases "i = t") auto
  have idx: "bsearch_index (\<lambda>i. tracker_mem_cmp_by_storage_id (srv g t) (srv g i)) ?a = Some k \<longleftrightarrow> k < length ?a \<and> ?a ! k = t" for k
    using by_id.bsearch_index_iff [where a = ?a and deref = "\<lambda>i. srv g i" and t = "srv g t" and i = k, OF _ _ sorted]
      id_inj [OF assms(1) _ t(1)] bound by (auto simp: in_set_conv_nth)
  show ?thesis
  proof (cases "bsearch_index (\<lambda>i. tracker_mem_cmp_by_storage_id (srv g t) (srv g i)) ?a")
    case None
    with idx have "t \<notin> set ?a" by (auto simp: in_set_conv_nth)
    with act sorted have "active_ok g" by (simp add: active_ok_def)
    with None assms(1-3) show ?thesis
      by (simp add: tracker_mem_deactive_store_server_def find_store_server_inv group_inv0_def)
  next
    case (Some k)
    with idx have k: "k < length ?a" "?a ! k = t" by auto
    let ?f = "\<lambda>s. s\<lparr>sd_chg_count := 0, sd_trunk_chg_count := 0\<rparr>"
    let ?g = "upd_srv t ?f g"
    have shape: "same_shape (?f (srv g t)) (srv g t)" by (simp add: same_shape_def)
    have "distinct ?a" using sorted_key_distinct [OF sorted] by (simp add: distinct_map)
    then have rem: "remove_at ?a k = filter (\<lambda>x. x \<noteq> t) ?a"
      using remove_at_filter [of ?a k] k by simp
    have set_rem: "set (filter (\<lambda>x. x \<noteq> t) ?a) = {i. i < srv_count ?g \<and> sd_status (srv ?g i) = FDFS_STORAGE_STATUS_ACTIVE}"
    proof -
      have "set (filter (\<lambda>x. x \<noteq> t) ?a) = set ?a - {t}" by auto
      moreover have "{i. i < srv_count ?g \<and> sd_status (srv ?g i) = FDFS_STORAGE_STATUS_ACTIVE} =
          {i. i < srv_count g \<and> sd_status (srv g i) = FDFS_STORAGE_STATUS_ACTIVE}"
        by (intro Collect_cong conj_cong) (simp_all add: srv_upd)
      ultimately show ?thesis using act by (simp only:)
    qed
    have "sorted_key (\<lambda>j. sd_id (srv ?g j)) ?a"
      using active_sorted_upd [of g ?f t] sorted bound by auto
    then have "sorted_key (\<lambda>j. sd_id (srv ?g j)) (filter (\<lambda>x. x \<noteq> t) ?a)" by simp
    then have "group_inv0 (?g\<lparr>gi_active_servers := filter (\<lambda>x. x \<noteq> t) ?a\<rparr>)"
      using assms(1-3) shape sorted_ok_upd [of g ?f t] ptr_ok_upd [of g ?f t] size_ok_upd [of g ?f t] set_rem
      by (intro group_inv0_active) simp_all
    then have "group_inv0 (?g\<lparr>gi_active_servers := filter (\<lambda>x. x \<noteq> t) ?a, gi_chg_count := gi_chg_count g + 1\<rparr>)"
      by simp
    then show ?thesis
      using Some k rem by (simp add: tracker_mem_deactive_store_server_def Let_def find_store_server_inv)
  qed
qed

lemma set_status_parts:
  fixes st i
  assumes inv: "group_inv g"
  defines "h \<equiv> upd_srv i (\<lambda>s. s\<lparr>sd_status := st\<rparr>) g"
  shows "sorted_ok h" "ptr_ok h" "size_ok h" "sorted_key (\<lambda>j. sd_id (srv h j)) (gi_active_servers h)"
proof -
  let ?f = "\<lambda>s. s\<lparr>sd_status := st\<rparr>"
  have shape: "same_shape (?f (srv g i)) (srv g i)" by (simp add: same_shape_def)
  show "sorted_ok h" "ptr_ok h" "size_ok h"
    using inv shape sorted_ok_upd [of g ?f i] ptr_ok_upd [of g ?f i] size_ok_upd [of g ?f i]
    by (simp_all add: h_def group_inv_def)
  show "sorted_key (\<lambda>j. sd_id (srv h j)) (gi_active_servers h)"
    using inv active_sorted_upd [of g ?f i] by (auto simp: h_def group_inv_def active_ok_def)
qed

lemma set_status_inv:
  "\<lbrakk>group_inv g; sd_status (srv g i) \<noteq> FDFS_STORAGE_STATUS_ACTIVE; st \<noteq> FDFS_STORAGE_STATUS_ACTIVE\<rbrakk>
   \<Longrightarrow> group_inv (upd_srv i (\<lambda>s. s\<lparr>sd_status := st\<rparr>) g)"
  by (rule group_inv_upd) (simp_all add: same_shape_def)

lemma active_set: "group_inv g \<Longrightarrow> set (gi_active_servers g) = {i. i < srv_count g \<and> sd_status (srv g i) = FDFS_STORAGE_STATUS_ACTIVE}"
  by (simp add: group_inv_def active_ok_def)

lemma offline_step_inv:
  assumes inv: "group_inv g" and i: "i < srv_count g"
  shows "group_inv (tracker_mem_deactive_store_server env
    (upd_srv i (\<lambda>s. s\<lparr>sd_status := FDFS_STORAGE_STATUS_OFFLINE\<rparr>) g) i)"
proof (rule deactive_inv)
  let ?h = "upd_srv i (\<lambda>s. s\<lparr>sd_status := FDFS_STORAGE_STATUS_OFFLINE\<rparr>) g"
  show "sorted_ok ?h" "ptr_ok ?h" "size_ok ?h" "sorted_key (\<lambda>j. sd_id (srv ?h j)) (gi_active_servers ?h)"
    using set_status_parts [OF inv] by blast+
  show "i < srv_count ?h" "sd_status (srv ?h i) \<noteq> FDFS_STORAGE_STATUS_ACTIVE" using i by (simp_all add: srv_upd)
  show "set (gi_active_servers ?h) - {i} = {j. j < srv_count ?h \<and> sd_status (srv ?h j) = FDFS_STORAGE_STATUS_ACTIVE}"
  proof (intro set_eqI)
    fix j
    show "j \<in> set (gi_active_servers ?h) - {i} \<longleftrightarrow>
        j \<in> {j. j < srv_count ?h \<and> sd_status (srv ?h j) = FDFS_STORAGE_STATUS_ACTIVE}"
      by (cases "j = i"; cases "j < srv_count g") (simp_all add: active_set [OF inv] srv_upd)
  qed
qed

lemma offline_inv: "\<lbrakk>group_inv g; i < srv_count g\<rbrakk> \<Longrightarrow> group_inv (tracker_mem_offline_store_server env g i)"
proof -
  assume inv: "group_inv g" and i: "i < srv_count g"
  have "group_inv (upd_srv i (\<lambda>s. s\<lparr>sd_up_time := 0\<rparr>) g)"
    by (rule group_inv_upd [OF inv]) (simp_all add: same_shape_def)
  with i show ?thesis
    using offline_step_inv [of "upd_srv i (\<lambda>s. s\<lparr>sd_up_time := 0\<rparr>) g" i env]
    by (simp add: tracker_mem_offline_store_server_def Let_def)
qed

lemma srv_count_find_store [simp]: "srv_count (tracker_mem_find_store_server env g) = srv_count g"
  by (subst find_store_server_eq) simp

lemma srv_count_deactive [simp]: "srv_count (tracker_mem_deactive_store_server env g i) = srv_count g"
  by (simp add: tracker_mem_deactive_store_server_def Let_def split: option.split)

lemma check_alive_servers_inv: "group_inv g \<Longrightarrow> group_inv (check_alive_servers env g)"
proof -
  assume inv: "group_inv g"
  have fold: "group_inv (foldl (\<lambda>g i. tracker_mem_deactive_store_server env
      (upd_srv i (\<lambda>s. s\<lparr>sd_status := FDFS_STORAGE_STATUS_OFFLINE\<rparr>) g) i) h xs)"
    if "group_inv h" "\<forall>i \<in> set xs. i < srv_count h" for h xs
    using that
  proof (induction xs arbitrary: h)
    case (Cons x xs)
    then show ?case using offline_step_inv [of h x env] by simp
  qed simp
  have "set (idle_servers env g) \<subseteq> set (gi_active_servers g)"
    by (auto simp: idle_servers_def dest: in_set_takeD)
  then show ?thesis
    using fold [OF inv] active_set [OF inv] by (auto simp: check_alive_servers_def)
qed

lemma check_alive_trunk_inv: "group_inv g \<Longrightarrow> group_inv (check_alive_trunk env g)"
proof -
  assume inv: "group_inv g"
  let ?g0 = "g\<lparr>gi_pTrunkServer := None\<rparr>"
  have "trunk_change g ?g0"
    using trunk_changeI [where p = None and g = g and l = "gi_last_trunk_server_id g" and c = "gi_trunk_chg_count g"] by simp
  then have inv0: "group_inv ?g0" using inv by (rule trunk_change_inv)
  let ?g1 = "snd (tracker_mem_find_trunk_server env ?g0 False)"
  have inv1: "group_inv ?g1" using find_trunk_server_inv [OF inv0] inv0 .
  have inv2: "group_inv (snd (tracker_set_trunk_server_and_log env ?g1 None))"
    by (rule trunk_change_inv [OF trunk_change_set inv1]) simp
  have cnt: "group_inv h \<Longrightarrow> group_inv (h\<lparr>gi_trunk_chg_count := c\<rparr>)" for h c
    using trunk_change_inv [OF trunk_change_count [OF trunk_change_refl]] .
  show ?thesis
    using inv find_trunk_server_inv [OF inv] cnt [OF inv1] cnt [OF inv2]
    by (auto simp: check_alive_trunk_def Let_def split: option.split)
qed

lemma active_insert_inv:
  assumes inv: "group_inv g" and t: "t < srv_count g" "sd_status (srv g t) \<noteq> FDFS_STORAGE_STATUS_ACTIVE"
  defines "h \<equiv> upd_srv t (\<lambda>s. s\<lparr>sd_status := FDFS_STORAGE_STATUS_ACTIVE\<rparr>) g"
  shows "group_inv0 (h\<lparr>gi_active_servers := tracker_mem_insert_into_sorted_servers h t (gi_active_servers h)\<rparr>)"
    and "bsearch (\<lambda>i. tracker_mem_cmp_by_storage_id (srv h t) (srv h i)) (gi_active_servers h) = None"
proof -
  note parts = set_status_parts [OF inv, of t FDFS_STORAGE_STATUS_ACTIVE, folded h_def]
  have act: "set (gi_active_servers h) = {i. i < srv_count g \<and> sd_status (srv g i) = FDFS_STORAGE_STATUS_ACTIVE}"
    by (simp add: h_def active_set [OF inv])
  have cnt: "srv_count h = srv_count g" by (simp add: h_def)
  have id_t: "sd_id (srv h t) \<notin> (\<lambda>i. sd_id (srv h i)) ` set (gi_active_servers h)"
  proof
    assume "sd_id (srv h t) \<in> (\<lambda>i. sd_id (srv h i)) ` set (gi_active_servers h)"
    then obtain i where i: "i \<in> set (gi_active_servers h)" "sd_id (srv h t) = sd_id (srv h i)" by auto
    have "i = t" using i act t(1) cnt by (intro id_inj [OF parts(1)]) simp_all
    with i(1) act t(2) show False by simp
  qed
  show "bsearch (\<lambda>i. tracker_mem_cmp_by_storage_id (srv h t) (srv h i)) (gi_active_servers h) = None"
    using by_id.bsearch_None [where a = "gi_active_servers h" and deref = "\<lambda>i. srv h i" and t = "srv h t"] parts(4) id_t
    by simp
  have "sorted_key (\<lambda>i. sd_id (srv h i)) (tracker_mem_insert_into_sorted_servers h t (gi_active_servers h))"
    unfolding tracker_mem_insert_into_sorted_servers_def
    by (rule by_id.sorted_insert_into_sorted [where deref = "\<lambda>i. srv h i"]) (use parts(4) id_t in simp_all)
  moreover have "insert t (set (gi_active_servers h)) = {i. i < srv_count h \<and> sd_status (srv h i) = FDFS_STORAGE_STATUS_ACTIVE}"
  proof (intro set_eqI)
    fix j
    show "j \<in> insert t (set (gi_active_servers h)) \<longleftrightarrow>
        j \<in> {i. i < srv_count h \<and> sd_status (srv h i) = FDFS_STORAGE_STATUS_ACTIVE}"
      by (cases "j = t"; cases "j < srv_count g") (use act t(1) in \<open>simp_all add: h_def srv_upd\<close>)
  qed
  ultimately show "group_inv0 (h\<lparr>gi_active_servers := tracker_mem_insert_into_sorted_servers h t (gi_active_servers h)\<rparr>)"
    using parts by (intro group_inv0_active) (simp_all add: tracker_mem_insert_into_sorted_servers_def)
qed

lemma active_inv: "\<lbrakk>group_inv g; t < srv_count g\<rbrakk> \<Longrightarrow> group_inv (tracker_mem_active_store_server env g t)"
proof -
  assume inv: "group_inv g" and t: "t < srv_count g"
  let ?h = "upd_srv t (\<lambda>s. s\<lparr>sd_status := FDFS_STORAGE_STATUS_ACTIVE\<rparr>) g"
  show ?thesis
  proof (cases "sd_status (srv g t) = FDFS_STORAGE_STATUS_ACTIVE")
    case True
    have h: "group_inv ?h" by (rule group_inv_upd [OF inv]) (simp_all add: same_shape_def True)
    have "t \<in> set (gi_active_servers ?h)" using True t active_set [OF inv] by simp
    then have "bsearch (\<lambda>i. tracker_mem_cmp_by_storage_id (srv ?h t) (srv ?h i)) (gi_active_servers ?h) \<noteq> None"
      using by_id.bsearch_None [where a = "gi_active_servers ?h" and deref = "\<lambda>i. srv ?h i" and t = "srv ?h t"]
        h by (auto simp: group_inv_def active_ok_def)
    with True h show ?thesis by (auto simp: tracker_mem_active_store_server_def Let_def)
  next
    case False
    note ins = active_insert_inv [OF inv t False]
    let ?g2 = "?h\<lparr>gi_active_servers := tracker_mem_insert_into_sorted_servers ?h t (gi_active_servers ?h),
        gi_chg_count := gi_chg_count ?h + 1\<rparr>"
    have "group_inv0 ?g2" using ins(1) by simp
    then have g3: "group_inv (tracker_mem_find_store_server env ?g2)" by (rule find_store_server_inv)
    show ?thesis
    proof (cases "sd_status (srv g t) \<in> {1, 2, 3, 0}")
      case True
      then show ?thesis using inv unfolding tracker_mem_active_store_server_def by simp
    next
      case False
      then have "tracker_mem_active_store_server env g t =
        (if g_if_leader_self env \<and> g_if_use_trunk_file env \<and> gi_pTrunkServer (tracker_mem_find_store_server env ?g2) = None
         then snd (tracker_mem_find_trunk_server env (tracker_mem_find_store_server env ?g2) True)
         else tracker_mem_find_store_server env ?g2)"
        unfolding tracker_mem_active_store_server_def Let_def ins(2) by simp
      then show ?thesis using g3 find_trunk_server_inv [OF g3] by simp
    qed
  qed
qed

section \<open>Adding servers\<close>

definition ids_ok :: "tracker_env \<Rightarrow> bool" where
  "ids_ok env \<longleftrightarrow> (\<forall>e \<in> set (g_storage_ids_by_ip (g_storage_ids env)). length (si_id e) \<le> 15)"

lemma trunk_change_servers:
  "trunk_change g g' \<Longrightarrow> gi_all_servers g' = gi_all_servers g \<and> gi_sorted_servers g' = gi_sorted_servers g \<and>
     gi_alloc_size g' = gi_alloc_size g \<and> gi_store_path_count g' = gi_store_path_count g"
  by (auto simp: trunk_change_def)

lemma realloc_inv:
  assumes inv: "group_inv g" and r: "tracker_mem_realloc_store_servers env g n = (0, g')"
  shows "group_inv g' \<and> gi_all_servers g' = gi_all_servers g \<and> gi_alloc_size g' = gi_alloc_size g + n + 2"
proof -
  define timestamps where
    "timestamps = realloc_last_sync_timestamps (gi_alloc_size g) (gi_alloc_size g + n + 2) (gi_last_sync_timestamps g)"
  let ?g0 = "g\<lparr>gi_alloc_size := gi_alloc_size g + n + 2, gi_last_sync_timestamps := timestamps\<rparr>"
  let ?g1 = "tracker_mem_find_store_server env ?g0"
  have "sorted_ok ?g0" "active_ok ?g0" "ptr_ok ?g0"
    using inv by (simp_all add: group_inv_def sorted_ok_def active_ok_def ptr_ok_def)
  moreover have "size_ok ?g0"
    using inv by (auto simp: group_inv_def size_ok_def timestamps_def realloc_last_sync_timestamps_def)
  ultimately have inv1: "group_inv ?g1" by (intro find_store_server_inv) (simp add: group_inv0_def)
  have same: "gi_all_servers ?g1 = gi_all_servers g" "gi_alloc_size ?g1 = gi_alloc_size g + n + 2"
    by (subst find_store_server_eq, simp)+
  have "ext_malloc env = 0" using r by (simp add: tracker_mem_realloc_store_servers_def split: if_splits)
  then have "snd (tracker_mem_realloc_store_servers env g n) =
      (if g_if_leader_self env \<and> g_if_use_trunk_file env then snd (tracker_mem_find_trunk_server env ?g1 True) else ?g1)"
    by (simp add: tracker_mem_realloc_store_servers_def timestamps_def Let_def)
  then have "g' = (if g_if_leader_self env \<and> g_if_use_trunk_file env then snd (tracker_mem_find_trunk_server env ?g1 True) else ?g1)"
    by (simp only: r snd_conv)
  then have tc: "trunk_change ?g1 g'" using trunk_change_find [OF inv1, of env True] by simp
  show ?thesis using trunk_change_inv [OF tc inv1] trunk_change_servers [OF tc] same by simp
qed

lemma insert_storage_inv:
  assumes inv: "group_inv g" and sid: "length sid \<le> 15" "\<forall>i < srv_count g. sd_id (srv g i) \<noteq> sid"
    and room: "srv_count g < gi_alloc_size g"
  shows "group_inv (insert_storage g sid ip)"
proof -
  let ?n = "srv_count g"
  define slot where "slot = (zero_storage (nat (gi_store_path_count g)))\<lparr>sd_id := sid, sd_ip_addr := ip\<rparr>"
  define h where "h = g\<lparr>gi_all_servers := gi_all_servers g @ [slot]\<rparr>"
  define xs where "xs = tracker_mem_insert_into_sorted_servers h ?n (gi_sorted_servers g)"
  have ins: "insert_storage g sid ip = h\<lparr>gi_sorted_servers := xs, gi_chg_count := gi_chg_count g + 1\<rparr>"
    using sid(1) by (simp add: insert_storage_def Let_def h_def slot_def xs_def)
  have slot: "sd_id slot = sid" "sd_status slot = FDFS_STORAGE_STATUS_INIT" "sd_psync_src_server slot = None"
    "length (sd_path_total_mbs slot) = nat (gi_store_path_count g)" "length (sd_path_free_mbs slot) = nat (gi_store_path_count g)"
    "sd_current_write_path slot = 0"
    by (simp_all add: slot_def zero_storage_def)
  have cnt: "srv_count h = Suc ?n" by (simp add: h_def)
  have old: "srv h i = srv g i" if "i < ?n" for i using that by (simp add: h_def nth_append)
  have new: "srv h ?n = slot" by (simp add: h_def)
  have sset: "set (gi_sorted_servers g) = {i. i < ?n}" using inv set_sorted_servers by (simp add: group_inv_def)
  have sorted_g: "sorted_key (\<lambda>i. sd_id (srv h i)) (gi_sorted_servers g)"
    using inv sset sorted_key_cong [of "gi_sorted_servers g" "\<lambda>i. sd_id (srv h i)" "\<lambda>i. sd_id (srv g i)"] old
    by (simp add: group_inv_def sorted_ok_def)
  have "sd_id (srv h ?n) \<notin> (\<lambda>i. sd_id (srv h i)) ` set (gi_sorted_servers g)"
    using sid(2) old by (auto simp: sset new slot)
  then have "sorted_key (\<lambda>i. sd_id (srv h i)) xs"
    unfolding xs_def tracker_mem_insert_into_sorted_servers_def
    by (intro by_id.sorted_insert_into_sorted [where deref = "\<lambda>i. srv h i"]) (use sorted_g in simp_all)
  moreover have "mset xs = mset [0..<Suc ?n]"
    using inv by (simp add: xs_def tracker_mem_insert_into_sorted_servers_def group_inv_def sorted_ok_def)
  ultimately have "sorted_ok (h\<lparr>gi_sorted_servers := xs\<rparr>)" by (simp add: sorted_ok_def cnt)
  moreover have "active_ok (h\<lparr>gi_sorted_servers := xs\<rparr>)"
  proof -
    have "gi_active_servers h = gi_active_servers g" by (simp add: h_def)
    moreover have "{i. i < Suc ?n \<and> sd_status (srv h i) = FDFS_STORAGE_STATUS_ACTIVE} =
        {i. i < ?n \<and> sd_status (srv g i) = FDFS_STORAGE_STATUS_ACTIVE}"
      using old new slot by (auto simp: less_Suc_eq)
    moreover have "sorted_key (\<lambda>i. sd_id (srv h i)) (gi_active_servers g)"
      using inv active_set [OF inv] sorted_key_cong [of "gi_active_servers g" "\<lambda>i. sd_id (srv h i)" "\<lambda>i. sd_id (srv g i)"] old
      by (simp add: group_inv_def active_ok_def)
    ultimately show ?thesis using active_set [OF inv] by (simp add: active_ok_def cnt)
  qed
  moreover have "store_ok (h\<lparr>gi_sorted_servers := xs\<rparr>)"
    using inv by (simp add: group_inv_def store_ok_def h_def)
  moreover have "ptr_ok (h\<lparr>gi_sorted_servers := xs\<rparr>)"
  proof -
    have "gi_pTrunkServer h = gi_pTrunkServer g" by (simp add: h_def)
    then show ?thesis using inv old new slot by (auto simp: group_inv_def ptr_ok_def cnt less_Suc_eq)
  qed
  moreover have "size_ok (h\<lparr>gi_sorted_servers := xs\<rparr>)"
  proof -
    have "gi_alloc_size h = gi_alloc_size g" "gi_store_path_count h = gi_store_path_count g"
      "gi_last_sync_timestamps h = gi_last_sync_timestamps g" "gi_current_write_server h = gi_current_write_server g" "gi_current_read_server h = gi_current_read_server g"
      by (simp_all add: h_def)
    then show ?thesis
      using inv old new slot sid(1) room by (simp add: group_inv_def size_ok_def cnt less_Suc_eq all_conj_distrib imp_conjR disj_imp) (auto simp: less_Suc_eq)
  qed
  ultimately have "group_inv (h\<lparr>gi_sorted_servers := xs\<rparr>)" by (simp add: group_inv_def)
  then show ?thesis unfolding ins by simp
qed

lemma storage_id_of_length:
  assumes "storage_id_of env g id_opt ip = Inr sid" "ids_ok env" "length ip \<le> 15" "\<And>s. id_opt = Some s \<Longrightarrow> length s \<le> 15"
  shows "length sid \<le> 15"
  using assms bsearch_in_set
  by (fastforce simp: storage_id_of_def ids_ok_def fdfs_get_storage_id_by_ip_def Let_def split: option.splits if_splits)

lemma add_storage_inv:
  assumes inv: "group_inv g" and ids: "ids_ok env" "length ip \<le> 15" "\<And>s. id_opt = Some s \<Longrightarrow> length s \<le> 15"
    and r: "tracker_mem_add_storage env g id_opt ip = (r, g')"
  shows "group_inv g' \<and> (\<forall>i b. r = Inr (i, b) \<longrightarrow> i < srv_count g') \<and> srv_count g \<le> srv_count g'"
proof (cases "ip = [] \<or> (\<exists>e. storage_id_of env g id_opt ip = Inl e)")
  case True
  then have "g' = g" "\<exists>e. r = Inl e" using r by (auto simp: tracker_mem_add_storage_def split: if_splits)
  with inv show ?thesis by auto
next
  case False
  then obtain sid where sid: "storage_id_of env g id_opt ip = Inr sid" "ip \<noteq> []" by (meson sumE)
  have so: "sorted_ok g" using inv by (simp add: group_inv_def)
  show ?thesis
  proof (cases "tracker_mem_get_storage g sid")
    case (Some i)
    have i: "i < srv_count g" using Some get_storage_iff [OF so] by simp
    let ?g1 = "if g_use_storage_id env then upd_srv i (\<lambda>s. s\<lparr>sd_ip_addr := ip\<rparr>) g else g"
    have inv1: "group_inv ?g1" using inv by (auto intro!: group_inv_upd simp: same_shape_def)
    let ?g2 = "if sd_status (srv ?g1 i) = FDFS_STORAGE_STATUS_DELETED \<or> sd_status (srv ?g1 i) = FDFS_STORAGE_STATUS_IP_CHANGED
        then upd_srv i (\<lambda>s. s\<lparr>sd_status := FDFS_STORAGE_STATUS_INIT\<rparr>) ?g1 else ?g1"
    have "group_inv ?g2"
      using inv1 set_status_inv [OF inv1, of i FDFS_STORAGE_STATUS_INIT] by (cases "sd_status (srv ?g1 i) = 4 \<or> sd_status (srv ?g1 i) = 3") auto
    moreover have "r = Inr (i, False)" "g' = ?g2"
      using r sid Some by (simp_all add: tracker_mem_add_storage_def Let_def split del: if_split)
    moreover have "srv_count ?g2 = srv_count g" by simp
    ultimately show ?thesis using i by (simp split del: if_split)
  next
    case None
    let ?rg = "if srv_count g \<ge> gi_alloc_size g then tracker_mem_realloc_store_servers env g 1 else (0, g)"
    obtain e g1 where eg: "?rg = (e, g1)" by fastforce
    have ins: "(r, g') = (if e \<noteq> 0 then (Inl e, g1) else (Inr (srv_count g1, True), insert_storage g1 sid ip))"
      using r sid None eg by (simp add: tracker_mem_add_storage_def Let_def split del: if_split)
    show ?thesis
    proof (cases "e = 0")
      case True
      have g1: "group_inv g1 \<and> gi_all_servers g1 = gi_all_servers g \<and> srv_count g1 < gi_alloc_size g1"
      proof (cases "srv_count g \<ge> gi_alloc_size g")
        case True
        have "srv_count g \<le> gi_alloc_size g" using inv by (simp add: group_inv_def size_ok_def)
        then show ?thesis using realloc_inv [OF inv, of env 1 g1] eg True \<open>e = 0\<close> by simp
      next
        case False
        then show ?thesis using eg inv by simp
      qed
      have "length sid \<le> 15" using storage_id_of_length [OF sid(1) ids] .
      moreover have "\<forall>i < srv_count g1. sd_id (srv g1 i) \<noteq> sid" using None get_storage_None [OF so] g1 by simp
      ultimately have "group_inv (insert_storage g1 sid ip)" using g1 by (intro insert_storage_inv) auto
      moreover have "srv_count (insert_storage g1 sid ip) = Suc (srv_count g1)"
        by (simp add: insert_storage_def Let_def)
      ultimately show ?thesis using ins True g1 by simp
    next
      case False
      then have "g1 = g" using eg by (auto simp: tracker_mem_realloc_store_servers_def Let_def split: if_splits)
      then show ?thesis using ins False inv by simp
    qed
  qed
qed

section \<open>Deleting and renaming servers\<close>

lemma group_inv_paths:
  assumes inv: "group_inv g" and len: "length xs = srv_count g"
    and ids: "\<And>j. j < srv_count g \<Longrightarrow> sd_id (xs ! j) = sd_id (srv g j)"
    and src: "\<And>j. j < srv_count g \<Longrightarrow> sd_psync_src_server (xs ! j) \<in> {sd_psync_src_server (srv g j), None}"
    and st: "\<And>j. j < srv_count g \<Longrightarrow> (sd_status (xs ! j) = FDFS_STORAGE_STATUS_ACTIVE) = (sd_status (srv g j) = FDFS_STORAGE_STATUS_ACTIVE)"
    and paths: "\<And>j. j < srv_count g \<Longrightarrow> length (sd_path_total_mbs (xs ! j)) = nat c \<and> length (sd_path_free_mbs (xs ! j)) = nat c \<and>
      (0 \<le> sd_current_write_path (srv g j) \<longrightarrow> 0 \<le> sd_current_write_path (xs ! j))"
  shows "group_inv (g\<lparr>gi_all_servers := xs, gi_store_path_count := c\<rparr>)"
proof -
  let ?h = "g\<lparr>gi_all_servers := xs, gi_store_path_count := c\<rparr>"
  have "sorted_ok ?h"
    using inv len set_sorted_servers [of g] ids
      sorted_key_cong [of "gi_sorted_servers g" "\<lambda>j. sd_id (xs ! j)" "\<lambda>j. sd_id (srv g j)"]
    by (simp add: group_inv_def sorted_ok_def)
  moreover have "active_ok ?h"
  proof -
    have "{j. j < length xs \<and> sd_status (xs ! j) = FDFS_STORAGE_STATUS_ACTIVE} =
        {j. j < srv_count g \<and> sd_status (srv g j) = FDFS_STORAGE_STATUS_ACTIVE}"
      using st len by (intro Collect_cong conj_cong) simp_all
    moreover have "sorted_key (\<lambda>j. sd_id (xs ! j)) (gi_active_servers g)"
      using inv active_set [OF inv] ids
        sorted_key_cong [of "gi_active_servers g" "\<lambda>j. sd_id (xs ! j)" "\<lambda>j. sd_id (srv g j)"]
      by (simp add: group_inv_def active_ok_def)
    ultimately show ?thesis using active_set [OF inv] by (simp add: active_ok_def)
  qed
  moreover have "store_ok ?h" using inv by (simp add: group_inv_def store_ok_def)
  moreover have "ptr_ok ?h"
    using inv src len by (fastforce simp: group_inv_def ptr_ok_def)
  moreover have "size_ok ?h"
    using inv ids paths len by (simp add: group_inv_def size_ok_def)
  ultimately show ?thesis by (simp add: group_inv_def)
qed

lemma group_inv_servers:
  assumes inv: "group_inv g" and len: "length xs = srv_count g"
    and shape: "\<And>j. j < srv_count g \<Longrightarrow> same_shape (xs ! j) (srv g j)"
    and st: "\<And>j. j < srv_count g \<Longrightarrow> (sd_status (xs ! j) = FDFS_STORAGE_STATUS_ACTIVE) = (sd_status (srv g j) = FDFS_STORAGE_STATUS_ACTIVE)"
  shows "group_inv (g\<lparr>gi_all_servers := xs\<rparr>)"
proof -
  have "group_inv (g\<lparr>gi_all_servers := xs, gi_store_path_count := gi_store_path_count g\<rparr>)"
  proof (rule group_inv_paths [OF inv len _ _ st])
    fix j assume j: "j < srv_count g"
    show "sd_id (xs ! j) = sd_id (srv g j)" "sd_psync_src_server (xs ! j) \<in> {sd_psync_src_server (srv g j), None}"
      using shape [OF j] by (simp_all add: same_shape_def)
    show "length (sd_path_total_mbs (xs ! j)) = nat (gi_store_path_count g) \<and> length (sd_path_free_mbs (xs ! j)) = nat (gi_store_path_count g) \<and>
        (0 \<le> sd_current_write_path (srv g j) \<longrightarrow> 0 \<le> sd_current_write_path (xs ! j))"
      using shape [OF j] inv j by (simp add: same_shape_def group_inv_def size_ok_def)
  qed
  then show ?thesis by simp
qed

lemma group_inv_scalars [simp]:
  "group_inv (g\<lparr>gi_storage_port := x\<rparr>) = group_inv g" "group_inv (g\<lparr>gi_storage_http_port := x\<rparr>) = group_inv g"
  "group_inv (g\<lparr>gi_subdir_count_per_path := x\<rparr>) = group_inv g"
  "group_inv (g\<lparr>gi_total_mb := x, gi_free_mb := y\<rparr>) = group_inv g" "group_inv (g\<lparr>gi_trunk_free_mb := x\<rparr>) = group_inv g"
  by (simp_all add: inv_defs)

lemma clear_path_mbs_length: "clear_path_mbs xs n = Some ys \<Longrightarrow> length ys = length xs"
  by (auto simp: clear_path_mbs_def split: if_splits)

lemma clear_storage_fields_shape:
  "tracker_mem_clear_storage_fields s = Some t \<Longrightarrow> same_shape t s"
  by (auto simp: tracker_mem_clear_storage_fields_def same_shape_def clear_path_mbs_length split: option.splits)

lemma drop_sync_src_shape: "same_shape (drop_sync_src g sid s) s" "sd_status (drop_sync_src g sid s) = sd_status s"
  by (auto simp: drop_sync_src_def same_shape_def split: option.split)

lemma delete_storage_inv:
  assumes inv: "group_inv g" and r: "tracker_mem_delete_storage env g sid = Some (e, g', line)"
  shows "group_inv g'"
proof (cases "e = 0")
  case False
  then have "g' = g" using r
    by (auto simp: tracker_mem_delete_storage_def Let_def split: option.splits if_splits)
  then show ?thesis using inv by simp
next
  case True
  let ?g1 = "g\<lparr>gi_all_servers := map (drop_sync_src g sid) (gi_all_servers g)\<rparr>"
  from r True obtain i s where i: "tracker_mem_get_storage g sid = Some i"
    "sd_status (srv g i) \<noteq> FDFS_STORAGE_STATUS_ACTIVE"
    and s: "tracker_mem_clear_storage_fields (srv ?g1 i) = Some s"
    and g': "g' = (upd_srv i (\<lambda>_. s\<lparr>sd_status := FDFS_STORAGE_STATUS_DELETED\<rparr>) ?g1)
               \<lparr>gi_chg_count := gi_chg_count (upd_srv i (\<lambda>_. s\<lparr>sd_status := FDFS_STORAGE_STATUS_DELETED\<rparr>) ?g1) + 1\<rparr>"
    by (auto simp: tracker_mem_delete_storage_def Let_def split: option.splits if_splits)
  have b: "i < srv_count g" using i(1) get_storage_iff [of g sid i] inv by (simp add: group_inv_def)
  have inv1: "group_inv ?g1"
    by (rule group_inv_servers [OF inv]) (simp_all add: drop_sync_src_shape)
  have "group_inv (upd_srv i (\<lambda>_. s\<lparr>sd_status := FDFS_STORAGE_STATUS_DELETED\<rparr>) ?g1)"
  proof (rule group_inv_upd [OF inv1])
    show "same_shape (s\<lparr>sd_status := FDFS_STORAGE_STATUS_DELETED\<rparr>) (srv ?g1 i)"
      using clear_storage_fields_shape [OF s] by (simp add: same_shape_def)
    show "i < srv_count ?g1 \<longrightarrow> (sd_status (s\<lparr>sd_status := FDFS_STORAGE_STATUS_DELETED\<rparr>) = FDFS_STORAGE_STATUS_ACTIVE) =
        (sd_status (srv ?g1 i) = FDFS_STORAGE_STATUS_ACTIVE)"
      using i(2) b by (simp add: drop_sync_src_shape)
  qed
  then show ?thesis unfolding g' by simp
qed

text \<open>What an insertion adds.\<close>

lemma add_storage_inserted:
  assumes inv: "group_inv g" and r: "tracker_mem_add_storage env g id_opt ip = (Inr (p, True), g')"
  shows "p = srv_count g" "srv_count g' = Suc p" "\<And>i. i < p \<Longrightarrow> srv g' i = srv g i"
    "storage_id_of env g id_opt ip = Inr sid \<Longrightarrow> sd_id (srv g' p) = take 15 sid"
    "sd_status (srv g' p) = FDFS_STORAGE_STATUS_INIT"
proof -
  let ?rg = "if srv_count g \<ge> gi_alloc_size g then tracker_mem_realloc_store_servers env g 1 else (0, g)"
  obtain e g1 where eg: "?rg = (e, g1)" by fastforce
  from r obtain sid' where sid: "storage_id_of env g id_opt ip = Inr sid'" "tracker_mem_get_storage g sid' = None"
    by (auto simp: tracker_mem_add_storage_def Let_def split: sum.splits option.splits if_splits)
  have "ip \<noteq> []" using r by (auto simp: tracker_mem_add_storage_def)
  then have ins: "(Inr (p, True), g') = (if e \<noteq> 0 then (Inl e, g1) else (Inr (srv_count g1, True), insert_storage g1 sid' ip))"
    using r sid eg by (simp add: tracker_mem_add_storage_def Let_def split del: if_split)
  then have e: "e = 0" "p = srv_count g1" "g' = insert_storage g1 sid' ip" by (auto split: if_splits)
  have all: "gi_all_servers g1 = gi_all_servers g"
    using realloc_inv [OF inv, of env 1 g1] eg e(1) by (auto split: if_splits)
  have g': "gi_all_servers g' = gi_all_servers g @
      [(zero_storage (nat (gi_store_path_count g1)))\<lparr>sd_id := take 15 sid', sd_ip_addr := ip\<rparr>]"
    using e(3) all by (simp add: insert_storage_def Let_def)
  show "p = srv_count g" "srv_count g' = Suc p" "\<And>i. i < p \<Longrightarrow> srv g' i = srv g i"
    "storage_id_of env g id_opt ip = Inr sid \<Longrightarrow> sd_id (srv g' p) = take 15 sid"
    "sd_status (srv g' p) = FDFS_STORAGE_STATUS_INIT"
    using e(2) all g' sid(1) by (simp_all add: nth_append zero_storage_def)
qed

text \<open>Two servers that are not active exchange their ids, then the array is sorted again.\<close>

lemma rename_inv:
  fixes a b :: "byte list"
  assumes inv: "group_inv g" and ij: "i < srv_count g" "j < srv_count g" "i \<noteq> j"
    and na: "sd_status (srv g i) \<noteq> FDFS_STORAGE_STATUS_ACTIVE" "sd_status (srv g j) \<noteq> FDFS_STORAGE_STATUS_ACTIVE"
    and st: "st \<noteq> FDFS_STORAGE_STATUS_ACTIVE"
  defines "h \<equiv> upd_srv j (\<lambda>s. s\<lparr>sd_id := sd_id (srv g i), sd_ip_addr := a, sd_status := st\<rparr>)
                 (upd_srv i (\<lambda>s. s\<lparr>sd_id := sd_id (srv g j), sd_ip_addr := b\<rparr>) g)"
  shows "group_inv (h\<lparr>gi_sorted_servers := qsort (\<lambda>x y. tracker_mem_cmp_by_storage_id (srv h x) (srv h y)) (gi_sorted_servers h)\<rparr>)"
proof -
  let ?xs = "qsort (\<lambda>x y. tracker_mem_cmp_by_storage_id (srv h x) (srv h y)) (gi_sorted_servers h)"
  have so: "sorted_ok g" using inv by (simp add: group_inv_def)
  have cnt: "srv_count h = srv_count g" by (simp add: h_def)
  have hi: "srv h i = (srv g i)\<lparr>sd_id := sd_id (srv g j), sd_ip_addr := b\<rparr>"
    and hj: "srv h j = (srv g j)\<lparr>sd_id := sd_id (srv g i), sd_ip_addr := a, sd_status := st\<rparr>"
    using ij by (simp_all add: h_def srv_upd)
  have other: "srv h k = srv g k" if "k < srv_count g" "k \<noteq> i" "k \<noteq> j" for k using that by (simp add: h_def srv_upd)
  define sw where "sw = (\<lambda>k. if k = i then j else if k = j then i else k)"
  have hid: "sd_id (srv h k) = sd_id (srv g (sw k))" if "k < srv_count g" for k
    using that other hi hj by (cases "k = i"; cases "k = j") (simp_all add: sw_def)
  have inj: "k = l" if "k < srv_count g" "l < srv_count g" "sd_id (srv h k) = sd_id (srv h l)" for k l
  proof -
    have "sw k = sw l" using that ij hid by (intro id_inj [OF so]) (simp_all add: sw_def)
    then show ?thesis by (auto simp: sw_def split: if_splits)
  qed
  have sorted_h: "gi_sorted_servers h = gi_sorted_servers g" by (simp add: h_def)
  have "mset (gi_sorted_servers g) = mset [0..<srv_count g]" using so by (simp add: sorted_ok_def)
  then have "distinct (gi_sorted_servers g) = distinct [0..<srv_count g]" by (rule mset_eq_imp_distinct_iff)
  moreover have "inj_on (\<lambda>x. sd_id (srv h x)) (set (gi_sorted_servers h))"
    unfolding sorted_h set_sorted_servers [OF so] using inj by (intro inj_onI) blast
  ultimately have "distinct (map (\<lambda>x. sd_id (srv h x)) (gi_sorted_servers h))"
    by (simp add: distinct_map sorted_h)
  then have "sorted_key (\<lambda>x. sd_id (srv h x)) ?xs"
    using by_id.sorted_key_qsort [where xs = "gi_sorted_servers h" and deref = "\<lambda>x. srv h x"] by simp
  then have "sorted_ok (h\<lparr>gi_sorted_servers := ?xs\<rparr>)" using so by (simp add: sorted_ok_def cnt sorted_h)
  moreover have "active_ok (h\<lparr>gi_sorted_servers := ?xs\<rparr>)"
  proof -
    have act_h: "gi_active_servers h = gi_active_servers g" by (simp add: h_def)
    have "sd_status (srv h k) = FDFS_STORAGE_STATUS_ACTIVE \<longleftrightarrow> sd_status (srv g k) = FDFS_STORAGE_STATUS_ACTIVE"
      if "k < srv_count g" for k
      using that other [of k] hi hj na st by (cases "k = i"; cases "k = j") simp_all
    then have "{k. k < srv_count h \<and> sd_status (srv h k) = FDFS_STORAGE_STATUS_ACTIVE} =
        {k. k < srv_count g \<and> sd_status (srv g k) = FDFS_STORAGE_STATUS_ACTIVE}"
      by (intro Collect_cong conj_cong) (simp_all add: cnt)
    moreover have "sd_id (srv h k) = sd_id (srv g k)" if "k \<in> set (gi_active_servers g)" for k
      using that other [of k] na active_set [OF inv] by (cases "k = i"; cases "k = j") simp_all
    then have "sorted_key (\<lambda>x. sd_id (srv h x)) (gi_active_servers g)"
      using inv sorted_key_cong [of "gi_active_servers g" "\<lambda>x. sd_id (srv h x)" "\<lambda>x. sd_id (srv g x)"]
      by (simp add: group_inv_def active_ok_def)
    ultimately show ?thesis using active_set [OF inv] by (simp add: active_ok_def act_h)
  qed
  moreover have "store_ok (h\<lparr>gi_sorted_servers := ?xs\<rparr>)" using inv by (simp add: group_inv_def store_ok_def h_def)
  moreover have "ptr_ok (h\<lparr>gi_sorted_servers := ?xs\<rparr>)"
  proof -
    have "sd_psync_src_server (srv h k) = sd_psync_src_server (srv g k)" if "k < srv_count g" for k
      using that other [of k] hi hj by (cases "k = i"; cases "k = j") simp_all
    moreover have "gi_pTrunkServer h = gi_pTrunkServer g" by (simp add: h_def)
    ultimately show ?thesis using inv by (simp add: group_inv_def ptr_ok_def cnt)
  qed
  moreover have "size_ok (h\<lparr>gi_sorted_servers := ?xs\<rparr>)"
  proof -
    have "length (sd_path_total_mbs (srv h k)) = length (sd_path_total_mbs (srv g k))"
      "length (sd_path_free_mbs (srv h k)) = length (sd_path_free_mbs (srv g k))" if "k < srv_count g" for k
      using that other [of k] hi hj by (cases "k = i"; cases "k = j"; simp)+
    moreover have "length (sd_id (srv h k)) \<le> 15" if "k < srv_count g" for k
      using inv ij that hid [OF that] by (simp add: group_inv_def size_ok_def sw_def)
    moreover have "gi_alloc_size h = gi_alloc_size g" "gi_store_path_count h = gi_store_path_count g"
      "gi_last_sync_timestamps h = gi_last_sync_timestamps g" "gi_current_write_server h = gi_current_write_server g" "gi_current_read_server h = gi_current_read_server g"
      by (simp_all add: h_def)
    moreover have "sd_current_write_path (srv h k) = sd_current_write_path (srv g k)" if "k < srv_count g" for k
      using that other [of k] hi hj by (cases "k = i"; cases "k = j") simp_all
    ultimately show ?thesis using inv by (simp add: group_inv_def size_ok_def cnt)
  qed
  ultimately show ?thesis by (simp add: group_inv_def)
qed

lemma ip_changed_inv:
  assumes inv: "group_inv g" and ids: "ids_ok env" and new: "length new_ip \<le> 15"
  shows "group_inv (fst (snd (tracker_mem_storage_ip_changed env g old_ip new_ip)))"
proof (cases "\<exists>e. tracker_mem_storage_ip_changed env g old_ip new_ip = (e, g, [])")
  case False
  then obtain pOld where old: "tracker_mem_get_storage g old_ip = Some pOld"
    and st: "sd_status (srv g pOld) \<noteq> FDFS_STORAGE_STATUS_ACTIVE" and use: "\<not> g_use_storage_id env"
    and eq: "tracker_mem_storage_ip_changed env g old_ip new_ip =
      (case tracker_mem_add_storage env g (Some new_ip) new_ip of
                  (Inl result, g1) \<Rightarrow> (result, g1, [])
                | (Inr (pNew, bInserted), g1) \<Rightarrow>
                    if \<not> bInserted then (EEXIST, g1, [])
                    else
                      (let g2 = upd_srv pOld (\<lambda>s. s\<lparr>sd_id := take 15 new_ip, sd_ip_addr := take 15 new_ip\<rparr>) g1;
                           g3 = upd_srv pNew (\<lambda>s. s\<lparr>sd_id := take 15 old_ip, sd_ip_addr := take 15 old_ip,
                                                     sd_status := FDFS_STORAGE_STATUS_IP_CHANGED\<rparr>) g2;
                           g4 = g3\<lparr>gi_chg_count := gi_chg_count g3 + 1,
                                   gi_sorted_servers := qsort (\<lambda>i j. tracker_mem_cmp_by_storage_id (srv g3 i) (srv g3 j))
                                     (gi_sorted_servers g3)\<rparr>
                       in (ext_save_sys_files env, g4, changelog_line env g4 (srv g4 pNew) new_ip)))"
    by (auto simp: tracker_mem_storage_ip_changed_def simp del: split_paired_Ex split: option.splits if_splits)
  obtain r g1 where add: "tracker_mem_add_storage env g (Some new_ip) new_ip = (r, g1)" by fastforce
  have inv1: "group_inv g1" using add_storage_inv [OF inv ids new _ add] new by simp
  show ?thesis
  proof (cases "\<exists>p. r = Inr (p, True)")
    case True
    then obtain p where p: "r = Inr (p, True)" by blast
    note ins = add_storage_inserted [OF inv add [unfolded p]]
    have so: "sorted_ok g" using inv by (simp add: group_inv_def)
    have o: "pOld < srv_count g" "sd_id (srv g pOld) = old_ip" using get_storage_iff [OF so] old by auto
    then have len: "take 15 old_ip = old_ip" using inv by (auto simp: group_inv_def size_ok_def)
    have same: "srv g1 pOld = srv g pOld" using ins(1,3) o(1) by simp
    have pid: "sd_id (srv g1 p) = take 15 new_ip" using ins(4) [of new_ip] use by (simp add: storage_id_of_def)
    let ?g3 = "upd_srv p (\<lambda>s. s\<lparr>sd_id := take 15 old_ip, sd_ip_addr := take 15 old_ip, sd_status := FDFS_STORAGE_STATUS_IP_CHANGED\<rparr>)
        (upd_srv pOld (\<lambda>s. s\<lparr>sd_id := take 15 new_ip, sd_ip_addr := take 15 new_ip\<rparr>) g1)"
    let ?xs = "qsort (\<lambda>i j. tracker_mem_cmp_by_storage_id (srv ?g3 i) (srv ?g3 j)) (gi_sorted_servers ?g3)"
    have "group_inv (?g3\<lparr>gi_sorted_servers := ?xs\<rparr>)"
      using rename_inv [OF inv1, of pOld p FDFS_STORAGE_STATUS_IP_CHANGED "take 15 old_ip" "take 15 new_ip"]
        o ins(1,2,5) same st pid len by simp
    then show ?thesis unfolding eq add p by (simp add: Let_def)
  next
    case False
    then have "fst (snd (tracker_mem_storage_ip_changed env g old_ip new_ip)) = g1"
      unfolding eq add by (auto split: sum.split)
    then show ?thesis using inv1 by simp
  qed
qed (use inv in auto)

lemma sync_one_inv:
  assumes "group_inv (snd rg)" "ids_ok env" and r: "sync_one_storage env rg b = Some rg'"
  shows "group_inv (snd rg')"
proof (cases rg)
  case (Pair result g)
  let ?sid = "take 15 (br_id b)" and ?ip = "take 15 (br_ip_addr b)"
  have inv: "group_inv g" using assms(1) Pair by simp
  have upd: "group_inv ((upd_srv i (\<lambda>s. s\<lparr>sd_status := br_status b\<rparr>) g)\<lparr>gi_chg_count := c\<rparr>)"
    if "sd_status (srv g i) \<noteq> FDFS_STORAGE_STATUS_ACTIVE" "br_status b \<noteq> FDFS_STORAGE_STATUS_ACTIVE" for i c
    using set_status_inv [OF inv that] by simp
  have add: "group_inv (snd (tracker_mem_add_storage env g (Some ?sid) ?ip))"
    using add_storage_inv [OF inv assms(2), of ?ip "Some ?sid"] by (metis length_take min.cobounded2 option.inject prod.collapse)
  show ?thesis
    using r inv upd add Pair
    by (auto simp: sync_one_storage_def Let_def split: if_splits option.splits prod.splits sum.splits)
qed

lemma sync_storages_inv:
  assumes "group_inv g" "ids_ok env" "tracker_mem_sync_storages env g bs = Some (e, g')"
  shows "group_inv g'"
proof -
  have "group_inv (snd rg')" if "sync_storages_loop env rg bs = Some rg'" "group_inv (snd rg)" for rg rg'
    using that
  proof (induction bs arbitrary: rg)
    case (Cons b bs)
    then show ?case using sync_one_inv [OF _ assms(2)] by (fastforce split: option.splits)
  qed simp
  from this [of "(0, g)" "(e, g')"] assms show ?thesis by (simp add: tracker_mem_sync_storages_def)
qed

end
