(* ===== verification/Tracker_Join.thy ===== *)
theory Tracker_Join
  imports Tracker_Group
begin

text \<open>
  The table of groups and the arrival of a storage server (\<open>tracker/tracker_mem.c\<close>):
  \<open>tracker_mem_get_group_ex\<close>, \<open>tracker_mem_add_group_ex\<close>, the arrays of path sizes and
  \<open>tracker_mem_add_group_and_storage\<close>. The first part of that function is not in the model of it here. It
  fetches the system files of another tracker when this one has no groups yet or has been down for long, and may replace the whole table
  of groups by what it loads from them (\<open>tracker_mem_get_sys_files_from_others\<close>), or return an error; a tracker whose storage servers
  name no other tracker never does so. The part that takes over the list of trackers is \<open>join_tracker_servers\<close> of \<open>Tracker_Leader\<close>; it
  does not touch a group. A pointer to a group is its index in \<open>groups\<close>.
\<close>

section \<open>The table of groups\<close>

abbreviation (input) FDFS_STORE_LOOKUP_ROUND_ROBIN :: int where "FDFS_STORE_LOOKUP_ROUND_ROBIN \<equiv> 0"
abbreviation (input) FDFS_STORE_LOOKUP_SPEC_GROUP :: int where "FDFS_STORE_LOOKUP_SPEC_GROUP \<equiv> 1"
abbreviation (input) FDFS_STORE_LOOKUP_LOAD_BALANCE :: int where "FDFS_STORE_LOOKUP_LOAD_BALANCE \<equiv> 2"
abbreviation (input) EFAULT :: int where "EFAULT \<equiv> 14"

text \<open>
  \<open>store_server\<close>, which the operations on a single group read, is the field \<open>g_store_server\<close> of
  \<open>tracker_env\<close>; \<open>count\<close> is the length of the list of groups.
\<close>

record FDFSGroups =
  gs_alloc_size :: nat
  gs_groups :: "FDFSGroupInfo list"
  gs_sorted_groups :: "nat list"
  gs_pStoreGroup :: "nat option"
  gs_current_write_group :: int
  gs_store_lookup :: int
  gs_download_server :: int
  gs_store_path :: int
  gs_store_group :: "byte list"

abbreviation grp :: "FDFSGroups \<Rightarrow> nat \<Rightarrow> FDFSGroupInfo" where
  "grp gs k \<equiv> gs_groups gs ! k"

definition upd_grp :: "nat \<Rightarrow> FDFSGroupInfo \<Rightarrow> FDFSGroups \<Rightarrow> FDFSGroups" where
  "upd_grp k g gs = gs\<lparr>gs_groups := (gs_groups gs)[k := g]\<rparr>"

definition tracker_mem_cmp_by_group_name :: "FDFSGroupInfo \<Rightarrow> FDFSGroupInfo \<Rightarrow> int" where
  "tracker_mem_cmp_by_group_name p1 p2 = strcmp (gi_group_name p1) (gi_group_name p2)"

definition tracker_mem_get_group_ex :: "FDFSGroups \<Rightarrow> byte list \<Rightarrow> nat option" where
  "tracker_mem_get_group_ex gs group_name =
     bsearch (\<lambda>k. tracker_mem_cmp_by_group_name (tracker_mem_init_group group_name) (grp gs k)) (gs_sorted_groups gs)"

definition tracker_mem_insert_into_sorted_groups :: "FDFSGroups \<Rightarrow> nat \<Rightarrow> nat list" where
  "tracker_mem_insert_into_sorted_groups gs pTargetGroup =
     insert_into_sorted (\<lambda>k. tracker_mem_cmp_by_group_name (grp gs pTargetGroup) (grp gs k)) pTargetGroup
       (gs_sorted_groups gs)"

text \<open>The error, or the pointer to the group and whether it was inserted.\<close>

definition tracker_mem_add_group_ex ::
    "tracker_env \<Rightarrow> FDFSGroups \<Rightarrow> byte list \<Rightarrow> (int + nat \<times> bool) \<times> FDFSGroups" where
  "tracker_mem_add_group_ex env gs group_name =
     (case tracker_mem_get_group_ex gs group_name of
        Some k \<Rightarrow> (Inr (k, False), gs)
      | None \<Rightarrow>
          if ext_malloc env \<noteq> 0 then (Inl (ext_malloc env), gs)
          else
            (let k = length (gs_groups gs);
                 gs1 = gs\<lparr>gs_alloc_size := (if k \<ge> gs_alloc_size gs then gs_alloc_size gs + TRACKER_MEM_ALLOC_ONCE
                                             else gs_alloc_size gs),
                          gs_groups := gs_groups gs @ [tracker_mem_init_group group_name]\<rparr>;
                 gs2 = gs1\<lparr>gs_sorted_groups := tracker_mem_insert_into_sorted_groups gs1 k\<rparr>
             in (Inr (k, True),
                 if gs_store_lookup gs2 = FDFS_STORE_LOOKUP_SPEC_GROUP \<and> gs_pStoreGroup gs2 = None \<and>
                    strcmp (gs_store_group gs2) group_name = 0
                 then gs2\<lparr>gs_pStoreGroup := Some k\<rparr> else gs2)))"

section \<open>The arrays of path sizes\<close>

text \<open>A failed allocation stops at the first server; the group keeps the arrays it has.\<close>

definition tracker_malloc_group_path_mbs :: "tracker_env \<Rightarrow> FDFSGroupInfo \<Rightarrow> int \<times> FDFSGroupInfo" where
  "tracker_malloc_group_path_mbs env g =
     (if gi_store_path_count g \<le> 0 then (0, g)
      else if ext_malloc env \<noteq> 0 then (ext_malloc env, g)
      else (0, g\<lparr>gi_all_servers := map (\<lambda>s. s\<lparr>sd_path_total_mbs := replicate (nat (gi_store_path_count g)) 0,
                                             sd_path_free_mbs := replicate (nat (gi_store_path_count g)) 0\<rparr>)
                   (gi_all_servers g)\<rparr>))"

definition resize_path_mbs :: "int \<Rightarrow> int \<Rightarrow> int list \<Rightarrow> int list" where
  "resize_path_mbs old_count new_count mbs =
     (let copy = nat (if old_count < new_count then old_count else new_count)
      in take copy mbs @ replicate (nat new_count - copy) 0)"

definition tracker_realloc_group_path_mbs :: "tracker_env \<Rightarrow> FDFSGroupInfo \<Rightarrow> int \<Rightarrow> int \<times> FDFSGroupInfo" where
  "tracker_realloc_group_path_mbs env g new_count =
     (if new_count \<le> 0 then (EINVAL, g)
      else if ext_malloc env \<noteq> 0 then (ext_malloc env, g)
      else (0, g\<lparr>gi_all_servers := map (\<lambda>s.
                   s\<lparr>sd_path_total_mbs := resize_path_mbs (gi_store_path_count g) new_count (sd_path_total_mbs s),
                     sd_path_free_mbs := resize_path_mbs (gi_store_path_count g) new_count (sd_path_free_mbs s)\<rparr>)
                   (gi_all_servers g),
                 gi_store_path_count := new_count\<rparr>))"

section \<open>A storage server joins\<close>

record FDFSStorageJoinBody =
  jb_group_name :: "byte list"
  jb_storage_port :: int
  jb_storage_http_port :: int
  jb_store_path_count :: int
  jb_subdir_count_per_path :: int
  jb_upload_priority :: int
  jb_join_time :: int
  jb_up_time :: int
  jb_version :: "byte list"
  jb_domain_name :: "byte list"
  jb_init_flag :: bool
  jb_status :: int

text \<open>An early return on an error, with the group as it is then.\<close>

definition and_then :: "int \<times> 'g \<Rightarrow> ('g \<Rightarrow> int \<times> 'g) \<Rightarrow> int \<times> 'g" where
  "and_then rg f = (if fst rg \<noteq> 0 then rg else f (snd rg))"

definition upd_by_id :: "byte list \<Rightarrow> (FDFSStorageDetail \<Rightarrow> FDFSStorageDetail) \<Rightarrow> FDFSGroupInfo \<Rightarrow> FDFSGroupInfo" where
  "upd_by_id sid f g =
     (case find (\<lambda>i. strcmp (sd_id (srv g i)) sid = 0) [0..<srv_count g] of None \<Rightarrow> g | Some i \<Rightarrow> upd_srv i f g)"

definition join_storage_port :: "tracker_env \<Rightarrow> byte list \<Rightarrow> int \<Rightarrow> FDFSGroupInfo \<Rightarrow> int \<times> FDFSGroupInfo" where
  "join_storage_port env sid port g =
     (if gi_storage_port g = 0 then (ext_save_groups env, g\<lparr>gi_storage_port := port\<rparr>)
      else if gi_storage_port g \<noteq> port then
        (let g1 = upd_by_id sid (\<lambda>s. s\<lparr>sd_storage_port := port\<rparr>) g
         in if list_all (\<lambda>s. sd_storage_port s = port) (gi_all_servers g1)
            then (ext_save_groups env, g1\<lparr>gi_storage_port := port\<rparr>)
            else (EINVAL, g1))
      else (0, g))"

text \<open>Without \<open>WITH_HTTPD\<close> a different HTTP port is only logged.\<close>

definition join_storage_http_port :: "tracker_env \<Rightarrow> byte list \<Rightarrow> int \<Rightarrow> FDFSGroupInfo \<Rightarrow> int \<times> FDFSGroupInfo" where
  "join_storage_http_port env sid port g =
     (if gi_storage_http_port g = 0 then (ext_save_groups env, g\<lparr>gi_storage_http_port := port\<rparr>)
      else if gi_storage_http_port g \<noteq> port then
        (let g1 = upd_by_id sid (\<lambda>s. s\<lparr>sd_storage_http_port := port\<rparr>) g
         in if list_all (\<lambda>s. sd_storage_http_port s = port) (gi_all_servers g1)
            then (ext_save_groups env, g1\<lparr>gi_storage_http_port := port\<rparr>)
            else (0, g1))
      else (0, g))"

definition join_store_path_count :: "tracker_env \<Rightarrow> int \<Rightarrow> FDFSGroupInfo \<Rightarrow> int \<times> FDFSGroupInfo" where
  "join_store_path_count env path_count g =
     (if gi_store_path_count g = 0 then
        and_then (tracker_malloc_group_path_mbs env (g\<lparr>gi_store_path_count := path_count\<rparr>))
          (\<lambda>g1. (ext_save_groups env, g1))
      else if gi_store_path_count g \<noteq> path_count then
        (if list_all (\<lambda>s. sd_store_path_count s = path_count) (gi_all_servers g)
         then and_then (tracker_realloc_group_path_mbs env g path_count) (\<lambda>g1. (ext_save_groups env, g1))
         else if path_count < gi_store_path_count g then (EINVAL, g)
         else (0, g))
      else (0, g))"

definition join_subdir_count :: "tracker_env \<Rightarrow> int \<Rightarrow> FDFSGroupInfo \<Rightarrow> int \<times> FDFSGroupInfo" where
  "join_subdir_count env subdirs g =
     (if gi_subdir_count_per_path g = 0 then (ext_save_groups env, g\<lparr>gi_subdir_count_per_path := subdirs\<rparr>)
      else if gi_subdir_count_per_path g \<noteq> subdirs then
        (if list_all (\<lambda>s. sd_subdir_count_per_path s = subdirs) (gi_all_servers g)
         then (ext_save_groups env, g\<lparr>gi_subdir_count_per_path := subdirs\<rparr>)
         else (EINVAL, g))
      else (0, g))"

definition join_set_fields :: "FDFSStorageJoinBody \<Rightarrow> FDFSStorageDetail \<Rightarrow> FDFSStorageDetail" where
  "join_set_fields body s =
     s\<lparr>sd_store_path_count := jb_store_path_count body, sd_subdir_count_per_path := jb_subdir_count_per_path body,
       sd_upload_priority := jb_upload_priority body, sd_join_time := jb_join_time body, sd_up_time := jb_up_time body,
       sd_version := take 5 (jb_version body), sd_domain_name := take 127 (jb_domain_name body),
       sd_storage_port := jb_storage_port body, sd_storage_http_port := jb_storage_http_port body\<rparr>"

definition join_status :: "tracker_env \<Rightarrow> FDFSStorageJoinBody \<Rightarrow> nat \<Rightarrow> bool \<Rightarrow> FDFSGroupInfo \<Rightarrow> int \<times> FDFSGroupInfo" where
  "join_status env body i bInserted g =
     and_then
       (if bInserted then
          (ext_save_sys_files env,
           if \<not> jb_init_flag body \<and> jb_status body > 0
           then upd_srv i (\<lambda>s. s\<lparr>sd_status :=
                  (if jb_status body = FDFS_STORAGE_STATUS_ACTIVE then FDFS_STORAGE_STATUS_ONLINE else jb_status body)\<rparr>) g
           else g)
        else (0, g))
       (\<lambda>g1. (0,
          if sd_status (srv g1 i) = FDFS_STORAGE_STATUS_OFFLINE \<or> sd_status (srv g1 i) = FDFS_STORAGE_STATUS_RECOVERY
          then upd_srv i (\<lambda>s. s\<lparr>sd_status := FDFS_STORAGE_STATUS_ONLINE\<rparr>) g1
          else if sd_status (srv g1 i) = FDFS_STORAGE_STATUS_INIT
          then upd_srv i (\<lambda>s. s\<lparr>sd_changelog_offset := g_changelog_fsize env\<rparr>) g1
          else g1))"

text \<open>The part of \<open>tracker_mem_add_group_and_storage\<close> that works on the group; \<open>i\<close> becomes \<open>pClientInfo->pStorage\<close>.\<close>

definition join_storage ::
    "tracker_env \<Rightarrow> byte list \<Rightarrow> byte list \<Rightarrow> FDFSStorageJoinBody \<Rightarrow> FDFSGroupInfo \<Rightarrow> (int \<times> nat option) \<times> FDFSGroupInfo" where
  "join_storage env storage_id ip body g =
     (case and_then (join_storage_port env storage_id (jb_storage_port body) g)
             (join_storage_http_port env storage_id (jb_storage_http_port body)) of
        (result, g1) \<Rightarrow>
          if result \<noteq> 0 then ((result, None), g1)
          else if tracker_mem_get_storage g1 storage_id = None \<and> \<not> jb_init_flag body \<and>
             (jb_status body < 0 \<or> jb_status body = FDFS_STORAGE_STATUS_DELETED \<or>
              jb_status body = FDFS_STORAGE_STATUS_IP_CHANGED \<or> jb_status body = FDFS_STORAGE_STATUS_NONE)
          then ((EFAULT, None), g1)
          else
            (case tracker_mem_add_storage env g1 (Some storage_id) ip of
               (Inl result, g2) \<Rightarrow> ((result, None), g2)
             | (Inr (i, bInserted), g2) \<Rightarrow>
                 (case and_then (and_then (join_store_path_count env (jb_store_path_count body)
                                             (upd_srv i (join_set_fields body) g2))
                                          (join_subdir_count env (jb_subdir_count_per_path body)))
                         (join_status env body i bInserted) of
                    (result, g3) \<Rightarrow> ((result, Some i), g3))))"

definition tracker_mem_add_group_and_storage ::
    "tracker_env \<Rightarrow> FDFSGroups \<Rightarrow> byte list \<Rightarrow> FDFSStorageJoinBody \<Rightarrow> (int \<times> nat option \<times> nat option) \<times> FDFSGroups" where
  "tracker_mem_add_group_and_storage env gs ip body =
     (case tracker_mem_add_group_ex env gs (jb_group_name body) of
        (Inl result, gs1) \<Rightarrow> ((result, None, None), gs1)
      | (Inr (k, bGroupInserted), gs1) \<Rightarrow>
          if bGroupInserted \<and> ext_save_groups env \<noteq> 0 then ((ext_save_groups env, Some k, None), gs1)
          else
            (case (if g_use_storage_id env
                   then map_option si_id (fdfs_get_storage_id_by_ip (g_storage_ids env) (gi_group_name (grp gs1 k)) ip)
                   else Some ip) of
               None \<Rightarrow> ((ENOENT, Some k, None), gs1)
             | Some storage_id \<Rightarrow>
                 (case join_storage env storage_id ip body (grp gs1 k) of
                    ((result, pStorage), g) \<Rightarrow> ((result, Some k, pStorage), upd_grp k g gs1))))"

section \<open>The invariant\<close>

lemma and_then_inv: "\<lbrakk>P (snd rg); \<And>g. P g \<Longrightarrow> P (snd (f g))\<rbrakk> \<Longrightarrow> P (snd (and_then rg f))"
  by (simp add: and_then_def)

lemma upd_by_id_inv:
  "\<lbrakk>group_inv g; \<And>s. same_shape (f s) s; \<And>s. sd_status (f s) = sd_status s\<rbrakk> \<Longrightarrow> group_inv (upd_by_id sid f g)"
  by (auto simp: upd_by_id_def intro: group_inv_upd split: option.split)

lemma join_ports_inv:
  "group_inv g \<Longrightarrow> group_inv (snd (join_storage_port env sid port g))"
  "group_inv g \<Longrightarrow> group_inv (snd (join_storage_http_port env sid port g))"
  using upd_by_id_inv [of g "\<lambda>s. s\<lparr>sd_storage_port := port\<rparr>" sid]
    upd_by_id_inv [of g "\<lambda>s. s\<lparr>sd_storage_http_port := port\<rparr>" sid]
  by (simp_all add: join_storage_port_def join_storage_http_port_def Let_def same_shape_def)

lemma malloc_path_mbs_inv:
  assumes inv: "group_inv g" and c: "gi_store_path_count g = 0" and m: "ext_malloc env = 0"
  shows "group_inv (snd (tracker_malloc_group_path_mbs env (g\<lparr>gi_store_path_count := c'\<rparr>)))"
proof (cases "c' \<le> 0")
  case True
  have "group_inv (g\<lparr>gi_all_servers := gi_all_servers g, gi_store_path_count := c'\<rparr>)"
    using inv c True by (intro group_inv_paths [OF inv]) (simp_all add: group_inv_def size_ok_def)
  then show ?thesis using True by (simp add: tracker_malloc_group_path_mbs_def)
next
  case False
  let ?f = "\<lambda>s. s\<lparr>sd_path_total_mbs := replicate (nat c') 0, sd_path_free_mbs := replicate (nat c') 0\<rparr>"
  have "group_inv (g\<lparr>gi_all_servers := map ?f (gi_all_servers g), gi_store_path_count := c'\<rparr>)"
    by (intro group_inv_paths [OF inv]) simp_all
  moreover have "g\<lparr>gi_all_servers := map ?f (gi_all_servers g), gi_store_path_count := c'\<rparr> =
      g\<lparr>gi_store_path_count := c', gi_all_servers := map ?f (gi_all_servers g)\<rparr>" by simp
  ultimately show ?thesis using False m by (simp add: tracker_malloc_group_path_mbs_def)
qed

lemma length_resize_path_mbs:
  "\<lbrakk>length mbs = nat old; 0 < new\<rbrakk> \<Longrightarrow> length (resize_path_mbs old new mbs) = nat new"
  by (simp add: resize_path_mbs_def Let_def)

lemma realloc_path_mbs_inv:
  assumes inv: "group_inv g"
  shows "group_inv (snd (tracker_realloc_group_path_mbs env g new))"
proof (cases "new \<le> 0 \<or> ext_malloc env \<noteq> 0")
  case False
  let ?f = "\<lambda>s. s\<lparr>sd_path_total_mbs := resize_path_mbs (gi_store_path_count g) new (sd_path_total_mbs s),
      sd_path_free_mbs := resize_path_mbs (gi_store_path_count g) new (sd_path_free_mbs s)\<rparr>"
  have "group_inv (g\<lparr>gi_all_servers := map ?f (gi_all_servers g), gi_store_path_count := new\<rparr>)"
    using inv False by (intro group_inv_paths [OF inv]) (simp_all add: group_inv_def size_ok_def length_resize_path_mbs)
  then show ?thesis using False by (simp add: tracker_realloc_group_path_mbs_def)
qed (use inv in \<open>auto simp: tracker_realloc_group_path_mbs_def\<close>)

lemma join_store_path_count_inv:
  assumes inv: "group_inv g" and m: "ext_malloc env = 0"
  shows "group_inv (snd (join_store_path_count env c g))"
proof -
  note save = and_then_inv [where P = group_inv and f = "\<lambda>g1. (ext_save_groups env, g1)"]
  have "group_inv (snd (and_then (tracker_malloc_group_path_mbs env (g\<lparr>gi_store_path_count := c\<rparr>)) (\<lambda>g1. (ext_save_groups env, g1))))"
    if "gi_store_path_count g = 0"
    by (rule save) (simp_all add: malloc_path_mbs_inv [OF inv that m])
  moreover have "group_inv (snd (and_then (tracker_realloc_group_path_mbs env g c) (\<lambda>g1. (ext_save_groups env, g1))))"
    by (rule save) (simp_all add: realloc_path_mbs_inv [OF inv])
  ultimately show ?thesis using inv by (simp add: join_store_path_count_def)
qed

lemma join_subdir_count_inv: "group_inv g \<Longrightarrow> group_inv (snd (join_subdir_count env c g))"
  by (simp add: join_subdir_count_def)

lemma join_status_inv:
  assumes inv: "group_inv g" and ins: "b \<Longrightarrow> sd_status (srv g i) \<noteq> FDFS_STORAGE_STATUS_ACTIVE"
  shows "group_inv (snd (join_status env body i b g))"
  unfolding join_status_def
proof (rule and_then_inv [where P = group_inv])
  show "group_inv (snd (if b then (ext_save_sys_files env,
           if \<not> jb_init_flag body \<and> jb_status body > 0
           then upd_srv i (\<lambda>s. s\<lparr>sd_status :=
                  (if jb_status body = FDFS_STORAGE_STATUS_ACTIVE then FDFS_STORAGE_STATUS_ONLINE else jb_status body)\<rparr>) g
           else g) else (0, g)))"
    using set_status_inv [OF inv, of i] ins inv by simp
  fix h assume h: "group_inv h"
  have "group_inv (upd_srv i (\<lambda>s. s\<lparr>sd_changelog_offset := g_changelog_fsize env\<rparr>) h)"
    by (rule group_inv_upd [OF h]) (simp_all add: same_shape_def)
  then show "group_inv (snd (0 :: int,
      if sd_status (srv h i) = FDFS_STORAGE_STATUS_OFFLINE \<or> sd_status (srv h i) = FDFS_STORAGE_STATUS_RECOVERY
      then upd_srv i (\<lambda>s. s\<lparr>sd_status := FDFS_STORAGE_STATUS_ONLINE\<rparr>) h
      else if sd_status (srv h i) = FDFS_STORAGE_STATUS_INIT
      then upd_srv i (\<lambda>s. s\<lparr>sd_changelog_offset := g_changelog_fsize env\<rparr>) h else h))"
    using set_status_inv [OF h, of i FDFS_STORAGE_STATUS_ONLINE] h by auto
qed

lemma join_store_path_count_status:
  "i < srv_count g \<Longrightarrow> sd_status (srv (snd (join_store_path_count env c g)) i) = sd_status (srv g i)"
  "srv_count (snd (join_store_path_count env c g)) = srv_count g"
  by (simp_all add: join_store_path_count_def and_then_def tracker_malloc_group_path_mbs_def tracker_realloc_group_path_mbs_def)

lemma join_subdir_count_servers: "gi_all_servers (snd (join_subdir_count env c g)) = gi_all_servers g"
  by (simp add: join_subdir_count_def)

lemma join_storage_inv:
  assumes inv: "group_inv g" and ids: "ids_ok env" "length ip \<le> 15" "length sid \<le> 15" and m: "ext_malloc env = 0"
  shows "group_inv (snd (join_storage env sid ip body g))"
proof -
  let ?ports = "and_then (join_storage_port env sid (jb_storage_port body) g)
      (join_storage_http_port env sid (jb_storage_http_port body))"
  obtain e1 g1 where p: "?ports = (e1, g1)" by fastforce
  have "group_inv (snd ?ports)"
    by (rule and_then_inv [where P = group_inv]) (simp_all add: join_ports_inv inv)
  then have inv1: "group_inv g1" by (simp add: p)
  obtain r g2 where add: "tracker_mem_add_storage env g1 (Some sid) ip = (r, g2)" by fastforce
  have inv2: "group_inv g2" "\<And>i b. r = Inr (i, b) \<Longrightarrow> i < srv_count g2"
    using add_storage_inv [OF inv1 ids(1,2) _ add] ids(3) by auto
  have final: "group_inv (snd (and_then (and_then (join_store_path_count env (jb_store_path_count body)
      (upd_srv i (join_set_fields body) g2)) (join_subdir_count env (jb_subdir_count_per_path body))) (join_status env body i b)))"
    if r: "r = Inr (i, b)" for i b
  proof -
    let ?P = "\<lambda>h. group_inv h \<and> i < srv_count h \<and> (b \<longrightarrow> sd_status (srv h i) \<noteq> FDFS_STORAGE_STATUS_ACTIVE)"
    let ?g3 = "upd_srv i (join_set_fields body) g2"
    have b: "sd_status (srv g2 i) = FDFS_STORAGE_STATUS_INIT" if b: "b"
      using add_storage_inserted(5) [OF inv1, of env "Some sid" ip i g2] add r b by simp
    have i: "i < srv_count g2" using inv2(2) [OF r] .
    have "group_inv ?g3"
      by (rule group_inv_upd [OF inv2(1)]) (simp_all add: join_set_fields_def same_shape_def)
    moreover have "sd_status (srv ?g3 i) = sd_status (srv g2 i)" using i by (simp add: srv_upd join_set_fields_def)
    ultimately have P3: "?P (snd (join_store_path_count env (jb_store_path_count body) ?g3))"
      using i b join_store_path_count_inv [OF _ m, of ?g3] by (auto simp: join_store_path_count_status)
    have "?P (snd (and_then (join_store_path_count env (jb_store_path_count body) ?g3) (join_subdir_count env (jb_subdir_count_per_path body))))"
      by (rule and_then_inv [where P = ?P, OF P3]) (simp add: join_subdir_count_inv join_subdir_count_servers)
    then have "group_inv (snd (and_then (join_store_path_count env (jb_store_path_count body) ?g3) (join_subdir_count env (jb_subdir_count_per_path body))))"
      and "b \<Longrightarrow> sd_status (srv (snd (and_then (join_store_path_count env (jb_store_path_count body) ?g3)
             (join_subdir_count env (jb_subdir_count_per_path body)))) i) \<noteq> FDFS_STORAGE_STATUS_ACTIVE" by auto
    then show ?thesis by (simp add: and_then_def [of _ "join_status env body i b"] join_status_inv)
  qed
  show ?thesis
    using inv1 inv2(1) final by (auto simp: join_storage_def p add case_prod_unfold split: sum.split)
qed

text \<open>The table: \<open>sorted_groups\<close> holds every group once, in the order of the names, and every group is well-formed.\<close>

definition groups_inv :: "FDFSGroups \<Rightarrow> bool" where
  "groups_inv gs \<longleftrightarrow> mset (gs_sorted_groups gs) = mset [0..<length (gs_groups gs)] \<and>
     sorted_key (\<lambda>k. gi_group_name (grp gs k)) (gs_sorted_groups gs) \<and>
     (\<forall>k < length (gs_groups gs). group_inv (grp gs k)) \<and>
     (\<forall>k. gs_pStoreGroup gs = Some k \<longrightarrow> k < length (gs_groups gs)) \<and>
     length (gs_groups gs) \<le> gs_alloc_size gs"

interpretation by_name: array_order "\<lambda>_. True" gi_group_name tracker_mem_cmp_by_group_name
  by unfold_locales (auto simp: tracker_mem_cmp_by_group_name_def)

lemma set_sorted_groups: "groups_inv gs \<Longrightarrow> set (gs_sorted_groups gs) = {k. k < length (gs_groups gs)}"
proof -
  assume "groups_inv gs"
  then have "mset (gs_sorted_groups gs) = mset [0..<length (gs_groups gs)]" by (simp add: groups_inv_def)
  then have "set (gs_sorted_groups gs) = set [0..<length (gs_groups gs)]" by (rule mset_eq_setD)
  then show ?thesis by (simp only: set_upt atLeast0LessThan lessThan_def)
qed

lemma get_group_iff:
  "groups_inv gs \<Longrightarrow> tracker_mem_get_group_ex gs name = Some k \<longleftrightarrow> k < length (gs_groups gs) \<and> gi_group_name (grp gs k) = name"
  using by_name.bsearch_iff [where a = "gs_sorted_groups gs" and deref = "\<lambda>k. grp gs k" and t = "tracker_mem_init_group name" and p = k]
    set_sorted_groups [of gs]
  by (simp add: tracker_mem_get_group_ex_def groups_inv_def tracker_mem_init_group_def)

lemma groups_inv_upd:
  assumes inv: "groups_inv gs" and g: "group_inv g" "gi_group_name g = gi_group_name (grp gs k)"
  shows "groups_inv (upd_grp k g gs)"
proof -
  have names: "gi_group_name ((gs_groups gs)[k := g] ! j) = gi_group_name (grp gs j)" if "j < length (gs_groups gs)" for j
    using g(2) that by (cases "j = k") simp_all
  have "sorted_key (\<lambda>j. gi_group_name ((gs_groups gs)[k := g] ! j)) (gs_sorted_groups gs)"
    using inv names set_sorted_groups [OF inv]
      sorted_key_cong [of "gs_sorted_groups gs" "\<lambda>j. gi_group_name ((gs_groups gs)[k := g] ! j)" "\<lambda>j. gi_group_name (grp gs j)"]
    by (simp add: groups_inv_def)
  moreover have "group_inv ((gs_groups gs)[k := g] ! j)" if "j < length (gs_groups gs)" for j
    using inv g(1) that by (cases "j = k") (simp_all add: groups_inv_def)
  ultimately show ?thesis using inv by (simp add: groups_inv_def upd_grp_def)
qed

lemma add_group_inv:
  assumes inv: "groups_inv gs" and r: "tracker_mem_add_group_ex env gs name = (r, gs')"
  shows "groups_inv gs' \<and> (\<forall>k b. r = Inr (k, b) \<longrightarrow> k < length (gs_groups gs') \<and> gi_group_name (grp gs' k) = name)"
proof (cases "tracker_mem_get_group_ex gs name")
  case (Some k)
  then have "r = Inr (k, False)" "gs' = gs" using r by (simp_all add: tracker_mem_add_group_ex_def)
  then show ?thesis using inv Some get_group_iff [OF inv] by simp
next
  case None
  let ?n = "length (gs_groups gs)"
  define gs1 where "gs1 = gs\<lparr>gs_alloc_size := (if ?n \<ge> gs_alloc_size gs then gs_alloc_size gs + 2 else gs_alloc_size gs),
      gs_groups := gs_groups gs @ [tracker_mem_init_group name]\<rparr>"
  show ?thesis
  proof (cases "ext_malloc env = 0")
    case True
    have fields: "gs_sorted_groups gs1 = gs_sorted_groups gs" "length (gs_groups gs1) = Suc ?n" "gs_pStoreGroup gs1 = gs_pStoreGroup gs"
      by (simp_all add: gs1_def)
    have old: "grp gs1 k = grp gs k" if "k < ?n" for k using that by (simp add: gs1_def nth_append)
    have new: "grp gs1 ?n = tracker_mem_init_group name" by (simp add: gs1_def)
    let ?xs = "tracker_mem_insert_into_sorted_groups gs1 ?n"
    have sorted_g: "sorted_key (\<lambda>k. gi_group_name (grp gs1 k)) (gs_sorted_groups gs)"
      using inv old set_sorted_groups [OF inv]
        sorted_key_cong [of "gs_sorted_groups gs" "\<lambda>k. gi_group_name (grp gs1 k)" "\<lambda>k. gi_group_name (grp gs k)"]
      by (simp add: groups_inv_def)
    have "gi_group_name (grp gs1 ?n) \<notin> (\<lambda>k. gi_group_name (grp gs1 k)) ` set (gs_sorted_groups gs)"
      using None get_group_iff [OF inv, of name] old set_sorted_groups [OF inv]
      by (auto simp: new tracker_mem_init_group_def)
    then have xs: "sorted_key (\<lambda>k. gi_group_name (grp gs1 k)) ?xs"
      unfolding tracker_mem_insert_into_sorted_groups_def fields
      by (intro by_name.sorted_insert_into_sorted [where deref = "\<lambda>k. grp gs1 k"]) (use sorted_g in simp_all)
    have mset_xs: "mset ?xs = mset [0..<Suc ?n]"
      using inv by (simp add: tracker_mem_insert_into_sorted_groups_def groups_inv_def fields)
    have all: "\<forall>k < Suc ?n. group_inv (grp gs1 k)"
      using inv old new group_inv_init by (simp add: groups_inv_def less_Suc_eq)
    have alloc: "Suc ?n \<le> gs_alloc_size gs1" using inv by (auto simp: gs1_def groups_inv_def)
    have "groups_inv (gs1\<lparr>gs_sorted_groups := ?xs\<rparr>)"
      using inv xs mset_xs all alloc by (auto simp: groups_inv_def fields less_Suc_eq)
    moreover have "groups_inv (gs1\<lparr>gs_sorted_groups := ?xs, gs_pStoreGroup := Some ?n\<rparr>)"
      using xs mset_xs all alloc by (simp add: groups_inv_def fields)
    moreover have "r = Inr (?n, True)" "gs' = (let gs2 = gs1\<lparr>gs_sorted_groups := ?xs\<rparr> in
        if gs_store_lookup gs2 = 1 \<and> gs_pStoreGroup gs2 = None \<and> strcmp (gs_store_group gs2) name = 0
        then gs2\<lparr>gs_pStoreGroup := Some ?n\<rparr> else gs2)"
      using r None True by (auto simp: tracker_mem_add_group_ex_def Let_def gs1_def)
    moreover have "gi_group_name (grp gs1 ?n) = name" by (simp add: new tracker_mem_init_group_def)
    ultimately show ?thesis by (simp add: Let_def fields)
  next
    case False
    then show ?thesis using inv r None by (auto simp: tracker_mem_add_group_ex_def)
  qed
qed

text \<open>The operations on a group keep its name.\<close>

lemma name_upd [simp]: "gi_group_name (upd_by_id sid f g) = gi_group_name g"
  by (simp add: upd_by_id_def split: option.split)

lemma name_find_store [simp]: "gi_group_name (tracker_mem_find_store_server env g) = gi_group_name g"
  by (subst find_store_server_eq) simp

lemma name_find_trunk [simp]: "gi_group_name (snd (tracker_mem_find_trunk_server env g save)) = gi_group_name g"
  by (auto simp: tracker_mem_find_trunk_server_def tracker_mem_do_set_trunk_server_def
      tracker_set_trunk_server_and_log_def Let_def split: option.split sum.split)

lemma name_add_storage [simp]: "gi_group_name (snd (tracker_mem_add_storage env g id_opt ip)) = gi_group_name g"
  by (simp add: tracker_mem_add_storage_def tracker_mem_realloc_store_servers_def insert_storage_def Let_def
      case_prod_unfold split: sum.split option.split)

lemma name_and_then: "\<lbrakk>gi_group_name (snd rg) = n; \<And>g. gi_group_name (snd (f g)) = gi_group_name g\<rbrakk> \<Longrightarrow> gi_group_name (snd (and_then rg f)) = n"
  by (simp add: and_then_def)

lemma name_join_steps [simp]:
  "gi_group_name (snd (join_storage_port env sid p g)) = gi_group_name g"
  "gi_group_name (snd (join_storage_http_port env sid p g)) = gi_group_name g"
  "gi_group_name (snd (join_store_path_count env c g)) = gi_group_name g"
  "gi_group_name (snd (join_subdir_count env d g)) = gi_group_name g"
  "gi_group_name (snd (join_status env body i b g)) = gi_group_name g"
  by (simp_all add: join_storage_port_def join_storage_http_port_def join_store_path_count_def join_subdir_count_def
      join_status_def and_then_def tracker_malloc_group_path_mbs_def tracker_realloc_group_path_mbs_def Let_def)

lemma name_join_storage: "gi_group_name (snd (join_storage env sid ip body g)) = gi_group_name g"
proof -
  let ?ports = "and_then (join_storage_port env sid (jb_storage_port body) g)
      (join_storage_http_port env sid (jb_storage_http_port body))"
  obtain e1 g1 where p: "?ports = (e1, g1)" by fastforce
  have "gi_group_name (snd ?ports) = gi_group_name g" by (rule name_and_then) simp_all
  then have n1: "gi_group_name g1 = gi_group_name g" by (simp add: p)
  obtain r g2 where add: "tracker_mem_add_storage env g1 (Some sid) ip = (r, g2)" by fastforce
  have n2: "gi_group_name g2 = gi_group_name g"
    using name_add_storage [of env g1 "Some sid" ip] add n1 by simp
  have "gi_group_name (snd (and_then (and_then (join_store_path_count env (jb_store_path_count body)
      (upd_srv i (join_set_fields body) g2)) (join_subdir_count env (jb_subdir_count_per_path body))) (join_status env body i b)))
      = gi_group_name g" for i b
    by (intro name_and_then) (simp_all add: n2)
  then show ?thesis using n1 n2 by (auto simp: join_storage_def p add case_prod_unfold split: sum.split)
qed

lemma join_inv:
  assumes inv: "groups_inv gs" and ids: "ids_ok env" "length ip \<le> 15" and m: "ext_malloc env = 0"
  shows "groups_inv (snd (tracker_mem_add_group_and_storage env gs ip body))"
proof -
  obtain r gs1 where add: "tracker_mem_add_group_ex env gs (jb_group_name body) = (r, gs1)" by fastforce
  note inv1 = add_group_inv [OF inv add]
  have sid: "length (si_id e) \<le> 15" if "fdfs_get_storage_id_by_ip (g_storage_ids env) n ip = Some e" for n e
    using that ids(1) bsearch_in_set by (fastforce simp: fdfs_get_storage_id_by_ip_def ids_ok_def Let_def)
  have upd: "groups_inv (upd_grp k (snd (join_storage env s ip body (grp gs1 k))) gs1)"
    if "r = Inr (k, b)" "length s \<le> 15" for k b s
    using that inv1 ids m by (intro groups_inv_upd) (auto simp: name_join_storage intro!: join_storage_inv simp: groups_inv_def)
  show ?thesis
    using inv1 upd sid ids(2)
    by (auto simp: tracker_mem_add_group_and_storage_def add case_prod_unfold split: sum.split option.split)
qed

end
