(* ===== verification/Tracker_Service.thy ===== *)
theory Tracker_Service
  imports Storage_Path Tracker_Join
begin

text \<open>
  The request handlers of the tracker (\<open>tracker/tracker_service.c\<close>) that storage servers and clients
  call: heart beats, disk usage and synchronisation reports, the negotiation of a synchronisation source,
  the reply with the changed servers, and the choice of group, server and store path for an upload.
  A handler works on the group and the server of its connection; request bodies are byte lists.
  \<open>None\<close> as the result of a handler stands for undefined behaviour of the C code.
\<close>

section \<open>Bytes\<close>

text \<open>A string written to a field of \<open>n\<close> bytes, and numbers in a body.\<close>

definition pad :: "nat \<Rightarrow> byte list \<Rightarrow> byte list" where
  "pad n s = take n s @ replicate (n - length s) 0"

definition long_at :: "byte list \<Rightarrow> nat \<Rightarrow> int" where
  "long_at body off = buff2long (take 8 (drop off body))"

definition int_at :: "byte list \<Rightarrow> nat \<Rightarrow> int" where
  "int_at body off = buff2int (take 4 (drop off body))"

section \<open>The reply with the changes\<close>

definition brief_bytes :: "int \<Rightarrow> int \<Rightarrow> byte list \<Rightarrow> byte list \<Rightarrow> byte list" where
  "brief_bytes st port sid ip = word_of_int st # int2buff port @ pad 16 sid @ pad 16 ip"

text \<open>
  \<open>leader\<close> is the address of the leading tracker when there is one, \<open>leader_chg\<close> the counter
  \<open>g_tracker_leader_chg_count\<close> and \<open>seen\<close> the value this connection has seen.
\<close>

definition tracker_check_and_sync ::
    "tracker_env \<Rightarrow> int \<Rightarrow> (byte list \<times> int) option \<Rightarrow> int \<Rightarrow> FDFSGroupInfo \<Rightarrow> nat \<Rightarrow> int \<Rightarrow>
       int \<times> byte list \<times> int \<times> FDFSGroupInfo" where
  "tracker_check_and_sync env leader_chg leader seen g p st =
     (if st \<noteq> 0 then (st, [], seen, g)
      else
        (let (f1, b1, seen1) =
               (if g_if_leader_self env \<and> seen \<noteq> leader_chg then
                  (1, case leader of None \<Rightarrow> replicate 37 0 | Some (ip, port) \<Rightarrow> brief_bytes 0 port (take 15 ip) ip, leader_chg)
                else (0 :: byte, [], seen));
             (f2, b2, g1) =
               (if g_if_leader_self env \<and> sd_trunk_chg_count (srv g p) \<noteq> gi_trunk_chg_count g then
                  (2, case gi_pTrunkServer g of
                        None \<Rightarrow> replicate 37 0
                      | Some t \<Rightarrow> brief_bytes (sd_status (srv g t)) (gi_storage_port g) (sd_id (srv g t)) (sd_ip_addr (srv g t)),
                   upd_srv p (\<lambda>s. s\<lparr>sd_trunk_chg_count := gi_trunk_chg_count g\<rparr>) g)
                else (0 :: byte, [], g));
             (f3, b3, g2) =
               (if sd_chg_count (srv g1 p) \<noteq> gi_chg_count g1 then
                  (4, concat (map (\<lambda>i. brief_bytes (sd_status (srv g1 i)) (gi_storage_port g1) (sd_id (srv g1 i)) (sd_ip_addr (srv g1 i)))
                        (gi_sorted_servers g1)),
                   upd_srv p (\<lambda>s. s\<lparr>sd_chg_count := gi_chg_count g1\<rparr>) g1)
                else (0 :: byte, [], g1))
         in (0, (f1 + f2 + f3) # b1 @ b2 @ b3, seen1, g2)))"

section \<open>Synchronisation of a new server\<close>

definition sync_notify_wait :: "FDFSGroupInfo \<Rightarrow> nat \<Rightarrow> FDFSGroupInfo" where
  "sync_notify_wait g p =
     (if sd_status (srv g p) = FDFS_STORAGE_STATUS_INIT
      then (let g1 = upd_srv p (\<lambda>s. s\<lparr>sd_status := FDFS_STORAGE_STATUS_WAIT_SYNC\<rparr>) g
            in g1\<lparr>gi_chg_count := gi_chg_count g1 + 1\<rparr>)
      else g)"

definition sync_notify_src :: "FDFSGroupInfo \<Rightarrow> nat \<Rightarrow> byte list \<Rightarrow> int \<times> FDFSGroupInfo" where
  "sync_notify_src g p body =
     (let found = tracker_mem_get_storage g (c_str (take 15 body));
          g1 = upd_srv p (\<lambda>s. s\<lparr>sd_psync_src_server := found\<rparr>) g
      in case found of
           None \<Rightarrow> (ENOENT, g1)
         | Some q \<Rightarrow>
             if sd_status (srv g1 q) = FDFS_STORAGE_STATUS_DELETED then (ENOENT, g1)
             else if sd_status (srv g1 q) = FDFS_STORAGE_STATUS_IP_CHANGED then (ENOENT, g1)
             else (0, upd_srv p (\<lambda>s. s\<lparr>sd_sync_until_timestamp := c_int (long_at body 16)\<rparr>) g1))"

definition tracker_deal_storage_sync_notify :: "FDFSGroupInfo \<Rightarrow> nat \<Rightarrow> byte list \<Rightarrow> int \<times> FDFSGroupInfo" where
  "tracker_deal_storage_sync_notify g p body =
     (if length body \<noteq> 24 then (EINVAL, g)
      else if body ! 0 = 0 then
        (0, if sd_status (srv g p) \<in> {FDFS_STORAGE_STATUS_INIT, FDFS_STORAGE_STATUS_WAIT_SYNC, FDFS_STORAGE_STATUS_SYNCING}
            then (let g1 = upd_srv p (\<lambda>s. s\<lparr>sd_status := FDFS_STORAGE_STATUS_ONLINE\<rparr>) g
                  in g1\<lparr>gi_chg_count := gi_chg_count g1 + 1\<rparr>)
            else g)
      else if sd_psync_src_server (srv (sync_notify_wait g p) p) = None
      then sync_notify_src (sync_notify_wait g p) p body
      else (0, sync_notify_wait g p))"

text \<open>A request of a source server for the destination \<open>dest\<close>: the source and the time stamp, or nothing.\<close>

definition tracker_deal_storage_sync_src_req ::
    "FDFSGroupInfo \<Rightarrow> byte list \<Rightarrow> (int \<times> (byte list \<times> int) option) \<times> FDFSGroupInfo" where
  "tracker_deal_storage_sync_src_req g dest =
     (case tracker_mem_get_storage g dest of
        None \<Rightarrow> ((ENOENT, None), g)
      | Some d \<Rightarrow>
          if sd_status (srv g d) \<in> {FDFS_STORAGE_STATUS_INIT, FDFS_STORAGE_STATUS_DELETED, FDFS_STORAGE_STATUS_IP_CHANGED}
          then ((ENOENT, None), g)
          else
            (case sd_psync_src_server (srv g d) of
               None \<Rightarrow> ((0, None), g)
             | Some q \<Rightarrow>
                 if sd_status (srv g q) \<in> {FDFS_STORAGE_STATUS_OFFLINE, FDFS_STORAGE_STATUS_ONLINE,
                                            FDFS_STORAGE_STATUS_ACTIVE, FDFS_STORAGE_STATUS_RECOVERY}
                 then ((0, Some (sd_id (srv g q), sd_sync_until_timestamp (srv g d))), g)
                 else ((0, None), upd_srv d (\<lambda>s. s\<lparr>sd_psync_src_server := None\<rparr>) g)))"

definition tracker_deal_storage_sync_dest_req ::
    "tracker_env \<Rightarrow> FDFSGroupInfo \<Rightarrow> nat \<Rightarrow> byte list \<Rightarrow> (int \<times> (byte list \<times> int) option) \<times> FDFSGroupInfo" where
  "tracker_deal_storage_sync_dest_req env g p body =
     (let until = c_int (g_current_time env);
          source_count = length (filter (\<lambda>s. strcmp (sd_id s) (sd_id (srv g p)) \<noteq> 0 \<and>
             sd_status s \<in> {FDFS_STORAGE_STATUS_OFFLINE, FDFS_STORAGE_STATUS_ONLINE, FDFS_STORAGE_STATUS_ACTIVE})
             (gi_all_servers g))
      in if body \<noteq> [] then ((EINVAL, None), g)
         else if srv_count g \<le> 1 \<or> source_count = 0 then
           (let g1 = upd_srv p (\<lambda>s. s\<lparr>sd_status := FDFS_STORAGE_STATUS_ONLINE\<rparr>) g
            in ((0, None), g1\<lparr>gi_chg_count := gi_chg_count g1 + 1\<rparr>))
         else
           (case tracker_get_group_sync_src_server g p of
              None \<Rightarrow> ((ENOENT, None), g)
            | Some q \<Rightarrow>
                (let g1 = upd_srv p (\<lambda>s. s\<lparr>sd_psync_src_server := Some q, sd_sync_until_timestamp := until,
                                          sd_status := FDFS_STORAGE_STATUS_WAIT_SYNC\<rparr>) g
                 in ((0, Some (sd_id (srv g q), until)), g1\<lparr>gi_chg_count := gi_chg_count g1 + 1\<rparr>))))"

definition tracker_deal_storage_sync_dest_query :: "FDFSGroupInfo \<Rightarrow> nat \<Rightarrow> byte list \<Rightarrow> int \<times> (byte list \<times> int) option" where
  "tracker_deal_storage_sync_dest_query g p body =
     (if body \<noteq> [] then (EINVAL, None)
      else (0, map_option (\<lambda>q. (sd_id (srv g q), sd_sync_until_timestamp (srv g p))) (sd_psync_src_server (srv g p))))"

text \<open>
  The time stamps up to which the client has received files, one entry of 20 bytes per source server.
  The two loops of the handler differ in the combination of the time stamps.
\<close>

definition sync_report_entry ::
    "FDFSGroupInfo \<Rightarrow> nat \<Rightarrow> byte list \<Rightarrow> nat \<Rightarrow> (nat \<times> int) option" where
  "sync_report_entry g dest_index body e =
     (let sync_timestamp = int_at body (20 * e + 16) in
      if sync_timestamp \<le> 0 then None
      else
        (case tracker_mem_get_storage g (c_str (take 15 (drop (20 * e) body))) of
           None \<Rightarrow> None
         | Some q \<Rightarrow>
             if sd_status (srv g q) \<noteq> FDFS_STORAGE_STATUS_ACTIVE then None
             else
               (case tracker_mem_get_storage_index g q of
                  None \<Rightarrow> None
                | Some src_index \<Rightarrow> if src_index = dest_index then None else Some (src_index, sync_timestamp))))"

definition set_sync_timestamp :: "nat \<Rightarrow> nat \<Rightarrow> int \<Rightarrow> FDFSGroupInfo \<Rightarrow> FDFSGroupInfo" where
  "set_sync_timestamp i j t g =
     g\<lparr>gi_last_sync_timestamps := (gi_last_sync_timestamps g)[i := (gi_last_sync_timestamps g ! i)[j := t]]\<rparr>"

definition sync_report_step ::
    "bool \<Rightarrow> nat \<Rightarrow> byte list \<Rightarrow> int \<times> FDFSGroupInfo \<Rightarrow> nat \<Rightarrow> int \<times> FDFSGroupInfo" where
  "sync_report_step round_robin dest_index body tg e =
     (case sync_report_entry (snd tg) dest_index body e of
        None \<Rightarrow> tg
      | Some (src_index, t) \<Rightarrow>
          ((if round_robin then (if fst tg = 0 then t else if t < fst tg then t else fst tg)
            else (if t > fst tg then t else fst tg)),
           set_sync_timestamp src_index dest_index t (snd tg)))"

text \<open>The result is the status handed to \<open>tracker_check_and_sync\<close>; \<open>save\<close> says whether this report is the one that is written to disk.\<close>

definition tracker_deal_storage_sync_report ::
    "tracker_env \<Rightarrow> bool \<Rightarrow> FDFSGroupInfo \<Rightarrow> nat \<Rightarrow> byte list \<Rightarrow> int \<times> FDFSGroupInfo" where
  "tracker_deal_storage_sync_report env save_now g p body =
     (if body = [] \<or> length body mod 20 \<noteq> 0 then (EINVAL, g)
      else
        (case tracker_mem_get_storage_index g p of
           None \<Rightarrow> (0, g)
         | Some dest_index \<Rightarrow>
             (let entries = [0..<length body div 20];
                  st = (if save_now then ext_save_sync_timestamps env else 0)
              in if g_store_server env = FDFS_STORE_SERVER_ROUND_ROBIN then
                   (let (t, g1) = foldl (sync_report_step True dest_index body) (0, g) entries
                    in (st, if t > 0 then upd_srv p (\<lambda>s. s\<lparr>sd_stat := (sd_stat s)\<lparr>st_last_synced_timestamp := t\<rparr>\<rparr>) g1 else g1))
                 else
                   (let (t, g1) = foldl (sync_report_step False dest_index body)
                                    (st_last_synced_timestamp (sd_stat (srv g p)), g) entries
                    in (st, upd_srv p (\<lambda>s. s\<lparr>sd_stat := (sd_stat s)\<lparr>st_last_synced_timestamp := t\<rparr>\<rparr>) g1)))))"

section \<open>Heart beats and disk usage\<close>

text \<open>\<open>save\<close> as above. An empty body is a plain heart beat.\<close>

definition beat_stat :: "byte list \<Rightarrow> FDFSStorageStat \<Rightarrow> FDFSStorageStat" where
  "beat_stat body st =
     st\<lparr>st_counters := map (\<lambda>k. long_at body (8 * k)) [0..<38],
        st_last_source_update := long_at body (8 * 38), st_last_sync_update := long_at body (8 * 39)\<rparr>"

definition tracker_deal_storage_beat ::
    "tracker_env \<Rightarrow> bool \<Rightarrow> FDFSGroupInfo \<Rightarrow> nat \<Rightarrow> byte list \<Rightarrow> int \<times> FDFSGroupInfo" where
  "tracker_deal_storage_beat env save_now g p body =
     (let (st, g1) =
            (if body = [] then (0, g)
             else if length body \<noteq> 336 then (EINVAL, g)
             else (if save_now then ext_save_storages env else 0, upd_srv p (\<lambda>s. s\<lparr>sd_stat := beat_stat body (sd_stat s)\<rparr>) g))
      in if st = 0 then
           (0, upd_srv p (\<lambda>s. s\<lparr>sd_stat := (sd_stat s)\<lparr>st_last_heart_beat_time := g_current_time env\<rparr>\<rparr>)
                 (tracker_mem_active_store_server env g1 p))
         else (st, g1))"

text \<open>
  The loop over the store paths of a disk usage report. The numbers of a path take 16 bytes of the
  body. The load balance compares the free space of the path just read with that of the current
  write path, whose index the loop does not check.
\<close>

definition df_report_path :: "byte list \<Rightarrow> nat \<Rightarrow> FDFSStorageDetail \<Rightarrow> FDFSStorageDetail" where
  "df_report_path body i s =
     (let t = long_at body (16 * i); f = long_at body (16 * i + 8)
      in s\<lparr>sd_path_total_mbs := (sd_path_total_mbs s)[i := t], sd_path_free_mbs := (sd_path_free_mbs s)[i := f],
           sd_total_mb := sd_total_mb s + t, sd_free_mb := sd_free_mb s + f\<rparr>)"

definition df_report_balance :: "nat \<Rightarrow> FDFSStorageDetail \<Rightarrow> FDFSStorageDetail" where
  "df_report_balance i s =
     (if sd_path_free_mbs s ! i > sd_path_free_mbs s ! nat (sd_current_write_path s)
      then s\<lparr>sd_current_write_path := int i\<rparr> else s)"

fun df_report_loop :: "bool \<Rightarrow> byte list \<Rightarrow> nat \<Rightarrow> nat \<Rightarrow> FDFSStorageDetail \<Rightarrow> FDFSStorageDetail option" where
  "df_report_loop lb body i 0 s = Some s"
| "df_report_loop lb body i (Suc n) s =
     (if i \<ge> length (sd_path_total_mbs s) \<or> i \<ge> length (sd_path_free_mbs s) then None
      else
        (let s1 = df_report_path body i s
         in if \<not> lb then df_report_loop lb body (i + 1) n s1
            else if sd_current_write_path s1 < 0 \<or> sd_current_write_path s1 \<ge> int (length (sd_path_free_mbs s1)) then None
            else df_report_loop lb body (i + 1) n (df_report_balance i s1)))"

definition tracker_find_min_free_space :: "FDFSGroupInfo \<Rightarrow> FDFSGroupInfo" where
  "tracker_find_min_free_space g =
     (case gi_active_servers g of
        [] \<Rightarrow> g
      | first # rest \<Rightarrow>
          foldl (\<lambda>g i. if sd_free_mb (srv g i) < gi_free_mb g
                       then g\<lparr>gi_total_mb := sd_total_mb (srv g i), gi_free_mb := sd_free_mb (srv g i)\<rparr> else g)
            (g\<lparr>gi_total_mb := sd_total_mb (srv g first), gi_free_mb := sd_free_mb (srv g first)\<rparr>) rest)"

section \<open>Reserved space of a group\<close>

definition fdfs_check_reserved_space :: "FDFSGroupInfo \<Rightarrow> FDFSStorageReservedSpace \<Rightarrow> bool" where
  "fdfs_check_reserved_space g rs =
     (case rs of
        Reserved_MB mb \<Rightarrow> gi_free_mb g > mb
      | Reserved_Ratio ratio \<Rightarrow>
          if gi_total_mb g = 0 then False else of_int (gi_free_mb g) / of_int (gi_total_mb g) > ratio)"

definition fdfs_check_reserved_space_trunk :: "FDFSGroupInfo \<Rightarrow> FDFSStorageReservedSpace \<Rightarrow> bool" where
  "fdfs_check_reserved_space_trunk g rs =
     (case rs of
        Reserved_MB mb \<Rightarrow> gi_free_mb g + gi_trunk_free_mb g > mb
      | Reserved_Ratio ratio \<Rightarrow>
          if gi_total_mb g = 0 then False
          else of_int (gi_free_mb g + gi_trunk_free_mb g) / of_int (gi_total_mb g) > ratio)"

text \<open>The loop for the largest value among the groups with an active server, by their place in \<open>sorted_groups\<close>.\<close>

definition max_group :: "FDFSGroups \<Rightarrow> (FDFSGroupInfo \<Rightarrow> int) \<Rightarrow> nat option" where
  "max_group gs f =
     foldl (\<lambda>m j. let g = grp gs (gs_sorted_groups gs ! j) in
        if gi_active_servers g \<noteq> [] then
          (case m of
             None \<Rightarrow> Some j
           | Some i \<Rightarrow> if f g > f (grp gs (gs_sorted_groups gs ! i)) then Some j else m)
        else m) None [0..<length (gs_groups gs)]"

definition tracker_find_max_free_space_group :: "tracker_env \<Rightarrow> FDFSStorageReservedSpace \<Rightarrow> FDFSGroups \<Rightarrow> FDFSGroups" where
  "tracker_find_max_free_space_group env rs gs =
     (if gs_store_lookup gs \<noteq> FDFS_STORE_LOOKUP_LOAD_BALANCE then gs
      else
        (case max_group gs gi_free_mb of
           None \<Rightarrow> gs
         | Some j \<Rightarrow>
             if fdfs_check_reserved_space (grp gs (gs_sorted_groups gs ! j)) rs \<or> \<not> g_if_use_trunk_file env
             then gs\<lparr>gs_current_write_group := int j\<rparr>
             else
               (case max_group gs gi_trunk_free_mb of
                  None \<Rightarrow> gs
                | Some j \<Rightarrow> gs\<lparr>gs_current_write_group := int j\<rparr>)))"

abbreviation (input) FDFS_STORE_PATH_ROUND_ROBIN :: int where "FDFS_STORE_PATH_ROUND_ROBIN \<equiv> 0"
abbreviation (input) FDFS_STORE_PATH_LOAD_BALANCE :: int where "FDFS_STORE_PATH_LOAD_BALANCE \<equiv> 2"

text \<open>\<open>k\<close> and \<open>p\<close> are the group and the server of the connection, \<open>None\<close> when it has not joined.\<close>

definition df_report_group :: "FDFSGroupInfo \<Rightarrow> nat \<Rightarrow> int \<Rightarrow> FDFSGroupInfo" where
  "df_report_group g p old_free_mb =
     (if gi_free_mb g = 0 \<or> sd_free_mb (srv g p) < gi_free_mb g
      then g\<lparr>gi_total_mb := sd_total_mb (srv g p), gi_free_mb := sd_free_mb (srv g p)\<rparr>
      else if sd_free_mb (srv g p) > old_free_mb then tracker_find_min_free_space g
      else g)"

definition tracker_deal_storage_df_report ::
    "tracker_env \<Rightarrow> FDFSStorageReservedSpace \<Rightarrow> FDFSGroups \<Rightarrow> (nat \<times> nat) option \<Rightarrow> byte list \<Rightarrow> (int \<times> FDFSGroups) option" where
  "tracker_deal_storage_df_report env rs gs client body =
     (case client of
        None \<Rightarrow> Some (EINVAL, gs)
      | Some (k, p) \<Rightarrow>
          (let g = grp gs k in
           if int (length body) \<noteq> 16 * gi_store_path_count g then Some (EINVAL, gs)
           else
             (case df_report_loop (gs_store_path gs = FDFS_STORE_PATH_LOAD_BALANCE) body 0 (nat (gi_store_path_count g))
                     ((srv g p)\<lparr>sd_total_mb := 0, sd_free_mb := 0\<rparr>) of
                None \<Rightarrow> None
              | Some s \<Rightarrow>
                  (let g1 = df_report_group (upd_srv p (\<lambda>_. s) g) p (sd_free_mb (srv g p));
                       gs1 = tracker_find_max_free_space_group env rs (upd_grp k g1 gs)
                   in Some (0, upd_grp k (tracker_mem_active_store_server env (grp gs1 k) p) gs1)))))"

section \<open>Where to upload a file\<close>

text \<open>
  The four commands: with or without a group name, one server or all. The loops over \<open>sorted_groups\<close>
  start behind the current write group, wrap around, and look at the trunk space last.
\<close>

datatype query_cmd = QUERY_STORE_WITHOUT_GROUP_ONE | QUERY_STORE_WITH_GROUP_ONE
  | QUERY_STORE_WITHOUT_GROUP_ALL | QUERY_STORE_WITH_GROUP_ALL

definition with_group :: "query_cmd \<Rightarrow> bool" where
  "with_group cmd \<longleftrightarrow> cmd = QUERY_STORE_WITH_GROUP_ONE \<or> cmd = QUERY_STORE_WITH_GROUP_ALL"

definition query_one :: "query_cmd \<Rightarrow> bool" where
  "query_one cmd \<longleftrightarrow> cmd = QUERY_STORE_WITH_GROUP_ONE \<or> cmd = QUERY_STORE_WITHOUT_GROUP_ONE"

definition sgrp :: "FDFSGroups \<Rightarrow> nat \<Rightarrow> FDFSGroupInfo" where
  "sgrp gs j = grp gs (gs_sorted_groups gs ! j)"

definition has_active :: "FDFSGroupInfo \<Rightarrow> bool" where
  "has_active g \<longleftrightarrow> gi_active_servers g \<noteq> []"

text \<open>The place in \<open>sorted_groups\<close> of the group to write to, and the new current write group.\<close>

definition select_group ::
    "tracker_env \<Rightarrow> FDFSStorageReservedSpace \<Rightarrow> FDFSGroups \<Rightarrow> int + nat \<times> int" where
  "select_group env rs gs =
     (let n = length (gs_groups gs);
          index = (if gs_current_write_group gs \<ge> int n then 0 else nat (gs_current_write_group gs));
          space = (\<lambda>j. has_active (sgrp gs j) \<and> fdfs_check_reserved_space (sgrp gs j) rs);
          trunk_space = (\<lambda>j. has_active (sgrp gs j) \<and> fdfs_check_reserved_space_trunk (sgrp gs j) rs)
      in if space index \<or>
            (g_if_use_trunk_file env \<and> gs_store_lookup gs = FDFS_STORE_LOOKUP_LOAD_BALANCE \<and> trunk_space index)
         then Inr (index, gs_current_write_group gs)
         else
           (case find space ([index + 1..<n] @ [0..<index]) of
              Some j \<Rightarrow> Inr (j, int j)
            | None \<Rightarrow>
                if \<not> list_ex (\<lambda>j. has_active (sgrp gs j)) [0..<n] then Inl ENOENT
                else if \<not> g_if_use_trunk_file env then Inl ENOSPC
                else
                  (case find trunk_space [0..<n] of
                     Some j \<Rightarrow> Inr (j, int j)
                   | None \<Rightarrow> Inl ENOSPC)))"

definition group_has_space :: "tracker_env \<Rightarrow> FDFSStorageReservedSpace \<Rightarrow> FDFSGroupInfo \<Rightarrow> bool" where
  "group_has_space env rs g \<longleftrightarrow> fdfs_check_reserved_space g rs \<or>
     (g_if_use_trunk_file env \<and> fdfs_check_reserved_space_trunk g rs)"

text \<open>The group to store to, a pointer into \<open>groups\<close>, and the table with the new current write group.\<close>

definition query_group ::
    "tracker_env \<Rightarrow> FDFSStorageReservedSpace \<Rightarrow> FDFSGroups \<Rightarrow> query_cmd \<Rightarrow> byte list \<Rightarrow> (int + nat) \<times> FDFSGroups" where
  "query_group env rs gs cmd body =
     (if with_group cmd then
        (case tracker_mem_get_group_ex gs (c_str (take 16 body)) of
           None \<Rightarrow> (Inl ENOENT, gs)
         | Some k \<Rightarrow>
             if \<not> has_active (grp gs k) then (Inl ENOENT, gs)
             else if \<not> group_has_space env rs (grp gs k) then (Inl ENOSPC, gs)
             else (Inr k, gs))
      else if gs_store_lookup gs = FDFS_STORE_LOOKUP_ROUND_ROBIN \<or> gs_store_lookup gs = FDFS_STORE_LOOKUP_LOAD_BALANCE then
        (case select_group env rs gs of
           Inl e \<Rightarrow> (Inl e, gs)
         | Inr (j, cur) \<Rightarrow>
             (Inr (gs_sorted_groups gs ! j),
              gs\<lparr>gs_current_write_group :=
                 (if gs_store_lookup gs = FDFS_STORE_LOOKUP_ROUND_ROBIN
                  then (if cur + 1 \<ge> int (length (gs_groups gs)) then 0 else cur + 1)
                  else cur)\<rparr>))
      else if gs_store_lookup gs = FDFS_STORE_LOOKUP_SPEC_GROUP then
        (case gs_pStoreGroup gs of
           None \<Rightarrow> (Inl ENOENT, gs)
         | Some k \<Rightarrow>
             if \<not> has_active (grp gs k) then (Inl ENOENT, gs)
             else if \<not> group_has_space env rs (grp gs k) then (Inl ENOSPC, gs)
             else (Inr k, gs))
      else (Inl EINVAL, gs))"

text \<open>
  The store path on the server: the current write path when it has space, else the first with space,
  else, with trunk files, the first from the current one on, wrapping around, that has space together
  with the free trunk space. The last loop leaves \<open>i\<close> and \<open>write_path_index\<close> equal both when it finds a
  path and when it does not.
\<close>

definition path_space :: "FDFSStorageReservedSpace \<Rightarrow> FDFSGroupInfo \<Rightarrow> FDFSStorageDetail \<Rightarrow> int \<Rightarrow> nat \<Rightarrow> bool" where
  "path_space rs g s extra i \<longleftrightarrow>
     fdfs_check_reserved_space_path (sd_path_total_mbs s ! i) (sd_path_free_mbs s ! i + extra)
       ((case rs of Reserved_MB mb \<Rightarrow> mb | Reserved_Ratio _ \<Rightarrow> 0) div gi_store_path_count g) rs"

text \<open>The path for the reply and the value of \<open>current_write_path\<close>.\<close>

definition query_path ::
    "tracker_env \<Rightarrow> FDFSStorageReservedSpace \<Rightarrow> FDFSGroupInfo \<Rightarrow> FDFSStorageDetail \<Rightarrow> (int + nat) \<times> int" where
  "query_path env rs g s =
     (let n = nat (gi_store_path_count g);
          cur = sd_current_write_path s;
          index = (if cur \<ge> gi_store_path_count g then 0 else nat cur)
      in if path_space rs g s 0 index then (Inr index, cur)
         else
           (case find (path_space rs g s 0) [0..<n] of
              Some i \<Rightarrow> (Inr i, int i)
            | None \<Rightarrow>
                if \<not> g_if_use_trunk_file env then (Inl ENOSPC, cur)
                else
                  (case find (path_space rs g s (gi_trunk_free_mb g)) [index..<n] of
                     Some i \<Rightarrow> (Inr i, int i)
                   | None \<Rightarrow>
                       (case find (path_space rs g s (gi_trunk_free_mb g)) [0..<index] of
                          Some i \<Rightarrow> (Inl ENOSPC, int i)
                        | None \<Rightarrow> (Inl ENOSPC, cur)))))"

text \<open>The server to check: the one chosen for writing, or the first of the list.\<close>

definition query_server :: "tracker_env \<Rightarrow> query_cmd \<Rightarrow> FDFSGroupInfo \<Rightarrow> nat option \<times> FDFSGroupInfo" where
  "query_server env cmd g =
     (if query_one cmd then tracker_get_writable_storage env g else (Some (hd (gi_active_servers g)), g))"

text \<open>The reply: the group, the servers of the list, the path.\<close>

definition query_reply ::
    "tracker_env \<Rightarrow> FDFSStorageReservedSpace \<Rightarrow> FDFSGroups \<Rightarrow> query_cmd \<Rightarrow> nat \<Rightarrow> nat \<Rightarrow> FDFSGroupInfo \<Rightarrow>
       (int + nat \<times> nat list \<times> nat) \<times> FDFSGroups" where
  "query_reply env rs gs cmd k p g =
     (case query_path env rs g (srv g p) of
        (Inl e, cur) \<Rightarrow> (Inl e, upd_grp k (upd_srv p (\<lambda>s. s\<lparr>sd_current_write_path := cur\<rparr>) g) gs)
      | (Inr index, cur) \<Rightarrow>
          (let next = (if gs_store_path gs = FDFS_STORE_PATH_ROUND_ROBIN
                       then (if cur + 1 \<ge> gi_store_path_count g then 0 else cur + 1) else cur)
           in (Inr (k, if query_one cmd then [p] else gi_active_servers g, index),
               upd_grp k (upd_srv p (\<lambda>s. s\<lparr>sd_current_write_path := next\<rparr>) g) gs)))"

definition tracker_deal_service_query_storage ::
    "tracker_env \<Rightarrow> FDFSStorageReservedSpace \<Rightarrow> FDFSGroups \<Rightarrow> query_cmd \<Rightarrow> byte list \<Rightarrow>
       (int + nat \<times> nat list \<times> nat) \<times> FDFSGroups" where
  "tracker_deal_service_query_storage env rs gs cmd body =
     (if length body \<noteq> (if with_group cmd then 16 else 0) then (Inl EINVAL, gs)
      else if gs_groups gs = [] then (Inl ENOENT, gs)
      else
        (case query_group env rs gs cmd body of
           (Inl e, gs1) \<Rightarrow> (Inl e, gs1)
         | (Inr k, gs1) \<Rightarrow>
             if gi_store_path_count (grp gs1 k) \<le> 0 then (Inl ENOENT, gs1)
             else
               (case query_server env cmd (grp gs1 k) of
                  (None, g1) \<Rightarrow> (Inl ENOENT, upd_grp k g1 gs1)
                | (Some p, g1) \<Rightarrow> query_reply env rs gs1 cmd k p g1)))"

end
