(* ===== verification/Tracker_Query.thy ===== *)
theory Tracker_Query
  imports Tracker_Service
begin

text \<open>
  More request handlers of the tracker (\<open>tracker/tracker_service.c\<close>): the servers for a download or an update of a
  file (\<open>tracker_mem_get_storage_by_filename\<close> of \<open>tracker/tracker_mem.c\<close>, built without the HTTP server), the reports of
  the trunk server, the administration of a group, and the listings.

  \<open>None\<close> stands for undefined behaviour of the C code: a local array or the 8192 bytes of the task's buffer are left.
\<close>

section \<open>File names\<close>

abbreviation (input) TRACKER_MAX_PACKAGE_SIZE :: nat where "TRACKER_MAX_PACKAGE_SIZE \<equiv> 8192"
abbreviation (input) FDFS_DOWNLOAD_SERVER_ROUND_ROBIN :: int where "FDFS_DOWNLOAD_SERVER_ROUND_ROBIN \<equiv> 0"
abbreviation (input) FDFS_DOWNLOAD_SERVER_SOURCE_FIRST :: int where "FDFS_DOWNLOAD_SERVER_SOURCE_FIRST \<equiv> 1"
abbreviation (input) FDFS_NORMAL_LOGIC_FILENAME_LENGTH :: nat where "FDFS_NORMAL_LOGIC_FILENAME_LENGTH \<equiv> 44"
abbreviation (input) INADDR_NONE :: int where "INADDR_NONE \<equiv> - 1"

definition IS_APPENDER_FILE :: "int \<Rightarrow> bool" where
  "IS_APPENDER_FILE file_size \<longleftrightarrow> file_size AND 2 ^ 58 \<noteq> 0"

definition IS_SLAVE_FILE :: "nat \<Rightarrow> int \<Rightarrow> bool" where
  "IS_SLAVE_FILE filename_len file_size \<longleftrightarrow> filename_len > FDFS_TRUNK_LOGIC_FILENAME_LENGTH \<or>
     (filename_len > FDFS_NORMAL_LOGIC_FILENAME_LENGTH \<and> \<not> IS_TRUNK_FILE file_size)"

text \<open>\<open>ntohl\<close> and \<open>inet_ntop\<close> on a little-endian machine, with the address as a signed number.\<close>

definition ntohl :: "int \<Rightarrow> int" where
  "ntohl x = buff2int (rev (int2buff x))"

definition inet_ntop :: "int \<Rightarrow> byte list" where
  "inet_ntop s_addr = tl (concat (map (\<lambda>b. 46 # print_dec (unat b)) (rev (int2buff s_addr))))"

text \<open>What the name of a file says of its origin; \<open>stk\<close> is what the local buffer of 64 bytes holds before.\<close>

record file_source =
  fs_storage_ip :: int
  fs_storage_id :: "byte list"
  fs_timestamp :: int
  fs_normal :: bool

definition file_source_of :: "byte list \<Rightarrow> byte list \<Rightarrow> file_source" where
  "file_source_of stk filename =
     (if length filename < 39
      then \<lparr>fs_storage_ip = INADDR_NONE, fs_storage_id = [], fs_timestamp = 0, fs_normal = True\<rparr>
      else
        (let name_buff = decode_into stk (take FDFS_FILENAME_BASE64_LENGTH (drop FDFS_LOGIC_FILE_PATH_LEN filename));
             storage_ip = ntohl (buff2int name_buff);
             file_size = buff2long (drop 8 name_buff)
         in \<lparr>fs_storage_ip = storage_ip,
             fs_storage_id = (if fdfs_get_server_id_type storage_ip = FDFS_ID_TYPE_SERVER_ID then print_int storage_ip else []),
             fs_timestamp = buff2int (drop 4 name_buff),
             fs_normal = (\<not> (IS_SLAVE_FILE (length filename) file_size \<or> IS_APPENDER_FILE file_size))\<rparr>))"

section \<open>The servers of a file\<close>

record sync_delay =
  g_storage_sync_file_max_delay :: int
  g_storage_sync_file_max_time :: int

datatype fetch_cmd = QUERY_FETCH_ONE | QUERY_UPDATE | QUERY_FETCH_ALL

definition source_server :: "tracker_env \<Rightarrow> FDFSGroupInfo \<Rightarrow> file_source \<Rightarrow> nat option" where
  "source_server env g fs =
     (if fs_storage_id fs \<noteq> [] then tracker_mem_get_active_storage_by_id g (Some (fs_storage_id fs))
      else tracker_mem_get_active_storage_by_ip env g (inet_ntop (fs_storage_ip fs)))"

definition file_synced :: "tracker_env \<Rightarrow> sync_delay \<Rightarrow> file_source \<Rightarrow> FDFSStorageDetail \<Rightarrow> bool" where
  "file_synced env sd fs s \<longleftrightarrow>
     fs_timestamp fs < g_current_time env - g_storage_sync_file_max_delay sd \<or>
     st_last_synced_timestamp (sd_stat s) > fs_timestamp fs \<or>
     (st_last_synced_timestamp (sd_stat s) + 1 \<ge> fs_timestamp fs \<and>
        g_current_time env - fs_timestamp fs > g_storage_sync_file_max_time sd) \<or>
     (fs_storage_ip fs = INADDR_NONE \<and> g_store_server env = FDFS_STORE_SERVER_ROUND_ROBIN)"

definition is_source :: "file_source \<Rightarrow> FDFSStorageDetail \<Rightarrow> bool" where
  "is_source fs s \<longleftrightarrow> (if fs_storage_id fs \<noteq> [] then strcmp (fs_storage_id fs) (sd_id s) = 0
                      else strcmp (inet_ntop (fs_storage_ip fs)) (sd_ip_addr s) = 0)"

text \<open>The choice between the server whose turn it is, the source and the store server of the group.\<close>

definition fetch_choice ::
    "tracker_env \<Rightarrow> sync_delay \<Rightarrow> int \<Rightarrow> FDFSGroupInfo \<Rightarrow> file_source \<Rightarrow> nat \<Rightarrow> nat \<Rightarrow> nat" where
  "fetch_choice env sd download_server g fs pGroupStoreServer p =
     (if fs_normal fs \<and> file_synced env sd fs (srv g p) then p
      else if fs_normal fs \<and> fs_storage_ip fs = INADDR_NONE then pGroupStoreServer
      else if is_source fs (srv g p) then p
      else
        (case (if download_server = FDFS_DOWNLOAD_SERVER_ROUND_ROBIN then source_server env g fs else None) of
           Some q \<Rightarrow> q
         | None \<Rightarrow> if g_store_server env \<noteq> FDFS_STORE_SERVER_ROUND_ROBIN then pGroupStoreServer else p))"

definition fetch_one ::
    "tracker_env \<Rightarrow> sync_delay \<Rightarrow> int \<Rightarrow> FDFSGroupInfo \<Rightarrow> file_source \<Rightarrow> nat \<Rightarrow> nat \<times> FDFSGroupInfo" where
  "fetch_one env sd download_server g fs pGroupStoreServer =
     (case (if download_server = FDFS_DOWNLOAD_SERVER_SOURCE_FIRST then source_server env g fs else None) of
        Some q \<Rightarrow> (q, g)
      | None \<Rightarrow>
          (let active_count = int (length (gi_active_servers g));
               read_server_index = (if gi_current_read_server g \<ge> active_count then 0 else gi_current_read_server g);
               next = gi_current_read_server g + 1
           in (fetch_choice env sd download_server g fs pGroupStoreServer (gi_active_servers g ! nat read_server_index),
               g\<lparr>gi_current_read_server := (if next \<ge> active_count then 0 else next)\<rparr>)))"

definition fetch_update :: "tracker_env \<Rightarrow> FDFSGroupInfo \<Rightarrow> file_source \<Rightarrow> nat option \<times> FDFSGroupInfo" where
  "fetch_update env g fs =
     (case (if fs_storage_ip fs \<noteq> INADDR_NONE then source_server env g fs else None) of
        Some q \<Rightarrow> (Some q, g)
      | None \<Rightarrow> tracker_get_writable_storage env g)"

definition fetch_all :: "tracker_env \<Rightarrow> sync_delay \<Rightarrow> FDFSGroupInfo \<Rightarrow> file_source \<Rightarrow> nat \<Rightarrow> nat list" where
  "fetch_all env sd g fs pGroupStoreServer =
     (let szIpAddr = (if fs_storage_ip fs \<noteq> INADDR_NONE then inet_ntop (fs_storage_ip fs) else []);
          servers =
            (if fs_normal fs
             then filter (\<lambda>p. file_synced env sd fs (srv g p) \<or> strcmp (sd_ip_addr (srv g p)) szIpAddr = 0) (gi_active_servers g)
             else
               (case (if fs_storage_id fs \<noteq> [] then tracker_mem_get_active_storage_by_id g (Some (fs_storage_id fs))
                      else tracker_mem_get_active_storage_by_ip env g szIpAddr) of
                  Some q \<Rightarrow> [q]
                | None \<Rightarrow> []))
      in if servers = [] then [pGroupStoreServer] else servers)"

text \<open>The error, or the group and the servers, at most as many as the caller's array has places.\<close>

definition tracker_mem_get_storage_by_filename ::
    "tracker_env \<Rightarrow> sync_delay \<Rightarrow> byte list \<Rightarrow> FDFSGroups \<Rightarrow> fetch_cmd \<Rightarrow> byte list \<Rightarrow> byte list \<Rightarrow>
       ((int + nat \<times> nat list) \<times> FDFSGroups) option" where
  "tracker_mem_get_storage_by_filename env sd stk gs cmd group_name filename =
     (case tracker_mem_get_group_ex gs group_name of
        None \<Rightarrow> Some (Inl ENOENT, gs)
      | Some k \<Rightarrow>
          if gi_active_servers (grp gs k) = [] then Some (Inl ENOENT, gs)
          else
            (case gi_pStoreServer (grp gs k) of
               None \<Rightarrow> Some (Inl ENOENT, gs)
             | Some pGroupStoreServer \<Rightarrow>
                 (let fs = file_source_of stk filename in
                  case cmd of
                    QUERY_FETCH_ONE \<Rightarrow>
                      (let (p, g) = fetch_one env sd (gs_download_server gs) (grp gs k) fs pGroupStoreServer
                       in Some (Inr (k, [p]), upd_grp k g gs))
                  | QUERY_UPDATE \<Rightarrow>
                      (case fetch_update env (grp gs k) fs of
                         (Some p, g) \<Rightarrow> Some (Inr (k, [p]), upd_grp k g gs)
                       | (None, g) \<Rightarrow> Some (Inl ENOENT, upd_grp k g gs))
                  | QUERY_FETCH_ALL \<Rightarrow>
                      (let servers = fetch_all env sd (grp gs k) fs pGroupStoreServer
                       in if length servers > FDFS_MAX_SERVERS_EACH_GROUP then None else Some (Inr (k, servers), gs)))))"

definition fetch_reply :: "FDFSGroupInfo \<Rightarrow> nat list \<Rightarrow> byte list" where
  "fetch_reply g servers =
     pad 16 (gi_group_name g) @ pad 15 (sd_ip_addr (srv g (hd servers))) @ long2buff (gi_storage_port g) @
     concat (map (\<lambda>p. pad 15 (sd_ip_addr (srv g p))) (tl servers))"

definition tracker_deal_service_query_fetch_update ::
    "tracker_env \<Rightarrow> sync_delay \<Rightarrow> byte list \<Rightarrow> FDFSGroups \<Rightarrow> fetch_cmd \<Rightarrow> byte list \<Rightarrow> ((int + byte list) \<times> FDFSGroups) option" where
  "tracker_deal_service_query_fetch_update env sd stk gs cmd body =
     (if length body < 38 then Some (Inl EINVAL, gs)
      else if length body \<ge> 144 then Some (Inl EINVAL, gs)
      else
        (case tracker_mem_get_storage_by_filename env sd stk gs cmd (c_str (take 16 body)) (drop 16 body) of
           None \<Rightarrow> None
         | Some (Inl result, gs1) \<Rightarrow> Some (Inl result, gs1)
         | Some (Inr (k, servers), gs1) \<Rightarrow> Some (Inr (fetch_reply (grp gs1 k) servers), gs1)))"

section \<open>Reports of storage servers\<close>

definition tracker_deal_get_trunk_fid :: "FDFSGroupInfo \<Rightarrow> byte list \<Rightarrow> int + byte list" where
  "tracker_deal_get_trunk_fid g body = (if body \<noteq> [] then Inl EINVAL else Inr (int2buff (gi_current_trunk_file_id g)))"

definition tracker_deal_report_trunk_fid :: "tracker_env \<Rightarrow> FDFSGroupInfo \<Rightarrow> nat \<Rightarrow> byte list \<Rightarrow> int \<times> FDFSGroupInfo" where
  "tracker_deal_report_trunk_fid env g p body =
     (if length body \<noteq> 4 then (EINVAL, g)
      else
        (let current_trunk_fid = buff2int body in
         if current_trunk_fid < 0 then (EINVAL, g)
         else if gi_pTrunkServer g \<noteq> Some p then (EINVAL, g)
         else if gi_current_trunk_file_id g < current_trunk_fid
         then (ext_save_groups env, g\<lparr>gi_current_trunk_file_id := current_trunk_fid\<rparr>)
         else (0, g)))"

definition tracker_deal_report_trunk_free_space ::
    "tracker_env \<Rightarrow> FDFSStorageReservedSpace \<Rightarrow> FDFSGroups \<Rightarrow> nat \<Rightarrow> nat \<Rightarrow> byte list \<Rightarrow> int \<times> FDFSGroups" where
  "tracker_deal_report_trunk_free_space env rs gs k p body =
     (if length body \<noteq> 8 then (EINVAL, gs)
      else
        (let trunk_free_space = buff2long body in
         if trunk_free_space < 0 then (EINVAL, gs)
         else if gi_pTrunkServer (grp gs k) \<noteq> Some p then (EINVAL, gs)
         else (0, tracker_find_max_free_space_group env rs (upd_grp k ((grp gs k)\<lparr>gi_trunk_free_mb := trunk_free_space\<rparr>) gs))))"

text \<open>The id and the address are cut at 15 bytes by \<open>tracker_mem_sync_storages\<close>.\<close>

definition parse_brief :: "byte list \<Rightarrow> FDFSStorageBrief" where
  "parse_brief entry = \<lparr>br_status = sint (hd entry), br_id = c_str (take 15 (drop 5 entry)), br_ip_addr = c_str (take 15 (drop 21 entry))\<rparr>"

fun parse_briefs :: "nat \<Rightarrow> byte list \<Rightarrow> FDFSStorageBrief list" where
  "parse_briefs 0 body = []"
| "parse_briefs (Suc n) body = parse_brief (take 37 body) # parse_briefs n (drop 37 body)"

definition tracker_deal_storage_replica_chg ::
    "tracker_env \<Rightarrow> FDFSGroupInfo \<Rightarrow> byte list \<Rightarrow> (int \<times> FDFSGroupInfo) option" where
  "tracker_deal_storage_replica_chg env g body =
     (if body = [] \<or> length body mod 37 \<noteq> 0 then Some (EINVAL, g)
      else
        (let server_count = length body div 37 in
         if server_count > FDFS_MAX_SERVERS_EACH_GROUP then Some (EINVAL, g)
         else tracker_mem_sync_storages env g (parse_briefs server_count body)))"

definition tracker_deal_storage_report_status ::
    "tracker_env \<Rightarrow> FDFSGroups \<Rightarrow> byte list \<Rightarrow> (int \<times> FDFSGroups) option" where
  "tracker_deal_storage_report_status env gs body =
     (if length body \<noteq> 53 then Some (EINVAL, gs)
      else
        (case tracker_mem_get_group_ex gs (c_str (take 16 body)) of
           None \<Rightarrow> Some (ENOENT, gs)
         | Some k \<Rightarrow> map_option (\<lambda>(e, g). (e, upd_grp k g gs))
                       (tracker_mem_sync_storages env (grp gs k) (parse_briefs 1 (drop 16 body)))))"

text \<open>An address in a request, else the one of the client.\<close>

definition request_ip :: "byte list \<Rightarrow> byte list \<Rightarrow> byte list" where
  "request_ip client_ip body = (if length body = 16 then client_ip else c_str (take 15 (drop 16 body)))"

definition tracker_deal_server_get_storage_status ::
    "tracker_env \<Rightarrow> FDFSGroups \<Rightarrow> byte list \<Rightarrow> byte list \<Rightarrow> int + byte list" where
  "tracker_deal_server_get_storage_status env gs client_ip body =
     (if length body < 16 then Inl EINVAL
      else
        (case tracker_mem_get_group_ex gs (c_str (take 16 body)) of
           None \<Rightarrow> Inl ENOENT
         | Some k \<Rightarrow>
             (case tracker_mem_get_storage_by_ip env (grp gs k) (request_ip client_ip body) of
                None \<Rightarrow> Inl ENOENT
              | Some p \<Rightarrow> (let s = srv (grp gs k) p
                          in Inr (brief_bytes (sd_status s) (gi_storage_port (grp gs k)) (sd_id s) (sd_ip_addr s))))))"

definition tracker_deal_get_storage_id :: "tracker_env \<Rightarrow> byte list \<Rightarrow> byte list \<Rightarrow> int + byte list" where
  "tracker_deal_get_storage_id env client_ip body =
     (if length body < 16 then Inl EINVAL
      else if g_use_storage_id env then
        (case fdfs_get_storage_id_by_ip (g_storage_ids env) (c_str (take 16 body)) (request_ip client_ip body) of
           None \<Rightarrow> Inl ENOENT
         | Some info \<Rightarrow> Inr (si_id info))
      else Inr (request_ip client_ip body))"

section \<open>Administration\<close>

definition tracker_deal_server_delete_storage ::
    "tracker_env \<Rightarrow> FDFSGroups \<Rightarrow> byte list \<Rightarrow> (int \<times> FDFSGroups) option" where
  "tracker_deal_server_delete_storage env gs body =
     (if length body \<le> 16 then Some (EINVAL, gs)
      else if length body \<ge> 32 then Some (EINVAL, gs)
      else
        (case tracker_mem_get_group_ex gs (c_str (take 16 body)) of
           None \<Rightarrow> Some (ENOENT, gs)
         | Some k \<Rightarrow> map_option (\<lambda>(e, g, _). (e, upd_grp k g gs)) (tracker_mem_delete_storage env (grp gs k) (c_str (drop 16 body)))))"

definition tracker_deal_server_set_trunk_server ::
    "tracker_env \<Rightarrow> FDFSGroups \<Rightarrow> byte list \<Rightarrow> (int + byte list) \<times> FDFSGroups" where
  "tracker_deal_server_set_trunk_server env gs body =
     (if length body < 16 then (Inl EINVAL, gs)
      else if length body \<ge> 32 then (Inl EINVAL, gs)
      else
        (case tracker_mem_get_group_ex gs (c_str (take 16 body)) of
           None \<Rightarrow> (Inl ENOENT, gs)
         | Some k \<Rightarrow>
             (case tracker_mem_set_trunk_server env (grp gs k) (c_str (drop 16 body)) of
                ((result, pTrunkServer), g) \<Rightarrow>
                  ((case (result = 0, pTrunkServer) of
                      (True, Some p) \<Rightarrow> Inr (sd_id (srv g p) @ [0])
                    | _ \<Rightarrow> Inl (if result = 0 then ENOENT else result)),
                   upd_grp k g gs))))"

definition tracker_deal_active_test :: "byte list \<Rightarrow> int" where
  "tracker_deal_active_test body = (if body \<noteq> [] then EINVAL else 0)"

definition tracker_deal_storage_report_ip_changed ::
    "tracker_env \<Rightarrow> FDFSGroups \<Rightarrow> byte list \<Rightarrow> byte list \<Rightarrow> int \<times> FDFSGroups" where
  "tracker_deal_storage_report_ip_changed env gs client_ip body =
     (if g_use_storage_id env then (EOPNOTSUPP, gs)
      else if length body \<noteq> 48 then (EINVAL, gs)
      else
        (let pOldIpAddr = c_str (take 15 (drop 16 body)); pNewIpAddr = c_str (take 15 (drop 32 body)) in
         case tracker_mem_get_group_ex gs (c_str (take 16 body)) of
           None \<Rightarrow> (ENOENT, gs)
         | Some k \<Rightarrow>
             if strcmp pNewIpAddr client_ip \<noteq> 0 then (EINVAL, gs)
             else (case tracker_mem_storage_ip_changed env (grp gs k) pOldIpAddr pNewIpAddr of
                     (e, g, _) \<Rightarrow> (e, upd_grp k g gs))))"

section \<open>Listings\<close>

text \<open>The 38 counters, one by one in the order of \<open>FDFSStorageStat\<close>, followed by the four time stamps.\<close>

definition stat_buff :: "FDFSStorageStat \<Rightarrow> byte list" where
  "stat_buff st = concat (map (\<lambda>j. long2buff (st_counters st ! j)) [0..<38]) @ long2buff (st_last_source_update st) @
     long2buff (st_last_sync_update st) @ long2buff (st_last_synced_timestamp st) @ long2buff (st_last_heart_beat_time st)"

definition storage_stat_bytes :: "FDFSGroupInfo \<Rightarrow> nat \<Rightarrow> byte list" where
  "storage_stat_bytes g p =
     (let s = srv g p in
      word_of_int (sd_status s) # pad 16 (sd_id s) @ pad 16 (sd_ip_addr s) @ pad 128 (sd_domain_name s) @
      (case sd_psync_src_server s of None \<Rightarrow> replicate 16 0 | Some j \<Rightarrow> pad 16 (sd_id (srv g j))) @
      pad 6 (sd_version s) @
      long2buff (sd_join_time s) @ long2buff (sd_up_time s) @ long2buff (sd_total_mb s) @ long2buff (sd_free_mb s) @
      long2buff (sd_upload_priority s) @ long2buff (sd_store_path_count s) @ long2buff (sd_subdir_count_per_path s) @
      long2buff (sd_current_write_path s) @ long2buff (sd_storage_port s) @ long2buff (sd_storage_http_port s) @
      stat_buff (sd_stat s) @ [if gi_pTrunkServer g = Some p then 1 else 0])"

text \<open>
  A listing is written behind the header of 10 bytes into the buffer of the task, entry by entry and with no test of its size. When the
  bytes written do not fit, they leave the buffer: \<open>None\<close>.
\<close>

definition tracker_deal_server_list_group_storages :: "FDFSGroups \<Rightarrow> byte list \<Rightarrow> (int + byte list) option" where
  "tracker_deal_server_list_group_storages gs body =
     (if length body < 16 \<or> length body \<ge> 32 then Some (Inl EINVAL)
      else
        (case tracker_mem_get_group_ex gs (c_str (take 16 body)) of
           None \<Rightarrow> Some (Inl ENOENT)
         | Some k \<Rightarrow>
             (let g = grp gs k;
                  servers = (if length body > 16
                             then filter (\<lambda>p. strcmp (c_str (drop 16 body)) (sd_id (srv g p)) = 0) (gi_sorted_servers g)
                             else gi_sorted_servers g)
              in if length body > 16 \<and> servers = [] then Some (Inl ENOENT)
                 else
                   (let written = concat (map (storage_stat_bytes g) servers) in
                    if 10 + length written > TRACKER_MAX_PACKAGE_SIZE then None else Some (Inr written)))))"

definition group_stat_bytes :: "FDFSGroupInfo \<Rightarrow> byte list" where
  "group_stat_bytes g =
     pad 17 (gi_group_name g) @ long2buff (gi_total_mb g) @ long2buff (gi_free_mb g) @ long2buff (gi_trunk_free_mb g) @
     long2buff (int (srv_count g)) @ long2buff (gi_storage_port g) @ long2buff (gi_storage_http_port g) @
     long2buff (int (length (gi_active_servers g))) @ long2buff (gi_current_write_server g) @
     long2buff (gi_store_path_count g) @ long2buff (gi_subdir_count_per_path g) @ long2buff (gi_current_trunk_file_id g)"

definition tracker_deal_server_list_one_group :: "FDFSGroups \<Rightarrow> byte list \<Rightarrow> int + byte list" where
  "tracker_deal_server_list_one_group gs body =
     (if length body \<noteq> 16 then Inl EINVAL
      else (case tracker_mem_get_group_ex gs (c_str (take 16 body)) of
              None \<Rightarrow> Inl ENOENT
            | Some k \<Rightarrow> Inr (group_stat_bytes (grp gs k))))"

definition tracker_deal_server_list_all_groups :: "FDFSGroups \<Rightarrow> byte list \<Rightarrow> (int + byte list) option" where
  "tracker_deal_server_list_all_groups gs body =
     (if body \<noteq> [] then Some (Inl EINVAL)
      else
        (let written = concat (map (\<lambda>k. group_stat_bytes (grp gs k)) (gs_sorted_groups gs)) in
         if 10 + length written > TRACKER_MAX_PACKAGE_SIZE then None else Some (Inr written)))"

text \<open>
  The lines of the storage ids from \<open>start_index\<close> on, as long as more than 64 bytes of the buffer are left; \<open>off\<close> is the
  offset in the buffer, behind the header and two numbers at first.
\<close>

definition storage_id_line :: "FDFSStorageIdInfo \<Rightarrow> byte list" where
  "storage_id_line info = si_id info @ 32 # si_group_name info @ 32 # si_ip_addr info @ [10]"

fun storage_ids_text :: "nat \<Rightarrow> FDFSStorageIdInfo list \<Rightarrow> nat \<times> byte list" where
  "storage_ids_text off [] = (0, [])"
| "storage_ids_text off (info # infos) =
     (if off > TRACKER_MAX_PACKAGE_SIZE - 64 then (0, [])
      else (case storage_ids_text (off + length (storage_id_line info)) infos of
              (n, t) \<Rightarrow> (Suc n, storage_id_line info @ t)))"

definition tracker_deal_fetch_storage_ids :: "tracker_env \<Rightarrow> byte list \<Rightarrow> int + byte list" where
  "tracker_deal_fetch_storage_ids env body =
     (if \<not> g_use_storage_id env then Inl EOPNOTSUPP
      else if length body \<noteq> 4 then Inl EINVAL
      else
        (let start_index = buff2int body; ids = g_storage_ids_by_ip (g_storage_ids env) in
         if start_index < 0 \<or> start_index \<ge> int (length ids) then Inl EINVAL
         else (case storage_ids_text 18 (drop (nat start_index) ids) of
                 (n, t) \<Rightarrow> Inr (int2buff (int (length ids)) @ int2buff (int n) @ t))))"

end
