(* ===== verification/Tracker_State.thy ===== *)
theory Tracker_State
  imports Tracker_Query
begin

text \<open>
  The tracker as a state machine: every handler and periodic task is a step on the table of groups, in
  any order, with any environment. The invariant of \<open>Tracker_Join\<close> holds in every reachable state.
\<close>

section \<open>The handlers keep the invariant of a group\<close>

lemma group_inv_set_src:
  assumes inv: "group_inv g" and x: "\<And>q. x = Some q \<Longrightarrow> q < srv_count g"
    and f: "\<And>s. sd_id (f s) = sd_id s \<and> sd_psync_src_server (f s) = x \<and> sd_path_total_mbs (f s) = sd_path_total_mbs s \<and>
        sd_path_free_mbs (f s) = sd_path_free_mbs s \<and> sd_current_write_path (f s) = sd_current_write_path s"
    and st: "(sd_status (f (srv g p)) = FDFS_STORAGE_STATUS_ACTIVE) = (sd_status (srv g p) = FDFS_STORAGE_STATUS_ACTIVE)"
  shows "group_inv (upd_srv p f g)"
proof -
  let ?h = "upd_srv p f g"
  have act: "{j. j < srv_count ?h \<and> sd_status (srv ?h j) = FDFS_STORAGE_STATUS_ACTIVE} =
      {j. j < srv_count g \<and> sd_status (srv g j) = FDFS_STORAGE_STATUS_ACTIVE}"
    using st by (intro Collect_cong conj_cong) (simp_all add: srv_upd)
  have "sorted_ok ?h" using inv f by (intro sorted_ok_upd) (simp_all add: group_inv_def)
  moreover have "active_ok ?h"
  proof -
    have "sorted_key (\<lambda>j. sd_id (srv ?h j)) (gi_active_servers g)"
      using inv f active_set [OF inv] by (intro active_sorted_upd) (auto simp: group_inv_def active_ok_def)
    then show ?thesis using act active_set [OF inv] by (simp add: active_ok_def)
  qed
  moreover have "store_ok ?h" using inv by (simp add: group_inv_def store_ok_def)
  moreover have "ptr_ok ?h"
    using inv f x by (auto simp: group_inv_def ptr_ok_def srv_upd split: if_splits)
  moreover have "size_ok ?h" using inv f by (auto simp: group_inv_def size_ok_def srv_upd)
  ultimately show ?thesis by (simp add: group_inv_def)
qed

lemma set_status_src:
  "group_inv g \<Longrightarrow> (\<And>q. x = Some q \<Longrightarrow> q < srv_count g) \<Longrightarrow> group_inv (upd_srv p (\<lambda>s. s\<lparr>sd_psync_src_server := x\<rparr>) g)"
  by (rule group_inv_set_src) auto

lemma get_storage_bound: "\<lbrakk>group_inv g; tracker_mem_get_storage g sid = Some i\<rbrakk> \<Longrightarrow> i < srv_count g"
  using get_storage_iff [of g sid i] by (simp add: group_inv_def)

lemma until_inv: "group_inv g \<Longrightarrow> group_inv (upd_srv p (\<lambda>s. s\<lparr>sd_sync_until_timestamp := t\<rparr>) g)"
  by (rule group_inv_upd) (simp_all add: same_shape_def)

lemma sync_notify_inv:
  assumes inv: "group_inv g"
  shows "group_inv (snd (tracker_deal_storage_sync_notify g p body))"
proof -
  have st: "group_inv (upd_srv p (\<lambda>s. s\<lparr>sd_status := x\<rparr>) g)" if "sd_status (srv g p) \<in> {0, 1, 2}" "x \<in> {1, 6}" for x
    using set_status_inv [OF inv, of p x] that by auto
  let ?g1 = "sync_notify_wait g p"
  have inv1: "group_inv ?g1" using st inv by (simp add: sync_notify_wait_def Let_def)
  let ?x = "tracker_mem_get_storage ?g1 (c_str (take 15 body))"
  have inv2: "group_inv (upd_srv p (\<lambda>s. s\<lparr>sd_psync_src_server := ?x\<rparr>) ?g1)"
    using get_storage_bound [OF inv1] by (intro set_status_src [OF inv1]) simp
  have "group_inv (snd (sync_notify_src ?g1 p body))"
    using inv2 until_inv [OF inv2] by (auto simp: sync_notify_src_def Let_def split: option.split)
  with st inv inv1 show ?thesis
    by (simp add: tracker_deal_storage_sync_notify_def Let_def)
qed

lemma sync_src_req_inv: "group_inv g \<Longrightarrow> group_inv (snd (tracker_deal_storage_sync_src_req g dest))"
  using set_status_src [of g None]
  by (auto simp: tracker_deal_storage_sync_src_req_def split: option.split)

lemma sync_dest_req_inv:
  assumes inv: "group_inv g" and st: "sd_status (srv g p) \<noteq> FDFS_STORAGE_STATUS_ACTIVE"
  shows "group_inv (snd (tracker_deal_storage_sync_dest_req env g p body))"
proof -
  have q: "q < srv_count g" if "tracker_get_group_sync_src_server g p = Some q" for q
    using that active_set [OF inv] by (auto simp: tracker_get_group_sync_src_server_def find_Some_iff)
  have "group_inv (upd_srv p (\<lambda>s. s\<lparr>sd_status := FDFS_STORAGE_STATUS_ONLINE\<rparr>) g)"
    using set_status_inv [OF inv st] by simp
  moreover have "group_inv (upd_srv p (\<lambda>s. s\<lparr>sd_psync_src_server := Some q, sd_sync_until_timestamp := t,
      sd_status := FDFS_STORAGE_STATUS_WAIT_SYNC\<rparr>) g)" if "q < srv_count g" for q t
    using that st by (intro group_inv_set_src [OF inv, of "Some q"]) auto
  ultimately show ?thesis using inv q
    by (auto simp: tracker_deal_storage_sync_dest_req_def Let_def split: option.split)
qed

lemma set_sync_timestamp_inv: "group_inv g \<Longrightarrow> group_inv (set_sync_timestamp i j t g)"
proof -
  assume inv: "group_inv g"
  have "length row = gi_alloc_size g"
    if r: "row \<in> set ((gi_last_sync_timestamps g)[i := (gi_last_sync_timestamps g ! i)[j := t]])" for row
  proof (cases "i < length (gi_last_sync_timestamps g)")
    case True
    then have "length (gi_last_sync_timestamps g ! i) = gi_alloc_size g" using inv by (simp add: group_inv_def size_ok_def)
    with r inv show ?thesis using set_update_subset_insert by (fastforce simp: group_inv_def size_ok_def)
  next
    case False
    then have "row \<in> set (gi_last_sync_timestamps g)" using r by (simp add: list_update_beyond)
    with inv show ?thesis by (simp add: group_inv_def size_ok_def)
  qed
  with inv have "size_ok (set_sync_timestamp i j t g)" by (simp add: set_sync_timestamp_def group_inv_def size_ok_def)
  moreover have "sorted_ok (set_sync_timestamp i j t g)" "active_ok (set_sync_timestamp i j t g)" "ptr_ok (set_sync_timestamp i j t g)"
    using inv by (simp_all add: set_sync_timestamp_def group_inv_def sorted_ok_def active_ok_def ptr_ok_def)
  moreover have "store_ok (set_sync_timestamp i j t g)" using inv by (simp add: set_sync_timestamp_def group_inv_def store_ok_def)
  ultimately show ?thesis by (simp add: group_inv_def)
qed

lemma sync_report_fold_inv:
  "group_inv (snd tg) \<Longrightarrow> group_inv (snd (foldl (sync_report_step rr d body) tg es))"
proof (induction es arbitrary: tg)
  case (Cons e es)
  have "group_inv (snd (sync_report_step rr d body tg e))"
    using Cons.prems set_sync_timestamp_inv by (auto simp: sync_report_step_def split: option.split)
  with Cons.IH show ?case by simp
qed simp

lemma stat_inv: "group_inv g \<Longrightarrow> group_inv (upd_srv p (\<lambda>s. s\<lparr>sd_stat := f (sd_stat s)\<rparr>) g)"
  by (rule group_inv_upd) (simp_all add: same_shape_def)

lemma sync_report_inv:
  "group_inv g \<Longrightarrow> group_inv (snd (tracker_deal_storage_sync_report env save_now g p body))"
  using sync_report_fold_inv [of "(_, g)"] stat_inv
  by (simp add: tracker_deal_storage_sync_report_def Let_def case_prod_unfold split: option.split)

lemma srv_count_trunk: "trunk_change g g' \<Longrightarrow> srv_count g' = srv_count g"
  using trunk_change_servers by metis

lemma beat_inv:
  assumes inv: "group_inv g" and p: "p < srv_count g"
  shows "group_inv (snd (tracker_deal_storage_beat env save_now g p body))"
proof -
  have "group_inv (upd_srv p (\<lambda>s. s\<lparr>sd_stat := beat_stat body (sd_stat s)\<rparr>) g)"
    using stat_inv [OF inv, of p "beat_stat body"] .
  then show ?thesis
    using inv p stat_inv [OF active_inv] by (auto simp: tracker_deal_storage_beat_def Let_def)
qed

lemma check_and_sync_inv:
  assumes inv: "group_inv g"
  shows "group_inv (snd (snd (snd (tracker_check_and_sync env lc leader seen g p st))))"
proof -
  have 1: "group_inv h \<Longrightarrow> group_inv (upd_srv p (\<lambda>s. s\<lparr>sd_trunk_chg_count := x\<rparr>) h)" for h x
    by (rule group_inv_upd) (simp_all add: same_shape_def)
  have 2: "group_inv h \<Longrightarrow> group_inv (upd_srv p (\<lambda>s. s\<lparr>sd_chg_count := x\<rparr>) h)" for h x
    by (rule group_inv_upd) (simp_all add: same_shape_def)
  show ?thesis
    using inv 1 [OF inv] 2 [OF inv] 2 [OF 1 [OF inv]]
    by (simp add: tracker_check_and_sync_def Let_def case_prod_unfold)
qed

lemma same_shape_trans: "\<lbrakk>same_shape a b; same_shape b c\<rbrakk> \<Longrightarrow> same_shape a c"
  by (auto simp: same_shape_def)

lemma df_report_steps_shape:
  "same_shape (df_report_path body i s) s" "sd_status (df_report_path body i s) = sd_status s"
  "same_shape (df_report_balance i s) s" "sd_status (df_report_balance i s) = sd_status s"
  by (simp_all add: df_report_path_def df_report_balance_def Let_def same_shape_def)

lemma df_report_loop_shape:
  "df_report_loop lb body i n s = Some s' \<Longrightarrow> same_shape s' s \<and> sd_status s' = sd_status s"
proof (induction lb body i n s rule: df_report_loop.induct)
  case (2 lb body i n s)
  let ?s1 = "df_report_path body i s" and ?s2 = "df_report_balance i (df_report_path body i s)"
  have ok: "\<not> (i \<ge> length (sd_path_total_mbs s) \<or> i \<ge> length (sd_path_free_mbs s))"
    using "2.prems" by (simp split: if_splits)
  show ?case
  proof (cases lb)
    case True
    with "2.prems" ok have "\<not> (sd_current_write_path ?s1 < 0 \<or> sd_current_write_path ?s1 \<ge> int (length (sd_path_free_mbs ?s1)))"
      "df_report_loop lb body (i + 1) n ?s2 = Some s'" by (simp_all add: Let_def split: if_splits)
    with "2.IH"(2) [OF ok refl] True have "same_shape s' ?s2 \<and> sd_status s' = sd_status ?s2" by blast
    moreover have "same_shape ?s2 s" using same_shape_trans df_report_steps_shape by blast
    ultimately show ?thesis using same_shape_trans [of s' ?s2 s] by (simp add: df_report_steps_shape)
  next
    case False
    with "2.prems" ok have "df_report_loop lb body (i + 1) n ?s1 = Some s'" by (simp add: Let_def)
    with "2.IH"(1) [OF ok refl] False have "same_shape s' ?s1 \<and> sd_status s' = sd_status ?s1" by blast
    then show ?thesis using same_shape_trans [of s' ?s1 s] by (simp add: df_report_steps_shape)
  qed
qed (simp add: same_shape_def)

lemma find_min_free_space_inv: "group_inv g \<Longrightarrow> group_inv (tracker_find_min_free_space g)"
proof -
  assume inv: "group_inv g"
  have fold: "group_inv (foldl (\<lambda>g i. if sd_free_mb (srv g i) < gi_free_mb g
      then g\<lparr>gi_total_mb := sd_total_mb (srv g i), gi_free_mb := sd_free_mb (srv g i)\<rparr> else g) h xs)"
    if "group_inv h" for h xs
    using that by (induction xs arbitrary: h) simp_all
  show ?thesis using inv fold by (simp add: tracker_find_min_free_space_def split: list.split)
qed

lemma find_min_count: "srv_count (foldl (\<lambda>g i. if sd_free_mb (srv g i) < gi_free_mb g
      then g\<lparr>gi_total_mb := sd_total_mb (srv g i), gi_free_mb := sd_free_mb (srv g i)\<rparr> else g) h xs) = srv_count h"
  by (induction xs arbitrary: h) simp_all

lemma df_report_group_inv: "group_inv g \<Longrightarrow> group_inv (df_report_group g p x)"
  using find_min_free_space_inv by (simp add: df_report_group_def)

lemma writable_storage_inv: "group_inv g \<Longrightarrow> group_inv (snd (tracker_get_writable_storage env g))"
  by (auto simp: tracker_get_writable_storage_def Let_def inv_defs)

lemma write_path_inv: "\<lbrakk>group_inv g; 0 \<le> x\<rbrakk> \<Longrightarrow> group_inv (upd_srv p (\<lambda>s. s\<lparr>sd_current_write_path := x\<rparr>) g)"
  by (rule group_inv_upd) (simp_all add: same_shape_def)

section \<open>The name of the group\<close>

lemma name_deactive [simp]: "gi_group_name (tracker_mem_deactive_store_server env g i) = gi_group_name g"
  by (simp add: tracker_mem_deactive_store_server_def Let_def split: option.split)

lemma name_active [simp]: "gi_group_name (tracker_mem_active_store_server env g i) = gi_group_name g"
  by (simp add: tracker_mem_active_store_server_def Let_def split: option.split)

lemma name_offline [simp]: "gi_group_name (tracker_mem_offline_store_server env g i) = gi_group_name g"
  by (simp add: tracker_mem_offline_store_server_def Let_def)

lemma name_check_alive [simp]: "gi_group_name (check_alive_servers env g) = gi_group_name g"
proof -
  have "gi_group_name (foldl (\<lambda>g i. tracker_mem_deactive_store_server env
      (upd_srv i (\<lambda>s. s\<lparr>sd_status := FDFS_STORAGE_STATUS_OFFLINE\<rparr>) g) i) h xs) = gi_group_name h" for h xs
    by (induction xs arbitrary: h) simp_all
  then show ?thesis by (simp add: check_alive_servers_def)
qed

lemma name_check_trunk [simp]: "gi_group_name (check_alive_trunk env g) = gi_group_name g"
  by (simp add: check_alive_trunk_def tracker_set_trunk_server_and_log_def Let_def split: option.split)

lemma name_set_trunk [simp]: "gi_group_name (snd (tracker_mem_set_trunk_server env g sid)) = gi_group_name g"
  by (simp add: tracker_mem_set_trunk_server_def tracker_mem_do_set_trunk_server_def tracker_set_trunk_server_and_log_def
      Let_def case_prod_unfold split: option.split)

lemma name_delete: "tracker_mem_delete_storage env g sid = Some (e, g', l) \<Longrightarrow> gi_group_name g' = gi_group_name g"
  by (auto simp: tracker_mem_delete_storage_def Let_def split: option.splits if_splits)

lemma name_ip_changed [simp]: "gi_group_name (fst (snd (tracker_mem_storage_ip_changed env g a b))) = gi_group_name g"
proof -
  obtain r g1 where add: "tracker_mem_add_storage env g (Some b) b = (r, g1)" by fastforce
  then have "gi_group_name g1 = gi_group_name g" using name_add_storage [of env g "Some b" b] by simp
  then show ?thesis by (simp add: tracker_mem_storage_ip_changed_def Let_def add case_prod_unfold split: option.split sum.split)
qed

lemma name_sync_storages:
  assumes "tracker_mem_sync_storages env g bs = Some (e, g')"
  shows "gi_group_name g' = gi_group_name g"
proof -
  have one: "gi_group_name (snd rg') = gi_group_name (snd rg)" if "sync_one_storage env rg b = Some rg'" for rg b rg'
  proof -
    obtain r g1 where add: "tracker_mem_add_storage env (snd rg) (Some (take 15 (br_id b))) (take 15 (br_ip_addr b)) = (r, g1)"
      by fastforce
    then have "gi_group_name g1 = gi_group_name (snd rg)" using name_add_storage by (metis snd_conv)
    then show ?thesis using that add
      by (auto simp: sync_one_storage_def Let_def case_prod_unfold split: if_splits option.splits sum.splits)
  qed
  have "gi_group_name (snd rg') = gi_group_name (snd rg)" if "sync_storages_loop env rg bs = Some rg'" for rg rg'
    using that by (induction bs arbitrary: rg) (auto split: option.splits dest: one)
  from this [of "(0, g)" "(e, g')"] assms show ?thesis by (simp add: tracker_mem_sync_storages_def)
qed

lemma name_handlers [simp]:
  "gi_group_name (snd (tracker_deal_storage_sync_notify g p body)) = gi_group_name g"
  "gi_group_name (snd (tracker_deal_storage_sync_src_req g dest)) = gi_group_name g"
  "gi_group_name (snd (tracker_deal_storage_sync_dest_req env g p body)) = gi_group_name g"
  "gi_group_name (snd (tracker_deal_storage_beat env save_now g p body)) = gi_group_name g"
  "gi_group_name (snd (snd (snd (tracker_check_and_sync env lc leader seen g p st)))) = gi_group_name g"
  "gi_group_name (snd (tracker_get_writable_storage env g)) = gi_group_name g"
  by (simp_all add: tracker_deal_storage_sync_notify_def sync_notify_wait_def sync_notify_src_def
      tracker_deal_storage_sync_src_req_def tracker_deal_storage_sync_dest_req_def tracker_deal_storage_beat_def
      tracker_check_and_sync_def tracker_get_writable_storage_def Let_def case_prod_unfold split: option.split)

lemma name_sync_report [simp]:
  "gi_group_name (snd (tracker_deal_storage_sync_report env save_now g p body)) = gi_group_name g"
proof -
  have "gi_group_name (snd (foldl (sync_report_step rr d body) tg es)) = gi_group_name (snd tg)" for rr d tg es
    by (induction es arbitrary: tg) (simp_all add: sync_report_step_def set_sync_timestamp_def case_prod_unfold split: option.split)
  then show ?thesis
    by (simp add: tracker_deal_storage_sync_report_def Let_def case_prod_unfold split: option.split)
qed

lemma name_df_report [simp]: "gi_group_name (df_report_group g p x) = gi_group_name g"
proof -
  have "gi_group_name (foldl (\<lambda>g i. if sd_free_mb (srv g i) < gi_free_mb g
      then g\<lparr>gi_total_mb := sd_total_mb (srv g i), gi_free_mb := sd_free_mb (srv g i)\<rparr> else g) h xs) = gi_group_name h" for h xs
    by (induction xs arbitrary: h) simp_all
  then show ?thesis
    by (simp add: df_report_group_def tracker_find_min_free_space_def split: list.split)
qed

section \<open>The table of groups\<close>

lemma groups_inv_write_group [simp]: "groups_inv (gs\<lparr>gs_current_write_group := x\<rparr>) = groups_inv gs"
  by (simp add: groups_inv_def)

lemma groups_inv_grp: "\<lbrakk>groups_inv gs; k < length (gs_groups gs)\<rbrakk> \<Longrightarrow> group_inv (grp gs k)"
  by (simp add: groups_inv_def)

lemma find_max_group_frame:
  "tracker_find_max_free_space_group env rs gs =
     gs\<lparr>gs_current_write_group := gs_current_write_group (tracker_find_max_free_space_group env rs gs)\<rparr>"
  by (simp add: tracker_find_max_free_space_group_def split: option.split)

lemma query_group_frame:
  "snd (query_group env rs gs cmd body) = gs\<lparr>gs_current_write_group := gs_current_write_group (snd (query_group env rs gs cmd body))\<rparr>"
  by (simp add: query_group_def case_prod_unfold split: option.split sum.split)

lemma df_report_inv:
  assumes inv: "groups_inv gs" and kp: "k < length (gs_groups gs)" "p < srv_count (grp gs k)"
    and r: "tracker_deal_storage_df_report env rs gs (Some (k, p)) body = Some (e, gs')"
  shows "groups_inv gs'"
proof (cases "int (length body) = 16 * gi_store_path_count (grp gs k)")
  case True
  let ?g = "grp gs k"
  have g: "group_inv ?g" by (rule groups_inv_grp [OF inv kp(1)])
  from r True obtain s where s: "df_report_loop (gs_store_path gs = FDFS_STORE_PATH_LOAD_BALANCE) body 0
      (nat (gi_store_path_count ?g)) ((srv ?g p)\<lparr>sd_total_mb := 0, sd_free_mb := 0\<rparr>) = Some s"
    and gs': "gs' = (let g1 = df_report_group (upd_srv p (\<lambda>_. s) ?g) p (sd_free_mb (srv ?g p));
                       gs1 = tracker_find_max_free_space_group env rs (upd_grp k g1 gs)
                   in upd_grp k (tracker_mem_active_store_server env (grp gs1 k) p) gs1)"
    by (auto simp: tracker_deal_storage_df_report_def Let_def split: option.splits)
  let ?g1 = "df_report_group (upd_srv p (\<lambda>_. s) ?g) p (sd_free_mb (srv ?g p))"
  have "group_inv (upd_srv p (\<lambda>_. s) ?g)"
    using df_report_loop_shape [OF s] by (intro group_inv_upd [OF g]) (simp_all add: same_shape_def)
  then have g1: "group_inv ?g1" by (rule df_report_group_inv)
  have n1: "gi_group_name ?g1 = gi_group_name ?g" by simp
  have gs1: "groups_inv (upd_grp k ?g1 gs)" by (rule groups_inv_upd [OF inv g1 n1])
  define x where "x = gs_current_write_group (tracker_find_max_free_space_group env rs (upd_grp k ?g1 gs))"
  have x: "tracker_find_max_free_space_group env rs (upd_grp k ?g1 gs) = (upd_grp k ?g1 gs)\<lparr>gs_current_write_group := x\<rparr>"
    unfolding x_def by (rule find_max_group_frame)
  have "srv_count ?g1 = srv_count ?g"
    by (auto simp: df_report_group_def tracker_find_min_free_space_def find_min_count split: list.split)
  then have "group_inv (tracker_mem_active_store_server env ?g1 p)" using kp by (intro active_inv [OF g1]) simp
  then have "groups_inv (upd_grp k (tracker_mem_active_store_server env ?g1 p) ((upd_grp k ?g1 gs)\<lparr>gs_current_write_group := x\<rparr>))"
    using gs1 kp by (intro groups_inv_upd) (simp_all add: upd_grp_def)
  then show ?thesis unfolding gs' Let_def x using kp by (simp add: upd_grp_def)
next
  case False
  then show ?thesis using r inv by (simp add: tracker_deal_storage_df_report_def Let_def)
qed

lemma sgrp_bound: "\<lbrakk>groups_inv gs; j < length (gs_groups gs)\<rbrakk> \<Longrightarrow> gs_sorted_groups gs ! j < length (gs_groups gs)"
proof -
  assume inv: "groups_inv gs" and j: "j < length (gs_groups gs)"
  have "mset (gs_sorted_groups gs) = mset [0..<length (gs_groups gs)]" using inv by (simp add: groups_inv_def)
  then have "length (gs_sorted_groups gs) = length (gs_groups gs)" using mset_eq_length by fastforce
  then have "gs_sorted_groups gs ! j \<in> set (gs_sorted_groups gs)" using j by simp
  then show ?thesis using set_sorted_groups [OF inv] by simp
qed

lemma find_range: "find P xs = Some j \<Longrightarrow> P j \<and> j \<in> set xs"
  by (auto simp: find_Some_iff)

lemma select_group_sound:
  assumes ne: "gs_groups gs \<noteq> []" and cw: "0 \<le> gs_current_write_group gs"
    and r: "select_group env rs gs = Inr (j, c)"
  shows "j < length (gs_groups gs) \<and> has_active (sgrp gs j) \<and> group_has_space env rs (sgrp gs j) \<and>
    0 \<le> c \<and> (c = gs_current_write_group gs \<or> c < int (length (gs_groups gs)))"
proof -
  let ?n = "length (gs_groups gs)"
  define i where "i = (if gs_current_write_group gs \<ge> int ?n then 0 else nat (gs_current_write_group gs))"
  define sp where "sp = (\<lambda>j. has_active (sgrp gs j) \<and> fdfs_check_reserved_space (sgrp gs j) rs)"
  define tr where "tr = (\<lambda>j. has_active (sgrp gs j) \<and> fdfs_check_reserved_space_trunk (sgrp gs j) rs)"
  have i: "i < ?n" using ne cw by (auto simp: i_def)
  have good: "has_active (sgrp gs j) \<and> group_has_space env rs (sgrp gs j)" if "sp j \<or> (g_if_use_trunk_file env \<and> tr j)" for j
    using that by (auto simp: sp_def tr_def group_has_space_def)
  have r': "(if sp i \<or> (g_if_use_trunk_file env \<and> gs_store_lookup gs = FDFS_STORE_LOOKUP_LOAD_BALANCE \<and> tr i)
      then Inr (i, gs_current_write_group gs)
      else case find sp ([i + 1..<?n] @ [0..<i]) of
             Some j \<Rightarrow> Inr (j, int j)
           | None \<Rightarrow>
               if \<not> list_ex (\<lambda>j. has_active (sgrp gs j)) [0..<?n] then Inl ENOENT
               else if \<not> g_if_use_trunk_file env then Inl ENOSPC
               else case find tr [0..<?n] of Some j \<Rightarrow> Inr (j, int j) | None \<Rightarrow> Inl ENOSPC) = Inr (j, c)"
    using r unfolding select_group_def Let_def i_def sp_def tr_def .
  show ?thesis
  proof (cases "sp i \<or> (g_if_use_trunk_file env \<and> gs_store_lookup gs = FDFS_STORE_LOOKUP_LOAD_BALANCE \<and> tr i)")
    case True
    with r' have "j = i" "c = gs_current_write_group gs" by simp_all
    with good [of i] True i cw show ?thesis by auto
  next
    case F: False
    show ?thesis
    proof (cases "find sp ([i + 1..<?n] @ [0..<i])")
      case None
      with r' F have t: "g_if_use_trunk_file env" "find tr [0..<?n] = Some j" "c = int j"
        by (auto split: if_splits option.splits)
      with find_range [OF t(2)] good [of j] show ?thesis by auto
    next
      case (Some m)
      with r' F have "j = m" "c = int m" by simp_all
      with find_range [OF Some] good [of m] i show ?thesis by auto
    qed
  qed
qed

lemma query_group_sound:
  assumes inv: "groups_inv gs" and ne: "gs_groups gs \<noteq> []" and cw: "0 \<le> gs_current_write_group gs"
    and r: "query_group env rs gs cmd body = (Inr k, gs')"
  shows "k < length (gs_groups gs) \<and> has_active (grp gs k) \<and> group_has_space env rs (grp gs k)"
proof -
  have by_name: "k < length (gs_groups gs)" if "tracker_mem_get_group_ex gs n = Some k" for n
    using that get_group_iff [OF inv] by simp
  have by_ptr: "k < length (gs_groups gs)" if "gs_pStoreGroup gs = Some k"
    using that inv by (simp add: groups_inv_def)
  have sel: "k < length (gs_groups gs) \<and> has_active (grp gs k) \<and> group_has_space env rs (grp gs k)"
    if "select_group env rs gs = Inr (j, c)" "k = gs_sorted_groups gs ! j" for j c
    using select_group_sound [OF ne cw that(1)] sgrp_bound [OF inv] that(2) by (auto simp: sgrp_def)
  show ?thesis
    using r by_name by_ptr sel unfolding query_group_def
    by (auto split: if_splits option.splits sum.splits)
qed

definition tracker_inv :: "FDFSGroups \<Rightarrow> bool" where
  "tracker_inv gs \<longleftrightarrow> groups_inv gs \<and> 0 \<le> gs_current_write_group gs"

lemma write_group_upd [simp]: "gs_current_write_group (upd_grp k g gs) = gs_current_write_group gs"
  by (simp add: upd_grp_def)

lemma query_group_write_group:
  assumes "gs_groups gs \<noteq> []" "0 \<le> gs_current_write_group gs"
  shows "0 \<le> gs_current_write_group (snd (query_group env rs gs cmd body))"
  using assms select_group_sound [OF assms, of env rs]
  by (fastforce simp: query_group_def split: option.split sum.split)

lemma find_max_write_group:
  "0 \<le> gs_current_write_group gs \<Longrightarrow> 0 \<le> gs_current_write_group (tracker_find_max_free_space_group env rs gs)"
  by (simp add: tracker_find_max_free_space_group_def split: option.split)

lemma query_path_nonneg: "0 \<le> sd_current_write_path s \<Longrightarrow> 0 \<le> snd (query_path env rs g s)"
  by (simp add: query_path_def Let_def split: option.split)

lemma query_server_frame: "snd (query_server env cmd g) = g\<lparr>gi_current_write_server := gi_current_write_server (snd (query_server env cmd g))\<rparr>"
  by (simp add: query_server_def tracker_get_writable_storage_def Let_def)

lemma query_server_active:
  assumes inv: "group_inv g" and a: "has_active g"
  shows "\<exists>p. fst (query_server env cmd g) = Some p \<and> p \<in> set (gi_active_servers g)"
proof -
  let ?n = "length (gi_active_servers g)"
  let ?w = "gi_current_write_server g"
  have "(if ?w \<ge> int ?n then 0 else ?w) < int ?n" "0 \<le> ?w"
    using inv a by (auto simp: has_active_def group_inv_def size_ok_def)
  then have rr: "gi_active_servers g ! nat (if ?w \<ge> int ?n then 0 else ?w) \<in> set (gi_active_servers g)"
    by (intro nth_mem) auto
  obtain q where "gi_pStoreServer g = Some q" "q \<in> set (gi_active_servers g)"
    using inv a by (cases "gi_pStoreServer g") (auto simp: has_active_def group_inv_def store_ok_def)
  then have "\<exists>p. fst (tracker_get_writable_storage env g) = Some p \<and> p \<in> set (gi_active_servers g)"
    using rr unfolding tracker_get_writable_storage_def Let_def by (cases "g_store_server env = 0") simp_all
  moreover have "hd (gi_active_servers g) \<in> set (gi_active_servers g)" using a by (simp add: has_active_def)
  ultimately show ?thesis by (cases "query_one cmd") (simp_all add: query_server_def)
qed

lemma query_server_inv: "group_inv g \<Longrightarrow> group_inv (snd (query_server env cmd g))"
  using writable_storage_inv by (simp add: query_server_def)

text \<open>
  The three possible results of a query once the group is chosen; \<open>g1\<close> is the group after the choice of
  the server \<open>p\<close>.
\<close>

lemma query_storage_cases:
  assumes inv: "tracker_inv gs" and len: "length body = (if with_group cmd then 16 else 0)" and ne: "gs_groups gs \<noteq> []"
    and q: "query_group env rs gs cmd body = (Inr k, gs1)"
  obtains (no_path) "tracker_deal_service_query_storage env rs gs cmd body = (Inl ENOENT, gs1)" "gi_store_path_count (grp gs k) \<le> 0"
  | (path) p g1 where "0 < gi_store_path_count (grp gs k)" "p \<in> set (gi_active_servers (grp gs k))"
      "group_inv g1" "g1 = (grp gs k)\<lparr>gi_current_write_server := gi_current_write_server g1\<rparr>"
      "tracker_deal_service_query_storage env rs gs cmd body = query_reply env rs gs1 cmd k p g1"
proof -
  have gi: "groups_inv gs" and cw: "0 \<le> gs_current_write_group gs" using inv by (simp_all add: tracker_inv_def)
  note k = query_group_sound [OF gi ne cw q]
  have gs1: "gs1 = gs\<lparr>gs_current_write_group := gs_current_write_group gs1\<rparr>"
    using query_group_frame [of env rs gs cmd body] q by simp
  have grp1: "grp gs1 k = grp gs k" by (subst gs1) simp
  have g: "group_inv (grp gs k)" using groups_inv_grp [OF gi] k by blast
  obtain p where p: "fst (query_server env cmd (grp gs k)) = Some p" "p \<in> set (gi_active_servers (grp gs k))"
    using query_server_active [OF g] k by blast
  obtain g1 where qs: "query_server env cmd (grp gs k) = (Some p, g1)" using p(1) by (metis prod.collapse)
  have g1: "group_inv g1" "g1 = (grp gs k)\<lparr>gi_current_write_server := gi_current_write_server g1\<rparr>"
    using query_server_inv [OF g, of env cmd] query_server_frame [of env cmd "grp gs k"] by (simp_all add: qs)
  show ?thesis
  proof (cases "gi_store_path_count (grp gs k) \<le> 0")
    case True
    then show ?thesis using len ne q grp1 by (intro no_path) (simp_all add: tracker_deal_service_query_storage_def)
  next
    case False
    have "tracker_deal_service_query_storage env rs gs cmd body = query_reply env rs gs1 cmd k p g1"
      using len ne False by (simp add: tracker_deal_service_query_storage_def q grp1 qs)
    moreover have "0 < gi_store_path_count (grp gs k)" using False by simp
    ultimately show ?thesis by (intro path [OF _ p(2) g1])
  qed
qed

lemma query_storage_inv:
  assumes inv: "tracker_inv gs"
  shows "tracker_inv (snd (tracker_deal_service_query_storage env rs gs cmd body))"
proof (cases "length body \<noteq> (if with_group cmd then 16 else 0) \<or> gs_groups gs = []")
  case True
  then show ?thesis using inv by (auto simp: tracker_deal_service_query_storage_def)
next
  case False
  then have ne: "gs_groups gs \<noteq> []" and len: "length body = (if with_group cmd then 16 else 0)" by auto
  have gi: "groups_inv gs" and cw: "0 \<le> gs_current_write_group gs" using inv by (simp_all add: tracker_inv_def)
  obtain r gs1 where q: "query_group env rs gs cmd body = (r, gs1)" by fastforce
  have gs1: "gs1 = gs\<lparr>gs_current_write_group := gs_current_write_group gs1\<rparr>"
    using query_group_frame [of env rs gs cmd body] q by simp
  have cw1: "0 \<le> gs_current_write_group gs1" using query_group_write_group [OF ne cw, of env rs cmd body] q by simp
  have gi1: "groups_inv gs1" by (subst gs1) (simp add: gi)
  have inv1: "tracker_inv gs1" using gi1 cw1 by (simp add: tracker_inv_def)
  show ?thesis
  proof (cases r)
    case (Inl e)
    then show ?thesis using inv1 q ne len by (simp add: tracker_deal_service_query_storage_def)
  next
    case (Inr k)
    have grp1: "grp gs1 k = grp gs k" by (subst gs1) simp
    from inv len ne q [unfolded Inr] show ?thesis
    proof (cases rule: query_storage_cases)
      case no_path
      then show ?thesis using inv1 by simp
    next
      case (path p g1)
      have g: "group_inv (grp gs k)" using groups_inv_grp [OF gi] query_group_sound [OF gi ne cw q [unfolded Inr]] by blast
      have name: "gi_group_name g1 = gi_group_name (grp gs1 k)" by (subst path(4)) (simp add: grp1)
      have "p < srv_count (grp gs k)" using path(2) active_set [OF g] by simp
      then have "0 \<le> sd_current_write_path (srv g1 p)" using g by (subst path(4)) (simp add: group_inv_def size_ok_def)
      then have nn: "0 \<le> snd (query_path env rs g1 (srv g1 p))" by (rule query_path_nonneg)
      have upd: "tracker_inv (upd_grp k (upd_srv p (\<lambda>s. s\<lparr>sd_current_write_path := x\<rparr>) g1) gs1)" if "0 \<le> x" for x
        using groups_inv_upd [OF gi1 write_path_inv [OF path(3) that]] name cw1 by (simp add: tracker_inv_def)
      show ?thesis using upd nn unfolding path(5)
        by (cases "query_path env rs g1 (srv g1 p)"; cases "fst (query_path env rs g1 (srv g1 p))")
           (auto simp: query_reply_def Let_def)
    qed
  qed
qed

section \<open>Steps and reachable states\<close>

text \<open>
  A step of one group. A storage server asks for a synchronisation source (\<open>sync_dest_req\<close>) right after it has joined, before its first
  heart beat makes it active. The handler does not check this itself: \<open>sync_dest_req_active\<close> in \<open>Tracker_Props\<close> shows what the request
  of an active server does to the group.
\<close>

inductive group_step :: "tracker_env \<Rightarrow> FDFSGroupInfo \<Rightarrow> FDFSGroupInfo \<Rightarrow> bool" for env where
  beat: "p < srv_count g \<Longrightarrow> group_step env g (snd (tracker_deal_storage_beat env save_now g p body))"
| sync_report: "group_step env g (snd (tracker_deal_storage_sync_report env save_now g p body))"
| sync_notify: "group_step env g (snd (tracker_deal_storage_sync_notify g p body))"
| sync_src_req: "group_step env g (snd (tracker_deal_storage_sync_src_req g dest))"
| sync_dest_req: "sd_status (srv g p) \<noteq> FDFS_STORAGE_STATUS_ACTIVE \<Longrightarrow>
    group_step env g (snd (tracker_deal_storage_sync_dest_req env g p body))"
| check_and_sync: "group_step env g (snd (snd (snd (tracker_check_and_sync env leader_chg leader seen g p st))))"
| offline: "p < srv_count g \<Longrightarrow> group_step env g (tracker_mem_offline_store_server env g p)"
| delete_storage: "tracker_mem_delete_storage env g sid = Some (e, g', line) \<Longrightarrow> group_step env g g'"
| ip_changed: "length new_ip \<le> 15 \<Longrightarrow>
    group_step env g (fst (snd (tracker_mem_storage_ip_changed env g old_ip new_ip)))"
| sync_storages: "tracker_mem_sync_storages env g briefs = Some (e, g') \<Longrightarrow> group_step env g g'"
| set_trunk_server: "group_step env g (snd (tracker_mem_set_trunk_server env g sid))"
| alive_servers: "group_step env g (check_alive_servers env g)"
| alive_trunk: "group_step env g (check_alive_trunk env g)"
| trunk_fid: "group_step env g (snd (tracker_deal_report_trunk_fid env g p body))"
| replica_chg: "tracker_deal_storage_replica_chg env g body = Some (e, g') \<Longrightarrow> group_step env g g'"

lemma group_inv_frame:
  "group_inv (g\<lparr>gi_current_trunk_file_id := x\<rparr>) = group_inv g"
  "group_inv (g\<lparr>gi_trunk_free_mb := x\<rparr>) = group_inv g"
  "\<lbrakk>group_inv g; 0 \<le> x\<rbrakk> \<Longrightarrow> group_inv (g\<lparr>gi_current_read_server := x\<rparr>)"
  unfolding group_inv_def sorted_ok_def active_ok_def store_ok_def ptr_ok_def size_ok_def by auto

lemma trunk_fid_inv:
  "group_inv g \<Longrightarrow> group_inv (snd (tracker_deal_report_trunk_fid env g p body))"
  "gi_group_name (snd (tracker_deal_report_trunk_fid env g p body)) = gi_group_name g"
  by (simp_all add: tracker_deal_report_trunk_fid_def Let_def group_inv_frame)

lemma group_step_inv:
  "\<lbrakk>group_step env g g'; group_inv g; ids_ok env\<rbrakk> \<Longrightarrow> group_inv g' \<and> gi_group_name g' = gi_group_name g"
proof (induction rule: group_step.induct)
  case (beat p g save_now body)
  then show ?case by (simp add: beat_inv)
next
  case (sync_report g save_now p body)
  then show ?case by (simp add: sync_report_inv)
next
  case (sync_notify g p body)
  then show ?case by (simp add: sync_notify_inv)
next
  case (sync_src_req g dest)
  then show ?case by (simp add: sync_src_req_inv)
next
  case (sync_dest_req g p body)
  then show ?case by (simp add: sync_dest_req_inv)
next
  case (check_and_sync g leader_chg leader seen p st)
  then show ?case by (simp add: check_and_sync_inv)
next
  case (offline p g)
  then show ?case by (simp add: offline_inv)
next
  case (delete_storage g sid e g' line)
  then show ?case using delete_storage_inv name_delete by blast
next
  case (ip_changed new_ip g old_ip)
  then show ?case by (simp add: ip_changed_inv)
next
  case (sync_storages g briefs e g')
  then show ?case using sync_storages_inv name_sync_storages by blast
next
  case (set_trunk_server g sid)
  then show ?case by (simp add: set_trunk_server_inv)
next
  case (alive_servers g)
  then show ?case by (simp add: check_alive_servers_inv)
next
  case (alive_trunk g)
  then show ?case by (simp add: check_alive_trunk_inv)
next
  case (trunk_fid g p body)
  then show ?case by (simp add: trunk_fid_inv)
next
  case (replica_chg g body e g')
  then show ?case using sync_storages_inv name_sync_storages
    by (fastforce simp: tracker_deal_storage_replica_chg_def Let_def split: if_splits)
qed

inductive tracker_step :: "FDFSGroups \<Rightarrow> FDFSGroups \<Rightarrow> bool" where
  group: "\<lbrakk>ids_ok env; k < length (gs_groups gs); group_step env (grp gs k) g\<rbrakk> \<Longrightarrow> tracker_step gs (upd_grp k g gs)"
| join: "\<lbrakk>ids_ok env; length ip \<le> 15; ext_malloc env = 0\<rbrakk> \<Longrightarrow>
    tracker_step gs (snd (tracker_mem_add_group_and_storage env gs ip body))"
| df_report: "\<lbrakk>k < length (gs_groups gs); p < srv_count (grp gs k);
     tracker_deal_storage_df_report env rs gs (Some (k, p)) body = Some (e, gs')\<rbrakk> \<Longrightarrow> tracker_step gs gs'"
| query_storage: "tracker_step gs (snd (tracker_deal_service_query_storage env rs gs cmd body))"
| query_fetch: "tracker_deal_service_query_fetch_update env sd stk gs fcmd body = Some (r, gs') \<Longrightarrow> tracker_step gs gs'"
| trunk_free_space: "k < length (gs_groups gs) \<Longrightarrow>
    tracker_step gs (snd (tracker_deal_report_trunk_free_space env rs gs k p body))"
| report_status: "\<lbrakk>ids_ok env; tracker_deal_storage_report_status env gs body = Some (e, gs')\<rbrakk> \<Longrightarrow> tracker_step gs gs'"
| delete_request: "\<lbrakk>ids_ok env; tracker_deal_server_delete_storage env gs body = Some (e, gs')\<rbrakk> \<Longrightarrow> tracker_step gs gs'"
| set_trunk_request: "ids_ok env \<Longrightarrow> tracker_step gs (snd (tracker_deal_server_set_trunk_server env gs body))"
| ip_changed_request: "ids_ok env \<Longrightarrow> tracker_step gs (snd (tracker_deal_storage_report_ip_changed env gs client_ip body))"

text \<open>
  \<open>tracker_mem_init_groups\<close> without data files; the configuration is arbitrary. The arrays that a join allocates after it has found its server are
  granted in \<open>join\<close> (\<open>ext_malloc env = 0\<close>).
\<close>

definition tracker_mem_init_groups :: "int \<Rightarrow> int \<Rightarrow> int \<Rightarrow> byte list \<Rightarrow> FDFSGroups" where
  "tracker_mem_init_groups lookup download store_pth store_group =
     \<lparr>gs_alloc_size = TRACKER_MEM_ALLOC_ONCE, gs_groups = [], gs_sorted_groups = [], gs_pStoreGroup = None,
      gs_current_write_group = 0, gs_store_lookup = lookup, gs_download_server = download, gs_store_path = store_pth,
      gs_store_group = store_group\<rparr>"

inductive tracker_reachable :: "FDFSGroups \<Rightarrow> bool" where
  init: "tracker_reachable (tracker_mem_init_groups lookup download store_pth store_group)"
| step: "\<lbrakk>tracker_reachable gs; tracker_step gs gs'\<rbrakk> \<Longrightarrow> tracker_reachable gs'"

lemma join_write_group:
  "gs_current_write_group (snd (tracker_mem_add_group_and_storage env gs ip body)) = gs_current_write_group gs"
  by (simp add: tracker_mem_add_group_and_storage_def tracker_mem_add_group_ex_def Let_def case_prod_unfold
      split: sum.split option.split)

lemma df_report_write_group:
  "\<lbrakk>tracker_deal_storage_df_report env rs gs c body = Some (e, gs'); 0 \<le> gs_current_write_group gs\<rbrakk>
   \<Longrightarrow> 0 \<le> gs_current_write_group gs'"
  by (auto simp: tracker_deal_storage_df_report_def Let_def find_max_write_group split: option.splits if_splits)

text \<open>A request for a group that exists changes that group by one step, or nothing.\<close>

lemma upd_step_inv:
  assumes "tracker_inv gs" "tracker_mem_get_group_ex gs name = Some k" "group_step env (grp gs k) g" "ids_ok env"
  shows "tracker_inv (upd_grp k g gs)"
proof -
  have gi: "groups_inv gs" and k: "k < length (gs_groups gs)" using assms(1,2) get_group_iff [of gs name k] by (auto simp: tracker_inv_def)
  have "group_inv g \<and> gi_group_name g = gi_group_name (grp gs k)" by (rule group_step_inv [OF assms(3) groups_inv_grp [OF gi k] assms(4)])
  then show ?thesis using groups_inv_upd [OF gi] assms(1) by (simp add: tracker_inv_def)
qed

lemma fetch_one_inv:
  "group_inv g \<Longrightarrow> group_inv (snd (fetch_one env sd d g fs store)) \<and> gi_group_name (snd (fetch_one env sd d g fs store)) = gi_group_name g"
  by (auto simp: fetch_one_def Let_def size_ok_def group_inv_def [of g] intro!: group_inv_frame split: option.split)

lemma fetch_update_inv:
  "group_inv g \<Longrightarrow> group_inv (snd (fetch_update env g fs)) \<and> gi_group_name (snd (fetch_update env g fs)) = gi_group_name g"
  using writable_storage_inv [of g env]
  by (auto simp: fetch_update_def tracker_get_writable_storage_def Let_def split: option.split)

lemma by_filename_inv:
  assumes inv: "tracker_inv gs" and r: "tracker_mem_get_storage_by_filename env sd stk gs cmd name filename = Some (r, gs')"
  shows "tracker_inv gs'"
proof (cases "gs' = gs")
  case False
  then obtain k store where k: "tracker_mem_get_group_ex gs name = Some k" and
    gs': "gs' = upd_grp k (snd (fetch_one env sd (gs_download_server gs) (grp gs k) (file_source_of stk filename) store)) gs \<or>
          gs' = upd_grp k (snd (fetch_update env (grp gs k) (file_source_of stk filename))) gs"
    using r by (cases cmd) (auto simp: tracker_mem_get_storage_by_filename_def Let_def case_prod_unfold split: option.splits if_splits)
  have gi: "groups_inv gs" and k': "k < length (gs_groups gs)" using inv k get_group_iff [of gs name k] by (auto simp: tracker_inv_def)
  show ?thesis
    using gs' groups_inv_upd [OF gi] fetch_one_inv [OF groups_inv_grp [OF gi k']] fetch_update_inv [OF groups_inv_grp [OF gi k']] inv
    by (auto simp: tracker_inv_def)
qed (use inv in simp)

lemma trunk_free_space_inv:
  assumes inv: "tracker_inv gs" and k: "k < length (gs_groups gs)"
  shows "tracker_inv (snd (tracker_deal_report_trunk_free_space env rs gs k p body))"
proof -
  have gi: "groups_inv gs" using inv by (simp add: tracker_inv_def)
  have "groups_inv (upd_grp k ((grp gs k)\<lparr>gi_trunk_free_mb := x\<rparr>) gs)" for x
    using groups_inv_upd [OF gi] groups_inv_grp [OF gi k] by (simp add: group_inv_frame)
  then have "tracker_inv (tracker_find_max_free_space_group env rs (upd_grp k ((grp gs k)\<lparr>gi_trunk_free_mb := x\<rparr>) gs))" for x
    using inv find_max_write_group [of "upd_grp k ((grp gs k)\<lparr>gi_trunk_free_mb := x\<rparr>) gs"]
    by (subst find_max_group_frame) (simp add: tracker_inv_def)
  then show ?thesis using inv by (simp add: tracker_deal_report_trunk_free_space_def Let_def)
qed

lemma tracker_step_inv: "\<lbrakk>tracker_step gs gs'; tracker_inv gs\<rbrakk> \<Longrightarrow> tracker_inv gs'"
proof (induction rule: tracker_step.induct)
  case (group env k gs g)
  then show ?case using group_step_inv [OF group(3) groups_inv_grp] groups_inv_upd by (auto simp: tracker_inv_def)
next
  case (join env ip gs body)
  then show ?case by (simp add: tracker_inv_def join_inv join_write_group)
next
  case (df_report k gs p env rs body e gs')
  then show ?case using df_report_inv df_report_write_group by (auto simp: tracker_inv_def)
next
  case (query_storage gs env rs cmd body)
  then show ?case by (rule query_storage_inv)
next
  case (query_fetch env sd stk gs fcmd body r gs')
  then show ?case using by_filename_inv
    by (fastforce simp: tracker_deal_service_query_fetch_update_def split: if_splits option.splits sum.splits)
next
  case (trunk_free_space k gs env rs p body)
  then show ?case by (simp add: trunk_free_space_inv)
next
  case (report_status env gs body e gs')
  then show ?case using upd_step_inv [OF report_status(3) _ group_step.sync_storages]
    by (auto simp: tracker_deal_storage_report_status_def split: if_splits option.splits)
next
  case (delete_request env gs body e gs')
  then show ?case using upd_step_inv [OF delete_request(3) _ group_step.delete_storage]
    by (auto simp: tracker_deal_server_delete_storage_def split: if_splits option.splits)
next
  case (set_trunk_request env gs body)
  then show ?case using upd_step_inv [OF set_trunk_request(2) _ group_step.set_trunk_server]
    by (auto simp: tracker_deal_server_set_trunk_server_def case_prod_unfold split: if_splits option.splits)
next
  case (ip_changed_request env gs client_ip body)
  have "length (c_str (take 15 (drop 32 body))) \<le> 15" by (simp add: c_str_def order_trans [OF length_takeWhile_le])
  from upd_step_inv [OF ip_changed_request(2) _ group_step.ip_changed [OF this] ip_changed_request(1)] ip_changed_request(2)
  show ?case by (auto simp: tracker_deal_storage_report_ip_changed_def Let_def case_prod_unfold split: option.split)
qed

lemma reachable_inv: "tracker_reachable gs \<Longrightarrow> tracker_inv gs"
proof (induction rule: tracker_reachable.induct)
  case (init lookup download store_pth store_group)
  show ?case by (simp add: tracker_inv_def groups_inv_def tracker_mem_init_groups_def)
next
  case (step gs gs')
  then show ?case using tracker_step_inv by blast
qed

end
