(* ===== verification/Tracker_Directory.thy ===== *)
theory Tracker_Directory
  imports Tracker_State
begin

text \<open>
  The servers of a group as an abstract directory: a map \<open>members\<close> from the id of a server to its
  status. Adding, deleting and renaming a server (\<open>tracker/tracker_mem.c\<close>) refine updates of that map; the
  interface \<open>server_directory\<close> states this for its clients.
\<close>

section \<open>The directory of a group\<close>

definition members :: "FDFSGroupInfo \<Rightarrow> byte list \<Rightarrow> int option" where
  "members g sid = map_option (\<lambda>i. sd_status (srv g i)) (tracker_mem_get_storage g sid)"

lemma members_iff:
  "sorted_ok g \<Longrightarrow> members g sid = Some st \<longleftrightarrow> (\<exists>i < srv_count g. sd_id (srv g i) = sid \<and> sd_status (srv g i) = st)"
  using get_storage_iff [of g sid] by (auto simp: members_def)

lemma members_eqI:
  assumes "sorted_ok g" "\<And>st. m = Some st \<longleftrightarrow> (\<exists>i < srv_count g. sd_id (srv g i) = sid \<and> sd_status (srv g i) = st)"
  shows "members g sid = m"
  using assms members_iff [OF assms(1), of sid] by (cases m) (metis not_None_eq)+

lemma members_index:
  assumes "sorted_ok g" "i < srv_count g"
  shows "members g (sd_id (srv g i)) = Some (sd_status (srv g i))"
  using assms by (auto simp: members_iff)

text \<open>A group whose servers are those of \<open>g\<close> under the same ids, except for server \<open>j\<close>.\<close>

lemma members_upd:
  assumes so: "sorted_ok g" "sorted_ok h" and cnt: "srv_count h = srv_count g" and j: "j < srv_count g" "sd_id (srv g j) = sid"
    and same: "\<And>i. i < srv_count g \<Longrightarrow> sd_id (srv h i) = sd_id (srv g i)"
    and st: "\<And>i. \<lbrakk>i < srv_count g; i \<noteq> j\<rbrakk> \<Longrightarrow> sd_status (srv h i) = sd_status (srv g i)"
  shows "members h = (members g)(sid \<mapsto> sd_status (srv h j))"
proof (rule ext)
  fix x
  show "members h x = ((members g)(sid \<mapsto> sd_status (srv h j))) x"
  proof (cases "x = sid")
    case True
    have "members h (sd_id (srv h j)) = Some (sd_status (srv h j))" using members_index [OF so(2)] j cnt by simp
    with True same j show ?thesis by simp
  next
    case False
    have "members h x = members g x"
      by (rule members_eqI [OF so(2)]) (use False j same st cnt members_iff [OF so(1), of x] in \<open>metis\<close>)
    with False show ?thesis by simp
  qed
qed

lemma delete_storage_members:
  assumes inv: "group_inv g" and r: "tracker_mem_delete_storage env g sid = Some (0, g', line)"
  shows "members g' = (members g)(sid \<mapsto> FDFS_STORAGE_STATUS_DELETED)"
proof -
  let ?g1 = "g\<lparr>gi_all_servers := map (drop_sync_src g sid) (gi_all_servers g)\<rparr>"
  from r obtain i s where i: "tracker_mem_get_storage g sid = Some i"
    and s: "tracker_mem_clear_storage_fields (srv ?g1 i) = Some s"
    and g': "g' = (upd_srv i (\<lambda>_. s\<lparr>sd_status := FDFS_STORAGE_STATUS_DELETED\<rparr>) ?g1)
               \<lparr>gi_chg_count := gi_chg_count (upd_srv i (\<lambda>_. s\<lparr>sd_status := FDFS_STORAGE_STATUS_DELETED\<rparr>) ?g1) + 1\<rparr>"
    by (auto simp: tracker_mem_delete_storage_def Let_def split: option.splits if_splits)
  have so: "sorted_ok g" using inv by (simp add: group_inv_def)
  have so': "sorted_ok g'" using delete_storage_inv [OF inv r] by (simp add: group_inv_def)
  have ib: "i < srv_count g" "sd_id (srv g i) = sid" using i get_storage_iff [OF so] by auto
  have all: "srv g' j = (if j = i then s\<lparr>sd_status := FDFS_STORAGE_STATUS_DELETED\<rparr> else drop_sync_src g sid (srv g j))"
    if "j < srv_count g" for j
    using that by (simp add: g' srv_upd)
  have "members g' = (members g)(sid \<mapsto> sd_status (srv g' i))"
  proof (rule members_upd [OF so so' _ ib])
    show "srv_count g' = srv_count g" by (simp add: g')
    show "sd_id (srv g' j) = sd_id (srv g j)" if "j < srv_count g" for j
      using all [OF that] clear_storage_fields_shape [OF s] drop_sync_src_shape(1) [of g sid] ib that
      by (auto simp: same_shape_def)
    show "sd_status (srv g' j) = sd_status (srv g j)" if "j < srv_count g" "j \<noteq> i" for j
      using all [OF that(1)] that(2) by (simp add: drop_sync_src_shape)
  qed
  with all [OF ib(1)] show ?thesis by simp
qed

lemma changelog_line_nonempty [simp]: "changelog_line env g s a \<noteq> []"
  by (simp add: changelog_line_def)

lemma ip_changed_done:
  assumes r: "tracker_mem_storage_ip_changed env g old_ip new_ip = (e, g', line)" "line \<noteq> []"
  obtains pOld p g1 where "\<not> g_use_storage_id env" "tracker_mem_get_storage g old_ip = Some pOld"
    "tracker_mem_add_storage env g (Some new_ip) new_ip = (Inr (p, True), g1)"
    "gi_all_servers g' = gi_all_servers (upd_srv p (\<lambda>s. s\<lparr>sd_id := take 15 old_ip, sd_ip_addr := take 15 old_ip,
          sd_status := FDFS_STORAGE_STATUS_IP_CHANGED\<rparr>)
        (upd_srv pOld (\<lambda>s. s\<lparr>sd_id := take 15 new_ip, sd_ip_addr := take 15 new_ip\<rparr>) g1))"
  using r unfolding tracker_mem_storage_ip_changed_def
  by (auto simp: Let_def split: if_splits option.splits prod.splits sum.splits)

lemma ip_changed_members:
  assumes inv: "group_inv g" and ids: "ids_ok env" and new: "length new_ip \<le> 15"
    and r: "tracker_mem_storage_ip_changed env g old_ip new_ip = (e, g', line)" "line \<noteq> []"
  shows "members g' = (members g)(new_ip := members g old_ip, old_ip \<mapsto> FDFS_STORAGE_STATUS_IP_CHANGED)"
proof -
  obtain pOld p g1 where use: "\<not> g_use_storage_id env" and old: "tracker_mem_get_storage g old_ip = Some pOld"
    and add: "tracker_mem_add_storage env g (Some new_ip) new_ip = (Inr (p, True), g1)"
    and all: "gi_all_servers g' = gi_all_servers (upd_srv p (\<lambda>s. s\<lparr>sd_id := take 15 old_ip, sd_ip_addr := take 15 old_ip,
          sd_status := FDFS_STORAGE_STATUS_IP_CHANGED\<rparr>)
        (upd_srv pOld (\<lambda>s. s\<lparr>sd_id := take 15 new_ip, sd_ip_addr := take 15 new_ip\<rparr>) g1))"
    using ip_changed_done [OF r] by metis
  note ins = add_storage_inserted [OF inv add]
  have so: "sorted_ok g" using inv by (simp add: group_inv_def)
  have "group_inv g'" using ip_changed_inv [OF inv ids new, of old_ip] r(1) by simp
  then have so': "sorted_ok g'" by (simp add: group_inv_def)
  have o: "pOld < srv_count g" "sd_id (srv g pOld) = old_ip" using get_storage_iff [OF so] old by auto
  then have len: "take 15 old_ip = old_ip" using inv by (auto simp: group_inv_def size_ok_def)
  have absent: "sd_id (srv g j) \<noteq> new_ip" if "j < srv_count g" for j
  proof -
    have "tracker_mem_get_storage g new_ip = None"
      using add use by (auto simp: tracker_mem_add_storage_def storage_id_of_def Let_def split: if_splits option.splits)
    then show ?thesis using get_storage_None [OF so] that by simp
  qed
  let ?n = "srv_count g"
  have srv': "srv g' j = (if j = ?n then (srv g1 ?n)\<lparr>sd_id := old_ip, sd_ip_addr := old_ip, sd_status := FDFS_STORAGE_STATUS_IP_CHANGED\<rparr>
      else if j = pOld then (srv g pOld)\<lparr>sd_id := new_ip, sd_ip_addr := new_ip\<rparr> else srv g j)" if "j < Suc ?n" for j
    using that ins(1-3) o(1) len new by (auto simp: all srv_upd)
  have cnt: "srv_count g' = Suc ?n" using ins(1,2) by (simp add: all)
  show ?thesis
  proof (rule ext, rule members_eqI [OF so'])
    fix x st
    have ex: "(\<exists>i < Suc ?n. sd_id (srv g' i) = x \<and> sd_status (srv g' i) = st) \<longleftrightarrow>
        (x = old_ip \<and> st = FDFS_STORAGE_STATUS_IP_CHANGED) \<or> (x = new_ip \<and> st = sd_status (srv g pOld)) \<or>
        (\<exists>i < ?n. i \<noteq> pOld \<and> sd_id (srv g i) = x \<and> sd_status (srv g i) = st)"
    proof -
      let ?P = "\<lambda>i. sd_id (srv g' i) = x \<and> sd_status (srv g' i) = st"
      have "(\<exists>i < Suc ?n. ?P i) \<longleftrightarrow> ?P ?n \<or> ?P pOld \<or> (\<exists>i < ?n. i \<noteq> pOld \<and> ?P i)"
        using o(1) by (metis less_Suc_eq)
      moreover have "(\<exists>i < ?n. i \<noteq> pOld \<and> ?P i) \<longleftrightarrow> (\<exists>i < ?n. i \<noteq> pOld \<and> sd_id (srv g i) = x \<and> sd_status (srv g i) = st)"
        by (intro ex_cong1 conj_cong refl) (simp_all add: srv')
      ultimately show ?thesis using srv' [of ?n] srv' [of pOld] o(1) by auto
    qed
    have uniq: "i = pOld" if "i < ?n" "sd_id (srv g i) = old_ip" for i using id_inj [OF so that(1) o(1)] that o by simp
    have ne: "new_ip \<noteq> old_ip" using absent [OF o(1)] o(2) by simp
    have mo: "members g old_ip = Some (sd_status (srv g pOld))" using members_index [OF so o(1)] o(2) by simp
    have mx: "members g x = Some st \<longleftrightarrow> (\<exists>i < ?n. sd_id (srv g i) = x \<and> sd_status (srv g i) = st)"
      by (rule members_iff [OF so])
    show "((members g)(new_ip := members g old_ip, old_ip \<mapsto> FDFS_STORAGE_STATUS_IP_CHANGED)) x = Some st \<longleftrightarrow>
        (\<exists>i < srv_count g'. sd_id (srv g' i) = x \<and> sd_status (srv g' i) = st)"
    proof (cases "x = old_ip \<or> x = new_ip")
      case True
      then have "\<not> (\<exists>i < ?n. i \<noteq> pOld \<and> sd_id (srv g i) = x \<and> sd_status (srv g i) = st)"
        using uniq absent by metis
      with True ne mo show ?thesis unfolding cnt ex by auto
    next
      case False
      then have "(\<exists>i < ?n. i \<noteq> pOld \<and> sd_id (srv g i) = x \<and> sd_status (srv g i) = st) \<longleftrightarrow> members g x = Some st"
        unfolding mx using o(2) by metis
      with False show ?thesis unfolding cnt ex by simp
    qed
  qed
qed

lemma add_storage_members:
  assumes inv: "group_inv g" and ids: "ids_ok env" "length ip \<le> 15" "\<And>s. id_opt = Some s \<Longrightarrow> length s \<le> 15"
    and sid: "storage_id_of env g id_opt ip = Inr sid"
    and r: "tracker_mem_add_storage env g id_opt ip = (Inr (i, b), g')"
  shows "members g' = (members g)(sid \<mapsto>
      (case members g sid of
         None \<Rightarrow> FDFS_STORAGE_STATUS_INIT
       | Some st \<Rightarrow> if st \<in> {FDFS_STORAGE_STATUS_DELETED, FDFS_STORAGE_STATUS_IP_CHANGED} then FDFS_STORAGE_STATUS_INIT else st))"
proof -
  have so: "sorted_ok g" using inv by (simp add: group_inv_def)
  have "group_inv g'" using add_storage_inv [OF inv ids r] by simp
  then have so': "sorted_ok g'" by (simp add: group_inv_def)
  have ip: "ip \<noteq> []" using r by (auto simp: tracker_mem_add_storage_def)
  show ?thesis
  proof (cases "tracker_mem_get_storage g sid")
    case (Some j)
    have j: "j < srv_count g" "sd_id (srv g j) = sid" using Some get_storage_iff [OF so] by auto
    let ?g1 = "if g_use_storage_id env then upd_srv j (\<lambda>s. s\<lparr>sd_ip_addr := ip\<rparr>) g else g"
    have "snd (tracker_mem_add_storage env g id_opt ip) =
       (if sd_status (srv ?g1 j) = FDFS_STORAGE_STATUS_DELETED \<or> sd_status (srv ?g1 j) = FDFS_STORAGE_STATUS_IP_CHANGED
        then upd_srv j (\<lambda>s. s\<lparr>sd_status := FDFS_STORAGE_STATUS_INIT\<rparr>) ?g1 else ?g1)"
      using ip sid Some by (simp add: tracker_mem_add_storage_def Let_def)
    then have g': "g' = (if sd_status (srv ?g1 j) = FDFS_STORAGE_STATUS_DELETED \<or> sd_status (srv ?g1 j) = FDFS_STORAGE_STATUS_IP_CHANGED
        then upd_srv j (\<lambda>s. s\<lparr>sd_status := FDFS_STORAGE_STATUS_INIT\<rparr>) ?g1 else ?g1)"
      by (simp only: r snd_conv)
    have "members g' = (members g)(sid \<mapsto> sd_status (srv g' j))"
      by (rule members_upd [OF so so' _ j]) (simp_all add: g' srv_upd)
    moreover have "sd_status (srv g' j) = (if sd_status (srv g j) \<in> {4, 3} then 0 else sd_status (srv g j))"
      using j by (simp add: g' srv_upd)
    moreover have "members g sid = Some (sd_status (srv g j))" using members_index [OF so j(1)] j(2) by simp
    ultimately show ?thesis by simp
  next
    case None
    then have b: "b"
      using r ip sid by (auto simp: tracker_mem_add_storage_def Let_def split: if_splits prod.splits)
    note ins = add_storage_inserted [OF inv r [unfolded b [THEN eqTrueI]]]
    have len: "take 15 sid = sid" using storage_id_of_length [OF sid ids] by simp
    have new: "sd_id (srv g' i) = sid" "sd_status (srv g' i) = 0" using ins(4) [OF sid] ins(5) len by simp_all
    have mn: "members g sid = None" using None by (simp add: members_def)
    show ?thesis
    proof (rule ext, rule members_eqI [OF so'])
      fix x st
      have "(\<exists>j < srv_count g'. sd_id (srv g' j) = x \<and> sd_status (srv g' j) = st) \<longleftrightarrow>
          (x = sid \<and> st = 0) \<or> members g x = Some st"
        using ins(1-3) new by (auto simp: less_Suc_eq members_iff [OF so])
      then show "((members g)(sid \<mapsto> (case members g sid of None \<Rightarrow> FDFS_STORAGE_STATUS_INIT
          | Some st \<Rightarrow> if st \<in> {FDFS_STORAGE_STATUS_DELETED, FDFS_STORAGE_STATUS_IP_CHANGED} then FDFS_STORAGE_STATUS_INIT else st))) x = Some st
          \<longleftrightarrow> (\<exists>j < srv_count g'. sd_id (srv g' j) = x \<and> sd_status (srv g' j) = st)"
        using mn by auto
    qed
  qed
qed

text \<open>
  The directory as an interface: its clients see a map from ids to status, and three operations on it.
\<close>

locale server_directory =
  fixes inv :: "'g \<Rightarrow> bool" and dir :: "'g \<Rightarrow> 'i \<Rightarrow> int option"
    and add :: "'i \<Rightarrow> 'g \<Rightarrow> 'g \<Rightarrow> bool" and del :: "'i \<Rightarrow> 'g \<Rightarrow> 'g \<Rightarrow> bool"
    and rename :: "'i \<Rightarrow> 'i \<Rightarrow> 'g \<Rightarrow> 'g \<Rightarrow> bool"
  assumes add_inv: "\<lbrakk>inv g; add i g g'\<rbrakk> \<Longrightarrow> inv g'"
    and add_dir: "\<lbrakk>inv g; add i g g'\<rbrakk> \<Longrightarrow> dir g' = (dir g)(i \<mapsto>
      (case dir g i of None \<Rightarrow> 0 | Some st \<Rightarrow> if st \<in> {4, 3} then 0 else st))"
    and del_inv: "\<lbrakk>inv g; del i g g'\<rbrakk> \<Longrightarrow> inv g'"
    and del_dir: "\<lbrakk>inv g; del i g g'\<rbrakk> \<Longrightarrow> dir g' = (dir g)(i \<mapsto> 4)"
    and rename_inv: "\<lbrakk>inv g; rename i j g g'\<rbrakk> \<Longrightarrow> inv g'"
    and rename_dir: "\<lbrakk>inv g; rename i j g g'\<rbrakk> \<Longrightarrow> dir g' = (dir g)(j := dir g i, i \<mapsto> 3)"
    and rename_new: "\<lbrakk>inv g; rename i j g g'\<rbrakk> \<Longrightarrow> dir g i \<noteq> None \<and> dir g j = None"
begin

definition dir_step :: "'g \<Rightarrow> 'g \<Rightarrow> bool" where
  "dir_step g g' \<longleftrightarrow> (\<exists>i j. add i g g' \<or> del i g g' \<or> rename i j g g')"

lemma dir_step_inv:
  assumes inv: "inv g" and step: "dir_step g g'"
  shows "inv g'"
  using step unfolding dir_step_def
  by (elim exE disjE) (rule add_inv [OF inv] del_inv [OF inv] rename_inv [OF inv], assumption)+

lemma dir_step_dom:
  assumes inv: "inv g" and step: "dir_step g g'"
  shows "dom (dir g) \<subseteq> dom (dir g')"
proof -
  obtain i j where "add i g g' \<or> del i g g' \<or> rename i j g g'"
    using step unfolding dir_step_def by (elim exE)
  then consider "add i g g'" | "del i g g'" | "rename i j g g'" by (elim disjE)
  then show ?thesis
  proof cases
    case 1
    show ?thesis unfolding add_dir [OF inv 1] by (auto simp: dom_fun_upd)
  next
    case 2
    show ?thesis unfolding del_dir [OF inv 2] by (auto simp: dom_fun_upd)
  next
    case 3
    then have "dir g j = None" using rename_new [OF inv 3] by simp
    then show ?thesis unfolding rename_dir [OF inv 3] by auto
  qed
qed

text \<open>An id that is in the directory stays there, whatever follows.\<close>

lemma known_forever: "\<lbrakk>dir_step\<^sup>*\<^sup>* g g'; inv g\<rbrakk> \<Longrightarrow> inv g' \<and> dom (dir g) \<subseteq> dom (dir g')"
proof (induction rule: rtranclp_induct)
  case (step g1 g2)
  then show ?case using dir_step_inv dir_step_dom by blast
qed simp

text \<open>A server that was renamed and comes back under its old id starts from the beginning.\<close>

lemma rename_then_add:
  assumes inv: "inv g" and ren: "rename i j g g1" and add: "add i g1 g2"
  shows "dir g2 = (dir g)(j := dir g i, i \<mapsto> 0)"
  using add_dir [OF rename_inv [OF inv ren] add] unfolding rename_dir [OF inv ren] by simp

end

text \<open>The operations of the model as relations: each with a result that changes the directory.\<close>

definition dir_add :: "byte list \<Rightarrow> FDFSGroupInfo \<Rightarrow> FDFSGroupInfo \<Rightarrow> bool" where
  "dir_add sid g g' \<longleftrightarrow> (\<exists>env id_opt ip i b. ids_ok env \<and> length ip \<le> 15 \<and> (\<forall>s. id_opt = Some s \<longrightarrow> length s \<le> 15) \<and>
     storage_id_of env g id_opt ip = Inr sid \<and> tracker_mem_add_storage env g id_opt ip = (Inr (i, b), g'))"

definition dir_del :: "byte list \<Rightarrow> FDFSGroupInfo \<Rightarrow> FDFSGroupInfo \<Rightarrow> bool" where
  "dir_del sid g g' \<longleftrightarrow> (\<exists>env line. tracker_mem_delete_storage env g sid = Some (0, g', line))"

definition dir_rename :: "byte list \<Rightarrow> byte list \<Rightarrow> FDFSGroupInfo \<Rightarrow> FDFSGroupInfo \<Rightarrow> bool" where
  "dir_rename old_ip new_ip g g' \<longleftrightarrow> (\<exists>env e line. ids_ok env \<and> length new_ip \<le> 15 \<and>
     tracker_mem_storage_ip_changed env g old_ip new_ip = (e, g', line) \<and> line \<noteq> [])"

lemma ip_changed_new:
  assumes "tracker_mem_storage_ip_changed env g old_ip new_ip = (e, g', line)" "line \<noteq> []"
  shows "members g old_ip \<noteq> None \<and> members g new_ip = None"
proof -
  obtain pOld p g1 where "\<not> g_use_storage_id env" "tracker_mem_get_storage g old_ip = Some pOld"
    "tracker_mem_add_storage env g (Some new_ip) new_ip = (Inr (p, True), g1)"
    using ip_changed_done [OF assms] by metis
  then show ?thesis
    by (auto simp: members_def tracker_mem_add_storage_def storage_id_of_def Let_def split: if_splits option.splits)
qed

lemma dir_add_inv:
  assumes inv: "group_inv g" and add: "dir_add sid g g'"
  shows "group_inv g'" "members g' = (members g)(sid \<mapsto>
      (case members g sid of None \<Rightarrow> 0 | Some st \<Rightarrow> if st \<in> {4, 3} then 0 else st))"
proof -
  obtain env id_opt ip i b where a: "ids_ok env" "length ip \<le> 15" "\<forall>s. id_opt = Some s \<longrightarrow> length s \<le> 15"
    and sid: "storage_id_of env g id_opt ip = Inr sid"
    and r: "tracker_mem_add_storage env g id_opt ip = (Inr (i, b), g')"
    using add unfolding dir_add_def by (elim exE conjE)
  have len: "\<And>s. id_opt = Some s \<Longrightarrow> length s \<le> 15" using a(3) by simp
  show "group_inv g'" using add_storage_inv [OF inv a(1,2) _ r] len by blast
  show "members g' = (members g)(sid \<mapsto>
      (case members g sid of None \<Rightarrow> 0 | Some st \<Rightarrow> if st \<in> {4, 3} then 0 else st))"
    by (rule add_storage_members [OF inv a(1,2) len sid r])
qed

lemma dir_rename_inv:
  assumes inv: "group_inv g" and ren: "dir_rename old_ip new_ip g g'"
  shows "group_inv g'" "members g' = (members g)(new_ip := members g old_ip, old_ip \<mapsto> 3)"
    "members g old_ip \<noteq> None \<and> members g new_ip = None"
proof -
  obtain env e line where a: "ids_ok env" "length new_ip \<le> 15"
    and r: "tracker_mem_storage_ip_changed env g old_ip new_ip = (e, g', line)" "line \<noteq> []"
    using ren unfolding dir_rename_def by (elim exE conjE)
  show "group_inv g'" using ip_changed_inv [OF inv a, of old_ip] unfolding r(1) by simp
  show "members g' = (members g)(new_ip := members g old_ip, old_ip \<mapsto> 3)"
    by (rule ip_changed_members [OF inv a r])
  show "members g old_ip \<noteq> None \<and> members g new_ip = None" by (rule ip_changed_new [OF r])
qed

lemma dir_del_inv:
  assumes inv: "group_inv g" and del: "dir_del sid g g'"
  shows "group_inv g'" "members g' = (members g)(sid \<mapsto> 4)"
proof -
  obtain env line where r: "tracker_mem_delete_storage env g sid = Some (0, g', line)"
    using del unfolding dir_del_def by (elim exE)
  show "group_inv g'" by (rule delete_storage_inv [OF inv r])
  show "members g' = (members g)(sid \<mapsto> 4)" by (rule delete_storage_members [OF inv r])
qed

interpretation directory: server_directory group_inv members dir_add dir_del dir_rename
  by unfold_locales (fact dir_add_inv dir_del_inv dir_rename_inv)+

end
