(* ===== verification/Tracker_Props.thy ===== *)
theory Tracker_Props
  imports Tracker_Directory
begin

text \<open>
  The properties of the tracker's table of groups: what holds in every reachable state, the choice of a
  group, of a server and of a store path for an upload, the servers that go offline, and the cases in
  which an operation does not do what it should.
\<close>

section \<open>A concrete tracker\<close>

text \<open>
  A tracker without storage ids that leads and whose outside world never fails, a storage server with
  two store paths, and the requests with which it gets active.
\<close>

definition demo_env :: tracker_env where
  "demo_env = \<lparr>g_use_storage_id = False, g_storage_ids = \<lparr>g_storage_ids_by_ip = [], g_storage_ids_by_id = []\<rparr>,
     g_if_leader_self = True, g_if_use_trunk_file = True, g_store_server = 0, g_current_time = 1000,
     g_check_active_interval = 100, g_trunk_init_check_occupying = False, g_trunk_init_reload_from_binlog = False,
     g_changelog_fsize = 0, ext_trunk_binlog_size = \<lambda>ip _. Inr (int (unat (hd ip))), ext_delete_binlog_marks = \<lambda>_ _. 0,
     ext_malloc = 0, ext_save_groups = 0, ext_save_storages = 0, ext_save_sync_timestamps = 0, ext_save_sys_files = 0,
     ext_write_trunk_log = 0\<rparr>"

definition demo_body :: FDFSStorageJoinBody where
  "demo_body = \<lparr>jb_group_name = [103], jb_storage_port = 23000, jb_storage_http_port = 80, jb_store_path_count = 2,
     jb_subdir_count_per_path = 256, jb_upload_priority = 10, jb_join_time = 1, jb_up_time = 2, jb_version = [52],
     jb_domain_name = [], jb_init_flag = True, jb_status = 0\<rparr>"

definition demo_join :: "byte list \<Rightarrow> FDFSGroups \<Rightarrow> FDFSGroups" where
  "demo_join ip gs = snd (tracker_mem_add_group_and_storage demo_env gs ip demo_body)"

definition demo_online :: "nat \<Rightarrow> FDFSGroups \<Rightarrow> FDFSGroups" where
  "demo_online p gs = upd_grp 0 (snd (tracker_deal_storage_sync_dest_req demo_env (grp gs 0) p [])) gs"

definition demo_beat :: "nat \<Rightarrow> FDFSGroups \<Rightarrow> FDFSGroups" where
  "demo_beat p gs = upd_grp 0 (snd (tracker_deal_storage_beat demo_env False (grp gs 0) p [])) gs"

definition demo_init :: FDFSGroups where
  "demo_init = tracker_mem_init_groups 0 0 0 []"

text \<open>Two servers that have joined, the first of them active.\<close>

definition demo_one :: FDFSGroups where
  "demo_one = demo_beat 0 (demo_online 0 (demo_join [50] (demo_join [49] demo_init)))"

lemma ids_ok_demo: "ids_ok demo_env"
  by (simp add: ids_ok_def demo_env_def)

lemma reachable_demo_join: "\<lbrakk>tracker_reachable gs; length ip \<le> 15\<rbrakk> \<Longrightarrow> tracker_reachable (demo_join ip gs)"
  unfolding demo_join_def
  by (rule tracker_reachable.step, assumption, rule tracker_step.join) (simp_all add: ids_ok_demo, simp add: demo_env_def)

lemma reachable_demo_online:
  "\<lbrakk>tracker_reachable gs; 0 < length (gs_groups gs); sd_status (srv (grp gs 0) p) \<noteq> 7\<rbrakk> \<Longrightarrow> tracker_reachable (demo_online p gs)"
  unfolding demo_online_def
  by (rule tracker_reachable.step, assumption, rule tracker_step.group [OF ids_ok_demo])
     (simp_all add: group_step.sync_dest_req)

lemma reachable_demo_beat:
  "\<lbrakk>tracker_reachable gs; 0 < length (gs_groups gs); p < srv_count (grp gs 0)\<rbrakk> \<Longrightarrow> tracker_reachable (demo_beat p gs)"
  unfolding demo_beat_def
  by (rule tracker_reachable.step, assumption, rule tracker_step.group [OF ids_ok_demo])
     (simp_all add: group_step.beat)

lemma reachable_demo_one: "tracker_reachable demo_one"
  unfolding demo_one_def
proof (intro reachable_demo_beat reachable_demo_online reachable_demo_join)
  show "tracker_reachable demo_init" unfolding demo_init_def by (rule tracker_reachable.init)
qed (code_simp+)

section \<open>Every reachable state\<close>

text \<open>C4. In every state the tracker can reach, the list of active servers of a group holds exactly its
  servers with the status ACTIVE, each once and in the order of their ids; the store server is set exactly
  when there is an active server, and is one of them; and the binary searches for a group name and for a
  server id find exactly the group and the server that carry it.\<close>

theorem reachable_groups_consistent:
  assumes "tracker_reachable gs" "k < length (gs_groups gs)"
  shows "set (gi_active_servers (grp gs k)) =
      {i. i < srv_count (grp gs k) \<and> sd_status (srv (grp gs k) i) = FDFS_STORAGE_STATUS_ACTIVE} \<and>
    distinct (gi_active_servers (grp gs k)) \<and>
    sorted_key (\<lambda>i. sd_id (srv (grp gs k) i)) (gi_active_servers (grp gs k)) \<and>
    (gi_pStoreServer (grp gs k) = None \<longleftrightarrow> gi_active_servers (grp gs k) = []) \<and>
    set_option (gi_pStoreServer (grp gs k)) \<subseteq> set (gi_active_servers (grp gs k)) \<and>
    (\<forall>sid i. tracker_mem_get_storage (grp gs k) sid = Some i \<longleftrightarrow> i < srv_count (grp gs k) \<and> sd_id (srv (grp gs k) i) = sid) \<and>
    (\<forall>name j. tracker_mem_get_group_ex gs name = Some j \<longleftrightarrow> j < length (gs_groups gs) \<and> gi_group_name (grp gs j) = name)"
proof -
  have gi: "groups_inv gs" using reachable_inv [OF assms(1)] by (simp add: tracker_inv_def)
  have g: "group_inv (grp gs k)" by (rule groups_inv_grp [OF gi assms(2)])
  then have so: "sorted_ok (grp gs k)" and st: "store_ok (grp gs k)"
    and key: "sorted_key (\<lambda>i. sd_id (srv (grp gs k) i)) (gi_active_servers (grp gs k))"
    by (simp_all add: group_inv_def active_ok_def)
  have "distinct (gi_active_servers (grp gs k))" using sorted_key_distinct [OF key] by (simp add: distinct_map)
  moreover have "gi_pStoreServer (grp gs k) = None \<longleftrightarrow> gi_active_servers (grp gs k) = []"
    "set_option (gi_pStoreServer (grp gs k)) \<subseteq> set (gi_active_servers (grp gs k))"
    using st by (cases "gi_pStoreServer (grp gs k)"; auto simp: store_ok_def)+
  ultimately show ?thesis using active_set [OF g] key get_storage_iff [OF so] get_group_iff [OF gi] by simp
qed

theorem reachable_groups_consistent_witness:
  "set (gi_active_servers (grp demo_one 0)) = {i. i < srv_count (grp demo_one 0) \<and> sd_status (srv (grp demo_one 0) i) = 7} \<and>
   gi_active_servers (grp demo_one 0) = [0] \<and> srv_count (grp demo_one 0) = 2 \<and> gi_pStoreServer (grp demo_one 0) = Some 0"
proof -
  have "gi_active_servers (grp demo_one 0) = [0] \<and> srv_count (grp demo_one 0) = 2 \<and> gi_pStoreServer (grp demo_one 0) = Some 0"
    "0 < length (gs_groups demo_one)" by code_simp+
  then show ?thesis using reachable_groups_consistent [OF reachable_demo_one, of 0] by blast
qed

section \<open>Servers that go offline\<close>

lemma deactive_status:
  "srv_count (tracker_mem_deactive_store_server env g t) = srv_count g \<and>
   (\<forall>j < srv_count g. sd_status (srv (tracker_mem_deactive_store_server env g t) j) = sd_status (srv g j))"
proof -
  have fs: "gi_all_servers (tracker_mem_find_store_server env h) = gi_all_servers h" for h
    by (subst find_store_server_eq) simp
  show ?thesis
    by (cases "bsearch_index (\<lambda>i. tracker_mem_cmp_by_storage_id (srv g t) (srv g i)) (gi_active_servers g)")
       (simp_all add: tracker_mem_deactive_store_server_def Let_def fs srv_upd)
qed

lemma alive_fold:
  fixes env
  defines "off \<equiv> \<lambda>g i. tracker_mem_deactive_store_server env (upd_srv i (\<lambda>s. s\<lparr>sd_status := FDFS_STORAGE_STATUS_OFFLINE\<rparr>) g) i"
  shows "srv_count (foldl off g xs) = srv_count g \<and>
    (\<forall>j < srv_count g. sd_status (srv (foldl off g xs) j) = (if j \<in> set xs then FDFS_STORAGE_STATUS_OFFLINE else sd_status (srv g j)))"
proof (induction xs arbitrary: g)
  case (Cons a xs)
  have "srv_count (off g a) = srv_count g"
    "\<forall>j < srv_count g. sd_status (srv (off g a) j) = (if j = a then FDFS_STORAGE_STATUS_OFFLINE else sd_status (srv g j))"
    using deactive_status [of env "upd_srv a (\<lambda>s. s\<lparr>sd_status := FDFS_STORAGE_STATUS_OFFLINE\<rparr>) g" a]
    by (simp_all add: off_def srv_upd)
  then show ?case using Cons [of "off g a"] by simp
qed simp

text \<open>The request of an active server for a synchronisation source, which the handler does not refuse: when it succeeds, the server stays in the list of
  active servers with another status, so the list is no longer that of the active servers.\<close>

theorem sync_dest_req_active:
  assumes inv: "group_inv g" and p: "p \<in> set (gi_active_servers g)"
    and r: "tracker_deal_storage_sync_dest_req env g p [] = ((0, answer), g')"
  shows "p \<in> set (gi_active_servers g') \<and> sd_status (srv g' p) \<noteq> FDFS_STORAGE_STATUS_ACTIVE \<and> \<not> group_inv g'"
proof -
  have "p < srv_count g" using active_set [OF inv] p by auto
  then have a: "gi_active_servers g' = gi_active_servers g" "sd_status (srv g' p) \<noteq> FDFS_STORAGE_STATUS_ACTIVE"
    using r by (auto simp: tracker_deal_storage_sync_dest_req_def Let_def upd_srv_def split: if_splits option.splits)
  with p active_set [of g'] show ?thesis by auto
qed

text \<open>C20. The check for silent servers of a consistent group with at most 32 of them puts exactly the active
  servers whose last heart beat is older than the interval offline: every other server keeps its status, and the
  active servers are those whose heart beat is recent.\<close>

theorem check_alive_exact:
  assumes inv: "group_inv g"
    and few: "length (filter (\<lambda>i. g_current_time env - st_last_heart_beat_time (sd_stat (srv g i)) > g_check_active_interval env)
               (gi_active_servers g)) \<le> 32"
    and j: "j < srv_count g"
  shows "sd_status (srv (check_alive_servers env g) j) =
      (if sd_status (srv g j) = FDFS_STORAGE_STATUS_ACTIVE \<and>
          g_current_time env - st_last_heart_beat_time (sd_stat (srv g j)) > g_check_active_interval env
       then FDFS_STORAGE_STATUS_OFFLINE else sd_status (srv g j)) \<and>
    (j \<in> set (gi_active_servers (check_alive_servers env g)) \<longleftrightarrow> sd_status (srv g j) = FDFS_STORAGE_STATUS_ACTIVE \<and>
       g_current_time env - st_last_heart_beat_time (sd_stat (srv g j)) \<le> g_check_active_interval env)"
proof -
  have idle: "j \<in> set (idle_servers env g) \<longleftrightarrow> sd_status (srv g j) = FDFS_STORAGE_STATUS_ACTIVE \<and>
      g_current_time env - st_last_heart_beat_time (sd_stat (srv g j)) > g_check_active_interval env"
    using few j active_set [OF inv] by (simp add: idle_servers_def)
  have st: "srv_count (check_alive_servers env g) = srv_count g"
    "sd_status (srv (check_alive_servers env g) j) = (if j \<in> set (idle_servers env g) then FDFS_STORAGE_STATUS_OFFLINE else sd_status (srv g j))"
    using alive_fold [of env g "idle_servers env g"] j by (simp_all add: check_alive_servers_def)
  have act: "j \<in> set (gi_active_servers (check_alive_servers env g)) \<longleftrightarrow>
      sd_status (srv (check_alive_servers env g) j) = FDFS_STORAGE_STATUS_ACTIVE"
    using j by (simp add: active_set [OF check_alive_servers_inv [OF inv, of env]] st(1))
  show ?thesis unfolding act st(2) idle by (auto simp: not_less)
qed

definition demo_late :: tracker_env where
  "demo_late = demo_env\<lparr>g_current_time := 1101\<rparr>"

lemma reachable_group_inv: "\<lbrakk>tracker_reachable gs; k < length (gs_groups gs)\<rbrakk> \<Longrightarrow> group_inv (grp gs k)"
  using reachable_inv groups_inv_grp by (auto simp: tracker_inv_def)

theorem check_alive_exact_witness:
  "sd_status (srv (grp demo_one 0) 0) = 7 \<and> sd_status (srv (check_alive_servers demo_late (grp demo_one 0)) 0) = 5 \<and>
   0 \<notin> set (gi_active_servers (check_alive_servers demo_late (grp demo_one 0)))"
proof -
  have inv: "group_inv (grp demo_one 0)" by (rule reachable_group_inv [OF reachable_demo_one]) code_simp
  have "length (filter (\<lambda>i. g_current_time demo_late - st_last_heart_beat_time (sd_stat (srv (grp demo_one 0) i)) > g_check_active_interval demo_late)
      (gi_active_servers (grp demo_one 0))) \<le> 32"
    "0 < srv_count (grp demo_one 0)" "sd_status (srv (grp demo_one 0) 0) = 7"
    "g_current_time demo_late - st_last_heart_beat_time (sd_stat (srv (grp demo_one 0) 0)) > g_check_active_interval demo_late"
    by code_simp+
  then show ?thesis using check_alive_exact [OF inv, of demo_late 0] by simp
qed

section \<open>The server for an upload\<close>

text \<open>The answers to \<open>m\<close> requests in a row.\<close>

fun writable_requests :: "tracker_env \<Rightarrow> nat \<Rightarrow> FDFSGroupInfo \<Rightarrow> nat option list" where
  "writable_requests env 0 g = []"
| "writable_requests env (Suc m) g =
     (case tracker_get_writable_storage env g of (r, g1) \<Rightarrow> r # writable_requests env m g1)"

lemma writable_requests_nth:
  assumes rr: "g_store_server env = FDFS_STORE_SERVER_ROUND_ROBIN"
  shows "\<lbrakk>gi_current_write_server g = int c; c < length (gi_active_servers g)\<rbrakk> \<Longrightarrow> writable_requests env m g =
    map (\<lambda>k. Some (gi_active_servers g ! ((c + k) mod length (gi_active_servers g)))) [0..<m]"
proof (induction m arbitrary: g c)
  case (Suc m)
  let ?a = "gi_active_servers g" and ?n = "length (gi_active_servers g)"
  let ?g1 = "g\<lparr>gi_current_write_server := int (Suc c mod ?n)\<rparr>"
  have step: "tracker_get_writable_storage env g = (Some (?a ! c), ?g1)"
    using Suc.prems rr by (auto simp: tracker_get_writable_storage_def mod_Suc)
  have "Suc c mod ?n < ?n" using Suc.prems by (intro mod_less_divisor) linarith
  then have "writable_requests env m ?g1 = map (\<lambda>k. Some (?a ! ((Suc c mod ?n + k) mod ?n))) [0..<m]"
    using Suc.IH [of ?g1 "Suc c mod ?n"] by simp
  moreover have "(Suc c mod ?n + k) mod ?n = (c + Suc k) mod ?n" for k by (simp add: mod_add_left_eq)
  ultimately have "writable_requests env (Suc m) g = Some (?a ! (c mod ?n)) # map (\<lambda>k. Some (?a ! ((c + Suc k) mod ?n))) [0..<m]"
    using step Suc.prems by simp
  then show ?case by (simp add: upt_conv_Cons map_Suc_upt [symmetric] del: upt_Suc)
qed simp

text \<open>With the round robin rule and a write index inside the list of active servers, as many upload
  requests in a row as there are active servers are answered with each active server exactly once, in the
  order of the list from the write index on.\<close>

theorem writable_storage_fair:
  assumes "g_store_server env = FDFS_STORE_SERVER_ROUND_ROBIN"
    and "gi_current_write_server g = int c" "c < length (gi_active_servers g)"
  shows "writable_requests env (length (gi_active_servers g)) g = map Some (rotate c (gi_active_servers g))"
proof (rule nth_equalityI)
  note req = writable_requests_nth [OF assms, of "length (gi_active_servers g)"]
  show "length (writable_requests env (length (gi_active_servers g)) g) = length (map Some (rotate c (gi_active_servers g)))"
    using req by simp
  fix i assume "i < length (writable_requests env (length (gi_active_servers g)) g)"
  then have i: "i < length (gi_active_servers g)" using req by simp
  then show "writable_requests env (length (gi_active_servers g)) g ! i = map Some (rotate c (gi_active_servers g)) ! i"
    unfolding req by (simp add: nth_rotate)
qed

definition demo_three :: FDFSGroupInfo where
  "demo_three = (tracker_mem_init_group [103])\<lparr>gi_storage_port := 23000, gi_current_write_server := 1,
     gi_all_servers := map (\<lambda>k. (zero_storage 0)\<lparr>sd_id := [k], sd_ip_addr := [k], sd_status := 7, sd_upload_priority := uint (k AND 1)\<rparr>) [50, 53, 52],
     gi_sorted_servers := [0, 2, 1], gi_active_servers := [0, 2, 1], gi_pStoreServer := Some 0\<rparr>"

theorem writable_storage_fair_witness:
  "writable_requests demo_env 3 demo_three = [Some 2, Some 1, Some 0]"
proof -
  have a: "gi_active_servers demo_three = [0, 2, 1]" "gi_current_write_server demo_three = int 1" "g_store_server demo_env = 0"
    by (simp_all add: demo_env_def demo_three_def)
  show ?thesis using writable_storage_fair [OF a(3,2)] by (simp add: a(1) numeral_3_eq_3)
qed

section \<open>The trunk server\<close>

lemma find_trunk_loop_last:
  assumes "\<forall>i \<in> set xs. ext_trunk_binlog_size env (sd_ip_addr (srv g i)) (gi_storage_port g) = Inr (sz i)"
  shows "find_trunk_loop env g m p xs = last (p # filter (\<lambda>i. sz i > m) xs)"
  using assms
proof (induction xs arbitrary: p)
  case (Cons a xs)
  have "find_trunk_loop env g m p (a # xs) = find_trunk_loop env g m (if sz a > m then a else p) xs"
    using Cons.prems by (simp add: find_trunk_loop_def)
  also have "\<dots> = last ((if sz a > m then a else p) # filter (\<lambda>i. sz i > m) xs)"
    using Cons.IH Cons.prems by simp
  finally show ?case by simp
qed (simp add: find_trunk_loop_def)

text \<open>When every active server tells the size of its trunk binlog, the trunk server becomes the last active
  server whose binlog is larger than that of the store server, or else the store server. The comparison is
  always with the size of the store server, so the server with the largest binlog is passed over when a
  smaller one follows it.\<close>

theorem find_trunk_server_last_larger:
  assumes store: "gi_pStoreServer g = Some p" "p \<in> set (gi_active_servers g)"
    and sizes: "\<forall>i \<in> set (gi_active_servers g).
      ext_trunk_binlog_size env (sd_ip_addr (srv g i)) (gi_storage_port g) = Inr (sz i)"
    and marks: "\<forall>ip port. ext_delete_binlog_marks env ip port = 0"
  shows "gi_pTrunkServer (snd (tracker_mem_find_trunk_server env g save)) =
    Some (last (p # filter (\<lambda>i. sz i > sz p) (gi_active_servers g)))"
  using store sizes marks find_trunk_loop_last [OF sizes, of "sz p" p]
  by (simp add: tracker_mem_find_trunk_server_def tracker_mem_do_set_trunk_server_def
      tracker_set_trunk_server_and_log_def Let_def)

theorem find_trunk_server_last_larger_witness:
  "gi_pTrunkServer (snd (tracker_mem_find_trunk_server (demo_env\<lparr>ext_trunk_binlog_size := \<lambda>ip _. Inr (if ip = [52] then 9 else int (unat (hd ip)) - 50)\<rparr>)
     demo_three True)) = Some 1"
  using find_trunk_server_last_larger [of demo_three 0
      "demo_env\<lparr>ext_trunk_binlog_size := \<lambda>ip _. Inr (if ip = [52] then 9 else int (unat (hd ip)) - 50)\<rparr>"
      "\<lambda>i. if i = 2 then 9 else if i = 1 then 3 else 0" True]
  by (simp add: demo_env_def demo_three_def)

section \<open>The target of an upload\<close>

lemma query_path_sound:
  assumes cnt: "0 < gi_store_path_count g" and cur: "0 \<le> sd_current_write_path s"
    and r: "query_path env rs g s = (Inr i, c)"
  shows "int i < gi_store_path_count g \<and>
    (path_space rs g s 0 i \<or> g_if_use_trunk_file env \<and> path_space rs g s (gi_trunk_free_mb g) i)"
proof -
  let ?n = "nat (gi_store_path_count g)"
  define index where "index = (if sd_current_write_path s \<ge> gi_store_path_count g then 0 else nat (sd_current_write_path s))"
  have index: "int index < gi_store_path_count g" using cnt cur by (simp add: index_def)
  have r': "(if path_space rs g s 0 index then (Inr index, sd_current_write_path s)
      else case find (path_space rs g s 0) [0..<?n] of
             Some i \<Rightarrow> (Inr i, int i)
           | None \<Rightarrow>
               if \<not> g_if_use_trunk_file env then (Inl ENOSPC, sd_current_write_path s)
               else case find (path_space rs g s (gi_trunk_free_mb g)) [index..<?n] of
                      Some i \<Rightarrow> (Inr i, int i)
                    | None \<Rightarrow> (case find (path_space rs g s (gi_trunk_free_mb g)) [0..<index] of
                                  Some i \<Rightarrow> (Inl ENOSPC, int i) | None \<Rightarrow> (Inl ENOSPC, sd_current_write_path s))) = (Inr i, c)"
    using r unfolding query_path_def Let_def index_def .
  consider "path_space rs g s 0 index" "i = index" | "find (path_space rs g s 0) [0..<?n] = Some i"
    | "g_if_use_trunk_file env" "find (path_space rs g s (gi_trunk_free_mb g)) [index..<?n] = Some i"
    using r' by (auto split: if_splits option.splits)
  then show ?thesis
    by cases (use index find_range [of _ _ i] in \<open>fastforce+\<close>)
qed

lemma path_space_write_server [simp]: "path_space rs (g\<lparr>gi_current_write_server := x\<rparr>) = path_space rs g"
  by (simp add: fun_eq_iff path_space_def)

lemma query_storage_facts:
  assumes reach: "tracker_reachable gs"
    and r: "tracker_deal_service_query_storage env rs gs cmd body = (Inr (k, servers, pth), gs')"
  shows "k < length (gs_groups gs) \<and> group_has_space env rs (grp gs k) \<and> servers \<noteq> [] \<and>
    (\<forall>p \<in> set servers. p < srv_count (grp gs k) \<and> sd_status (srv (grp gs k) p) = FDFS_STORAGE_STATUS_ACTIVE) \<and>
    int pth < gi_store_path_count (grp gs k) \<and>
    (\<exists>p \<in> set servers. path_space rs (grp gs k) (srv (grp gs k) p) 0 pth \<or>
       g_if_use_trunk_file env \<and> path_space rs (grp gs k) (srv (grp gs k) p) (gi_trunk_free_mb (grp gs k)) pth)"
proof -
  have inv: "tracker_inv gs" by (rule reachable_inv [OF reach])
  then have gi: "groups_inv gs" and cw: "0 \<le> gs_current_write_group gs" by (simp_all add: tracker_inv_def)
  have len: "length body = (if with_group cmd then 16 else 0)" and ne: "gs_groups gs \<noteq> []"
    using r by (auto simp: tracker_deal_service_query_storage_def split: if_splits)
  obtain m gs1 where q: "query_group env rs gs cmd body = (Inr m, gs1)"
    using r len ne by (cases "query_group env rs gs cmd body"; cases "fst (query_group env rs gs cmd body)")
      (auto simp: tracker_deal_service_query_storage_def)
  note sound = query_group_sound [OF gi ne cw q]
  from inv len ne q show ?thesis
  proof (cases rule: query_storage_cases)
    case no_path
    then show ?thesis using r by simp
  next
    case (path p g1)
    have g: "group_inv (grp gs m)" using groups_inv_grp [OF gi] sound by blast
    obtain w where g1: "g1 = (grp gs m)\<lparr>gi_current_write_server := w\<rparr>" using path(4) by blast
    have p: "p < srv_count (grp gs m)" using path(2) active_set [OF g] by simp
    have qr: "query_reply env rs gs1 cmd m p g1 = (Inr (k, servers, pth), gs')" using r path(5) by simp
    then obtain c where qp: "query_path env rs g1 (srv g1 p) = (Inr pth, c)" and k: "k = m"
      and servers: "servers = (if query_one cmd then [p] else gi_active_servers g1)"
      by (cases "query_path env rs g1 (srv g1 p)"; cases "fst (query_path env rs g1 (srv g1 p))")
         (auto simp: query_reply_def Let_def)
    have cur: "0 \<le> sd_current_write_path (srv g1 p)" using g p by (simp add: g1 group_inv_def size_ok_def)
    have space: "int pth < gi_store_path_count (grp gs m) \<and>
      (path_space rs (grp gs m) (srv (grp gs m) p) 0 pth \<or>
       g_if_use_trunk_file env \<and> path_space rs (grp gs m) (srv (grp gs m) p) (gi_trunk_free_mb (grp gs m)) pth)"
      using query_path_sound [OF _ cur qp] path(1) by (simp add: g1)
    have "set servers \<subseteq> set (gi_active_servers (grp gs m))" "p \<in> set servers"
      using servers path(2) by (auto simp: g1)
    moreover from this have "servers \<noteq> []" by auto
    ultimately show ?thesis using sound space active_set [OF g] k by blast
  qed
qed

text \<open>C6. In every reachable state, a successful query for an upload target names a group that exists and has
  space above the reserve, a non-empty list of servers that are all active, and a store path index inside the
  group's path count; one of the servers named has space above the reserve on that path, counting the free
  trunk space when trunk files are in use.\<close>

theorem query_storage_sound:
  assumes reach: "tracker_reachable gs"
    and r: "tracker_deal_service_query_storage env rs gs cmd body = (Inr (k, servers, pth), gs')"
  shows "k < length (gs_groups gs) \<and> group_has_space env rs (grp gs k) \<and> servers \<noteq> [] \<and>
    (\<forall>p \<in> set servers. p < srv_count (grp gs k) \<and> sd_status (srv (grp gs k) p) = FDFS_STORAGE_STATUS_ACTIVE) \<and>
    int pth < gi_store_path_count (grp gs k) \<and>
    (\<exists>p \<in> set servers. path_space rs (grp gs k) (srv (grp gs k) p) 0 pth \<or>
       g_if_use_trunk_file env \<and> path_space rs (grp gs k) (srv (grp gs k) p) (gi_trunk_free_mb (grp gs k)) pth)"
  by (rule query_storage_facts [OF assms])

text \<open>The same tracker after the active server has reported the space on its two paths.\<close>

definition demo_report :: "int list \<Rightarrow> byte list" where
  "demo_report mbs = concat (map long2buff mbs)"

definition demo_df :: "nat \<Rightarrow> int list \<Rightarrow> FDFSGroups \<Rightarrow> FDFSGroups" where
  "demo_df p mbs gs =
     (case tracker_deal_storage_df_report demo_env (Reserved_MB 100) gs (Some (0, p)) (demo_report mbs) of
        None \<Rightarrow> gs | Some (e, gs') \<Rightarrow> gs')"

lemma reachable_demo_df:
  assumes "tracker_reachable gs" "0 < length (gs_groups gs)" "p < srv_count (grp gs 0)"
  shows "tracker_reachable (demo_df p mbs gs)"
  using assms tracker_reachable.step [OF _ tracker_step.df_report [OF assms(2,3)]]
  by (auto simp: demo_df_def split: option.split)

definition demo_full :: FDFSGroups where
  "demo_full = demo_df 0 [1000, 20, 1000, 500] demo_one"

lemma reachable_demo_full: "tracker_reachable demo_full"
  unfolding demo_full_def by (rule reachable_demo_df [OF reachable_demo_one]) code_simp+

theorem query_storage_sound_witness:
  "\<exists>gs'. tracker_deal_service_query_storage demo_env (Reserved_MB 100) demo_full QUERY_STORE_WITHOUT_GROUP_ONE [] = (Inr (0, [0], 1), gs') \<and>
     sd_status (srv (grp demo_full 0) 0) = 7 \<and> int 1 < gi_store_path_count (grp demo_full 0)"
proof -
  have "fst (tracker_deal_service_query_storage demo_env (Reserved_MB 100) demo_full QUERY_STORE_WITHOUT_GROUP_ONE []) = Inr (0, [0], 1)"
    by code_simp
  then obtain gs' where r: "tracker_deal_service_query_storage demo_env (Reserved_MB 100) demo_full QUERY_STORE_WITHOUT_GROUP_ONE [] =
      (Inr (0, [0], 1), gs')" by (metis prod.collapse)
  then show ?thesis using query_storage_sound [OF reachable_demo_full r] by auto
qed

lemma select_group_complete:
  assumes "gs_groups gs \<noteq> []" "0 \<le> gs_current_write_group gs" "j < length (gs_groups gs)"
    "has_active (sgrp gs j)" "fdfs_check_reserved_space (sgrp gs j) rs"
  shows "\<exists>r. select_group env rs gs = Inr r"
proof (rule ccontr)
  assume no: "\<nexists>r. select_group env rs gs = Inr r"
  let ?n = "length (gs_groups gs)"
  define i where "i = (if gs_current_write_group gs \<ge> int ?n then 0 else nat (gs_current_write_group gs))"
  define sp where "sp = (\<lambda>j. has_active (sgrp gs j) \<and> fdfs_check_reserved_space (sgrp gs j) rs)"
  have "\<not> sp i" "find sp ([i + 1..<?n] @ [0..<i]) = None"
    using no unfolding select_group_def Let_def i_def sp_def by (auto split: if_splits option.splits)
  then have "\<not> sp m" if "m < ?n" for m
    using that by (cases "m = i") (auto simp: find_None_iff not_less_eq_eq [symmetric] not_le, meson linorder_neqE_nat)
  with assms show False by (simp add: sp_def)
qed

text \<open>C16. In every reachable state, when some group has an active server and space above the reserve, the
  round robin rule and the load balance rule find a group for an upload, wherever the write index stands.\<close>

theorem query_group_complete:
  assumes reach: "tracker_reachable gs" and cmd: "\<not> with_group cmd"
    and rule_set: "gs_store_lookup gs \<in> {FDFS_STORE_LOOKUP_ROUND_ROBIN, FDFS_STORE_LOOKUP_LOAD_BALANCE}"
    and k: "k < length (gs_groups gs)" "has_active (grp gs k)" "fdfs_check_reserved_space (grp gs k) rs"
  shows "\<exists>m gs'. query_group env rs gs cmd body = (Inr m, gs') \<and> m < length (gs_groups gs) \<and>
    has_active (grp gs m) \<and> group_has_space env rs (grp gs m)"
proof -
  have gi: "groups_inv gs" and cw: "0 \<le> gs_current_write_group gs"
    using reachable_inv [OF reach] by (simp_all add: tracker_inv_def)
  have ne: "gs_groups gs \<noteq> []" using k(1) by auto
  have "k \<in> set (gs_sorted_groups gs)" using set_sorted_groups [OF gi] k(1) by simp
  moreover have "length (gs_sorted_groups gs) = length (gs_groups gs)"
    using gi mset_eq_length [of "gs_sorted_groups gs" "[0..<length (gs_groups gs)]"] by (simp add: groups_inv_def)
  ultimately obtain j where j: "j < length (gs_groups gs)" "gs_sorted_groups gs ! j = k"
    by (metis in_set_conv_nth)
  obtain r where "select_group env rs gs = Inr r"
    using select_group_complete [OF ne cw j(1), of rs env] k j(2) by (auto simp: sgrp_def)
  then obtain m gs' where q: "query_group env rs gs cmd body = (Inr m, gs')"
    using cmd rule_set by (cases r) (auto simp: query_group_def)
  then show ?thesis using query_group_sound [OF gi ne cw q] by blast
qed

theorem query_group_complete_witness:
  "\<exists>m gs'. query_group demo_env (Reserved_MB 100) demo_full QUERY_STORE_WITHOUT_GROUP_ALL [] = (Inr m, gs') \<and> m < length (gs_groups demo_full) \<and>
    has_active (grp demo_full m) \<and> group_has_space demo_env (Reserved_MB 100) (grp demo_full m)"
  by (rule query_group_complete [OF reachable_demo_full, of _ 0]) code_simp+

text \<open>With trunk files, when no store path of the server has space of its own and only paths before the
  current write path have space together with the free trunk space, the query fails with ENOSPC: the loop
  that wraps around finds such a path, makes it the current write path, and the test that follows takes the
  success for a failure. The next query succeeds.\<close>

theorem query_path_wrap_fails:
  assumes cur: "0 \<le> sd_current_write_path s" "sd_current_write_path s < gi_store_path_count g"
    and trunk_on: "g_if_use_trunk_file env"
    and full: "\<forall>i < nat (gi_store_path_count g). \<not> path_space rs g s 0 i"
    and behind: "\<forall>i. sd_current_write_path s \<le> int i \<and> int i < gi_store_path_count g \<longrightarrow> \<not> path_space rs g s (gi_trunk_free_mb g) i"
    and before: "i < nat (sd_current_write_path s)" "path_space rs g s (gi_trunk_free_mb g) i"
      "\<forall>j < i. \<not> path_space rs g s (gi_trunk_free_mb g) j"
  shows "query_path env rs g s = (Inl ENOSPC, int i) \<and>
    query_path env rs g (s\<lparr>sd_current_write_path := int i\<rparr>) = (Inr i, int i)"
proof -
  let ?n = "nat (gi_store_path_count g)" and ?c = "nat (sd_current_write_path s)"
  let ?s = "s\<lparr>sd_current_write_path := int i\<rparr>"
  have same: "path_space rs g ?s = path_space rs g s" by (simp add: fun_eq_iff path_space_def)
  have none: "find (path_space rs g s 0) [0..<?n] = None" using full by (simp add: find_None_iff)
  have up: "find (path_space rs g s (gi_trunk_free_mb g)) [?c..<?n] = None"
    using behind cur by (simp add: find_None_iff nat_le_iff zless_nat_eq_int_zless)
  have low: "find (path_space rs g s (gi_trunk_free_mb g)) [0..<?c] = Some i"
    unfolding find_Some_iff using before by (intro exI [of _ i]) simp
  have now: "find (path_space rs g s (gi_trunk_free_mb g)) [i..<?n] = Some i"
    unfolding find_Some_iff using before(1,2) cur by (intro exI [of _ 0]) simp
  have "query_path env rs g s = (Inl ENOSPC, int i)"
    using cur full none up low trunk_on by (simp add: query_path_def Let_def)
  moreover have "query_path env rs g ?s = (Inr i, int i)"
    using cur before(1) full none now trunk_on by (simp add: query_path_def Let_def same)
  ultimately show ?thesis by simp
qed

theorem query_path_wrap_fails_witness:
  "\<exists>g s. query_path demo_env (Reserved_MB 200) g s = (Inl ENOSPC, 0) \<and>
     query_path demo_env (Reserved_MB 200) g (s\<lparr>sd_current_write_path := 0\<rparr>) = (Inr 0, 0)"
proof -
  let ?g = "(tracker_mem_init_group [103])\<lparr>gi_store_path_count := 2, gi_trunk_free_mb := 60\<rparr>"
  let ?s = "(zero_storage 0)\<lparr>sd_path_total_mbs := [1000, 1000], sd_path_free_mbs := [50, 10], sd_current_write_path := 1\<rparr>"
  have p: "path_space (Reserved_MB 200) ?g ?s x i \<longleftrightarrow> ([50, 10] :: int list) ! i + x > 100" for x i
    by (simp add: path_space_def fdfs_check_reserved_space_path_def)
  have "query_path demo_env (Reserved_MB 200) ?g ?s = (Inl ENOSPC, int 0) \<and>
    query_path demo_env (Reserved_MB 200) ?g (?s\<lparr>sd_current_write_path := int 0\<rparr>) = (Inr 0, int 0)"
    by (rule query_path_wrap_fails)
       (auto simp: p demo_env_def less_Suc_eq numeral_2_eq_2)
  then show ?thesis by (intro exI [of _ ?g] exI [of _ ?s]) simp
qed

section \<open>The directory of servers\<close>

text \<open>C5. Adding, deleting and renaming a server of a consistent group refine updates of the map from ids to
  status: a new id starts in INIT, and so does one that was deleted or renamed away, while another id keeps
  its status; a deleted id stays, with the status DELETED; a rename gives the new address the status of the
  old one, whose entry becomes IP_CHANGED. The group stays consistent.\<close>

theorem directory_refinement:
  assumes inv: "group_inv g" and ids: "ids_ok env"
  shows "(tracker_mem_add_storage env g (Some sid) ip = (Inr (i, b), g') \<longrightarrow> length ip \<le> 15 \<and> length sid \<le> 15 \<longrightarrow>
      group_inv g' \<and> members g' = (members g)(sid \<mapsto>
        (case members g sid of None \<Rightarrow> FDFS_STORAGE_STATUS_INIT
         | Some st \<Rightarrow> if st \<in> {FDFS_STORAGE_STATUS_DELETED, FDFS_STORAGE_STATUS_IP_CHANGED} then FDFS_STORAGE_STATUS_INIT else st))) \<and>
    (tracker_mem_delete_storage env g sid = Some (0, g', line) \<longrightarrow>
      group_inv g' \<and> members g' = (members g)(sid \<mapsto> FDFS_STORAGE_STATUS_DELETED)) \<and>
    (tracker_mem_storage_ip_changed env g sid ip = (e, g', line) \<longrightarrow> length ip \<le> 15 \<and> line \<noteq> [] \<longrightarrow>
      group_inv g' \<and> members g' = (members g)(ip := members g sid, sid \<mapsto> FDFS_STORAGE_STATUS_IP_CHANGED))"
proof (intro conjI impI)
  assume r: "tracker_mem_add_storage env g (Some sid) ip = (Inr (i, b), g')" and len: "length ip \<le> 15 \<and> length sid \<le> 15"
  then have "storage_id_of env g (Some sid) ip = Inr sid"
    by (auto simp: tracker_mem_add_storage_def storage_id_of_def Let_def split: if_splits)
  with r len ids have add: "dir_add sid g g'" unfolding dir_add_def by (intro exI conjI) auto
  show "group_inv g'" "members g' = (members g)(sid \<mapsto>
      (case members g sid of None \<Rightarrow> FDFS_STORAGE_STATUS_INIT
       | Some st \<Rightarrow> if st \<in> {FDFS_STORAGE_STATUS_DELETED, FDFS_STORAGE_STATUS_IP_CHANGED} then FDFS_STORAGE_STATUS_INIT else st))"
    by (fact directory.add_inv [OF inv add] directory.add_dir [OF inv add])+
next
  assume "tracker_mem_delete_storage env g sid = Some (0, g', line)"
  then have del: "dir_del sid g g'" by (auto simp: dir_del_def)
  show "group_inv g'" "members g' = (members g)(sid \<mapsto> FDFS_STORAGE_STATUS_DELETED)"
    by (fact directory.del_inv [OF inv del] directory.del_dir [OF inv del])+
next
  assume "tracker_mem_storage_ip_changed env g sid ip = (e, g', line)" "length ip \<le> 15 \<and> line \<noteq> []"
  then have ren: "dir_rename sid ip g g'" using ids by (auto simp: dir_rename_def)
  show "group_inv g'" "members g' = (members g)(ip := members g sid, sid \<mapsto> FDFS_STORAGE_STATUS_IP_CHANGED)"
    by (fact directory.rename_inv [OF inv ren] directory.rename_dir [OF inv ren])+
qed

theorem directory_refinement_witness:
  "\<exists>g'. tracker_mem_delete_storage demo_env (grp demo_one 0) [50] = Some (0, g', changelog_line demo_env (grp demo_one 0) (srv g' 1) []) \<and>
     members g' = (members (grp demo_one 0))([50] \<mapsto> 4) \<and> members (grp demo_one 0) [50] = Some 0"
proof -
  have inv: "group_inv (grp demo_one 0)" by (rule reachable_group_inv [OF reachable_demo_one]) code_simp
  let ?r = "tracker_mem_delete_storage demo_env (grp demo_one 0) [50]"
  have ev: "?r = Some (0, fst (snd (the ?r)), changelog_line demo_env (grp demo_one 0) (srv (fst (snd (the ?r))) 1) [])"
    "members (grp demo_one 0) [50] = Some 0" by code_simp+
  then show ?thesis using directory_refinement [OF inv ids_ok_demo] by blast
qed

text \<open>A server that was renamed and is added again under its old address starts from the status INIT,
  while the new address keeps the status the server had; no other entry changes.\<close>

theorem rename_then_add_again:
  assumes inv: "group_inv g" and ids: "ids_ok env" "\<not> g_use_storage_id env" and len: "length old_ip \<le> 15" "length new_ip \<le> 15"
    and ren: "tracker_mem_storage_ip_changed env g old_ip new_ip = (e, g1, line)" "line \<noteq> []"
    and add: "tracker_mem_add_storage env g1 (Some old_ip) old_ip = (Inr (i, b), g2)"
  shows "members g2 = (members g)(new_ip := members g old_ip, old_ip \<mapsto> FDFS_STORAGE_STATUS_INIT)"
proof (rule directory.rename_then_add [OF inv])
  show "dir_rename old_ip new_ip g g1" using ids len ren by (auto simp: dir_rename_def)
  show "dir_add old_ip g1 g2"
    unfolding dir_add_def using ids len add by (intro exI conjI) (auto simp: storage_id_of_def)
qed

theorem rename_then_add_again_witness:
  "\<exists>e g1 line i b g2. tracker_mem_storage_ip_changed demo_env (grp demo_one 0) [50] [51] = (e, g1, line) \<and>
     tracker_mem_add_storage demo_env g1 (Some [50]) [50] = (Inr (i, b), g2) \<and>
     members g2 = (members (grp demo_one 0))([51] := members (grp demo_one 0) [50], [50] \<mapsto> 0)"
proof -
  have inv: "group_inv (grp demo_one 0)" by (rule reachable_group_inv [OF reachable_demo_one]) code_simp
  let ?r = "tracker_mem_storage_ip_changed demo_env (grp demo_one 0) [50] [51]"
  let ?a = "tracker_mem_add_storage demo_env (fst (snd ?r)) (Some [50]) [50]"
  have r: "?r = (fst ?r, fst (snd ?r), snd (snd ?r))" by simp
  have "snd (snd ?r) \<noteq> []" "fst ?a = Inr (2, False)" "\<not> g_use_storage_id demo_env" by code_simp+
  then have line: "snd (snd ?r) \<noteq> []" and a: "?a = (Inr (2, False), snd ?a)" and no: "\<not> g_use_storage_id demo_env"
    by (simp_all add: prod_eq_iff)
  have "members (snd ?a) = (members (grp demo_one 0))([51] := members (grp demo_one 0) [50], [50] \<mapsto> 0)"
    by (rule rename_then_add_again [OF inv ids_ok_demo no _ _ r line a]) simp_all
  with r a show ?thesis by blast
qed

text \<open>A rename to the address of a deleted server fails with EEXIST, but the deleted server is back with
  the status INIT afterwards: the call that adds the new address has revived it.\<close>

theorem ip_changed_deleted_target:
  assumes inv: "group_inv g" and ids: "ids_ok env" "\<not> g_use_storage_id env" and len: "new_ip \<noteq> []" "length new_ip \<le> 15"
    and old: "members g old_ip = Some st"
      "st \<notin> {FDFS_STORAGE_STATUS_DELETED, FDFS_STORAGE_STATUS_ONLINE, FDFS_STORAGE_STATUS_ACTIVE, FDFS_STORAGE_STATUS_RECOVERY, FDFS_STORAGE_STATUS_IP_CHANGED}"
    and new: "members g new_ip = Some FDFS_STORAGE_STATUS_DELETED"
  shows "\<exists>g'. tracker_mem_storage_ip_changed env g old_ip new_ip = (EEXIST, g', []) \<and>
    members g' = (members g)(new_ip \<mapsto> FDFS_STORAGE_STATUS_INIT)"
proof -
  obtain i where i: "tracker_mem_get_storage g old_ip = Some i" "sd_status (srv g i) = st" using old(1) by (auto simp: members_def)
  obtain j where j: "tracker_mem_get_storage g new_ip = Some j" "sd_status (srv g j) = 4" using new by (auto simp: members_def)
  obtain g' where add: "tracker_mem_add_storage env g (Some new_ip) new_ip = (Inr (j, False), g')"
    using ids(2) len(1) j by (simp add: tracker_mem_add_storage_def storage_id_of_def Let_def)
  then have "dir_add new_ip g g'"
    unfolding dir_add_def using ids len by (intro exI conjI) (auto simp: storage_id_of_def)
  then have "members g' = (members g)(new_ip \<mapsto> 0)" using directory.add_dir [OF inv] new by simp
  moreover have "tracker_mem_storage_ip_changed env g old_ip new_ip = (EEXIST, g', [])"
    using ids(2) i j old(2) add by (simp add: tracker_mem_storage_ip_changed_def)
  ultimately show ?thesis by blast
qed

definition demo_deleted :: FDFSGroupInfo where
  "demo_deleted = fst (snd (the (tracker_mem_delete_storage demo_env (grp (demo_join [51] demo_one) 0) [51])))"

lemma demo_deleted_inv: "group_inv demo_deleted"
proof -
  have "group_inv (grp (demo_join [51] demo_one) 0)"
    by (rule reachable_group_inv [OF reachable_demo_join [OF reachable_demo_one]]) code_simp+
  moreover have "tracker_mem_delete_storage demo_env (grp (demo_join [51] demo_one) 0) [51] \<noteq> None" by code_simp
  ultimately show ?thesis using delete_storage_inv unfolding demo_deleted_def by (metis option.collapse prod.collapse)
qed

theorem ip_changed_deleted_target_witness:
  "\<exists>g'. tracker_mem_storage_ip_changed demo_env demo_deleted [50] [51] = (EEXIST, g', []) \<and>
    members g' = (members demo_deleted)([51] \<mapsto> 0)"
proof (rule ip_changed_deleted_target [OF demo_deleted_inv ids_ok_demo])
  show "\<not> g_use_storage_id demo_env" "members demo_deleted [50] = Some 0" "members demo_deleted [51] = Some 4" by code_simp+
qed simp_all

text \<open>A server that another tracker reports and this one does not know: when adding it fails, the code goes on
  to write through a pointer it has not set; when adding it succeeds, the server starts with the status INIT
  whatever status was reported, because the assignment stands under the failed call.\<close>

theorem sync_storages_new_server:
  assumes inv: "group_inv g" and ids: "ids_ok env"
    and unknown: "members g (take 15 (br_id b)) = None"
    and st: "br_status b \<notin> {FDFS_STORAGE_STATUS_NONE, FDFS_STORAGE_STATUS_ACTIVE, FDFS_STORAGE_STATUS_ONLINE,
      FDFS_STORAGE_STATUS_DELETED, FDFS_STORAGE_STATUS_IP_CHANGED}"
    and add: "tracker_mem_add_storage env g (Some (take 15 (br_id b))) (take 15 (br_ip_addr b)) = (r, g1)"
  shows "tracker_mem_sync_storages env g [b] = (case r of Inl _ \<Rightarrow> None | Inr _ \<Rightarrow> Some (0, g1)) \<and>
    (\<forall>i new. r = Inr (i, new) \<longrightarrow> members g1 = (members g)(take 15 (br_id b) \<mapsto> FDFS_STORAGE_STATUS_INIT))"
proof -
  have none: "bsearch (\<lambda>i. tracker_mem_cmp_by_storage_id (target_storage (take 15 (br_id b))) (srv g i)) (gi_sorted_servers g) = None"
    using unknown by (simp add: members_def tracker_mem_get_storage_def)
  have "tracker_mem_sync_storages env g [b] = (case r of Inl _ \<Rightarrow> None | Inr _ \<Rightarrow> Some (0, g1))"
    using st by (cases r) (simp_all add: tracker_mem_sync_storages_def sync_one_storage_def Let_def none add)
  moreover have "members g1 = (members g)(take 15 (br_id b) \<mapsto> FDFS_STORAGE_STATUS_INIT)" if "r = Inr (i, new)" for i new
  proof -
    have "storage_id_of env g (Some (take 15 (br_id b))) (take 15 (br_ip_addr b)) = Inr (take 15 (br_id b))"
      using add that by (auto simp: tracker_mem_add_storage_def storage_id_of_def Let_def split: if_splits)
    then have "dir_add (take 15 (br_id b)) g g1"
      unfolding dir_add_def using ids add that by (intro exI conjI) auto
    then show ?thesis using directory.add_dir [OF inv] unknown by simp
  qed
  ultimately show ?thesis by blast
qed

theorem sync_storages_new_server_witness:
  "\<exists>g1. tracker_mem_sync_storages demo_env (grp demo_one 0) [\<lparr>br_status = 1, br_id = [53], br_ip_addr = [53]\<rparr>] = Some (0, g1) \<and>
     members g1 = (members (grp demo_one 0))([53] \<mapsto> 0)"
proof -
  let ?b = "\<lparr>br_status = 1, br_id = [53], br_ip_addr = [53]\<rparr> :: FDFSStorageBrief"
  have inv: "group_inv (grp demo_one 0)" by (rule reachable_group_inv [OF reachable_demo_one]) code_simp
  let ?r = "tracker_mem_add_storage demo_env (grp demo_one 0) (Some (take 15 (br_id ?b))) (take 15 (br_ip_addr ?b))"
  have ev: "members (grp demo_one 0) (take 15 (br_id ?b)) = None" "fst ?r = Inr (2, True)" by code_simp+
  then have r: "?r = (Inr (2, True), snd ?r)" by (simp add: prod_eq_iff)
  have st: "br_status ?b \<notin> {99, 7, 6, 4, 3}" by simp
  from sync_storages_new_server [OF inv ids_ok_demo ev(1) st r] show ?thesis by auto
qed

text \<open>A reachable state in which deleting a server writes behind the end of its arrays of path sizes: the
  arrays have the path count of the group, the deletion clears as many entries as the server has paths, and a
  server may join with more paths than the group.\<close>

theorem delete_storage_overflow:
  "\<exists>gs k sid. tracker_reachable gs \<and> k < length (gs_groups gs) \<and> tracker_mem_delete_storage demo_env (grp gs k) sid = None"
proof -
  let ?gs = "snd (tracker_mem_add_group_and_storage demo_env demo_one [51] (demo_body\<lparr>jb_store_path_count := 3\<rparr>))"
  have "tracker_reachable ?gs"
    by (rule tracker_reachable.step [OF reachable_demo_one], rule tracker_step.join [OF ids_ok_demo])
       (simp_all add: demo_env_def)
  moreover have "0 < length (gs_groups ?gs)" "tracker_mem_delete_storage demo_env (grp ?gs 0) [51] = None" by code_simp+
  ultimately show ?thesis by blast
qed

section \<open>The reply to a storage server\<close>

text \<open>A storage server is told of a change once: when nothing happens between two reports of the same
  server, the second reply carries no change and leaves the group as it is.\<close>

theorem check_and_sync_once:
  assumes p: "p < srv_count g" and r: "tracker_check_and_sync env chg leader seen g p 0 = (st, reply, seen', g')"
  shows "st = 0 \<and> reply \<noteq> [] \<and> tracker_check_and_sync env chg leader seen' g' p 0 = (0, [0], seen', g')"
proof -
  have "seen' = (if g_if_leader_self env then chg else seen)" "gi_trunk_chg_count g' = gi_trunk_chg_count g"
    "gi_chg_count g' = gi_chg_count g" "sd_chg_count (srv g' p) = gi_chg_count g"
    "g_if_leader_self env \<longrightarrow> sd_trunk_chg_count (srv g' p) = gi_trunk_chg_count g"
    using r p by (auto simp: tracker_check_and_sync_def Let_def upd_srv_def split: if_splits)
  moreover have "st = 0 \<and> reply \<noteq> []"
    using r by (auto simp: tracker_check_and_sync_def Let_def split: if_splits)
  ultimately show ?thesis by (simp add: tracker_check_and_sync_def)
qed

theorem check_and_sync_once_witness:
  "\<exists>reply g'. tracker_check_and_sync demo_env 1 None 0 (grp demo_one 0) 0 0 = (0, reply, 1, g') \<and> hd reply = 7 \<and>
     tracker_check_and_sync demo_env 1 None 1 g' 0 0 = (0, [0], 1, g')"
proof -
  let ?r = "tracker_check_and_sync demo_env 1 None 0 (grp demo_one 0) 0 0"
  have "fst ?r = 0" "hd (fst (snd ?r)) = 7" "fst (snd (snd ?r)) = 1" by code_simp+
  then have r: "?r = (0, fst (snd ?r), 1, snd (snd (snd ?r)))" "hd (fst (snd ?r)) = 7" by (simp_all add: prod_eq_iff)
  have "0 < srv_count (grp demo_one 0)" by code_simp
  from check_and_sync_once [OF this r(1)] r show ?thesis by blast
qed

text \<open>A server that starts to synchronise names its source: when that source is a deleted server the
  first notification fails with ENOENT, but the source is kept, and the same notification sent again
  succeeds with the deleted server as the source.\<close>

theorem sync_notify_retry:
  assumes p: "p < srv_count g" "sd_status (srv g p) = FDFS_STORAGE_STATUS_WAIT_SYNC" "sd_psync_src_server (srv g p) = None"
    and body: "length body = 24" "body ! 0 \<noteq> 0"
    and q: "tracker_mem_get_storage g (c_str (take 15 body)) = Some q" "q \<noteq> p" "q < srv_count g"
      "sd_status (srv g q) = FDFS_STORAGE_STATUS_DELETED"
  shows "\<exists>g1. tracker_deal_storage_sync_notify g p body = (ENOENT, g1) \<and>
    tracker_deal_storage_sync_notify g1 p body = (0, g1) \<and>
    sd_psync_src_server (srv g1 p) = Some q \<and> sd_status (srv g1 q) = FDFS_STORAGE_STATUS_DELETED"
proof -
  let ?g1 = "upd_srv p (\<lambda>s. s\<lparr>sd_psync_src_server := Some q\<rparr>) g"
  have s: "srv ?g1 p = (srv g p)\<lparr>sd_psync_src_server := Some q\<rparr>" "srv ?g1 q = srv g q" using p q by (simp_all add: srv_upd)
  have "tracker_deal_storage_sync_notify g p body = (ENOENT, ?g1)"
    using p body q s by (simp add: tracker_deal_storage_sync_notify_def sync_notify_wait_def sync_notify_src_def Let_def)
  moreover have "tracker_deal_storage_sync_notify ?g1 p body = (0, ?g1)"
    using p body s by (simp add: tracker_deal_storage_sync_notify_def sync_notify_wait_def)
  ultimately show ?thesis using s q by (intro exI [of _ ?g1]) simp
qed

theorem sync_notify_retry_witness:
  "\<exists>g1. tracker_deal_storage_sync_notify (upd_srv 1 (\<lambda>s. s\<lparr>sd_status := 1\<rparr>) demo_deleted) 1 (51 # replicate 23 0) = (ENOENT, g1) \<and>
    tracker_deal_storage_sync_notify g1 1 (51 # replicate 23 0) = (0, g1) \<and>
    sd_psync_src_server (srv g1 1) = Some 2 \<and> sd_status (srv g1 2) = 4"
  by (rule sync_notify_retry) code_simp+

section \<open>The report of disk usage\<close>

text \<open>
  A report whose numbers are those of the last one compares current values only: the loop then leaves
  the path with the most free space as the current write path.
\<close>

lemma df_report_loop_max:
  assumes "df_report_loop True body i n s = Some s'"
    and "\<And>j. i \<le> j \<Longrightarrow> j < i + n \<Longrightarrow> sd_path_free_mbs s ! j = long_at body (16 * j + 8)"
    and "\<And>j. j < i \<Longrightarrow> sd_path_free_mbs s ! j \<le> sd_path_free_mbs s ! nat (sd_current_write_path s)"
  shows "sd_path_free_mbs s' = sd_path_free_mbs s \<and>
    (\<forall>j < i + n. sd_path_free_mbs s ! j \<le> sd_path_free_mbs s ! nat (sd_current_write_path s'))"
  using assms
proof (induction n arbitrary: i s)
  case (Suc n)
  let ?s1 = "df_report_path body i s"
  let ?s2 = "df_report_balance i ?s1"
  have run: "df_report_loop True body (i + 1) n ?s2 = Some s'" using Suc.prems(1)
    by (auto simp: Let_def split: if_splits)
  have free1: "sd_path_free_mbs ?s1 = sd_path_free_mbs s" "sd_current_write_path ?s1 = sd_current_write_path s"
    using Suc.prems(2) [of i] by (simp_all add: df_report_path_def Let_def list_update_same_conv list_update_id [symmetric])
       (metis list_update_id)
  then have free: "sd_path_free_mbs ?s2 = sd_path_free_mbs s"
    by (simp add: df_report_balance_def)
  have best: "sd_path_free_mbs s ! j \<le> sd_path_free_mbs s ! nat (sd_current_write_path ?s2)" if "j < i + 1" for j
    using Suc.prems(3) [of j] that free1 by (cases "j = i") (auto simp: df_report_balance_def)
  have "sd_path_free_mbs s' = sd_path_free_mbs ?s2 \<and>
    (\<forall>j < i + 1 + n. sd_path_free_mbs ?s2 ! j \<le> sd_path_free_mbs ?s2 ! nat (sd_current_write_path s'))"
    by (rule Suc.IH [OF run]) (use Suc.prems(2) free best in simp_all)
  then show ?case by (simp add: free)
qed simp

lemma df_report_loop_free:
  assumes "df_report_loop lb body i n s = Some s'"
  shows "(\<forall>j. i \<le> j \<and> j < i + n \<longrightarrow> sd_path_free_mbs s' ! j = long_at body (16 * j + 8)) \<and>
    (\<forall>j < i. sd_path_free_mbs s' ! j = sd_path_free_mbs s ! j) \<and>
    length (sd_path_free_mbs s') = length (sd_path_free_mbs s)"
  using assms
proof (induction n arbitrary: i s)
  case (Suc n)
  define s2 where "s2 = (if lb then df_report_balance i (df_report_path body i s) else df_report_path body i s)"
  have i: "i < length (sd_path_free_mbs s)" and run: "df_report_loop lb body (i + 1) n s2 = Some s'"
    using Suc.prems by (auto simp: s2_def Let_def split: if_splits)
  have "sd_path_free_mbs s2 = (sd_path_free_mbs s)[i := long_at body (16 * i + 8)]"
    by (simp add: s2_def df_report_balance_def df_report_path_def Let_def)
  then have s2: "sd_path_free_mbs s2 ! i = long_at body (16 * i + 8)" "length (sd_path_free_mbs s2) = length (sd_path_free_mbs s)"
    "\<forall>j < i. sd_path_free_mbs s2 ! j = sd_path_free_mbs s ! j" using i by simp_all
  have "sd_path_free_mbs s' ! j = long_at body (16 * j + 8)" if "i \<le> j" "j < i + Suc n" for j
    using Suc.IH [OF run] s2(1) that by (cases "j = i") simp_all
  then show ?case using Suc.IH [OF run] s2 by simp
qed simp

lemma find_trunk_frame:
  "gi_all_servers (snd (tracker_mem_find_trunk_server env g save)) = gi_all_servers g"
  "gi_store_path_count (snd (tracker_mem_find_trunk_server env g save)) = gi_store_path_count g"
  by (simp_all add: tracker_mem_find_trunk_server_def tracker_mem_do_set_trunk_server_def
      tracker_set_trunk_server_and_log_def Let_def split: option.split sum.split)

lemma find_store_frame:
  "gi_all_servers (tracker_mem_find_store_server env g) = gi_all_servers g"
  "gi_store_path_count (tracker_mem_find_store_server env g) = gi_store_path_count g"
  by (subst find_store_server_eq, simp)+

lemma active_frame:
  assumes "p < srv_count g"
  shows "sd_path_free_mbs (srv (tracker_mem_active_store_server env g t) p) = sd_path_free_mbs (srv g p)"
    "sd_current_write_path (srv (tracker_mem_active_store_server env g t) p) = sd_current_write_path (srv g p)"
    "srv_count (tracker_mem_active_store_server env g t) = srv_count g"
    "gi_store_path_count (tracker_mem_active_store_server env g t) = gi_store_path_count g"
  using assms
  by (simp_all add: tracker_mem_active_store_server_def Let_def find_trunk_frame find_store_frame srv_upd split: option.split)

lemma df_report_group_frame:
  "gi_all_servers (df_report_group g p x) = gi_all_servers g"
  "gi_store_path_count (df_report_group g p x) = gi_store_path_count g"
proof -
  have "gi_all_servers (foldl (\<lambda>g i. if sd_free_mb (srv g i) < gi_free_mb g
      then g\<lparr>gi_total_mb := sd_total_mb (srv g i), gi_free_mb := sd_free_mb (srv g i)\<rparr> else g) h xs) = gi_all_servers h \<and>
    gi_store_path_count (foldl (\<lambda>g i. if sd_free_mb (srv g i) < gi_free_mb g
      then g\<lparr>gi_total_mb := sd_total_mb (srv g i), gi_free_mb := sd_free_mb (srv g i)\<rparr> else g) h xs) = gi_store_path_count h" for h xs
    by (induction xs arbitrary: h) simp_all
  then show "gi_all_servers (df_report_group g p x) = gi_all_servers g"
    "gi_store_path_count (df_report_group g p x) = gi_store_path_count g"
    by (simp_all add: df_report_group_def tracker_find_min_free_space_def split: list.split)
qed

text \<open>What a report does to the server it comes from.\<close>

lemma df_report_server:
  assumes k: "k < length (gs_groups gs)" "p < srv_count (grp gs k)"
    and r: "tracker_deal_storage_df_report env rs gs (Some (k, p)) body = Some (0, gs')"
  obtains s where "df_report_loop (gs_store_path gs = FDFS_STORE_PATH_LOAD_BALANCE) body 0 (nat (gi_store_path_count (grp gs k)))
      ((srv (grp gs k) p)\<lparr>sd_total_mb := 0, sd_free_mb := 0\<rparr>) = Some s"
    "sd_path_free_mbs (srv (grp gs' k) p) = sd_path_free_mbs s" "sd_current_write_path (srv (grp gs' k) p) = sd_current_write_path s"
    "gi_store_path_count (grp gs' k) = gi_store_path_count (grp gs k)" "gs_store_path gs' = gs_store_path gs"
    "srv_count (grp gs' k) = srv_count (grp gs k)" "length (gs_groups gs') = length (gs_groups gs)"
proof -
  let ?g = "grp gs k"
  from r obtain s where s: "df_report_loop (gs_store_path gs = FDFS_STORE_PATH_LOAD_BALANCE) body 0
      (nat (gi_store_path_count ?g)) ((srv ?g p)\<lparr>sd_total_mb := 0, sd_free_mb := 0\<rparr>) = Some s"
    and gs': "gs' = (let g1 = df_report_group (upd_srv p (\<lambda>_. s) ?g) p (sd_free_mb (srv ?g p));
                       gs1 = tracker_find_max_free_space_group env rs (upd_grp k g1 gs)
                   in upd_grp k (tracker_mem_active_store_server env (grp gs1 k) p) gs1)"
    by (auto simp: tracker_deal_storage_df_report_def Let_def split: option.splits if_splits)
  let ?g1 = "df_report_group (upd_srv p (\<lambda>_. s) ?g) p (sd_free_mb (srv ?g p))"
  obtain x where x: "tracker_find_max_free_space_group env rs (upd_grp k ?g1 gs) = (upd_grp k ?g1 gs)\<lparr>gs_current_write_group := x\<rparr>"
    using find_max_group_frame by blast
  have g1: "srv ?g1 p = s" "srv_count ?g1 = srv_count ?g" "gi_store_path_count ?g1 = gi_store_path_count ?g"
    using k(2) by (simp_all add: df_report_group_frame srv_upd)
  have "grp gs' k = tracker_mem_active_store_server env ?g1 p" "gs_store_path gs' = gs_store_path gs"
    "length (gs_groups gs') = length (gs_groups gs)"
    using k(1) unfolding gs' Let_def x by (simp_all add: upd_grp_def)
  then show ?thesis using k(2) g1 by (intro that [OF s]) (simp_all add: active_frame)
qed

text \<open>With the load balance rule for paths, after a storage server has sent the same disk usage report
  twice its current write path is one with the most free space; the state in between need not be such.\<close>

theorem df_report_second_max:
  assumes k: "k < length (gs_groups gs)" "p < srv_count (grp gs k)"
    and lb: "gs_store_path gs = FDFS_STORE_PATH_LOAD_BALANCE"
    and r1: "tracker_deal_storage_df_report env rs gs (Some (k, p)) body = Some (0, gs1)"
    and r2: "tracker_deal_storage_df_report env rs gs1 (Some (k, p)) body = Some (0, gs2)"
  shows "\<forall>j < nat (gi_store_path_count (grp gs k)). sd_path_free_mbs (srv (grp gs2 k) p) ! j \<le>
    sd_path_free_mbs (srv (grp gs2 k) p) ! nat (sd_current_write_path (srv (grp gs2 k) p))"
proof -
  obtain s1 where s1: "df_report_loop True body 0 (nat (gi_store_path_count (grp gs k)))
      ((srv (grp gs k) p)\<lparr>sd_total_mb := 0, sd_free_mb := 0\<rparr>) = Some s1"
    and eq1: "sd_path_free_mbs (srv (grp gs1 k) p) = sd_path_free_mbs s1" "gi_store_path_count (grp gs1 k) = gi_store_path_count (grp gs k)"
      "gs_store_path gs1 = gs_store_path gs" "srv_count (grp gs1 k) = srv_count (grp gs k)" "length (gs_groups gs1) = length (gs_groups gs)"
    by (rule df_report_server [OF k r1]) (simp add: lb)
  have k1: "k < length (gs_groups gs1)" "p < srv_count (grp gs1 k)" using k eq1 by simp_all
  obtain s2 where s2: "df_report_loop True body 0 (nat (gi_store_path_count (grp gs k)))
      ((srv (grp gs1 k) p)\<lparr>sd_total_mb := 0, sd_free_mb := 0\<rparr>) = Some s2"
    and eq2: "sd_path_free_mbs (srv (grp gs2 k) p) = sd_path_free_mbs s2"
      "sd_current_write_path (srv (grp gs2 k) p) = sd_current_write_path s2"
    by (rule df_report_server [OF k1 r2]) (simp add: lb eq1)
  show ?thesis
    using df_report_loop_max [OF s2] df_report_loop_free [OF s1] eq1(1) by (simp add: eq2)
qed

definition demo_lb :: FDFSGroups where
  "demo_lb = demo_df 0 [1000, 20, 1000, 500] (demo_beat 0 (demo_online 0 (demo_join [49] (tracker_mem_init_groups 0 0 2 []))))"

theorem df_report_second_max_witness:
  "let once = demo_df 0 [1000, 300, 1000, 10] demo_lb; twice = demo_df 0 [1000, 300, 1000, 10] once
   in sd_path_free_mbs (srv (grp once 0) 0) = [300, 10] \<and> sd_current_write_path (srv (grp once 0) 0) = 1 \<and>
      (\<forall>j < 2. sd_path_free_mbs (srv (grp twice 0) 0) ! j \<le> sd_path_free_mbs (srv (grp twice 0) 0) ! nat (sd_current_write_path (srv (grp twice 0) 0)))"
proof -
  let ?mbs = "[1000, 300, 1000, 10] :: int list"
  let ?r = "\<lambda>gs. tracker_deal_storage_df_report demo_env (Reserved_MB 100) gs (Some (0, 0)) (demo_report ?mbs)"
  let ?once = "demo_df 0 ?mbs demo_lb"
  have ok: "map_option fst (?r demo_lb) = Some 0" "map_option fst (?r ?once) = Some 0" by code_simp+
  then have r: "?r demo_lb = Some (0, ?once)" "?r ?once = Some (0, demo_df 0 ?mbs ?once)"
    unfolding demo_df_def by (auto split: option.splits)
  have "0 < length (gs_groups demo_lb)" "0 < srv_count (grp demo_lb 0)" "gs_store_path demo_lb = 2"
    "gi_store_path_count (grp demo_lb 0) = 2" "sd_path_free_mbs (srv (grp ?once 0) 0) = [300, 10]"
    "sd_current_write_path (srv (grp ?once 0) 0) = 1" by code_simp+
  then show ?thesis using df_report_second_max [OF _ _ _ r] by (simp add: Let_def)
qed

text \<open>A reachable state in which one disk usage report, received under the load balance rule, leaves the path
  with the least free space as the current write path: the loop compares the numbers it has read with those
  of the last report for the paths it has yet to reach.\<close>

theorem df_report_stale_path:
  "\<exists>gs env rs body gs'. tracker_reachable gs \<and> gs_store_path gs = FDFS_STORE_PATH_LOAD_BALANCE \<and>
     tracker_deal_storage_df_report env rs gs (Some (0, 0)) body = Some (0, gs') \<and>
     (\<exists>j < length (sd_path_free_mbs (srv (grp gs' 0) 0)). sd_path_free_mbs (srv (grp gs' 0) 0) ! j >
        sd_path_free_mbs (srv (grp gs' 0) 0) ! nat (sd_current_write_path (srv (grp gs' 0) 0)))"
proof -
  let ?r = "tracker_deal_storage_df_report demo_env (Reserved_MB 100) demo_lb (Some (0, 0)) (demo_report [1000, 300, 1000, 10])"
  have "tracker_reachable demo_lb"
    unfolding demo_lb_def
    by (intro reachable_demo_df reachable_demo_beat reachable_demo_online reachable_demo_join tracker_reachable.init) (code_simp+)
  moreover have "gs_store_path demo_lb = 2" "map_option fst ?r = Some 0"
    "sd_path_free_mbs (srv (grp (snd (the ?r)) 0) 0) = [300, 10]" "sd_current_write_path (srv (grp (snd (the ?r)) 0) 0) = 1"
    by code_simp+
  ultimately show ?thesis
    by (intro exI [of _ demo_lb] exI [of _ demo_env] exI [of _ "Reserved_MB 100"]
        exI [of _ "demo_report [1000, 300, 1000, 10]"] exI [of _ "snd (the ?r)"]) auto
qed

end
