(* ===== verification/Tracker_Leader.thy ===== *)
theory Tracker_Leader
  imports Tracker_State
begin

text \<open>
  The leader among the trackers (\<open>tracker/tracker_relationship.c\<close>, with the handlers of
  \<open>tracker/tracker_service.c\<close> and the list of trackers of \<open>tracker/tracker_mem.c\<close>). A tracker asks all
  trackers for their status, takes the largest status, and when that is its own it tells every tracker in
  two phases: the next leader, then the commit. The other trackers ping the leader and drop it after three
  failures.

  A record holds the globals of one tracker. What the network does with one request is a value of the
  type \<open>link\<close>; a request that is delivered runs the handler of the tracker it goes to. \<open>None\<close> stands for
  undefined behaviour of the C code.
\<close>

section \<open>Trackers\<close>

abbreviation (input) EACCES :: int where "EACCES \<equiv> 13"
abbreviation (input) EAGAIN :: int where "EAGAIN \<equiv> 11"
abbreviation (input) FDFS_MAX_TRACKERS :: nat where "FDFS_MAX_TRACKERS \<equiv> 16"
abbreviation (input) TRACKER_SYNC_STATUS_FILE_INTERVAL :: int where "TRACKER_SYNC_STATUS_FILE_INTERVAL \<equiv> 3600"

record ConnectionInfo =
  ci_ip_addr :: "byte list"
  ci_port :: int

text \<open>\<open>tn_last_servers\<close> says whether \<open>g_last_tracker_servers\<close> is set.\<close>

record tracker_node =
  tn_servers :: "ConnectionInfo list"
  tn_last_servers :: bool
  tn_server_port :: int
  tn_local_ips :: "byte list list"
  tn_leader_index :: int
  tn_next_leader_index :: int
  tn_if_leader_self :: bool
  tn_leader_chg_count :: int
  tn_groups :: FDFSGroups

text \<open>A pointer to a tracker is its index in the list of trackers.\<close>

record TrackerRunningStatus =
  ts_pTrackerServer :: nat
  ts_running_time :: int
  ts_restart_interval :: int
  ts_if_leader :: int

definition is_local_host_ip :: "byte list list \<Rightarrow> byte list \<Rightarrow> bool" where
  "is_local_host_ip local_ips client_ip = list_ex (\<lambda>p. strcmp client_ip p = 0) local_ips"

definition is_self :: "tracker_node \<Rightarrow> byte list \<Rightarrow> int \<Rightarrow> bool" where
  "is_self n ip port \<longleftrightarrow> port = tn_server_port n \<and> is_local_host_ip (tn_local_ips n) ip"

definition fdfs_get_tracker_leader_index_ex :: "ConnectionInfo list \<Rightarrow> byte list \<Rightarrow> int \<Rightarrow> int" where
  "fdfs_get_tracker_leader_index_ex servers leaderIp leaderPort =
     (case find (\<lambda>i. strcmp (ci_ip_addr (servers ! i)) leaderIp = 0 \<and> ci_port (servers ! i) = leaderPort) [0..<length servers] of
        None \<Rightarrow> -1
      | Some i \<Rightarrow> int i)"

section \<open>The list of trackers\<close>

text \<open>The trackers that a joining storage server names; \<open>mem\<close> is the result of the allocation.\<close>

definition known_tracker :: "ConnectionInfo list \<Rightarrow> ConnectionInfo \<Rightarrow> bool" where
  "known_tracker servers c = list_ex (\<lambda>s. ci_port c = ci_port s \<and> strcmp (ci_ip_addr c) (ci_ip_addr s) = 0) servers"

definition tracker_mem_first_add_tracker_servers ::
    "int \<Rightarrow> ConnectionInfo list \<Rightarrow> tracker_node \<Rightarrow> int \<times> tracker_node" where
  "tracker_mem_first_add_tracker_servers mem trackers n =
     (if mem \<noteq> 0 then (mem, n) else (0, n\<lparr>tn_servers := trackers\<rparr>))"

definition tracker_mem_check_add_tracker_servers ::
    "int \<Rightarrow> ConnectionInfo list \<Rightarrow> tracker_node \<Rightarrow> int \<times> tracker_node" where
  "tracker_mem_check_add_tracker_servers mem trackers n =
     (let added = filter (\<lambda>c. \<not> known_tracker (tn_servers n) c) trackers in
      if added = [] then (0, n)
      else if tn_last_servers n then (EAGAIN, n)
      else if length (tn_servers n) + length added > FDFS_MAX_TRACKERS then (ENOSPC, n)
      else if mem \<noteq> 0 then (mem, n)
      else (0, n\<lparr>tn_last_servers := True, tn_servers := tn_servers n @ added\<rparr>))"

text \<open>
  The array \<open>servers\<close> is a null pointer exactly as long as no tracker is known: every join request names at least one tracker, and the
  array is never emptied. So the empty list stands for the null pointer.
\<close>

definition join_tracker_servers :: "int \<Rightarrow> ConnectionInfo list \<Rightarrow> tracker_node \<Rightarrow> int \<times> tracker_node" where
  "join_tracker_servers mem trackers n =
     (if tn_servers n = [] then tracker_mem_first_add_tracker_servers mem trackers n
      else tracker_mem_check_add_tracker_servers mem trackers n)"

section \<open>The status of a tracker\<close>

text \<open>The C division rounds towards zero, as \<open>trim_time\<close> does on both signs.\<close>

definition trim_time :: "int \<Rightarrow> int" where
  "trim_time t = sgn t * (\<bar>t\<bar> div TRACKER_SYNC_STATUS_FILE_INTERVAL) * TRACKER_SYNC_STATUS_FILE_INTERVAL"

text \<open>The running time and the restart interval, from the clock, the start and the last check of the process before.\<close>

definition tracker_calc_running_times :: "int \<Rightarrow> int \<Rightarrow> int \<Rightarrow> int \<times> int" where
  "tracker_calc_running_times current_time up_time last_check_time =
     (trim_time (c_int (current_time - up_time)),
      trim_time (if last_check_time = 0 then 0 else c_int (up_time - last_check_time)))"

definition tracker_deal_get_tracker_status :: "tracker_node \<Rightarrow> int \<times> int \<Rightarrow> byte list \<Rightarrow> int + byte list" where
  "tracker_deal_get_tracker_status n run_times body =
     (if body \<noteq> [] then Inl EINVAL
      else if gs_groups (tn_groups n) = [] then Inl ENOENT
      else Inr ((if tn_if_leader_self n then 1 else 0) # long2buff (fst run_times) @ long2buff (snd run_times)))"

text \<open>The reply of tracker \<open>i\<close>, or the error of the connection.\<close>

definition tracker_mem_get_status :: "nat \<Rightarrow> int + byte list \<Rightarrow> int + TrackerRunningStatus" where
  "tracker_mem_get_status i reply =
     (case reply of
        Inl result \<Rightarrow> Inl result
      | Inr in_buff \<Rightarrow>
          if length in_buff \<noteq> 17 then Inl EINVAL
          else Inr \<lparr>ts_pTrackerServer = i, ts_running_time = c_int (buff2long (take 8 (drop 1 in_buff))),
                    ts_restart_interval = c_int (buff2long (take 8 (drop 9 in_buff))),
                    ts_if_leader = sint (hd in_buff)\<rparr>)"

definition relationship_cmp_tracker_status ::
    "ConnectionInfo list \<Rightarrow> TrackerRunningStatus \<Rightarrow> TrackerRunningStatus \<Rightarrow> int" where
  "relationship_cmp_tracker_status servers s1 s2 =
     (let c1 = servers ! ts_pTrackerServer s1; c2 = servers ! ts_pTrackerServer s2;
          sub1 = ts_if_leader s1 - ts_if_leader s2;
          sub2 = c_int (ts_running_time s1 - ts_running_time s2);
          sub3 = c_int (ts_restart_interval s2 - ts_restart_interval s1);
          sub4 = strcmp (ci_ip_addr c1) (ci_ip_addr c2)
      in if sub1 \<noteq> 0 then sub1 else if sub2 \<noteq> 0 then sub2 else if sub3 \<noteq> 0 then sub3
         else if sub4 \<noteq> 0 then sub4 else c_int (ci_port c1 - ci_port c2))"

text \<open>The answers come in the order of the list of trackers; \<open>ENOENT\<close> is the answer of a tracker without groups.\<close>

definition relationship_get_tracker_leader ::
    "ConnectionInfo list \<Rightarrow> (int + TrackerRunningStatus) list \<Rightarrow> int + TrackerRunningStatus" where
  "relationship_get_tracker_leader servers answers =
     (let statuses = concat (map (\<lambda>a. case a of Inl _ \<Rightarrow> [] | Inr s \<Rightarrow> [s]) answers);
          result = foldl (\<lambda>result a. case a of Inl r \<Rightarrow> if r \<noteq> ENOENT then r else result | Inr _ \<Rightarrow> result) 0 answers
      in if statuses = [] then Inl (if result = 0 then ENOENT else result)
         else Inr (last (qsort (relationship_cmp_tracker_status servers) statuses)))"

section \<open>The two phases\<close>

text \<open>
  The body of both requests, and what the handlers read from it: an error, or the leader and its index.
  The address goes into a buffer of 16 bytes with \<open>strcpy\<close>.
\<close>

definition leader_body :: "ConnectionInfo \<Rightarrow> byte list" where
  "leader_body leader = pad 22 (ci_ip_addr leader @ 58 # print_int (ci_port leader))"

definition leader_of_body :: "tracker_node \<Rightarrow> byte list \<Rightarrow> (int + byte list \<times> int \<times> int) option" where
  "leader_of_body n body =
     (if length body \<noteq> 22 then Some (Inl EINVAL)
      else
        (case splitEx (c_str body) 58 2 of
           [ip, port] \<Rightarrow>
             if length ip \<ge> 16 then None
             else
               (let server_index = fdfs_get_tracker_leader_index_ex (tn_servers n) ip (atoi port)
                in if server_index < 0 then Some (Inl ENOENT) else Some (Inr (ip, atoi port, server_index)))
         | _ \<Rightarrow> Some (Inl EINVAL)))"

definition tracker_deal_notify_next_leader :: "tracker_node \<Rightarrow> byte list \<Rightarrow> (int \<times> tracker_node) option" where
  "tracker_deal_notify_next_leader n body =
     (case leader_of_body n body of
        None \<Rightarrow> None
      | Some (Inl e) \<Rightarrow> Some (e, n)
      | Some (Inr (ip, port, server_index)) \<Rightarrow>
          if tn_if_leader_self n \<and> \<not> is_self n ip port
          then Some (EINVAL, n\<lparr>tn_if_leader_self := False, tn_leader_index := -1,
                               tn_leader_chg_count := tn_leader_chg_count n + 1\<rparr>)
          else Some (0, n\<lparr>tn_next_leader_index := server_index\<rparr>))"

definition tracker_deal_commit_next_leader :: "tracker_node \<Rightarrow> byte list \<Rightarrow> (int \<times> tracker_node) option" where
  "tracker_deal_commit_next_leader n body =
     (case leader_of_body n body of
        None \<Rightarrow> None
      | Some (Inl e) \<Rightarrow> Some (e, n)
      | Some (Inr (ip, port, server_index)) \<Rightarrow>
          if server_index \<noteq> tn_next_leader_index n then Some (EINVAL, n)
          else
            (let n1 = n\<lparr>tn_leader_index := server_index\<rparr>
             in if is_self n ip port
                then Some (0, n1\<lparr>tn_if_leader_self := True, tn_leader_chg_count := tn_leader_chg_count n1 + 1\<rparr>)
                else Some (0, n1)))"

text \<open>
  One request over the network: the connection fails, sending fails, the request arrives but the reply is
  lost, or all goes well. The errors are not zero.
\<close>

datatype link = Connect_Fail int | Send_Fail int | Reply_Lost int | Link_Ok

text \<open>The result, whether the connection failed, and the tracker that was asked.\<close>

definition do_notify_leader_changed ::
    "(tracker_node \<Rightarrow> byte list \<Rightarrow> (int \<times> tracker_node) option) \<Rightarrow> ConnectionInfo \<Rightarrow> link \<Rightarrow> tracker_node \<Rightarrow>
       ((int \<times> bool) \<times> tracker_node) option" where
  "do_notify_leader_changed handler pLeader l n =
     (case l of
        Connect_Fail result \<Rightarrow> Some ((result, True), n)
      | Send_Fail result \<Rightarrow> Some ((if result = ENOENT then EACCES else result, False), n)
      | Reply_Lost result \<Rightarrow> map_option (\<lambda>(_, n1). ((result, False), n1)) (handler n (leader_body pLeader))
      | Link_Ok \<Rightarrow> map_option (\<lambda>(result, n1). ((result, False), n1)) (handler n (leader_body pLeader)))"

text \<open>
  One of the two loops over the trackers, each paired with what happens on the way to it. \<open>Inl\<close> is the early
  return, \<open>Inr\<close> the last result and the number of successes.
\<close>

fun notify_loop ::
    "(tracker_node \<Rightarrow> byte list \<Rightarrow> (int \<times> tracker_node) option) \<Rightarrow> ConnectionInfo \<Rightarrow> int \<times> nat \<Rightarrow>
       (link \<times> tracker_node) list \<Rightarrow> ((int + int \<times> nat) \<times> tracker_node list) option" where
  "notify_loop handler pLeader rc [] = Some (Inr rc, [])"
| "notify_loop handler pLeader rc ((l, n) # nodes) =
     (case do_notify_leader_changed handler pLeader l n of
        None \<Rightarrow> None
      | Some ((result, bConnectFail), n1) \<Rightarrow>
          if result \<noteq> 0 \<and> \<not> bConnectFail then Some (Inl result, n1 # map snd nodes)
          else map_option (\<lambda>(r, ns). (r, n1 # ns))
                 (notify_loop handler pLeader (result, if result = 0 then snd rc + 1 else snd rc) nodes))"

definition relationship_notify_leader_changed ::
    "ConnectionInfo \<Rightarrow> link list \<Rightarrow> link list \<Rightarrow> tracker_node list \<Rightarrow> (int \<times> tracker_node list) option" where
  "relationship_notify_leader_changed pLeader notify_links commit_links nodes =
     (case notify_loop tracker_deal_notify_next_leader pLeader (ENOENT, 0) (zip notify_links nodes) of
        None \<Rightarrow> None
      | Some (Inl result, nodes1) \<Rightarrow> Some (result, nodes1)
      | Some (Inr (result, success_count), nodes1) \<Rightarrow>
          if success_count = 0 then Some (result, nodes1)
          else
            (case notify_loop tracker_deal_commit_next_leader pLeader (result, 0) (zip commit_links nodes1) of
               None \<Rightarrow> None
             | Some (Inl result, nodes2) \<Rightarrow> Some (result, nodes2)
             | Some (Inr (result, success_count), nodes2) \<Rightarrow>
                 Some (if success_count = 0 then result else 0, nodes2)))"

section \<open>Selecting and pinging the leader\<close>

text \<open>
  \<open>relationship_select_leader\<close> of the tracker at index \<open>me\<close> of the list; \<open>env\<close> is what finding the trunk
  servers reads. The pointer of the status is always inside the list of trackers, so the range check of
  the code is part of the model and never fires.
\<close>

definition leader_env :: "tracker_env \<Rightarrow> tracker_node \<Rightarrow> tracker_env" where
  "leader_env env n = env\<lparr>g_if_leader_self := tn_if_leader_self n\<rparr>"

definition find_trunk_servers :: "tracker_env \<Rightarrow> tracker_node \<Rightarrow> tracker_node" where
  "find_trunk_servers env n =
     n\<lparr>tn_groups := (tn_groups n)\<lparr>gs_groups := tracker_mem_find_trunk_servers (leader_env env n) (gs_groups (tn_groups n))\<rparr>\<rparr>"

definition relationship_select_leader ::
    "tracker_env \<Rightarrow> (int + TrackerRunningStatus) list \<Rightarrow> link list \<Rightarrow> link list \<Rightarrow> nat \<Rightarrow> tracker_node list \<Rightarrow>
       (int \<times> tracker_node list) option" where
  "relationship_select_leader env answers notify_links commit_links me nodes =
     (let n = nodes ! me in
      if tn_servers n = [] then Some (0, nodes)
      else
        (case relationship_get_tracker_leader (tn_servers n) answers of
           Inl result \<Rightarrow> Some (result, nodes)
         | Inr st \<Rightarrow>
             (let leader = tn_servers n ! ts_pTrackerServer st in
              if is_self n (ci_ip_addr leader) (ci_port leader) then
                (case relationship_notify_leader_changed leader notify_links commit_links nodes of
                   None \<Rightarrow> None
                 | Some (result, nodes1) \<Rightarrow>
                     if result \<noteq> 0 then Some (result, nodes1)
                     else Some (0, nodes1[me := find_trunk_servers env (nodes1 ! me)]))
              else if ts_if_leader st \<noteq> 0 then
                (if ts_pTrackerServer st \<ge> length (tn_servers n)
                 then Some (EINVAL, nodes[me := n\<lparr>tn_leader_index := -1\<rparr>])
                 else Some (0, nodes[me := n\<lparr>tn_leader_index := int (ts_pTrackerServer st)\<rparr>]))
              else Some (ENOENT, nodes))))"

text \<open>
  The leader's answer to a ping: nothing when this connection has seen the last change of a trunk server,
  else the trunk server of every group, 32 bytes each. \<open>room\<close> is the size of the buffer behind the header.
\<close>

definition ping_entry :: "FDFSGroupInfo \<Rightarrow> byte list" where
  "ping_entry g = pad 16 (gi_group_name g) @
     (case gi_pTrunkServer g of None \<Rightarrow> replicate 16 0 | Some t \<Rightarrow> pad 16 (sd_id (srv g t)))"

definition tracker_deal_ping_leader :: "tracker_node \<Rightarrow> nat \<Rightarrow> bool \<Rightarrow> byte list \<Rightarrow> int + byte list" where
  "tracker_deal_ping_leader n room seen body =
     (if body \<noteq> [] then Inl EINVAL
      else if \<not> tn_if_leader_self n then Inl EOPNOTSUPP
      else if seen then Inr []
      else if 32 * length (gs_groups (tn_groups n)) > room then Inl ENOSPC
      else Inr (concat (map (\<lambda>k. ping_entry (grp (tn_groups n) k)) (gs_sorted_groups (tn_groups n)))))"

text \<open>What the other tracker does with one entry; the second value says whether the entry counts.\<close>

definition ping_apply :: "FDFSGroups \<Rightarrow> byte list \<Rightarrow> FDFSGroups \<times> bool" where
  "ping_apply gs entry =
     (let group_name = c_str (take 16 entry); trunk_server_id = c_str (take 15 (drop 16 entry)) in
      case tracker_mem_get_group_ex gs group_name of
        None \<Rightarrow> (gs, False)
      | Some k \<Rightarrow>
          (upd_grp k
             (if trunk_server_id = [] then (grp gs k)\<lparr>gi_last_trunk_server_id := [], gi_pTrunkServer := None\<rparr>
              else (grp gs k)\<lparr>gi_pTrunkServer := tracker_mem_get_storage (grp gs k) trunk_server_id,
                              gi_last_trunk_server_id := trunk_server_id\<rparr>) gs, True))"

fun ping_loop :: "nat \<Rightarrow> byte list \<Rightarrow> FDFSGroups \<Rightarrow> FDFSGroups" where
  "ping_loop 0 body gs = gs"
| "ping_loop (Suc m) body gs = ping_loop m (drop 32 body) (fst (ping_apply gs (take 32 body)))"

definition fdfs_ping_leader :: "int + byte list \<Rightarrow> FDFSGroups \<Rightarrow> int \<times> FDFSGroups" where
  "fdfs_ping_leader reply gs =
     (case reply of
        Inl result \<Rightarrow> (result, gs)
      | Inr body \<Rightarrow>
          if body = [] then (0, gs)
          else if length body mod 32 \<noteq> 0 then (EINVAL, gs)
          else (0, ping_loop (length body div 32) body gs))"

definition relationship_ping_leader :: "int + byte list \<Rightarrow> tracker_node \<Rightarrow> int \<times> tracker_node" where
  "relationship_ping_leader reply n =
     (if tn_if_leader_self n then (0, n)
      else if tn_leader_index n < 0 then (EINVAL, n)
      else (case fdfs_ping_leader reply (tn_groups n) of (result, gs) \<Rightarrow> (result, n\<lparr>tn_groups := gs\<rparr>)))"

text \<open>One round of the thread after its leader is known, with the counter of failures it keeps.\<close>

definition relationship_ping_round :: "int + byte list \<Rightarrow> nat \<times> tracker_node \<Rightarrow> nat \<times> tracker_node" where
  "relationship_ping_round reply s =
     (case relationship_ping_leader reply (snd s) of
        (result, n) \<Rightarrow>
          if result = 0 then (0, n)
          else if fst s + 1 \<ge> 3 then (fst s + 1, n\<lparr>tn_leader_index := -1\<rparr>) else (fst s + 1, n))"

text \<open>
  One round of the thread of tracker \<open>me\<close>: select a leader when there is none, else ping it; then the old
  list of trackers is freed. The inputs are what the network answers in this round.
\<close>

record round_input =
  ri_answers :: "(int + TrackerRunningStatus) list"
  ri_notify_links :: "link list"
  ri_commit_links :: "link list"
  ri_ping :: "int + byte list"

definition relationship_thread_round ::
    "tracker_env \<Rightarrow> round_input \<Rightarrow> nat \<Rightarrow> nat \<times> tracker_node list \<Rightarrow> (nat \<times> tracker_node list) option" where
  "relationship_thread_round env ri me s =
     map_option (\<lambda>(fail_count, nodes). (fail_count, nodes[me := (nodes ! me)\<lparr>tn_last_servers := False\<rparr>]))
       (if tn_servers (snd s ! me) = [] then Some s
        else if tn_leader_index (snd s ! me) < 0 then
          map_option (\<lambda>(_, nodes). (fst s, nodes))
            (relationship_select_leader env (ri_answers ri) (ri_notify_links ri) (ri_commit_links ri) me (snd s))
        else
          (case relationship_ping_round (ri_ping ri) (fst s, snd s ! me) of
             (fail_count, n) \<Rightarrow> Some (fail_count, (snd s)[me := n])))"

end
