(* ===== verification/Tracker_Election.thy ===== *)
theory Tracker_Election
  imports Tracker_Leader
begin

text \<open>
  What the trackers' choice of a leader guarantees: the largest status wins, a leader change that succeeds
  leaves the trackers it has reached with one leader, an old leader steps down and the change succeeds when
  it is tried again, and a tracker believes to be the leader exactly when the leader it knows is itself.
\<close>

section \<open>The largest status\<close>

definition status_key :: "ConnectionInfo list \<Rightarrow> TrackerRunningStatus \<Rightarrow> int \<times> int \<times> int \<times> byte list \<times> int" where
  "status_key servers s = (ts_if_leader s, ts_running_time s, - ts_restart_interval s,
     ci_ip_addr (servers ! ts_pTrackerServer s), ci_port (servers ! ts_pTrackerServer s))"

definition status_ok :: "ConnectionInfo list \<Rightarrow> TrackerRunningStatus \<Rightarrow> bool" where
  "status_ok servers s \<longleftrightarrow> ts_pTrackerServer s < length servers \<and> 0 \<le> ts_running_time s \<and> ts_running_time s < 2 ^ 31 \<and>
     0 \<le> ts_restart_interval s \<and> ts_restart_interval s < 2 ^ 31 \<and>
     0 \<le> ci_port (servers ! ts_pTrackerServer s) \<and> ci_port (servers ! ts_pTrackerServer s) < 2 ^ 16"

interpretation leader_order: array_order "status_ok servers" "status_key servers" "relationship_cmp_tracker_status servers"
  for servers
proof
  fix a b assume ok: "status_ok servers a" "status_ok servers b"
  have c: "c_int (ts_running_time a - ts_running_time b) = ts_running_time a - ts_running_time b"
    "c_int (ts_restart_interval b - ts_restart_interval a) = ts_restart_interval b - ts_restart_interval a"
    "c_int (ci_port (servers ! ts_pTrackerServer a) - ci_port (servers ! ts_pTrackerServer b)) =
       ci_port (servers ! ts_pTrackerServer a) - ci_port (servers ! ts_pTrackerServer b)"
    using ok by (simp_all add: status_ok_def int_range_diff_nonneg)
  show "relationship_cmp_tracker_status servers a b < 0 \<longleftrightarrow> status_key servers a < status_key servers b"
    unfolding relationship_cmp_tracker_status_def Let_def c by (auto simp: status_key_def)
  show "relationship_cmp_tracker_status servers a b = 0 \<longleftrightarrow> status_key servers a = status_key servers b"
    unfolding relationship_cmp_tracker_status_def Let_def c by (auto simp: status_key_def)
qed

lemma sorted_wrt_last: "\<lbrakk>sorted_wrt R xs; x \<in> set xs; \<And>y. R y y\<rbrakk> \<Longrightarrow> R x (last xs)"
  by (induction xs) auto

definition heard :: "(int + TrackerRunningStatus) list \<Rightarrow> TrackerRunningStatus list" where
  "heard answers = concat (map (\<lambda>a. case a of Inl _ \<Rightarrow> [] | Inr s \<Rightarrow> [s]) answers)"

lemma set_heard: "set (heard answers) = {s. Inr s \<in> set answers}"
  by (induction answers) (auto simp: heard_def split: sum.split)

lemma get_leader_Inr:
  assumes "relationship_get_tracker_leader servers answers = Inr st"
  shows "heard answers \<noteq> [] \<and> st = last (qsort (relationship_cmp_tracker_status servers) (heard answers))"
  using assms by (auto simp: relationship_get_tracker_leader_def heard_def Let_def split: if_splits)

lemma get_leader_in: "relationship_get_tracker_leader servers answers = Inr st \<Longrightarrow> Inr st \<in> set answers"
  using get_leader_Inr [of servers answers st] set_heard [of answers]
  by (metis last_in_set set_qsort mem_Collect_eq set_empty)

lemma get_leader_max:
  assumes ok: "\<forall>s. Inr s \<in> set answers \<longrightarrow> status_ok servers s" and s: "Inr s \<in> set answers"
    and r: "relationship_get_tracker_leader servers answers = Inr st"
  shows "status_key servers s \<le> status_key servers st"
proof -
  let ?ys = "qsort (relationship_cmp_tracker_status servers) (heard answers)"
  have v: "\<forall>p \<in> set (heard answers). status_ok servers p" using ok by (simp add: set_heard)
  have "sorted_wrt (\<lambda>p q. status_key servers p \<le> status_key servers q) ?ys"
    using leader_order.sorted_qsort [where deref = "\<lambda>s. s" and xs = "heard answers", OF v] .
  moreover have "s \<in> set ?ys" using s by (simp add: set_heard)
  ultimately have "status_key servers s \<le> status_key servers (last ?ys)"
    using sorted_wrt_last [of "\<lambda>p q. status_key servers p \<le> status_key servers q" ?ys s] by simp
  then show ?thesis using get_leader_Inr [OF r] by simp
qed

text \<open>C15. The tracker taken as the leader has answered, and its status is the largest of all answers in the order
  leader first, then longest running, then shortest restart interval, then address and port. Two
  trackers that hear the same answers, in whatever order, take the same tracker.\<close>

theorem tracker_leader_max:
  assumes ok: "\<forall>s. Inr s \<in> set answers \<longrightarrow> status_ok servers s" and d: "distinct servers"
    and r: "relationship_get_tracker_leader servers answers = Inr st"
  shows "Inr st \<in> set answers \<and> (\<forall>s. Inr s \<in> set answers \<longrightarrow> status_key servers s \<le> status_key servers st) \<and>
    (\<forall>others. {s. Inr s \<in> set others} = {s. Inr s \<in> set answers} \<longrightarrow>
       relationship_get_tracker_leader servers others = Inr st)"
proof (intro conjI allI impI)
  show in_st: "Inr st \<in> set answers" by (rule get_leader_in [OF r])
  show "status_key servers s \<le> status_key servers st" if "Inr s \<in> set answers" for s by (rule get_leader_max [OF ok that r])
  fix others :: "(int + TrackerRunningStatus) list"
  assume "{s. Inr s \<in> set others} = {s. Inr s \<in> set answers}"
  then have same: "Inr s \<in> set others \<longleftrightarrow> Inr s \<in> set answers" for s by blast
  have "heard others \<noteq> []" using same [of st] in_st set_heard [of others] by force
  then obtain st' where r': "relationship_get_tracker_leader servers others = Inr st'"
    by (auto simp: relationship_get_tracker_leader_def heard_def Let_def)
  have "Inr st' \<in> set answers" using get_leader_in [OF r'] same by simp
  then have "status_key servers st' \<le> status_key servers st" by (rule get_leader_max [OF ok _ r])
  moreover have "status_key servers st \<le> status_key servers st'"
    using get_leader_max [OF _ _ r', of st] same ok in_st by blast
  ultimately have eq: "status_key servers st' = status_key servers st" by (rule order_antisym)
  then have "servers ! ts_pTrackerServer st' = servers ! ts_pTrackerServer st" by (simp add: status_key_def)
  moreover have "ts_pTrackerServer st' < length servers" "ts_pTrackerServer st < length servers"
    using ok in_st \<open>Inr st' \<in> set answers\<close> by (auto simp: status_ok_def)
  ultimately have "ts_pTrackerServer st' = ts_pTrackerServer st" using d by (simp add: nth_eq_iff_index_eq)
  with eq have "st' = st" by (intro TrackerRunningStatus.equality) (simp_all add: status_key_def)
  with r' show "relationship_get_tracker_leader servers others = Inr st" by simp
qed

theorem tracker_leader_max_witness:
  "relationship_get_tracker_leader [\<lparr>ci_ip_addr = [49], ci_port = 22122\<rparr>, \<lparr>ci_ip_addr = [50], ci_port = 22122\<rparr>]
     [Inr \<lparr>ts_pTrackerServer = 1, ts_running_time = 7200, ts_restart_interval = 0, ts_if_leader = 0\<rparr>, Inl 111,
      Inr \<lparr>ts_pTrackerServer = 0, ts_running_time = 3600, ts_restart_interval = 0, ts_if_leader = 0\<rparr>] =
   Inr \<lparr>ts_pTrackerServer = 1, ts_running_time = 7200, ts_restart_interval = 0, ts_if_leader = 0\<rparr>"
proof -
  let ?servers = "[\<lparr>ci_ip_addr = [49], ci_port = 22122\<rparr>, \<lparr>ci_ip_addr = [50], ci_port = 22122\<rparr>]"
  let ?s0 = "\<lparr>ts_pTrackerServer = 0, ts_running_time = 3600, ts_restart_interval = 0, ts_if_leader = 0\<rparr>"
  let ?s1 = "\<lparr>ts_pTrackerServer = 1, ts_running_time = 7200, ts_restart_interval = 0, ts_if_leader = 0\<rparr>"
  have "relationship_get_tracker_leader ?servers [Inr ?s0, Inr ?s1, Inl 111] = Inr ?s1" by code_simp
  moreover have "\<forall>s. Inr s \<in> set [Inr ?s0, Inr ?s1, Inl (111 :: int)] \<longrightarrow> status_ok ?servers s" by (simp add: status_ok_def)
  ultimately have "\<forall>others. {s. Inr s \<in> set others} = {s. Inr s \<in> set [Inr ?s0, Inr ?s1, Inl (111 :: int)]} \<longrightarrow>
      relationship_get_tracker_leader ?servers others = Inr ?s1"
    using tracker_leader_max [of "[Inr ?s0, Inr ?s1, Inl 111]" ?servers ?s1] by simp
  then show ?thesis by (rule allE [of _ "[Inr ?s1, Inl 111, Inr ?s0]"]) auto
qed

section \<open>The requests\<close>

definition address_ok :: "ConnectionInfo \<Rightarrow> bool" where
  "address_ok c \<longleftrightarrow> length (ci_ip_addr c) \<le> 15 \<and> 0 \<notin> set (ci_ip_addr c) \<and> 58 \<notin> set (ci_ip_addr c) \<and>
     0 \<le> ci_port c \<and> ci_port c < 2 ^ 16"

lemma leader_index_iff:
  assumes "distinct servers" "i < length servers"
  shows "fdfs_get_tracker_leader_index_ex servers (ci_ip_addr (servers ! i)) (ci_port (servers ! i)) = int i"
proof -
  let ?P = "\<lambda>j. strcmp (ci_ip_addr (servers ! j)) (ci_ip_addr (servers ! i)) = 0 \<and> ci_port (servers ! j) = ci_port (servers ! i)"
  have eq: "?P j \<longleftrightarrow> servers ! j = servers ! i" for j by (auto intro: ConnectionInfo.equality)
  have "find ?P [0..<length servers] \<noteq> None" using assms(2) by (auto simp: find_None_iff)
  then obtain j where j: "find ?P [0..<length servers] = Some j" by blast
  then have "?P j" "j < length servers" using find_range [OF j] by auto
  then have "j = i" using eq assms by (simp add: nth_eq_iff_index_eq)
  with j show ?thesis by (simp add: fdfs_get_tracker_leader_index_ex_def)
qed

lemma leader_index_range:
  assumes "fdfs_get_tracker_leader_index_ex servers ip port = x" "0 \<le> x"
  shows "nat x < length servers \<and> ci_ip_addr (servers ! nat x) = ip \<and> ci_port (servers ! nat x) = port"
proof (cases "find (\<lambda>i. strcmp (ci_ip_addr (servers ! i)) ip = 0 \<and> ci_port (servers ! i) = port) [0..<length servers]")
  case None
  then show ?thesis using assms by (simp add: fdfs_get_tracker_leader_index_ex_def)
next
  case (Some j)
  with assms(1) have "x = int j" by (simp add: fdfs_get_tracker_leader_index_ex_def)
  then show ?thesis using find_range [OF Some] by simp
qed

lemma print_port:
  assumes "0 \<le> p" "p < 2 ^ 16"
  shows "length (print_int p) \<le> 5" "0 \<notin> set (print_int p)" "atoi (print_int p) = p"
proof -
  show "length (print_int p) \<le> 5" using assms print_dec_length [of "nat p" 5] by (simp add: print_int_def)
  show "0 \<notin> set (print_int p)" using print_int_chars [of 0 p] by blast
  show "atoi (print_int p) = p" using atoi_print_int [of p "[]"] assms by (simp add: int_range_def)
qed

text \<open>The body that announces a leader reads back as that leader.\<close>

lemma leader_of_body_leader:
  assumes ok: "address_ok (tn_servers n ! i)" and d: "distinct (tn_servers n)" and i: "i < length (tn_servers n)"
  shows "leader_of_body n (leader_body (tn_servers n ! i)) =
    Some (Inr (ci_ip_addr (tn_servers n ! i), ci_port (tn_servers n ! i), int i))"
proof -
  let ?c = "tn_servers n ! i"
  let ?text = "ci_ip_addr ?c @ 58 # print_int (ci_port ?c)"
  have p: "length (print_int (ci_port ?c)) \<le> 5" "0 \<notin> set (print_int (ci_port ?c))" "atoi (print_int (ci_port ?c)) = ci_port ?c"
    using print_port ok by (simp_all add: address_ok_def)
  have len: "length ?text \<le> 22" using ok p(1) by (simp add: address_ok_def)
  then have body: "leader_body ?c = ?text @ replicate (22 - length ?text) 0" by (simp add: leader_body_def pad_def)
  then have "length (leader_body ?c) = 22" using len by simp
  moreover have "c_str (leader_body ?c) = ?text"
    using ok p(2) unfolding body c_str_def
    by (subst takeWhile_append2) (auto simp: address_ok_def)
  moreover have "strchr ?text 58 = Some (length (ci_ip_addr ?c))"
    using ok by (simp add: address_ok_def strchr_append)
  then have "splitEx ?text 58 2 = [ci_ip_addr ?c, print_int (ci_port ?c)]"
    by (simp add: splitEx_def numeral_2_eq_2)
  ultimately show ?thesis
    using ok p(3) leader_index_iff [OF d i] by (simp add: leader_of_body_def address_ok_def)
qed

section \<open>What a tracker knows of the leader\<close>

definition self_at :: "tracker_node \<Rightarrow> int \<Rightarrow> bool" where
  "self_at n x \<longleftrightarrow> is_self n (ci_ip_addr (tn_servers n ! nat x)) (ci_port (tn_servers n ! nat x))"

definition node_ok :: "tracker_node \<Rightarrow> bool" where
  "node_ok n \<longleftrightarrow> - 1 \<le> tn_leader_index n \<and> tn_leader_index n < int (length (tn_servers n)) \<and>
     - 1 \<le> tn_next_leader_index n \<and> tn_next_leader_index n < int (length (tn_servers n)) \<and>
     (tn_if_leader_self n \<longleftrightarrow> 0 \<le> tn_leader_index n \<and> self_at n (tn_leader_index n)) \<and>
     (tn_if_leader_self n \<longrightarrow> 0 \<le> tn_next_leader_index n \<and> self_at n (tn_next_leader_index n))"

text \<open>The part of a tracker that a request about the leader leaves alone.\<close>

definition same_conf :: "tracker_node \<Rightarrow> tracker_node \<Rightarrow> bool" where
  "same_conf n n' \<longleftrightarrow> tn_servers n' = tn_servers n \<and> tn_server_port n' = tn_server_port n \<and> tn_local_ips n' = tn_local_ips n"

lemma same_conf_refl [simp]: "same_conf n n"
  by (simp add: same_conf_def)

lemma same_conf_trans: "\<lbrakk>same_conf a b; same_conf b c\<rbrakk> \<Longrightarrow> same_conf a c"
  by (simp add: same_conf_def)

lemma same_conf_self: "same_conf n n' \<Longrightarrow> is_self n' = is_self n \<and> self_at n' = self_at n"
  by (auto simp: same_conf_def is_self_def self_at_def fun_eq_iff)

lemma leader_of_body_self:
  assumes "leader_of_body n body = Some (Inr (ip, port, x))"
  shows "0 \<le> x \<and> x < int (length (tn_servers n)) \<and> (self_at n x \<longleftrightarrow> is_self n ip port)"
proof -
  have "fdfs_get_tracker_leader_index_ex (tn_servers n) ip port = x" "0 \<le> x"
    using assms by (auto simp: leader_of_body_def Let_def split: if_splits list.splits)
  with leader_index_range [OF this] show ?thesis by (auto simp: self_at_def)
qed

lemma node_ok_fields:
  assumes "node_ok n"
  shows "\<not> tn_if_leader_self n \<or> (0 \<le> x \<and> self_at n x) \<Longrightarrow> -1 \<le> x \<Longrightarrow> x < int (length (tn_servers n)) \<Longrightarrow>
      node_ok (n\<lparr>tn_next_leader_index := x\<rparr>)"
    and "node_ok (n\<lparr>tn_if_leader_self := False, tn_leader_index := -1, tn_leader_chg_count := c\<rparr>)"
  using assms by (auto simp: node_ok_def self_at_def is_self_def)

lemma notify_node_ok:
  assumes ok: "node_ok n" and r: "tracker_deal_notify_next_leader n body = Some (r, n')"
  shows "node_ok n' \<and> same_conf n n'"
proof -
  consider "n' = n" | ip port x where "leader_of_body n body = Some (Inr (ip, port, x))"
      "n' = (if tn_if_leader_self n \<and> \<not> is_self n ip port
             then n\<lparr>tn_if_leader_self := False, tn_leader_index := -1, tn_leader_chg_count := tn_leader_chg_count n + 1\<rparr>
             else n\<lparr>tn_next_leader_index := x\<rparr>)"
    using r by (auto simp: tracker_deal_notify_next_leader_def split: option.splits sum.splits if_splits)
  then show ?thesis
  proof cases
    case 2
    note x = leader_of_body_self [OF 2(1)]
    show ?thesis using node_ok_fields [OF ok] x by (auto simp: 2(2) same_conf_def)
  qed (simp add: ok)
qed

lemma commit_node_ok:
  assumes ok: "node_ok n" and r: "tracker_deal_commit_next_leader n body = Some (r, n')"
  shows "node_ok n' \<and> same_conf n n'"
proof -
  consider "n' = n" | ip port x where "leader_of_body n body = Some (Inr (ip, port, x))" "x = tn_next_leader_index n"
      "n' = (if is_self n ip port
             then n\<lparr>tn_leader_index := x, tn_if_leader_self := True, tn_leader_chg_count := tn_leader_chg_count n + 1\<rparr>
             else n\<lparr>tn_leader_index := x\<rparr>)"
    using r by (auto simp: tracker_deal_commit_next_leader_def Let_def split: option.splits sum.splits if_splits)
  then show ?thesis
  proof cases
    case 2
    note x = leader_of_body_self [OF 2(1)]
    show ?thesis using ok x 2(2) unfolding 2(3) by (auto simp: node_ok_def self_at_def is_self_def same_conf_def)
  qed (simp add: ok)
qed

section \<open>The loops over the trackers\<close>

lemma loop_Cons_cases:
  assumes "notify_loop h leader rc ((l, n) # nodes) = Some (r, ns)"
  obtains (stop) result n1 where "do_notify_leader_changed h leader l n = Some ((result, False), n1)" "result \<noteq> 0"
      "r = Inl result" "ns = n1 # map snd nodes"
  | (go) result b n1 ns1 where "do_notify_leader_changed h leader l n = Some ((result, b), n1)" "result = 0 \<or> b"
      "notify_loop h leader (result, if result = 0 then snd rc + 1 else snd rc) nodes = Some (r, ns1)" "ns = n1 # ns1"
proof -
  obtain result b n1 where d: "do_notify_leader_changed h leader l n = Some ((result, b), n1)"
    using assms by (auto split: option.splits)
  show ?thesis
  proof (cases "result \<noteq> 0 \<and> \<not> b")
    case True
    then show ?thesis using assms d by (intro stop) auto
  next
    case False
    then obtain ns1 where "notify_loop h leader (result, if result = 0 then snd rc + 1 else snd rc) nodes = Some (r, ns1)" "ns = n1 # ns1"
      using assms d by auto
    with False d show ?thesis by (intro go) auto
  qed
qed

lemma loop_nodes:
  "notify_loop h leader rc ps = Some (r, ns) \<Longrightarrow> length ns = length ps \<and>
     (\<forall>j < length ps. ns ! j = snd (ps ! j) \<or> (\<exists>rb. do_notify_leader_changed h leader (fst (ps ! j)) (snd (ps ! j)) = Some (rb, ns ! j)))"
proof (induction ps arbitrary: rc ns)
  case (Cons p ps)
  obtain l n where p: "p = (l, n)" by fastforce
  from Cons.prems [unfolded p] show ?case
  proof (cases rule: loop_Cons_cases)
    case stop
    then show ?thesis by (auto simp: p nth_Cons split: nat.split)
  next
    case go
    then show ?thesis using Cons.IH [OF go(3)] by (auto simp: p nth_Cons split: nat.split)
  qed
qed simp

lemma loop_success:
  "notify_loop h leader rc ps = Some (Inr rc', ns) \<Longrightarrow> j < length ps \<Longrightarrow>
     \<exists>r b. do_notify_leader_changed h leader (fst (ps ! j)) (snd (ps ! j)) = Some ((r, b), ns ! j) \<and> (r = 0 \<or> b)"
proof (induction ps arbitrary: rc ns j)
  case (Cons p ps)
  obtain l n where p: "p = (l, n)" by fastforce
  from Cons.prems(1) [unfolded p] show ?case
  proof (cases rule: loop_Cons_cases)
    case go
    then show ?thesis using Cons.IH [OF go(3)] Cons.prems(2) by (auto simp: p nth_Cons split: nat.split)
  qed simp
qed simp

lemma loop_Inl: "notify_loop h leader rc ps = Some (Inl r, ns) \<Longrightarrow> r \<noteq> 0"
proof (induction ps arbitrary: rc ns)
  case (Cons p ps)
  obtain l n where p: "p = (l, n)" by fastforce
  from Cons.prems [unfolded p] show ?case by (cases rule: loop_Cons_cases) (use Cons.IH in auto)
qed simp

lemma loop_count:
  "\<lbrakk>notify_loop h leader rc ps = Some (Inr (r, c), ns); fst rc = 0 \<longrightarrow> 0 < snd rc\<rbrakk> \<Longrightarrow> r = 0 \<longrightarrow> 0 < c"
proof (induction ps arbitrary: rc ns)
  case (Cons p ps)
  obtain l n where p: "p = (l, n)" by fastforce
  from Cons.prems(1) [unfolded p] show ?case
  proof (cases rule: loop_Cons_cases)
    case go
    show ?thesis by (rule Cons.IH [OF go(3)]) simp
  qed simp
qed auto

text \<open>A handler that keeps a tracker consistent, over any link.\<close>

definition keeps_ok :: "(tracker_node \<Rightarrow> byte list \<Rightarrow> (int \<times> tracker_node) option) \<Rightarrow> bool" where
  "keeps_ok h \<longleftrightarrow> (\<forall>n body r n'. node_ok n \<longrightarrow> h n body = Some (r, n') \<longrightarrow> node_ok n' \<and> same_conf n n')"

lemma handlers_keep_ok: "keeps_ok tracker_deal_notify_next_leader" "keeps_ok tracker_deal_commit_next_leader"
  using notify_node_ok commit_node_ok unfolding keeps_ok_def by blast+

lemma do_notify_keeps:
  "\<lbrakk>keeps_ok h; node_ok n; do_notify_leader_changed h leader l n = Some (rb, n')\<rbrakk> \<Longrightarrow> node_ok n' \<and> same_conf n n'"
  by (cases l) (auto simp: do_notify_leader_changed_def keeps_ok_def)

lemma loop_keeps:
  assumes "keeps_ok h" "notify_loop h leader rc (zip ls nodes) = Some (r, ns)" "length ls = length nodes" "j < length nodes" "node_ok (nodes ! j)"
  shows "length ns = length nodes \<and> node_ok (ns ! j) \<and> same_conf (nodes ! j) (ns ! j)"
  using loop_nodes [OF assms(2)] assms(3-5) do_notify_keeps [OF assms(1)] by (fastforce dest: spec [of _ j])

lemma leader_change_keeps:
  assumes r: "relationship_notify_leader_changed leader ls ls' nodes = Some (e, nodes')"
    and len: "length ls = length nodes" "length ls' = length nodes" and j: "j < length nodes" "node_ok (nodes ! j)"
  shows "length nodes' = length nodes \<and> node_ok (nodes' ! j) \<and> same_conf (nodes ! j) (nodes' ! j)"
proof -
  obtain res nodes1 where l1: "notify_loop tracker_deal_notify_next_leader leader (ENOENT, 0) (zip ls nodes) = Some (res, nodes1)"
    using r by (auto simp: relationship_notify_leader_changed_def split: option.splits)
  note k1 = loop_keeps [OF handlers_keep_ok(1) l1 len(1) j]
  show ?thesis
  proof (cases "nodes' = nodes1")
    case False
    then obtain result c res' where "res = Inr (result, c)"
      and l2: "notify_loop tracker_deal_commit_next_leader leader (result, 0) (zip ls' nodes1) = Some (res', nodes')"
      using r l1 by (auto simp: relationship_notify_leader_changed_def split: option.splits sum.splits prod.splits if_splits)
    note k2 = loop_keeps [OF handlers_keep_ok(2) l2, of j]
    show ?thesis using k1 k2 len(2) j(1) same_conf_trans [of "nodes ! j"] by auto
  qed (use k1 in simp)
qed

lemma leader_change_phases:
  assumes r: "relationship_notify_leader_changed leader ls ls' nodes = Some (0, nodes')"
  obtains rc nodes1 rc0 rc' where
    "notify_loop tracker_deal_notify_next_leader leader (ENOENT, 0) (zip ls nodes) = Some (Inr rc, nodes1)"
    "notify_loop tracker_deal_commit_next_leader leader rc0 (zip ls' nodes1) = Some (Inr rc', nodes')"
proof -
  obtain res nodes1 where l1: "notify_loop tracker_deal_notify_next_leader leader (ENOENT, 0) (zip ls nodes) = Some (res, nodes1)"
    using r by (auto simp: relationship_notify_leader_changed_def split: option.splits)
  then obtain result c where res: "res = Inr (result, c)"
    using r loop_Inl by (cases res) (auto simp: relationship_notify_leader_changed_def)
  then have pos: "result = 0 \<longrightarrow> 0 < c" using loop_count [OF l1 [unfolded res]] by simp
  have c: "c \<noteq> 0"
  proof
    assume "c = 0"
    with r l1 res have "result = 0" by (simp add: relationship_notify_leader_changed_def)
    with pos \<open>c = 0\<close> show False by simp
  qed
  obtain res' nodes2 where l2: "notify_loop tracker_deal_commit_next_leader leader (result, 0) (zip ls' nodes1) = Some (res', nodes2)"
    using r l1 res c by (auto simp: relationship_notify_leader_changed_def split: option.splits)
  have "res' \<noteq> Inl 0" using loop_Inl l2 by blast
  then obtain rc' where "res' = Inr rc'"
    using r l1 res c l2 by (cases res') (auto simp: relationship_notify_leader_changed_def)
  moreover have "nodes2 = nodes'"
    using r l1 res c l2 by (auto simp: relationship_notify_leader_changed_def split: sum.splits prod.splits)
  ultimately show ?thesis using that l1 res l2 by blast
qed

lemma commit_sets_leader:
  "\<lbrakk>tracker_deal_commit_next_leader n body = Some (0, n'); leader_of_body n body = Some (Inr (ip, port, x))\<rbrakk>
   \<Longrightarrow> tn_leader_index n' = x"
  by (auto simp: tracker_deal_commit_next_leader_def Let_def split: if_splits)

section \<open>A leader change that succeeds\<close>

text \<open>Trackers with one list of each other, tracker \<open>j\<close> at place \<open>j\<close> of it.\<close>

definition cluster :: "ConnectionInfo list \<Rightarrow> tracker_node list \<Rightarrow> bool" where
  "cluster servers nodes \<longleftrightarrow> length nodes = length servers \<and> distinct servers \<and> (\<forall>c \<in> set servers. address_ok c) \<and>
     (\<forall>j < length nodes. node_ok (nodes ! j) \<and> tn_servers (nodes ! j) = servers \<and>
        (\<forall>x < length servers. self_at (nodes ! j) (int x) \<longleftrightarrow> x = j))"

text \<open>C12. When telling the trackers of a new leader succeeds, whatever connections failed on the way, every
  tracker that could be reached for the commit has the new leader as its leader, and of these trackers exactly
  the new leader believes to be the leader.\<close>

theorem leader_change_safe:
  assumes cl: "cluster servers nodes" and i: "i < length servers"
    and len: "length ls = length nodes" "length ls' = length nodes"
    and r: "relationship_notify_leader_changed (servers ! i) ls ls' nodes = Some (0, nodes')"
    and j: "j < length nodes" "ls' ! j = Link_Ok"
  shows "tn_leader_index (nodes' ! j) = int i \<and> (tn_if_leader_self (nodes' ! j) \<longleftrightarrow> j = i)"
proof -
  have nj: "node_ok (nodes ! j)" "tn_servers (nodes ! j) = servers" "self_at (nodes ! j) (int i) \<longleftrightarrow> i = j"
    using cl j(1) i by (simp_all add: cluster_def)
  obtain rc nodes1 rc0 rc' where
    l1: "notify_loop tracker_deal_notify_next_leader (servers ! i) (ENOENT, 0) (zip ls nodes) = Some (Inr rc, nodes1)" and
    l2: "notify_loop tracker_deal_commit_next_leader (servers ! i) rc0 (zip ls' nodes1) = Some (Inr rc', nodes')"
    by (rule leader_change_phases [OF r])
  have k1: "length nodes1 = length nodes" "same_conf (nodes ! j) (nodes1 ! j)"
    using loop_keeps [OF handlers_keep_ok(1) l1 len(1) j(1) nj(1)] by simp_all
  have k2: "node_ok (nodes' ! j)" "same_conf (nodes ! j) (nodes' ! j)"
    using leader_change_keeps [OF r len j(1) nj(1)] by simp_all
  obtain e b where d: "do_notify_leader_changed tracker_deal_commit_next_leader (servers ! i) Link_Ok (nodes1 ! j) =
      Some ((e, b), nodes' ! j)" "e = 0 \<or> b"
    using loop_success [OF l2, of j] j len(2) k1(1) by auto
  then have commit: "tracker_deal_commit_next_leader (nodes1 ! j) (leader_body (servers ! i)) = Some (0, nodes' ! j)"
    by (auto simp: do_notify_leader_changed_def)
  have sv: "tn_servers (nodes1 ! j) = servers" using k1(2) nj(2) by (simp add: same_conf_def)
  have "leader_of_body (nodes1 ! j) (leader_body (servers ! i)) = Some (Inr (ci_ip_addr (servers ! i), ci_port (servers ! i), int i))"
    using leader_of_body_leader [of "nodes1 ! j" i] sv cl i by (simp add: cluster_def)
  then have idx: "tn_leader_index (nodes' ! j) = int i" by (rule commit_sets_leader [OF commit])
  with k2(1) have "tn_if_leader_self (nodes' ! j) \<longleftrightarrow> self_at (nodes' ! j) (int i)" by (simp add: node_ok_def)
  also have "\<dots> \<longleftrightarrow> i = j" using same_conf_self [OF k2(2)] nj(3) by simp
  finally show ?thesis using idx by auto
qed

text \<open>Three trackers, the first of them an old leader.\<close>

definition demo_servers :: "ConnectionInfo list" where
  "demo_servers = map (\<lambda>k. \<lparr>ci_ip_addr = [k], ci_port = 23\<rparr>) [49, 50, 51]"

definition demo_node :: "byte \<Rightarrow> int \<Rightarrow> tracker_node" where
  "demo_node k leader = \<lparr>tn_servers = demo_servers, tn_last_servers = False, tn_server_port = 23, tn_local_ips = [[k]],
     tn_leader_index = leader, tn_next_leader_index = leader, tn_if_leader_self = (leader = uint k - 49), tn_leader_chg_count = 0,
     tn_groups = tracker_mem_init_groups 0 0 0 []\<rparr>"

definition demo_nodes :: "tracker_node list" where
  "demo_nodes = [demo_node 49 0, demo_node 50 0, demo_node 51 (-1)]"

lemma demo_length: "length demo_nodes = 3" "length demo_servers = 3"
  by (simp_all add: demo_nodes_def demo_servers_def)

lemma demo_cluster: "cluster demo_servers demo_nodes"
proof -
  have "distinct demo_servers" "\<forall>c \<in> set demo_servers. address_ok c" by code_simp+
  moreover have "\<forall>j \<in> set [0..<3]. node_ok (demo_nodes ! j) \<and> tn_servers (demo_nodes ! j) = demo_servers \<and>
      (\<forall>x \<in> set [0..<3]. self_at (demo_nodes ! j) (int x) \<longleftrightarrow> x = j)" by code_simp
  ultimately show ?thesis by (simp add: cluster_def demo_length)
qed

lemma map_option_fst_Some: "map_option fst r = Some a \<Longrightarrow> \<exists>b. r = Some (a, b)"
  by (cases r) auto

theorem leader_change_safe_witness:
  "let nodes' = snd (the (relationship_notify_leader_changed (demo_servers ! 1) [Connect_Fail 111, Link_Ok, Link_Ok] [Connect_Fail 111, Link_Ok, Link_Ok] demo_nodes))
   in tn_leader_index (nodes' ! 1) = 1 \<and> tn_if_leader_self (nodes' ! 1) \<and> tn_leader_index (nodes' ! 2) = 1 \<and> \<not> tn_if_leader_self (nodes' ! 2) \<and>
      tn_if_leader_self (nodes' ! 0)"
proof -
  let ?ls = "[Connect_Fail 111, Link_Ok, Link_Ok]"
  let ?r = "relationship_notify_leader_changed (demo_servers ! 1) ?ls ?ls demo_nodes"
  have ev: "map_option fst ?r = Some 0" "tn_if_leader_self (snd (the ?r) ! 0)" by code_simp+
  obtain nodes' where r: "?r = Some (0, nodes')" using map_option_fst_Some [OF ev(1)] ..
  have safe: "tn_leader_index (nodes' ! j) = int 1 \<and> (tn_if_leader_self (nodes' ! j) \<longleftrightarrow> j = 1)" if "j < 3" "?ls ! j = Link_Ok" for j
    by (rule leader_change_safe [OF demo_cluster _ _ _ r]) (use that in \<open>simp_all add: demo_length\<close>)
  have "tn_if_leader_self (nodes' ! 0)" using ev(2) unfolding r by simp
  then show ?thesis unfolding r Let_def using safe [of 1] safe [of 2] by simp
qed

section \<open>Old leaders step down\<close>

definition rival :: "ConnectionInfo \<Rightarrow> tracker_node \<Rightarrow> bool" where
  "rival leader n \<longleftrightarrow> tn_if_leader_self n \<and> \<not> is_self n (ci_ip_addr leader) (ci_port leader)"

text \<open>The change is tried again as long as it fails, at most \<open>m\<close> times, with every tracker in reach.\<close>

fun change_attempts :: "ConnectionInfo \<Rightarrow> nat \<Rightarrow> tracker_node list \<Rightarrow> (int \<times> tracker_node list) option" where
  "change_attempts leader 0 nodes = None"
| "change_attempts leader (Suc m) nodes =
     (case relationship_notify_leader_changed leader (replicate (length nodes) Link_Ok) (replicate (length nodes) Link_Ok) nodes of
        None \<Rightarrow> None
      | Some (r, nodes1) \<Rightarrow> if r = 0 then Some (0, nodes1) else change_attempts leader m nodes1)"

lemma do_notify_Ok:
  "h n (leader_body leader) = Some (r, n') \<Longrightarrow> do_notify_leader_changed h leader Link_Ok n = Some ((r, False), n')"
  by (simp add: do_notify_leader_changed_def)

lemma loop_all_ok:
  "(\<And>n. n \<in> set nodes \<Longrightarrow> h n (leader_body leader) = Some (0, f n)) \<Longrightarrow>
   notify_loop h leader rc (map (Pair Link_Ok) nodes) =
     Some (Inr (if nodes = [] then fst rc else 0, snd rc + length nodes), map f nodes)"
proof (induction nodes arbitrary: rc)
  case (Cons n nodes)
  have "do_notify_leader_changed h leader Link_Ok n = Some ((0, False), f n)" using Cons.prems by (intro do_notify_Ok) simp
  then show ?case using Cons.IH [of "(0, snd rc + 1)"] Cons.prems by (cases nodes) simp_all
qed simp

lemma loop_first_fail:
  "\<lbrakk>\<And>n. n \<in> set as \<Longrightarrow> h n (leader_body leader) = Some (0, f n); h b (leader_body leader) = Some (e, b'); e \<noteq> 0\<rbrakk> \<Longrightarrow>
   notify_loop h leader rc (map (Pair Link_Ok) (as @ b # cs)) = Some (Inl e, map f as @ b' # cs)"
proof (induction "as" arbitrary: rc)
  case Nil
  then show ?case using do_notify_Ok [of h b leader e b'] by (simp add: comp_def)
next
  case (Cons n "as")
  have "do_notify_leader_changed h leader Link_Ok n = Some ((0, False), f n)" using Cons.prems by (intro do_notify_Ok) simp
  then show ?case using Cons.IH [of "(0, snd rc + 1)"] Cons.prems by simp
qed

text \<open>Trackers that agree on the list of trackers, in which the leader has a valid address.\<close>

definition peers :: "ConnectionInfo list \<Rightarrow> nat \<Rightarrow> tracker_node list \<Rightarrow> bool" where
  "peers servers i nodes \<longleftrightarrow> distinct servers \<and> i < length servers \<and> address_ok (servers ! i) \<and>
     (\<forall>n \<in> set nodes. node_ok n \<and> tn_servers n = servers)"

lemma peers_body:
  "\<lbrakk>peers servers i nodes; n \<in> set nodes\<rbrakk> \<Longrightarrow>
   leader_of_body n (leader_body (servers ! i)) = Some (Inr (ci_ip_addr (servers ! i), ci_port (servers ! i), int i))"
  using leader_of_body_leader [of n i] by (auto simp: peers_def)

lemma notify_peer:
  assumes "peers servers i nodes" "n \<in> set nodes"
  shows "\<not> rival (servers ! i) n \<Longrightarrow> tracker_deal_notify_next_leader n (leader_body (servers ! i)) = Some (0, n\<lparr>tn_next_leader_index := int i\<rparr>)"
    and "rival (servers ! i) n \<Longrightarrow> tracker_deal_notify_next_leader n (leader_body (servers ! i)) =
      Some (EINVAL, n\<lparr>tn_if_leader_self := False, tn_leader_index := -1, tn_leader_chg_count := tn_leader_chg_count n + 1\<rparr>)"
  using peers_body [OF assms] by (auto simp: tracker_deal_notify_next_leader_def rival_def)

lemma rival_upd [simp]:
  "rival leader (n\<lparr>tn_next_leader_index := x\<rparr>) = rival leader n"
  "\<not> rival leader (n\<lparr>tn_if_leader_self := False, tn_leader_index := y, tn_leader_chg_count := c\<rparr>)"
  by (simp_all add: rival_def is_self_def)

definition stepped_down :: "tracker_node \<Rightarrow> tracker_node" where
  "stepped_down n = n\<lparr>tn_if_leader_self := False, tn_leader_index := -1, tn_leader_chg_count := tn_leader_chg_count n + 1\<rparr>"

lemma notified_peer_ok:
  assumes p: "peers servers i nodes" and n: "n \<in> set nodes"
  shows "\<not> rival (servers ! i) n \<Longrightarrow> node_ok (n\<lparr>tn_next_leader_index := int i\<rparr>)"
    and "rival (servers ! i) n \<Longrightarrow> node_ok (stepped_down n)"
  using notify_node_ok [OF _ notify_peer(1) [OF p n]] notify_node_ok [OF _ notify_peer(2) [OF p n]] p n
  by (simp_all add: peers_def stepped_down_def)

definition committed :: "ConnectionInfo list \<Rightarrow> nat \<Rightarrow> tracker_node \<Rightarrow> tracker_node" where
  "committed servers i n =
     (if is_self n (ci_ip_addr (servers ! i)) (ci_port (servers ! i))
      then n\<lparr>tn_leader_index := int i, tn_if_leader_self := True, tn_leader_chg_count := tn_leader_chg_count n + 1\<rparr>
      else n\<lparr>tn_leader_index := int i\<rparr>)"

lemma commit_peer:
  assumes "peers servers i nodes" "n \<in> set nodes" "tn_next_leader_index n = int i"
  shows "tracker_deal_commit_next_leader n (leader_body (servers ! i)) = Some (0, committed servers i n)"
  using peers_body [OF assms(1, 2)] assms(3) by (simp add: tracker_deal_commit_next_leader_def committed_def)

lemma peers_map:
  assumes "peers servers i nodes" "\<And>n. n \<in> set nodes \<Longrightarrow> node_ok (f n) \<and> same_conf n (f n)"
  shows "peers servers i (map f nodes)"
  using assms by (auto simp: peers_def same_conf_def)

lemma change_no_rival:
  assumes p: "peers servers i nodes" and ne: "nodes \<noteq> []" and free: "\<And>n. n \<in> set nodes \<Longrightarrow> \<not> rival (servers ! i) n"
  shows "relationship_notify_leader_changed (servers ! i) (replicate (length nodes) Link_Ok) (replicate (length nodes) Link_Ok) nodes =
    Some (0, map (\<lambda>n. committed servers i (n\<lparr>tn_next_leader_index := int i\<rparr>)) nodes)"
proof -
  let ?mark = "\<lambda>n. n\<lparr>tn_next_leader_index := int i\<rparr>"
  have l1: "notify_loop tracker_deal_notify_next_leader (servers ! i) (ENOENT, 0) (map (Pair Link_Ok) nodes) =
      Some (Inr (0, length nodes), map ?mark nodes)"
    using loop_all_ok [of nodes tracker_deal_notify_next_leader "servers ! i" ?mark "(ENOENT, 0)"] notify_peer(1) [OF p] free ne by simp
  have p': "peers servers i (map ?mark nodes)"
    using notified_peer_ok(1) [OF p] free by (intro peers_map [OF p]) (simp add: same_conf_def)
  have "tracker_deal_commit_next_leader n (leader_body (servers ! i)) = Some (0, committed servers i n)" if "n \<in> set (map ?mark nodes)" for n
    using that commit_peer [OF p' that] by auto
  then have l2: "notify_loop tracker_deal_commit_next_leader (servers ! i) (0, 0) (map (Pair Link_Ok) (map ?mark nodes)) =
      Some (Inr (0, length nodes), map (committed servers i) (map ?mark nodes))"
    using loop_all_ok [of "map ?mark nodes" tracker_deal_commit_next_leader "servers ! i" "committed servers i" "(0, 0)"] ne
    by simp
  have z: "zip (replicate (length nodes) Link_Ok) ns = map (Pair Link_Ok) ns" if "length ns = length nodes" for ns :: "tracker_node list"
    using that by (simp add: zip_replicate1)
  show ?thesis using l1 l2 ne by (simp add: relationship_notify_leader_changed_def z comp_def)
qed

lemma change_rival:
  assumes p: "peers servers i (as @ b # cs)" and free: "\<And>n. n \<in> set as \<Longrightarrow> \<not> rival (servers ! i) n" and b: "rival (servers ! i) b"
  shows "relationship_notify_leader_changed (servers ! i) (replicate (length (as @ b # cs)) Link_Ok) links (as @ b # cs) =
    Some (EINVAL, map (\<lambda>n. n\<lparr>tn_next_leader_index := int i\<rparr>) as @ stepped_down b # cs)"
proof -
  have "notify_loop tracker_deal_notify_next_leader (servers ! i) (ENOENT, 0) (map (Pair Link_Ok) (as @ b # cs)) =
      Some (Inl EINVAL, map (\<lambda>n. n\<lparr>tn_next_leader_index := int i\<rparr>) as @ stepped_down b # cs)"
  proof (rule loop_first_fail)
    show "tracker_deal_notify_next_leader b (leader_body (servers ! i)) = Some (EINVAL, stepped_down b)"
      using notify_peer(2) [OF p _ b] by (simp add: stepped_down_def)
  qed (use notify_peer(1) [OF p] free in auto)
  then show ?thesis by (simp add: relationship_notify_leader_changed_def zip_replicate1 min_def del: replicate.simps)
qed

text \<open>C14. With every tracker in reach, announcing a leader succeeds after at most one failed attempt for each tracker that
  still believes to be the leader: such a tracker refuses the announcement once and steps down. Afterwards all
  trackers have the announced leader, and a tracker believes to be the leader exactly when it is that one.\<close>

theorem leader_change_retry:
  assumes "peers servers i nodes" "nodes \<noteq> []"
  shows "\<exists>nodes'. change_attempts (servers ! i) (Suc (length (filter (rival (servers ! i)) nodes))) nodes = Some (0, nodes') \<and>
    length nodes' = length nodes \<and>
    (\<forall>n \<in> set nodes'. tn_leader_index n = int i \<and>
       (tn_if_leader_self n \<longleftrightarrow> is_self n (ci_ip_addr (servers ! i)) (ci_port (servers ! i))))"
  using assms
proof (induction "length (filter (rival (servers ! i)) nodes)" arbitrary: nodes)
  case 0
  then have free: "\<And>n. n \<in> set nodes \<Longrightarrow> \<not> rival (servers ! i) n" by (auto simp: filter_empty_conv)
  show ?case
    using change_no_rival [OF 0(2,3) free] 0(1) free
    by (auto simp: committed_def rival_def is_self_def)
next
  case (Suc m)
  then have "\<exists>b \<in> set nodes. rival (servers ! i) b" by (metis filter_False list.size(3) nat.distinct(1))
  then obtain "as" b cs where nodes: "nodes = as @ b # cs" and b: "rival (servers ! i) b" and free: "\<forall>n \<in> set as. \<not> rival (servers ! i) n"
    using split_list_first_prop [of nodes "rival (servers ! i)"] by blast
  let ?nodes = "map (\<lambda>n. n\<lparr>tn_next_leader_index := int i\<rparr>) as @ stepped_down b # cs"
  have step: "change_attempts (servers ! i) (Suc (Suc k)) nodes = change_attempts (servers ! i) (Suc k) ?nodes" for k
    using change_rival [OF Suc.prems(1) [unfolded nodes] _ b] free by (simp add: nodes)
  have "rival (servers ! i) (stepped_down b) = False" by (simp add: stepped_down_def)
  moreover have "filter (rival (servers ! i)) as = []" "filter (rival (servers ! i)) (map (\<lambda>n. n\<lparr>tn_next_leader_index := int i\<rparr>) as) = []"
    using free by (auto simp: filter_empty_conv)
  ultimately have m: "m = length (filter (rival (servers ! i)) ?nodes)" using Suc(2) b by (simp add: nodes)
  have "node_ok (stepped_down b)" "\<forall>n \<in> set as. node_ok (n\<lparr>tn_next_leader_index := int i\<rparr>)"
    using notified_peer_ok [OF Suc.prems(1)] free b by (simp_all add: nodes)
  then have "peers servers i ?nodes" using Suc.prems(1) by (auto simp: peers_def nodes stepped_down_def)
  moreover have "length ?nodes = length nodes" by (simp add: nodes)
  ultimately show ?case
    using Suc.hyps(1) [OF m] unfolding m [symmetric] Suc(2) [symmetric] step by (metis append_is_Nil_conv list.distinct(1))
qed

theorem leader_change_retry_witness:
  "\<exists>nodes'. change_attempts (demo_servers ! 1) 2 demo_nodes = Some (0, nodes') \<and> length nodes' = 3 \<and>
    (\<forall>n \<in> set nodes'. tn_leader_index n = 1 \<and> (tn_if_leader_self n \<longleftrightarrow> is_self n [50] 23))"
proof -
  have "address_ok (demo_servers ! 1)" "distinct demo_servers" "\<forall>n \<in> set demo_nodes. node_ok n \<and> tn_servers n = demo_servers"
    by code_simp+
  then have p: "peers demo_servers 1 demo_nodes" by (simp add: peers_def demo_length)
  have r: "length (filter (rival (demo_servers ! 1)) demo_nodes) = 1" by code_simp
  have a: "ci_ip_addr (demo_servers ! 1) = [50]" "ci_port (demo_servers ! 1) = 23" by (simp_all add: demo_servers_def)
  have "demo_nodes \<noteq> []" by (simp add: demo_nodes_def)
  from leader_change_retry [OF p this, unfolded r a demo_length] show ?thesis by (simp only: numeral_2_eq_2 One_nat_def of_nat_Suc of_nat_0 add_0_right int_ops(1))
qed

section \<open>The trackers over time\<close>

text \<open>
  The trackers, each with the failure counter of its thread. They change when storage servers join and name
  trackers, when a request about the leader arrives from anywhere, when the thread of a tracker makes a round,
  and when the rest of a tracker changes its groups. A status that a tracker hears comes from one of the
  trackers in its list.
\<close>

type_synonym trackers = "(nat \<times> tracker_node) list"

inductive trackers_step :: "trackers \<Rightarrow> trackers \<Rightarrow> bool" where
  join: "\<lbrakk>k < length s; trackers \<noteq> []; length trackers \<le> FDFS_MAX_TRACKERS; join_tracker_servers mem trackers (snd (s ! k)) = (r, n)\<rbrakk> \<Longrightarrow>
    trackers_step s (s[k := (fst (s ! k), n)])"
| notify: "\<lbrakk>k < length s; tracker_deal_notify_next_leader (snd (s ! k)) body = Some (r, n)\<rbrakk> \<Longrightarrow>
    trackers_step s (s[k := (fst (s ! k), n)])"
| commit: "\<lbrakk>k < length s; tracker_deal_commit_next_leader (snd (s ! k)) body = Some (r, n)\<rbrakk> \<Longrightarrow>
    trackers_step s (s[k := (fst (s ! k), n)])"
| round: "\<lbrakk>k < length s; length (ri_notify_links ri) = length s; length (ri_commit_links ri) = length s;
    \<forall>st. Inr st \<in> set (ri_answers ri) \<longrightarrow> ts_pTrackerServer st < length (tn_servers (snd (s ! k)));
    relationship_thread_round env ri k (fst (s ! k), map snd s) = Some (c, nodes)\<rbrakk> \<Longrightarrow>
    trackers_step s ((zip (map fst s) nodes)[k := (c, nodes ! k)])"
| groups: "k < length s \<Longrightarrow> trackers_step s (s[k := (fst (s ! k), (snd (s ! k))\<lparr>tn_groups := gs\<rparr>)])"

definition started :: "tracker_node \<Rightarrow> bool" where
  "started n \<longleftrightarrow> tn_servers n = [] \<and> \<not> tn_last_servers n \<and> tn_leader_index n = -1 \<and> tn_next_leader_index n = -1 \<and>
     \<not> tn_if_leader_self n \<and> tn_leader_chg_count n = 0"

inductive trackers_reachable :: "trackers \<Rightarrow> bool" where
  start: "\<forall>p \<in> set s. fst p = 0 \<and> started (snd p) \<Longrightarrow> trackers_reachable s"
| step: "\<lbrakk>trackers_reachable s; trackers_step s s'\<rbrakk> \<Longrightarrow> trackers_reachable s'"

definition tracker_ok :: "tracker_node \<Rightarrow> bool" where
  "tracker_ok n \<longleftrightarrow> node_ok n \<and> length (tn_servers n) \<le> FDFS_MAX_TRACKERS"

lemma tracker_ok_same: "\<lbrakk>tracker_ok n; node_ok n' \<and> same_conf n n'\<rbrakk> \<Longrightarrow> tracker_ok n'"
  by (simp add: tracker_ok_def same_conf_def)

lemma tracker_ok_upd [simp]:
  "tracker_ok (n\<lparr>tn_groups := gs\<rparr>) = tracker_ok n"
  "tracker_ok (n\<lparr>tn_last_servers := b\<rparr>) = tracker_ok n"
  by (simp_all add: tracker_ok_def node_ok_def self_at_def is_self_def)

lemma join_tracker_ok:
  assumes ok: "tracker_ok n" and t: "length trackers \<le> FDFS_MAX_TRACKERS" and j: "join_tracker_servers mem trackers n = (r, n')"
  shows "tracker_ok n'"
proof -
  consider "n' = n" | "tn_servers n = []" "n' = n\<lparr>tn_servers := trackers\<rparr>"
    | added where "n' = n\<lparr>tn_last_servers := True, tn_servers := tn_servers n @ added\<rparr>" "length (tn_servers n) + length added \<le> FDFS_MAX_TRACKERS"
    using j by (auto simp: join_tracker_servers_def tracker_mem_first_add_tracker_servers_def tracker_mem_check_add_tracker_servers_def
        Let_def not_less split: if_splits)
  then show ?thesis
    by cases (use ok t in \<open>auto simp: tracker_ok_def node_ok_def self_at_def is_self_def nth_append\<close>)
qed

lemma ping_round_ok:
  assumes "tracker_ok n" "relationship_ping_round reply (c, n) = (c', n')"
  shows "tracker_ok n'"
  using assms
  by (auto simp: relationship_ping_round_def relationship_ping_leader_def split: if_splits prod.splits)
     (auto simp: tracker_ok_def node_ok_def self_at_def is_self_def)

lemma select_ok:
  assumes r: "relationship_select_leader env answers ls ls' me nodes = Some (e, nodes')"
    and len: "length ls = length nodes" "length ls' = length nodes" and me: "me < length nodes" "tn_leader_index (nodes ! me) < 0"
    and st: "\<forall>st. Inr st \<in> set answers \<longrightarrow> ts_pTrackerServer st < length (tn_servers (nodes ! me))"
    and ok: "\<forall>n \<in> set nodes. tracker_ok n"
  shows "length nodes' = length nodes \<and> (\<forall>n \<in> set nodes'. tracker_ok n)"
proof -
  let ?n = "nodes ! me"
  have okn: "tracker_ok (nodes ! j)" "node_ok (nodes ! j)" if "j < length nodes" for j
    using ok nth_mem [OF that] by (simp_all add: tracker_ok_def)
  have follow: "tracker_ok (?n\<lparr>tn_leader_index := x\<rparr>)"
    if "-1 \<le> x" "x < int (length (tn_servers ?n))" "0 \<le> x \<Longrightarrow> \<not> self_at ?n x" for x
    using that okn [OF me(1)] me(2) by (simp add: tracker_ok_def node_ok_def self_at_def is_self_def)
  have change: "length nodes1 = length nodes \<and> (\<forall>n \<in> set nodes1. tracker_ok n)"
    if c: "relationship_notify_leader_changed leader ls ls' nodes = Some (x, nodes1)" for leader x nodes1
  proof -
    have "length nodes1 = length nodes"
      using leader_change_keeps [OF c len me(1) okn(2) [OF me(1)]] by simp
    moreover have "tracker_ok (nodes1 ! j)" if "j < length nodes" for j
      by (rule tracker_ok_same [OF okn(1) [OF that]]) (use leader_change_keeps [OF c len that okn(2) [OF that]] in simp)
    ultimately show ?thesis by (simp add: all_set_conv_all_nth)
  qed
  consider "nodes' = nodes" | leader x where "relationship_notify_leader_changed leader ls ls' nodes = Some (x, nodes')"
    | leader nodes1 where "relationship_notify_leader_changed leader ls ls' nodes = Some (0, nodes1)"
        "nodes' = nodes1[me := find_trunk_servers env (nodes1 ! me)]"
    | sel where "relationship_get_tracker_leader (tn_servers ?n) answers = Inr sel" "\<not> self_at ?n (int (ts_pTrackerServer sel))"
        "nodes' = nodes[me := ?n\<lparr>tn_leader_index := -1\<rparr>] \<or> nodes' = nodes[me := ?n\<lparr>tn_leader_index := int (ts_pTrackerServer sel)\<rparr>]"
    using r by (auto simp: relationship_select_leader_def self_at_def Let_def split: if_splits sum.splits option.splits)
  then show ?thesis
  proof cases
    case 3
    have "tracker_ok (find_trunk_servers env (nodes1 ! me))" using change [OF 3(1)] me(1) by (simp add: find_trunk_servers_def)
    then show ?thesis using change [OF 3(1)] by (auto simp: 3(2) dest!: set_update_subset_insert [THEN subsetD])
  next
    case 4
    have "ts_pTrackerServer sel < length (tn_servers ?n)" using get_leader_in [OF 4(1)] st by blast
    then have "tracker_ok (?n\<lparr>tn_leader_index := int (ts_pTrackerServer sel)\<rparr>)" "tracker_ok (?n\<lparr>tn_leader_index := -1\<rparr>)"
      using follow 4(2) by simp_all
    then show ?thesis using 4(3) ok by (auto dest!: set_update_subset_insert [THEN subsetD])
  qed (use change ok in auto)
qed

lemma set_update_all: "\<lbrakk>\<forall>x \<in> set xs. P x; P y\<rbrakk> \<Longrightarrow> \<forall>x \<in> set (xs[k := y]). P x"
  using set_update_subset_insert [of xs k y] by blast

lemma round_ok:
  assumes r: "relationship_thread_round env ri me (c, nodes) = Some (c', nodes')"
    and len: "length (ri_notify_links ri) = length nodes" "length (ri_commit_links ri) = length nodes" and me: "me < length nodes"
    and st: "\<forall>st. Inr st \<in> set (ri_answers ri) \<longrightarrow> ts_pTrackerServer st < length (tn_servers (nodes ! me))"
    and ok: "\<forall>n \<in> set nodes. tracker_ok n"
  shows "length nodes' = length nodes \<and> (\<forall>n \<in> set nodes'. tracker_ok n)"
proof -
  consider "nodes' = nodes[me := (nodes ! me)\<lparr>tn_last_servers := False\<rparr>]"
    | e nodes1 where "tn_leader_index (nodes ! me) < 0"
        "relationship_select_leader env (ri_answers ri) (ri_notify_links ri) (ri_commit_links ri) me nodes = Some (e, nodes1)"
        "nodes' = nodes1[me := (nodes1 ! me)\<lparr>tn_last_servers := False\<rparr>]"
    | n where "relationship_ping_round (ri_ping ri) (c, nodes ! me) = (c', n)"
        "nodes' = nodes[me := n\<lparr>tn_last_servers := False\<rparr>]"
    using r me by (auto simp: relationship_thread_round_def split: if_splits prod.splits)
  then show ?thesis
  proof cases
    case 1
    then show ?thesis using set_update_all [OF ok, of "(nodes ! me)\<lparr>tn_last_servers := False\<rparr>" me] ok me by simp
  next
    case 2
    note s = select_ok [OF 2(2) len me 2(1) st ok]
    then show ?thesis using set_update_all [of nodes1 tracker_ok "(nodes1 ! me)\<lparr>tn_last_servers := False\<rparr>" me] me by (simp add: 2(3))
  next
    case 3
    have "tracker_ok n" using ping_round_ok [OF _ 3(1)] ok me by simp
    then show ?thesis using set_update_all [OF ok, of "n\<lparr>tn_last_servers := False\<rparr>" me] by (simp add: 3(2))
  qed
qed

lemma step_ok:
  assumes step: "trackers_step s s'" and ok: "\<forall>p \<in> set s. tracker_ok (snd p)"
  shows "\<forall>p \<in> set s'. tracker_ok (snd p)"
proof -
  have old: "tracker_ok (snd (s ! k))" "node_ok (snd (s ! k))" if "k < length s" for k
    using ok nth_mem [OF that] by (auto simp: tracker_ok_def)
  have upd: "\<forall>p \<in> set (s[k := (c, n)]). tracker_ok (snd p)" if "tracker_ok n" for k c n
    by (rule set_update_all [OF ok]) (simp add: that)
  from step show ?thesis
  proof (cases rule: trackers_step.cases)
    case (join k trackers mem r n)
    show ?thesis unfolding join(1) by (rule upd) (rule join_tracker_ok [OF old(1) [OF join(2)] join(4,5)])
  next
    case (notify k body r n)
    show ?thesis unfolding notify(1)
      by (rule upd) (rule tracker_ok_same [OF old(1) [OF notify(2)] notify_node_ok [OF old(2) [OF notify(2)] notify(3)]])
  next
    case (commit k body r n)
    show ?thesis unfolding commit(1)
      by (rule upd) (rule tracker_ok_same [OF old(1) [OF commit(2)] commit_node_ok [OF old(2) [OF commit(2)] commit(3)]])
  next
    case (round k ri env c nodes)
    have "length nodes = length s \<and> (\<forall>n \<in> set nodes. tracker_ok n)" using round_ok [OF round(6)] round(2-5) ok by simp
    then have "\<forall>p \<in> set (zip (map fst s) nodes). tracker_ok (snd p)" "tracker_ok (nodes ! k)" using round(2) by (auto dest: set_zip_rightD)
    then show ?thesis unfolding round(1) by (intro set_update_all) simp_all
  next
    case (groups k gs)
    show ?thesis unfolding groups(1) by (rule upd) (simp add: old(1) [OF groups(2)])
  qed
qed

lemma reachable_ok: "trackers_reachable s \<Longrightarrow> \<forall>p \<in> set s. tracker_ok (snd p)"
proof (induction rule: trackers_reachable.induct)
  case (start s)
  then show ?case by (auto simp: started_def tracker_ok_def node_ok_def)
qed (rule step_ok)

text \<open>C13. At every moment the leader of a tracker is unknown or a place of its list of at most 16 trackers, the same holds of
  the next leader, and the tracker believes to be the leader exactly when the leader it knows has its own
  address; whatever joins, requests, lost messages, rounds and elections came before. The addresses of the machine itself are taken as fixed.\<close>

theorem leader_known_self:
  assumes "trackers_reachable s" "p \<in> set s"
  shows "let n = snd p in length (tn_servers n) \<le> 16 \<and>
    tn_leader_index n \<in> {-1..<int (length (tn_servers n))} \<and> tn_next_leader_index n \<in> {-1..<int (length (tn_servers n))} \<and>
    (tn_if_leader_self n \<longleftrightarrow> 0 \<le> tn_leader_index n \<and>
       is_self n (ci_ip_addr (tn_servers n ! nat (tn_leader_index n))) (ci_port (tn_servers n ! nat (tn_leader_index n))))"
  using reachable_ok [OF assms(1)] assms(2) by (auto simp: tracker_ok_def node_ok_def self_at_def Let_def)

definition demo_start :: "trackers" where
  "demo_start = map (\<lambda>k. (0, (demo_node k (-1))\<lparr>tn_servers := []\<rparr>)) [49, 50]"

definition demo_joined :: "trackers" where
  "demo_joined = demo_start[1 := (0, demo_node 50 (-1))]"

definition demo_elected :: "trackers" where
  "demo_elected = demo_joined[1 := (0, (demo_node 50 (-1))\<lparr>tn_next_leader_index := 1\<rparr>)]"

definition demo_leading :: "trackers" where
  "demo_leading = demo_elected[1 := (0, (demo_node 50 1)\<lparr>tn_leader_chg_count := 1\<rparr>)]"

lemma demo_reachable: "trackers_reachable demo_leading"
proof -
  have 0: "trackers_reachable demo_start"
    by (rule trackers_reachable.start) (simp add: demo_start_def started_def demo_node_def)
  have "trackers_step demo_start (demo_start[1 := (fst (demo_start ! 1), demo_node 50 (-1))])"
    by (rule trackers_step.join [where trackers = demo_servers and mem = 0 and r = 0])
      (simp_all add: demo_start_def demo_length join_tracker_servers_def tracker_mem_first_add_tracker_servers_def demo_servers_def demo_node_def)
  then have 1: "trackers_reachable demo_joined"
    using trackers_reachable.step [OF 0] by (simp add: demo_joined_def demo_start_def)
  have "tracker_deal_notify_next_leader (demo_node 50 (-1)) (leader_body (demo_servers ! 1)) =
      Some (0, (demo_node 50 (-1))\<lparr>tn_next_leader_index := 1\<rparr>)" by code_simp
  then have "trackers_step demo_joined (demo_joined[1 := (fst (demo_joined ! 1), (demo_node 50 (-1))\<lparr>tn_next_leader_index := 1\<rparr>)])"
    by (intro trackers_step.notify [where body = "leader_body (demo_servers ! 1)" and r = 0]) (simp_all add: demo_joined_def demo_start_def)
  then have 2: "trackers_reachable demo_elected"
    using trackers_reachable.step [OF 1] by (simp add: demo_elected_def demo_joined_def demo_start_def)
  have "tracker_deal_commit_next_leader ((demo_node 50 (-1))\<lparr>tn_next_leader_index := 1\<rparr>) (leader_body (demo_servers ! 1)) =
      Some (0, (demo_node 50 1)\<lparr>tn_leader_chg_count := 1\<rparr>)" by code_simp
  then have "trackers_step demo_elected (demo_elected[1 := (fst (demo_elected ! 1), (demo_node 50 1)\<lparr>tn_leader_chg_count := 1\<rparr>)])"
    by (intro trackers_step.commit [where body = "leader_body (demo_servers ! 1)" and r = 0]) (simp_all add: demo_elected_def demo_joined_def demo_start_def)
  then show ?thesis
    using trackers_reachable.step [OF 2] by (simp add: demo_leading_def demo_elected_def demo_joined_def demo_start_def)
qed

theorem leader_known_self_witness:
  "tn_if_leader_self (snd (demo_leading ! 1)) \<longleftrightarrow> is_self (snd (demo_leading ! 1)) [50] 23"
proof -
  have n: "demo_leading ! 1 = (0, (demo_node 50 1)\<lparr>tn_leader_chg_count := 1\<rparr>)"
    by (simp add: demo_leading_def demo_elected_def demo_joined_def demo_start_def)
  have "demo_leading ! 1 \<in> set demo_leading"
    by (intro nth_mem) (simp add: demo_leading_def demo_elected_def demo_joined_def demo_start_def)
  from leader_known_self [OF demo_reachable this] show ?thesis
    unfolding Let_def n by (simp add: demo_node_def demo_servers_def)
qed

text \<open>
  The counter of failed pings is not reset when a leader is dropped: after that, the first failed ping drops
  the next leader as well, instead of the third.
\<close>

theorem stale_fail_count:
  assumes "2 \<le> c" "\<not> tn_if_leader_self n"
  shows "relationship_ping_round (Inl e) (c, n) = (if e = 0 \<and> 0 \<le> tn_leader_index n then (0, n) else (c + 1, n\<lparr>tn_leader_index := -1\<rparr>))"
  using assms by (simp add: relationship_ping_round_def relationship_ping_leader_def fdfs_ping_leader_def)

end
