(* ===== verification/Tracker_Fetch.thy ===== *)
theory Tracker_Fetch
  imports Tracker_Props
begin

text \<open>
  The servers that the tracker names for a file: they are active, the one for a download has the file when its source
  is active, downloads of old files go to the servers in turn; and a query for all servers that misses the source.
\<close>

section \<open>Servers named are active\<close>

lemma lookup_active:
  assumes "group_inv g"
  shows "tracker_mem_get_active_storage_by_id g (Some sid) = Some p \<Longrightarrow> p \<in> set (gi_active_servers g)"
    and "tracker_mem_get_active_storage_by_ip env g ip = Some p \<Longrightarrow> p \<in> set (gi_active_servers g)"
  using assms get_active_storage_iff [of g] active_set [of g]
  by (auto simp: tracker_mem_get_active_storage_by_ip_def group_inv_def split: if_splits option.splits)

lemma source_active:
  assumes "group_inv g" "source_server env g fs = Some p"
  shows "p \<in> set (gi_active_servers g)"
  using assms(2) lookup_active [OF assms(1)] by (auto simp: source_server_def split: if_splits)

lemma turn_active:
  assumes "group_inv g" "gi_active_servers g \<noteq> []"
  shows "gi_active_servers g ! nat (if gi_current_read_server g \<ge> int (length (gi_active_servers g)) then 0 else gi_current_read_server g)
    \<in> set (gi_active_servers g)"
  using assms by (intro nth_mem) (auto simp: group_inv_def size_ok_def nat_less_iff)

lemma fetch_choice_active:
  assumes "group_inv g" "p \<in> set (gi_active_servers g)" "store \<in> set (gi_active_servers g)"
  shows "fetch_choice env sd d g fs store p \<in> set (gi_active_servers g)"
  using assms source_active [OF assms(1)] by (auto simp: fetch_choice_def split: option.split)

lemma fetch_one_active:
  assumes "group_inv g" "gi_active_servers g \<noteq> []" "gi_pStoreServer g = Some store"
  shows "fst (fetch_one env sd d g fs store) \<in> set (gi_active_servers g)"
proof -
  have "store \<in> set (gi_active_servers g)" using assms(1,3) by (simp add: group_inv_def store_ok_def)
  then show ?thesis
    using fetch_choice_active [OF assms(1) turn_active [OF assms(1,2)]] source_active [OF assms(1)]
    by (auto simp: fetch_one_def Let_def split: option.split)
qed

lemma fetch_update_active:
  assumes "group_inv g" "gi_active_servers g \<noteq> []"
  shows "\<exists>p. fst (fetch_update env g fs) = Some p \<and> p \<in> set (gi_active_servers g)"
proof -
  have "\<exists>p. fst (tracker_get_writable_storage env g) = Some p \<and> p \<in> set (gi_active_servers g)"
  proof (cases "g_store_server env = FDFS_STORE_SERVER_ROUND_ROBIN")
    case True
    have "gi_active_servers g ! nat (if gi_current_write_server g \<ge> int (length (gi_active_servers g)) then 0 else gi_current_write_server g)
      \<in> set (gi_active_servers g)"
      using assms by (intro nth_mem) (auto simp: group_inv_def size_ok_def nat_less_iff)
    with True show ?thesis by (simp add: tracker_get_writable_storage_def Let_def)
  next
    case False
    then show ?thesis using assms by (cases "gi_pStoreServer g") (auto simp: tracker_get_writable_storage_def group_inv_def store_ok_def)
  qed
  then show ?thesis using source_active [OF assms(1)] by (auto simp: fetch_update_def split: option.split)
qed

lemma fetch_all_active:
  assumes "group_inv g" "gi_pStoreServer g = Some store"
  shows "fetch_all env sd g fs store \<noteq> [] \<and> distinct (fetch_all env sd g fs store) \<and> set (fetch_all env sd g fs store) \<subseteq> set (gi_active_servers g)"
proof -
  have "distinct (gi_active_servers g)"
    using assms(1) sorted_key_distinct [of "\<lambda>i. sd_id (srv g i)" "gi_active_servers g"] by (auto simp: group_inv_def active_ok_def distinct_map)
  moreover have "store \<in> set (gi_active_servers g)" using assms by (simp add: group_inv_def store_ok_def)
  ultimately show ?thesis using lookup_active [OF assms(1)] by (auto simp: fetch_all_def Let_def split: option.split)
qed

lemma by_filename_cases:
  assumes "tracker_mem_get_storage_by_filename env sd stk gs cmd name filename = Some (Inr (k, servers), gs')"
  obtains store where "tracker_mem_get_group_ex gs name = Some k" "gi_active_servers (grp gs k) \<noteq> []" "gi_pStoreServer (grp gs k) = Some store"
    "cmd = QUERY_FETCH_ONE \<Longrightarrow> servers = [fst (fetch_one env sd (gs_download_server gs) (grp gs k) (file_source_of stk filename) store)]"
    "cmd = QUERY_UPDATE \<Longrightarrow> fst (fetch_update env (grp gs k) (file_source_of stk filename)) = Some (hd servers) \<and> tl servers = [] \<and> servers \<noteq> []"
    "cmd = QUERY_FETCH_ALL \<Longrightarrow> servers = fetch_all env sd (grp gs k) (file_source_of stk filename) store"
  using assms that
  by (cases cmd) (auto simp: tracker_mem_get_storage_by_filename_def Let_def case_prod_unfold split: option.splits if_splits)

lemma by_filename_active:
  assumes inv: "group_inv (grp gs k)"
    and r: "tracker_mem_get_storage_by_filename env sd stk gs cmd name filename = Some (Inr (k, servers), gs')"
  shows "servers \<noteq> [] \<and> distinct servers \<and> set servers \<subseteq> set (gi_active_servers (grp gs k)) \<and> (cmd \<noteq> QUERY_FETCH_ALL \<longrightarrow> length servers = 1)"
  using r
proof (rule by_filename_cases)
  let ?fs = "file_source_of stk filename"
  fix store assume a: "gi_active_servers (grp gs k) \<noteq> []" and st: "gi_pStoreServer (grp gs k) = Some store"
    and one: "cmd = QUERY_FETCH_ONE \<Longrightarrow> servers = [fst (fetch_one env sd (gs_download_server gs) (grp gs k) ?fs store)]"
    and upd: "cmd = QUERY_UPDATE \<Longrightarrow> fst (fetch_update env (grp gs k) ?fs) = Some (hd servers) \<and> tl servers = [] \<and> servers \<noteq> []"
    and all: "cmd = QUERY_FETCH_ALL \<Longrightarrow> servers = fetch_all env sd (grp gs k) ?fs store"
  show ?thesis
  proof (cases cmd)
    case QUERY_FETCH_ONE
    then show ?thesis using one fetch_one_active [OF inv a st] by simp
  next
    case QUERY_UPDATE
    then show ?thesis using upd fetch_update_active [OF inv a, of env ?fs] by (cases servers) auto
  next
    case QUERY_FETCH_ALL
    then show ?thesis using all fetch_all_active [OF inv st] by simp
  qed
qed

lemma fetch_answer:
  assumes reach: "tracker_reachable gs" and r: "tracker_mem_get_storage_by_filename env sd stk gs cmd name filename = Some (r, gs')"
  shows "if \<exists>k < length (gs_groups gs). gi_group_name (grp gs k) = name \<and> gi_active_servers (grp gs k) \<noteq> []
    then \<exists>k servers. r = Inr (k, servers) \<and> k < length (gs_groups gs) \<and> gi_group_name (grp gs k) = name \<and> servers \<noteq> [] \<and> distinct servers \<and>
      (\<forall>p \<in> set servers. p < srv_count (grp gs k) \<and> sd_status (srv (grp gs k) p) = FDFS_STORAGE_STATUS_ACTIVE) \<and>
      (cmd \<noteq> QUERY_FETCH_ALL \<longrightarrow> length servers = 1)
    else r = Inl ENOENT"
proof -
  have gi: "groups_inv gs" using reachable_inv [OF reach] by (simp add: tracker_inv_def)
  have lookup: "tracker_mem_get_group_ex gs name = Some k \<longleftrightarrow> k < length (gs_groups gs) \<and> gi_group_name (grp gs k) = name" for k
    by (rule get_group_iff [OF gi])
  show ?thesis
  proof (cases "\<exists>k < length (gs_groups gs). gi_group_name (grp gs k) = name \<and> gi_active_servers (grp gs k) \<noteq> []")
    case True
    then obtain k where k: "k < length (gs_groups gs)" "gi_group_name (grp gs k) = name" "gi_active_servers (grp gs k) \<noteq> []" by blast
    have inv: "group_inv (grp gs k)" by (rule groups_inv_grp [OF gi k(1)])
    then obtain store where store: "gi_pStoreServer (grp gs k) = Some store" using k(3) by (auto simp: group_inv_def store_ok_def)
    have "tracker_mem_get_group_ex gs name = Some k" using lookup k by simp
    then obtain servers where servers: "r = Inr (k, servers)"
      using r k store fetch_update_active [OF inv k(3), of env "file_source_of stk filename"]
      by (cases cmd) (auto simp: tracker_mem_get_storage_by_filename_def Let_def case_prod_unfold split: option.splits if_splits)
    note by_filename_active [OF inv r [unfolded servers]]
    moreover have "p < srv_count (grp gs k) \<and> sd_status (srv (grp gs k) p) = FDFS_STORAGE_STATUS_ACTIVE" if "p \<in> set (gi_active_servers (grp gs k))" for p
      using that active_set [OF inv] by blast
    ultimately show ?thesis using True servers k(1,2) by auto
  next
    case False
    then show ?thesis using r lookup by (auto simp: tracker_mem_get_storage_by_filename_def split: option.splits if_splits)
  qed
qed

text \<open>C9. In every state the tracker can reach, an answer to a download or update query names the group asked for and a
  non-empty list of different servers of it that are all active, one server unless all were asked for. Where no
  array is left, such an answer is given exactly when the group exists and has an active server; the only error is
  \<open>ENOENT\<close>.\<close>

theorem fetch_sound:
  assumes reach: "tracker_reachable gs" and r: "tracker_mem_get_storage_by_filename env sd stk gs cmd name filename = Some (r, gs')"
  shows "if \<exists>k < length (gs_groups gs). gi_group_name (grp gs k) = name \<and> gi_active_servers (grp gs k) \<noteq> []
    then \<exists>k servers. r = Inr (k, servers) \<and> k < length (gs_groups gs) \<and> gi_group_name (grp gs k) = name \<and> servers \<noteq> [] \<and> distinct servers \<and>
      (\<forall>p \<in> set servers. p < srv_count (grp gs k) \<and> sd_status (srv (grp gs k) p) = FDFS_STORAGE_STATUS_ACTIVE) \<and>
      (cmd \<noteq> QUERY_FETCH_ALL \<longrightarrow> length servers = 1)
    else r = Inl ENOENT"
  by (rule fetch_answer [OF assms])

section \<open>A concrete file\<close>

text \<open>Two active servers with the ids 1 and 2, and a fresh file whose name says that server 2 is its source.\<close>

definition demo_two :: FDFSGroups where
  "demo_two = demo_beat 1 (upd_grp 0 (snd (tracker_deal_storage_sync_notify (grp demo_one 0) 1 (replicate 24 0))) demo_one)"

definition demo_filename :: "byte list" where
  "demo_filename = [77, 48, 48, 47, 48, 48, 47, 48, 48, 47, 65, 103] @ replicate 25 65 @ [46, 116, 120, 116]"

definition demo_delay :: sync_delay where
  "demo_delay = \<lparr>g_storage_sync_file_max_delay = 86400, g_storage_sync_file_max_time = 2000\<rparr>"

lemma reachable_demo_two: "tracker_reachable demo_two"
proof -
  have "0 < length (gs_groups demo_one)" by code_simp
  then have "tracker_reachable (upd_grp 0 (snd (tracker_deal_storage_sync_notify (grp demo_one 0) 1 (replicate 24 0))) demo_one)"
    by (intro tracker_reachable.step [OF reachable_demo_one] tracker_step.group [OF ids_ok_demo] group_step.sync_notify)
  then show ?thesis unfolding demo_two_def by (rule reachable_demo_beat) (code_simp+)
qed

lemma demo_source:
  "file_source_of (replicate 64 0) demo_filename = \<lparr>fs_storage_ip = 2, fs_storage_id = [50], fs_timestamp = 0, fs_normal = True\<rparr>"
  by code_simp

lemma demo_two_state:
  "gi_active_servers (grp demo_two 0) = [0, 1]" "tracker_mem_get_group_ex demo_two [103] = Some 0"
  "gi_pStoreServer (grp demo_two 0) = Some 0" "gs_download_server demo_two = 0" "length (gs_groups demo_two) = 1"
  by code_simp+

theorem fetch_sound_witness:
  "\<exists>k servers. fst (the (tracker_mem_get_storage_by_filename demo_env demo_delay (replicate 64 0) demo_two QUERY_FETCH_ONE [103] demo_filename)) = Inr (k, servers) \<and>
     (\<forall>p \<in> set servers. sd_status (srv (grp demo_two k) p) = 7) \<and> length servers = 1"
proof -
  let ?r = "tracker_mem_get_storage_by_filename demo_env demo_delay (replicate 64 0) demo_two QUERY_FETCH_ONE [103] demo_filename"
  obtain r gs' where r: "?r = Some (r, gs')"
    by (simp add: tracker_mem_get_storage_by_filename_def demo_two_state case_prod_unfold Let_def)
  have "gi_group_name (grp demo_two 0) = [103]" by code_simp
  then have "\<exists>k < length (gs_groups demo_two). gi_group_name (grp demo_two k) = [103] \<and> gi_active_servers (grp demo_two k) \<noteq> []"
    by (intro exI [of _ 0]) (simp add: demo_two_state)
  with fetch_sound [OF reachable_demo_two r] show ?thesis unfolding r by auto
qed

section \<open>The server has the file\<close>

lemma has_file:
  assumes r: "tracker_mem_get_storage_by_filename env sd stk gs cmd name filename = Some (Inr (k, servers), gs')"
    and fs: "fs = file_source_of stk filename" "fs_storage_ip fs \<noteq> INADDR_NONE" and src: "source_server env (grp gs k) fs = Some q"
    and d: "gs_download_server gs \<in> {FDFS_DOWNLOAD_SERVER_ROUND_ROBIN, FDFS_DOWNLOAD_SERVER_SOURCE_FIRST}" and cmd: "cmd \<noteq> QUERY_FETCH_ALL"
  shows "\<exists>p. servers = [p] \<and> (p = q \<or> cmd = QUERY_FETCH_ONE \<and>
    (is_source fs (srv (grp gs k) p) \<or> fs_normal fs \<and> file_synced env sd fs (srv (grp gs k) p)))"
  using r
proof (rule by_filename_cases)
  fix store
  assume one: "cmd = QUERY_FETCH_ONE \<Longrightarrow> servers = [fst (fetch_one env sd (gs_download_server gs) (grp gs k) (file_source_of stk filename) store)]"
    and upd: "cmd = QUERY_UPDATE \<Longrightarrow> fst (fetch_update env (grp gs k) (file_source_of stk filename)) = Some (hd servers) \<and> tl servers = [] \<and> servers \<noteq> []"
  show ?thesis
  proof (cases cmd)
    case QUERY_FETCH_ONE
    then show ?thesis using one d src fs by (auto simp: fetch_one_def fetch_choice_def Let_def)
  next
    case QUERY_UPDATE
    then show ?thesis using upd src fs by (cases servers) (auto simp: fetch_update_def)
  qed (use cmd in simp)
qed

text \<open>C10. When the server that a file's name gives as its source is active, a query for a download or an update names a server
  that has the file: the source itself (by id or address), or, for a file that is never modified, a server that has been
  synchronised beyond the file's time or whose delay is over. A query for an update names the source.\<close>

theorem fetch_has_file:
  assumes r: "tracker_mem_get_storage_by_filename env sd stk gs cmd name filename = Some (Inr (k, servers), gs')"
    and fs: "fs = file_source_of stk filename" "fs_storage_ip fs \<noteq> INADDR_NONE" and src: "source_server env (grp gs k) fs = Some q"
    and d: "gs_download_server gs \<in> {FDFS_DOWNLOAD_SERVER_ROUND_ROBIN, FDFS_DOWNLOAD_SERVER_SOURCE_FIRST}" and cmd: "cmd \<noteq> QUERY_FETCH_ALL"
  shows "\<exists>p. servers = [p] \<and> (p = q \<or> cmd = QUERY_FETCH_ONE \<and>
    (is_source fs (srv (grp gs k) p) \<or> fs_normal fs \<and> file_synced env sd fs (srv (grp gs k) p)))"
  by (rule has_file [OF assms])

theorem fetch_has_file_witness:
  "\<exists>p. fst (the (tracker_mem_get_storage_by_filename demo_env demo_delay (replicate 64 0) demo_two QUERY_FETCH_ONE [103] demo_filename)) = Inr (0, [p]) \<and>
     (p = 1 \<or> is_source (file_source_of (replicate 64 0) demo_filename) (srv (grp demo_two 0) p))"
proof -
  let ?r = "tracker_mem_get_storage_by_filename demo_env demo_delay (replicate 64 0) demo_two QUERY_FETCH_ONE [103] demo_filename"
  let ?fs = "file_source_of (replicate 64 0) demo_filename"
  obtain servers gs' where r: "?r = Some (Inr (0, servers), gs')"
    by (simp add: tracker_mem_get_storage_by_filename_def demo_two_state case_prod_unfold Let_def)
  have src: "source_server demo_env (grp demo_two 0) ?fs = Some 1" unfolding demo_source by code_simp
  have "\<forall>p \<in> {0, 1}. \<not> file_synced demo_env demo_delay ?fs (srv (grp demo_two 0) p)" unfolding demo_source by code_simp
  moreover have "\<exists>p. servers = [p] \<and> p \<in> {0, 1}"
    using by_filename_active [OF _ r] groups_inv_grp [of demo_two 0] reachable_inv [OF reachable_demo_two]
    by (auto simp: tracker_inv_def demo_two_state length_Suc_conv)
  ultimately show ?thesis
    using fetch_has_file [OF r refl _ src] unfolding r by (auto simp: demo_source demo_two_state)
qed

text \<open>C38. A query for all servers of a file can leave its source out: when the name gives the source by its id, the id is taken for an
  address. So for a file that is never modified, while no active server is synchronised past its time and none has the address
  that the id spells, the query names the store server of the group alone. When the source is active and is not the store server it is
  missing from the answer, although a query for one server, for the same file in the same state, names a source of it.\<close>

theorem fetch_all_misses_source:
  assumes reach: "tracker_reachable gs"
    and r: "tracker_mem_get_storage_by_filename env sd stk gs QUERY_FETCH_ALL name filename = Some (Inr (k, servers), gs')"
    and fs: "fs = file_source_of stk filename" "fs_storage_id fs \<noteq> []" "fs_normal fs"
    and fresh: "\<forall>p \<in> set (gi_active_servers (grp gs k)). \<not> file_synced env sd fs (srv (grp gs k) p) \<and>
      sd_ip_addr (srv (grp gs k) p) \<noteq> inet_ntop (fs_storage_ip fs)"
    and src: "source_server env (grp gs k) fs = Some q" and other: "gi_pStoreServer (grp gs k) \<noteq> Some q"
    and d: "gs_download_server gs \<in> {FDFS_DOWNLOAD_SERVER_ROUND_ROBIN, FDFS_DOWNLOAD_SERVER_SOURCE_FIRST}"
  shows "(\<exists>store. gi_pStoreServer (grp gs k) = Some store \<and> servers = [store] \<and> q \<notin> set servers) \<and>
    (\<exists>p gs1. tracker_mem_get_storage_by_filename env sd stk gs QUERY_FETCH_ONE name filename = Some (Inr (k, [p]), gs1) \<and>
      (p = q \<or> is_source fs (srv (grp gs k) p)))"
proof
  have ip: "fs_storage_ip fs \<noteq> INADDR_NONE"
    using fs(2) by (auto simp: fs(1) file_source_of_def Let_def fdfs_get_server_id_type_def split: if_splits)
  show "\<exists>store. gi_pStoreServer (grp gs k) = Some store \<and> servers = [store] \<and> q \<notin> set servers"
    using r
  proof (rule by_filename_cases)
    fix store assume st: "gi_pStoreServer (grp gs k) = Some store"
      and all: "QUERY_FETCH_ALL = QUERY_FETCH_ALL \<Longrightarrow> servers = fetch_all env sd (grp gs k) (file_source_of stk filename) store"
    have "servers = [store]" using all fresh fs(1,3) ip by (simp add: fetch_all_def)
    with st other show ?thesis by auto
  qed
  have k: "tracker_mem_get_group_ex gs name = Some k" and one: "\<exists>ps gs1.
      tracker_mem_get_storage_by_filename env sd stk gs QUERY_FETCH_ONE name filename = Some (Inr (k, ps), gs1)"
    using r by (auto simp: tracker_mem_get_storage_by_filename_def Let_def case_prod_unfold split: option.splits if_splits)
  then obtain ps gs1 where o: "tracker_mem_get_storage_by_filename env sd stk gs QUERY_FETCH_ONE name filename = Some (Inr (k, ps), gs1)" by blast
  obtain p where p: "ps = [p]" "p = q \<or> is_source fs (srv (grp gs k) p) \<or> file_synced env sd fs (srv (grp gs k) p)"
    using has_file [OF o fs(1) ip src d] by auto
  have "groups_inv gs" using reachable_inv [OF reach] by (simp add: tracker_inv_def)
  with k have "group_inv (grp gs k)" using get_group_iff [of gs name k] groups_inv_grp by blast
  from by_filename_active [OF this o] p(1) fresh have "\<not> file_synced env sd fs (srv (grp gs k) p)" by auto
  with o p show "\<exists>p gs1. tracker_mem_get_storage_by_filename env sd stk gs QUERY_FETCH_ONE name filename = Some (Inr (k, [p]), gs1) \<and>
      (p = q \<or> is_source fs (srv (grp gs k) p))" by blast
qed

theorem fetch_all_misses_source_witness:
  "\<exists>servers gs'. tracker_mem_get_storage_by_filename demo_env demo_delay (replicate 64 0) demo_two QUERY_FETCH_ALL [103] demo_filename =
     Some (Inr (0, servers), gs') \<and> servers = [0] \<and> 1 \<notin> set servers \<and> source_server demo_env (grp demo_two 0) (file_source_of (replicate 64 0) demo_filename) = Some 1"
proof -
  let ?r = "tracker_mem_get_storage_by_filename demo_env demo_delay (replicate 64 0) demo_two QUERY_FETCH_ALL [103] demo_filename"
  have "map_option fst ?r = Some (Inr (0, [0]))" by code_simp
  then obtain servers gs' where r: "?r = Some (Inr (0, servers), gs')" by (cases ?r) auto
  have src: "source_server demo_env (grp demo_two 0) (file_source_of (replicate 64 0) demo_filename) = Some 1"
    unfolding demo_source by code_simp
  have "\<forall>p \<in> set (gi_active_servers (grp demo_two 0)).
      \<not> file_synced demo_env demo_delay (file_source_of (replicate 64 0) demo_filename) (srv (grp demo_two 0) p) \<and>
      sd_ip_addr (srv (grp demo_two 0) p) \<noteq> inet_ntop (fs_storage_ip (file_source_of (replicate 64 0) demo_filename))"
    unfolding demo_source by code_simp
  from fetch_all_misses_source [OF reachable_demo_two r refl _ _ this src] show ?thesis
    using r src by (auto simp: demo_source demo_two_state)
qed

section \<open>Listings and the buffer of the task\<close>

lemma length_pad [simp]: "length (pad n s) = n"
  by (simp add: pad_def)

lemma length_concat_const: "(\<And>x. x \<in> set xs \<Longrightarrow> length (f x) = n) \<Longrightarrow> length (concat (map f xs)) = n * length xs"
  by (induction xs) auto

lemma length_storage_stat_bytes: "length (storage_stat_bytes g p) = 600"
proof -
  have "length (stat_buff st) = 336" for st
    using length_concat_const [of "[0..<38]" "\<lambda>j. long2buff (st_counters st ! j)" 8] by (simp add: stat_buff_def)
  then show ?thesis by (simp add: storage_stat_bytes_def Let_def split: option.split)
qed

lemma length_group_stat_bytes: "length (group_stat_bytes g) = 105"
  by (simp add: group_stat_bytes_def)

lemma length_listings:
  "length (concat (map (storage_stat_bytes g) ps)) = 600 * length ps"
  "length (concat (map (\<lambda>k. group_stat_bytes (grp gs k)) ks)) = 105 * length ks"
  by (rule length_concat_const, rule length_storage_stat_bytes) (rule length_concat_const, rule length_group_stat_bytes)

lemma filter_key_le_1: "sorted_key key xs \<Longrightarrow> length (filter (\<lambda>x. v = key x) xs) \<le> 1"
  by (induction xs) (auto simp: filter_empty_conv)

lemma sorted_count: "sorted_ok g \<Longrightarrow> length (gi_sorted_servers g) = srv_count g"
  by (metis sorted_ok_def size_mset length_upt diff_zero)

text \<open>C39. The entries written for the servers of a group leave the task's buffer of 8192 bytes exactly when all servers of a group of 14 or more
  are asked for; no limit of the tracker keeps a group below that. The entries for all groups leave it exactly with 78
  or more groups. The numbers follow from the bytes of the entries: 600 for a server and 105 for a group, behind a header of 10.\<close>

theorem listing_leaves_buffer:
  assumes "tracker_reachable gs"
  shows "(tracker_deal_server_list_group_storages gs body = None \<longleftrightarrow> length body = 16 \<and>
      (\<exists>k < length (gs_groups gs). gi_group_name (grp gs k) = c_str body \<and> 14 \<le> srv_count (grp gs k))) \<and>
    (tracker_deal_server_list_all_groups gs body = None \<longleftrightarrow> body = [] \<and> 78 \<le> length (gs_groups gs))"
proof
  have gi: "groups_inv gs" using reachable_inv [OF assms] by (simp add: tracker_inv_def)
  have "length (gs_sorted_groups gs) = length (gs_groups gs)"
    using gi by (metis groups_inv_def size_mset length_upt diff_zero)
  then show "tracker_deal_server_list_all_groups gs body = None \<longleftrightarrow> body = [] \<and> 78 \<le> length (gs_groups gs)"
    by (auto simp: tracker_deal_server_list_all_groups_def Let_def length_listings)
  let ?name = "c_str (take 16 body)"
  show "tracker_deal_server_list_group_storages gs body = None \<longleftrightarrow> length body = 16 \<and>
      (\<exists>k < length (gs_groups gs). gi_group_name (grp gs k) = c_str body \<and> 14 \<le> srv_count (grp gs k))"
  proof (cases "tracker_mem_get_group_ex gs ?name")
    case None
    then have "\<not> (k < length (gs_groups gs) \<and> gi_group_name (grp gs k) = ?name)" for k using get_group_iff [OF gi, of ?name k] by simp
    then show ?thesis using None by (auto simp: tracker_deal_server_list_group_storages_def)
  next
    case (Some k)
    then have k: "k < length (gs_groups gs)" "gi_group_name (grp gs k) = ?name" using get_group_iff [OF gi] by simp_all
    have so: "sorted_ok (grp gs k)" using groups_inv_grp [OF gi k(1)] by (simp add: group_inv_def)
    have "length (filter (\<lambda>p. c_str (drop 16 body) = sd_id (srv (grp gs k) p)) (gi_sorted_servers (grp gs k))) \<le> 1"
      using filter_key_le_1 [of "\<lambda>i. sd_id (srv (grp gs k) i)" "gi_sorted_servers (grp gs k)"] so by (simp add: sorted_ok_def)
    then have few: "tracker_deal_server_list_group_storages gs body \<noteq> None" if "length body \<noteq> 16"
      using that Some by (simp add: tracker_deal_server_list_group_storages_def Let_def length_listings)
    have "(\<exists>j < length (gs_groups gs). gi_group_name (grp gs j) = ?name \<and> 14 \<le> srv_count (grp gs j)) \<longleftrightarrow> 14 \<le> srv_count (grp gs k)"
      using get_group_iff [OF gi, of ?name] Some k by (metis option.inject)
    then have "tracker_deal_server_list_group_storages gs body = None \<longleftrightarrow>
        (\<exists>j < length (gs_groups gs). gi_group_name (grp gs j) = c_str body \<and> 14 \<le> srv_count (grp gs j))" if "length body = 16"
      using that Some sorted_count [OF so] by (simp add: tracker_deal_server_list_group_storages_def Let_def length_listings)
    with few show ?thesis by blast
  qed
qed

text \<open>A tracker that 14 storage servers of one group have joined.\<close>

definition demo_many :: FDFSGroups where
  "demo_many = foldl (\<lambda>gs ip. demo_join [ip] gs) demo_init (map of_nat [49..<63])"

lemma reachable_demo_many: "tracker_reachable demo_many"
proof -
  have "tracker_reachable (foldl (\<lambda>gs ip. demo_join [ip] gs) gs ips)" if "tracker_reachable gs" for gs ips
    using that by (induction ips arbitrary: gs) (simp_all add: reachable_demo_join)
  then show ?thesis unfolding demo_many_def demo_init_def using tracker_reachable.init by blast
qed

theorem listing_leaves_buffer_witness:
  "tracker_deal_server_list_group_storages demo_many (pad 16 [103]) = None"
proof -
  have "length (gs_groups demo_many) = 1 \<and> srv_count (grp demo_many 0) = 14 \<and> gi_group_name (grp demo_many 0) = c_str (pad 16 [103])" by code_simp
  then have "\<exists>k < length (gs_groups demo_many). gi_group_name (grp demo_many k) = c_str (pad 16 [103]) \<and> 14 \<le> srv_count (grp demo_many k)"
    by (intro exI [of _ 0]) simp
  then show ?thesis using listing_leaves_buffer [OF reachable_demo_many, of "pad 16 [103]"] by simp
qed

end
