(* ===== verification/Tracker_Client.thy ===== *)
theory Tracker_Client
  imports Tracker_Fetch Tracker_Leader
begin

text \<open>
  The client's side of the queries (\<open>client/tracker_client.c\<close>, \<open>tracker/tracker_proto.c\<close>) and the bytes between client and
  tracker. A request reaches the tracker as its command and body; \<open>net\<close> says what comes back for it: an error of the
  connection, or the bytes received, which may be cut short by the error \<open>net_error\<close>. What a client reads is shown to be what the tracker has
  chosen.
\<close>

section \<open>Replies\<close>

text \<open>The end of \<open>tracker_deal_task\<close>: body length, command, status and body.\<close>

definition tracker_response :: "int + byte list \<Rightarrow> byte list" where
  "tracker_response r =
     (case r of
        Inl result \<Rightarrow> long2buff 0 @ [100, word_of_int result]
      | Inr body \<Rightarrow> long2buff (int (length body)) @ [100, 0] @ body)"

definition fdfs_recv_header :: "int \<Rightarrow> byte list \<Rightarrow> int + nat \<times> byte list" where
  "fdfs_recv_header net_error received =
     (if length received < 10 then Inl net_error
      else
        (let st = sint (received ! 9); in_bytes = buff2long (take 8 received) in
         if st \<noteq> 0 then Inl st else if in_bytes < 0 then Inl EINVAL else Inr (nat in_bytes, drop 10 received)))"

text \<open>Into a buffer of the caller, or for \<open>None\<close> into memory of its own, whose allocation gives \<open>mem\<close>.\<close>

definition fdfs_recv_response :: "int \<Rightarrow> int \<Rightarrow> nat option \<Rightarrow> byte list \<Rightarrow> int + byte list" where
  "fdfs_recv_response net_error mem buff_size received =
     (case fdfs_recv_header net_error received of
        Inl result \<Rightarrow> Inl result
      | Inr (in_bytes, rest) \<Rightarrow>
          if in_bytes = 0 then Inr []
          else
            (let room = (case buff_size of None \<Rightarrow> mem | Some n \<Rightarrow> if in_bytes > n then ENOSPC else 0) in
             if room \<noteq> 0 then Inl room else if length rest < in_bytes then Inl net_error else Inr (take in_bytes rest)))"

text \<open>Sending a request and receiving the reply into a buffer of \<open>n\<close> bytes.\<close>

definition tracker_exchange ::
    "(byte \<Rightarrow> byte list \<Rightarrow> int + byte list) \<Rightarrow> int \<Rightarrow> nat \<Rightarrow> byte \<Rightarrow> byte list \<Rightarrow> int + byte list" where
  "tracker_exchange net net_error n cmd body =
     (case net cmd body of Inl result \<Rightarrow> Inl result | Inr received \<Rightarrow> fdfs_recv_response net_error 0 (Some n) received)"

text \<open>
  The macro \<open>CHECK_CONNECTION\<close> at the start of every query. It tests the result of connecting the wrong way round: with no
  open connection, a query returns at once when connecting has succeeded and goes on with a null pointer when it has
  failed. The definitions below say what a query does on an open connection, when \<open>pTrackerServer->sock\<close> is not negative.
\<close>

datatype 'a client_call = Returned_Early int | Null_Pointer | Finished 'a

definition CHECK_CONNECTION :: "int \<Rightarrow> bool \<Rightarrow> int \<Rightarrow> 'a \<Rightarrow> 'a client_call" where
  "CHECK_CONNECTION sock conn_ok result rest =
     (if sock < 0 then (if conn_ok then Returned_Early result else Null_Pointer) else Finished rest)"

section \<open>Queries\<close>

text \<open>
  The group and file name of a request. \<open>snprintf\<close> cuts a file name at 127 bytes but returns its full length, so that a
  longer name sends bytes behind the buffer.
\<close>

definition fetch_request :: "byte list \<Rightarrow> byte list \<Rightarrow> byte list option" where
  "fetch_request group_name filename =
     (if length filename > 128 then None
      else Some (pad 16 group_name @ take 127 filename @ replicate (length filename - 127) 0))"

definition tracker_do_query_storage ::
    "(byte \<Rightarrow> byte list \<Rightarrow> int + byte list) \<Rightarrow> int \<Rightarrow> byte \<Rightarrow> byte list \<Rightarrow> byte list \<Rightarrow> (int + ConnectionInfo) option" where
  "tracker_do_query_storage net net_error cmd group_name filename =
     map_option (\<lambda>body.
       case tracker_exchange net net_error 49 cmd body of
         Inl result \<Rightarrow> Inl result
       | Inr b \<Rightarrow>
           if length b \<noteq> 39 then Inl EINVAL
           else Inr \<lparr>ci_ip_addr = c_str (take 15 (drop 16 b)), ci_port = c_int (long_at b 31)\<rparr>)
       (fetch_request group_name filename)"

text \<open>
  The list of servers with one address each after the first. C's remainder has the sign of the dividend, so a reply shorter
  than 39 bytes passes when 15 divides the difference; the count of servers is then 0 or less and the first entry is read
  from bytes that were not received.
\<close>

fun ip_list :: "int \<Rightarrow> nat \<Rightarrow> byte list \<Rightarrow> ConnectionInfo list" where
  "ip_list port 0 b = []"
| "ip_list port (Suc n) b = \<lparr>ci_ip_addr = c_str (take 15 b), ci_port = port\<rparr> # ip_list port n (drop 15 b)"

definition tracker_query_storage_list ::
    "(byte \<Rightarrow> byte list \<Rightarrow> int + byte list) \<Rightarrow> int \<Rightarrow> nat \<Rightarrow> byte list \<Rightarrow> byte list \<Rightarrow>
       (int + byte list \<times> ConnectionInfo list) option" where
  "tracker_query_storage_list net net_error nMaxServerCount group_name filename =
     (case fetch_request group_name filename of
        None \<Rightarrow> None
      | Some body \<Rightarrow>
          (case tracker_exchange net net_error 561 105 body of
             Inl result \<Rightarrow> Some (Inl result)
           | Inr b \<Rightarrow>
               if (int (length b) - 39) mod 15 \<noteq> 0 then Some (Inl EINVAL)
               else if length b < 39 then None
               else
                 (let server_count = 1 + (length b - 39) div 15; port = c_int (long_at b 31) in
                  if nMaxServerCount < server_count then Some (Inl ENOSPC)
                  else Some (Inr (c_str (take 16 b),
                               \<lparr>ci_ip_addr = c_str (take 15 (drop 16 b)), ci_port = port\<rparr> #
                               ip_list port (server_count - 1) (drop 39 b))))))"

text \<open>The store path index is a \<open>char\<close>, signed on the machine at hand.\<close>

definition parse_store_reply :: "byte list \<Rightarrow> int + byte list \<times> ConnectionInfo \<times> int" where
  "parse_store_reply b =
     (if length b \<noteq> 40 then Inl EINVAL
      else Inr (c_str (take 16 b), \<lparr>ci_ip_addr = c_str (take 15 (drop 16 b)), ci_port = c_int (long_at b 31)\<rparr>, sint (b ! 39)))"

definition tracker_query_storage_store_without_group ::
    "(byte \<Rightarrow> byte list \<Rightarrow> int + byte list) \<Rightarrow> int \<Rightarrow> int + byte list \<times> ConnectionInfo \<times> int" where
  "tracker_query_storage_store_without_group net net_error =
     (case tracker_exchange net net_error 50 101 [] of Inl result \<Rightarrow> Inl result | Inr b \<Rightarrow> parse_store_reply b)"

definition tracker_query_storage_store_with_group ::
    "(byte \<Rightarrow> byte list \<Rightarrow> int + byte list) \<Rightarrow> int \<Rightarrow> byte list \<Rightarrow> int + ConnectionInfo \<times> int" where
  "tracker_query_storage_store_with_group net net_error group_name =
     (case tracker_exchange net net_error 50 104 (pad 16 (take 15 group_name)) of
        Inl result \<Rightarrow> Inl result
      | Inr b \<Rightarrow> (case parse_store_reply b of Inl result \<Rightarrow> Inl result | Inr (_, server, index) \<Rightarrow> Inr (server, index)))"

fun ip_port_list :: "nat \<Rightarrow> byte list \<Rightarrow> ConnectionInfo list" where
  "ip_port_list 0 b = []"
| "ip_port_list (Suc n) b = \<lparr>ci_ip_addr = c_str (take 15 b), ci_port = c_int (long_at b 15)\<rparr> # ip_port_list n (drop 23 b)"

definition tracker_query_storage_store_list_with_group ::
    "(byte \<Rightarrow> byte list \<Rightarrow> int + byte list) \<Rightarrow> int \<Rightarrow> byte list \<Rightarrow> nat \<Rightarrow> int + ConnectionInfo list \<times> int" where
  "tracker_query_storage_store_list_with_group net net_error group_name nMaxServerCount =
     (case (if group_name = [] then tracker_exchange net net_error 1290 106 []
            else tracker_exchange net net_error 1290 107 (pad 16 (take 15 group_name))) of
        Inl result \<Rightarrow> Inl result
      | Inr b \<Rightarrow>
          if length b < 40 then Inl EINVAL
          else if (length b - 17) mod 23 \<noteq> 0 then Inl EINVAL
          else
            (let storage_count = (length b - 17) div 23 in
             if nMaxServerCount < storage_count then Inl ENOSPC
             else Inr (ip_port_list storage_count (drop 16 b), sint (b ! (16 + 23 * storage_count)))))"

section \<open>The tracker's replies\<close>

text \<open>The end of \<open>tracker_deal_service_query_storage\<close>, on the choice it has made.\<close>

definition store_reply :: "FDFSGroupInfo \<Rightarrow> nat list \<times> nat \<Rightarrow> byte list" where
  "store_reply g choice =
     pad 16 (gi_group_name g) @
     concat (map (\<lambda>p. pad 15 (sd_ip_addr (srv g p)) @ long2buff (gi_storage_port g)) (fst choice)) @ [of_nat (snd choice)]"

section \<open>Reading back what was sent\<close>

lemma c_str_pad: "\<lbrakk>0 \<notin> set s; length s \<le> n\<rbrakk> \<Longrightarrow> c_str (pad n s) = s"
  unfolding pad_def c_str_def by (subst takeWhile_append2) auto

lemma c_str_plain: "0 \<notin> set s \<Longrightarrow> c_str s = s"
  by (simp add: c_str_def takeWhile_eq_all_conv) metis

lemma recv_reply:
  assumes "length body \<le> n" "n < 2 ^ 31"
  shows "fdfs_recv_response net_error mem (Some n) (tracker_response (Inr body)) = Inr body"
proof -
  have "long_range (int (length body))" using assms by (simp add: long_range_def)
  then have "fdfs_recv_header net_error (tracker_response (Inr body)) = Inr (length body, body)"
    by (simp add: fdfs_recv_header_def tracker_response_def nth_append buff2long_long2buff)
  then show ?thesis using assms(1) by (simp add: fdfs_recv_response_def)
qed

lemma recv_alloc:
  assumes "length body < 2 ^ 31"
  shows "fdfs_recv_response net_error 0 None (tracker_response (Inr body)) = Inr body"
proof -
  have "long_range (int (length body))" using assms by (simp add: long_range_def)
  then have "fdfs_recv_header net_error (tracker_response (Inr body)) = Inr (length body, body)"
    by (simp add: fdfs_recv_header_def tracker_response_def nth_append buff2long_long2buff)
  then show ?thesis by (simp add: fdfs_recv_response_def)
qed

lemma recv_error:
  assumes "0 < e" "e < 128"
  shows "fdfs_recv_response net_error mem buff (tracker_response (Inl e)) = Inl e"
proof -
  have "sint (word_of_int e :: byte) = e" using assms by (simp add: sint_sbintrunc' signed_take_bit_int_eq_self)
  then show ?thesis using assms by (simp add: fdfs_recv_response_def fdfs_recv_header_def tracker_response_def nth_append)
qed

text \<open>Groups whose names, addresses and ports fit the fields of a reply.\<close>

definition group_addr_ok :: "FDFSGroupInfo \<Rightarrow> bool" where
  "group_addr_ok g \<longleftrightarrow> length (gi_group_name g) \<le> 16 \<and> 0 \<notin> set (gi_group_name g) \<and> int_range (gi_storage_port g) \<and>
     list_all (\<lambda>s. length (sd_ip_addr s) \<le> 15 \<and> 0 \<notin> set (sd_ip_addr s)) (gi_all_servers g)"

definition server_addr :: "FDFSGroupInfo \<Rightarrow> nat \<Rightarrow> ConnectionInfo" where
  "server_addr g p = \<lparr>ci_ip_addr = sd_ip_addr (srv g p), ci_port = gi_storage_port g\<rparr>"

lemma int_long_range: "int_range x \<Longrightarrow> long_range x"
  by (simp add: int_range_def long_range_def)

lemma addr_fields:
  assumes "group_addr_ok g"
  shows "p < srv_count g \<Longrightarrow> c_str (pad 15 (sd_ip_addr (srv g p))) = sd_ip_addr (srv g p)"
    and "c_int (buff2long (long2buff (gi_storage_port g))) = gi_storage_port g" and "c_str (pad 16 (gi_group_name g)) = gi_group_name g"
  using assms by (auto simp: group_addr_ok_def c_str_pad list_all_length buff2long_long2buff int_long_range)

lemma ip_list_reply:
  "\<lbrakk>group_addr_ok g; \<forall>p \<in> set ps. p < srv_count g\<rbrakk> \<Longrightarrow>
   ip_list (gi_storage_port g) (length ps) (concat (map (\<lambda>p. pad 15 (sd_ip_addr (srv g p))) ps)) = map (server_addr g) ps"
  by (induction ps) (auto simp: addr_fields server_addr_def)

lemma ip_port_list_reply:
  "\<lbrakk>group_addr_ok g; \<forall>p \<in> set ps. p < srv_count g\<rbrakk> \<Longrightarrow>
   ip_port_list (length ps) (concat (map (\<lambda>p. pad 15 (sd_ip_addr (srv g p)) @ long2buff (gi_storage_port g)) ps) @ rest) = map (server_addr g) ps"
  by (induction ps) (auto simp: addr_fields server_addr_def long_at_def)

lemma fetch_reply_fields:
  assumes "group_addr_ok g" "\<forall>p \<in> set (q # ps). p < srv_count g"
  defines "b \<equiv> fetch_reply g (q # ps)"
  shows "length b = 39 + 15 * length ps" "c_str (take 16 b) = gi_group_name g" "c_str (take 15 (drop 16 b)) = sd_ip_addr (srv g q)"
    "c_int (long_at b 31) = gi_storage_port g" "ip_list (gi_storage_port g) (length ps) (drop 39 b) = map (server_addr g) ps"
proof -
  show "length b = 39 + 15 * length ps" by (simp add: b_def fetch_reply_def length_concat_const [of ps _ 15])
  show "c_str (take 16 b) = gi_group_name g" by (simp add: b_def fetch_reply_def addr_fields [OF assms(1)])
  show "c_str (take 15 (drop 16 b)) = sd_ip_addr (srv g q)" using assms(2) by (simp add: b_def fetch_reply_def addr_fields [OF assms(1)])
  show "c_int (long_at b 31) = gi_storage_port g" by (simp add: b_def fetch_reply_def long_at_def addr_fields [OF assms(1)])
  show "ip_list (gi_storage_port g) (length ps) (drop 39 b) = map (server_addr g) ps"
    using ip_list_reply [OF assms(1), of ps] assms(2) by (simp add: b_def fetch_reply_def)
qed

lemma by_filename_same:
  assumes "tracker_mem_get_storage_by_filename env sd stk gs cmd name filename = Some (Inr (k, servers), gs')"
    and "k < length (gs_groups gs)"
  shows "fetch_reply (grp gs' k) ps = fetch_reply (grp gs k) ps"
proof -
  have "gi_all_servers (snd (fetch_one env sd d g fs st)) = gi_all_servers g \<and> gi_group_name (snd (fetch_one env sd d g fs st)) = gi_group_name g \<and>
      gi_storage_port (snd (fetch_one env sd d g fs st)) = gi_storage_port g" for d g fs st
    by (simp add: fetch_one_def Let_def split: option.split)
  moreover have "gi_all_servers (snd (fetch_update env g fs)) = gi_all_servers g \<and> gi_group_name (snd (fetch_update env g fs)) = gi_group_name g \<and>
      gi_storage_port (snd (fetch_update env g fs)) = gi_storage_port g" for g fs
    by (simp add: fetch_update_def tracker_get_writable_storage_def Let_def split: option.split)
  ultimately show ?thesis
    using assms by (cases cmd) (auto simp: tracker_mem_get_storage_by_filename_def Let_def case_prod_unfold fetch_reply_def upd_grp_def
        split: option.splits if_splits)
qed

text \<open>The file names and groups a client can ask for.\<close>

definition request_ok :: "byte list \<Rightarrow> byte list \<Rightarrow> bool" where
  "request_ok name filename \<longleftrightarrow> length name \<le> 16 \<and> 0 \<notin> set name \<and> 22 \<le> length filename \<and> length filename \<le> 127"

lemma fetch_request_ok:
  assumes "request_ok name filename"
  obtains body where "fetch_request name filename = Some body" "38 \<le> length body" "length body < 144" "c_str (take 16 body) = name" "drop 16 body = filename"
  using assms that [of "pad 16 name @ filename"] by (simp add: request_ok_def fetch_request_def c_str_pad)

lemma fetch_handler:
  assumes reach: "tracker_reachable gs" and req: "request_ok name filename" and body: "fetch_request name filename = Some body"
    and h: "tracker_deal_service_query_fetch_update env sd stk gs cmd body = Some (r, gs')"
  shows "(\<exists>k servers. tracker_mem_get_storage_by_filename env sd stk gs cmd name filename = Some (Inr (k, servers), gs') \<and>
       k < length (gs_groups gs) \<and> r = Inr (fetch_reply (grp gs k) servers) \<and> servers \<noteq> [] \<and> distinct servers \<and>
       gi_group_name (grp gs k) = name \<and> (\<forall>p \<in> set servers. p < srv_count (grp gs k) \<and> sd_status (srv (grp gs k) p) = FDFS_STORAGE_STATUS_ACTIVE) \<and>
       (cmd \<noteq> QUERY_FETCH_ALL \<longrightarrow> length servers = 1) \<and> length servers \<le> 32) \<or>
     r = Inl ENOENT \<and> \<not> (\<exists>k < length (gs_groups gs). gi_group_name (grp gs k) = name \<and> gi_active_servers (grp gs k) \<noteq> [])"
proof -
  from fetch_request_ok [OF req] body
  have b: "38 \<le> length body" "length body < 144" "c_str (take 16 body) = name" "drop 16 body = filename" by auto
  obtain r0 where r0: "tracker_mem_get_storage_by_filename env sd stk gs cmd name filename = Some (r0, gs')"
    using h b by (auto simp: tracker_deal_service_query_fetch_update_def split: option.splits sum.splits)
  show ?thesis
  proof (cases "\<exists>k < length (gs_groups gs). gi_group_name (grp gs k) = name \<and> gi_active_servers (grp gs k) \<noteq> []")
    case True
    with fetch_answer [OF reach r0] obtain k servers where a: "r0 = Inr (k, servers)" "k < length (gs_groups gs)" "gi_group_name (grp gs k) = name"
      "servers \<noteq> []" "distinct servers" "cmd \<noteq> QUERY_FETCH_ALL \<longrightarrow> length servers = 1"
      "\<forall>p \<in> set servers. p < srv_count (grp gs k) \<and> sd_status (srv (grp gs k) p) = FDFS_STORAGE_STATUS_ACTIVE"
      by auto
    have "r = Inr (fetch_reply (grp gs k) servers)"
      using h b r0 a(1) by_filename_same [OF r0 [unfolded a(1)] a(2)] by (simp add: tracker_deal_service_query_fetch_update_def)
    moreover have "length servers \<le> 32"
      using r0 [unfolded a(1)] a(6) by (cases cmd) (auto simp: tracker_mem_get_storage_by_filename_def Let_def split: option.splits if_splits)
    ultimately show ?thesis using r0 a by blast
  next
    case False
    then have "r0 = Inl ENOENT" using fetch_answer [OF reach r0] by simp
    then show ?thesis using h b r0 False by (simp add: tracker_deal_service_query_fetch_update_def)
  qed
qed

section \<open>From the client to the tracker and back\<close>

text \<open>C7. A client that asks for the server of a file and gets the tracker's reply reads the address and port of an active server of the group
  asked for, which has the file (is its source, or has been synchronised beyond it) when the source is active; or it gets \<open>ENOENT\<close>, and
  then the group does not exist or has no active server.\<close>

theorem client_download:
  assumes reach: "tracker_reachable gs" and req: "request_ok name filename" and addr: "\<forall>k < length (gs_groups gs). group_addr_ok (grp gs k)"
    and cmd: "(c, cmd) \<in> {(102, QUERY_FETCH_ONE), (103, QUERY_UPDATE)}"
    and h: "tracker_deal_service_query_fetch_update env sd stk gs cmd (the (fetch_request name filename)) = Some (r, gs')"
    and net: "net c (the (fetch_request name filename)) = Inr (tracker_response r)"
    and fs: "fs = file_source_of stk filename" "fs_storage_ip fs \<noteq> INADDR_NONE" "gs_download_server gs \<in> {0, 1}"
  shows "(\<exists>k p. tracker_do_query_storage net net_error c name filename = Some (Inr (server_addr (grp gs k) p)) \<and>
       k < length (gs_groups gs) \<and> gi_group_name (grp gs k) = name \<and> sd_status (srv (grp gs k) p) = FDFS_STORAGE_STATUS_ACTIVE \<and>
       (\<forall>q. source_server env (grp gs k) fs = Some q \<longrightarrow>
          p = q \<or> is_source fs (srv (grp gs k) p) \<or> fs_normal fs \<and> file_synced env sd fs (srv (grp gs k) p))) \<or>
     tracker_do_query_storage net net_error c name filename = Some (Inl ENOENT) \<and>
       \<not> (\<exists>k < length (gs_groups gs). gi_group_name (grp gs k) = name \<and> gi_active_servers (grp gs k) \<noteq> [])"
proof -
  obtain body where body: "fetch_request name filename = Some body" using fetch_request_ok [OF req] by blast
  have ex: "tracker_exchange net net_error n c body = fdfs_recv_response net_error 0 (Some n) (tracker_response r)" for n
    using net body by (simp add: tracker_exchange_def)
  from fetch_handler [OF reach req body h [unfolded body option.sel]] show ?thesis
  proof (elim disjE exE conjE)
    fix k servers
    assume f: "tracker_mem_get_storage_by_filename env sd stk gs cmd name filename = Some (Inr (k, servers), gs')" and k: "k < length (gs_groups gs)"
      and r: "r = Inr (fetch_reply (grp gs k) servers)" and nm: "gi_group_name (grp gs k) = name"
      and act: "\<forall>p \<in> set servers. p < srv_count (grp gs k) \<and> sd_status (srv (grp gs k) p) = FDFS_STORAGE_STATUS_ACTIVE"
      and one: "cmd \<noteq> QUERY_FETCH_ALL \<longrightarrow> length servers = 1"
    obtain p where p: "servers = [p]" using one cmd by (auto simp: length_Suc_conv)
    note fld = fetch_reply_fields [of "grp gs k" p "[]"]
    have "tracker_do_query_storage net net_error c name filename = Some (Inr (server_addr (grp gs k) p))"
      using addr k act fld by (simp add: tracker_do_query_storage_def body ex r p recv_reply server_addr_def)
    moreover have "\<forall>q. source_server env (grp gs k) fs = Some q \<longrightarrow>
        p = q \<or> is_source fs (srv (grp gs k) p) \<or> fs_normal fs \<and> file_synced env sd fs (srv (grp gs k) p)"
      using has_file [OF f fs(1,2) _ fs(3)] cmd by (auto simp: p)
    ultimately show ?thesis using k nm act p by auto
  next
    assume "r = Inl ENOENT" "\<not> (\<exists>k < length (gs_groups gs). gi_group_name (grp gs k) = name \<and> gi_active_servers (grp gs k) \<noteq> [])"
    then show ?thesis by (simp add: tracker_do_query_storage_def body ex recv_error)
  qed
qed

definition demo_net :: "byte \<Rightarrow> byte list \<Rightarrow> int + byte list" where
  "demo_net c body =
     (case tracker_deal_service_query_fetch_update demo_env demo_delay (replicate 64 0) demo_two
             (if c = 102 then QUERY_FETCH_ONE else if c = 103 then QUERY_UPDATE else QUERY_FETCH_ALL) body of
        None \<Rightarrow> Inl 104 | Some (r, _) \<Rightarrow> Inr (tracker_response r))"

lemma demo_request: "request_ok [103] demo_filename" "\<forall>k < length (gs_groups demo_two). group_addr_ok (grp demo_two k)"
proof -
  show "request_ok [103] demo_filename" by (simp add: request_ok_def demo_filename_def)
  have "group_addr_ok (grp demo_two 0)" by code_simp
  then show "\<forall>k < length (gs_groups demo_two). group_addr_ok (grp demo_two k)" by (simp add: demo_two_state)
qed

lemma demo_reply:
  assumes "c = 102 \<and> cmd = QUERY_FETCH_ONE \<or> c = 105 \<and> cmd = QUERY_FETCH_ALL"
  obtains r gs' where "tracker_deal_service_query_fetch_update demo_env demo_delay (replicate 64 0) demo_two cmd (the (fetch_request [103] demo_filename)) = Some (r, gs')"
    "demo_net c (the (fetch_request [103] demo_filename)) = Inr (tracker_response r)"
proof -
  have "tracker_deal_service_query_fetch_update demo_env demo_delay (replicate 64 0) demo_two QUERY_FETCH_ONE (the (fetch_request [103] demo_filename)) \<noteq> None"
    "tracker_deal_service_query_fetch_update demo_env demo_delay (replicate 64 0) demo_two QUERY_FETCH_ALL (the (fetch_request [103] demo_filename)) \<noteq> None"
    by code_simp+
  then obtain r gs' where "tracker_deal_service_query_fetch_update demo_env demo_delay (replicate 64 0) demo_two cmd (the (fetch_request [103] demo_filename)) = Some (r, gs')"
    using assms by auto
  then show ?thesis using that assms by (auto simp: demo_net_def)
qed

theorem client_download_witness:
  "\<exists>p. tracker_do_query_storage demo_net 110 102 [103] demo_filename = Some (Inr (server_addr (grp demo_two 0) p)) \<and>
     sd_status (srv (grp demo_two 0) p) = 7"
proof -
  obtain r gs' where h: "tracker_deal_service_query_fetch_update demo_env demo_delay (replicate 64 0) demo_two QUERY_FETCH_ONE (the (fetch_request [103] demo_filename)) = Some (r, gs')"
    and n: "demo_net 102 (the (fetch_request [103] demo_filename)) = Inr (tracker_response r)"
    using demo_reply [of 102 QUERY_FETCH_ONE] by blast
  have "gi_group_name (grp demo_two 0) = [103]" by code_simp
  then have "\<exists>k < length (gs_groups demo_two). gi_group_name (grp demo_two k) = [103] \<and> gi_active_servers (grp demo_two k) \<noteq> []"
    by (intro exI [of _ 0]) (simp add: demo_two_state)
  moreover note client_download [where net = demo_net and c = 102, OF reachable_demo_two demo_request _ h n refl, of 110]
  ultimately show ?thesis by (auto simp: demo_source demo_two_state)
qed

text \<open>A client that asks for all servers of a file reads exactly the addresses of the servers the tracker has chosen, in that order, with
  the group's name and port, as long as it has room for them.\<close>

theorem client_server_list:
  assumes reach: "tracker_reachable gs" and req: "request_ok name filename" and addr: "\<forall>k < length (gs_groups gs). group_addr_ok (grp gs k)"
    and f: "tracker_mem_get_storage_by_filename env sd stk gs QUERY_FETCH_ALL name filename = Some (Inr (k, servers), gs')"
    and h: "tracker_deal_service_query_fetch_update env sd stk gs QUERY_FETCH_ALL (the (fetch_request name filename)) = Some (r, gs')"
    and net: "net 105 (the (fetch_request name filename)) = Inr (tracker_response r)"
  shows "tracker_query_storage_list net net_error m name filename =
    Some (if m < length servers then Inl ENOSPC else Inr (name, map (server_addr (grp gs k)) servers))"
proof -
  obtain body where body: "fetch_request name filename = Some body" using fetch_request_ok [OF req] by blast
  have k: "k < length (gs_groups gs)" "r = Inr (fetch_reply (grp gs k) servers)" "gi_group_name (grp gs k) = name" "length servers \<le> 32" "servers \<noteq> []"
    "\<forall>p \<in> set servers. p < srv_count (grp gs k)"
    using fetch_handler [OF reach req body h [unfolded body option.sel]] fetch_answer [OF reach f] f by (auto split: if_splits)
  then obtain q ps where q: "servers = q # ps" by (cases servers) auto
  note fld = fetch_reply_fields [of "grp gs k" q ps]
  have ex: "tracker_exchange net net_error 561 105 body = Inr (fetch_reply (grp gs k) (q # ps))"
    using net addr k fld by (simp add: tracker_exchange_def body q recv_reply)
  have "int (39 + 15 * length ps) - 39 = int (length ps) * 15" by simp
  then show ?thesis
    using fld addr k by (simp add: tracker_query_storage_list_def body ex q server_addr_def)
qed

theorem client_server_list_witness:
  "tracker_query_storage_list demo_net 110 32 [103] demo_filename = Some (Inr ([103], [server_addr (grp demo_two 0) 0]))"
proof -
  obtain r gs' where h: "tracker_deal_service_query_fetch_update demo_env demo_delay (replicate 64 0) demo_two QUERY_FETCH_ALL (the (fetch_request [103] demo_filename)) = Some (r, gs')"
    and n: "demo_net 105 (the (fetch_request [103] demo_filename)) = Inr (tracker_response r)"
    using demo_reply [of 105 QUERY_FETCH_ALL] by blast
  have "tracker_mem_get_storage_by_filename demo_env demo_delay (replicate 64 0) demo_two QUERY_FETCH_ALL [103] demo_filename = Some (Inr (0, [0]), gs')"
  proof -
    have "map_option fst (tracker_mem_get_storage_by_filename demo_env demo_delay (replicate 64 0) demo_two QUERY_FETCH_ALL [103] demo_filename) = Some (Inr (0, [0]))"
      by code_simp
    moreover have "gs1 = demo_two" if "tracker_mem_get_storage_by_filename demo_env demo_delay (replicate 64 0) demo_two QUERY_FETCH_ALL [103] demo_filename = Some (x, gs1)" for x gs1
      using that by (auto simp: tracker_mem_get_storage_by_filename_def Let_def split: option.splits if_splits)
    moreover have "gs' = demo_two"
      using h by (auto simp: tracker_deal_service_query_fetch_update_def tracker_mem_get_storage_by_filename_def Let_def split: option.splits if_splits sum.splits)
    ultimately show ?thesis by auto
  qed
  from client_server_list [where net = demo_net, OF reachable_demo_two demo_request this h n, of 110 32] show ?thesis by simp
qed

section \<open>Uploads\<close>

text \<open>What the tracker sends for a query for an upload.\<close>

definition store_answer :: "(int + nat \<times> nat list \<times> nat) \<times> FDFSGroups \<Rightarrow> int + byte list" where
  "store_answer r = (case fst r of Inl e \<Rightarrow> Inl e | Inr (k, choice) \<Rightarrow> Inr (store_reply (grp (snd r) k) choice))"

lemma store_reply_fields:
  assumes ok: "group_addr_ok g" and ps: "\<forall>p \<in> set ps. p < srv_count g" and i: "i < 128"
  defines "b \<equiv> store_reply g (ps, i)"
  shows "length b = 17 + 23 * length ps" "c_str (take 16 b) = gi_group_name g" "ip_port_list (length ps) (drop 16 b) = map (server_addr g) ps"
    "sint (b ! (16 + 23 * length ps)) = int i"
proof -
  let ?servers = "concat (map (\<lambda>p. pad 15 (sd_ip_addr (srv g p)) @ long2buff (gi_storage_port g)) ps)"
  have len: "length ?servers = 23 * length ps" by (rule length_concat_const) simp
  show "length b = 17 + 23 * length ps" by (simp add: b_def store_reply_def len)
  show "c_str (take 16 b) = gi_group_name g" by (simp add: b_def store_reply_def addr_fields [OF ok])
  show "ip_port_list (length ps) (drop 16 b) = map (server_addr g) ps"
    using ip_port_list_reply [OF ok ps] by (simp add: b_def store_reply_def)
  have "sint (word_of_int (int i) :: byte) = int i"
    unfolding sint_sbintrunc' using i by (intro signed_take_bit_int_eq_self) simp_all
  then have "sint (of_nat i :: byte) = int i" by simp
  then show "sint (b ! (16 + 23 * length ps)) = int i" by (simp add: b_def store_reply_def nth_append len)
qed

lemma store_reply_parse:
  assumes "group_addr_ok g" "p < srv_count g" "i < 128"
  shows "parse_store_reply (store_reply g ([p], i)) = Inr (gi_group_name g, server_addr g p, int i)"
proof -
  have b: "store_reply g ([p], i) = pad 16 (gi_group_name g) @ pad 15 (sd_ip_addr (srv g p)) @ long2buff (gi_storage_port g) @ [of_nat i]"
    by (simp add: store_reply_def)
  have idx: "sint (store_reply g ([p], i) ! 39) = int i" using store_reply_fields(4) [OF assms(1) _ assms(3), of "[p]"] assms(2) by simp
  show ?thesis
    unfolding parse_store_reply_def idx
    unfolding b by (simp add: server_addr_def long_at_def addr_fields [OF assms(1)] assms(2))
qed

text \<open>The servers of an answer keep the names, addresses and ports they had before the query.\<close>

lemma map_upd_srv:
  "(\<And>s. f (h s) = f s) \<Longrightarrow> map f (gi_all_servers (upd_srv p h g)) = map f (gi_all_servers g)"
proof (cases "p < srv_count g")
  case True
  assume "\<And>s. f (h s) = f s"
  then show ?thesis using True list_update_id [of "map f (gi_all_servers g)" p] by (simp add: upd_srv_def map_update)
qed (simp add: upd_srv_def list_update_beyond)

definition same_addr :: "FDFSGroupInfo \<Rightarrow> FDFSGroupInfo \<Rightarrow> bool" where
  "same_addr g h \<longleftrightarrow> gi_group_name h = gi_group_name g \<and> gi_storage_port h = gi_storage_port g \<and>
     map sd_ip_addr (gi_all_servers h) = map sd_ip_addr (gi_all_servers g)"

lemma same_addr_server:
  assumes "same_addr g h"
  shows "srv_count h = srv_count g" "group_addr_ok h = group_addr_ok g" "p < srv_count g \<Longrightarrow> server_addr h p = server_addr g p"
proof -
  have m: "map sd_ip_addr (gi_all_servers h) = map sd_ip_addr (gi_all_servers g)" using assms by (simp add: same_addr_def)
  show c: "srv_count h = srv_count g" using map_eq_imp_length_eq [OF m] .
  have ip: "sd_ip_addr (srv h q) = sd_ip_addr (srv g q)" if "q < srv_count g" for q
    using that c m by (metis nth_map)
  then show "p < srv_count g \<Longrightarrow> server_addr h p = server_addr g p" using assms by (simp add: server_addr_def same_addr_def)
  show "group_addr_ok h = group_addr_ok g" using assms ip c by (auto simp: group_addr_ok_def same_addr_def list_all_length)
qed

lemma query_storage_frame:
  assumes reach: "tracker_reachable gs"
    and r: "tracker_deal_service_query_storage env rs gs cmd body = (Inr (k, servers, i), gs')"
  shows "same_addr (grp gs k) (grp gs' k) \<and> (query_one cmd \<longrightarrow> length servers = 1)"
proof -
  have inv: "tracker_inv gs" by (rule reachable_inv [OF reach])
  have k: "k < length (gs_groups gs)" using query_storage_facts [OF reach r] by simp
  have len: "length body = (if with_group cmd then 16 else 0)" and ne: "gs_groups gs \<noteq> []"
    using r by (auto simp: tracker_deal_service_query_storage_def split: if_splits)
  obtain m gs1 where q: "query_group env rs gs cmd body = (Inr m, gs1)"
    using r len ne by (cases "query_group env rs gs cmd body"; cases "fst (query_group env rs gs cmd body)")
      (auto simp: tracker_deal_service_query_storage_def)
  have gs1: "gs_groups gs1 = gs_groups gs" using query_group_frame [of env rs gs cmd body] q by (cases gs; cases gs1) auto
  from inv len ne q show ?thesis
  proof (cases rule: query_storage_cases)
    case no_path
    then show ?thesis using r by simp
  next
    case (path p g1)
    obtain w where g1: "g1 = (grp gs m)\<lparr>gi_current_write_server := w\<rparr>" using path(4) by blast
    have qr: "query_reply env rs gs1 cmd m p g1 = (Inr (k, servers, i), gs')" using r path(5) by simp
    then obtain x where "k = m" "servers = (if query_one cmd then [p] else gi_active_servers g1)"
      and gs': "gs' = upd_grp m (upd_srv p (\<lambda>s. s\<lparr>sd_current_write_path := x\<rparr>) g1) gs1"
      by (cases "query_path env rs g1 (srv g1 p)"; cases "fst (query_path env rs g1 (srv g1 p))")
         (auto simp: query_reply_def Let_def)
    moreover have "gi_storage_port (upd_srv p h g) = gi_storage_port g" for h g by (simp add: upd_srv_def)
    ultimately show ?thesis using k gs1 by (simp add: upd_grp_def same_addr_def map_upd_srv g1)
  qed
qed

text \<open>The command and body of the client's queries.\<close>

definition store_request :: "query_cmd \<Rightarrow> byte list \<Rightarrow> byte \<times> byte list" where
  "store_request cmd name =
     (case cmd of
        QUERY_STORE_WITHOUT_GROUP_ONE \<Rightarrow> (101, [])
      | QUERY_STORE_WITH_GROUP_ONE \<Rightarrow> (104, pad 16 (take 15 name))
      | QUERY_STORE_WITHOUT_GROUP_ALL \<Rightarrow> (106, [])
      | QUERY_STORE_WITH_GROUP_ALL \<Rightarrow> (107, pad 16 (take 15 name)))"

lemma query_storage_errors:
  assumes "tracker_deal_service_query_storage env rs gs cmd body = (Inl e, gs')"
  shows "e \<in> {ENOENT, ENOSPC, EINVAL}"
proof -
  have s: "select_group env rs gs = Inl e \<Longrightarrow> e \<in> {ENOENT, ENOSPC}"
    by (auto simp: select_group_def Let_def split: if_splits option.splits)
  have q: "query_group env rs gs cmd body = (Inl e, gs1) \<Longrightarrow> e \<in> {ENOENT, ENOSPC, EINVAL}" for gs1
    using s by (auto simp: query_group_def split: if_splits option.splits sum.splits)
  have p: "query_path env rs g t = (Inl e, cur) \<Longrightarrow> e = ENOSPC" for g t cur
    by (auto simp: query_path_def Let_def split: if_splits option.splits)
  have r: "query_reply env rs gs1 cmd k q g = (Inl e, gs2) \<Longrightarrow> e = ENOSPC" for gs1 k q g gs2
    using p by (auto simp: query_reply_def Let_def split: prod.splits sum.splits)
  show ?thesis
    using assms q r
    by (auto simp: tracker_deal_service_query_storage_def split: if_splits prod.splits sum.splits option.splits)
qed

lemma upload_read:
  assumes reach: "tracker_reachable gs" and addr: "\<forall>k < length (gs_groups gs). group_addr_ok (grp gs k)"
    and r: "tracker_deal_service_query_storage env rs gs cmd (snd (store_request cmd name)) = (Inr (k, servers, i), gs')" and i: "i < 128"
    and net: "net (fst (store_request cmd name)) (snd (store_request cmd name)) = Inr (tracker_response (store_answer (Inr (k, servers, i), gs')))"
  shows "k < length (gs_groups gs) \<and> group_has_space env rs (grp gs k) \<and> int i < gi_store_path_count (grp gs k) \<and>
    (\<forall>p \<in> set servers. sd_status (srv (grp gs k) p) = FDFS_STORAGE_STATUS_ACTIVE) \<and>
    (case cmd of
       QUERY_STORE_WITHOUT_GROUP_ONE \<Rightarrow> tracker_query_storage_store_without_group net net_error =
         Inr (gi_group_name (grp gs k), server_addr (grp gs k) (hd servers), int i)
     | QUERY_STORE_WITH_GROUP_ONE \<Rightarrow> tracker_query_storage_store_with_group net net_error name = Inr (server_addr (grp gs k) (hd servers), int i)
     | QUERY_STORE_WITHOUT_GROUP_ALL \<Rightarrow> length servers \<le> min m 55 \<longrightarrow>
         tracker_query_storage_store_list_with_group net net_error [] m = Inr (map (server_addr (grp gs k)) servers, int i)
     | QUERY_STORE_WITH_GROUP_ALL \<Rightarrow> length servers \<le> min m 55 \<longrightarrow> name \<noteq> [] \<longrightarrow>
         tracker_query_storage_store_list_with_group net net_error name m = Inr (map (server_addr (grp gs k)) servers, int i))"
proof -
  note facts = query_storage_facts [OF reach r]
  let ?g = "grp gs' k"
  have same: "same_addr (grp gs k) ?g" "query_one cmd \<longrightarrow> length servers = 1" using query_storage_frame [OF reach r] by simp_all
  have ok: "group_addr_ok ?g" "\<forall>p \<in> set servers. p < srv_count ?g" "map (server_addr ?g) servers = map (server_addr (grp gs k)) servers"
    using facts addr same_addr_server [OF same(1)] by auto
  have nm: "gi_group_name ?g = gi_group_name (grp gs k)" using same(1) by (simp add: same_addr_def)
  note fld = store_reply_fields [OF ok(1,2) i]
  have ex: "tracker_exchange net net_error n (fst (store_request cmd name)) (snd (store_request cmd name)) = Inr (store_reply ?g (servers, i))"
    if "17 + 23 * length servers \<le> n" "n < 2 ^ 31" for n
    using that fld(1) by (simp add: tracker_exchange_def net store_answer_def recv_reply)
  have pos: "0 < length servers" using facts by simp
  have one: "17 + 23 * length servers \<le> 50 \<and>
      parse_store_reply (store_reply ?g (servers, i)) = Inr (gi_group_name (grp gs k), server_addr (grp gs k) (hd servers), int i)" if "query_one cmd"
    using same(2) that store_reply_parse [OF ok(1) _ i, of "hd servers"] ok(2,3) nm by (auto simp: length_Suc_conv)
  show ?thesis
  proof (cases cmd)
    case QUERY_STORE_WITHOUT_GROUP_ONE
    then show ?thesis using facts one ex [of 50]
      by (simp add: store_request_def query_one_def tracker_query_storage_store_without_group_def)
  next
    case QUERY_STORE_WITH_GROUP_ONE
    then show ?thesis using facts one ex [of 50]
      by (simp add: store_request_def query_one_def tracker_query_storage_store_with_group_def)
  next
    case QUERY_STORE_WITHOUT_GROUP_ALL
    then show ?thesis using facts fld ok(3) ex [of 1290] pos
      by (auto simp: store_request_def tracker_query_storage_store_list_with_group_def Let_def)
  next
    case QUERY_STORE_WITH_GROUP_ALL
    then show ?thesis using facts fld ok(3) ex [of 1290] pos
      by (auto simp: store_request_def tracker_query_storage_store_list_with_group_def Let_def)
  qed
qed

text \<open>C8. A client that asks where to upload a file and gets the tracker's reply. When the tracker has found a place and its path index is below 128, the
  client reads the name of a group with space, the address and port of an active server of it, and a store path index below the group's path count;
  asked for all servers, it reads those the tracker has named, all active, when it has room and they are at most 55. When the tracker has not,
  the client returns the tracker's error, which is \<open>ENOENT\<close>, \<open>ENOSPC\<close> or \<open>EINVAL\<close>.\<close>

theorem client_upload:
  assumes reach: "tracker_reachable gs" and addr: "\<forall>k < length (gs_groups gs). group_addr_ok (grp gs k)"
    and r: "tracker_deal_service_query_storage env rs gs cmd (snd (store_request cmd name)) = (r, gs')"
    and net: "net (fst (store_request cmd name)) (snd (store_request cmd name)) = Inr (tracker_response (store_answer (r, gs')))"
  shows "case r of
      Inl e \<Rightarrow> e \<in> {ENOENT, ENOSPC, EINVAL} \<and>
        (case cmd of
           QUERY_STORE_WITHOUT_GROUP_ONE \<Rightarrow> tracker_query_storage_store_without_group net net_error = Inl e
         | QUERY_STORE_WITH_GROUP_ONE \<Rightarrow> tracker_query_storage_store_with_group net net_error name = Inl e
         | QUERY_STORE_WITHOUT_GROUP_ALL \<Rightarrow> tracker_query_storage_store_list_with_group net net_error [] m = Inl e
         | QUERY_STORE_WITH_GROUP_ALL \<Rightarrow> name \<noteq> [] \<longrightarrow> tracker_query_storage_store_list_with_group net net_error name m = Inl e)
    | Inr (k, servers, i) \<Rightarrow> i < 128 \<longrightarrow>
        k < length (gs_groups gs) \<and> group_has_space env rs (grp gs k) \<and> int i < gi_store_path_count (grp gs k) \<and>
        (\<forall>p \<in> set servers. sd_status (srv (grp gs k) p) = FDFS_STORAGE_STATUS_ACTIVE) \<and>
        (case cmd of
           QUERY_STORE_WITHOUT_GROUP_ONE \<Rightarrow> tracker_query_storage_store_without_group net net_error =
             Inr (gi_group_name (grp gs k), server_addr (grp gs k) (hd servers), int i)
         | QUERY_STORE_WITH_GROUP_ONE \<Rightarrow> tracker_query_storage_store_with_group net net_error name = Inr (server_addr (grp gs k) (hd servers), int i)
         | QUERY_STORE_WITHOUT_GROUP_ALL \<Rightarrow> length servers \<le> min m 55 \<longrightarrow>
             tracker_query_storage_store_list_with_group net net_error [] m = Inr (map (server_addr (grp gs k)) servers, int i)
         | QUERY_STORE_WITH_GROUP_ALL \<Rightarrow> length servers \<le> min m 55 \<longrightarrow> name \<noteq> [] \<longrightarrow>
             tracker_query_storage_store_list_with_group net net_error name m = Inr (map (server_addr (grp gs k)) servers, int i))"
proof (cases r)
  case (Inl e)
  have e: "e \<in> {ENOENT, ENOSPC, EINVAL}" using query_storage_errors assms(3) Inl by blast
  then have "fdfs_recv_response net_error mem buff (tracker_response (Inl e)) = Inl e" for mem buff by (intro recv_error) auto
  then have "tracker_exchange net net_error n (fst (store_request cmd name)) (snd (store_request cmd name)) = Inl e" for n
    using net Inl by (simp add: tracker_exchange_def store_answer_def)
  with e Inl show ?thesis
    by (cases cmd) (simp_all add: store_request_def tracker_query_storage_store_without_group_def tracker_query_storage_store_with_group_def
        tracker_query_storage_store_list_with_group_def)
next
  case (Inr c)
  obtain k servers i where c: "c = (k, servers, i)" by (cases c)
  show ?thesis using upload_read [OF reach addr, of env rs cmd name k servers i gs' net net_error m] assms(3) net Inr c by simp
qed

theorem client_upload_witness:
  "\<exists>answer. tracker_query_storage_store_without_group (\<lambda>_ _. Inr (tracker_response (store_answer answer))) 110 = Inr ([103], server_addr (grp demo_full 0) 0, 1) \<and>
     answer = tracker_deal_service_query_storage demo_env (Reserved_MB 100) demo_full QUERY_STORE_WITHOUT_GROUP_ONE [] \<and>
     tracker_query_storage_store_without_group (\<lambda>_ _. Inr (tracker_response (store_answer
       (tracker_deal_service_query_storage demo_env (Reserved_MB 5000) demo_full QUERY_STORE_WITHOUT_GROUP_ONE [])))) 110 = Inl ENOSPC"
proof -
  have "fst (tracker_deal_service_query_storage demo_env (Reserved_MB 100) demo_full QUERY_STORE_WITHOUT_GROUP_ONE []) = Inr (0, [0], 1)" by code_simp
  then obtain gs' where r: "tracker_deal_service_query_storage demo_env (Reserved_MB 100) demo_full QUERY_STORE_WITHOUT_GROUP_ONE [] =
      (Inr (0, [0], 1), gs')" by (metis prod.collapse)
  have a: "length (gs_groups demo_full) = 1" "group_addr_ok (grp demo_full 0)" "gi_group_name (grp demo_full 0) = [103]" by code_simp+
  let ?net = "\<lambda>_ _. Inr (tracker_response (store_answer (Inr (0, [0], 1), gs')))"
  have "tracker_query_storage_store_without_group ?net 110 = Inr (gi_group_name (grp demo_full 0), server_addr (grp demo_full 0) (hd [0]), int 1)"
    using client_upload [OF reachable_demo_full, of demo_env "Reserved_MB 100" QUERY_STORE_WITHOUT_GROUP_ONE "[]" "Inr (0, [0], 1)" gs' ?net 110 0] a r
    by (simp add: store_request_def)
  moreover have "fst (tracker_deal_service_query_storage demo_env (Reserved_MB 5000) demo_full QUERY_STORE_WITHOUT_GROUP_ONE []) = Inl ENOSPC"
    by code_simp
  then obtain gs2 where r2: "tracker_deal_service_query_storage demo_env (Reserved_MB 5000) demo_full QUERY_STORE_WITHOUT_GROUP_ONE [] =
      (Inl ENOSPC, gs2)" by (metis prod.collapse)
  let ?net2 = "\<lambda>_ _. Inr (tracker_response (store_answer (Inl ENOSPC, gs2)))"
  have "tracker_query_storage_store_without_group ?net2 110 = Inl ENOSPC"
    using client_upload [OF reachable_demo_full, of demo_env "Reserved_MB 5000" QUERY_STORE_WITHOUT_GROUP_ONE "[]" "Inl ENOSPC" gs2 ?net2 110 0] a r2
    by (simp add: store_request_def)
  ultimately show ?thesis using r r2 a(3) by auto
qed

end
