(* ===== verification/Tracker_Listing.thy ===== *)
theory Tracker_Listing
  imports Tracker_Client
begin

text \<open>
  The listings of groups and servers as the client reads them (\<open>client/tracker_client.c\<close>): what the tracker has put into the
  fields of a reply comes out again.
\<close>

section \<open>Groups\<close>

abbreviation (input) FDFS_MAX_GROUPS :: nat where "FDFS_MAX_GROUPS \<equiv> 512"

record FDFSGroupStat =
  gst_group_name :: "byte list"
  gst_total_mb :: int
  gst_free_mb :: int
  gst_trunk_free_mb :: int
  gst_count :: int
  gst_storage_port :: int
  gst_storage_http_port :: int
  gst_active_count :: int
  gst_current_write_server :: int
  gst_store_path_count :: int
  gst_subdir_count_per_path :: int
  gst_current_trunk_file_id :: int

definition parse_group_stat :: "byte list \<Rightarrow> FDFSGroupStat" where
  "parse_group_stat b = \<lparr>gst_group_name = c_str (take 16 b), gst_total_mb = long_at b 17, gst_free_mb = long_at b 25,
     gst_trunk_free_mb = long_at b 33, gst_count = c_int (long_at b 41), gst_storage_port = c_int (long_at b 49),
     gst_storage_http_port = c_int (long_at b 57), gst_active_count = c_int (long_at b 65),
     gst_current_write_server = c_int (long_at b 73), gst_store_path_count = c_int (long_at b 81),
     gst_subdir_count_per_path = c_int (long_at b 89), gst_current_trunk_file_id = c_int (long_at b 97)\<rparr>"

definition tracker_list_one_group ::
    "(byte \<Rightarrow> byte list \<Rightarrow> int + byte list) \<Rightarrow> int \<Rightarrow> byte list \<Rightarrow> int + FDFSGroupStat" where
  "tracker_list_one_group net net_error group_name =
     (case tracker_exchange net net_error 105 90 (pad 16 (take 15 group_name)) of
        Inl result \<Rightarrow> Inl result
      | Inr b \<Rightarrow> if length b \<noteq> 105 then Inl EINVAL else Inr (parse_group_stat b))"

text \<open>The entries of a reply, \<open>n\<close> of \<open>size\<close> bytes each.\<close>

fun parse_entries :: "(byte list \<Rightarrow> 'a) \<Rightarrow> nat \<Rightarrow> nat \<Rightarrow> byte list \<Rightarrow> 'a list" where
  "parse_entries f len 0 b = []"
| "parse_entries f len (Suc n) b = f (take len b) # parse_entries f len n (drop len b)"

definition tracker_list_groups ::
    "(byte \<Rightarrow> byte list \<Rightarrow> int + byte list) \<Rightarrow> int \<Rightarrow> nat \<Rightarrow> int + FDFSGroupStat list" where
  "tracker_list_groups net net_error max_groups =
     (case tracker_exchange net net_error (105 * FDFS_MAX_GROUPS) 91 [] of
        Inl result \<Rightarrow> Inl result
      | Inr b \<Rightarrow>
          if length b mod 105 \<noteq> 0 then Inl EINVAL
          else if length b div 105 > max_groups then Inl ENOSPC
          else Inr (parse_entries parse_group_stat 105 (length b div 105) b))"

section \<open>Servers\<close>

record FDFSStorageInfo =
  sinf_status :: int
  sinf_id :: "byte list"
  sinf_ip_addr :: "byte list"
  sinf_src_id :: "byte list"
  sinf_domain_name :: "byte list"
  sinf_version :: "byte list"
  sinf_join_time :: int
  sinf_up_time :: int
  sinf_total_mb :: int
  sinf_free_mb :: int
  sinf_upload_priority :: int
  sinf_store_path_count :: int
  sinf_subdir_count_per_path :: int
  sinf_current_write_path :: int
  sinf_storage_port :: int
  sinf_storage_http_port :: int
  sinf_stat :: FDFSStorageStat
  sinf_if_trunk_server :: bool

text \<open>\<open>strcpy\<close> of the domain name and the version needs a zero byte inside the field: else the copy runs on.\<close>

definition parse_storage_stat :: "byte list \<Rightarrow> FDFSStorageInfo option" where
  "parse_storage_stat b =
     (if 0 \<notin> set (take 128 (drop 33 b)) \<or> 0 \<notin> set (take 6 (drop 177 b)) then None
      else Some \<lparr>sinf_status = sint (b ! 0), sinf_id = c_str (take 15 (drop 1 b)), sinf_ip_addr = c_str (take 15 (drop 17 b)),
        sinf_src_id = c_str (take 15 (drop 161 b)), sinf_domain_name = c_str (take 128 (drop 33 b)), sinf_version = c_str (take 6 (drop 177 b)),
        sinf_join_time = long_at b 183, sinf_up_time = long_at b 191, sinf_total_mb = c_int (long_at b 199), sinf_free_mb = c_int (long_at b 207),
        sinf_upload_priority = c_int (long_at b 215), sinf_store_path_count = c_int (long_at b 223),
        sinf_subdir_count_per_path = c_int (long_at b 231), sinf_current_write_path = c_int (long_at b 239),
        sinf_storage_port = c_int (long_at b 247), sinf_storage_http_port = c_int (long_at b 255),
        sinf_stat = \<lparr>st_counters = map (\<lambda>j. long_at b (263 + 8 * j)) [0..<38], st_last_source_update = long_at b 567,
          st_last_sync_update = long_at b 575, st_last_synced_timestamp = long_at b 583, st_last_heart_beat_time = long_at b 591\<rparr>,
        sinf_if_trunk_server = (b ! 599 \<noteq> 0)\<rparr>)"

definition list_servers_request :: "byte list \<Rightarrow> byte list option \<Rightarrow> byte list" where
  "list_servers_request szGroupName szStorageId =
     pad 16 szGroupName @ (case szStorageId of None \<Rightarrow> [] | Some sid \<Rightarrow> take 15 sid)"

definition tracker_list_servers ::
    "(byte \<Rightarrow> byte list \<Rightarrow> int + byte list) \<Rightarrow> int \<Rightarrow> byte list \<Rightarrow> byte list option \<Rightarrow> nat \<Rightarrow> (int + FDFSStorageInfo list) option" where
  "tracker_list_servers net net_error szGroupName szStorageId max_storages =
     (case tracker_exchange net net_error (600 * FDFS_MAX_GROUPS) 92 (list_servers_request szGroupName szStorageId) of
        Inl result \<Rightarrow> Some (Inl result)
      | Inr b \<Rightarrow>
          if length b mod 600 \<noteq> 0 then Some (Inl EINVAL)
          else if length b div 600 > max_storages then Some (Inl ENOSPC)
          else
            (let infos = parse_entries parse_storage_stat 600 (length b div 600) b
             in if None \<in> set infos then None else Some (Inr (map the infos))))"

section \<open>Round trips\<close>

definition group_stat :: "FDFSGroupInfo \<Rightarrow> FDFSGroupStat" where
  "group_stat g = \<lparr>gst_group_name = gi_group_name g, gst_total_mb = gi_total_mb g, gst_free_mb = gi_free_mb g,
     gst_trunk_free_mb = gi_trunk_free_mb g, gst_count = int (srv_count g), gst_storage_port = gi_storage_port g,
     gst_storage_http_port = gi_storage_http_port g, gst_active_count = int (length (gi_active_servers g)),
     gst_current_write_server = gi_current_write_server g, gst_store_path_count = gi_store_path_count g,
     gst_subdir_count_per_path = gi_subdir_count_per_path g, gst_current_trunk_file_id = gi_current_trunk_file_id g\<rparr>"

text \<open>The numbers fit the types of the struct.\<close>

definition group_stat_ok :: "FDFSGroupInfo \<Rightarrow> bool" where
  "group_stat_ok g \<longleftrightarrow> length (gi_group_name g) \<le> 16 \<and> 0 \<notin> set (gi_group_name g) \<and>
     list_all long_range [gi_total_mb g, gi_free_mb g, gi_trunk_free_mb g] \<and>
     list_all int_range [int (srv_count g), gi_storage_port g, gi_storage_http_port g, int (length (gi_active_servers g)),
       gi_current_write_server g, gi_store_path_count g, gi_subdir_count_per_path g, gi_current_trunk_file_id g]"

lemma take_pad: "length s \<le> n \<Longrightarrow> n \<le> m \<Longrightarrow> take n (pad m s) = pad n s"
  by (simp add: pad_def min_def take_replicate)

lemma parse_group_stat_bytes:
  assumes "group_stat_ok g"
  shows "parse_group_stat (group_stat_bytes g) = group_stat g"
  using assms
  by (simp add: parse_group_stat_def group_stat_bytes_def group_stat_def group_stat_ok_def long_at_def buff2long_long2buff int_long_range
      take_pad c_str_pad)

lemma parse_entries_concat:
  "\<lbrakk>\<And>x. x \<in> set xs \<Longrightarrow> length (enc x) = n; \<And>x. x \<in> set xs \<Longrightarrow> f (enc x) = v x\<rbrakk> \<Longrightarrow>
   parse_entries f n (length xs) (concat (map enc xs)) = map v xs"
  by (induction xs) auto

text \<open>The groups that a client lists are exactly the tracker's groups, in the order of their names, each with the name, the numbers of megabytes,
  servers and active servers and the settings that the tracker holds.\<close>

theorem client_list_groups:
  assumes reach: "tracker_reachable gs" and ok: "\<forall>k < length (gs_groups gs). group_stat_ok (grp gs k)"
    and h: "tracker_deal_server_list_all_groups gs [] = Some r" and net: "net 91 [] = Inr (tracker_response r)"
  shows "tracker_list_groups net net_error m =
      (if m < length (gs_groups gs) then Inl ENOSPC else Inr (map (\<lambda>k. group_stat (grp gs k)) (gs_sorted_groups gs))) \<and>
    set (gs_sorted_groups gs) = {..<length (gs_groups gs)} \<and> sorted_key (\<lambda>k. gi_group_name (grp gs k)) (gs_sorted_groups gs)"
proof -
  have gi: "groups_inv gs" using reachable_inv [OF reach] by (simp add: tracker_inv_def)
  have "length (gs_sorted_groups gs) = length (gs_groups gs)"
    using gi by (metis groups_inv_def size_mset length_upt diff_zero)
  then have sorted: "set (gs_sorted_groups gs) = {..<length (gs_groups gs)}" "length (gs_sorted_groups gs) = length (gs_groups gs)"
    using set_sorted_groups [OF gi] by auto
  let ?b = "concat (map (\<lambda>k. group_stat_bytes (grp gs k)) (gs_sorted_groups gs))"
  have len: "length ?b = 105 * length (gs_groups gs)"
    unfolding sorted(2) [symmetric] by (rule length_concat_const) (rule length_group_stat_bytes)
  have r: "r = Inr ?b" "length (gs_groups gs) \<le> 77"
    using h len by (auto simp: tracker_deal_server_list_all_groups_def Let_def split: if_splits)
  have "parse_entries parse_group_stat 105 (length (gs_sorted_groups gs)) ?b = map (\<lambda>k. group_stat (grp gs k)) (gs_sorted_groups gs)"
    using sorted(1) ok by (intro parse_entries_concat) (simp_all add: length_group_stat_bytes parse_group_stat_bytes)
  moreover have "tracker_exchange net net_error (105 * FDFS_MAX_GROUPS) 91 [] = Inr ?b"
    using net r len by (simp add: tracker_exchange_def recv_reply)
  ultimately have "tracker_list_groups net net_error m =
      (if m < length (gs_groups gs) then Inl ENOSPC else Inr (map (\<lambda>k. group_stat (grp gs k)) (gs_sorted_groups gs)))"
    unfolding tracker_list_groups_def using len sorted(2) by simp
  with sorted(1) gi show ?thesis by (simp add: groups_inv_def)
qed

theorem client_list_groups_witness:
  "tracker_list_groups (\<lambda>_ _. Inr (tracker_response (the (tracker_deal_server_list_all_groups demo_two [])))) 110 8 = Inr [group_stat (grp demo_two 0)]"
proof -
  have a: "length (gs_groups demo_two) = 1" "group_stat_ok (grp demo_two 0)" "gs_sorted_groups demo_two = [0]" by code_simp+
  then obtain r where h: "tracker_deal_server_list_all_groups demo_two [] = Some r"
    by (simp add: tracker_deal_server_list_all_groups_def Let_def length_group_stat_bytes)
  show ?thesis
    using client_list_groups [OF reachable_demo_two _ h, of "\<lambda>_ _. Inr (tracker_response r)" 110 8] a h by simp
qed

text \<open>The view of a server that a client gets.\<close>

definition storage_info :: "FDFSGroupInfo \<Rightarrow> nat \<Rightarrow> FDFSStorageInfo" where
  "storage_info g p =
     (let s = srv g p in
      \<lparr>sinf_status = sd_status s, sinf_id = sd_id s, sinf_ip_addr = sd_ip_addr s,
       sinf_src_id = (case sd_psync_src_server s of None \<Rightarrow> [] | Some j \<Rightarrow> sd_id (srv g j)), sinf_domain_name = sd_domain_name s,
       sinf_version = sd_version s, sinf_join_time = sd_join_time s, sinf_up_time = sd_up_time s, sinf_total_mb = sd_total_mb s,
       sinf_free_mb = sd_free_mb s, sinf_upload_priority = sd_upload_priority s, sinf_store_path_count = sd_store_path_count s,
       sinf_subdir_count_per_path = sd_subdir_count_per_path s, sinf_current_write_path = sd_current_write_path s,
       sinf_storage_port = sd_storage_port s, sinf_storage_http_port = sd_storage_http_port s, sinf_stat = sd_stat s,
       sinf_if_trunk_server = (gi_pTrunkServer g = Some p)\<rparr>)"

definition string_ok :: "nat \<Rightarrow> byte list \<Rightarrow> bool" where
  "string_ok n s \<longleftrightarrow> length s < n \<and> 0 \<notin> set s"

definition storage_stat_ok :: "FDFSGroupInfo \<Rightarrow> nat \<Rightarrow> bool" where
  "storage_stat_ok g p \<longleftrightarrow>
     (let s = srv g p; st = sd_stat s in
      sd_status s \<in> {-128..<128} \<and> string_ok 16 (sd_id s) \<and> string_ok 16 (sd_ip_addr s) \<and> string_ok 128 (sd_domain_name s) \<and>
      string_ok 6 (sd_version s) \<and> string_ok 16 (case sd_psync_src_server s of None \<Rightarrow> [] | Some j \<Rightarrow> sd_id (srv g j)) \<and>
      list_all long_range [sd_join_time s, sd_up_time s] \<and>
      list_all int_range [sd_total_mb s, sd_free_mb s, sd_upload_priority s, sd_store_path_count s, sd_subdir_count_per_path s,
        sd_current_write_path s, sd_storage_port s, sd_storage_http_port s] \<and>
      length (st_counters st) = 38 \<and> list_all long_range (st_counters st) \<and>
      list_all long_range [st_last_source_update st, st_last_sync_update st, st_last_synced_timestamp st, st_last_heart_beat_time st])"

lemma string_field: "string_ok n s \<Longrightarrow> c_str (pad n s) = s \<and> c_str (take (n - 1) (pad n s)) = s \<and> 0 \<in> set (pad n s)"
  by (auto simp: string_ok_def c_str_pad take_pad) (simp add: pad_def)

lemma long_at_concat:
  "\<lbrakk>list_all long_range xs; j < length xs\<rbrakk> \<Longrightarrow> buff2long (take 8 (drop (8 * j) (concat (map long2buff xs) @ r))) = xs ! j"
proof (induction xs arbitrary: j)
  case (Cons x xs)
  then show ?case by (cases j) (simp_all add: buff2long_long2buff)
qed simp

lemma length_longs: "length (concat (map long2buff xs)) = 8 * length xs"
  by (rule length_concat_const) simp

lemma parse_storage_stat_bytes:
  assumes "storage_stat_ok g p"
  shows "parse_storage_stat (storage_stat_bytes g p) = Some (storage_info g p)"
proof -
  define s st where "s = srv g p" and "st = sd_stat s"
  define sid where "sid = (case sd_psync_src_server s of None \<Rightarrow> [] | Some j \<Rightarrow> sd_id (srv g j))"
  have ok: "sd_status s \<in> {-128..<128}" "string_ok 16 (sd_id s)" "string_ok 16 (sd_ip_addr s)" "string_ok 128 (sd_domain_name s)"
    "string_ok 6 (sd_version s)" "string_ok 16 sid" "length (st_counters st) = 38" "list_all long_range (st_counters st)"
    using assms by (simp_all add: storage_stat_ok_def s_def st_def sid_def Let_def)
  have src: "(case sd_psync_src_server s of None \<Rightarrow> replicate 16 0 | Some j \<Rightarrow> pad 16 (sd_id (srv g j))) = pad 16 sid"
    by (simp add: sid_def pad_def split: option.split)
  define tl4 where "tl4 = long2buff (st_last_source_update st) @ long2buff (st_last_sync_update st) @
     long2buff (st_last_synced_timestamp st) @ long2buff (st_last_heart_beat_time st) @ [if gi_pTrunkServer g = Some p then 1 else 0 :: byte]"
  define cs where "cs = concat (map long2buff (st_counters st))"
  have "map (\<lambda>j. st_counters st ! j) [0..<38] = st_counters st" using ok(7) by (metis map_nth)
  then have nth38: "map (\<lambda>j. long2buff (st_counters st ! j)) [0..<38] = map long2buff (st_counters st)"
    by (metis (no_types, lifting) comp_apply map_eq_conv map_map)
  have b: "storage_stat_bytes g p = word_of_int (sd_status s) # pad 16 (sd_id s) @ pad 16 (sd_ip_addr s) @ pad 128 (sd_domain_name s) @ pad 16 sid @
      pad 6 (sd_version s) @ long2buff (sd_join_time s) @ long2buff (sd_up_time s) @ long2buff (sd_total_mb s) @ long2buff (sd_free_mb s) @
      long2buff (sd_upload_priority s) @ long2buff (sd_store_path_count s) @ long2buff (sd_subdir_count_per_path s) @
      long2buff (sd_current_write_path s) @ long2buff (sd_storage_port s) @ long2buff (sd_storage_http_port s) @ cs @ tl4"
    by (simp add: storage_stat_bytes_def Let_def s_def [symmetric] src stat_buff_def st_def [symmetric] nth38 cs_def tl4_def)
  have lcs: "length cs = 304" by (simp add: cs_def length_longs ok(7))
  have stat: "sint (word_of_int (sd_status s) :: byte) = sd_status s"
    unfolding sint_sbintrunc' using ok(1) by (intro signed_take_bit_int_eq_self) simp_all
  have "drop 263 (storage_stat_bytes g p) = cs @ tl4" by (simp add: b)
  then have "drop (263 + 8 * j) (storage_stat_bytes g p) = drop (8 * j) (cs @ tl4)" for j by (metis add.commute drop_drop)
  then have "long_at (storage_stat_bytes g p) (263 + 8 * j) = st_counters st ! j" if "j < 38" for j
    using long_at_concat [OF ok(8), of j tl4] that ok(7) by (simp only: long_at_def cs_def)
  then have cnt: "map (\<lambda>j. long_at (storage_stat_bytes g p) (263 + 8 * j)) [0..<38] = st_counters st"
    using ok(7) by (intro nth_equalityI) simp_all
  have flag: "storage_stat_bytes g p ! 599 = (if gi_pTrunkServer g = Some p then 1 else 0)" by (simp add: b nth_append nth_Cons' lcs tl4_def)
  show "parse_storage_stat (storage_stat_bytes g p) = Some (storage_info g p)"
    unfolding parse_storage_stat_def cnt flag
    using assms string_field [OF ok(2)] string_field [OF ok(3)] string_field [OF ok(4)] string_field [OF ok(5)] string_field [OF ok(6)]
    by (simp add: b lcs tl4_def stat long_at_def storage_stat_ok_def storage_info_def Let_def s_def [symmetric] st_def [symmetric] sid_def [symmetric]
        buff2long_long2buff int_long_range)
qed

text \<open>C11. The servers that a client lists for a group, or the one it asks for by id, are exactly the tracker's servers, in the order of their ids, with their
  status, addresses, settings and all 42 statistics, and the mark of the trunk server.\<close>

theorem client_list_servers:
  assumes reach: "tracker_reachable gs" and k: "k < length (gs_groups gs)" "gi_group_name (grp gs k) = name" "string_ok 17 name"
    and ok: "\<forall>p < srv_count (grp gs k). storage_stat_ok (grp gs k) p" and sid: "\<forall>v. sid = Some v \<longrightarrow> v \<noteq> [] \<and> string_ok 16 v"
    and h: "tracker_deal_server_list_group_storages gs (list_servers_request name sid) = Some r"
    and net: "net 92 (list_servers_request name sid) = Inr (tracker_response r)" and m: "srv_count (grp gs k) \<le> m"
  shows "tracker_list_servers net net_error name sid m = Some (
    let servers = filter (\<lambda>p. sid = None \<or> sid = Some (sd_id (srv (grp gs k) p))) (gi_sorted_servers (grp gs k))
    in if sid \<noteq> None \<and> servers = [] then Inl ENOENT else Inr (map (storage_info (grp gs k)) servers))"
proof -
  let ?g = "grp gs k" and ?body = "list_servers_request name sid"
  define servers where "servers = filter (\<lambda>p. sid = None \<or> sid = Some (sd_id (srv ?g p))) (gi_sorted_servers ?g)"
  have gi: "groups_inv gs" using reachable_inv [OF reach] by (simp add: tracker_inv_def)
  have so: "sorted_ok ?g" using groups_inv_grp [OF gi k(1)] by (simp add: group_inv_def)
  have nm: "c_str (pad 16 name) = name" using k(3) by (intro c_str_pad) (simp_all add: string_ok_def)
  have lk: "tracker_mem_get_group_ex gs name = Some k" using get_group_iff [OF gi] k by simp
  have body: "length ?body \<ge> 16" "length ?body < 32" "c_str (take 16 ?body) = name" "length ?body > 16 \<longleftrightarrow> sid \<noteq> None"
    "sid = Some v \<Longrightarrow> c_str (drop 16 ?body) = v" for v
    using sid nm by (auto simp: list_servers_request_def string_ok_def c_str_plain split: option.split)
  have sel: "(if length ?body > 16 then filter (\<lambda>p. strcmp (c_str (drop 16 ?body)) (sd_id (srv ?g p)) = 0) (gi_sorted_servers ?g) else gi_sorted_servers ?g) = servers"
    unfolding servers_def body(4) using body(5) by (cases sid) auto
  have h': "tracker_deal_server_list_group_storages gs ?body =
      (if length ?body > 16 \<and> servers = [] then Some (Inl ENOENT) else if 10 + length (concat (map (storage_stat_bytes ?g) servers)) > 8192 then None
       else Some (Inr (concat (map (storage_stat_bytes ?g) servers))))"
    using body(1,2) unfolding tracker_deal_server_list_group_storages_def body(3) lk option.case Let_def sel by simp
  show ?thesis
  proof (cases "sid \<noteq> None \<and> servers = []")
    case True
    then have "r = Inl ENOENT" using h h' body(4) by simp
    then have "tracker_exchange net net_error n 92 ?body = Inl ENOENT" for n by (simp add: tracker_exchange_def net recv_error)
    then show ?thesis using True by (simp add: tracker_list_servers_def servers_def Let_def)
  next
    case False
    let ?b = "concat (map (storage_stat_bytes ?g) servers)"
    have len: "length ?b = 600 * length servers" by (rule length_concat_const) (rule length_storage_stat_bytes)
    have r: "r = Inr ?b" "length servers \<le> 13" using h h' len False body(4) by (auto split: if_splits)
    have each: "storage_stat_ok ?g p" if "p \<in> set servers" for p using that ok set_sorted_servers [OF so] by (auto simp: servers_def)
    have "length servers \<le> srv_count ?g" unfolding servers_def by (metis length_filter_le sorted_count [OF so])
    moreover have "tracker_exchange net net_error (600 * FDFS_MAX_GROUPS) 92 ?body = Inr ?b"
      using net r len by (simp add: tracker_exchange_def recv_reply)
    moreover have "parse_entries parse_storage_stat 600 (length servers) ?b = map (\<lambda>p. Some (storage_info ?g p)) servers"
      by (rule parse_entries_concat) (simp_all add: length_storage_stat_bytes parse_storage_stat_bytes each)
    ultimately have "tracker_list_servers net net_error name sid m = Some (Inr (map (storage_info ?g) servers))"
      unfolding tracker_list_servers_def using len m by (simp add: image_iff comp_def)
    then show ?thesis using False by (simp add: servers_def Let_def)
  qed
qed

theorem client_list_servers_witness:
  "tracker_list_servers (\<lambda>_ b. Inr (tracker_response (the (tracker_deal_server_list_group_storages demo_two b)))) 110 [103] (Some [50]) 32 =
     Some (Inr [storage_info (grp demo_two 0) 1])"
proof -
  let ?net = "\<lambda>_ b. Inr (tracker_response (the (tracker_deal_server_list_group_storages demo_two b)))"
  have a: "gi_group_name (grp demo_two 0) = [103]" "srv_count (grp demo_two 0) = 2" "gi_sorted_servers (grp demo_two 0) = [0, 1]"
    "sd_id (srv (grp demo_two 0) 0) = [49]" "sd_id (srv (grp demo_two 0) 1) = [50]" by code_simp+
  have ok: "\<forall>p \<in> set [0..<2]. storage_stat_ok (grp demo_two 0) p" by code_simp
  have "tracker_deal_server_list_group_storages demo_two (list_servers_request [103] (Some [50])) \<noteq> None" by code_simp
  then obtain r where h: "tracker_deal_server_list_group_storages demo_two (list_servers_request [103] (Some [50])) = Some r" by blast
  show ?thesis
    using client_list_servers [where net = ?net and net_error = 110 and m = 32, OF reachable_demo_two _ a(1) _ _ _ h] a(2-) ok
    by (simp add: demo_two_state string_ok_def h)
qed

end
