(* ===== verification/Storage_Ids_Sync.thy ===== *)
theory Storage_Ids_Sync
  imports Tracker_Client
begin

text \<open>
  How a storage server or a client gets the table of server ids from a tracker (\<open>tracker/fdfs_shared_func.c\<close>,
  \<open>fdfs_get_storage_ids_from_tracker_server\<close> and \<open>fdfs_get_storage_ids_from_tracker_group\<close>): the tracker prints its table in
  replies of at most a buffer, the receiver joins the texts and parses them like a configuration file. The table received
  is shown to be the tracker's.
\<close>

section \<open>Operations\<close>

text \<open>
  The loop of requests, with \<open>loops\<close> the number of further requests that \<open>MAX_REQUEST_LOOP\<close> allows. The result is the text of
  the replies, or the error. \<open>start_index\<close> is an \<open>int\<close>.
\<close>

fun fetch_ids_loop ::
    "(byte \<Rightarrow> byte list \<Rightarrow> int + byte list) \<Rightarrow> int \<Rightarrow> int \<Rightarrow> nat \<Rightarrow> int \<Rightarrow> int + byte list" where
  "fetch_ids_loop net net_error mem loops start_index =
     (case (case net 69 (int2buff start_index) of
              Inl result \<Rightarrow> Inl result
            | Inr received \<Rightarrow> fdfs_recv_response net_error mem None received) of
        Inl result \<Rightarrow> Inl result
      | Inr response \<Rightarrow>
          if length response < 8 then Inl EINVAL
          else
            (let total_count = buff2int response;
                 current_count = buff2int (drop 4 response);
                 next = c_int (start_index + current_count)
             in if total_count \<le> start_index then Inl EINVAL
                else if current_count \<le> 0 then Inl EINVAL
                else if next \<ge> total_count then Inr (drop 8 response)
                else
                  (case loops of
                     0 \<Rightarrow> Inl ENOSPC
                   | Suc n \<Rightarrow>
                       (case fetch_ids_loop net net_error mem n next of
                          Inl result \<Rightarrow> Inl result
                        | Inr rest \<Rightarrow> Inr (drop 8 response @ rest)))))"

declare fetch_ids_loop.simps [simp del]

text \<open>\<open>conn\<close> is the result of connecting, \<open>mem\<close> that of the allocations for the replies and their joined text.\<close>

definition fdfs_get_storage_ids_from_tracker_server ::
    "int \<Rightarrow> (byte \<Rightarrow> byte list \<Rightarrow> int + byte list) \<Rightarrow> int \<Rightarrow> int \<times> int \<Rightarrow> bool \<times> bool \<times> bool \<Rightarrow> (byte list \<Rightarrow> byte list option) \<Rightarrow>
       int + storage_id_table" where
  "fdfs_get_storage_ids_from_tracker_server conn net net_error mem load_mem resolve =
     (if conn \<noteq> 0 then Inl conn
      else
        (case fetch_ids_loop net net_error (fst mem) 31 0 of
           Inl result \<Rightarrow> Inl result
         | Inr content \<Rightarrow> if snd mem \<noteq> 0 then Inl (snd mem) else fdfs_load_storage_ids load_mem resolve (c_str content)))"

text \<open>
  Five rounds over the trackers, the first from the leader on when one is known. \<open>get k i\<close> is what asking tracker \<open>i\<close> gives
  in round \<open>k\<close>.
\<close>

fun ids_from_servers :: "(nat \<Rightarrow> int + 'a) \<Rightarrow> nat list \<Rightarrow> int \<Rightarrow> int + 'a" where
  "ids_from_servers get [] result = Inl result"
| "ids_from_servers get (i # js) result =
     (case get i of Inr t \<Rightarrow> Inr t | Inl e \<Rightarrow> ids_from_servers get js e)"

fun ids_rounds :: "(nat \<Rightarrow> nat \<Rightarrow> int + 'a) \<Rightarrow> nat \<Rightarrow> nat \<Rightarrow> nat \<Rightarrow> nat \<Rightarrow> int \<Rightarrow> int + 'a" where
  "ids_rounds get server_count 0 k start result = Inl result"
| "ids_rounds get server_count (Suc n) k start result =
     (case ids_from_servers (get k) [start..<server_count] result of
        Inr t \<Rightarrow> Inr t
      | Inl e \<Rightarrow> ids_rounds get server_count n (Suc k) 0 e)"

definition fdfs_get_storage_ids_from_tracker_group :: "(nat \<Rightarrow> nat \<Rightarrow> int + 'a) \<Rightarrow> nat \<Rightarrow> int \<Rightarrow> int + 'a" where
  "fdfs_get_storage_ids_from_tracker_group get server_count leader_index =
     ids_rounds get server_count 5 0 (if leader_index \<ge> 0 then nat leader_index else 0) ENOENT"

section \<open>The text of a table\<close>

text \<open>Entries that the parser can have made: a valid id, a group name without separators, the text of an address.\<close>

definition id_info_ok :: "FDFSStorageIdInfo \<Rightarrow> bool" where
  "id_info_ok e \<longleftrightarrow> fdfs_is_server_id_valid (si_id e) \<and>
     si_group_name e \<noteq> [] \<and> length (si_group_name e) \<le> 23 \<and> (\<forall>c \<in> set (si_group_name e). \<not> is_sep c \<and> c \<noteq> 10 \<and> c \<noteq> 0) \<and>
     (\<exists>x. int_range x \<and> si_ip_addr e = inet_ntop x)"

lemma inet_ntop_chars:
  "c \<in> set (inet_ntop x) \<Longrightarrow> c = 46 \<or> 48 \<le> c \<and> c \<le> 57"
proof -
  assume "c \<in> set (inet_ntop x)"
  then have "c \<in> set (concat (map (\<lambda>b. 46 # print_dec (unat b)) (rev (int2buff x))))"
    unfolding inet_ntop_def by (cases "concat (map (\<lambda>b. 46 # print_dec (unat b)) (rev (int2buff x)))") auto
  then show ?thesis using print_dec_digits by (auto split: if_splits)
qed

lemma inet_ntop_length: "inet_ntop x \<noteq> [] \<and> length (inet_ntop x) \<le> 15"
proof -
  have b: "length (print_dec (unat b)) \<le> 3" for b :: byte using print_dec_length [of "unat b" 3] unat_byte_less [of b] by simp
  have p: "0 < length (print_dec (unat b))" for b :: byte using print_dec_nonempty by simp
  obtain b1 b2 b3 b4 where i: "int2buff x = [b1, b2, b3, b4]" by (simp add: int2buff_def)
  have "inet_ntop x = print_dec (unat b4) @ 46 # print_dec (unat b3) @ 46 # print_dec (unat b2) @ 46 # print_dec (unat b1)"
    by (simp add: inet_ntop_def i)
  then show ?thesis using b [of b1] b [of b2] b [of b3] b [of b4] p [of b4] by simp
qed

text \<open>A field in which no character is special.\<close>

definition plain :: "byte list \<Rightarrow> bool" where
  "plain s \<longleftrightarrow> s \<noteq> [] \<and> (\<forall>c \<in> set s. c \<noteq> 0 \<and> \<not> is_blank c \<and> c \<noteq> 35)"

lemma digit_plain: "48 \<le> c \<and> c \<le> 57 \<or> c = 46 \<Longrightarrow> c \<noteq> 0 \<and> \<not> is_blank c \<and> c \<noteq> (35 :: byte)"
  by (auto simp: is_blank_def)

lemma id_info_fields:
  assumes "id_info_ok e"
  shows "plain (si_id e)" "plain (si_ip_addr e)" "length (si_id e) \<le> 8" "length (si_ip_addr e) \<le> 15"
proof -
  obtain n where n: "int n \<le> FDFS_MAX_SERVER_ID" "si_id e = print_dec n" using assms by (auto simp: id_info_ok_def server_id_valid_iff)
  show "length (si_id e) \<le> 8" using n print_dec_id_length by simp
  show "plain (si_id e)" unfolding plain_def n(2) using print_dec_nonempty print_dec_digits digit_plain by blast
  obtain x where x: "si_ip_addr e = inet_ntop x" using assms by (auto simp: id_info_ok_def)
  show "length (si_ip_addr e) \<le> 15" using inet_ntop_length x by simp
  show "plain (si_ip_addr e)" unfolding plain_def x using inet_ntop_length inet_ntop_chars digit_plain by blast
qed

lemma storage_id_line_length: "id_info_ok e \<Longrightarrow> length (storage_id_line e) \<le> 49 \<and> 0 < length (storage_id_line e)"
  using id_info_fields [of e] by (simp add: storage_id_line_def id_info_ok_def)

text \<open>The line of an entry, without the newline, is read back as the entry.\<close>

definition id_line :: "FDFSStorageIdInfo \<Rightarrow> byte list" where
  "id_line e = si_id e @ 32 # si_group_name e @ 32 # si_ip_addr e"

lemma storage_id_line_snoc: "storage_id_line e = id_line e @ [10]"
  by (simp add: storage_id_line_def id_line_def)

lemma id_line_text:
  assumes "id_info_ok e"
  shows "10 \<notin> set (id_line e)" "0 \<notin> set (id_line e)" "trim (id_line e) = id_line e" "\<not> is_comment (id_line e)"
proof -
  note f = id_info_fields [OF assms]
  have g: "10 \<notin> set (si_group_name e)" "0 \<notin> set (si_group_name e)" using assms by (auto simp: id_info_ok_def)
  have p: "10 \<notin> set s" "0 \<notin> set s" if "plain s" for s using that by (auto simp: plain_def is_blank_def)
  show "10 \<notin> set (id_line e)" "0 \<notin> set (id_line e)" using g p [OF f(1)] p [OF f(2)] by (simp_all add: id_line_def)
  obtain c ds where c: "si_id e = c # ds" "\<not> is_blank c" "c \<noteq> 35" using f(1) by (cases "si_id e") (auto simp: plain_def)
  obtain d us where d: "si_ip_addr e = us @ [d]" "\<not> is_blank d" using f(2) by (cases "si_ip_addr e" rule: rev_cases) (auto simp: plain_def)
  show "trim (id_line e) = id_line e" by (simp add: trim_def trim_left_def trim_right_def id_line_def c d)
  show "\<not> is_comment (id_line e)" by (simp add: is_comment_def id_line_def c)
qed

lemma is_sep_space: "is_sep 32"
  by (simp add: is_sep_def)

lemma is_comment_Nil: "is_comment []"
  by (simp add: is_comment_def)

lemma load_id_line:
  assumes "id_info_ok e" and "resolve (si_ip_addr e) = Some (si_ip_addr e)"
  shows "load_storage_id_line resolve (id_line e) = Inr e"
proof -
  note f = id_info_fields [OF assms(1)]
  have sep: "\<forall>c \<in> set s. \<not> is_sep c" if "plain s" for s using that by (auto simp: plain_def is_blank_def is_sep_def)
  have ns: "takeWhile (\<lambda>c. \<not> is_sep c) (s @ 32 # t) = s" "dropWhile (\<lambda>c. \<not> is_sep c) (s @ 32 # t) = 32 # t" if "\<forall>c \<in> set s. \<not> is_sep c" for s t
    using that by (simp_all add: takeWhile_append2 dropWhile_append2 is_sep_def)
  have g: "\<forall>c \<in> set (si_group_name e). \<not> is_sep c" using assms(1) by (simp add: id_info_ok_def)
  have hd0: "dropWhile is_sep (s @ t) = s @ t" if "s \<noteq> []" "\<forall>c \<in> set s. \<not> is_sep c" for s t using that by (cases s) auto
  have ip: "dropWhile is_sep (si_ip_addr e) = si_ip_addr e"
    using hd0 [of "si_ip_addr e" "[]"] sep [OF f(2)] f(2) by (simp add: plain_def)
  have gn: "si_group_name e \<noteq> []" "length (si_group_name e) \<le> 23" "fdfs_is_server_id_valid (si_id e)"
    using assms(1) by (simp_all add: id_info_ok_def)
  show ?thesis
    using assms(2) f(3,4) gn by (simp add: load_storage_id_line_def id_line_def ns [OF sep [OF f(1)]] ns [OF g] hd0 [OF gn(1) g] ip Let_def is_sep_space)
qed

lemma load_id_lines:
  "\<lbrakk>\<forall>e \<in> set es. id_info_ok e; \<forall>e \<in> set es. resolve (si_ip_addr e) = Some (si_ip_addr e)\<rbrakk> \<Longrightarrow>
   load_storage_id_lines resolve (map id_line es @ [[]]) = Inr es"
  by (induction es) (simp_all add: id_line_text load_id_line is_comment_Nil)

lemma split_lines:
  "\<forall>l \<in> set ls. 10 \<notin> set l \<Longrightarrow> splitEx_loop (Suc (length ls)) 10 (concat (map (\<lambda>l. l @ [10]) ls)) = ls @ [[]]"
proof (induction ls)
  case (Cons l ls)
  have s: "strchr (l @ 10 # t) 10 = Some (length l)" if "10 \<notin> set l" for l t :: "byte list"
    using that by (induction l) auto
  show ?case using Cons s [of l "concat (map (\<lambda>l. l @ [10]) ls)"] by simp
qed simp

lemma count_lines:
  "\<forall>l \<in> set ls. 10 \<notin> set l \<Longrightarrow> getOccurCount (concat (map (\<lambda>l. l @ [10]) ls)) 10 = int (length ls)"
  unfolding getOccurCount_def occur_loop by (induction ls) (simp_all add: count_list_0_iff)

text \<open>Parsing the text of a table that was loaded gives the table.\<close>

lemma load_table_text:
  assumes ok: "\<forall>e \<in> set (g_storage_ids_by_ip t). id_info_ok e"
    and res: "\<forall>e \<in> set (g_storage_ids_by_ip t). resolve (si_ip_addr e) = Some (si_ip_addr e)"
    and ne: "g_storage_ids_by_ip t \<noteq> []"
    and sorted: "sorted_key (\<lambda>e. (si_group_name e, si_ip_addr e)) (g_storage_ids_by_ip t)"
    and by_id: "g_storage_ids_by_id t = qsort (\<lambda>i j. fdfs_cmp_server_id (g_storage_ids_by_ip t ! i) (g_storage_ids_by_ip t ! j)) [0..<length (g_storage_ids_by_ip t)]"
  shows "fdfs_load_storage_ids (True, True, True) resolve (concat (map storage_id_line (g_storage_ids_by_ip t))) = Inr t"
proof -
  let ?es = "g_storage_ids_by_ip t" and ?text = "concat (map storage_id_line (g_storage_ids_by_ip t))"
  have lines: "?text = concat (map (\<lambda>l. l @ [10]) (map id_line ?es))" by (simp add: storage_id_line_snoc [abs_def] comp_def)
  have nl: "\<forall>l \<in> set (map id_line ?es). 10 \<notin> set l" using ok id_line_text by auto
  have sp: "split True ?text 10 0 = Some (map id_line ?es @ [[]])"
    using split_equals_splitEx [of True ?text 10 0] split_lines [OF nl] count_lines [OF nl]
    by (simp add: splitEx_def lines nat_add_distrib)
  have "trim [] = []" by (simp add: trim_def trim_left_def trim_right_def)
  then have tr: "map trim (map id_line ?es @ [[]]) = map id_line ?es @ [[]]" using ok id_line_text by simp
  have "filter (\<lambda>line. \<not> is_comment line) (map id_line ?es @ [[]]) = map id_line ?es"
    using ok id_line_text by (auto simp: filter_id_conv is_comment_Nil)
  moreover have "?es = qsort fdfs_cmp_group_name_and_ip ?es"
    using group_ip.qsort_unique [where deref = "\<lambda>p. p" and xs = ?es and ys = ?es] sorted sorted_key_distinct [OF sorted] by simp
  ultimately show ?thesis
    using ne by_id load_id_lines [OF ok res]
    by (simp add: fdfs_load_storage_ids_def sp tr Let_def del: map_append)
qed

section \<open>The requests\<close>

text \<open>One reply carries the lines of the first entries, at least 166 of them when there are as many.\<close>

lemma storage_ids_text_spec:
  assumes "\<forall>e \<in> set es. id_info_ok e" "storage_ids_text off es = (n, t)" "off + 49 * k \<le> 8177"
  shows "n \<le> length es \<and> min (length es) k \<le> n \<and> t = concat (map storage_id_line (take n es)) \<and> off + length t \<le> max off 8177"
  using assms
proof (induction es arbitrary: off n t k)
  case (Cons e es)
  have len: "length (storage_id_line e) \<le> 49" using Cons.prems(1) storage_id_line_length by simp
  show ?case
  proof (cases "off > 8128")
    case True
    then have "k = 0" using Cons.prems(3) by (cases k) auto
    then show ?thesis using True Cons.prems(2) by auto
  next
    case False
    obtain n' t' where r: "storage_ids_text (off + length (storage_id_line e)) es = (n', t')" by fastforce
    have k: "off + length (storage_id_line e) + 49 * (k - 1) \<le> 8177" using Cons.prems(3) False len by (cases k) auto
    have "n = Suc n'" "t = storage_id_line e @ t'" using Cons.prems(2) False r by simp_all
    then show ?thesis using Cons.IH [OF _ r k] Cons.prems(1) False len by auto
  qed
qed auto

text \<open>One round of the loop against a tracker with the table \<open>ids\<close>.\<close>

lemma fetch_ids_step:
  assumes use: "g_use_storage_id env" and ids: "g_storage_ids_by_ip (g_storage_ids env) = ids"
    and ok: "\<forall>e \<in> set ids. id_info_ok e" and len: "length ids < 2 ^ 31" and k: "k < length ids"
    and net: "\<forall>i. net 69 (int2buff i) = Inr (tracker_response (tracker_deal_fetch_storage_ids env (int2buff i)))"
  shows "\<exists>n \<le> length ids - k. min (length ids - k) 166 \<le> n \<and>
    fetch_ids_loop net net_error 0 loops (int k) =
      (let t = concat (map storage_id_line (take n (drop k ids))) in
       if length ids \<le> k + n then Inr t
       else (case loops of 0 \<Rightarrow> Inl ENOSPC | Suc m \<Rightarrow> map_sum id (\<lambda>rest. t @ rest) (fetch_ids_loop net net_error 0 m (int (k + n)))))"
proof -
  obtain n t where r: "storage_ids_text 18 (drop k ids) = (n, t)" by fastforce
  have ok': "\<forall>e \<in> set (drop k ids). id_info_ok e" using ok by (meson in_set_dropD)
  note sp = storage_ids_text_spec [OF ok' r, of 166, simplified]
  then have t: "n \<le> length ids - k" "min (length ids - k) 166 \<le> n" "concat (map storage_id_line (take n (drop k ids))) = t" "length t \<le> 8159" by blast+
  have ranges: "int_range (int (length ids))" "int_range (int n)" "int_range (int k)" "int_range (int k + int n)" "0 < n"
    using len t(1,2) k by (auto simp: int_range_def)
  have reply: "tracker_deal_fetch_storage_ids env (int2buff (int k)) = Inr (int2buff (int (length ids)) @ int2buff (int n) @ t)"
    using use ids r ranges k by (simp add: tracker_deal_fetch_storage_ids_def buff2int_int2buff)
  have body8: "drop 8 (int2buff a @ int2buff b @ t) = t" for a b by simp
  have "fetch_ids_loop net net_error 0 loops (int k) =
       (if length ids \<le> k + n then Inr t
        else (case loops of 0 \<Rightarrow> Inl ENOSPC | Suc m \<Rightarrow> map_sum id (\<lambda>rest. t @ rest) (fetch_ids_loop net net_error 0 m (int (k + n)))))"
    using spec [OF net, of "int k"] reply t(4) ranges k
    by (subst fetch_ids_loop.simps) (auto simp: recv_alloc Let_def body8 split: nat.split sum.split)
  then show ?thesis by (intro exI [of _ n] conjI t(1,2)) (simp only: Let_def t(3))
qed

lemma fetch_ids_loop_text:
  assumes use: "g_use_storage_id env" and ids: "g_storage_ids_by_ip (g_storage_ids env) = ids"
    and ok: "\<forall>e \<in> set ids. id_info_ok e" and len: "length ids < 2 ^ 31"
    and net: "\<forall>i. net 69 (int2buff i) = Inr (tracker_response (tracker_deal_fetch_storage_ids env (int2buff i)))"
  defines "lines \<equiv> \<lambda>es. concat (map storage_id_line es)"
  shows "k < length ids \<Longrightarrow> fetch_ids_loop net net_error 0 loops (int k) = Inr (lines (drop k ids)) \<or>
    fetch_ids_loop net net_error 0 loops (int k) = Inl ENOSPC \<and> 166 * Suc loops < length ids - k"
proof (induction loops arbitrary: k)
  case 0
  then obtain n where n: "n \<le> length ids - k" "min (length ids - k) 166 \<le> n"
    "fetch_ids_loop net net_error 0 0 (int k) = (if length ids \<le> k + n then Inr (lines (take n (drop k ids))) else Inl ENOSPC)"
    using fetch_ids_step [where net = net, OF use ids ok len 0 net, of net_error 0] unfolding lines_def Let_def nat.case by blast
  then show ?case by (cases "length ids \<le> k + n") auto
next
  case (Suc loops)
  then obtain n where n: "n \<le> length ids - k" "min (length ids - k) 166 \<le> n"
    "fetch_ids_loop net net_error 0 (Suc loops) (int k) = (if length ids \<le> k + n then Inr (lines (take n (drop k ids)))
       else map_sum id (\<lambda>rest. lines (take n (drop k ids)) @ rest) (fetch_ids_loop net net_error 0 loops (int (k + n))))"
    using fetch_ids_step [where net = net, OF use ids ok len Suc.prems net, of net_error "Suc loops"] unfolding lines_def Let_def nat.case by blast
  have "lines (take n (drop k ids)) @ lines (drop (k + n) ids) = lines (drop k ids)"
    unfolding lines_def by (metis add.commute append_take_drop_id concat_append drop_drop map_append)
  then show ?case using n Suc.IH [of "k + n"] by (cases "length ids \<le> k + n") auto
qed

section \<open>The table received\<close>

text \<open>What a loaded table consists of.\<close>

lemma load_line_ok:
  assumes "load_storage_id_line resolve line = Inr e" and "10 \<notin> set line" "0 \<notin> set line"
    and "\<And>h ip. resolve h = Some ip \<Longrightarrow> \<exists>x. int_range x \<and> ip = inet_ntop x"
  shows "id_info_ok e"
proof -
  define sid rest where "sid = takeWhile (\<lambda>c. \<not> is_sep c) line" and "rest = dropWhile (\<lambda>c. \<not> is_sep c) line"
  define p where "p = dropWhile is_sep (tl rest)"
  define g where "g = takeWhile (\<lambda>c. \<not> is_sep c) p"
  define q where "q = dropWhile (\<lambda>c. \<not> is_sep c) p"
  have "load_storage_id_line resolve line =
      (if rest = [] then Inl EINVAL else if q = [] then Inl EINVAL
       else (case resolve (dropWhile is_sep (tl q)) of None \<Rightarrow> Inl EINVAL
             | Some ip \<Rightarrow> if \<not> fdfs_is_server_id_valid sid then Inl EINVAL
                 else Inr \<lparr>si_id = take 15 sid, si_group_name = take 23 g, si_ip_addr = take 15 ip\<rparr>))"
    unfolding load_storage_id_line_def Let_def sid_def rest_def p_def g_def q_def ..
  with assms(1) obtain h ip where e: "e = \<lparr>si_id = take 15 sid, si_group_name = take 23 g, si_ip_addr = take 15 ip\<rparr>"
    and h: "resolve h = Some ip" and v: "fdfs_is_server_id_valid sid" and p: "q \<noteq> []"
    by (simp split: if_splits option.splits) metis
  obtain x where x: "int_range x" "ip = inet_ntop x" using assms(4) [OF h] by blast
  have "length sid \<le> 8" using v print_dec_id_length by (auto simp: server_id_valid_iff)
  moreover have "take 15 ip = ip" using inet_ntop_length x by simp
  moreover have "g \<noteq> []"
    using p hd_dropWhile [of is_sep "tl rest"] unfolding g_def q_def p_def by (cases "dropWhile is_sep (tl rest)") auto
  moreover have "\<not> is_sep c \<and> c \<in> set line" if "c \<in> set g" for c
  proof -
    have "c \<in> set p" "\<not> is_sep c" using that unfolding g_def by (auto dest: set_takeWhileD)
    then have "c \<in> set (tl rest)" unfolding p_def by (auto dest: set_dropWhileD)
    then have "c \<in> set rest" by (cases rest) auto
    with \<open>\<not> is_sep c\<close> show ?thesis unfolding rest_def by (auto dest: set_dropWhileD)
  qed
  ultimately show ?thesis using assms(2,3) v x by (auto simp: id_info_ok_def e dest!: in_set_takeD)
qed

lemma join_cols_set: "col \<in> set cols \<Longrightarrow> set col \<subseteq> set (join_cols sep cols)"
  by (induction sep cols rule: join_cols.induct) auto

lemma split_columns:
  "col \<in> set (splitEx_loop (Suc (count_list p sep)) sep p) \<Longrightarrow> sep \<notin> set col \<and> set col \<subseteq> set p"
proof -
  let ?k = "Suc (count_list p sep)"
  have same: "splitEx_loop (Suc ?k) sep p = splitEx_loop ?k sep p" using splitEx_loop_enough [of "Suc ?k" sep p] by (simp del: splitEx_loop.simps)
  have len: "length (splitEx_loop ?k sep p) = ?k" by (simp only: splitEx_loop_length min.idem)
  have sp: "join_cols sep (splitEx_loop ?k sep p) = p" "\<forall>col \<in> set (butlast (splitEx_loop ?k sep p)). sep \<notin> set col"
    "sep \<notin> set (last (splitEx_loop ?k sep p))"
    using splitEx_loop_spec [of "Suc ?k" sep p] unfolding same len by (simp_all del: splitEx_loop.simps)
  assume col: "col \<in> set (splitEx_loop ?k sep p)"
  then have "col \<in> set (butlast (splitEx_loop ?k sep p)) \<or> col = last (splitEx_loop ?k sep p)"
    by (cases "splitEx_loop ?k sep p" rule: rev_cases) (auto simp del: splitEx_loop.simps)
  then show ?thesis using sp join_cols_set [OF col, of sep] by (auto simp del: splitEx_loop.simps)
qed

lemma load_lines_member:
  "\<lbrakk>load_storage_id_lines resolve lines = Inr infos; e \<in> set infos\<rbrakk> \<Longrightarrow> \<exists>l \<in> set lines. load_storage_id_line resolve l = Inr e"
  by (induction lines arbitrary: infos) (auto split: if_splits sum.splits)

lemma load_lines_length:
  "load_storage_id_lines resolve lines = Inr infos \<Longrightarrow> length infos = length (filter (\<lambda>l. \<not> is_comment l) lines)"
  by (induction lines arbitrary: infos) (auto split: if_splits sum.splits)

lemma set_trim: "set (trim s) \<subseteq> set s"
  unfolding trim_def trim_left_def trim_right_def by (auto dest!: set_dropWhileD)

lemma loaded_table:
  assumes load: "fdfs_load_storage_ids mem resolve content = Inr t" and nul: "0 \<notin> set content"
    and res: "\<And>h ip. resolve h = Some ip \<Longrightarrow> \<exists>x. int_range x \<and> ip = inet_ntop x"
  shows "g_storage_ids_by_ip t \<noteq> []" "\<forall>e \<in> set (g_storage_ids_by_ip t). id_info_ok e"
proof -
  obtain m1 m2 m3 where mem: "mem = (m1, m2, m3)" by (cases mem)
  have sp: "split m1 content 10 0 = Some (if m1 then splitEx content 10 (getOccurCount content 10 + 1) else [])"
    using split_equals_splitEx [of m1 content 10 0] by simp
  define cols where "cols = splitEx_loop (Suc (count_list content 10)) 10 content"
  have cols: "splitEx content 10 (getOccurCount content 10 + 1) = cols"
    by (simp add: splitEx_def getOccurCount_def occur_loop nat_add_distrib cols_def del: splitEx_loop.simps)
  from load obtain infos where l: "load_storage_id_lines resolve (map trim cols) = Inr infos"
    and ne: "filter (\<lambda>l. \<not> is_comment l) (map trim cols) \<noteq> []" and t: "g_storage_ids_by_ip t = qsort fdfs_cmp_group_name_and_ip infos"
    by (auto simp: fdfs_load_storage_ids_def mem sp cols Let_def split: if_splits sum.splits)
  have "length infos \<noteq> 0" using load_lines_length [OF l] ne by (simp only: length_0_conv not_False_eq_True)
  then show "g_storage_ids_by_ip t \<noteq> []" by (metis t length_qsort length_0_conv)
  show "\<forall>e \<in> set (g_storage_ids_by_ip t). id_info_ok e"
  proof
    fix e assume "e \<in> set (g_storage_ids_by_ip t)"
    then have "e \<in> set infos" by (simp add: t)
    then obtain c where c: "c \<in> set cols" "load_storage_id_line resolve (trim c) = Inr e" using load_lines_member [OF l] by auto
    have "10 \<notin> set (trim c)" "0 \<notin> set (trim c)" using split_columns [OF c(1) [unfolded cols_def]] set_trim [of c] nul by auto
    then show "id_info_ok e" using load_line_ok [OF c(2)] res by blast
  qed
qed

text \<open>C24. The table of server ids reaches the storage servers: when a tracker has loaded its configuration file, which repeats no id and no pair of
  group and address, a storage server that asks this tracker for the table ends with exactly the tracker's table, both views of
  it. The replies are cut at the size of the buffer and joined again; up to 5312 entries the limit of 32 requests is never reached, and with more
  entries the only other result is \<open>ENOSPC\<close>. The resolvers of the two machines are assumed to give addresses in dotted form and to
  leave an address as it is.\<close>

theorem storage_ids_transfer:
  assumes load: "fdfs_load_storage_ids mem resolve content = Inr (g_storage_ids env)" and nul: "0 \<notin> set content"
    and use: "g_use_storage_id env" and size0: "length (g_storage_ids_by_ip (g_storage_ids env)) < 2 ^ 31"
    and dist: "distinct (map (\<lambda>e. (si_group_name e, si_ip_addr e)) (config_entries resolve content))"
    and res: "\<forall>h ip. resolve h = Some ip \<longrightarrow> (\<exists>x. int_range x \<and> ip = inet_ntop x)"
    and res2: "\<forall>x. int_range x \<longrightarrow> resolve2 (inet_ntop x) = Some (inet_ntop x)"
    and net: "\<forall>i. net 69 (int2buff i) = Inr (tracker_response (tracker_deal_fetch_storage_ids env (int2buff i)))"
    and get: "fdfs_get_storage_ids_from_tracker_server 0 net net_error (0, 0) (True, True, True) resolve2 = r"
  shows "r = Inr (g_storage_ids env) \<or> r = Inl ENOSPC \<and> 5312 < length (g_storage_ids_by_ip (g_storage_ids env))"
proof -
  let ?t = "g_storage_ids env" and ?es = "config_entries resolve content"
  let ?text = "concat (map storage_id_line (g_storage_ids_by_ip ?t))"
  have ne: "g_storage_ids_by_ip ?t \<noteq> []" and ok: "\<forall>e \<in> set (g_storage_ids_by_ip ?t). id_info_ok e"
    using loaded_table [OF load nul] res by blast+
  note tab = load_storage_ids_table [OF load]
  have sorted: "sorted_key (\<lambda>e. (si_group_name e, si_ip_addr e)) (g_storage_ids_by_ip ?t)"
    unfolding tab(1) using group_ip.sorted_key_qsort [where xs = ?es and deref = "\<lambda>p. p"] dist by simp
  have "length ?es = length (g_storage_ids_by_ip ?t)" unfolding tab(1) by simp
  then have by_id: "g_storage_ids_by_id ?t =
      qsort (\<lambda>i j. fdfs_cmp_server_id (g_storage_ids_by_ip ?t ! i) (g_storage_ids_by_ip ?t ! j)) [0..<length (g_storage_ids_by_ip ?t)]"
    using tab(2) by simp
  have r2: "\<forall>e \<in> set (g_storage_ids_by_ip ?t). resolve2 (si_ip_addr e) = Some (si_ip_addr e)" using ok res2 by (auto simp: id_info_ok_def)
  have "0 \<notin> set ?text" using ok id_line_text(2) by (auto simp: storage_id_line_snoc)
  then have parse: "fdfs_load_storage_ids (True, True, True) resolve2 (c_str ?text) = Inr ?t"
    using load_table_text [OF ok r2 ne sorted by_id] by (simp add: c_str_plain)
  have "fetch_ids_loop net net_error 0 31 0 = Inr ?text \<or>
      fetch_ids_loop net net_error 0 31 0 = Inl ENOSPC \<and> 5312 < length (g_storage_ids_by_ip ?t)"
    using fetch_ids_loop_text [where net = net and k = 0 and loops = 31 and net_error = net_error, OF use refl ok size0 net] ne by simp
  then show ?thesis using get by (auto simp: fdfs_get_storage_ids_from_tracker_server_def parse)
qed

text \<open>Two servers \<open>2 g 1.0.0.0\<close> and \<open>1 h 2.0.0.0\<close>, named by host names in the tracker's file.\<close>

definition sync_file :: "byte list" where
  "sync_file = [50, 32, 103, 32, 98, 10, 49, 32, 104, 32, 99, 10]"

definition sync_resolve :: "byte list \<Rightarrow> byte list option" where
  "sync_resolve h = (if h = [98] then Some (inet_ntop 1) else if h = [99] then Some (inet_ntop 2) else None)"

definition sync_env :: tracker_env where
  "sync_env = demo_env\<lparr>g_use_storage_id := True, g_storage_ids :=
     \<lparr>g_storage_ids_by_ip = [\<lparr>si_id = [50], si_group_name = [103], si_ip_addr = inet_ntop 1\<rparr>, \<lparr>si_id = [49], si_group_name = [104], si_ip_addr = inet_ntop 2\<rparr>],
      g_storage_ids_by_id = [1, 0]\<rparr>\<rparr>"

lemma sync_load: "fdfs_load_storage_ids (True, True, True) sync_resolve sync_file = Inr (g_storage_ids sync_env)"
  by code_simp

lemma sync_distinct: "distinct (map (\<lambda>e. (si_group_name e, si_ip_addr e)) (config_entries sync_resolve sync_file))"
  by code_simp

theorem storage_ids_transfer_witness:
  "fdfs_get_storage_ids_from_tracker_server 0 (\<lambda>c body. Inr (tracker_response (tracker_deal_fetch_storage_ids sync_env body)))
     110 (0, 0) (True, True, True) Some = Inr (g_storage_ids sync_env)"
proof -
  let ?net = "\<lambda>c body. Inr (tracker_response (tracker_deal_fetch_storage_ids sync_env body))"
  have "0 \<notin> set sync_file" by code_simp
  moreover have "\<forall>h ip. sync_resolve h = Some ip \<longrightarrow> (\<exists>x. int_range x \<and> ip = inet_ntop x)"
    by (auto simp: sync_resolve_def int_range_def intro: exI [of _ 1] exI [of _ 2])
  moreover have "g_use_storage_id sync_env" "length (g_storage_ids_by_ip (g_storage_ids sync_env)) = 2" by (simp_all add: sync_env_def)
  ultimately show ?thesis
    using storage_ids_transfer [where net = ?net and ?resolve2.0 = Some and net_error = 110, OF sync_load _ _ _ sync_distinct _ _ _ refl] by simp
qed

section \<open>Several trackers\<close>

lemma ids_from_servers_spec:
  "case ids_from_servers get js result of Inr t \<Rightarrow> \<exists>i \<in> set js. get i = Inr t | Inl e \<Rightarrow> \<forall>i \<in> set js. isl (get i)"
proof (induction js arbitrary: result)
  case (Cons j js)
  show ?case
  proof (cases "get j")
    case (Inl e)
    then show ?thesis using Cons.IH [of e] by (auto split: sum.splits)
  qed simp
qed simp

lemma ids_rounds_spec:
  "case ids_rounds get c n k start result of
     Inr t \<Rightarrow> \<exists>k' i. k' < k + n \<and> i < c \<and> get k' i = Inr t
   | Inl e \<Rightarrow> \<forall>k' i. k \<le> k' \<and> k' < k + n \<and> i < c \<and> (k' = k \<longrightarrow> start \<le> i) \<longrightarrow> isl (get k' i)"
proof (induction n arbitrary: k start result)
  case (Suc n)
  note first = ids_from_servers_spec [where get = "get k" and js = "[start..<c]" and result = result]
  show ?case
  proof (cases "ids_from_servers (get k) [start..<c] result")
    case (Inl e)
    have "isl (get k' i)" if "\<forall>k' i. Suc k \<le> k' \<and> k' < Suc k + n \<and> i < c \<and> (k' = Suc k \<longrightarrow> 0 \<le> i) \<longrightarrow> isl (get k' i)"
      "k \<le> k'" "k' < k + Suc n" "i < c" "k' = k \<longrightarrow> start \<le> i" for k' i
      using that first Inl by (cases "k' = k") auto
    then show ?thesis using Inl Suc.IH [of "Suc k" 0 e] by (auto split: sum.splits)
  next
    case (Inr t)
    then obtain i where "i < c" "get k i = Inr t" using first by auto
    then have "\<exists>k' i. k' < k + Suc n \<and> i < c \<and> get k' i = Inr t" by (intro exI [of _ k] exI [of _ i]) simp
    then show ?thesis using Inr by simp
  qed
qed auto

text \<open>A server gets the table as soon as one tracker gives it: the result is a table that a tracker has given, or an error, and then
  no tracker has given a table in any of the five rounds, where the first round asks those from the leader on.\<close>

theorem storage_ids_from_group:
  "case fdfs_get_storage_ids_from_tracker_group get server_count leader_index of
     Inr t \<Rightarrow> \<exists>k i. k < 5 \<and> i < server_count \<and> get k i = Inr t
   | Inl e \<Rightarrow> \<forall>k i. k < 5 \<and> i < server_count \<and> (k = 0 \<longrightarrow> leader_index \<le> int i) \<longrightarrow> isl (get k i)"
proof -
  have start: "(if leader_index \<ge> 0 then nat leader_index else 0) = nat leader_index" by simp
  note spec = ids_rounds_spec [where get = get and c = server_count and n = 5 and k = 0 and start = "nat leader_index" and result = ENOENT]
  show ?thesis
  proof (cases "ids_rounds get server_count 5 0 (nat leader_index) ENOENT")
    case (Inl e)
    then show ?thesis using spec unfolding fdfs_get_storage_ids_from_tracker_group_def start by (simp add: nat_le_iff)
  next
    case (Inr t)
    then show ?thesis using spec unfolding fdfs_get_storage_ids_from_tracker_group_def start by simp
  qed
qed

end
