(* ===== verification/File_Name.thy ===== *)
theory File_Name
  imports Tracker_Client
begin

text \<open>
  The name of a file from its making to its reading. A storage server puts its id, the time, the size and the check sum into the name of an uploaded file
  (\<open>storage_gen_filename\<close> and the start of \<open>storage_service_upload_file_done\<close> in \<open>storage/storage_service.c\<close>); the tracker, the storage servers and the clients
  (\<open>fdfs_get_file_info_ex\<close> in \<open>client/storage_client.c\<close>) read them back. Also the names of slave files (\<open>common/fdfs_global.c\<close>).
  Values of \<open>rand()\<close> are arguments.
\<close>

unbundle bit_operations_syntax

section \<open>Making a name\<close>

abbreviation (input) FDFS_FILE_EXT_NAME_MAX_LEN :: nat where "FDFS_FILE_EXT_NAME_MAX_LEN \<equiv> 6"

text \<open>\<open>r\<close> is an \<open>int\<close> with its highest bit set.\<close>

definition COMBINE_RAND_FILE_SIZE :: "int \<Rightarrow> int \<Rightarrow> int" where
  "COMBINE_RAND_FILE_SIZE rand file_size =
     (let r = c_int ((rand AND 0x7FFFFF) OR 0x80000000) in push_bit 32 r OR file_size)"

text \<open>\<open>htonl\<close> swaps the bytes like \<open>ntohl\<close>.\<close>

definition masked_file_size :: "int \<Rightarrow> int \<Rightarrow> int" where
  "masked_file_size rand file_size = (if drop_bit 32 file_size \<noteq> 0 then file_size else COMBINE_RAND_FILE_SIZE rand file_size)"

definition name_buff_of :: "int \<Rightarrow> int \<Rightarrow> int \<Rightarrow> int \<Rightarrow> byte list" where
  "name_buff_of server_id tstamp size64 crc =
     int2buff (ntohl server_id) @ int2buff tstamp @ long2buff size64 @ int2buff crc"

text \<open>
  The state is that of the directories and the path of the upload, \<open>None\<close> before a sub directory is chosen. The sub directories are stored in
  bytes.
\<close>

definition storage_gen_filename ::
    "int \<Rightarrow> dist_state \<Rightarrow> (byte \<times> byte) option \<Rightarrow> int \<Rightarrow> int \<Rightarrow> int \<Rightarrow> byte list \<Rightarrow> int \<Rightarrow> dist_state \<times> (byte \<times> byte) \<times> byte list" where
  "storage_gen_filename server_id d sub_path rand file_size crc szFormattedExt tstamp =
     (let encoded = base64_encode_ex g_fdfs_base64_context (name_buff_of server_id tstamp (masked_file_size rand file_size) crc) False;
          (d1, high, low) = (case sub_path of
             Some (high, low) \<Rightarrow> (d, high, low)
           | None \<Rightarrow> (let (d1, h, l) = storage_get_store_path d encoded in (d1, word_of_int h, word_of_int l)))
      in (d1, (high, low), print_02X high @ 47 # print_02X low @ 47 # encoded @ szFormattedExt))"

text \<open>Digits before the extension, from the values of \<open>rand()\<close> with \<open>RAND_MAX = 2147483647\<close>.\<close>

definition storage_format_ext_name :: "int list \<Rightarrow> byte list \<Rightarrow> byte list" where
  "storage_format_ext_name rands file_ext_name =
     (let pad_len = (if file_ext_name = [] then FDFS_FILE_EXT_NAME_MAX_LEN + 1 else FDFS_FILE_EXT_NAME_MAX_LEN - length file_ext_name)
      in map (\<lambda>i. 48 + word_of_int (10 * (rands ! i) div 2147483647)) [0..<pad_len] @
         (if file_ext_name = [] then [] else 46 # file_ext_name))"

text \<open>At most ten names are tried; \<open>exists\<close> says of a name whether the file exists.\<close>

fun get_filename_loop ::
    "nat \<Rightarrow> (byte list \<Rightarrow> bool) \<Rightarrow> (nat \<Rightarrow> int) \<Rightarrow> int \<Rightarrow> dist_state \<Rightarrow> (byte \<times> byte) option \<Rightarrow> int \<Rightarrow> int \<Rightarrow> byte list \<Rightarrow> int \<Rightarrow>
       dist_state \<times> (byte \<times> byte) option \<times> (int + byte list)" where
  "get_filename_loop 0 exists rands server_id d sub_path file_size crc ext tstamp = (d, sub_path, Inl ENOENT)"
| "get_filename_loop (Suc n) exists rands server_id d sub_path file_size crc ext tstamp =
     (case storage_gen_filename server_id d sub_path (rands n) file_size crc ext tstamp of
        (d1, hl, filename) \<Rightarrow>
          if \<not> exists filename then (d1, Some hl, Inr filename)
          else get_filename_loop n exists rands server_id d1 (Some hl) file_size crc ext tstamp)"

definition storage_get_filename ::
    "(byte list \<Rightarrow> bool) \<Rightarrow> (nat \<Rightarrow> int) \<Rightarrow> int \<Rightarrow> dist_state \<Rightarrow> (byte \<times> byte) option \<Rightarrow> int \<Rightarrow> int \<Rightarrow> int \<Rightarrow> byte list \<Rightarrow>
       dist_state \<times> (byte \<times> byte) option \<times> (int + byte list)" where
  "storage_get_filename exists rands server_id d sub_path start_time file_size crc ext =
     get_filename_loop 10 exists rands server_id d sub_path file_size crc ext start_time"

datatype upload_type = Upload_Normal | Upload_Appender | Upload_Trunk FDFSTrunkFileInfo

text \<open>The size as it goes into the name: marked for a file in a trunk file and for a file that will be appended to.\<close>

definition file_size_in_name :: "upload_type \<Rightarrow> int \<Rightarrow> int \<Rightarrow> int" where
  "file_size_in_name ty rand file_size =
     (case ty of
        Upload_Trunk _ \<Rightarrow> COMBINE_RAND_FILE_SIZE rand file_size OR 2 ^ 59
      | Upload_Appender \<Rightarrow> COMBINE_RAND_FILE_SIZE rand 0 OR 2 ^ 58
      | Upload_Normal \<Rightarrow> file_size)"

definition new_fname2log :: "upload_type \<Rightarrow> byte \<Rightarrow> byte list \<Rightarrow> byte list" where
  "new_fname2log ty spi new_filename =
     (let name = 77 # print_02X spi @ 47 # new_filename in
      case ty of
        Upload_Trunk f \<Rightarrow>
          take (FDFS_LOGIC_FILE_PATH_LEN + FDFS_FILENAME_BASE64_LENGTH) name @ trunk_file_info_encode f @
          drop (FDFS_TRUE_FILE_PATH_LEN + FDFS_FILENAME_BASE64_LENGTH) new_filename
      | _ \<Rightarrow> name)"

text \<open>The name that an upload gives its file, or an error: the naming part of \<open>storage_service_upload_file_done\<close>.\<close>

definition upload_file_name ::
    "(byte list \<Rightarrow> bool) \<Rightarrow> int \<Rightarrow> (nat \<Rightarrow> int) \<Rightarrow> int \<Rightarrow> dist_state \<Rightarrow> byte \<Rightarrow> (byte \<times> byte) option \<Rightarrow> upload_type \<Rightarrow> int \<Rightarrow> int \<Rightarrow> byte list \<Rightarrow> int \<Rightarrow>
       int + byte list" where
  "upload_file_name exists rand rands server_id d spi sub_path ty file_size crc ext end_time =
     map_sum id (new_fname2log ty spi)
       (snd (snd (storage_get_filename exists rands server_id d sub_path end_time (file_size_in_name ty rand file_size) crc ext)))"

section \<open>Reading a name\<close>

definition name_size :: "byte list \<Rightarrow> int" where
  "name_size filename =
     buff2long (drop 8 (decode_into (replicate 64 0) (take FDFS_FILENAME_BASE64_LENGTH (drop FDFS_LOGIC_FILE_PATH_LEN filename))))"

definition storage_is_slave_file :: "byte list \<Rightarrow> bool" where
  "storage_is_slave_file remote_filename =
     (if length remote_filename < FDFS_NORMAL_LOGIC_FILENAME_LENGTH then False
      else if IS_TRUNK_FILE (name_size remote_filename) then length remote_filename > FDFS_TRUNK_LOGIC_FILENAME_LENGTH
      else length remote_filename > FDFS_NORMAL_LOGIC_FILENAME_LENGTH)"

record FDFSFileInfo =
  create_timestamp :: int
  fi_crc32 :: int
  source_id :: int
  fi_file_size :: int
  source_ip_addr :: "byte list"

text \<open>
  The client's view. \<open>ids\<close> is its table of server ids, \<open>query\<close> what asking a storage server makes of the information collected so far.
\<close>

definition fdfs_get_file_info_ex ::
    "storage_id_table \<Rightarrow> (FDFSFileInfo \<Rightarrow> int \<times> FDFSFileInfo) \<Rightarrow> byte list \<Rightarrow> bool \<Rightarrow> int \<times> FDFSFileInfo" where
  "fdfs_get_file_info_ex ids query remote_filename get_from_server =
     (let zero = \<lparr>create_timestamp = 0, fi_crc32 = 0, source_id = 0, fi_file_size = 0, source_ip_addr = []\<rparr> in
      if length remote_filename < FDFS_NORMAL_LOGIC_FILENAME_LENGTH then (EINVAL, zero)
      else
        (let buff = decode_into (replicate 64 0) (take FDFS_FILENAME_BASE64_LENGTH (drop FDFS_LOGIC_FILE_PATH_LEN remote_filename));
             s_addr = ntohl (buff2int buff);
             by_id = fdfs_get_server_id_type s_addr = FDFS_ID_TYPE_SERVER_ID;
             size64 = buff2long (drop 8 buff);
             info = \<lparr>create_timestamp = buff2int (drop 4 buff), fi_crc32 = 0, source_id = (if by_id then s_addr else 0), fi_file_size = size64,
               source_ip_addr =
                 (if by_id
                  then (if g_storage_ids_by_ip ids = [] then []
                        else (case fdfs_get_storage_by_id ids (print_int s_addr) of None \<Rightarrow> [] | Some e \<Rightarrow> si_ip_addr e))
                  else inet_ntop s_addr)\<rparr>
         in if IS_SLAVE_FILE (length remote_filename) size64 \<or> IS_APPENDER_FILE size64 \<or> source_ip_addr info = [] \<and> get_from_server
            then (if get_from_server then query info else (0, info\<lparr>fi_file_size := - 1\<rparr>))
            else (0, info\<lparr>fi_file_size :=
                (if drop_bit 63 size64 \<noteq> 0 then size64 AND 0xFFFFFFFF
                 else if IS_TRUNK_FILE size64 then FDFS_TRUNK_FILE_TRUE_SIZE size64 else size64),
               fi_crc32 := buff2int (drop 16 buff)\<rparr>)))"

section \<open>Slave files\<close>

text \<open>\<open>None\<close> for a missing extension is the null pointer. \<open>true_ext_name\<close> has room for 7 bytes.\<close>

definition fdfs_gen_slave_filename :: "byte list \<Rightarrow> byte list \<Rightarrow> byte list option \<Rightarrow> int + byte list" where
  "fdfs_gen_slave_filename master_filename prefix_name ext_name =
     (if length master_filename < 28 + FDFS_FILE_EXT_NAME_MAX_LEN then Inl EINVAL
      else
        (let base = length master_filename - (FDFS_FILE_EXT_NAME_MAX_LEN + 1);
             pDot = strchr (drop base master_filename) 46;
             dot_ext = (case pDot of None \<Rightarrow> [] | Some i \<Rightarrow> drop (base + i) master_filename);
             true_ext_name =
               (case ext_name of
                  Some e \<Rightarrow> if e = [] then [] else if hd e = 46 then take 7 e else take 7 (46 # e)
                | None \<Rightarrow> dot_ext)
         in if true_ext_name = [] \<and> prefix_name = [45, 109] then Inl EINVAL
            else if prefix_name = [] \<and> (pDot = None \<and> true_ext_name = [] \<or> pDot \<noteq> None \<and> dot_ext = true_ext_name) then Inl EINVAL
            else
              (case pDot of
                 None \<Rightarrow> Inr (master_filename @ prefix_name @ true_ext_name)
               | Some i \<Rightarrow> Inr (take (base + i) master_filename @ prefix_name @ true_ext_name))))"

section \<open>The marks in the size\<close>

text \<open>The random number in the upper half of the size, and its bits.\<close>

definition rand_half :: "int \<Rightarrow> int" where
  "rand_half r = c_int ((r AND 0x7FFFFF) OR 0x80000000)"

lemma rand_half_bit: "bit (rand_half r) n \<longleftrightarrow> n < 23 \<and> bit r n \<or> 31 \<le> n"
proof -
  have m: "(0x7FFFFF :: int) = mask 23" "(0x80000000 :: int) = 2 ^ 31" by (simp_all add: mask_eq_exp_minus_1)
  define x where "x = r AND 0x7FFFFF OR 0x80000000"
  have x: "bit x k \<longleftrightarrow> k < 23 \<and> bit r k \<or> k = 31" for k
    unfolding x_def m bit_or_iff bit_and_iff bit_mask_iff bit_exp_iff using possible_bit_int [of k] by blast
  have "rand_half r = signed_take_bit 31 x" by (simp only: rand_half_def c_int_def x_def)
  then show ?thesis using x [of 31] x [of n] by (cases "n \<le> 31") (auto simp: bit_signed_take_bit_iff min_def)
qed

lemma rand_half_range: "- (2 ^ 31) \<le> rand_half r" "rand_half r < 0"
proof -
  show "- (2 ^ 31) \<le> rand_half r" using int_range_c_int unfolding int_range_def rand_half_def by blast
  have "bit (rand_half r) 31" by (simp add: rand_half_bit)
  then show "rand_half r < 0" unfolding rand_half_def c_int_def by (simp add: bit_signed_take_bit_iff)
qed

lemma combine_rand: "COMBINE_RAND_FILE_SIZE r s = push_bit 32 (rand_half r) OR s"
  by (simp add: COMBINE_RAND_FILE_SIZE_def rand_half_def)

lemma high_bits: "\<lbrakk>0 \<le> s; s < 2 ^ k; k \<le> n\<rbrakk> \<Longrightarrow> \<not> bit s n" for s :: int
  by (metis bit_take_bit_iff not_less take_bit_int_eq_self)

lemma combine_bit:
  "\<lbrakk>0 \<le> s; s < 2 ^ 32; 32 \<le> n\<rbrakk> \<Longrightarrow> bit (COMBINE_RAND_FILE_SIZE r s) n \<longleftrightarrow> n - 32 < 23 \<and> bit r (n - 32) \<or> 63 \<le> n"
  using high_bits [of s 32 n] by (auto simp: combine_rand bit_or_iff bit_push_bit_iff rand_half_bit)

lemma combine_low: "\<lbrakk>0 \<le> s; s < 2 ^ 32\<rbrakk> \<Longrightarrow> take_bit 32 (COMBINE_RAND_FILE_SIZE r s) = s"
  by (simp add: combine_rand take_bit_or take_bit_push_bit take_bit_int_eq_self)

lemma combine_range:
  assumes "0 \<le> s"
  shows "- (2 ^ 63) \<le> COMBINE_RAND_FILE_SIZE r s" "COMBINE_RAND_FILE_SIZE r s < 0"
proof -
  have p: "- (2 ^ 63) \<le> push_bit 32 (rand_half r)" "push_bit 32 (rand_half r) < 0" using rand_half_range [of r] by (simp_all add: push_bit_eq_mult)
  then show "- (2 ^ 63) \<le> COMBINE_RAND_FILE_SIZE r s" using or_greater_eq [OF assms, of "push_bit 32 (rand_half r)"] by (simp add: combine_rand)
  show "COMBINE_RAND_FILE_SIZE r s < 0" using p(2) by (simp add: combine_rand or_negative_int_iff)
qed

lemma encode_name:
  assumes "length bs = 20"
  shows "length (base64_encode_ex g_fdfs_base64_context bs False) = 27"
    "\<exists>rest. decode_into stk (base64_encode_ex g_fdfs_base64_context bs False) = bs @ rest"
proof -
  let ?c = g_fdfs_base64_context
  have ne: "bs \<noteq> []" using assms by (cases bs) auto
  have "base64_encode_ex ?c bs True = base64_encode_ex ?c bs False @ [pad_ch ?c]"
    using assms ne by (simp add: base64_encode_ex_def Let_def split_beta)
  moreover have "int (length (base64_encode_ex ?c bs True)) = 28"
    using encode_ex_length [of ?c bs] fdfs_context assms by (simp add: base64_get_encode_length_def Let_def)
  ultimately show len: "length (base64_encode_ex ?c bs False) = 27" by simp
  obtain r where r: "base64_decode ?c (base64_encode_ex ?c bs True) = (bs @ r, int (length bs))"
    using decode_encode [OF fdfs_context(1), of bs] fdfs_context(3) by auto
  have "base64_decode_auto ?c True (base64_encode_ex ?c bs False) = (bs @ r, int (length bs))"
    using decode_auto_encode [OF fdfs_context(1,3) ne, of True] r by simp
  then have "decode_into stk (base64_encode_ex ?c bs False) = (bs @ r @ drop (length bs + length r) stk)[length bs := 0]"
    by (simp add: decode_into_def)
  then show "\<exists>rest. decode_into stk (base64_encode_ex ?c bs False) = bs @ rest" by (simp add: list_update_append)
qed

section \<open>Reading back what was written\<close>

definition upload_size_ok :: "upload_type \<Rightarrow> int \<Rightarrow> bool" where
  "upload_size_ok ty file_size \<longleftrightarrow> 0 \<le> file_size \<and> (case ty of Upload_Trunk _ \<Rightarrow> file_size < 2 ^ 32 | _ \<Rightarrow> file_size < 2 ^ 58)"

definition is_trunk_upload :: "upload_type \<Rightarrow> bool" where
  "is_trunk_upload ty = (case ty of Upload_Trunk _ \<Rightarrow> True | _ \<Rightarrow> False)"

definition size_of_name :: "int \<Rightarrow> int" where
  "size_of_name size64 =
     (if drop_bit 63 size64 \<noteq> 0 then size64 AND 0xFFFFFFFF
      else if IS_TRUNK_FILE size64 then FDFS_TRUNK_FILE_TRUE_SIZE size64 else size64)"

lemma marks_bit: "IS_TRUNK_FILE z \<longleftrightarrow> bit z 59" "IS_APPENDER_FILE z \<longleftrightarrow> bit z 58"
  unfolding IS_TRUNK_FILE_def IS_APPENDER_FILE_def and_exp_eq_0_iff_not_bit by simp_all

lemma size_negative: "z < 0 \<Longrightarrow> size_of_name z = take_bit 32 z"
proof -
  assume "z < 0"
  then have "drop_bit 63 z \<noteq> 0" using drop_bit_negative_int_iff [of 63 z] by linarith
  moreover have "(0xFFFFFFFF :: int) = mask 32" by (simp add: mask_eq_exp_minus_1)
  ultimately show ?thesis unfolding size_of_name_def take_bit_eq_mask by simp
qed

text \<open>A marked size: negative, in range, with exactly its own mark.\<close>

lemma marked_size:
  assumes "0 \<le> s" "s < 2 ^ 32" and z: "z = COMBINE_RAND_FILE_SIZE r s OR 2 ^ k" and k: "k \<in> {58, 59}"
  shows "z < 0" "long_range z" "IS_TRUNK_FILE z \<longleftrightarrow> k = 59" "IS_APPENDER_FILE z \<longleftrightarrow> k = 58" "size_of_name z = s"
proof -
  note c = combine_range [OF assms(1), of r]
  show neg: "z < 0" using c(2) by (simp add: z)
  have "COMBINE_RAND_FILE_SIZE r s \<le> z" unfolding z by (rule or_greater_eq) simp
  then show "long_range z" using c(1) neg by (simp add: long_range_def)
  have b: "bit z n \<longleftrightarrow> bit (COMBINE_RAND_FILE_SIZE r s) n \<or> n = k" for n
    unfolding z bit_or_iff bit_exp_iff using possible_bit_int by blast
  show "IS_TRUNK_FILE z \<longleftrightarrow> k = 59" "IS_APPENDER_FILE z \<longleftrightarrow> k = 58"
    using k by (auto simp: marks_bit b combine_bit [OF assms(1,2)])
  have "take_bit 32 (2 ^ k :: int) = 0" using k by auto
  then have "take_bit 32 z = s" using combine_low [OF assms(1,2), of r] unfolding z take_bit_or by simp
  then show "size_of_name z = s" by (simp only: size_negative [OF neg])
qed

lemma unmarked_size:
  assumes "0 \<le> s" "s < 2 ^ 32" and z: "z = COMBINE_RAND_FILE_SIZE r s"
  shows "long_range z" "\<not> IS_TRUNK_FILE z" "\<not> IS_APPENDER_FILE z" "size_of_name z = s"
proof -
  have neg: "z < 0" using combine_range(2) [OF assms(1)] by (simp add: z)
  show "long_range z" using combine_range(1) [OF assms(1), of r] neg by (simp add: long_range_def z)
  show "\<not> IS_TRUNK_FILE z" "\<not> IS_APPENDER_FILE z" by (simp_all add: marks_bit z combine_bit [OF assms(1,2)])
  show "size_of_name z = s" using combine_low [OF assms(1,2)] size_negative [OF neg] by (simp add: z)
qed

lemma name_size_facts:
  assumes ok: "upload_size_ok ty s" and z: "z = masked_file_size r' (file_size_in_name ty r s)"
  shows "long_range z" "IS_TRUNK_FILE z \<longleftrightarrow> is_trunk_upload ty" "IS_APPENDER_FILE z \<longleftrightarrow> ty = Upload_Appender"
    "ty \<noteq> Upload_Appender \<Longrightarrow> size_of_name z = s"
proof -
  have keep: "masked_file_size r' w = w" if "w < 0" for w
  proof -
    have "drop_bit 32 w \<noteq> 0" using that drop_bit_negative_int_iff [of 32 w] by linarith
    then show ?thesis by (simp add: masked_file_size_def)
  qed
  have "long_range z \<and> (IS_TRUNK_FILE z \<longleftrightarrow> is_trunk_upload ty) \<and> (IS_APPENDER_FILE z \<longleftrightarrow> ty = Upload_Appender) \<and>
      (ty \<noteq> Upload_Appender \<longrightarrow> size_of_name z = s)"
  proof (cases ty)
    case (Upload_Trunk f)
    let ?w = "COMBINE_RAND_FILE_SIZE r s OR 2 ^ 59"
    have "0 \<le> s" "s < 2 ^ 32" using ok by (simp_all add: upload_size_ok_def Upload_Trunk)
    note w = marked_size [OF this refl, of 59 r]
    have "z = ?w" using keep [of ?w] w(1) by (simp add: z file_size_in_name_def Upload_Trunk)
    then show ?thesis using w by (simp add: Upload_Trunk is_trunk_upload_def)
  next
    case Upload_Appender
    let ?w = "COMBINE_RAND_FILE_SIZE r 0 OR 2 ^ 58"
    note w = marked_size [of 0 ?w r 58, OF _ _ refl]
    have "z = ?w" using keep [of ?w] w(1) by (simp add: z file_size_in_name_def Upload_Appender)
    then show ?thesis using w by (simp add: Upload_Appender is_trunk_upload_def)
  next
    case Upload_Normal
    have s: "0 \<le> s" "s < 2 ^ 58" using ok by (simp_all add: upload_size_ok_def Upload_Normal)
    show ?thesis
    proof (cases "s < 2 ^ 32")
      case True
      then have "drop_bit 32 s = 0" using s by (simp add: drop_bit_eq_div)
      then have "z = COMBINE_RAND_FILE_SIZE r' s" by (simp add: z masked_file_size_def file_size_in_name_def Upload_Normal)
      then show ?thesis using unmarked_size [OF s(1) True, of z r'] by (simp add: Upload_Normal is_trunk_upload_def)
    next
      case False
      then have "drop_bit 32 s \<noteq> 0" using s by (simp add: drop_bit_eq_div zdiv_eq_0_iff)
      then have "z = s" by (simp add: z masked_file_size_def file_size_in_name_def Upload_Normal)
      moreover have "\<not> bit s 58" "\<not> bit s 59" using high_bits [OF s] by simp_all
      moreover have "drop_bit 63 s = 0" using s by (simp add: drop_bit_eq_div)
      ultimately show ?thesis using s by (simp add: long_range_def marks_bit size_of_name_def Upload_Normal is_trunk_upload_def)
    qed
  qed
  then show "long_range z" "IS_TRUNK_FILE z \<longleftrightarrow> is_trunk_upload ty" "IS_APPENDER_FILE z \<longleftrightarrow> ty = Upload_Appender"
    "ty \<noteq> Upload_Appender \<Longrightarrow> size_of_name z = s" by blast+
qed

text \<open>The parts of a name that was made.\<close>

lemma ntohl_swap: "int2buff (ntohl x) = rev (int2buff x)"
  by (simp add: ntohl_def int2buff_def [of x] int2buff_buff2int)

lemma ntohl_ntohl: "int_range x \<Longrightarrow> ntohl (ntohl x) = x"
  by (simp add: ntohl_def [of "ntohl x"] ntohl_swap buff2int_int2buff)

lemma buff2int_prefix: "length b = 4 \<Longrightarrow> buff2int (b @ rest) = buff2int b"
  by (cases b; cases "tl b"; cases "tl (tl b)"; cases "tl (tl (tl b))") (auto simp: buff2int_def)

lemma name_buff_fields:
  assumes "int_range sid" "int_range t" "int_range crc" "long_range z"
    and b_def: "b = name_buff_of sid t z crc @ rest"
  shows "ntohl (buff2int b) = sid" "buff2int (drop 4 b) = t" "buff2long (drop 8 b) = z" "buff2int (drop 16 b) = crc"
proof -
  have "buff2int b = ntohl sid"
    unfolding b_def name_buff_of_def append_assoc by (simp add: buff2int_prefix ntohl_swap flip: ntohl_def)
  then show "ntohl (buff2int b) = sid" using ntohl_ntohl [OF assms(1)] by simp
  have l8: "buff2long (long2buff z @ r) = z" for r
    using buff2long_long2buff [OF assms(4)] by (simp add: buff2long_def long2buff_def)
  have d: "drop 4 b = int2buff t @ long2buff z @ int2buff crc @ rest" "drop 8 b = long2buff z @ int2buff crc @ rest" "drop 16 b = int2buff crc @ rest"
    by (simp_all add: b_def name_buff_of_def)
  show "buff2int (drop 4 b) = t" "buff2long (drop 8 b) = z" "buff2int (drop 16 b) = crc" unfolding d using assms(2,3) l8 by simp_all
qed

lemma get_filename_made:
  "snd (snd (get_filename_loop n exists rands sid d sub_path fsize crc ext t)) = Inr filename \<Longrightarrow>
   \<exists>h l k. filename = print_02X h @ 47 # print_02X l @ 47 # base64_encode_ex g_fdfs_base64_context (name_buff_of sid t (masked_file_size (rands k) fsize) crc) False @ ext \<and>
     \<not> exists filename"
proof (induction n arbitrary: d sub_path)
  case (Suc n)
  obtain d1 h l f where g: "storage_gen_filename sid d sub_path (rands n) fsize crc ext t = (d1, (h, l), f)" by (metis prod_cases3 surj_pair)
  then have f: "f = print_02X h @ 47 # print_02X l @ 47 # base64_encode_ex g_fdfs_base64_context (name_buff_of sid t (masked_file_size (rands n) fsize) crc) False @ ext"
    by (auto simp: storage_gen_filename_def Let_def split: option.splits prod.splits)
  show ?case
  proof (cases "exists f")
    case True
    then show ?thesis using Suc g by simp
  next
    case False
    then have "filename = f" using Suc.prems g by simp
    then show ?thesis using f False by blast
  qed
qed simp

lemma print_02X_length [simp]: "length (print_02X x) = 2"
  by (simp add: print_02X_def)

lemma upload_name_shape:
  assumes u: "upload_file_name exists rand rands sid d spi sub_path ty s crc ext t = Inr name" and ext: "length ext = 7"
    and tr: "\<And>f. ty = Upload_Trunk f \<Longrightarrow> file_info_ok f"
  obtains r h l where "drop 10 name = base64_encode_ex g_fdfs_base64_context (name_buff_of sid t (masked_file_size r (file_size_in_name ty rand s)) crc) False @
      (case ty of Upload_Trunk f \<Rightarrow> trunk_file_info_encode f | _ \<Rightarrow> []) @ ext"
    "take 10 name = 77 # print_02X spi @ 47 # print_02X h @ 47 # print_02X l @ [47]"
    "length name = (if is_trunk_upload ty then 60 else 44)"
proof -
  obtain filename where f: "snd (snd (get_filename_loop 10 exists rands sid d sub_path (file_size_in_name ty rand s) crc ext t)) = Inr filename"
    "name = new_fname2log ty spi filename"
    using u unfolding upload_file_name_def storage_get_filename_def
    by (cases "snd (snd (get_filename_loop 10 exists rands sid d sub_path (file_size_in_name ty rand s) crc ext t))") auto
  obtain h l k where filename: "filename = print_02X h @ 47 # print_02X l @ 47 # base64_encode_ex g_fdfs_base64_context
      (name_buff_of sid t (masked_file_size (rands k) (file_size_in_name ty rand s)) crc) False @ ext" using get_filename_made [OF f(1)] by blast
  define e where "e = base64_encode_ex g_fdfs_base64_context (name_buff_of sid t (masked_file_size (rands k) (file_size_in_name ty rand s)) crc) False"
  have le: "length e = 27" unfolding e_def by (rule encode_name(1)) (simp add: name_buff_of_def)
  have "drop 10 name = e @ (case ty of Upload_Trunk f \<Rightarrow> trunk_file_info_encode f | _ \<Rightarrow> []) @ ext"
    "take 10 name = 77 # print_02X spi @ 47 # print_02X h @ 47 # print_02X l @ [47]" "length name = (if is_trunk_upload ty then 60 else 44)"
    unfolding f(2) filename [folded e_def] new_fname2log_def
    using le ext info_decode_encode(2) tr by (cases ty; simp add: print_02X_def is_trunk_upload_def)+
  then show thesis using that [of "rands k" h l] by (simp add: e_def)
qed

text \<open>What every reader of an uploaded file's name finds in it.\<close>

lemma upload_name_decoded:
  assumes u: "upload_file_name exists rand rands sid d spi sub_path ty s crc ext t = Inr name" and ext: "length ext = 7"
    and tr: "\<And>f. ty = Upload_Trunk f \<Longrightarrow> file_info_ok f"
    and ranges: "int_range sid" "int_range t" "int_range crc" "upload_size_ok ty s"
  shows "\<exists>z. (\<forall>stk. let b = decode_into stk (take 27 (drop 10 name)) in
      ntohl (buff2int b) = sid \<and> buff2int (drop 4 b) = t \<and> buff2long (drop 8 b) = z \<and> buff2int (drop 16 b) = crc) \<and>
    (IS_TRUNK_FILE z \<longleftrightarrow> is_trunk_upload ty) \<and> (IS_APPENDER_FILE z \<longleftrightarrow> ty = Upload_Appender) \<and> (ty \<noteq> Upload_Appender \<longrightarrow> size_of_name z = s) \<and>
    length name = (if is_trunk_upload ty then 60 else 44)"
proof -
  obtain r h l where sh: "drop 10 name = base64_encode_ex g_fdfs_base64_context (name_buff_of sid t (masked_file_size r (file_size_in_name ty rand s)) crc) False @
      (case ty of Upload_Trunk f \<Rightarrow> trunk_file_info_encode f | _ \<Rightarrow> []) @ ext" "length name = (if is_trunk_upload ty then 60 else 44)"
    using upload_name_shape [OF u ext tr] by metis
  define z where "z = masked_file_size r (file_size_in_name ty rand s)"
  define src0 where "src0 = name_buff_of sid t z crc"
  note z = name_size_facts [OF ranges(4) z_def]
  have len: "length src0 = 20" by (simp add: src0_def name_buff_of_def)
  have take27: "take 27 (drop 10 name) = base64_encode_ex g_fdfs_base64_context src0 False"
    using encode_name(1) [OF len] unfolding sh(1) z_def [symmetric] src0_def [symmetric] by simp
  have "ntohl (buff2int b) = sid \<and> buff2int (drop 4 b) = t \<and> buff2long (drop 8 b) = z \<and> buff2int (drop 16 b) = crc"
    if b: "b = decode_into stk (take 27 (drop 10 name))" for stk b
  proof -
    obtain rest where "b = src0 @ rest" using encode_name(2) [OF len, of stk] by (auto simp: b take27)
    then show ?thesis using name_buff_fields [OF ranges(1-3) z(1), of b rest] by (simp add: src0_def)
  qed
  then have "\<forall>stk. let b = decode_into stk (take 27 (drop 10 name)) in
      ntohl (buff2int b) = sid \<and> buff2int (drop 4 b) = t \<and> buff2long (drop 8 b) = z \<and> buff2int (drop 16 b) = crc" by (simp only: Let_def) blast
  with z(2-4) sh(2) show ?thesis by blast
qed

lemma upload_name_source:
  assumes u: "upload_file_name exists rand rands sid d spi sub_path ty s crc ext t = Inr name" and ext: "length ext = 7"
    and tr: "\<forall>f. ty = Upload_Trunk f \<longrightarrow> file_info_ok f"
    and ranges: "int_range sid" "int_range t" "int_range crc" "upload_size_ok ty s"
  shows "file_source_of stk name = \<lparr>fs_storage_ip = sid, fs_storage_id = (if fdfs_get_server_id_type sid = FDFS_ID_TYPE_SERVER_ID then print_int sid else []),
    fs_timestamp = t, fs_normal = (ty \<noteq> Upload_Appender)\<rparr>"
proof -
  from tr have tr': "\<And>f. ty = Upload_Trunk f \<Longrightarrow> file_info_ok f" by blast
  obtain z where dec: "\<forall>stk. let b = decode_into stk (take 27 (drop 10 name)) in
      ntohl (buff2int b) = sid \<and> buff2int (drop 4 b) = t \<and> buff2long (drop 8 b) = z \<and> buff2int (drop 16 b) = crc"
    and z: "IS_TRUNK_FILE z \<longleftrightarrow> is_trunk_upload ty" "IS_APPENDER_FILE z \<longleftrightarrow> ty = Upload_Appender"
    and len: "length name = (if is_trunk_upload ty then 60 else 44)"
    using upload_name_decoded [OF u ext tr' ranges] by blast
  note d = dec [rule_format, unfolded Let_def]
  have "\<not> IS_SLAVE_FILE (length name) z" "\<not> length name < 39" using z(1) len by (simp_all add: IS_SLAVE_FILE_def)
  then show ?thesis using z(2) by (simp add: file_source_of_def d Let_def)
qed

section \<open>Properties\<close>

text \<open>C22. The name of an uploaded file tells what was put into it, whatever the random numbers: the tracker reads the id of the source and the time and takes
  the file for one that is modified later exactly when it is an appender file; a storage server does not take it for a slave file and takes it for a
  file in a trunk file exactly when it is one; and a client reads the source, the time, and, except for an appender file, the size and the check
  sum.\<close>

theorem file_name_roundtrip:
  assumes u: "upload_file_name exists rand rands sid d spi sub_path ty s crc ext t = Inr name" and ext: "length ext = 7"
    and tr: "\<forall>f. ty = Upload_Trunk f \<longrightarrow> file_info_ok f"
    and ranges: "int_range sid" "int_range t" "int_range crc" "upload_size_ok ty s"
  defines "by_id \<equiv> fdfs_get_server_id_type sid = FDFS_ID_TYPE_SERVER_ID"
  shows "file_source_of stk name = \<lparr>fs_storage_ip = sid, fs_storage_id = (if by_id then print_int sid else []), fs_timestamp = t, fs_normal = (ty \<noteq> Upload_Appender)\<rparr> \<and>
    \<not> storage_is_slave_file name \<and> (fdfs_is_trunk_file name \<longleftrightarrow> is_trunk_upload ty) \<and>
    (\<exists>info. fdfs_get_file_info_ex ids query name False = (0, info) \<and> create_timestamp info = t \<and> source_id info = (if by_id then sid else 0) \<and>
       (\<not> by_id \<longrightarrow> source_ip_addr info = inet_ntop sid) \<and>
       (if ty = Upload_Appender then fi_file_size info = - 1 else fi_file_size info = s \<and> fi_crc32 info = crc))"
proof -
  from tr have tr': "\<And>f. ty = Upload_Trunk f \<Longrightarrow> file_info_ok f" by blast
  obtain z where dec: "\<forall>stk. let b = decode_into stk (take 27 (drop 10 name)) in
      ntohl (buff2int b) = sid \<and> buff2int (drop 4 b) = t \<and> buff2long (drop 8 b) = z \<and> buff2int (drop 16 b) = crc"
    and z: "IS_TRUNK_FILE z \<longleftrightarrow> is_trunk_upload ty" "IS_APPENDER_FILE z \<longleftrightarrow> ty = Upload_Appender" "ty \<noteq> Upload_Appender \<longrightarrow> size_of_name z = s"
    and len: "length name = (if is_trunk_upload ty then 60 else 44)"
    using upload_name_decoded [OF u ext tr' ranges] by blast
  note d = dec [rule_format, unfolded Let_def]
  have slave: "\<not> IS_SLAVE_FILE (length name) z" using z(1) len by (simp add: IS_SLAVE_FILE_def)
  have len': "44 \<le> length name" using len by simp
  have src: "file_source_of stk name = \<lparr>fs_storage_ip = sid, fs_storage_id = (if by_id then print_int sid else []), fs_timestamp = t, fs_normal = (ty \<noteq> Upload_Appender)\<rparr>"
    unfolding by_id_def by (rule upload_name_source [OF u ext tr ranges])
  have sz: "name_size name = z" by (simp add: name_size_def d)
  have "\<not> storage_is_slave_file name" using z(1) len by (simp add: storage_is_slave_file_def sz)
  moreover have "fdfs_is_trunk_file name \<longleftrightarrow> is_trunk_upload ty" using z(1) len by (simp add: fdfs_is_trunk_file_def d Let_def)
  moreover have "\<exists>info. fdfs_get_file_info_ex ids query name False = (0, info) \<and> create_timestamp info = t \<and> source_id info = (if by_id then sid else 0) \<and>
       (\<not> by_id \<longrightarrow> source_ip_addr info = inet_ntop sid) \<and>
       (if ty = Upload_Appender then fi_file_size info = - 1 else fi_file_size info = s \<and> fi_crc32 info = crc)"
  proof -
    define addr where "addr = (if by_id then (if g_storage_ids_by_ip ids = [] then []
      else (case fdfs_get_storage_by_id ids (print_int sid) of None \<Rightarrow> [] | Some e \<Rightarrow> si_ip_addr e)) else inet_ntop sid)"
    define info where "info = \<lparr>create_timestamp = t, fi_crc32 = 0, source_id = (if by_id then sid else 0), fi_file_size = z, source_ip_addr = addr\<rparr>"
    have "fdfs_get_file_info_ex ids query name False =
        (if ty = Upload_Appender then (0, info\<lparr>fi_file_size := - 1\<rparr>) else (0, info\<lparr>fi_file_size := size_of_name z, fi_crc32 := crc\<rparr>))"
      using len' slave z(2) unfolding fdfs_get_file_info_ex_def Let_def
      by (simp add: d by_id_def [symmetric] addr_def info_def size_of_name_def)
    then show ?thesis using z(3) by (auto simp: info_def addr_def)
  qed
  ultimately show ?thesis using src by blast
qed

text \<open>A file \<open>7.txt\<close> of 5 bytes from server 2, the first name of which is taken.\<close>

definition demo_dist :: dist_state where
  "demo_dist = \<lparr>g_dist_round_robin = True, g_file_distribute_rotate_count = 100, g_subdir_count_per_path = 256, g_dist_path_index_high = 0,
     g_dist_path_index_low = 1, g_dist_write_file_count = 0, g_stat_change_count = 0\<rparr>"

definition demo_upload :: "upload_type \<Rightarrow> int + byte list" where
  "demo_upload ty = upload_file_name (\<lambda>f. f ! 17 = 67) 9 (\<lambda>k. int k * 65536) 2 demo_dist 0 None ty 5 7 [48, 48, 48, 46, 116, 120, 116] 1000"

lemma demo_upload_name: "\<exists>name. demo_upload Upload_Normal = Inr name"
proof -
  have "\<not> isl (demo_upload Upload_Normal)" by code_simp
  then show ?thesis by (cases "demo_upload Upload_Normal") auto
qed

theorem file_name_roundtrip_witness:
  "\<exists>name info. demo_upload Upload_Normal = Inr name \<and> fs_storage_id (file_source_of [] name) = [50] \<and> \<not> storage_is_slave_file name \<and>
     fdfs_get_file_info_ex \<lparr>g_storage_ids_by_ip = [], g_storage_ids_by_id = []\<rparr> (\<lambda>i. (2, i)) name False = (0, info) \<and> fi_file_size info = 5 \<and> fi_crc32 info = 7"
proof -
  obtain name where name: "demo_upload Upload_Normal = Inr name" using demo_upload_name by blast
  have sid: "fdfs_get_server_id_type 2 = FDFS_ID_TYPE_SERVER_ID" "print_int 2 = [50]" by code_simp+
  show ?thesis
    using file_name_roundtrip [OF name [unfolded demo_upload_def], where stk = "[]" and query = "\<lambda>i. (2, i)" and ids = "\<lparr>g_storage_ids_by_ip = [], g_storage_ids_by_id = []\<rparr>"] name
    by (auto simp: int_range_def upload_size_ok_def sid)
qed

text \<open>C23. A file is modified where it was made: when the server that has made the name of a file is active in its group, the tracker names this server, and
  no other, for an update of the file. The server is known to the tracker by its id, or, where server ids are not used, by its
  address.\<close>

theorem upload_then_update:
  assumes reach: "tracker_reachable gs" and k: "k < length (gs_groups gs)" "gi_group_name (grp gs k) = group_name"
    and p: "p < srv_count (grp gs k)" "sd_status (srv (grp gs k) p) = FDFS_STORAGE_STATUS_ACTIVE"
    and sid: "sd_id (srv (grp gs k) p) = (if fdfs_get_server_id_type sid = FDFS_ID_TYPE_SERVER_ID then print_int sid else inet_ntop sid)"
      "sid \<noteq> INADDR_NONE" "fdfs_get_server_id_type sid = FDFS_ID_TYPE_IP_ADDRESS \<longrightarrow> \<not> g_use_storage_id env"
    and u: "upload_file_name exists rand rands sid d spi sub_path ty s crc ext t = Inr name" and ext: "length ext = 7"
    and tr: "\<forall>f. ty = Upload_Trunk f \<longrightarrow> file_info_ok f"
    and ranges: "int_range sid" "int_range t" "int_range crc" "upload_size_ok ty s"
  shows "tracker_mem_get_storage_by_filename env sd stk gs QUERY_UPDATE group_name name = Some (Inr (k, [p]), gs)"
proof -
  let ?fs = "file_source_of stk name" and ?g = "grp gs k"
  note fs = upload_name_source [OF u ext tr ranges, of stk]
  have inv: "group_inv ?g" by (rule reachable_group_inv [OF reach k(1)])
  have gi: "groups_inv gs" using reachable_inv [OF reach] by (simp add: tracker_inv_def)
  have act: "active_ok ?g" using inv by (simp add: group_inv_def)
  have "print_int sid \<noteq> []" if "fdfs_get_server_id_type sid = FDFS_ID_TYPE_SERVER_ID"
    using that print_dec_nonempty by (auto simp: fdfs_get_server_id_type_def print_int_def split: if_splits)
  then have "source_server env ?g ?fs = tracker_mem_get_active_storage_by_id ?g (Some (sd_id (srv ?g p)))"
    using sid by (cases "fdfs_get_server_id_type sid") (auto simp: source_server_def fs tracker_mem_get_active_storage_by_ip_def)
  also have "\<dots> = Some p" using get_active_storage_iff [OF act] p by simp
  finally have upd: "fetch_update env ?g ?fs = (Some p, ?g)" using sid(2) by (simp add: fetch_update_def fs)
  have "p \<in> set (gi_active_servers ?g)" using active_set [OF inv] p by blast
  then have "gi_active_servers ?g \<noteq> []" by auto
  moreover from this obtain store where "gi_pStoreServer ?g = Some store" using inv by (auto simp: group_inv_def store_ok_def)
  moreover have "tracker_mem_get_group_ex gs group_name = Some k" using get_group_iff [OF gi] k by simp
  ultimately show ?thesis using upd by (simp add: tracker_mem_get_storage_by_filename_def Let_def upd_grp_def k(1))
qed

theorem upload_then_update_witness:
  "\<exists>name. demo_upload Upload_Normal = Inr name \<and>
     tracker_mem_get_storage_by_filename demo_env demo_delay (replicate 64 0) demo_two QUERY_UPDATE [103] name = Some (Inr (0, [1]), demo_two)"
proof -
  obtain name where name: "demo_upload Upload_Normal = Inr name" using demo_upload_name by blast
  have st: "gi_group_name (grp demo_two 0) = [103]" "1 < srv_count (grp demo_two 0)" "sd_status (srv (grp demo_two 0) 1) = 7" "sd_id (srv (grp demo_two 0) 1) = [50]"
    by code_simp+
  have sid: "fdfs_get_server_id_type 2 = FDFS_ID_TYPE_SERVER_ID" "print_int 2 = [50]" by code_simp+
  have "tracker_mem_get_storage_by_filename demo_env demo_delay (replicate 64 0) demo_two QUERY_UPDATE [103] name = Some (Inr (0, [1]), demo_two)"
    using upload_then_update [OF reachable_demo_two _ st(1-3) _ _ _ name [unfolded demo_upload_def], of demo_env demo_delay "replicate 64 0"] st(4)
    by (simp add: demo_two_state st(4) sid int_range_def upload_size_ok_def)
  with name show ?thesis by blast
qed

text \<open>A name that is no longer than another and agrees with it in the encoded part is no slave name when the other is none.\<close>

lemma shorter_name:
  assumes "take 27 (drop 10 a) = take 27 (drop 10 b)" "39 \<le> length a" "length a \<le> length b"
  shows "storage_is_slave_file a \<Longrightarrow> storage_is_slave_file b" "fs_timestamp (file_source_of stk a) = fs_timestamp (file_source_of stk b)"
    "fs_normal (file_source_of stk b) \<Longrightarrow> fs_normal (file_source_of stk a)"
  using assms by (auto simp: storage_is_slave_file_def name_size_def file_source_of_def Let_def IS_SLAVE_FILE_def split: if_splits)

lemma upload_name_no_slave:
  assumes "upload_file_name exists rand rands sid d spi sub_path ty s crc ext t = Inr name" and "length ext = 7"
    and "\<And>f. ty = Upload_Trunk f \<Longrightarrow> file_info_ok f" and "int_range sid" "int_range t" "int_range crc" "upload_size_ok ty s"
  shows "\<not> storage_is_slave_file name"
proof -
  obtain z where "\<forall>stk. let b = decode_into stk (take 27 (drop 10 name)) in
      ntohl (buff2int b) = sid \<and> buff2int (drop 4 b) = t \<and> buff2long (drop 8 b) = z \<and> buff2int (drop 16 b) = crc"
    and z: "IS_TRUNK_FILE z \<longleftrightarrow> is_trunk_upload ty" "length name = (if is_trunk_upload ty then 60 else 44)"
    using upload_name_decoded [OF assms] by blast
  then have "name_size name = z" by (simp add: name_size_def Let_def)
  with z show ?thesis by (simp add: storage_is_slave_file_def)
qed

text \<open>C40. A slave file may be taken for a file of its own. Take any file but an appender file, in a trunk file or not, whose name ends in an extension \<open>e\<close>,
  padded in front as \<open>ds\<close> to the 7 bytes that every name has for it. An empty prefix and another extension \<open>e'\<close> (not empty, without its dot) that is not longer
  give a slave name, different from the master's, which neither the storage servers nor the tracker recognise as that of a slave file. The tracker then takes
  the time of the master for the time of the slave file, and may name servers for it that have only the master.\<close>

theorem slave_name_unrecognised:
  assumes u: "upload_file_name exists rand rands sid d spi sub_path ty s crc (ds @ 46 # e) t = Inr name"
    and ty: "ty \<noteq> Upload_Appender" "\<forall>f. ty = Upload_Trunk f \<longrightarrow> file_info_ok f"
    and ds: "length (ds @ 46 # e) = 7" "46 \<notin> set ds" and e: "e' \<noteq> []" "length e' \<le> length e" "hd e' \<noteq> 46" "e' \<noteq> e"
    and ranges: "int_range sid" "int_range t" "int_range crc" "upload_size_ok ty s"
  shows "\<exists>slave. fdfs_gen_slave_filename name [] (Some e') = Inr slave \<and> slave \<noteq> name \<and> \<not> storage_is_slave_file slave \<and>
    fs_normal (file_source_of stk slave) \<and> fs_timestamp (file_source_of stk slave) = t"
proof -
  let ?ext = "ds @ 46 # e"
  have tr: "\<And>f. ty = Upload_Trunk f \<Longrightarrow> file_info_ok f" using ty(2) by blast
  have "\<exists>pre. drop 10 name = pre @ ?ext" 
  proof (rule upload_name_shape [OF u ds(1) tr])
    let ?enc = "\<lambda>r. base64_encode_ex g_fdfs_base64_context (name_buff_of sid t (masked_file_size r (file_size_in_name ty rand s)) crc) False"
    let ?info = "case ty of Upload_Trunk f \<Rightarrow> trunk_file_info_encode f | _ \<Rightarrow> []"
    fix r assume "drop 10 name = ?enc r @ ?info @ ?ext"
    then have "drop 10 name = (?enc r @ ?info) @ ?ext" by (simp only: append.assoc)
    then show ?thesis by blast
  qed
  then obtain base where name: "name = base @ ?ext" by (metis append_take_drop_id append.assoc)
  have len: "length name = (if is_trunk_upload ty then 60 else 44)" by (rule upload_name_shape [OF u ds(1) tr])
  have base: "length base = length name - 7" "37 \<le> length base" using len ds(1) by (auto simp: name split: if_splits)
  let ?slave = "base @ ds @ 46 # e'"
  have dot: "strchr ?ext 46 = Some (length ds)" using ds(2) by (induction ds) auto
  have t7: "take 7 (46 # e') = 46 # e'" using ds(1) e(2) by simp
  have at: "length name - (FDFS_FILE_EXT_NAME_MAX_LEN + 1) = length base" "\<not> length name < 28 + FDFS_FILE_EXT_NAME_MAX_LEN" using base by auto
  have parts: "drop (length base) name = ?ext" "drop (length base + length ds) name = 46 # e" "take (length base + length ds) name = base @ ds"
    by (simp_all add: name)
  have gen: "fdfs_gen_slave_filename name [] (Some e') = Inr ?slave"
    unfolding fdfs_gen_slave_filename_def Let_def at(1) parts(1) dot option.case parts(2,3) t7 using at(2) e by simp
  have "1 \<le> length e'" using e(1) by (simp add: Suc_le_eq)
  with base(2) have "39 \<le> length base + (length ds + (1 + length e'))" by linarith
  then have "39 \<le> length ?slave" by simp
  moreover have "length ?slave \<le> length name" unfolding name using e(2) by simp
  moreover have "take 27 (drop 10 (base @ xs)) = take 27 (drop 10 base)" for xs using base(2) by simp
  then have "take 27 (drop 10 ?slave) = take 27 (drop 10 name)" unfolding name by metis
  ultimately have agree: "39 \<le> length ?slave" "length ?slave \<le> length name" "take 27 (drop 10 ?slave) = take 27 (drop 10 name)" .
  note short = shorter_name [OF agree(3,1,2)]
  have src: "fs_normal (file_source_of stk name)" "fs_timestamp (file_source_of stk name) = t"
    unfolding upload_name_source [OF u ds(1) ty(2) ranges] using ty(1) by simp_all
  have "\<not> storage_is_slave_file ?slave" using short(1) upload_name_no_slave [OF u ds(1) tr ranges] by blast
  moreover have "fs_normal (file_source_of stk ?slave)" by (rule short(3) [OF src(1)])
  moreover have "fs_timestamp (file_source_of stk ?slave) = t" using short(2) src(2) by (rule trans)
  moreover have "?slave \<noteq> name" using e(4) by (simp add: name)
  ultimately show ?thesis using gen by blast
qed

theorem slave_name_unrecognised_witness:
  "\<exists>name slave. demo_upload Upload_Normal = Inr name \<and> fdfs_gen_slave_filename name [] (Some [106, 112, 103]) = Inr slave \<and> slave \<noteq> name \<and>
     \<not> storage_is_slave_file slave \<and> fs_normal (file_source_of [] slave)"
proof -
  obtain name where name: "demo_upload Upload_Normal = Inr name" using demo_upload_name by blast
  have "demo_upload Upload_Normal = upload_file_name (\<lambda>f. f ! 17 = 67) 9 (\<lambda>k. int k * 65536) 2 demo_dist 0 None Upload_Normal 5 7 ([48, 48, 48] @ 46 # [116, 120, 116]) 1000"
    by (simp add: demo_upload_def)
  from slave_name_unrecognised [OF name [unfolded this], of "[106, 112, 103]" "[]"] name show ?thesis
    by (auto simp: int_range_def upload_size_ok_def)
qed

end
