(* ===== verification/Metadata.thy ===== *)
theory Metadata
  imports Storage_Ids_Sync
begin

text \<open>
  The metadata of a file: packing and splitting (\<open>tracker/tracker_proto.c\<close>), and the handler that overwrites or merges the
  metadata file (\<open>storage_do_set_metadata\<close> in \<open>storage/storage_service.c\<close>). The metadata file of a file is \<open>None\<close> when it does not exist, else its
  content. What the system answers is the record \<open>meta_env\<close>. A run of requests is shown to refine updates of a map from names to values.
\<close>

section \<open>Packing and splitting\<close>

abbreviation (input) FDFS_RECORD_SEPERATOR :: byte where "FDFS_RECORD_SEPERATOR \<equiv> 1"
abbreviation (input) FDFS_FIELD_SEPERATOR :: byte where "FDFS_FIELD_SEPERATOR \<equiv> 2"
abbreviation (input) FDFS_MAX_META_NAME_LEN :: nat where "FDFS_MAX_META_NAME_LEN \<equiv> 64"
abbreviation (input) FDFS_MAX_META_VALUE_LEN :: nat where "FDFS_MAX_META_VALUE_LEN \<equiv> 256"

record FDFSMetaData =
  md_name :: "byte list"
  md_value :: "byte list"

definition metadata_cmp_by_name :: "FDFSMetaData \<Rightarrow> FDFSMetaData \<Rightarrow> int" where
  "metadata_cmp_by_name p1 p2 = strcmp (md_name p1) (md_name p2)"

text \<open>One row: without a field separator it is skipped, and long fields are cut.\<close>

definition split_row :: "byte \<Rightarrow> byte list \<Rightarrow> FDFSMetaData option" where
  "split_row filedSeperator row =
     map_option (\<lambda>i. \<lparr>md_name = take FDFS_MAX_META_NAME_LEN (take i row), md_value = take FDFS_MAX_META_VALUE_LEN (drop (Suc i) row)\<rparr>)
       (strchr row filedSeperator)"

text \<open>\<open>mem\<close> are the two allocations. The buffer is read as a string, up to its first zero byte.\<close>

definition fdfs_split_metadata_ex :: "bool \<times> bool \<Rightarrow> byte list \<Rightarrow> byte \<Rightarrow> byte \<Rightarrow> int + FDFSMetaData list" where
  "fdfs_split_metadata_ex mem meta_buff recordSeperator filedSeperator =
     (if \<not> fst mem \<or> \<not> snd mem then Inl ENOMEM
      else
        (let meta_count = getOccurCount (c_str meta_buff) recordSeperator + 1;
             rows = splitEx (c_str meta_buff) recordSeperator meta_count
         in Inr (List.map_filter (split_row filedSeperator) rows)))"

definition fdfs_split_metadata :: "bool \<times> bool \<Rightarrow> byte list \<Rightarrow> int + FDFSMetaData list" where
  "fdfs_split_metadata mem meta_buff = fdfs_split_metadata_ex mem meta_buff FDFS_RECORD_SEPERATOR FDFS_FIELD_SEPERATOR"

text \<open>
  The loop that packs writes a separator behind each entry; the last one is then overwritten by the terminating zero. With no entry
  that zero is written before the buffer.
\<close>

definition pack_entry :: "FDFSMetaData \<Rightarrow> byte list" where
  "pack_entry m = md_name m @ FDFS_FIELD_SEPERATOR # md_value m @ [FDFS_RECORD_SEPERATOR]"

definition fdfs_pack_metadata :: "FDFSMetaData list \<Rightarrow> byte list option" where
  "fdfs_pack_metadata meta_list =
     (if meta_list = [] then None else Some (butlast (concat (map pack_entry meta_list))))"

section \<open>Setting metadata\<close>

text \<open>
  Sorting in the buffer of the request, whose length stays as it is. \<open>splitEx\<close> has put zeros in place of the separators.
  With no entry the byte before the buffer, the last of the file name in the request, becomes zero; it is not used afterwards.
\<close>

definition split_in_place :: "byte list \<Rightarrow> byte list" where
  "split_in_place b = map (\<lambda>c. if c = FDFS_RECORD_SEPERATOR then 0 else c) (c_str b) @ drop (length (c_str b)) b"

definition storage_sort_metadata_buff :: "bool \<times> bool \<Rightarrow> byte list \<Rightarrow> int + byte list" where
  "storage_sort_metadata_buff mem meta_buff =
     (case fdfs_split_metadata mem meta_buff of
        Inl result \<Rightarrow> Inl result
      | Inr meta_list \<Rightarrow>
          (case fdfs_pack_metadata (qsort metadata_cmp_by_name meta_list) of
             None \<Rightarrow> Inr (split_in_place meta_buff)
           | Some packed \<Rightarrow> Inr (take (length meta_buff) (packed @ 0 # drop (Suc (length packed)) (split_in_place meta_buff)))))"

text \<open>The three loops of the merge.\<close>

fun merge_metadata :: "FDFSMetaData list \<Rightarrow> FDFSMetaData list \<Rightarrow> FDFSMetaData list" where
  "merge_metadata (old # olds) (new # news) =
     (let result = strcmp (md_name old) (md_name new) in
      if result < 0 then old # merge_metadata olds (new # news)
      else if result = 0 then new # merge_metadata olds news
      else new # merge_metadata (old # olds) news)"
| "merge_metadata olds [] = olds"
| "merge_metadata [] news = news"

text \<open>How \<open>writeToFile\<close> may end: the file is not opened, or is cut and partly written, or is written and not known to be on the disk.\<close>

datatype write_outcome = Open_Fails int | Write_Fails int nat | Fsync_Fails int | Written

fun writeToFile :: "write_outcome \<Rightarrow> byte list option \<Rightarrow> byte list \<Rightarrow> int \<times> byte list option" where
  "writeToFile (Open_Fails e) f buff = (e, f)"
| "writeToFile (Write_Fails e n) f buff = (e, Some (take n buff))"
| "writeToFile (Fsync_Fails e) f buff = (e, Some buff)"
| "writeToFile Written f buff = (0, Some buff)"

datatype op_flag = METADATA_OVERWRITE | METADATA_MERGE
datatype sync_flag = Sync_None | Sync_Create | Sync_Update | Sync_Delete

record meta_env =
  me_mem_old :: "bool \<times> bool"
  me_mem_new :: "bool \<times> bool"
  me_mem_all :: int
  me_mem_pack :: int
  me_unlink :: int
  me_read :: int
  me_write :: write_outcome

text \<open>
  The merge with an existing file. \<open>None\<close> stands for the write before the memory just allocated when there is no entry at
  all.
\<close>

definition merge_file :: "meta_env \<Rightarrow> byte list \<Rightarrow> byte list \<Rightarrow> (int \<times> sync_flag \<times> byte list option) option" where
  "merge_file env meta_buff file_buff =
     (let old = Some file_buff in
      case fdfs_split_metadata (me_mem_old env) file_buff of
        Inl result \<Rightarrow> Some (result, Sync_None, old)
      | Inr old_meta_list \<Rightarrow>
          (case fdfs_split_metadata (me_mem_new env) meta_buff of
             Inl result \<Rightarrow> Some (result, Sync_None, old)
           | Inr new_meta_list \<Rightarrow>
               if me_mem_all env \<noteq> 0 then Some (me_mem_all env, Sync_None, old)
               else if me_mem_pack env \<noteq> 0 then Some (me_mem_pack env, Sync_None, old)
               else
                 (case fdfs_pack_metadata (merge_metadata old_meta_list (qsort metadata_cmp_by_name new_meta_list)) of
                    None \<Rightarrow> None
                  | Some all_meta_buff \<Rightarrow>
                      (case writeToFile (me_write env) old all_meta_buff of
                         (result, f) \<Rightarrow> Some (result, Sync_Update, f)))))"

definition sort_and_write ::
    "meta_env \<Rightarrow> sync_flag \<Rightarrow> byte list \<Rightarrow> byte list option \<Rightarrow> int \<times> sync_flag \<times> byte list option" where
  "sort_and_write env flag meta_buff f =
     (case storage_sort_metadata_buff (me_mem_new env) meta_buff of
        Inl result \<Rightarrow> (result, Sync_None, f)
      | Inr sorted_buff \<Rightarrow> (case writeToFile (me_write env) f sorted_buff of (result, f') \<Rightarrow> (result, flag, f')))"

definition storage_do_set_metadata ::
    "meta_env \<Rightarrow> op_flag \<Rightarrow> byte list \<Rightarrow> byte list option \<Rightarrow> (int \<times> sync_flag \<times> byte list option) option" where
  "storage_do_set_metadata env flag meta_buff f =
     (case flag of
        METADATA_OVERWRITE \<Rightarrow>
          if meta_buff = []
          then Some (if f = None then (0, Sync_None, None)
                     else (me_unlink env, Sync_Delete, if me_unlink env = 0 then None else f))
          else Some (sort_and_write env (if f = None then Sync_Create else Sync_Update) meta_buff f)
      | METADATA_MERGE \<Rightarrow>
          if meta_buff = [] then Some (0, Sync_None, f)
          else
            (let result = (if f = None \<and> me_read env = 0 then ENOENT else me_read env) in
             if result = ENOENT then Some (sort_and_write env Sync_Create meta_buff f)
             else if result \<noteq> 0 then Some (result, Sync_None, f)
             else merge_file env meta_buff (the f)))"

text \<open>What the client makes of the reply with the file: nothing when it is empty.\<close>

definition storage_get_metadata :: "int \<Rightarrow> int \<Rightarrow> bool \<times> bool \<Rightarrow> int + byte list \<Rightarrow> int + FDFSMetaData list" where
  "storage_get_metadata net_error mem split_mem net =
     (case net of
        Inl result \<Rightarrow> Inl result
      | Inr received \<Rightarrow>
          (case fdfs_recv_response net_error mem None received of
             Inl result \<Rightarrow> Inl result
           | Inr file_buff \<Rightarrow> if file_buff = [] then Inr [] else fdfs_split_metadata split_mem file_buff))"

section \<open>Reading back what was packed\<close>

definition meta_ok :: "FDFSMetaData \<Rightarrow> bool" where
  "meta_ok m \<longleftrightarrow> length (md_name m) \<le> FDFS_MAX_META_NAME_LEN \<and> length (md_value m) \<le> FDFS_MAX_META_VALUE_LEN \<and>
     (\<forall>c \<in> set (md_name m). c \<notin> {0, 1, 2}) \<and> (\<forall>c \<in> set (md_value m). c \<notin> {0, 1})"

definition meta_row :: "FDFSMetaData \<Rightarrow> byte list" where
  "meta_row m = md_name m @ FDFS_FIELD_SEPERATOR # md_value m"

lemma pack_join: "ms \<noteq> [] \<Longrightarrow> butlast (concat (map pack_entry ms)) = join_cols 1 (map meta_row ms)"
proof (induction ms rule: list_nonempty_induct)
  case (single m)
  then show ?case by (simp add: pack_entry_def meta_row_def butlast_append)
next
  case (cons m ms)
  have "concat (map pack_entry ms) \<noteq> []" using cons(1) by (cases ms) (auto simp: pack_entry_def)
  then show ?case using cons by (simp add: butlast_append join_Cons pack_entry_def meta_row_def)
qed

lemma split_join:
  "\<lbrakk>rows \<noteq> []; \<forall>r \<in> set rows. sep \<notin> set r\<rbrakk> \<Longrightarrow>
   splitEx_loop (length rows) sep (join_cols sep rows) = rows \<and> Suc (count_list (join_cols sep rows) sep) = length rows"
proof (induction rows rule: list_nonempty_induct)
  case (single r)
  then show ?case by (simp add: count_list_0_iff)
next
  case (cons r rows)
  have s: "strchr (r @ sep # t) sep = Some (length r)" for t
    using cons.prems by (induction r) auto
  obtain n where n: "length rows = Suc n" using cons.hyps by (cases rows) auto
  have "splitEx_loop (Suc (length rows)) sep (r @ sep # join_cols sep rows) = r # splitEx_loop (length rows) sep (join_cols sep rows)"
    using s cons.hyps by simp
  then show ?case using cons by (simp add: join_Cons count_list_0_iff)
qed

lemma row_fields:
  assumes "meta_ok m"
  shows "1 \<notin> set (meta_row m)" "0 \<notin> set (meta_row m)" "split_row 2 (meta_row m) = Some m"
proof -
  have n: "2 \<notin> set (md_name m)" using assms by (auto simp: meta_ok_def)
  have "strchr (s @ 2 # t) 2 = Some (length s)" if "2 \<notin> set s" for s t :: "byte list" using that by (induction s) auto
  then show "split_row 2 (meta_row m) = Some m" using assms n by (simp add: split_row_def meta_row_def meta_ok_def)
  show "1 \<notin> set (meta_row m)" "0 \<notin> set (meta_row m)" using assms by (auto simp: meta_row_def meta_ok_def)
qed

lemma pack_plain: "\<lbrakk>ms \<noteq> []; \<forall>m \<in> set ms. meta_ok m\<rbrakk> \<Longrightarrow> 0 \<notin> set (join_cols 1 (map meta_row ms))"
  by (induction ms rule: list_nonempty_induct) (auto simp: join_Cons row_fields)

lemma split_pack:
  assumes "\<forall>m \<in> set ms. meta_ok m" "fdfs_pack_metadata ms = Some b"
  shows "fdfs_split_metadata (True, True) b = Inr ms"
proof -
  let ?rows = "map meta_row ms"
  have ne: "ms \<noteq> []" and b: "b = join_cols 1 ?rows" using assms(2) pack_join by (auto simp: fdfs_pack_metadata_def split: if_splits)
  have c: "c_str b = b" using pack_plain [OF ne assms(1)] by (simp add: b c_str_plain)
  have sp: "splitEx_loop (length ?rows) 1 b = ?rows" "Suc (count_list b 1) = length ?rows"
    using split_join [of ?rows 1] ne assms(1) row_fields unfolding b by auto
  have "splitEx b 1 (getOccurCount b 1 + 1) = ?rows"
    using sp by (simp add: splitEx_def getOccurCount_def occur_loop nat_add_distrib del: splitEx_loop.simps)
  moreover have "List.map_filter (split_row 2) ?rows = ms"
    using assms(1) by (induction ms) (simp_all add: map_filter_simps row_fields)
  ultimately show ?thesis by (simp add: fdfs_split_metadata_def fdfs_split_metadata_ex_def c Let_def)
qed

section \<open>Merging\<close>

interpretation meta_name: array_order "\<lambda>_. True" md_name metadata_cmp_by_name
  by unfold_locales (auto simp: metadata_cmp_by_name_def)

definition meta_map :: "FDFSMetaData list \<Rightarrow> byte list \<Rightarrow> byte list option" where
  "meta_map ms = map_of (map (\<lambda>m. (md_name m, md_value m)) ms)"

lemma meta_map_None: "meta_map ms k = None \<longleftrightarrow> k \<notin> md_name ` set ms"
  by (force simp: meta_map_def map_of_eq_None_iff image_image)

lemma meta_map_Cons [simp]: "meta_map (m # ms) = (meta_map ms)(md_name m \<mapsto> md_value m)"
  by (simp add: meta_map_def)

lemma set_merge: "set (merge_metadata olds news) \<subseteq> set olds \<union> set news"
  by (induction olds news rule: merge_metadata.induct) (auto simp: Let_def)

text \<open>The three ways a step of the merge can go.\<close>

lemma merge_step:
  "md_name old < md_name new \<Longrightarrow> merge_metadata (old # olds) (new # news) = old # merge_metadata olds (new # news)"
  "md_name old = md_name new \<Longrightarrow> merge_metadata (old # olds) (new # news) = new # merge_metadata olds news"
  "md_name new < md_name old \<Longrightarrow> merge_metadata (old # olds) (new # news) = new # merge_metadata (old # olds) news"
  by (auto simp: Let_def)

lemma merge_induct [consumes 2, case_names Nil_new Nil_old less equal greater]:
  fixes olds news :: "FDFSMetaData list"
  assumes "sorted_key md_name olds" "sorted_key md_name news"
    and "\<And>olds. sorted_key md_name olds \<Longrightarrow> P olds []" "\<And>news. sorted_key md_name news \<Longrightarrow> P [] news"
    and "\<And>old olds new news. \<lbrakk>sorted_key md_name (old # olds); sorted_key md_name (new # news); md_name old < md_name new; P olds (new # news)\<rbrakk> \<Longrightarrow> P (old # olds) (new # news)"
    and "\<And>old olds new news. \<lbrakk>sorted_key md_name (old # olds); sorted_key md_name (new # news); md_name old = md_name new; P olds news\<rbrakk> \<Longrightarrow> P (old # olds) (new # news)"
    and "\<And>old olds new news. \<lbrakk>sorted_key md_name (old # olds); sorted_key md_name (new # news); md_name new < md_name old; P (old # olds) news\<rbrakk> \<Longrightarrow> P (old # olds) (new # news)"
  shows "P olds news"
  using assms(1,2)
proof (induction olds news rule: merge_metadata.induct)
  case (1 old olds new news)
  consider "md_name old < md_name new" | "md_name old = md_name new" | "md_name new < md_name old" by fastforce
  then show ?case
  proof cases
    case 1
    then show ?thesis using assms(5) "1.prems" "1.IH"(1) by simp
  next
    case 2
    then show ?thesis using assms(6) "1.prems" "1.IH"(2) by simp
  next
    case 3
    then have "\<not> strcmp (md_name old) (md_name new) < 0" "strcmp (md_name old) (md_name new) \<noteq> 0" by auto
    then show ?thesis using assms(7) "1.prems" "1.IH"(3) 3 by simp
  qed
qed (use assms(3,4) in auto)

lemma sorted_merge:
  "\<lbrakk>sorted_key md_name olds; sorted_key md_name news\<rbrakk> \<Longrightarrow> sorted_key md_name (merge_metadata olds news)"
proof (induction rule: merge_induct)
  case (less old olds new news)
  then show ?case using set_merge [of olds "new # news"] by (fastforce simp: merge_step)
next
  case (equal old olds new news)
  then show ?case using set_merge [of olds news] by (auto simp: merge_step)
next
  case (greater old olds new news)
  then show ?case using set_merge [of "old # olds" news] by (fastforce simp: merge_step)
next
  case (Nil_old news)
  then show ?case by (cases news) auto
qed simp

lemma meta_map_merge:
  "\<lbrakk>sorted_key md_name olds; sorted_key md_name news\<rbrakk> \<Longrightarrow> meta_map (merge_metadata olds news) = meta_map olds ++ meta_map news"
proof (induction rule: merge_induct)
  case (less old olds new news)
  have "meta_map (new # news) (md_name old) = None" unfolding meta_map_None using less(2,3) by auto
  then have "(meta_map olds ++ meta_map (new # news))(md_name old \<mapsto> md_value old) = meta_map (old # olds) ++ meta_map (new # news)"
    unfolding meta_map_Cons [of old] by (intro ext) (auto simp: map_add_def split: option.split)
  moreover have "meta_map (merge_metadata (old # olds) (new # news)) = (meta_map olds ++ meta_map (new # news))(md_name old \<mapsto> md_value old)"
    by (simp only: merge_step(1) [OF less(3)] meta_map_Cons [of old "merge_metadata olds (new # news)"] less.IH)
  ultimately show ?case by (simp only:)
next
  case (equal old olds new news)
  then show ?case by (auto simp: merge_step map_add_def fun_eq_iff split: option.split)
next
  case (greater old olds new news)
  show ?case by (simp only: merge_step(3) [OF greater(3)] meta_map_Cons [of new] greater.IH map_add_upd)
next
  case (Nil_old news)
  then show ?case by (cases news) (auto simp: meta_map_def)
qed (simp add: meta_map_def)

section \<open>Requests\<close>

text \<open>The metadata bytes of a client's request (\<open>storage_set_metadata\<close>): none for an empty list.\<close>

definition set_metadata_bytes :: "FDFSMetaData list \<Rightarrow> byte list" where
  "set_metadata_bytes meta_list = (case fdfs_pack_metadata meta_list of None \<Rightarrow> [] | Some meta_buff \<Rightarrow> meta_buff)"

definition meta_list_ok :: "FDFSMetaData list \<Rightarrow> bool" where
  "meta_list_ok ms \<longleftrightarrow> (\<forall>m \<in> set ms. meta_ok m) \<and> distinct (map md_name ms)"

text \<open>A metadata file as the handler leaves it, and the map it stands for.\<close>

definition meta_file_ok :: "byte list option \<Rightarrow> bool" where
  "meta_file_ok f \<longleftrightarrow> (case f of None \<Rightarrow> True
     | Some b \<Rightarrow> \<exists>ms. fdfs_pack_metadata ms = Some b \<and> (\<forall>m \<in> set ms. meta_ok m) \<and> sorted_key md_name ms)"

definition meta_file_map :: "byte list option \<Rightarrow> byte list \<Rightarrow> byte list option" where
  "meta_file_map f = (case f of None \<Rightarrow> Map.empty | Some b \<Rightarrow> meta_map (projr (fdfs_split_metadata (True, True) b)))"

text \<open>The system's answers, except that a write is not stopped half-way and a file is not deleted by somebody else in between.\<close>

definition meta_env_ok :: "meta_env \<Rightarrow> bool" where
  "meta_env_ok env \<longleftrightarrow> me_read env \<noteq> ENOENT \<and> (case me_write env of Written \<Rightarrow> True | Open_Fails e \<Rightarrow> e \<noteq> 0 | _ \<Rightarrow> False)"

definition meta_update :: "op_flag \<Rightarrow> FDFSMetaData list \<Rightarrow> (byte list \<Rightarrow> byte list option) \<Rightarrow> byte list \<Rightarrow> byte list option" where
  "meta_update flag ms m = (case flag of METADATA_OVERWRITE \<Rightarrow> meta_map ms | METADATA_MERGE \<Rightarrow> m ++ meta_map ms)"

lemma split_pack_mem:
  "\<lbrakk>\<forall>m \<in> set ms. meta_ok m; fdfs_pack_metadata ms = Some b\<rbrakk> \<Longrightarrow> fdfs_split_metadata mem b = (if fst mem \<and> snd mem then Inr ms else Inl ENOMEM)"
  using split_pack [of ms b] by (cases mem) (auto simp: fdfs_split_metadata_def fdfs_split_metadata_ex_def)

lemma meta_file_packed:
  assumes "fdfs_pack_metadata ms = Some b" "\<forall>m \<in> set ms. meta_ok m" "sorted_key md_name ms"
  shows "meta_file_ok (Some b)" "meta_file_map (Some b) = meta_map ms"
  using assms split_pack by (auto simp: meta_file_ok_def meta_file_map_def)

lemma pack_length: "\<lbrakk>fdfs_pack_metadata ms = Some b; fdfs_pack_metadata ns = Some c; mset ms = mset ns\<rbrakk> \<Longrightarrow> length b = length c"
proof -
  assume a: "fdfs_pack_metadata ms = Some b" "fdfs_pack_metadata ns = Some c" and m: "mset ms = mset ns"
  have "sum_list (map (\<lambda>m. length (pack_entry m)) ms) = sum_list (map (\<lambda>m. length (pack_entry m)) ns)"
    by (metis m mset_map sum_mset_sum_list)
  then have "length (concat (map pack_entry ms)) = length (concat (map pack_entry ns))" by (simp add: length_concat comp_def)
  then show ?thesis using a by (auto simp: fdfs_pack_metadata_def split: if_splits)
qed

lemma meta_map_perm: "\<lbrakk>distinct (map md_name ms); mset ns = mset ms\<rbrakk> \<Longrightarrow> meta_map ns = meta_map ms"
proof -
  assume d: "distinct (map md_name ms)" and m: "mset ns = mset ms"
  have "mset (map md_name ns) = mset (map md_name ms)" using m by simp
  then have d': "distinct (map md_name ns)" using d mset_eq_imp_distinct_iff by blast
  have entry: "meta_map xs k = Some v \<longleftrightarrow> (k, v) \<in> (\<lambda>m. (md_name m, md_value m)) ` set xs" if "distinct (map md_name xs)" for xs k v
    using that map_of_eq_Some_iff [of "map (\<lambda>m. (md_name m, md_value m)) xs" k v] by (simp add: meta_map_def comp_def)
  have "meta_map ns k = Some v \<longleftrightarrow> meta_map ms k = Some v" for k v using entry [OF d] entry [OF d'] mset_eq_setD [OF m] by simp
  then show ?thesis by (intro ext) (metis not_None_eq)
qed

lemma qsort_meta:
  assumes "meta_list_ok ms"
  shows "sorted_key md_name (qsort metadata_cmp_by_name ms)" "\<forall>m \<in> set (qsort metadata_cmp_by_name ms). meta_ok m"
    "meta_map (qsort metadata_cmp_by_name ms) = meta_map ms"
  using meta_name.sorted_key_qsort [where xs = ms and deref = "\<lambda>p. p"] meta_map_perm [of ms "qsort metadata_cmp_by_name ms"] assms
  by (simp_all add: meta_list_ok_def)

lemma sort_packed:
  assumes "meta_list_ok ms" "fdfs_pack_metadata ms = Some b"
  obtains p where "fdfs_pack_metadata (qsort metadata_cmp_by_name ms) = Some p"
    "storage_sort_metadata_buff mem b = (if fst mem \<and> snd mem then Inr p else Inl ENOMEM)"
proof -
  have "qsort metadata_cmp_by_name ms \<noteq> []" using assms(2) by (metis fdfs_pack_metadata_def length_0_conv length_qsort option.distinct(1))
  then obtain p where p: "fdfs_pack_metadata (qsort metadata_cmp_by_name ms) = Some p" by (simp add: fdfs_pack_metadata_def)
  have "length p = length b" by (rule pack_length [OF p assms(2)]) simp
  then show thesis using that p split_pack_mem [OF _ assms(2), of mem] assms(1)
    by (simp add: storage_sort_metadata_buff_def meta_list_ok_def)
qed

lemma sort_and_write_spec:
  assumes "meta_list_ok ms" "fdfs_pack_metadata ms = Some b" "meta_env_ok env" "meta_file_ok f"
  shows "\<exists>r fl f'. sort_and_write env flag b f = (r, fl, f') \<and> meta_file_ok f' \<and> meta_file_map f' = (if r = 0 then meta_map ms else meta_file_map f)"
proof -
  obtain p where p: "fdfs_pack_metadata (qsort metadata_cmp_by_name ms) = Some p"
    "storage_sort_metadata_buff (me_mem_new env) b = (if fst (me_mem_new env) \<and> snd (me_mem_new env) then Inr p else Inl ENOMEM)"
    using sort_packed [OF assms(1,2), of "me_mem_new env"] by blast
  note q = qsort_meta [OF assms(1)]
  have "meta_file_ok (Some p)" "meta_file_map (Some p) = meta_map ms" using meta_file_packed [OF p(1) q(2,1)] q(3) by simp_all
  then show ?thesis using assms(3,4) p(2) by (auto simp: sort_and_write_def meta_env_ok_def split: write_outcome.splits)
qed

lemma merge_file_spec:
  assumes ms: "meta_list_ok ms" "fdfs_pack_metadata ms = Some b" and env: "meta_env_ok env" and f: "meta_file_ok (Some file_buff)"
  shows "\<exists>r fl f'. merge_file env b file_buff = Some (r, fl, f') \<and> meta_file_ok f' \<and>
    meta_file_map f' = (if r = 0 then meta_file_map (Some file_buff) ++ meta_map ms else meta_file_map (Some file_buff))"
proof -
  obtain os where os: "fdfs_pack_metadata os = Some file_buff" "\<forall>m \<in> set os. meta_ok m" "sorted_key md_name os"
    using f by (auto simp: meta_file_ok_def)
  note q = qsort_meta [OF ms(1)]
  let ?all = "merge_metadata os (qsort metadata_cmp_by_name ms)"
  have ok: "\<forall>m \<in> set ?all. meta_ok m" using set_merge os(2) q(2) by blast
  have map_all: "meta_map ?all = meta_file_map (Some file_buff) ++ meta_map ms"
    using meta_map_merge [OF os(3) q(1)] q(3) meta_file_packed(2) [OF os] by simp
  have "os \<noteq> []" using os(1) by (auto simp: fdfs_pack_metadata_def)
  then have "?all \<noteq> []" by (cases os; cases "qsort metadata_cmp_by_name ms") (auto simp: Let_def)
  then obtain p where p: "fdfs_pack_metadata ?all = Some p" by (simp add: fdfs_pack_metadata_def)
  note new = meta_file_packed [OF p ok sorted_merge [OF os(3) q(1)]]
  have "fdfs_split_metadata mem file_buff = (if fst mem \<and> snd mem then Inr os else Inl ENOMEM)"
    "fdfs_split_metadata mem b = (if fst mem \<and> snd mem then Inr ms else Inl ENOMEM)" for mem
    using split_pack_mem os(1,2) ms by (simp_all add: meta_list_ok_def)
  then show ?thesis using new map_all env f p
    by (auto simp: merge_file_def meta_env_ok_def Let_def split: write_outcome.splits)
qed

lemma packed_nonempty: "fdfs_pack_metadata ms = Some b \<Longrightarrow> b \<noteq> []"
proof -
  assume "fdfs_pack_metadata ms = Some b"
  then have "b = join_cols 1 (map meta_row ms)" "ms \<noteq> []" using pack_join by (auto simp: fdfs_pack_metadata_def split: if_splits)
  then show "b \<noteq> []" by (cases ms rule: remdups_adj.cases) (auto simp: meta_row_def)
qed

lemma set_metadata_step:
  assumes "meta_list_ok ms" "meta_env_ok env" "meta_file_ok f"
  shows "\<exists>r fl f'. storage_do_set_metadata env flag (set_metadata_bytes ms) f = Some (r, fl, f') \<and> meta_file_ok f' \<and>
    meta_file_map f' = (if r = 0 then meta_update flag ms (meta_file_map f) else meta_file_map f)"
proof (cases "fdfs_pack_metadata ms")
  case None
  then have "ms = []" by (auto simp: fdfs_pack_metadata_def split: if_splits)
  then show ?thesis using None assms(3)
    by (cases flag) (auto simp: storage_do_set_metadata_def set_metadata_bytes_def meta_update_def meta_file_ok_def meta_file_map_def meta_map_def)
next
  case (Some b)
  then have b: "b \<noteq> []" by (rule packed_nonempty)
  note spec = sort_and_write_spec [OF assms(1) Some assms(2,3)]
  show ?thesis
  proof (cases flag)
    case METADATA_OVERWRITE
    obtain r fl f' where r: "sort_and_write env (if f = None then Sync_Create else Sync_Update) b f = (r, fl, f')" "meta_file_ok f'"
      "meta_file_map f' = (if r = 0 then meta_map ms else meta_file_map f)" using spec by metis
    have "storage_do_set_metadata env flag (set_metadata_bytes ms) f = Some (r, fl, f')"
      unfolding storage_do_set_metadata_def METADATA_OVERWRITE op_flag.case r(1) [symmetric] using b by (simp add: set_metadata_bytes_def Some)
    then show ?thesis using r(2,3) METADATA_OVERWRITE by (simp add: meta_update_def)
  next
    case METADATA_MERGE
    show ?thesis
    proof (cases f)
      case None
      then have "meta_file_map f = Map.empty" by (simp add: meta_file_map_def)
      then show ?thesis using spec [of Sync_Create] b METADATA_MERGE assms(2,3) None
        by (auto simp: storage_do_set_metadata_def set_metadata_bytes_def Some meta_update_def meta_env_ok_def Let_def)
    next
      case (Some file_buff)
      then obtain r fl f' where "merge_file env b file_buff = Some (r, fl, f')" "meta_file_ok f'"
        "meta_file_map f' = (if r = 0 then meta_file_map f ++ meta_map ms else meta_file_map f)"
        using merge_file_spec [OF assms(1) \<open>fdfs_pack_metadata ms = Some b\<close> assms(2), of file_buff] assms(3) by auto
      then show ?thesis using b METADATA_MERGE assms(2,3) Some
        by (auto simp: storage_do_set_metadata_def set_metadata_bytes_def \<open>fdfs_pack_metadata ms = Some b\<close> meta_update_def meta_env_ok_def Let_def)
    qed
  qed
qed

section \<open>Properties\<close>

text \<open>A run of requests on one file: the results, and the file at the end.\<close>

fun set_metadata_run ::
    "(meta_env \<times> op_flag \<times> FDFSMetaData list) list \<Rightarrow> byte list option \<Rightarrow> (int list \<times> byte list option) option" where
  "set_metadata_run [] f = Some ([], f)"
| "set_metadata_run ((env, flag, ms) # reqs) f =
     (case storage_do_set_metadata env flag (set_metadata_bytes ms) f of
        None \<Rightarrow> None
      | Some (r, _, f') \<Rightarrow> map_option (\<lambda>(rs, f''). (r # rs, f'')) (set_metadata_run reqs f'))"

text \<open>What it should do: a request with result 0 replaces or updates the map, one with an error leaves it.\<close>

fun meta_spec :: "(meta_env \<times> op_flag \<times> FDFSMetaData list) list \<Rightarrow> int list \<Rightarrow> (byte list \<Rightarrow> byte list option) \<Rightarrow> byte list \<Rightarrow> byte list option" where
  "meta_spec ((env, flag, ms) # reqs) (r # rs) m = meta_spec reqs rs (if r = 0 then meta_update flag ms m else m)"
| "meta_spec _ _ m = m"

lemma set_metadata_run_spec:
  "\<lbrakk>\<forall>(env, flag, ms) \<in> set reqs. meta_env_ok env \<and> meta_list_ok ms; meta_file_ok f\<rbrakk> \<Longrightarrow>
   \<exists>rs f'. set_metadata_run reqs f = Some (rs, f') \<and> length rs = length reqs \<and> meta_file_ok f' \<and>
     meta_file_map f' = meta_spec reqs rs (meta_file_map f)"
proof (induction reqs arbitrary: f)
  case (Cons req reqs)
  obtain env flag ms where req: "req = (env, flag, ms)" by (cases req)
  obtain r fl f1 where r: "storage_do_set_metadata env flag (set_metadata_bytes ms) f = Some (r, fl, f1)" "meta_file_ok f1"
    "meta_file_map f1 = (if r = 0 then meta_update flag ms (meta_file_map f) else meta_file_map f)"
    using set_metadata_step [of ms env f flag] Cons.prems by (auto simp: req)
  obtain rs f' where "set_metadata_run reqs f1 = Some (rs, f')" "length rs = length reqs" "meta_file_ok f'"
    "meta_file_map f' = meta_spec reqs rs (meta_file_map f1)" using Cons.IH [OF _ r(2)] Cons.prems(1) by auto
  then show ?case using r(1,3) by (simp add: req)
qed simp

text \<open>C21. Setting metadata refines updates of a map. From a file without metadata, take a sequence of requests with well-formed lists (fields within
  their limits, no separators, no name twice), on a system whose memory, reads and opening of files may fail, but which stops no write of the metadata file
  half-way, does not fail to sync it, and where nobody else deletes the file. It runs without an invalid access; an overwrite with result 0 replaces the map, a merge with result
  0 adds to it and replaces the values of the names it knows, and a request with an error changes nothing. At the end the metadata
  file does not exist and the map is empty, or a client that gets the file reads a list sorted by name, with no name twice, whose
  entries are exactly the map's.\<close>

theorem metadata_refines_map:
  assumes "\<forall>(env, flag, ms) \<in> set reqs. meta_env_ok env \<and> meta_list_ok ms"
  shows "\<exists>rs f. set_metadata_run reqs None = Some (rs, f) \<and> length rs = length reqs \<and>
    (case f of
       None \<Rightarrow> meta_spec reqs rs Map.empty = Map.empty
     | Some b \<Rightarrow> length b < 2 ^ 31 \<longrightarrow> (\<exists>ms. storage_get_metadata net_error 0 (True, True) (Inr (tracker_response (Inr b))) = Inr ms \<and>
         sorted_key md_name ms \<and> meta_map ms = meta_spec reqs rs Map.empty))"
proof -
  have "meta_file_ok None" "meta_file_map None = Map.empty" by (simp_all add: meta_file_ok_def meta_file_map_def)
  then obtain rs f where run: "set_metadata_run reqs None = Some (rs, f)" "length rs = length reqs" "meta_file_ok f"
    "meta_file_map f = meta_spec reqs rs Map.empty" using set_metadata_run_spec [OF assms, of None] by auto
  have "\<exists>ms. storage_get_metadata net_error 0 (True, True) (Inr (tracker_response (Inr b))) = Inr ms \<and>
      sorted_key md_name ms \<and> meta_map ms = meta_spec reqs rs Map.empty" if fb: "f = Some b" and len: "length b < 2 ^ 31" for b
  proof -
    obtain ms where ms: "fdfs_pack_metadata ms = Some b" "\<forall>m \<in> set ms. meta_ok m" "sorted_key md_name ms"
      using run(3) unfolding fb meta_file_ok_def by auto
    have "b \<noteq> []" using packed_nonempty [OF ms(1)] .
    then have "storage_get_metadata net_error 0 (True, True) (Inr (tracker_response (Inr b))) = Inr ms"
      using split_pack [OF ms(2,1)] by (simp add: storage_get_metadata_def recv_alloc [OF len])
    then show ?thesis using ms(3) meta_file_packed(2) [OF ms] run(4) fb by auto
  qed
  then show ?thesis using run by (intro exI [of _ rs] exI [of _ f]) (auto simp: meta_file_map_def split: option.splits)
qed

text \<open>Two servers' answers: everything succeeds, and the metadata file cannot be opened for writing.\<close>

definition demo_meta_env :: meta_env where
  "demo_meta_env = \<lparr>me_mem_old = (True, True), me_mem_new = (True, True), me_mem_all = 0, me_mem_pack = 0,
     me_unlink = 0, me_read = 0, me_write = Written\<rparr>"

definition demo_meta :: "(meta_env \<times> op_flag \<times> FDFSMetaData list) list" where
  "demo_meta =
     [(demo_meta_env, METADATA_OVERWRITE, [\<lparr>md_name = [98], md_value = [49]\<rparr>, \<lparr>md_name = [97], md_value = [50]\<rparr>]),
      (demo_meta_env\<lparr>me_write := Open_Fails 13\<rparr>, METADATA_MERGE, [\<lparr>md_name = [97], md_value = [51]\<rparr>]),
      (demo_meta_env, METADATA_MERGE, [\<lparr>md_name = [99], md_value = []\<rparr>, \<lparr>md_name = [98], md_value = [52]\<rparr>])]"

lemma demo_meta_ok: "\<forall>(env, flag, ms) \<in> set demo_meta. meta_env_ok env \<and> meta_list_ok ms"
  by (simp add: demo_meta_def demo_meta_env_def meta_env_ok_def meta_list_ok_def meta_ok_def)

theorem metadata_refines_map_witness:
  "\<exists>b ms. set_metadata_run demo_meta None = Some ([0, 13, 0], Some b) \<and>
     storage_get_metadata 110 0 (True, True) (Inr (tracker_response (Inr b))) = Inr ms \<and> sorted_key md_name ms \<and>
     meta_map ms = [[98] \<mapsto> [52], [97] \<mapsto> [50], [99] \<mapsto> []]"
proof -
  have run: "set_metadata_run demo_meta None = Some ([0, 13, 0], Some [97, 2, 50, 1, 98, 2, 52, 1, 99, 2])" by code_simp
  have spec: "meta_spec demo_meta [0, 13, 0] Map.empty = [[98] \<mapsto> [52], [97] \<mapsto> [50], [99] \<mapsto> []]"
    by (auto simp: demo_meta_def meta_update_def meta_map_def fun_eq_iff map_add_def)
  show ?thesis using metadata_refines_map [OF demo_meta_ok, of 110] unfolding run spec [symmetric] by simp
qed

text \<open>Metadata that contains no separator of name and value leads to an invalid write. An overwrite with it is accepted and leaves a file without
  entries, and a merge of such metadata with that file writes a zero byte before the memory allocated for the result.\<close>

theorem metadata_invalid_write:
  assumes "b \<noteq> []" "c \<noteq> []" "0 \<notin> set b \<union> set c" "2 \<notin> set b \<union> set c" and env: "env = demo_meta_env"
  shows "\<exists>b'. storage_do_set_metadata env METADATA_OVERWRITE b None = Some (0, Sync_Create, Some b') \<and> length b' = length b \<and>
    storage_do_set_metadata env METADATA_MERGE c (Some b') = None"
proof -
  have none: "fdfs_split_metadata (True, True) s = Inr []" if "2 \<notin> set s" for s
  proof -
    have "2 \<notin> set (c_str s)" using that by (auto simp: c_str_def dest: set_takeWhileD)
    then have "split_row 2 r = None" if "r \<in> set (splitEx_loop (Suc (count_list (c_str s) 1)) 1 (c_str s))" for r
      using split_columns [OF that] by (auto simp: split_row_def strchr_None)
    then show ?thesis
      by (simp add: fdfs_split_metadata_def fdfs_split_metadata_ex_def splitEx_def getOccurCount_def occur_loop nat_add_distrib Let_def
          List.map_filter_def filter_False del: splitEx_loop.simps)
  qed
  let ?b = "split_in_place b"
  have "2 \<notin> set ?b" using assms(4) by (auto simp: split_in_place_def c_str_def dest: set_takeWhileD in_set_dropD split: if_splits)
  moreover have "length ?b = length b" by (simp add: split_in_place_def c_str_def length_takeWhile_le)
  moreover have "storage_sort_metadata_buff (True, True) b = Inr ?b"
    using none [of b] assms(4) by (simp add: storage_sort_metadata_buff_def fdfs_pack_metadata_def qsort_def)
  ultimately show ?thesis
    using assms(1,2,4) none [of ?b] none [of c]
    by (simp add: storage_do_set_metadata_def sort_and_write_def env demo_meta_env_def merge_file_def fdfs_pack_metadata_def qsort_def Let_def)
qed

theorem metadata_invalid_write_witness:
  "\<exists>b'. storage_do_set_metadata demo_meta_env METADATA_OVERWRITE [97, 98] None = Some (0, Sync_Create, Some b') \<and> length b' = Suc (Suc 0) \<and>
    storage_do_set_metadata demo_meta_env METADATA_MERGE [99] (Some b') = None"
  using metadata_invalid_write [of "[97, 98]" "[99]" demo_meta_env] by simp

end
